(* ===== verification/Prelude.thy ===== *)
theory Prelude
  imports Main "HOL-Library.Word"
begin

text \<open>
  What every component of the decoder models shares: the machine integer types of the C code,
  bit-per-byte buffers, \<open>memcpy\<close> on arrays, loops that fill an array by index, and the lemma
  collections the component proofs use.

  An array of the C code is a list of its elements. A pointer into a buffer whose extent the callee
  does not know (\<open>const uint8_t *bits\<close>) is a function from the offset to the byte found there.
  A read or a write that the C code may do outside an array is a branch of the model
  (\<^theory_text>\<open>None\<close> or an error value), never a call of \<open>nth\<close> out of range.
\<close>

unbundle bit_operations_syntax

type_synonym u8 = "8 word"
type_synonym u16 = "16 word"
type_synonym u32 = "32 word"
type_synonym u64 = "64 word"

named_theorems len_simps \<open>lengths of the buffers the operations return\<close>
named_theorems nth_simps \<open>elements of the buffers the operations return\<close>

text \<open>The error number of an invalid argument.\<close>

definition EINVAL :: int where "EINVAL = 22"

section \<open>Bit-per-byte buffers\<close>

text \<open>A buffer of \<open>ubit_t\<close>: one bit in each byte.\<close>

definition is_bits :: "u8 list \<Rightarrow> bool" where
  "is_bits xs \<longleftrightarrow> (\<forall>x \<in> set xs. x = 0 \<or> x = 1)"

lemma is_bits_Nil [simp]: "is_bits []"
  by (simp add: is_bits_def)

lemma is_bits_Cons [simp]: "is_bits (x # xs) \<longleftrightarrow> (x = 0 \<or> x = 1) \<and> is_bits xs"
  by (auto simp: is_bits_def)

lemma is_bits_append [simp]: "is_bits (xs @ ys) \<longleftrightarrow> is_bits xs \<and> is_bits ys"
  by (auto simp: is_bits_def)

lemma is_bits_take [intro]: "is_bits xs \<Longrightarrow> is_bits (take n xs)"
  by (auto simp: is_bits_def dest: in_set_takeD)

lemma is_bits_drop [intro]: "is_bits xs \<Longrightarrow> is_bits (drop n xs)"
  by (auto simp: is_bits_def dest: in_set_dropD)

lemma is_bits_nth: "is_bits xs \<Longrightarrow> i < length xs \<Longrightarrow> xs ! i = 0 \<or> xs ! i = 1"
  by (auto simp: is_bits_def)

lemma is_bits_replicate [simp]: "is_bits (replicate n x) \<longleftrightarrow> n = 0 \<or> x = 0 \<or> x = 1"
  by (auto simp: is_bits_def)

section \<open>memcpy\<close>

text \<open>\<open>memcpy(dst + off, src, len)\<close> on an array: the elements from \<open>off\<close> on are overwritten.\<close>

definition blit :: "'a list \<Rightarrow> nat \<Rightarrow> 'a list \<Rightarrow> 'a list" where
  "blit dst off src = take off dst @ src @ drop (off + length src) dst"

lemma length_blit [len_simps, simp]:
  "off + length src \<le> length dst \<Longrightarrow> length (blit dst off src) = length dst"
  by (simp add: blit_def)

lemma nth_blit [nth_simps]:
  assumes "off + length src \<le> length dst" "i < length dst"
  shows "blit dst off src ! i =
    (if off \<le> i \<and> i < off + length src then src ! (i - off) else dst ! i)"
  using assms by (auto simp: blit_def nth_append min_def)

text \<open>The part of an array from \<open>off\<close>, \<open>len\<close> elements long.\<close>

definition slice :: "'a list \<Rightarrow> nat \<Rightarrow> nat \<Rightarrow> 'a list" where
  "slice xs off len = take len (drop off xs)"

lemma length_slice [len_simps, simp]: "off + len \<le> length xs \<Longrightarrow> length (slice xs off len) = len"
  by (simp add: slice_def)

lemma nth_slice [nth_simps]:
  "off + len \<le> length xs \<Longrightarrow> i < len \<Longrightarrow> slice xs off len ! i = xs ! (off + i)"
  by (simp add: slice_def)

lemma slice_append_eq:
  "length as = off \<Longrightarrow> length bs = len \<Longrightarrow> slice (as @ bs @ cs) off len = bs"
  by (auto simp: slice_def)

section \<open>Loops that store by index\<close>

text \<open>
  \<open>for (i in is) out[f(i)] = g(i)\<close>: the indices in order, each one a store. A store past the end of
  the list is dropped, so every use states that the indices are in range.
\<close>

fun store_loop :: "('i \<Rightarrow> nat) \<Rightarrow> ('i \<Rightarrow> 'a) \<Rightarrow> 'i list \<Rightarrow> 'a list \<Rightarrow> 'a list" where
  "store_loop f g [] out = out"
| "store_loop f g (i # is) out = store_loop f g is (out[f i := g i])"

lemma length_store_loop [len_simps, simp]: "length (store_loop f g is out) = length out"
  by (induction "is" arbitrary: out) auto

lemma nth_store_loop_notin:
  "j \<notin> f ` set is \<Longrightarrow> store_loop f g is out ! j = out ! j"
  by (induction "is" arbitrary: out) auto

lemma nth_store_loop:
  assumes "distinct (map f is)" "i \<in> set is" "f i < length out"
  shows "store_loop f g is out ! f i = g i"
  using assms
proof (induction "is" arbitrary: out)
  case Nil
  then show ?case by simp
next
  case (Cons k ks)
  show ?case
  proof (cases "i = k")
    case True
    with Cons.prems have "f i \<notin> f ` set ks" by auto
    with Cons.prems True show ?thesis by (simp add: nth_store_loop_notin)
  next
    case False
    with Cons show ?thesis by auto
  qed
qed

lemma store_loop_append:
  "store_loop f g (xs @ ys) out = store_loop f g ys (store_loop f g xs out)"
  by (induction xs arbitrary: out) auto

lemma store_loop_cong:
  assumes "\<And>i. i \<in> set xs \<Longrightarrow> f i = f' i" "\<And>i. i \<in> set xs \<Longrightarrow> g i = g' i"
  shows "store_loop f g xs out = store_loop f' g' xs out"
  using assms by (induction xs arbitrary: out) auto

section \<open>Searches by index\<close>

lemma find_upt_None: "find P [0..<n] = None \<longleftrightarrow> (\<forall>i<n. \<not> P i)"
  by (auto simp: find_None_iff)

lemma find_upt_Some: "find P [0..<n] = Some i \<longleftrightarrow> i < n \<and> P i \<and> (\<forall>j<i. \<not> P j)"
proof
  assume "find P [0..<n] = Some i"
  then show "i < n \<and> P i \<and> (\<forall>j<i. \<not> P j)" by (auto simp: find_Some_iff)
next
  assume *: "i < n \<and> P i \<and> (\<forall>j<i. \<not> P j)"
  then show "find P [0..<n] = Some i"
    unfolding find_Some_iff by (intro exI [of _ i]) simp
qed

section \<open>Words\<close>

text \<open>Shifts stay shifts under the simplifier (not multiplications).\<close>

declare push_bit_Suc [simp del] push_bit_of_1 [simp del]

text \<open>Bits of a numeral are decided position by position.\<close>

lemma less_8_cases:
  fixes n :: nat
  assumes "n < 8"
  obtains "n = 0" | "n = 1" | "n = 2" | "n = 3" | "n = 4" | "n = 5" | "n = 6" | "n = 7"
  using assms by (auto simp: eval_nat_numeral less_Suc_eq)

lemma less_16_cases:
  fixes n :: nat
  assumes "n < 16"
  obtains "n = 0" | "n = 1" | "n = 2" | "n = 3" | "n = 4" | "n = 5" | "n = 6" | "n = 7"
    | "n = 8" | "n = 9" | "n = 10" | "n = 11" | "n = 12" | "n = 13" | "n = 14" | "n = 15"
  using assms by (auto simp: eval_nat_numeral less_Suc_eq)

lemma word_xor_cancel_left [simp]: "a XOR (a XOR b) = b" for a b :: "'a::len word"
  by (simp add: xor.assoc [symmetric])

lemma word_xor_cancel_right [simp]: "(b XOR a) XOR a = b" for a b :: "'a::len word"
  by (simp add: xor.assoc)

lemma word_xor_cancel_mid [simp]: "(a XOR b) XOR a = b" for a b :: "'a::len word"
  by (metis word_xor_cancel_left xor.commute)

lemma word_xor_eq_iff: "a XOR b = c \<longleftrightarrow> b = a XOR c" for a b c :: "'a::len word"
  by (metis word_xor_cancel_left)

lemma unat_u32_less: "unat x < 4294967296" for x :: u32
  using unsigned_less [of x, where ?'a = nat] by simp

lemma unat_u16_less: "unat x < 65536" for x :: u16
  using unsigned_less [of x, where ?'a = nat] by simp

lemma unat_u8_less: "unat x < 256" for x :: u8
  using unsigned_less [of x, where ?'a = nat] by simp

lemma unat_of_nat_lt: "n < 2 ^ LENGTH('a) \<Longrightarrow> unat (of_nat n :: 'a::len word) = n"
  by (simp add: unat_of_nat take_bit_nat_eq_self)

lemma bit_high:
  fixes x :: "'a::len word"
  assumes "x < 2 ^ n" "n \<le> i"
  shows "\<not> bit x i"
proof (cases "n < LENGTH('a)")
  case True
  then have "unat x < 2 ^ n"
    using assms(1) unat_of_nat_lt [of "2 ^ n", where 'a = 'a] by (simp add: word_less_nat_alt)
  then have "take_bit n x = x"
    by (simp add: word_unat_eq_iff unsigned_take_bit_eq take_bit_nat_eq_self)
  then show ?thesis using assms(2) by (metis bit_take_bit_iff not_le)
next
  case False
  then show ?thesis using assms(2) by (meson bit_imp_le_length le_trans not_less)
qed

text \<open>Widening keeps the value.\<close>

lemma unat_widen:
  fixes x :: "'a::len word"
  assumes "LENGTH('a) \<le> LENGTH('b::len)"
  shows "unat (ucast x :: 'b word) = unat x"
proof -
  have "unat x < 2 ^ LENGTH('b)"
    by (rule less_le_trans [OF unsigned_less power_increasing [OF assms]]) simp
  then show ?thesis by (simp add: unsigned_ucast_eq take_bit_nat_eq_self_iff)
qed

lemma unat_widen_c [simp]:
  "unat (ucast (x8 :: u8) :: u16) = unat x8" "unat (ucast x8 :: u32) = unat x8"
  "unat (ucast x8 :: u64) = unat x8"
  "unat (ucast (x16 :: u16) :: u32) = unat x16" "unat (ucast x16 :: u64) = unat x16"
  "unat (ucast (x32 :: u32) :: u64) = unat x32"
  by (rule unat_widen, simp)+

end
