(* ===== verification/Tdma.thy ===== *)
theory Tdma
  imports Prelude
begin

text \<open>
  The TDMA clock of the air interface: \<open>tetra_tdma.h\<close> and \<open>tetra_tdma.c\<close>. A time is a hyperframe,
  multiframe, frame, timeslot and symbol number; the \<open>add\<close> operations advance one of them and carry
  into the slower ones. The lemmas show when the clock stays in the ranges the header documents, that
  advancing by one timeslot is the cyclic successor on valid times, and where the carries go wrong
  for larger steps.
\<close>

record tetra_tdma_time =
  hn :: u16   \<comment> \<open>hyperframe number\<close>
  sn :: u32   \<comment> \<open>symbol number (1 ... 255)\<close>
  tn :: u32   \<comment> \<open>timeslot number (1 .. 4)\<close>
  fn :: u32   \<comment> \<open>frame number (1 .. 18)\<close>
  mn :: u32   \<comment> \<open>multiframe number (1 .. 60)\<close>

definition normalize_mn :: "tetra_tdma_time \<Rightarrow> tetra_tdma_time" where
  "normalize_mn tm = (if mn tm > 60 then tm\<lparr>mn := mn tm mod 60\<rparr> else tm)"

definition normalize_fn :: "tetra_tdma_time \<Rightarrow> tetra_tdma_time" where
  "normalize_fn tm =
    (let tm' = (if fn tm > 18
                then (let mn_delta = fn tm div 18
                      in tm\<lparr>fn := fn tm mod 18, mn := mn tm + mn_delta\<rparr>)
                else tm)
     in normalize_mn tm')"

definition normalize_tn :: "tetra_tdma_time \<Rightarrow> tetra_tdma_time" where
  "normalize_tn tm =
    (let tm' = (if tn tm > 4
                then (let fn_delta = tn tm div 4
                      in tm\<lparr>tn := tn tm mod 4, fn := fn tm + fn_delta\<rparr>)
                else tm)
     in normalize_fn tm')"

definition normalize_sn :: "tetra_tdma_time \<Rightarrow> tetra_tdma_time" where
  "normalize_sn tm =
    (let tm' = (if sn tm > 255
                then (let tn_delta = sn tm div 255
                      in tm\<lparr>sn := (sn tm mod 255) + 1, tn := tn tm + tn_delta\<rparr>)
                else tm)
     in normalize_tn tm')"

definition tetra_tdma_time_add_sym :: "tetra_tdma_time \<Rightarrow> u32 \<Rightarrow> tetra_tdma_time" where
  "tetra_tdma_time_add_sym tm sym_count = normalize_sn (tm\<lparr>sn := sn tm + sym_count\<rparr>)"

definition tetra_tdma_time_add_tn :: "tetra_tdma_time \<Rightarrow> u32 \<Rightarrow> tetra_tdma_time" where
  "tetra_tdma_time_add_tn tm tn_count = normalize_tn (tm\<lparr>tn := tn tm + tn_count\<rparr>)"

definition tetra_tdma_time_add_fn :: "tetra_tdma_time \<Rightarrow> u32 \<Rightarrow> tetra_tdma_time" where
  "tetra_tdma_time_add_fn tm fn_count = normalize_fn (tm\<lparr>fn := fn tm + fn_count\<rparr>)"

text \<open>The \<open>uint16_t\<close> hyperframe number is promoted to \<open>int\<close>, then the sum is unsigned.\<close>

definition tetra_tdma_time2fn :: "tetra_tdma_time \<Rightarrow> u32" where
  "tetra_tdma_time2fn tm = (((ucast (hn tm) * 60) + mn tm) * 18) + fn tm"

section \<open>The ranges of the header, and the slot counter they encode\<close>

definition valid_time :: "tetra_tdma_time \<Rightarrow> bool" where
  "valid_time tm \<longleftrightarrow> 1 \<le> tn tm \<and> tn tm \<le> 4 \<and> 1 \<le> fn tm \<and> fn tm \<le> 18 \<and> 1 \<le> mn tm \<and> mn tm \<le> 60"

text \<open>Timeslots since the first slot of the hyperframe: the abstraction of a time.\<close>

definition slot_index :: "tetra_tdma_time \<Rightarrow> nat" where
  "slot_index tm = ((unat (mn tm) - 1) * 18 + (unat (fn tm) - 1)) * 4 + (unat (tn tm) - 1)"

abbreviation slots_per_hyperframe :: nat where
  "slots_per_hyperframe \<equiv> 4 * 18 * 60"

lemmas normalize_defs = normalize_mn_def normalize_fn_def normalize_tn_def normalize_sn_def Let_def

lemma valid_time_nat:
  "valid_time tm \<longleftrightarrow> 1 \<le> unat (tn tm) \<and> unat (tn tm) \<le> 4 \<and> 1 \<le> unat (fn tm) \<and> unat (fn tm) \<le> 18
    \<and> 1 \<le> unat (mn tm) \<and> unat (mn tm) \<le> 60"
  by (simp add: valid_time_def word_le_nat_alt)

lemma u32_succ_nat: "unat x \<le> 60 \<Longrightarrow> unat (x + 1) = Suc (unat x)" for x :: u32
  by (simp add: unat_word_ariths)

lemma u32_gt_nat: "unat k = n \<Longrightarrow> (x > k) = (unat x > n)" for x k :: u32
  by (simp add: word_less_nat_alt)

lemma normalize_mn_id: "unat (mn tm) \<le> 60 \<Longrightarrow> normalize_mn tm = tm"
  by (simp add: normalize_mn_def word_less_nat_alt)

lemma add_tn_one_cases:
  assumes "valid_time tm"
  shows "tetra_tdma_time_add_tn tm 1 =
    (if tn tm \<noteq> 4 then tm\<lparr>tn := tn tm + 1\<rparr>
     else if fn tm \<noteq> 18 then tm\<lparr>tn := 1, fn := fn tm + 1\<rparr>
     else if mn tm \<noteq> 60 then tm\<lparr>tn := 1, fn := 1, mn := mn tm + 1\<rparr>
     else tm\<lparr>tn := 1, fn := 1, mn := 1\<rparr>)"
proof -
  have u: "unat (tn tm) \<le> 4" "unat (fn tm) \<le> 18" "unat (mn tm) \<le> 60"
    using assms by (auto simp: valid_time_nat)
  have eq: "tn tm = 4 \<longleftrightarrow> unat (tn tm) = 4" "fn tm = 18 \<longleftrightarrow> unat (fn tm) = 18"
    "mn tm = 60 \<longleftrightarrow> unat (mn tm) = 60"
    by (simp_all add: word_unat_eq_iff)
  have g: "(tn tm + 1 > 4) = (tn tm = 4)" "(fn tm + 1 > 18) = (fn tm = 18)"
    "(mn tm + 1 > 60) = (mn tm = 60)" "\<not> fn tm > 18" "\<not> mn tm > 60"
    using u by (auto simp: word_less_nat_alt u32_succ_nat eq)
  show ?thesis
    by (cases "tn tm = 4"; cases "fn tm = 18"; cases "mn tm = 60")
      (simp_all add: tetra_tdma_time_add_tn_def normalize_defs g)
qed

lemma add_tn_one_valid: "valid_time tm \<Longrightarrow> valid_time (tetra_tdma_time_add_tn tm 1)"
  by (auto simp: add_tn_one_cases valid_time_nat u32_succ_nat word_unat_eq_iff)

lemma slot_index_less: "valid_time tm \<Longrightarrow> slot_index tm < slots_per_hyperframe"
  by (auto simp: valid_time_nat slot_index_def)

lemma slot_index_add_tn_one:
  assumes "valid_time tm"
  shows "slot_index (tetra_tdma_time_add_tn tm 1) = (slot_index tm + 1) mod slots_per_hyperframe"
proof -
  have u: "1 \<le> unat (tn tm)" "unat (tn tm) \<le> 4" "1 \<le> unat (fn tm)" "unat (fn tm) \<le> 18"
    "1 \<le> unat (mn tm)" "unat (mn tm) \<le> 60"
    using assms by (auto simp: valid_time_nat)
  show ?thesis
  proof (cases "tn tm = 4 \<and> fn tm = 18 \<and> mn tm = 60")
    case True
    then show ?thesis by (simp add: add_tn_one_cases assms slot_index_def)
  next
    case False
    have "slot_index (tetra_tdma_time_add_tn tm 1) = slot_index tm + 1"
      using False u
      by (cases "tn tm = 4"; cases "fn tm = 18"; cases "mn tm = 60")
        (auto simp: add_tn_one_cases assms slot_index_def u32_succ_nat word_unat_eq_iff)
    moreover have "slot_index (tetra_tdma_time_add_tn tm 1) < slots_per_hyperframe"
      by (rule slot_index_less [OF add_tn_one_valid [OF assms]])
    ultimately show ?thesis by simp
  qed
qed

lemma slot_index_inj:
  assumes "valid_time a" "valid_time b" "slot_index a = slot_index b"
  shows "tn a = tn b \<and> fn a = fn b \<and> mn a = mn b"
proof -
  have m: "(x * 4 + y) mod 4 = y" "(x * 4 + y) div 4 = x" if "y < 4" for x y :: nat
    using that by auto
  have m': "(x * 18 + y) mod 18 = y" "(x * 18 + y) div 18 = x" if "y < 18" for x y :: nat
    using that by auto
  have ua: "unat (tn a) - 1 < 4" "unat (tn b) - 1 < 4" "unat (fn a) - 1 < 18" "unat (fn b) - 1 < 18"
    using assms(1,2) by (auto simp: valid_time_nat)
  from assms(3) have "slot_index a mod 4 = slot_index b mod 4" "slot_index a div 4 = slot_index b div 4"
    by simp_all
  then have t: "unat (tn a) - 1 = unat (tn b) - 1"
    and f: "(unat (mn a) - 1) * 18 + (unat (fn a) - 1) = (unat (mn b) - 1) * 18 + (unat (fn b) - 1)"
    unfolding slot_index_def by (simp_all only: m ua)
  have "unat (fn a) - 1 = unat (fn b) - 1" "unat (mn a) - 1 = unat (mn b) - 1"
    using arg_cong [OF f, of "\<lambda>x. x mod 18"] arg_cong [OF f, of "\<lambda>x. x div 18"]
    by (simp_all only: m' ua)
  with t assms(1,2) show ?thesis
    by (auto simp: valid_time_nat word_unat_eq_iff)
qed

text \<open>Running the clock: \<open>n\<close> bursts received, one timeslot each.\<close>

fun run_slots :: "nat \<Rightarrow> tetra_tdma_time \<Rightarrow> tetra_tdma_time" where
  "run_slots 0 tm = tm"
| "run_slots (Suc n) tm = run_slots n (tetra_tdma_time_add_tn tm 1)"

lemma run_slots_valid: "valid_time tm \<Longrightarrow> valid_time (run_slots n tm)"
  by (induction n arbitrary: tm) (auto simp: add_tn_one_valid)

lemma slot_index_run_slots:
  "valid_time tm \<Longrightarrow> slot_index (run_slots n tm) = (slot_index tm + n) mod slots_per_hyperframe"
proof (induction n arbitrary: tm)
  case 0
  then show ?case using slot_index_less [of tm] by simp
next
  case (Suc n)
  then have "slot_index (run_slots (Suc n) tm)
      = (slot_index (tetra_tdma_time_add_tn tm 1) + n) mod slots_per_hyperframe"
    by (simp add: add_tn_one_valid)
  also have "\<dots> = (slot_index tm + 1 + n) mod slots_per_hyperframe"
    by (simp add: slot_index_add_tn_one Suc.prems mod_add_left_eq)
  finally show ?case by (simp add: add.commute add.left_commute)
qed

section \<open>Properties\<close>

text \<open>
  Counting timeslots one at a time keeps a valid time in its documented ranges forever, and is the
  cyclic count of the 4320 slots of a hyperframe: after \<open>n\<close> slots the slot index has advanced by \<open>n\<close>
  modulo 4320.
\<close>

theorem tdma_clock_counts_slots:
  assumes "valid_time tm"
  shows "valid_time (run_slots n tm) \<and> slot_index (run_slots n tm) = (slot_index tm + n) mod 4320"
  using run_slots_valid [OF assms] slot_index_run_slots [OF assms, of n] by simp

theorem tdma_clock_counts_slots_witness:
  "valid_time (run_slots 3 \<lparr>hn = 0, sn = 1, tn = 3, fn = 18, mn = 60\<rparr>)
    \<and> slot_index (run_slots 3 \<lparr>hn = 0, sn = 1, tn = 3, fn = 18, mn = 60\<rparr>)
      = (slot_index \<lparr>hn = 0, sn = 1, tn = 3, fn = 18, mn = 60\<rparr> + 3) mod 4320"
  by (rule tdma_clock_counts_slots) (simp add: valid_time_def)

text \<open>
  The carries are off by one everywhere else: a step of four timeslots from slot 4 gives slot 0,
  eighteen frames from frame 18 give frame 0, and one symbol from symbol 255 gives symbol 2, so none
  of the results is the documented successor, and the first two are outside the documented ranges.
\<close>

theorem tdma_carries_leave_ranges:
  "tetra_tdma_time_add_tn \<lparr>hn = 0, sn = 1, tn = 4, fn = 5, mn = 1\<rparr> 4 = \<lparr>hn = 0, sn = 1, tn = 0, fn = 7, mn = 1\<rparr>
    \<and> tetra_tdma_time_add_fn \<lparr>hn = 0, sn = 1, tn = 4, fn = 18, mn = 1\<rparr> 18
      = \<lparr>hn = 0, sn = 1, tn = 4, fn = 0, mn = 3\<rparr>
    \<and> tetra_tdma_time_add_sym \<lparr>hn = 0, sn = 255, tn = 1, fn = 1, mn = 1\<rparr> 1
      = \<lparr>hn = 0, sn = 2, tn = 2, fn = 1, mn = 1\<rparr>"
  by (simp add: tetra_tdma_time_add_tn_def tetra_tdma_time_add_fn_def tetra_tdma_time_add_sym_def normalize_defs)

end
