(* ===== verification/Crc.thy ===== *)
theory Crc
  imports Prelude
begin

text \<open>
  The frame check sequence: \<open>lower_mac/crc_simple.c\<close>. The C functions differ in how they read their
  input (packed bytes, one bit per byte) and in the generator; each is a loop over the same shift
  step. The lemmas show that the step is linear and, for a generator with constant term, injective:
  from that the residue test of the receiver (\<open>TETRA_CRC_OK\<close>) is exact, and every error burst of at
  most 16 bits is noticed.
\<close>

definition GEN_POLY :: u16 where "GEN_POLY = 0x1021"

definition TETRA_CRC_OK :: u16 where "TETRA_CRC_OK = 0x1d0f"

definition get_nth_bit :: "u8 list \<Rightarrow> nat \<Rightarrow> u16" where
  "get_nth_bit input i =
    (let byte = i div 8; bit' = 7 - i mod 8
     in ucast (drop_bit bit' ((input ! byte) AND push_bit bit' 1)))"

text \<open>The body that the three loops share: \<open>crc ^= bit << 15\<close>, shift, reduce by the generator.\<close>

definition crc16_step :: "u16 \<Rightarrow> u16 \<Rightarrow> u16 \<Rightarrow> u16" where
  "crc16_step poly crc b =
    (let crc = crc XOR push_bit 15 b
     in if crc AND 0x8000 \<noteq> 0 then push_bit 1 crc XOR poly else push_bit 1 crc)"

definition crc16_itut_bytes :: "u16 \<Rightarrow> u8 list \<Rightarrow> nat \<Rightarrow> u16" where
  "crc16_itut_bytes crc input number_bits =
    foldl (\<lambda>crc i. crc16_step GEN_POLY crc (get_nth_bit input i)) crc [0..<number_bits]"

definition crc16_itut_bits :: "u16 \<Rightarrow> u8 list \<Rightarrow> nat \<Rightarrow> u16" where
  "crc16_itut_bits crc input number_bits =
    foldl (\<lambda>crc i. crc16_step GEN_POLY crc (ucast (input ! i) AND 1)) crc [0..<number_bits]"

definition crc16_itut_poly :: "u16 \<Rightarrow> u32 \<Rightarrow> u8 list \<Rightarrow> nat \<Rightarrow> u16" where
  "crc16_itut_poly crc poly input number_bits =
    foldl (\<lambda>crc i. crc16_step (ucast poly) crc (ucast (input ! i) AND 1)) crc [0..<number_bits]"

definition crc16_ccitt_bits :: "u8 list \<Rightarrow> nat \<Rightarrow> u16" where
  "crc16_ccitt_bits bits len = crc16_itut_bits 0xffff bits len"

section \<open>The loop as a fold over the input\<close>

definition crc_fold :: "u16 \<Rightarrow> u8 list \<Rightarrow> u16" where
  "crc_fold crc bits = foldl (\<lambda>crc b. crc16_step GEN_POLY crc (ucast b AND 1)) crc bits"

lemma foldl_nth_upt:
  "n \<le> length xs \<Longrightarrow> foldl (\<lambda>c i. f c (xs ! i)) c [0..<n] = foldl f c (take n xs)"
proof (induction n)
  case 0
  then show ?case by simp
next
  case (Suc n)
  then show ?case by (simp add: take_Suc_conv_app_nth)
qed

lemma crc16_itut_bits_fold:
  "n \<le> length xs \<Longrightarrow> crc16_itut_bits c xs n = crc_fold c (take n xs)"
  unfolding crc16_itut_bits_def crc_fold_def
  using foldl_nth_upt [of n xs "\<lambda>crc b. crc16_step GEN_POLY crc (ucast b AND 1)"] by simp

lemma crc_fold_append: "crc_fold c (xs @ ys) = crc_fold (crc_fold c xs) ys"
  by (simp add: crc_fold_def)

lemma crc_fold_Nil [simp]: "crc_fold c [] = c"
  by (simp add: crc_fold_def)

lemma crc_fold_Cons: "crc_fold c (x # xs) = crc_fold (crc16_step GEN_POLY c (ucast x AND 1)) xs"
  by (simp add: crc_fold_def)

section \<open>The step is linear and injective\<close>

lemma bit_int_8000: "n < 16 \<Longrightarrow> bit (0x8000 :: int) n \<longleftrightarrow> n = 15"
  by (erule less_16_cases) simp_all

lemma bit_int_ffff: "n < 16 \<Longrightarrow> bit (0xffff :: int) n"
  by (erule less_16_cases) simp_all

lemma bit_0x8000: "(c AND 0x8000 \<noteq> 0) = bit c 15" for c :: u16
proof -
  have "c AND 0x8000 = (if bit c 15 then 0x8000 else 0)"
    by (rule bit_word_eqI) (auto simp: bit_and_iff bit_int_8000)
  then show ?thesis by simp
qed

lemma crc16_step_alt:
  "crc16_step poly crc b =
    (let c = crc XOR push_bit 15 b in push_bit 1 c XOR (if bit c 15 then poly else 0))"
  unfolding crc16_step_def bit_0x8000 Let_def by simp

lemma crc16_step_linear:
  "crc16_step poly (a XOR c) (b XOR d) = crc16_step poly a b XOR crc16_step poly c d"
proof -
  define x where "x = a XOR push_bit 15 b"
  define y where "y = c XOR push_bit 15 d"
  have eq: "(a XOR c) XOR push_bit 15 (b XOR d) = x XOR y"
    by (simp add: x_def y_def push_bit_xor ac_simps)
  have "push_bit 1 (x XOR y) XOR (if bit (x XOR y) 15 then poly else 0)
    = (push_bit 1 x XOR (if bit x 15 then poly else 0))
      XOR (push_bit 1 y XOR (if bit y 15 then poly else 0))"
    by (rule bit_word_eqI) (auto simp: bit_simps)
  then show ?thesis
    unfolding crc16_step_alt Let_def eq unfolding x_def y_def .
qed

lemma crc16_step_eq_0:
  assumes "bit poly 0" "crc16_step poly c 0 = 0"
  shows "c = 0"
proof -
  from assms(2) have e: "push_bit 1 c = (if bit c 15 then poly else 0)"
    by (simp add: crc16_step_alt word_xor_eq_iff split: if_splits)
  have n15: "\<not> bit c 15"
  proof
    assume "bit c 15"
    with e have "push_bit 1 c = poly" by simp
    with assms(1) have "bit (push_bit 1 c) 0" by simp
    then show False by (simp add: bit_simps)
  qed
  show "c = 0"
  proof (rule bit_word_eqI)
    fix n assume n: "n < LENGTH(16)"
    show "bit c n = bit (0 :: u16) n"
    proof (cases "n = 15")
      case True
      with n15 show ?thesis by simp
    next
      case False
      with n have "bit (push_bit 1 c) (Suc n) = bit c n"
        by (simp add: bit_simps)
      moreover have "push_bit 1 c = 0" using e n15 by simp
      ultimately show ?thesis by simp
    qed
  qed
qed

lemma crc16_step_inj:
  assumes "bit poly 0" "crc16_step poly c b = crc16_step poly c' b"
  shows "c = c'"
proof -
  have "crc16_step poly (c XOR c') (b XOR b) = 0"
    by (simp only: crc16_step_linear assms(2)) simp
  then have "c XOR c' = 0" using crc16_step_eq_0 [OF assms(1)] by simp
  then show ?thesis by (simp add: word_xor_eq_iff)
qed

lemma GEN_POLY_bit0: "bit GEN_POLY 0"
  by (simp add: GEN_POLY_def)

lemma crc_fold_linear:
  "length xs = length ys \<Longrightarrow>
    crc_fold (a XOR b) (map2 (XOR) xs ys) = crc_fold a xs XOR crc_fold b ys"
proof (induction xs ys arbitrary: a b rule: list_induct2)
  case Nil
  then show ?case by simp
next
  case (Cons x xs y ys)
  have "ucast (x XOR y) AND (1 :: u16) = (ucast x AND 1) XOR (ucast y AND 1)"
    by (rule bit_word_eqI) (auto simp: bit_simps)
  with Cons.IH show ?case
    by (simp add: crc_fold_Cons crc16_step_linear)
qed

lemma crc_fold_inj: "crc_fold c xs = crc_fold c' xs \<Longrightarrow> c = c'"
  by (induction xs arbitrary: c c')
    (auto simp: crc_fold_Cons dest: crc16_step_inj [OF GEN_POLY_bit0])

lemma crc_fold_zeros: "crc_fold 0 (replicate n 0) = 0"
  by (induction n) (auto simp: crc_fold_Cons crc16_step_alt)

section \<open>The residue of a message and its check sequence\<close>

text \<open>The 16 bits of a word, most significant first, as the transmitter sends a check sequence.\<close>

definition msb_bits :: "u16 \<Rightarrow> u8 list" where
  "msb_bits w = map (\<lambda>i. if bit w (15 - i) then 1 else 0) [0..<16]"

lemma length_msb_bits [len_simps, simp]: "length (msb_bits w) = 16"
  by (simp add: msb_bits_def)

lemma is_bits_msb_bits: "is_bits (msb_bits w)"
  by (auto simp: is_bits_def msb_bits_def)

lemma crc_shift_in:
  "n \<le> 16 \<Longrightarrow>
    crc_fold c (take n (msb_bits w)) = crc_fold (c XOR w) (replicate n 0) XOR push_bit n w"
proof (induction n)
  case 0
  then show ?case by simp
next
  case (Suc n)
  define S where "S = crc_fold (c XOR w) (replicate n 0)"
  define b :: u8 where "b = (if bit w (15 - n) then 1 else 0)"
  have IH: "crc_fold c (take n (msb_bits w)) = S XOR push_bit n w"
    using Suc by (simp add: S_def)
  have tk: "take (Suc n) (msb_bits w) = take n (msb_bits w) @ [b]"
    using Suc.prems by (simp add: take_Suc_conv_app_nth msb_bits_def b_def)
  have rep: "crc_fold (c XOR w) (replicate (Suc n) 0) = crc16_step GEN_POLY S 0"
    unfolding S_def replicate_append_same [symmetric] replicate_Suc
    by (simp add: crc_fold_append crc_fold_Cons)
  have bw: "ucast b AND (1::u16) = (if bit w (15 - n) then 1 else 0)"
    by (simp add: b_def)
  have "crc16_step GEN_POLY (S XOR push_bit n w) (0 XOR (ucast b AND 1))
      = crc16_step GEN_POLY S 0 XOR crc16_step GEN_POLY (push_bit n w) (ucast b AND 1)"
    by (rule crc16_step_linear)
  moreover have "crc16_step GEN_POLY (push_bit n w) (ucast b AND 1) = push_bit (Suc n) w"
  proof -
    have c: "\<not> bit (push_bit n w XOR push_bit 15 (ucast b AND 1)) 15"
      using Suc.prems unfolding bw by (auto simp: bit_simps)
    have "push_bit 1 (push_bit n w XOR push_bit 15 (ucast b AND 1)) = push_bit (Suc n) w"
      unfolding bw by (rule bit_word_eqI) (auto simp: bit_simps)
    with c show ?thesis by (simp add: crc16_step_alt)
  qed
  ultimately show ?case
    unfolding tk rep crc_fold_append IH by (simp add: crc_fold_Cons)
qed

lemma crc_fold_msb_bits: "crc_fold c (msb_bits w) = crc_fold (c XOR w) (replicate 16 0)"
proof -
  have "push_bit 16 w = 0" by (rule bit_word_eqI) (simp add: bit_simps)
  then show ?thesis using crc_shift_in [of 16 c w] by simp
qed

lemma crc_residue: "crc_fold 0xffff (replicate 16 0) = TETRA_CRC_OK"
  by code_simp

lemma crc_fold_check:
  "crc_fold c (msb_bits w) = TETRA_CRC_OK \<longleftrightarrow> w = NOT c"
proof -
  have "crc_fold c (msb_bits w) = TETRA_CRC_OK \<longleftrightarrow> c XOR w = 0xffff"
    unfolding crc_fold_msb_bits crc_residue [symmetric]
    by (auto dest: crc_fold_inj)
  also have "\<dots> \<longleftrightarrow> w = NOT c"
  proof -
    have "c XOR 0xffff = NOT c" by (rule bit_word_eqI) (auto simp: bit_simps bit_int_ffff)
    then show ?thesis by (metis word_xor_eq_iff)
  qed
  finally show ?thesis .
qed

section \<open>Burst errors\<close>

text \<open>A window of 16 received bits, read as the word \<open>msb_bits\<close> would send.\<close>

lemma msb_bits_surj:
  assumes "length e = 16" "is_bits e"
  shows "\<exists>w. msb_bits w = e"
proof
  let ?w = "horner_sum of_bool 2 (map (\<lambda>x. x = 1) (rev e)) :: u16"
  have "bit ?w (15 - i) \<longleftrightarrow> e ! i = 1" if "i < 16" for i
    using that assms
    by (auto simp: bit_horner_sum_bit_word_iff rev_nth)
  then show "msb_bits ?w = e"
    using assms by (auto intro!: nth_equalityI simp: msb_bits_def dest: is_bits_nth)
qed

lemma msb_bits_0: "msb_bits 0 = replicate 16 0"
  by (simp add: msb_bits_def map_replicate_const)

lemma crc_fold_burst:
  assumes "length e = 16" "is_bits e" "\<exists>x \<in> set e. x \<noteq> 0"
  shows "crc_fold 0 (replicate m 0 @ e @ replicate n 0) \<noteq> 0"
proof
  obtain w where w: "msb_bits w = e" using msb_bits_surj assms by blast
  assume "crc_fold 0 (replicate m 0 @ e @ replicate n 0) = 0"
  then have "crc_fold (crc_fold 0 (msb_bits w)) (replicate n 0) = crc_fold 0 (replicate n 0)"
    by (simp add: crc_fold_append crc_fold_zeros w)
  then have "crc_fold 0 (msb_bits w) = 0" by (rule crc_fold_inj)
  then have "crc_fold w (replicate 16 0) = crc_fold 0 (replicate 16 0)"
    by (simp only: crc_fold_msb_bits crc_fold_zeros) simp
  then have "w = 0" by (rule crc_fold_inj)
  with w assms(3) show False by (auto simp: msb_bits_0)
qed

section \<open>Properties\<close>

text \<open>
  The receiver's acceptance test is exact: a block of \<open>n\<close> type-1 bits followed by a 16-bit check
  sequence has residue \<open>TETRA_CRC_OK\<close> if and only if the check sequence is the complement of the
  CRC of the data, sent most significant bit first.
\<close>

theorem crc_accepts_iff:
  assumes "length data = n"
  shows "crc16_ccitt_bits (data @ msb_bits fcs) (n + 16) = TETRA_CRC_OK
    \<longleftrightarrow> fcs = NOT (crc16_ccitt_bits data n)"
  using assms
  by (simp add: crc16_ccitt_bits_def crc16_itut_bits_fold crc_fold_append crc_fold_check)

theorem crc_accepts_iff_witness:
  "crc16_ccitt_bits ([1, 0, 1] @ msb_bits 0x2045) (3 + 16) = TETRA_CRC_OK"
proof -
  have "(0x2045 :: u16) = NOT (crc16_ccitt_bits [1, 0, 1] 3)" by code_simp
  then show ?thesis using crc_accepts_iff [of "[1, 0, 1]" 3 "0x2045"] by simp
qed

text \<open>
  C34. Every error burst of at most 16 bits is detected: flipping, in a block the receiver accepts,
  any nonzero pattern that lies within 16 consecutive bits makes the receiver reject it.
\<close>

theorem crc_detects_bursts:
  assumes "length block = m + 16 + n" "length e = 16" "is_bits e" "\<exists>x \<in> set e. x \<noteq> 0"
    and "crc16_ccitt_bits block (m + 16 + n) = TETRA_CRC_OK"
  shows "crc16_ccitt_bits (map2 (XOR) block (replicate m 0 @ e @ replicate n 0)) (m + 16 + n)
    \<noteq> TETRA_CRC_OK"
proof -
  let ?err = "replicate m 0 @ e @ replicate n 0"
  have "crc_fold (0xffff XOR 0) (map2 (XOR) block ?err) = crc_fold 0xffff block XOR crc_fold 0 ?err"
    using assms(1,2) by (intro crc_fold_linear) simp
  moreover have "crc_fold 0 ?err \<noteq> 0"
    using assms(2-4) by (rule crc_fold_burst)
  ultimately have "crc_fold 0xffff (map2 (XOR) block ?err) \<noteq> crc_fold 0xffff block"
    by (simp add: word_xor_eq_iff)
  with assms(1,2,5) show ?thesis
    by (simp add: crc16_ccitt_bits_def crc16_itut_bits_fold)
qed

theorem crc_detects_bursts_witness:
  "crc16_ccitt_bits (map2 (XOR) (replicate 16 0)
    (replicate 0 0 @ (1 # replicate 15 0) @ replicate 0 0)) (0 + 16 + 0) \<noteq> TETRA_CRC_OK"
proof (rule crc_detects_bursts)
  show "crc16_ccitt_bits (replicate 16 0) (0 + 16 + 0) = TETRA_CRC_OK" by code_simp
qed simp_all

lemma ucast_single_bit:
  "(ucast (drop_bit k (x AND push_bit k 1)) :: u16) = (if bit x k then 1 else 0)" for x :: u8
proof (rule bit_word_eqI)
  fix n assume "n < LENGTH(16)"
  show "bit (ucast (drop_bit k (x AND push_bit k 1)) :: u16) n
      = bit (if bit x k then 1 else 0 :: u16) n"
    by (cases "n = 0")
      (auto simp: bit_unsigned_iff bit_drop_bit_eq bit_and_iff bit_push_bit_iff bit_1_iff
        dest: bit_imp_le_length)
qed

text \<open>
  The packed-byte variant computes the CRC of the unpacked bits, most significant bit of each byte
  first.
\<close>

lemma crc16_itut_bytes_unpacked:
  assumes "n \<le> 8 * length input"
  shows "crc16_itut_bytes c input n
    = crc16_itut_bits c (map (\<lambda>i. if bit (input ! (i div 8)) (7 - i mod 8) then 1 else 0) [0..<n]) n"
proof -
  have "get_nth_bit input i = (if bit (input ! (i div 8)) (7 - i mod 8) then 1 else 0)" for i
    unfolding get_nth_bit_def Let_def by (rule ucast_single_bit)
  then show ?thesis
    unfolding crc16_itut_bytes_def crc16_itut_bits_def
    by (intro foldl_cong) auto
qed

end
