(* ===== verification/Interleave.thy ===== *)
theory Interleave
  imports Prelude
begin

text \<open>
  Block and matrix interleaving, \<open>lower_mac/tetra_interleave.c\<close>, and the interface of an invertible
  stage of the channel coding chain, which the block interleaver and the scrambler provide and which
  the receive chain of the lower MAC relies on. The block interleaver is a permutation when its
  multiplier is coprime to the block length; the matrix interleaver indexes with the loop bounds
  instead of the loop counters, so each call touches one element per loop and undoes nothing.
\<close>

section \<open>Stages of the channel coding chain\<close>

text \<open>A stage over blocks of \<open>n\<close> elements: the transmitter's map and the receiver's inverse of it.\<close>

locale coding_stage =
  fixes n :: nat and enc dec :: "'a list \<Rightarrow> 'a list"
  assumes length_enc: "length xs = n \<Longrightarrow> length (enc xs) = n"
    and dec_enc: "length xs = n \<Longrightarrow> dec (enc xs) = xs"

begin

lemma enc_inj: "length xs = n \<Longrightarrow> length ys = n \<Longrightarrow> enc xs = enc ys \<Longrightarrow> xs = ys"
  using dec_enc by metis

end

text \<open>Two stages in a row, undone in the opposite order.\<close>

locale coding_chain =
  first: coding_stage n enc1 dec1 + second: coding_stage n enc2 dec2
  for n :: nat and enc1 dec1 enc2 dec2 :: "'a list \<Rightarrow> 'a list"
begin

lemma chain_dec_enc: "length xs = n \<Longrightarrow> dec1 (dec2 (enc2 (enc1 xs))) = xs"
  by (simp add: first.length_enc first.dec_enc second.dec_enc)

end

sublocale coding_chain \<subseteq> chain: coding_stage n "\<lambda>xs. enc2 (enc1 xs)" "\<lambda>xs. dec1 (dec2 xs)"
  by unfold_locales (simp_all add: first.length_enc second.length_enc chain_dec_enc)

section \<open>Block interleaving\<close>

definition block_interl_func :: "u32 \<Rightarrow> u32 \<Rightarrow> u32 \<Rightarrow> u32" where
  "block_interl_func K a i = 1 + ((a * i) mod K)"

definition block_interleave :: "u32 \<Rightarrow> u32 \<Rightarrow> 'a list \<Rightarrow> 'a list \<Rightarrow> 'a list" where
  "block_interleave K a inp out =
    store_loop (\<lambda>i. unat (block_interl_func K a (of_nat i) - 1)) (\<lambda>i. inp ! (i - 1))
      [1..<Suc (unat K)] out"

definition block_deinterleave :: "u32 \<Rightarrow> u32 \<Rightarrow> 'a list \<Rightarrow> 'a list \<Rightarrow> 'a list" where
  "block_deinterleave K a inp out =
    store_loop (\<lambda>i. i - 1) (\<lambda>i. inp ! unat (block_interl_func K a (of_nat i) - 1))
      [1..<Suc (unat K)] out"

text \<open>
  The parameters for which the function is a permutation and the 32-bit product does not wrap.
\<close>

definition interleave_params :: "u32 \<Rightarrow> u32 \<Rightarrow> bool" where
  "interleave_params K a \<longleftrightarrow> K \<noteq> 0 \<and> coprime (unat a) (unat K) \<and> unat a * unat K < 2 ^ 32"

lemma interl_index:
  assumes "interleave_params K a" "i \<le> unat K"
  shows "unat (block_interl_func K a (of_nat i) - 1) = (unat a * i) mod unat K"
proof -
  have i: "unat (of_nat i :: u32) = i"
    using assms(2) unat_u32_less [of K] by (intro unat_of_nat_lt) simp
  have "unat a * i \<le> unat a * unat K" using assms(2) by (rule mult_le_mono2)
  also have "\<dots> < 2 ^ 32" using assms(1) by (simp add: interleave_params_def)
  finally have lt: "unat a * i < 2 ^ 32" .
  have "unat (a * of_nat i) = unat a * i"
    using lt by (simp add: unat_word_ariths i)
  then show ?thesis by (simp add: block_interl_func_def unat_mod_distrib)
qed

lemma interl_index_less:
  "interleave_params K a \<Longrightarrow> (unat a * i) mod unat K < unat K"
  by (simp add: interleave_params_def unat_gt_0)

lemma interl_index_eq:
  assumes "coprime a k" "(a * i) mod k = (a * j) mod k" "i \<le> j" "1 \<le> i" "j \<le> k"
  shows "i = (j :: nat)"
proof -
  have "k dvd a * j - a * i"
    using assms(2,3) mod_eq_dvd_iff_nat [of "a * i" "a * j" k] by simp
  then have "k dvd a * (j - i)" by (simp add: diff_mult_distrib2)
  then have "k dvd j - i" using assms(1) by (simp add: coprime_commute coprime_dvd_mult_right_iff)
  moreover have "j - i < k" using assms(3-5) by simp
  ultimately have "j - i = 0" by (meson dvd_imp_le not_gr_zero not_le)
  with assms(3) show ?thesis by simp
qed

lemma interl_index_inj:
  assumes "interleave_params K a"
  shows "inj_on (\<lambda>i. (unat a * i) mod unat K) {1..<Suc (unat K)}"
proof (rule inj_onI)
  fix i j
  assume ij: "i \<in> {1..<Suc (unat K)}" "j \<in> {1..<Suc (unat K)}"
    and eq: "(unat a * i) mod unat K = (unat a * j) mod unat K"
  have cop: "coprime (unat a) (unat K)" using assms by (simp add: interleave_params_def)
  show "i = j"
  proof (cases "i \<le> j")
    case True
    then show ?thesis using ij by (intro interl_index_eq [OF cop eq]) auto
  next
    case False
    then have "j = i" using ij by (intro interl_index_eq [OF cop eq [symmetric]]) auto
    then show ?thesis by simp
  qed
qed

lemma nth_block_interleave:
  assumes "interleave_params K a" "length out = unat K" "1 \<le> i" "i \<le> unat K"
  shows "block_interleave K a inp out ! ((unat a * i) mod unat K) = inp ! (i - 1)"
proof -
  let ?f = "\<lambda>i. unat (block_interl_func K a (of_nat i) - 1)"
  have f: "?f j = (unat a * j) mod unat K" if "j \<in> set [1..<Suc (unat K)]" for j
    using that assms(1) by (intro interl_index) auto
  have "inj_on ?f (set [1..<Suc (unat K)])"
    using interl_index_inj [OF assms(1)] f
    by (subst inj_on_cong [where g = "\<lambda>i. (unat a * i) mod unat K"]) (simp_all del: upt_Suc)
  then have "distinct (map ?f [1..<Suc (unat K)])" by (simp add: distinct_map del: upt_Suc)
  moreover have "?f i = (unat a * i) mod unat K" using assms by (intro f) auto
  moreover have "?f i < length out"
    using assms interl_index_less by (simp add: interl_index)
  ultimately show ?thesis
    using assms nth_store_loop [of ?f "[1..<Suc (unat K)]" i out "\<lambda>i. inp ! (i - 1)"]
    by (simp add: block_interleave_def del: upt_Suc)
qed

lemma nth_block_deinterleave:
  assumes "interleave_params K a" "length out = unat K" "1 \<le> i" "i \<le> unat K"
  shows "block_deinterleave K a inp out ! (i - 1) = inp ! ((unat a * i) mod unat K)"
proof -
  have "distinct (map (\<lambda>i. i - 1) [1..<Suc (unat K)])"
    by (auto simp: distinct_map inj_on_def simp del: upt_Suc)
  then show ?thesis
    using assms nth_store_loop [of "\<lambda>i. i - 1" "[1..<Suc (unat K)]" i out
        "\<lambda>i. inp ! unat (block_interl_func K a (of_nat i) - 1)"]
    by (simp add: block_deinterleave_def interl_index del: upt_Suc)
qed

lemma length_block_interleave [len_simps, simp]: "length (block_interleave K a inp out) = length out"
  by (simp add: block_interleave_def)

lemma length_block_deinterleave [len_simps, simp]: "length (block_deinterleave K a inp out) = length out"
  by (simp add: block_deinterleave_def)

lemma block_deinterleave_interleave:
  assumes "interleave_params K a" "length inp = unat K" "length out = unat K" "length out' = unat K"
  shows "block_deinterleave K a (block_interleave K a inp out) out' = inp"
proof (rule nth_equalityI)
  fix i assume "i < length (block_deinterleave K a (block_interleave K a inp out) out')"
  then have "1 \<le> Suc i" "Suc i \<le> unat K" using assms by simp_all
  then show "block_deinterleave K a (block_interleave K a inp out) out' ! i = inp ! i"
    using nth_block_deinterleave [of K a out' "Suc i"] nth_block_interleave [of K a out "Suc i"] assms
    by simp
qed (simp add: assms)

lemma interleave_stage:
  assumes "interleave_params K a"
  shows "coding_stage (unat K) (\<lambda>xs. block_interleave K a xs (replicate (unat K) z))
    (\<lambda>xs. block_deinterleave K a xs (replicate (unat K) z))"
  by unfold_locales (simp_all add: block_deinterleave_interleave assms)

section \<open>Matrix interleaving\<close>

definition matrix_interleave :: "u32 \<Rightarrow> u32 \<Rightarrow> 'a list \<Rightarrow> 'a list \<Rightarrow> 'a list" where
  "matrix_interleave lines columns inp out =
    store_loop (\<lambda>(i, j). unat (of_nat i * lines + columns)) (\<lambda>(i, j). inp ! unat (of_nat j * columns + lines))
      [(i, j). i \<leftarrow> [0..<unat columns], j \<leftarrow> [0..<unat lines]] out"

definition matrix_deinterleave :: "u32 \<Rightarrow> u32 \<Rightarrow> 'a list \<Rightarrow> 'a list \<Rightarrow> 'a list" where
  "matrix_deinterleave lines columns inp out =
    store_loop (\<lambda>(i, j). unat (of_nat j * columns + lines)) (\<lambda>(i, j). inp ! unat (of_nat i * lines + columns))
      [(i, j). i \<leftarrow> [0..<unat columns], j \<leftarrow> [0..<unat lines]] out"

lemma length_matrix_interleave [len_simps, simp]:
  "length (matrix_interleave lines columns inp out) = length out"
  by (simp add: matrix_interleave_def)

section \<open>Properties\<close>

text \<open>
  The block deinterleaver undoes the block interleaver, for every block of \<open>K\<close> elements, whatever
  the output buffers held before, as long as the multiplier is coprime to the block length and their
  product fits 32 bits.
\<close>

theorem block_interleave_roundtrip:
  assumes "coprime (unat a) (unat K)" "unat a * unat K < 2 ^ 32" "K \<noteq> 0"
    and "length inp = unat K" "length out = unat K" "length out' = unat K"
  shows "block_deinterleave K a (block_interleave K a inp out) out' = inp"
  using assms by (intro block_deinterleave_interleave) (simp_all add: interleave_params_def)

theorem block_interleave_roundtrip_witness:
  "block_deinterleave 5 3 (block_interleave 5 3 [10, 20, 30, 40, 50 :: nat] [0, 0, 0, 0, 0]) [9, 9, 9, 9, 9]
    = [10, 20, 30, 40, 50]"
  by (rule block_interleave_roundtrip) (simp_all add: coprime_iff_gcd_eq_1 gcd_non_0_nat)

text \<open>
  The matrix interleaver does not interleave: with its indices built from the loop bounds, a call
  for a 2 by 3 matrix leaves the first element of the output as it was, whatever the input is, and
  the matrix deinterleaver cannot restore the input's first element.
\<close>

theorem matrix_interleave_skips:
  "matrix_interleave 2 3 inp [x0, x1, x2, x3, x4, x5, x6, x7] ! 0 = x0
    \<and> matrix_deinterleave 2 3 inp [x0, x1, x2, x3, x4, x5, x6, x7] ! 0 = x0"
  by (simp add: matrix_interleave_def matrix_deinterleave_def upt_rec)

end
