(* ===== verification/Scramble.thy ===== *)
theory Scramble
  imports Interleave
begin

text \<open>
  The scrambler, \<open>lower_mac/tetra_scramb.c\<close> and \<open>tetra_scramb.h\<close>: a 32-bit Fibonacci LFSR whose
  output is XORed onto the bits of a block, and the seed that \<open>tetra_scramb_get_init\<close> packs from the
  network identity. The lemmas show that the loop is an XOR with the LFSR's output stream (so it is
  its own inverse, a stage of the coding chain), that the LFSR is a permutation of its states (so a
  nonzero seed never decays to zero), and that the seed determines the cell identity.
\<close>

definition SCRAMB_INIT :: u32 where "SCRAMB_INIT = 3"

text \<open>\<open>ST(x, y)\<close>: tap macro for the standard XOR / Fibonacci form.\<close>

definition ST :: "u32 \<Rightarrow> nat \<Rightarrow> u32" where
  "ST x y = drop_bit (32 - y) x"

text \<open>The C function updates the LFSR through its pointer: here it returns the bit and the new state.\<close>

definition next_lfsr_bit :: "u32 \<Rightarrow> u8 \<times> u32" where
  "next_lfsr_bit lf =
    (let lfsr = lf;
         b = (ST lfsr 32 XOR ST lfsr 26 XOR ST lfsr 23 XOR ST lfsr 22 XOR
              ST lfsr 16 XOR ST lfsr 12 XOR ST lfsr 11 XOR ST lfsr 10 XOR
              ST lfsr 8 XOR ST lfsr 7 XOR ST lfsr 5 XOR ST lfsr 4 XOR
              ST lfsr 2 XOR ST lfsr 1) AND 1;
         lfsr' = drop_bit 1 lfsr OR push_bit 31 b
     in (ucast (b AND 0xff), lfsr'))"

text \<open>The two loops return the buffer and the final state of the caller's copy of the seed.\<close>

definition tetra_scramb_get_bits :: "u32 \<Rightarrow> u8 list \<Rightarrow> nat \<Rightarrow> u8 list" where
  "tetra_scramb_get_bits lfsr_init out len =
    fst (foldl (\<lambda>(out, lf) i. let (b, lf') = next_lfsr_bit lf in (out[i := b], lf'))
      (out, lfsr_init) [0..<len])"

definition tetra_scramb_bits :: "u32 \<Rightarrow> u8 list \<Rightarrow> nat \<Rightarrow> u8 list" where
  "tetra_scramb_bits lfsr_init out len =
    fst (foldl (\<lambda>(out, lf) i. let (b, lf') = next_lfsr_bit lf in (out[i := out ! i XOR b], lf'))
      (out, lfsr_init) [0..<len])"

text \<open>The arguments are masked to their field widths and packed: mcc, mnc, colour, \<open>11\<close>.\<close>

definition tetra_scramb_get_init :: "u16 \<Rightarrow> u16 \<Rightarrow> u8 \<Rightarrow> u32" where
  "tetra_scramb_get_init mcc mnc colour =
    (let mcc = mcc AND 0x3ff; mnc = mnc AND 0x3fff; colour = colour AND 0x3f;
         scramb_init = ucast colour OR push_bit 6 (ucast mnc) OR push_bit 20 (ucast mcc)
     in push_bit 2 scramb_init OR SCRAMB_INIT)"

section \<open>The loop is an XOR with the LFSR stream\<close>

fun lfsr_stream :: "nat \<Rightarrow> u32 \<Rightarrow> u8 list" where
  "lfsr_stream 0 lf = []"
| "lfsr_stream (Suc n) lf = fst (next_lfsr_bit lf) # lfsr_stream n (snd (next_lfsr_bit lf))"

fun lfsr_after :: "nat \<Rightarrow> u32 \<Rightarrow> u32" where
  "lfsr_after 0 lf = lf"
| "lfsr_after (Suc n) lf = snd (next_lfsr_bit (lfsr_after n lf))"

lemma length_lfsr_stream [len_simps, simp]: "length (lfsr_stream n lf) = n"
  by (induction n arbitrary: lf) auto

lemma lfsr_after_shift: "lfsr_after n (snd (next_lfsr_bit lf)) = snd (next_lfsr_bit (lfsr_after n lf))"
  by (induction n) auto

lemma nth_lfsr_stream: "i < n \<Longrightarrow> lfsr_stream n lf ! i = fst (next_lfsr_bit (lfsr_after i lf))"
  by (induction n arbitrary: i lf) (auto simp: nth_Cons' lfsr_after_shift gr0_conv_Suc)

lemma scramb_fold:
  assumes "n \<le> length xs"
  shows "foldl (\<lambda>(out, lf) i. let (b, lf') = next_lfsr_bit lf in (out[i := g (out ! i) b], lf'))
      (xs, lf) [0..<n]
    = (map2 g (take n xs) (lfsr_stream n lf) @ drop n xs, lfsr_after n lf)"
  using assms
proof (induction n)
  case 0
  then show ?case by simp
next
  case (Suc n)
  have st: "lfsr_stream (Suc n) lf = lfsr_stream n lf @ [fst (next_lfsr_bit (lfsr_after n lf))]"
    by (rule nth_equalityI) (auto simp: nth_lfsr_stream nth_append less_Suc_eq simp del: lfsr_stream.simps)
  obtain b lf' where b: "next_lfsr_bit (lfsr_after n lf) = (b, lf')" by fastforce
  have "drop n xs = xs ! n # drop (Suc n) xs" using Suc.prems by (simp add: Cons_nth_drop_Suc)
  with Suc b show ?case
    by (simp add: st take_Suc_conv_app_nth nth_append list_update_append del: lfsr_stream.simps)
qed

lemma tetra_scramb_bits_eq:
  "n \<le> length xs \<Longrightarrow>
    tetra_scramb_bits lf xs n = map2 (XOR) (take n xs) (lfsr_stream n lf) @ drop n xs"
  unfolding tetra_scramb_bits_def using scramb_fold [of n xs "(XOR)" lf] by simp

lemma tetra_scramb_get_bits_eq:
  assumes "n \<le> length xs"
  shows "tetra_scramb_get_bits lf xs n = lfsr_stream n lf @ drop n xs"
proof -
  have "map2 (\<lambda>_ b. b) (take n xs) (lfsr_stream n lf) = lfsr_stream n lf"
    using assms by (intro nth_equalityI) auto
  then show ?thesis
    unfolding tetra_scramb_get_bits_def using scramb_fold [OF assms, of "\<lambda>_ b. b" lf] by simp
qed

lemma length_tetra_scramb_bits [len_simps, simp]:
  "n \<le> length xs \<Longrightarrow> length (tetra_scramb_bits lf xs n) = length xs"
  by (simp add: tetra_scramb_bits_eq)

lemma tetra_scramb_bits_twice:
  assumes "n \<le> length xs"
  shows "tetra_scramb_bits lf (tetra_scramb_bits lf xs n) n = xs"
proof -
  have "map2 (XOR) (map2 (XOR) (take n xs) (lfsr_stream n lf)) (lfsr_stream n lf) = take n xs"
    using assms by (intro nth_equalityI) auto
  then show ?thesis
    using assms by (simp add: tetra_scramb_bits_eq)
qed

interpretation scramb: coding_stage n "\<lambda>xs. tetra_scramb_bits lf xs n" "\<lambda>xs. tetra_scramb_bits lf xs n"
  for n lf
  by unfold_locales (simp_all add: tetra_scramb_bits_twice)

section \<open>The LFSR is a permutation of its states\<close>

lemma next_lfsr_bit_01: "fst (next_lfsr_bit lf) = 0 \<or> fst (next_lfsr_bit lf) = 1"
  unfolding next_lfsr_bit_def Let_def fst_conv and_one_eq
  by (auto simp: mod_2_eq_odd)

lemma bit_next_lfsr:
  "bit (snd (next_lfsr_bit lf)) 31 = (fst (next_lfsr_bit lf) = 1)"
  "n < 31 \<Longrightarrow> bit (snd (next_lfsr_bit lf)) n = bit lf (Suc n)"
  unfolding next_lfsr_bit_def Let_def fst_conv snd_conv and_one_eq
  by (auto simp: bit_or_iff bit_drop_bit_eq bit_push_bit_iff mod_2_eq_odd dest: bit_imp_le_length)

text \<open>The taps but the last one, which is the bit the shift drops.\<close>

definition lfsr_other_taps :: "u32 \<Rightarrow> u32" where
  "lfsr_other_taps lf =
    ST lf 26 XOR ST lf 23 XOR ST lf 22 XOR ST lf 16 XOR ST lf 12 XOR ST lf 11 XOR ST lf 10 XOR
    ST lf 8 XOR ST lf 7 XOR ST lf 5 XOR ST lf 4 XOR ST lf 2 XOR ST lf 1"

lemma odd_ST: "odd (ST lf k) = bit lf (32 - k)"
  by (simp add: ST_def flip: bit_iff_odd_drop_bit)

lemma odd_word_xor: "odd (a XOR b) = (odd a \<noteq> odd b)" for a b :: u32
  using bit_xor_iff [of a b 0] by (simp add: bit_0)

lemma lfsr_taps: "fst (next_lfsr_bit lf) = 1 \<longleftrightarrow> bit lf 0 \<noteq> odd (lfsr_other_taps lf)"
proof -
  have "fst (next_lfsr_bit lf) = 1 \<longleftrightarrow> odd (ST lf 32 XOR lfsr_other_taps lf)"
    unfolding next_lfsr_bit_def Let_def fst_conv and_one_eq lfsr_other_taps_def xor.assoc
    by (simp add: mod_2_eq_odd del: even_xor_iff)
  then show ?thesis by (simp only: odd_word_xor odd_ST diff_self_eq_0)
qed

lemma lfsr_other_taps_cong:
  assumes "\<And>n. 1 \<le> n \<Longrightarrow> n \<le> 31 \<Longrightarrow> bit a n = bit b n"
  shows "odd (lfsr_other_taps a) = odd (lfsr_other_taps b)"
proof -
  have "odd (ST a k) = odd (ST b k)" if "1 \<le> k" "k \<le> 31" for k
    using assms [of "32 - k"] that unfolding odd_ST by simp
  then show ?thesis unfolding lfsr_other_taps_def odd_word_xor by simp
qed

lemma next_lfsr_inj:
  assumes "snd (next_lfsr_bit a) = snd (next_lfsr_bit b)"
  shows "a = b"
proof -
  have hi: "bit a (Suc n) = bit b (Suc n)" if "n < 31" for n
    using bit_next_lfsr(2) [OF that] assms by metis
  have fb: "(fst (next_lfsr_bit a) = 1) = (fst (next_lfsr_bit b) = 1)"
    using bit_next_lfsr(1) assms by metis
  have taps: "bit a n = bit b n" if "1 \<le> n" "n \<le> 31" for n
    using hi [of "n - 1"] that by (cases n) auto
  have 0: "bit a 0 = bit b 0"
    using fb lfsr_other_taps_cong [of a b, OF taps] unfolding lfsr_taps by blast
  show ?thesis
  proof (rule bit_word_eqI)
    fix n assume "n < LENGTH(32)"
    then show "bit a n = bit b n" using 0 taps [of n] by (cases "n = 0") simp_all
  qed
qed

lemma next_lfsr_zero: "snd (next_lfsr_bit 0) = 0"
  by code_simp

lemma lfsr_after_nonzero: "lf \<noteq> 0 \<Longrightarrow> lfsr_after n lf \<noteq> 0"
proof (induction n)
  case (Suc n)
  then show ?case using next_lfsr_inj [of "lfsr_after n lf" 0] by (auto simp: next_lfsr_zero)
qed simp

section \<open>The seed\<close>

lemma scramb_init_masks:
  "(mcc :: u16) AND 0x3ff = take_bit 10 mcc" "(mnc :: u16) AND 0x3fff = take_bit 14 mnc"
  "(colour :: u8) AND 0x3f = take_bit 6 colour" "(3 :: u32) = mask 2"
  by (simp_all add: take_bit_eq_mask mask_eq_exp_minus_1)

lemma bit_scramb_init:
  "n < 32 \<Longrightarrow> bit (tetra_scramb_get_init mcc mnc colour) n =
    (if n < 2 then True else if n < 8 then bit colour (n - 2)
     else if n < 22 then bit mnc (n - 8) else bit mcc (n - 22))"
  unfolding tetra_scramb_get_init_def SCRAMB_INIT_def Let_def scramb_init_masks
  by (auto simp: bit_or_iff bit_push_bit_iff bit_take_bit_iff bit_mask_iff bit_ucast_iff)

lemma get_init_nonzero: "tetra_scramb_get_init mcc mnc colour \<noteq> 0"
  using bit_scramb_init [of 0 mcc mnc colour] by (intro notI) simp

lemma get_init_inj:
  assumes eq: "tetra_scramb_get_init mcc mnc colour = tetra_scramb_get_init mcc' mnc' colour'"
    and lt: "mcc < 2 ^ 10" "mcc' < 2 ^ 10" "mnc < 2 ^ 14" "mnc' < 2 ^ 14" "colour < 2 ^ 6" "colour' < 2 ^ 6"
  shows "mcc = mcc' \<and> mnc = mnc' \<and> colour = colour'"
proof -
  note b = bit_scramb_init [of _ mcc mnc colour] bit_scramb_init [of _ mcc' mnc' colour']
  have "bit mcc n = bit mcc' n" for n
  proof (cases "n < 10")
    case True
    then show ?thesis using b [of "n + 22"] eq by simp
  qed (metis bit_high not_less lt)
  moreover have "bit mnc n = bit mnc' n" for n
  proof (cases "n < 14")
    case True
    then show ?thesis using b [of "n + 8"] eq by simp
  qed (metis bit_high not_less lt)
  moreover have "bit colour n = bit colour' n" for n
  proof (cases "n < 6")
    case True
    then show ?thesis using b [of "n + 2"] eq by simp
  qed (metis bit_high not_less lt)
  ultimately show ?thesis by (auto intro: bit_eqI)
qed

section \<open>Properties\<close>

text \<open>
  Scrambling is its own inverse for every seed, on any prefix of the buffer, so one routine
  serves the transmitter and the receiver; and it changes nothing past the length it is given.
\<close>

theorem scrambling_involution:
  assumes "n \<le> length xs"
  shows "tetra_scramb_bits lf (tetra_scramb_bits lf xs n) n = xs
    \<and> drop n (tetra_scramb_bits lf xs n) = drop n xs"
  using assms by (simp only: tetra_scramb_bits_twice) (simp add: tetra_scramb_bits_eq)

theorem scrambling_involution_witness:
  "tetra_scramb_bits 3 (tetra_scramb_bits 3 [1, 0, 1, 1, 0] 3) 3 = [1, 0, 1, 1, 0]
    \<and> drop 3 (tetra_scramb_bits 3 [1, 0, 1, 1, 0] 3) = drop 3 [1, 0, 1, 1, 0]"
  by (rule scrambling_involution) simp

text \<open>
  The seed identifies the cell: two network identities whose country code, network code and
  colour code fit their 10, 14 and 6 bit fields get the same seed only if they are equal; and the
  register seeded with any identity never reaches the absorbing all-zero state.
\<close>

theorem scrambling_seed_identifies_cell:
  assumes "mcc < 0x400" "mcc' < 0x400" "mnc < 0x4000" "mnc' < 0x4000" "colour < 0x40" "colour' < 0x40"
  shows "(tetra_scramb_get_init mcc mnc colour = tetra_scramb_get_init mcc' mnc' colour'
      \<longleftrightarrow> mcc = mcc' \<and> mnc = mnc' \<and> colour = colour')
    \<and> lfsr_after n (tetra_scramb_get_init mcc mnc colour) \<noteq> 0"
  using get_init_inj [of mcc mnc colour mcc' mnc' colour'] assms
  by (auto simp: lfsr_after_nonzero get_init_nonzero)

theorem scrambling_seed_identifies_cell_witness:
  "(tetra_scramb_get_init 262 1001 7 = tetra_scramb_get_init 262 1001 8
      \<longleftrightarrow> (262 :: u16) = 262 \<and> (1001 :: u16) = 1001 \<and> (7 :: u8) = 8)
    \<and> lfsr_after 5 (tetra_scramb_get_init 262 1001 7) \<noteq> 0"
  by (rule scrambling_seed_identifies_cell) simp_all

end
