(* ===== verification/Rm3014.thy ===== *)
theory Rm3014
  imports Prelude
begin

text \<open>
  The shortened (30,14) Reed-Muller code of the access assignment channel,
  \<open>lower_mac/tetra_rm3014.c\<close>. The generator rows live in a static array that
  \<open>tetra_rm3014_init\<close> fills: it is an argument of the encoder here. The lemmas show that the code is
  systematic and linear, and that the decoder is its inverse on error-free words only.
\<close>

definition rm_30_14_gen :: "u8 list list" where
  "rm_30_14_gen = [
    [1, 0, 0, 1, 1, 0, 1, 1, 0, 1, 1, 0, 0, 0, 0, 0],
    [0, 0, 1, 0, 1, 1, 0, 1, 1, 1, 1, 0, 0, 0, 0, 0],
    [1, 1, 1, 1, 1, 1, 0, 0, 0, 0, 1, 0, 0, 0, 0, 0],
    [1, 1, 1, 0, 0, 0, 0, 0, 0, 0, 1, 1, 1, 1, 0, 0],
    [1, 0, 0, 1, 1, 0, 0, 0, 0, 0, 1, 1, 1, 0, 1, 0],
    [0, 1, 0, 1, 0, 1, 0, 0, 0, 0, 1, 1, 0, 1, 1, 0],
    [0, 0, 1, 0, 1, 1, 0, 0, 0, 0, 1, 0, 1, 1, 1, 0],
    [1, 1, 1, 1, 1, 1, 1, 1, 1, 1, 0, 1, 1, 1, 1, 1],
    [1, 0, 0, 0, 0, 0, 1, 1, 0, 0, 1, 1, 1, 0, 0, 1],
    [0, 1, 0, 0, 0, 0, 1, 0, 1, 0, 1, 1, 0, 1, 0, 1],
    [0, 0, 1, 0, 0, 0, 0, 1, 1, 0, 1, 0, 1, 1, 0, 1],
    [0, 0, 0, 1, 0, 0, 1, 0, 0, 1, 1, 1, 0, 0, 1, 1],
    [0, 0, 0, 0, 1, 0, 0, 1, 0, 1, 1, 0, 1, 0, 1, 1],
    [0, 0, 0, 0, 0, 1, 0, 0, 1, 1, 1, 0, 0, 1, 1, 1]]"

text \<open>The loop runs from the last bit down; each byte is promoted to a 32-bit int and shifted.\<close>

definition shift_bits_together :: "u8 list \<Rightarrow> nat \<Rightarrow> u32" where
  "shift_bits_together bits len =
    foldl (\<lambda>ret i. ret OR push_bit (len - 1 - i) (ucast (bits ! i))) 0 (rev [0..<len])"

definition tetra_rm3014_init :: "u32 list" where
  "tetra_rm3014_init =
    map (\<lambda>i. push_bit (16 + 13 - i) 1 OR shift_bits_together (rm_30_14_gen ! i) 16) [0..<14]"

definition tetra_rm3014_compute :: "u32 list \<Rightarrow> u16 \<Rightarrow> u32" where
  "tetra_rm3014_compute rm_30_14_rows inp =
    foldl (\<lambda>val i. let b = drop_bit (14 - 1 - i) inp AND 1
                   in if b \<noteq> 0 then val XOR rm_30_14_rows ! i else val) 0 [0..<14]"

text \<open>The result is the return code and what is stored through \<open>out\<close>.\<close>

definition tetra_rm3014_decode :: "u32 \<Rightarrow> int \<times> u16" where
  "tetra_rm3014_decode inp = (0, ucast (drop_bit 16 inp))"

section \<open>The encoder is a sum of rows\<close>

text \<open>The contribution of one information bit.\<close>

definition rm_term :: "u32 list \<Rightarrow> u16 \<Rightarrow> nat \<Rightarrow> u32" where
  "rm_term rows x i = (if bit x (13 - i) then rows ! i else 0)"

lemma and_one_bit: "(drop_bit k x AND 1 \<noteq> 0) = bit x k" for x :: "'a::len word"
  by (simp add: and_one_eq mod_2_eq_odd bit_iff_odd_drop_bit)

lemma compute_eq: "tetra_rm3014_compute rows x = foldl (\<lambda>val i. val XOR rm_term rows x i) 0 [0..<14]"
proof -
  have f: "(\<lambda>val i. let b = drop_bit (14 - 1 - i) x AND 1 in if b \<noteq> 0 then val XOR rows ! i else val)
    = (\<lambda>val i. val XOR rm_term rows x i)"
    by (intro ext) (simp add: rm_term_def Let_def and_one_bit)
  show ?thesis unfolding tetra_rm3014_compute_def f ..
qed

lemma rm_term_xor: "rm_term rows (x XOR y) i = rm_term rows x i XOR rm_term rows y i"
  by (simp add: rm_term_def bit_xor_iff)

lemma foldl_xor_xor:
  "foldl (\<lambda>val i. val XOR (f i XOR g i)) (a XOR b) is
    = foldl (\<lambda>val i. val XOR f i) a is XOR foldl (\<lambda>val i. val XOR g i) b is"
  for a b :: "'a::len word"
proof (induction "is" arbitrary: a b)
  case (Cons i "is")
  have "(a XOR b) XOR (f i XOR g i) = (a XOR f i) XOR (b XOR g i)"
    by (simp only: xor.assoc xor.left_commute)
  then show ?case using Cons by simp
qed simp

lemma compute_xor:
  "tetra_rm3014_compute rows (x XOR y) = tetra_rm3014_compute rows x XOR tetra_rm3014_compute rows y"
  using foldl_xor_xor [of "rm_term rows x" "rm_term rows y" 0 0] by (simp add: compute_eq rm_term_xor)

lemma rows_eval: "tetra_rm3014_init =
  [0x20009b60, 0x10002de0, 0x0800fc20, 0x0400e03c, 0x0200983a, 0x01005436, 0x00802c2e,
   0x0040ffdf, 0x00208339, 0x001042b5, 0x000821ad, 0x00041273, 0x0002096b, 0x000104e7]"
  by code_simp

lemma rows_upper: "i < 14 \<Longrightarrow> drop_bit 16 (tetra_rm3014_init ! i) = push_bit (13 - i) 1"
proof -
  have "list_all (\<lambda>i. drop_bit 16 (tetra_rm3014_init ! i) = push_bit (13 - i) 1) [0..<14]"
    by code_simp
  then show "i < 14 \<Longrightarrow> drop_bit 16 (tetra_rm3014_init ! i) = push_bit (13 - i) 1"
    by (simp add: list_all_iff del: upt_Suc)
qed

lemma upper_partial:
  "k \<le> 14 \<Longrightarrow> bit (drop_bit 16 (foldl (\<lambda>val i. val XOR rm_term tetra_rm3014_init x i) 0 [0..<k])) n
    \<longleftrightarrow> 14 - k \<le> n \<and> n < 14 \<and> bit x n"
proof (induction k)
  case 0
  then show ?case by simp
next
  case (Suc k)
  let ?v = "foldl (\<lambda>val i. val XOR rm_term tetra_rm3014_init x i) 0 [0..<k]"
  have t: "bit (drop_bit 16 (rm_term tetra_rm3014_init x k)) n \<longleftrightarrow> n = 13 - k \<and> bit x n"
    using Suc.prems rows_upper [of k]
    by (cases "n = 13 - k") (auto simp: rm_term_def bit_push_bit_iff bit_1_iff)
  have "bit (drop_bit 16 (foldl (\<lambda>val i. val XOR rm_term tetra_rm3014_init x i) 0 [0..<Suc k])) n
      = (bit (drop_bit 16 ?v) n \<noteq> bit (drop_bit 16 (rm_term tetra_rm3014_init x k)) n)"
    by (simp add: drop_bit_xor bit_xor_iff)
  also have "\<dots> = ((14 - k \<le> n \<and> n < 14 \<and> bit x n) \<noteq> (n = 13 - k \<and> bit x n))"
    using Suc t by simp
  also have "\<dots> \<longleftrightarrow> 14 - Suc k \<le> n \<and> n < 14 \<and> bit x n"
    using Suc.prems by (cases "n = 13 - k") auto
  finally show ?case .
qed

lemma decode_compute:
  assumes "x < 2 ^ 14"
  shows "tetra_rm3014_decode (tetra_rm3014_compute tetra_rm3014_init x) = (0, x)"
proof -
  have "ucast (drop_bit 16 (tetra_rm3014_compute tetra_rm3014_init x)) = x"
  proof (rule bit_word_eqI)
    fix n assume "n < LENGTH(16)"
    then show "bit (ucast (drop_bit 16 (tetra_rm3014_compute tetra_rm3014_init x)) :: u16) n = bit x n"
      using upper_partial [of 14 x n] bit_high [OF assms, of n]
      by (cases "n < 14") (auto simp: compute_eq bit_ucast_iff)
  qed
  then show ?thesis by (simp add: tetra_rm3014_decode_def)
qed

section \<open>Properties\<close>

text \<open>
  The (30,14) code is systematic and linear: decoding the codeword of a 14-bit word gives that
  word and the return code 0, and the codeword of a sum is the sum of the codewords.
\<close>

theorem rm3014_systematic_linear:
  assumes "x < 0x4000"
  shows "tetra_rm3014_decode (tetra_rm3014_compute tetra_rm3014_init x) = (0, x)
    \<and> tetra_rm3014_compute tetra_rm3014_init (x XOR y)
      = tetra_rm3014_compute tetra_rm3014_init x XOR tetra_rm3014_compute tetra_rm3014_init y"
  using assms by (simp add: decode_compute compute_xor)

theorem rm3014_systematic_linear_witness:
  "tetra_rm3014_decode (tetra_rm3014_compute tetra_rm3014_init 0x2A5C) = (0, 0x2A5C)
    \<and> tetra_rm3014_compute tetra_rm3014_init (0x2A5C XOR 7)
      = tetra_rm3014_compute tetra_rm3014_init 0x2A5C XOR tetra_rm3014_compute tetra_rm3014_init 7"
  by (rule rm3014_systematic_linear) simp

text \<open>
  The decoder ignores the 16 control bits: whatever they are, it returns success with the upper
  half of the word, so it neither corrects nor reports any error.
\<close>

theorem rm3014_decode_ignores_parity:
  "tetra_rm3014_decode (push_bit 16 (ucast (x :: u16)) OR ucast (p :: u16)) = (0, x)"
proof -
  have "ucast (drop_bit 16 (push_bit 16 (ucast x) OR ucast p :: u32)) = x"
    by (rule bit_word_eqI) (auto simp: bit_ucast_iff bit_drop_bit_eq bit_or_iff bit_push_bit_iff dest: bit_imp_le_length)
  then show ?thesis by (simp add: tetra_rm3014_decode_def)
qed

end
