(* ===== verification/TchReorder.thy ===== *)
theory TchReorder
  imports Prelude
begin

text \<open>
  Bit reordering of the ACELP speech frames, \<open>lower_mac/tch_reordering.c\<close>: two interleaved 137-bit
  frames, ordered by sensitivity class, against two consecutive codec frames. The position tables of
  the three classes should be a permutation of the positions 1 to 137. The class 0 table has an
  entry 33 that also is in class 1, and 50 initialisers for its 51 elements, so its last element is
  0: a store through it for the first frame goes one byte before the buffer. The buffers are
  therefore memories indexed by an integer offset from the pointer the caller passes. The lemmas show
  what the two wrong entries do, and that every other bit survives the round trip.
\<close>

definition class0_positions :: "nat list" where
  "class0_positions = [
    35, 36, 37,
    38, 39, 40,
    41, 42, 33,
    47, 48,
    56,
    61, 62, 63,
    65, 66, 67,
    68, 69, 70,
    74, 75,
    83,
    88,
    89, 90, 91,
    92, 93, 94,
    95, 96, 97,
    101, 102,
    110,
    115,
    116, 117, 118,
    119, 120, 121,
    122, 123, 124,
    128, 129,
    137,
    0]"   \<comment> \<open>the array has 51 elements, the initialiser 50\<close>

definition class1_positions :: "nat list" where
  "class1_positions = [
    58, 85, 112,
    54, 81, 108, 135,
    50, 77,
    104, 131,
    45, 72, 99, 126,
    55, 82, 109, 136,
    5, 13, 34,
    8, 16, 17,
    22, 23, 24,
    25, 26,
    6, 14, 7, 15,
    60, 87, 114,
    46,
    73, 100, 127,
    44, 71, 98, 125,
    33, 49,
    76, 103, 130,
    59, 86, 113,
    57, 84, 111]"

definition class2_positions :: "nat list" where
  "class2_positions = [
    18, 19, 20, 21,
    31, 32,
    53, 80, 107, 134,
    1, 2, 3, 4,
    9, 10, 11, 12,
    27, 28, 29, 30,
    52, 79, 106, 133,
    51, 78, 105, 132]"

definition NUM_ACELP_CLASS0_BITS :: nat where "NUM_ACELP_CLASS0_BITS = 51"
definition NUM_ACELP_CLASS1_BITS :: nat where "NUM_ACELP_CLASS1_BITS = 56"
definition NUM_ACELP_CLASS2_BITS :: nat where "NUM_ACELP_CLASS2_BITS = 30"
definition NUM_ACELP_BITS :: nat where
  "NUM_ACELP_BITS = NUM_ACELP_CLASS0_BITS + NUM_ACELP_CLASS1_BITS + NUM_ACELP_CLASS2_BITS"

text \<open>A loop that stores into a memory.\<close>

definition store_mem :: "('i \<Rightarrow> int) \<Rightarrow> ('i \<Rightarrow> 'a) \<Rightarrow> 'i list \<Rightarrow> (int \<Rightarrow> 'a) \<Rightarrow> int \<Rightarrow> 'a" where
  "store_mem f g is out = fold (\<lambda>i out. out(f i := g i)) is out"

text \<open>The nested loops of a class: bits outside, frames inside.\<close>

definition bit_frames :: "nat \<Rightarrow> (nat \<times> nat) list" where
  "bit_frames n = concat (map (\<lambda>b. [(b, 0), (b, 1)]) [0..<n])"

text \<open>\<open>in_cur\<close> and \<open>out_cur\<close> are the offsets of the class in the buffer.\<close>

definition tetra_acelp_type2_to_codec :: "(int \<Rightarrow> 'a) \<Rightarrow> (int \<Rightarrow> 'a) \<Rightarrow> int \<Rightarrow> 'a" where
  "tetra_acelp_type2_to_codec inp out =
    (let cls = (\<lambda>pos n in_cur. store_mem
          (\<lambda>(b, frame). int frame * int NUM_ACELP_BITS + int (pos ! b) - 1)
          (\<lambda>(b, frame). inp (int (in_cur + 2 * b + frame))) (bit_frames n));
         out = cls class0_positions NUM_ACELP_CLASS0_BITS 0 out;
         in_cur = 2 * NUM_ACELP_CLASS0_BITS;
         out = cls class1_positions NUM_ACELP_CLASS1_BITS in_cur out;
         in_cur = in_cur + 2 * NUM_ACELP_CLASS1_BITS
     in cls class2_positions NUM_ACELP_CLASS2_BITS in_cur out)"

definition tetra_acelp_codec_to_acelp :: "(int \<Rightarrow> 'a) \<Rightarrow> (int \<Rightarrow> 'a) \<Rightarrow> int \<Rightarrow> 'a" where
  "tetra_acelp_codec_to_acelp inp out =
    (let cls = (\<lambda>pos n out_cur. store_mem
          (\<lambda>(b, frame). int (out_cur + 2 * b + frame))
          (\<lambda>(b, frame). inp (int frame * int NUM_ACELP_BITS + int (pos ! b) - 1)) (bit_frames n));
         out = cls class0_positions NUM_ACELP_CLASS0_BITS 0 out;
         out_cur = 2 * NUM_ACELP_CLASS0_BITS;
         out = cls class1_positions NUM_ACELP_CLASS1_BITS out_cur out;
         out_cur = out_cur + 2 * NUM_ACELP_CLASS1_BITS
     in cls class2_positions NUM_ACELP_CLASS2_BITS out_cur out)"

section \<open>Both functions as one loop over the concatenated tables\<close>

definition all_positions :: "nat list" where
  "all_positions = class0_positions @ class1_positions @ class2_positions"

text \<open>The codec offset of the type-2 bit with the given offset.\<close>

definition codec_index :: "nat \<Rightarrow> int" where
  "codec_index i = int (i mod 2) * 137 + int (all_positions ! (i div 2)) - 1"

lemma num_bits: "NUM_ACELP_CLASS0_BITS = 51" "NUM_ACELP_CLASS1_BITS = 56" "NUM_ACELP_CLASS2_BITS = 30"
  "NUM_ACELP_BITS = 137"
  by (simp_all add: NUM_ACELP_CLASS0_BITS_def NUM_ACELP_CLASS1_BITS_def NUM_ACELP_CLASS2_BITS_def NUM_ACELP_BITS_def)

lemma length_positions: "length class0_positions = 51" "length class1_positions = 56"
  "length class2_positions = 30" "length all_positions = 137"
  by (simp_all add: class0_positions_def class1_positions_def class2_positions_def all_positions_def)

lemma store_mem_append: "store_mem f g (xs @ ys) out = store_mem f g ys (store_mem f g xs out)"
  by (simp add: store_mem_def)

lemma store_mem_map: "store_mem f g (map h xs) out = store_mem (f \<circ> h) (g \<circ> h) xs out"
  by (simp add: store_mem_def fold_map comp_def)

lemma store_mem_cong:
  assumes "\<And>i. i \<in> set xs \<Longrightarrow> f i = f' i" "\<And>i. i \<in> set xs \<Longrightarrow> g i = g' i"
  shows "store_mem f g xs out = store_mem f' g' xs out"
  unfolding store_mem_def by (rule fold_cong) (simp_all add: assms)

lemma store_mem_notin: "k \<notin> f ` set is \<Longrightarrow> store_mem f g is out k = out k"
  by (induction "is" arbitrary: out) (auto simp: store_mem_def)

text \<open>The last store to an offset decides its value.\<close>

lemma store_mem_last:
  assumes "i < n" "\<And>j. i < j \<Longrightarrow> j < n \<Longrightarrow> f j \<noteq> f i"
  shows "store_mem f g [0..<n] out (f i) = g i"
proof -
  have "[0..<n] = [0..<Suc i] @ [Suc i..<n]"
    using assms(1) upt_add_eq_append [of 0 "Suc i" "n - Suc i"] by simp
  moreover have "store_mem f g [Suc i..<n] m (f i) = m (f i)" for m
    using assms(2) by (intro store_mem_notin) (metis Suc_le_eq atLeastLessThan_iff imageE set_upt)
  ultimately show ?thesis by (simp add: store_mem_append) (simp add: store_mem_def)
qed

lemma bit_frames_eq: "bit_frames n = map (\<lambda>i. (i div 2, i mod 2)) [0..<2 * n]"
proof (induction n)
  case (Suc n)
  have "bit_frames (Suc n) = bit_frames n @ [(n, 0), (n, 1)]" by (simp add: bit_frames_def)
  moreover have "[0..<2 * Suc n] = [0..<2 * n] @ [2 * n, Suc (2 * n)]" by simp
  ultimately show ?case using Suc by simp
qed (simp add: bit_frames_def)

lemma store_mem_bit_frames:
  assumes "\<And>i. i < 2 * n \<Longrightarrow> f (i div 2, i mod 2) = f' (2 * off + i)"
    and "\<And>i. i < 2 * n \<Longrightarrow> g (i div 2, i mod 2) = g' (2 * off + i)"
  shows "store_mem f g (bit_frames n) out = store_mem f' g' [2 * off..<2 * (off + n)] out"
proof -
  have "[2 * off..<2 * (off + n)] = map (\<lambda>i. 2 * off + i) [0..<2 * n]"
    by (rule nth_equalityI) auto
  then show ?thesis
    by (simp add: bit_frames_eq store_mem_map) (rule store_mem_cong, auto simp: assms)
qed

lemma codec_index_add:
  "codec_index (2 * k + i) = int (i mod 2) * 137 + int (all_positions ! (k + i div 2)) - 1"
  by (simp add: codec_index_def)

lemma nth_all_positions:
  "i < 51 \<Longrightarrow> all_positions ! i = class0_positions ! i"
  "i < 56 \<Longrightarrow> all_positions ! (51 + i) = class1_positions ! i"
  "i < 30 \<Longrightarrow> all_positions ! (107 + i) = class2_positions ! i"
  by (simp_all add: all_positions_def nth_append length_positions)

lemma int_half: "2 * int (i div 2) + int (i mod 2) = int i" "x + 2 * int (i div 2) + int (i mod 2) = x + int i"
  by presburger+

lemma codec_index_classes:
  "i < 2 * 51 \<Longrightarrow> codec_index (2 * 0 + i) = int (i mod 2) * 137 + int (class0_positions ! (i div 2)) - 1"
  "i < 2 * 56 \<Longrightarrow> codec_index (2 * 51 + i) = int (i mod 2) * 137 + int (class1_positions ! (i div 2)) - 1"
  "i < 2 * 30 \<Longrightarrow> codec_index (2 * 107 + i) = int (i mod 2) * 137 + int (class2_positions ! (i div 2)) - 1"
  unfolding codec_index_add by (simp_all add: nth_all_positions)

lemma upt_274: "[0..<274] = [2 * 0..<2 * (0 + 51)] @ [2 * 51..<2 * (51 + 56)] @ [2 * 107..<2 * (107 + 30)]"
  using upt_add_eq_append [of 0 102 172] upt_add_eq_append [of 102 112 60] by simp

lemma type2_to_codec_loop:
  "tetra_acelp_type2_to_codec inp out = store_mem codec_index (\<lambda>i. inp (int i)) [0..<274] out"
proof -
  have cls: "store_mem (\<lambda>(b, frame). int frame * int 137 + int (pos ! b) - 1)
        (\<lambda>(b, frame). inp (int (cur + 2 * b + frame))) (bit_frames n) m
      = store_mem codec_index (\<lambda>i. inp (int i)) [2 * k..<2 * (k + n)] m"
    if "\<And>i. i < 2 * n \<Longrightarrow> codec_index (2 * k + i) = int (i mod 2) * 137 + int (pos ! (i div 2)) - 1"
      and "cur = 2 * k" for pos cur n k m
    by (rule store_mem_bit_frames) (simp_all add: that int_half)
  show ?thesis
    unfolding tetra_acelp_type2_to_codec_def num_bits Let_def upt_274 store_mem_append
    by (subst cls, erule codec_index_classes, simp, subst cls, erule codec_index_classes, simp,
      subst cls, erule codec_index_classes, simp, rule refl)
qed

lemma codec_to_acelp_loop:
  "tetra_acelp_codec_to_acelp inp out = store_mem int (\<lambda>i. inp (codec_index i)) [0..<274] out"
proof -
  have cls: "store_mem (\<lambda>(b, frame). int (cur + 2 * b + frame))
        (\<lambda>(b, frame). inp (int frame * int 137 + int (pos ! b) - 1)) (bit_frames n) m
      = store_mem int (\<lambda>i. inp (codec_index i)) [2 * k..<2 * (k + n)] m"
    if "\<And>i. i < 2 * n \<Longrightarrow> codec_index (2 * k + i) = int (i mod 2) * 137 + int (pos ! (i div 2)) - 1"
      and "cur = 2 * k" for pos cur n k m
    by (rule store_mem_bit_frames) (simp_all add: that int_half)
  show ?thesis
    unfolding tetra_acelp_codec_to_acelp_def num_bits Let_def upt_274 store_mem_append
    by (subst cls, erule codec_index_classes, simp, subst cls, erule codec_index_classes, simp,
      subst cls, erule codec_index_classes, simp, rule refl)
qed

lemma codec_to_acelp_nth:
  "i < 274 \<Longrightarrow> tetra_acelp_codec_to_acelp inp out (int i) = inp (codec_index i)"
  unfolding codec_to_acelp_loop by (rule store_mem_last) auto

section \<open>The position table but for its two wrong entries\<close>

lemma positions_permutation:
  "sort (all_positions[8 := 43, 50 := 64]) = [1..<138]"
  by code_simp

lemma positions_distinct: "distinct (all_positions[8 := 43, 50 := 64])"
  by (metis distinct_sort distinct_upt positions_permutation)

lemma positions_le: "i < 137 \<Longrightarrow> all_positions ! i \<le> 137"
proof -
  have "list_all (\<lambda>p. p \<le> 137) all_positions" by code_simp
  then show "i < 137 \<Longrightarrow> all_positions ! i \<le> 137"
    by (simp add: list_all_length length_positions)
qed

lemma positions_wrong: "all_positions ! 8 = 33" "all_positions ! 50 = 0" "all_positions ! 96 = 33"
  "all_positions ! 49 = 137"
  by code_simp+

text \<open>Two different places of the table hold the same position only at the wrong entry 33.\<close>

lemma positions_fixed_nth:
  assumes "i < 137" "j < 137" "all_positions ! i = all_positions ! j" "i \<noteq> j"
  shows "{i, j} = {8, 96}"
proof -
  let ?P = "all_positions[8 := 43, 50 := 64]"
  have d: "?P ! a = ?P ! b \<longleftrightarrow> a = b" if "a < 137" "b < 137" for a b
    using positions_distinct that by (simp add: nth_eq_iff_index_eq length_positions)
  have P: "?P ! a = (if a = 50 then 64 else if a = 8 then 43 else all_positions ! a)" if "a < 137" for a
    using that by (simp add: nth_list_update length_positions)
  have pos: "all_positions ! a \<noteq> 0" if "a < 137" "a \<noteq> 50" for a
  proof -
    have "list_all (\<lambda>p. p \<noteq> 0) ?P" by code_simp
    then have "\<forall>n<137. ?P ! n \<noteq> 0" by (simp only: list_all_length length_positions length_list_update)
    then have "?P ! a \<noteq> 0" using that by blast
    then show ?thesis using P [OF that(1)] that positions_wrong by (cases "a = 8") auto
  qed
  have ne50: "i \<noteq> 50" "j \<noteq> 50" using pos [of i] pos [of j] assms positions_wrong(2) by metis+
  have "i = 96" if "i \<noteq> 8" "all_positions ! i = 33" "i < 137" "i \<noteq> 50" for i
    using d [of i 96] P [of i] P [of 96] that positions_wrong by simp
  moreover have "i = 8 \<or> j = 8"
    using d [of i j] P [of i] P [of j] assms ne50 by (cases "i = 8"; cases "j = 8") simp_all
  ultimately show ?thesis using assms positions_wrong ne50 by auto
qed

lemma codec_index_collision:
  assumes "i < j" "j < 274" "codec_index i = codec_index j"
  shows "(i, j) = (16, 192) \<or> (i, j) = (17, 193) \<or> (i, j) = (98, 101)"
proof -
  define a b p q where ab: "a = i div 2" "b = j div 2" "p = i mod 2" "q = j mod 2"
  have ij: "i = 2 * a + p" "j = 2 * b + q" "p < 2" "q < 2" "a < 137" "b < 137"
    using assms by (auto simp: ab)
  have le: "all_positions ! a \<le> 137" "all_positions ! b \<le> 137" using ij positions_le by auto
  have eq: "p * 137 + all_positions ! a = q * 137 + all_positions ! b"
    using assms(3) unfolding codec_index_def ab by linarith
  have uniq: "x = 49" if "all_positions ! x = 137" "x < 137" for x
    using positions_fixed_nth [of x 49] that positions_wrong by (cases "x = 49") (auto simp: doubleton_eq_iff)
  have uniq0: "x = 50" if "all_positions ! x = 0" "x < 137" for x
    using positions_fixed_nth [of x 50] that positions_wrong by (cases "x = 50") (auto simp: doubleton_eq_iff)
  consider "p = q" | "p = 0" "q = 1" | "p = 1" "q = 0" using ij by linarith
  then show ?thesis
  proof cases
    case 1
    then have "a \<noteq> b" "all_positions ! a = all_positions ! b" using eq ij assms by auto
    then have "{a, b} = {8, 96}" using ij by (intro positions_fixed_nth)
    then have "a = 8 \<and> b = 96" using 1 ij assms(1) by (auto simp: doubleton_eq_iff)
    then show ?thesis using 1 ij by auto
  next
    case 2
    then have "all_positions ! a = 137" "all_positions ! b = 0" using eq le by auto
    then show ?thesis using 2 ij uniq uniq0 by simp
  next
    case 3
    then have "all_positions ! b = 137" "all_positions ! a = 0" using eq le by auto
    then show ?thesis using 3 ij uniq [of b] uniq0 [of a] assms(1) by simp
  qed
qed

text \<open>Which input bit the round trip returns for each of the 274.\<close>

definition acelp_source :: "nat \<Rightarrow> nat" where
  "acelp_source i = (if i = 16 then 192 else if i = 17 then 193 else if i = 98 then 101 else i)"

lemma acelp_roundtrip:
  assumes "i < 274"
  shows "tetra_acelp_codec_to_acelp (tetra_acelp_type2_to_codec inp out) out' (int i)
    = inp (int (acelp_source i))"
proof -
  have same: "codec_index i = codec_index (acelp_source i)"
    by (auto simp: acelp_source_def codec_index_def positions_wrong)
  have src: "acelp_source i \<noteq> 16" "acelp_source i \<noteq> 17" "acelp_source i \<noteq> 98"
    by (simp_all add: acelp_source_def)
  have last: "codec_index j \<noteq> codec_index (acelp_source i)" if "acelp_source i < j" "j < 274" for j
    using codec_index_collision [OF that] src by auto
  have "acelp_source i < 274" using assms by (simp add: acelp_source_def)
  then have "tetra_acelp_type2_to_codec inp out (codec_index (acelp_source i)) = inp (int (acelp_source i))"
    unfolding type2_to_codec_loop by (rule store_mem_last) (rule last)
  then show ?thesis using assms by (simp add: codec_to_acelp_nth same)
qed

section \<open>Properties\<close>

text \<open>
  Reordering a decoded pair of speech frames for the codec and back gives every one of the 274
  bits but three: the two bits of class 0 entry 8, which the tables send to position 33 instead of
  43, come back as the class 1 bits that really belong at 33, and the last position of the first
  frame comes back as a bit of the second one.
\<close>

theorem acelp_reordering_roundtrip:
  assumes "i < 274"
  shows "tetra_acelp_codec_to_acelp (tetra_acelp_type2_to_codec inp out) out' (int i)
    = inp (if i = 16 then 192 else if i = 17 then 193 else if i = 98 then 101 else int i)"
  using acelp_roundtrip [OF assms] by (auto simp: acelp_source_def)

theorem acelp_reordering_roundtrip_witness:
  "tetra_acelp_codec_to_acelp (tetra_acelp_type2_to_codec (\<lambda>k. k * 3) (\<lambda>_. 0)) (\<lambda>_. 7) (int 16)
    = (if (16 :: nat) = 16 then 192 else if (16 :: nat) = 17 then 193 else if (16 :: nat) = 98 then 101
       else int 16) * 3"
  using acelp_reordering_roundtrip [of 16 "\<lambda>k. k * 3" "\<lambda>_. 0" "\<lambda>_. 7"] by simp

text \<open>
  The reordering for the codec writes one element before its output buffer (the class 0 table has
  one initialiser less than elements, and the missing position 0 stands for offset -1), and never
  writes the positions 43 and 64 of either frame, which the class tables leave out.
\<close>

theorem acelp_reordering_out_of_bounds:
  "tetra_acelp_type2_to_codec inp out (-1) = inp 100
    \<and> tetra_acelp_type2_to_codec inp out 42 = out 42
    \<and> tetra_acelp_type2_to_codec inp out 63 = out 63
    \<and> tetra_acelp_type2_to_codec inp out (137 + 42) = out (137 + 42)
    \<and> tetra_acelp_type2_to_codec inp out (137 + 63) = out (137 + 63)"
proof (intro conjI)
  have c: "codec_index 100 = -1" by (simp add: codec_index_def positions_wrong)
  have "codec_index j \<noteq> codec_index 100" if "100 < j" "j < 274" for j
    using codec_index_collision [OF that] by auto
  then show "tetra_acelp_type2_to_codec inp out (-1) = inp 100"
    using store_mem_last [of 100 274 codec_index "\<lambda>i. inp (int i)" out] c
    by (simp add: type2_to_codec_loop)
  have "list_all (\<lambda>p. p \<noteq> 43 \<and> p \<noteq> 64 \<and> p \<le> 137) all_positions" by code_simp
  then have n: "all_positions ! a \<noteq> 43" "all_positions ! a \<noteq> 64" "all_positions ! a \<le> 137" if "a < 137" for a
    using that by (auto simp: list_all_length length_positions)
  have "codec_index i \<notin> {42, 63, 137 + 42, 137 + 63}" if "i < 274" for i
  proof -
    have "i mod 2 = 0 \<or> i mod 2 = 1" "i div 2 < 137" using that by auto
    then show ?thesis using n [of "i div 2"] by (auto simp: codec_index_def)
  qed
  then have "tetra_acelp_type2_to_codec inp out k = out k" if "k \<in> {42, 63, 137 + 42, 137 + 63}" for k
    unfolding type2_to_codec_loop using that by (intro store_mem_notin) auto
  then show "tetra_acelp_type2_to_codec inp out 42 = out 42"
    "tetra_acelp_type2_to_codec inp out 63 = out 63"
    "tetra_acelp_type2_to_codec inp out (137 + 42) = out (137 + 42)"
    "tetra_acelp_type2_to_codec inp out (137 + 63) = out (137 + 63)"
    by blast+
qed

end
