(* ===== verification/ConvEnc.thy ===== *)
theory ConvEnc
  imports Prelude
begin

text \<open>
  The convolutional encoder and the puncturing of its output, \<open>lower_mac/tetra_conv_enc.c\<close>. The 16-state
  mother code of rate 1/4 is a shift register of four bits; the seven puncturing schemes select the
  mother bits that are sent, through a table \<open>P\<close>, its length \<open>t\<close>, a period and an index function.
  The lemmas show that every scheme sends increasing positions of the mother code (one argument for
  all seven tables, from the shape of the table), so that the receiver's de-puncturing is undone by
  puncturing, and that the self-test of the C code passes.
\<close>

section \<open>The mother code\<close>

record conv_enc_state =
  delayed :: "u8 list"   \<comment> \<open>four bits, the latest first\<close>

text \<open>The sum of some bytes is an \<open>int\<close>, then reduced modulo 2.\<close>

definition mod2 :: "u8 list \<Rightarrow> u8" where
  "mod2 xs = of_nat (sum_list (map unat xs) mod 2)"

text \<open>The state after the bit, the four bytes stored through \<open>out\<close>, and the returned nibble.\<close>

definition conv_enc_in_bit :: "conv_enc_state \<Rightarrow> u8 \<Rightarrow> conv_enc_state \<times> u8 list \<times> u8" where
  "conv_enc_in_bit ces b =
    (let d = delayed ces;
         \<comment> \<open>G1 = 1 + D + D4\<close>
         g1 = mod2 [b, d ! 0, d ! 3];
         \<comment> \<open>G2 = 1 + D2 + D3 + D4\<close>
         g2 = mod2 [b, d ! 1, d ! 2, d ! 3];
         \<comment> \<open>G3 = 1 + D + D2 + D4\<close>
         g3 = mod2 [b, d ! 0, d ! 1, d ! 3];
         \<comment> \<open>G4 = 1 + D + D3 + D4\<close>
         g4 = mod2 [b, d ! 0, d ! 2, d ! 3];
         d = d[3 := d ! 2];
         d = d[2 := d ! 1];
         d = d[1 := d ! 0];
         d = d[0 := b]
     in (ces\<lparr>delayed := d\<rparr>, [g1, g2, g3, g4],
         g1 OR push_bit 1 g2 OR push_bit 2 g3 OR push_bit 3 g4))"

text \<open>The encoder's state, and the output buffer with its next four bytes written for each bit.\<close>

fun conv_enc_input_loop :: "conv_enc_state \<Rightarrow> u8 list \<Rightarrow> u8 list \<Rightarrow> nat \<Rightarrow> conv_enc_state \<times> u8 list" where
  "conv_enc_input_loop ces [] out off = (ces, out)"
| "conv_enc_input_loop ces (b # bs) out off =
    (let (ces', g, ret) = conv_enc_in_bit ces b
     in conv_enc_input_loop ces' bs (blit out off g) (off + 4))"

definition conv_enc_input :: "conv_enc_state \<Rightarrow> u8 list \<Rightarrow> nat \<Rightarrow> u8 list \<Rightarrow> int \<times> conv_enc_state \<times> u8 list" where
  "conv_enc_input ces inp len out = (0, conv_enc_input_loop ces (take len inp) out 0)"

definition conv_enc_init :: "conv_enc_state \<Rightarrow> int \<times> conv_enc_state" where
  "conv_enc_init ces = (0, ces\<lparr>delayed := replicate 4 0\<rparr>)"

section \<open>Puncturing\<close>

definition P_rate2_3 :: "u8 list" where "P_rate2_3 = [0, 1, 2, 5]"
definition P_rate1_3 :: "u8 list" where "P_rate1_3 = [0, 1, 2, 3, 5, 6, 7]"

text \<open>Voice\<close>

definition P_rate8_12 :: "u8 list" where "P_rate8_12 = [0, 1, 2, 4]"
definition P_rate8_18 :: "u8 list" where "P_rate8_18 = [0, 1, 2, 3, 4, 5, 7, 8, 10, 11]"
definition P_rate8_17 :: "u8 list" where
  "P_rate8_17 = [0, 1, 2, 3, 4, 5, 7, 8, 10, 11, 13, 14, 16, 17, 19, 20, 22, 23]"

text \<open>The enumeration \<open>tetra_rcpc_puncturer\<close>, as the integers the functions compare.\<close>

definition TETRA_RCPC_PUNCT_2_3 :: u32 where "TETRA_RCPC_PUNCT_2_3 = 0"
definition TETRA_RCPC_PUNCT_1_3 :: u32 where "TETRA_RCPC_PUNCT_1_3 = 1"
definition TETRA_RCPC_PUNCT_292_432 :: u32 where "TETRA_RCPC_PUNCT_292_432 = 2"
definition TETRA_RCPC_PUNCT_148_432 :: u32 where "TETRA_RCPC_PUNCT_148_432 = 3"
definition TETRA_RCPC_PUNCT_112_168 :: u32 where "TETRA_RCPC_PUNCT_112_168 = 4"
definition TETRA_RCPC_PUNCT_72_162 :: u32 where "TETRA_RCPC_PUNCT_72_162 = 5"
definition TETRA_RCPC_PUNCT_38_80 :: u32 where "TETRA_RCPC_PUNCT_38_80 = 6"

lemmas TETRA_RCPC_defs = TETRA_RCPC_PUNCT_2_3_def TETRA_RCPC_PUNCT_1_3_def
  TETRA_RCPC_PUNCT_292_432_def TETRA_RCPC_PUNCT_148_432_def TETRA_RCPC_PUNCT_112_168_def
  TETRA_RCPC_PUNCT_72_162_def TETRA_RCPC_PUNCT_38_80_def

record puncturer =
  ptype :: u32
  pP :: "u8 list"
  pt :: u8
  pperiod :: u8
  i_func :: "u32 \<Rightarrow> u32"

definition i_func_equals :: "u32 \<Rightarrow> u32" where "i_func_equals j = j"
definition i_func_292 :: "u32 \<Rightarrow> u32" where "i_func_292 j = j + ((j - 1) div 65)"
definition i_func_148 :: "u32 \<Rightarrow> u32" where "i_func_148 j = j + ((j - 1) div 35)"

definition punct_2_3 :: puncturer where
  "punct_2_3 = \<lparr>ptype = TETRA_RCPC_PUNCT_2_3, pP = P_rate2_3, pt = 3, pperiod = 8, i_func = i_func_equals\<rparr>"

definition punct_1_3 :: puncturer where
  "punct_1_3 = \<lparr>ptype = TETRA_RCPC_PUNCT_1_3, pP = P_rate1_3, pt = 6, pperiod = 8, i_func = i_func_equals\<rparr>"

definition punct_292_432 :: puncturer where
  "punct_292_432 = \<lparr>ptype = TETRA_RCPC_PUNCT_292_432, pP = P_rate2_3, pt = 3, pperiod = 8, i_func = i_func_292\<rparr>"

definition punct_148_432 :: puncturer where
  "punct_148_432 = \<lparr>ptype = TETRA_RCPC_PUNCT_148_432, pP = P_rate1_3, pt = 6, pperiod = 8, i_func = i_func_148\<rparr>"

definition punct_112_168 :: puncturer where
  "punct_112_168 = \<lparr>ptype = TETRA_RCPC_PUNCT_112_168, pP = P_rate8_12, pt = 3, pperiod = 6, i_func = i_func_equals\<rparr>"

definition punct_72_162 :: puncturer where
  "punct_72_162 = \<lparr>ptype = TETRA_RCPC_PUNCT_72_162, pP = P_rate8_18, pt = 9, pperiod = 12, i_func = i_func_equals\<rparr>"

text \<open>The type field of the last one repeats the one before: nothing reads it.\<close>

definition punct_38_80 :: puncturer where
  "punct_38_80 = \<lparr>ptype = TETRA_RCPC_PUNCT_72_162, pP = P_rate8_17, pt = 17, pperiod = 24, i_func = i_func_equals\<rparr>"

definition tetra_puncts :: "puncturer list" where
  "tetra_puncts =
    [punct_2_3, punct_1_3, punct_292_432, punct_148_432, punct_112_168, punct_72_162, punct_38_80]"


text \<open>The position (from 1) in the mother code of the \<open>j\<close>-th bit that is sent.\<close>

definition punct_k :: "puncturer \<Rightarrow> u32 \<Rightarrow> u32" where
  "punct_k punct j =
    (let i = i_func punct j; q = (i - 1) div ucast (pt punct)
     in ucast (pperiod punct) * q + ucast (pP punct ! unat (i - ucast (pt punct) * q)))"

definition get_punctured_rate :: "u32 \<Rightarrow> 'a list \<Rightarrow> u32 \<Rightarrow> 'a list \<Rightarrow> int \<times> 'a list" where
  "get_punctured_rate pu inp len out =
    (if unat pu \<ge> length tetra_puncts then (- EINVAL, out)
     else let punct = tetra_puncts ! unat pu
          in (0, store_loop (\<lambda>j. unat (of_nat j - 1 :: u32)) (\<lambda>j. inp ! unat (punct_k punct (of_nat j) - 1))
                [1..<Suc (unat len)] out))"

definition tetra_rcpc_depunct :: "u32 \<Rightarrow> 'a list \<Rightarrow> u32 \<Rightarrow> 'a list \<Rightarrow> int \<times> 'a list" where
  "tetra_rcpc_depunct pu inp len out =
    (if unat pu \<ge> length tetra_puncts then (- EINVAL, out)
     else let punct = tetra_puncts ! unat pu
          in (0, store_loop (\<lambda>j. unat (punct_k punct (of_nat j) - 1)) (\<lambda>j. inp ! unat (of_nat j - 1 :: u32))
                [1..<Suc (unat len)] out))"

section \<open>The self-test\<close>

record punct_test_param =
  type2_len :: u16
  type3_len :: u16
  mother_rate :: u16
  punct :: u32

definition punct_test_params :: "punct_test_param list" where
  "punct_test_params = map (\<lambda>(t2, t3, r, p). \<lparr>type2_len = t2, type3_len = t3, mother_rate = r, punct = p\<rparr>)
    [(80, 120, 4, TETRA_RCPC_PUNCT_2_3), (292, 432, 4, TETRA_RCPC_PUNCT_292_432),
     (148, 432, 4, TETRA_RCPC_PUNCT_148_432), (144, 216, 4, TETRA_RCPC_PUNCT_2_3),
     (112, 168, 4, TETRA_RCPC_PUNCT_2_3), (288, 432, 4, TETRA_RCPC_PUNCT_2_3),
     (112, 168, 3, TETRA_RCPC_PUNCT_112_168), (72, 162, 3, TETRA_RCPC_PUNCT_72_162),
     (38, 80, 3, TETRA_RCPC_PUNCT_38_80)]"

fun mother_memcmp_loop :: "u8 list \<Rightarrow> u8 list \<Rightarrow> int \<Rightarrow> int" where
  "mother_memcmp_loop (m # ms) (d # ds) equal =
    (if d = 0xff then mother_memcmp_loop ms ds equal
     else if d \<noteq> m then -1
     else mother_memcmp_loop ms ds (equal + 1))"
| "mother_memcmp_loop _ _ equal = equal"

definition mother_memcmp :: "u8 list \<Rightarrow> u8 list \<Rightarrow> nat \<Rightarrow> int" where
  "mother_memcmp mother depunct len = mother_memcmp_loop (take len mother) (take len depunct) 0"

text \<open>The counter \<open>j\<close> that fills the mother buffer skips 0xff.\<close>

fun mother_fill :: "nat \<Rightarrow> int \<Rightarrow> u8 list" where
  "mother_fill 0 j = []"
| "mother_fill (Suc n) j = (let j = if j = 0xff then 0 else j in of_int j # mother_fill n (j + 1))"

text \<open>The buffers come from \<open>malloc\<close>: the content \<open>u\<close> of the type-3 buffer is arbitrary.\<close>

definition test_one_punct :: "u8 \<Rightarrow> punct_test_param \<Rightarrow> int" where
  "test_one_punct u ptp =
    (let mother_len = unat (type2_len ptp) * unat (mother_rate ptp);
         mother_buf = mother_fill mother_len 0;
         type3_buf = snd (get_punctured_rate (punct ptp) mother_buf (ucast (type3_len ptp))
                           (replicate (unat (type3_len ptp)) u));
         depunct_buf = snd (tetra_rcpc_depunct (punct ptp) type3_buf (ucast (type3_len ptp))
                             (replicate mother_len 0xff));
         i = mother_memcmp mother_buf depunct_buf mother_len
     in if i < 0 then i else if i \<noteq> uint (type3_len ptp) then - EINVAL else 0)"

fun punct_test_loop :: "u8 \<Rightarrow> punct_test_param list \<Rightarrow> int" where
  "punct_test_loop u [] = 0"
| "punct_test_loop u (p # ps) =
    (let rc = test_one_punct u p in if rc < 0 then rc else punct_test_loop u ps)"

definition tetra_punct_test :: "u8 \<Rightarrow> int" where
  "tetra_punct_test u = punct_test_loop u punct_test_params"

section \<open>Every scheme sends increasing positions\<close>

text \<open>The shape of a puncturing table: \<open>t\<close> increasing positions (from 1) of a period.\<close>

definition punct_table :: "puncturer \<Rightarrow> bool" where
  "punct_table p \<longleftrightarrow> pt p \<noteq> 0 \<and> length (pP p) = unat (pt p) + 1 \<and> sorted_wrt (<) (map unat (pP p))
    \<and> pP p ! 0 = 0 \<and> unat (pP p ! unat (pt p)) \<le> unat (pperiod p)"

text \<open>The position of the mother bit with index \<open>i\<close>, over the naturals.\<close>

definition punct_pos :: "puncturer \<Rightarrow> nat \<Rightarrow> nat" where
  "punct_pos p i = unat (pperiod p) * ((i - 1) div unat (pt p)) + unat (pP p ! ((i - 1) mod unat (pt p) + 1))"

lemma P_less: "punct_table p \<Longrightarrow> a < b \<Longrightarrow> b \<le> unat (pt p) \<Longrightarrow> unat (pP p ! a) < unat (pP p ! b)"
  using sorted_wrt_nth_less [of "(<)" "map unat (pP p)" a b] by (simp add: punct_table_def)

lemma P_le: "punct_table p \<Longrightarrow> b \<le> unat (pt p) \<Longrightarrow> unat (pP p ! b) \<le> unat (pperiod p)"
  using P_less [of p b "unat (pt p)"]
  by (cases "b = unat (pt p)") (auto simp: punct_table_def)

lemma P_pos: "punct_table p \<Longrightarrow> 0 < b \<Longrightarrow> b \<le> unat (pt p) \<Longrightarrow> 0 < unat (pP p ! b)"
  using P_less [of p 0 b] by simp

lemma t_pos: "punct_table p \<Longrightarrow> 0 < unat (pt p)"
  by (simp add: punct_table_def unat_gt_0)

lemma punct_pos_pos: "punct_table p \<Longrightarrow> 0 < punct_pos p i"
  using P_pos [of p "(i - 1) mod unat (pt p) + 1"] t_pos [of p]
  by (simp add: punct_pos_def Suc_leI)

lemma punct_pos_mono:
  assumes "punct_table p" "1 \<le> i" "i < j"
  shows "punct_pos p i < punct_pos p j"
proof -
  let ?t = "unat (pt p)" and ?T = "unat (pperiod p)"
  let ?q = "(i - 1) div ?t" and ?q' = "(j - 1) div ?t"
  let ?r = "(i - 1) mod ?t + 1" and ?r' = "(j - 1) mod ?t + 1"
  have t: "0 < ?t" "?r \<le> ?t" "?r' \<le> ?t" using t_pos [OF assms(1)] by (simp_all add: Suc_leI)
  have le: "?q \<le> ?q'" using assms by (simp add: div_le_mono)
  show ?thesis
  proof (cases "?q = ?q'")
    case True
    have "?r < ?r'"
      using div_mult_mod_eq [of "i - 1" ?t] div_mult_mod_eq [of "j - 1" ?t] assms(2,3)
      unfolding True by linarith
    then show ?thesis using P_less [OF assms(1) _ t(3)] True by (simp add: punct_pos_def)
  next
    case False
    then have "?T * (?q + 1) \<le> ?T * ?q'" using le by (intro mult_le_mono2) simp
    moreover have "unat (pP p ! ?r) \<le> ?T" "0 < unat (pP p ! ?r')"
      using assms(1) t by (auto intro: P_le P_pos)
    ultimately show ?thesis by (simp add: punct_pos_def algebra_simps)
  qed
qed

text \<open>The index functions over the naturals, and the schemes the array holds.\<close>

definition idx_of :: "u32 \<Rightarrow> nat \<Rightarrow> nat" where
  "idx_of pu j = (if pu = 2 then j + (j - 1) div 65 else if pu = 3 then j + (j - 1) div 35 else j)"

lemma less_7_cases:
  fixes n :: nat
  assumes "n < 7"
  obtains "n = 0" | "n = 1" | "n = 2" | "n = 3" | "n = 4" | "n = 5" | "n = 6"
  using assms by (auto simp: eval_nat_numeral less_Suc_eq)

lemmas punct_defs = punct_2_3_def punct_1_3_def punct_292_432_def punct_148_432_def
  punct_112_168_def punct_72_162_def punct_38_80_def

lemma length_tetra_puncts: "length tetra_puncts = 7"
  by (simp add: tetra_puncts_def)

lemma punct_tables: "n < 7 \<Longrightarrow> punct_table (tetra_puncts ! n) \<and> pperiod (tetra_puncts ! n) \<le> 24"
proof -
  have "list_all (\<lambda>p. punct_table p \<and> pperiod p \<le> 24) tetra_puncts" by code_simp
  then show "n < 7 \<Longrightarrow> ?thesis" by (simp add: list_all_length length_tetra_puncts)
qed

lemma idx_of_mono: "i < j \<Longrightarrow> idx_of pu i < idx_of pu j"
  by (auto simp: idx_of_def intro!: add_less_le_mono div_le_mono)

lemma idx_of_bounds: "1 \<le> j \<Longrightarrow> 1 \<le> idx_of pu j" "idx_of pu j \<le> 2 * j"
proof -
  have "(j - 1) div 65 \<le> j" "(j - 1) div 35 \<le> j" by (meson div_le_dividend diff_le_self le_trans)+
  then show "idx_of pu j \<le> 2 * j" by (auto simp: idx_of_def)
qed (simp add: idx_of_def)

lemma unat_i_func:
  assumes "unat pu < 7" "1 \<le> j" "j < 2 ^ 20"
  shows "unat (i_func (tetra_puncts ! unat pu) (of_nat j)) = idx_of pu j"
proof -
  have j: "unat (of_nat j :: u32) = j" "unat (of_nat j - 1 :: u32) = j - 1"
  proof -
    show 1: "unat (of_nat j :: u32) = j" using assms by (intro unat_of_nat_lt) simp
    show "unat (of_nat j - 1 :: u32) = j - 1"
      using assms 1 by (subst unat_sub) (simp_all add: word_le_nat_alt)
  qed
  have s: "unat (of_nat j + (of_nat j - 1) div n :: u32) = j + (j - 1) div unat n" for n
  proof -
    have "(j - 1) div unat n \<le> j" by (meson div_le_dividend diff_le_self le_trans)
    then show ?thesis using assms j by (subst unat_add_lem [THEN iffD1]) (simp_all add: unat_div_distrib)
  qed
  have pu: "unat pu = 0 \<longleftrightarrow> pu = 0" "unat pu = 2 \<longleftrightarrow> pu = 2" "unat pu = 3 \<longleftrightarrow> pu = 3"
    by (simp_all add: word_unat_eq_iff)
  show ?thesis
    using assms(1)
    by (cases rule: less_7_cases)
      (simp_all add: tetra_puncts_def punct_defs i_func_equals_def i_func_292_def i_func_148_def
        j s idx_of_def flip: pu)
qed

lemma unat_punct_k:
  assumes "unat pu < 7" "1 \<le> j" "j < 2 ^ 20"
  shows "unat (punct_k (tetra_puncts ! unat pu) (of_nat j))
    = punct_pos (tetra_puncts ! unat pu) (idx_of pu j)"
proof -
  let ?p = "tetra_puncts ! unat pu" and ?i = "idx_of pu j"
  let ?iw = "i_func ?p (of_nat j)"
  let ?qw = "(?iw - 1) div ucast (pt ?p)"
  note ok = punct_tables [OF assms(1)]
  have i: "unat ?iw = ?i" "1 \<le> ?i" "?i < 2 ^ 21"
    using unat_i_func [OF assms] idx_of_bounds [where j = j and pu = pu] assms by auto
  have im1: "unat (?iw - 1) = ?i - 1"
    using i by (subst unat_sub) (simp_all add: word_le_nat_alt)
  have q: "unat ?qw = (?i - 1) div unat (pt ?p)" by (simp add: unat_div_distrib im1)
  have le: "(?i - 1) div unat (pt ?p) * unat (pt ?p) \<le> ?i - 1" by (rule div_times_less_eq_dividend)
  have tq: "unat (ucast (pt ?p) * ?qw) = unat (pt ?p) * ((?i - 1) div unat (pt ?p))"
  proof -
    have "unat (pt ?p) * ((?i - 1) div unat (pt ?p)) < 2 ^ 32"
      by (subst mult.commute) (rule le_less_trans [OF le], use i(3) in simp)
    then show ?thesis by (subst unat_mult_lem [THEN iffD1]) (simp_all add: q)
  qed
  have idx: "unat (?iw - ucast (pt ?p) * ?qw) = (?i - 1) mod unat (pt ?p) + 1"
  proof -
    have "?i - unat (pt ?p) * ((?i - 1) div unat (pt ?p)) = (?i - 1) mod unat (pt ?p) + 1"
      using i(2) mult_div_mod_eq [of "unat (pt ?p)" "?i - 1"] by linarith
    moreover have "ucast (pt ?p) * ?qw \<le> ?iw"
      using mult_div_mod_eq [of "unat (pt ?p)" "?i - 1"] unfolding word_le_nat_alt tq i(1) by linarith
    ultimately show ?thesis by (simp add: unat_sub tq i(1))
  qed
  have b: "unat (ucast (pperiod ?p) * ?qw) = unat (pperiod ?p) * ((?i - 1) div unat (pt ?p))"
    and b': "unat (pperiod ?p) * ((?i - 1) div unat (pt ?p)) \<le> 24 * 2 ^ 21"
  proof -
    have "unat (pperiod ?p) \<le> 24" using ok by (simp add: word_le_nat_alt)
    moreover have "(?i - 1) div unat (pt ?p) \<le> 2 ^ 21"
      using i(3) by (meson div_le_dividend diff_le_self le_trans less_imp_le)
    ultimately show b': "unat (pperiod ?p) * ((?i - 1) div unat (pt ?p)) \<le> 24 * 2 ^ 21"
      by (rule mult_le_mono)
    then show "unat (ucast (pperiod ?p) * ?qw) = unat (pperiod ?p) * ((?i - 1) div unat (pt ?p))"
      by (subst unat_mult_lem [THEN iffD1]) (simp_all add: q)
  qed
  have c: "unat (pP ?p ! ((?i - 1) mod unat (pt ?p) + 1)) < 256" by (rule unat_u8_less)
  show ?thesis
    using b' c unfolding punct_k_def Let_def idx punct_pos_def
    by (subst unat_add_lem [THEN iffD1]) (simp_all add: b)
qed

lemma punct_k_minus_1:
  assumes "unat pu < 7" "1 \<le> j" "j < 2 ^ 20"
  shows "unat (punct_k (tetra_puncts ! unat pu) (of_nat j) - 1)
    = punct_pos (tetra_puncts ! unat pu) (idx_of pu j) - 1"
  using unat_punct_k [OF assms] punct_pos_pos punct_tables [OF assms(1)]
  by (subst unat_sub) (simp_all add: word_le_nat_alt Suc_leI)

text \<open>The offset in the mother code of the \<open>j\<close>-th bit that is sent.\<close>

definition sent_offset :: "u32 \<Rightarrow> nat \<Rightarrow> nat" where
  "sent_offset pu j = unat (punct_k (tetra_puncts ! unat pu) (of_nat j) - 1)"

lemma sent_offset_mono:
  assumes "unat pu < 7" "1 \<le> i" "i < j" "j < 2 ^ 20"
  shows "sent_offset pu i < sent_offset pu j"
proof -
  note ok = punct_tables [OF assms(1), THEN conjunct1]
  have "punct_pos (tetra_puncts ! unat pu) (idx_of pu i) < punct_pos (tetra_puncts ! unat pu) (idx_of pu j)"
    using assms idx_of_bounds(1) idx_of_mono by (intro punct_pos_mono [OF ok]) auto
  then show ?thesis
    using assms punct_pos_pos [OF ok, of "idx_of pu i"] by (simp add: sent_offset_def punct_k_minus_1)
qed

lemma sent_offset_le:
  "unat pu < 7 \<Longrightarrow> 1 \<le> i \<Longrightarrow> i \<le> j \<Longrightarrow> j < 2 ^ 20 \<Longrightarrow> sent_offset pu i \<le> sent_offset pu j"
  using sent_offset_mono [of pu i j] by (cases "i = j") auto

lemma sent_offset_inj:
  assumes "unat pu < 7" "n < 2 ^ 20"
  shows "inj_on (sent_offset pu) {1..<Suc n}"
proof (rule linorder_inj_onI')
  fix i j assume "i \<in> {1..<Suc n}" "j \<in> {1..<Suc n}" "i < j"
  then have "sent_offset pu i < sent_offset pu j" using assms by (intro sent_offset_mono) auto
  then show "sent_offset pu i \<noteq> sent_offset pu j" by simp
qed

lemma unat_of_nat_minus_1: "1 \<le> j \<Longrightarrow> j < 2 ^ 20 \<Longrightarrow> unat (of_nat j - 1 :: u32) = j - 1"
  by (subst unat_sub) (simp_all add: word_le_nat_alt unat_of_nat_lt)

section \<open>Puncturing and de-puncturing as stores at the sent offsets\<close>

lemma sent_index: "j \<in> set [Suc 0..<Suc n] \<longleftrightarrow> Suc 0 \<le> j \<and> j \<le> n"
  by auto

lemma punctured_eq:
  assumes "unat pu < 7" "unat len < 2 ^ 20"
  shows "get_punctured_rate pu inp len out =
    (0, store_loop (\<lambda>j. j - 1) (\<lambda>j. inp ! sent_offset pu j) [1..<Suc (unat len)] out)"
  using assms unfolding get_punctured_rate_def Let_def length_tetra_puncts
  by (simp del: upt_Suc)
    (rule store_loop_cong, simp_all only: sent_index, simp_all add: unat_of_nat_minus_1 sent_offset_def)

lemma depunct_eq:
  assumes "unat pu < 7" "unat len < 2 ^ 20"
  shows "tetra_rcpc_depunct pu inp len out =
    (0, store_loop (sent_offset pu) (\<lambda>j. inp ! (j - 1)) [1..<Suc (unat len)] out)"
  using assms unfolding tetra_rcpc_depunct_def Let_def length_tetra_puncts
  by (simp del: upt_Suc)
    (rule store_loop_cong, simp_all only: sent_index, simp_all add: unat_of_nat_minus_1 sent_offset_def)

lemma nth_punctured:
  assumes "unat pu < 7" "unat len < 2 ^ 20" "unat len \<le> length out" "1 \<le> j" "j \<le> unat len"
  shows "snd (get_punctured_rate pu inp len out) ! (j - 1) = inp ! sent_offset pu j"
proof -
  have "distinct (map (\<lambda>j. j - 1) [1..<Suc (unat len)])"
    by (auto simp: distinct_map inj_on_def simp del: upt_Suc)
  then show ?thesis
    using assms nth_store_loop [of "\<lambda>j. j - 1" "[1..<Suc (unat len)]" j out]
    by (simp add: punctured_eq del: upt_Suc)
qed

lemma nth_depunct:
  assumes "unat pu < 7" "unat len < 2 ^ 20" "sent_offset pu (unat len) < length out"
    and "1 \<le> j" "j \<le> unat len"
  shows "snd (tetra_rcpc_depunct pu inp len out) ! sent_offset pu j = inp ! (j - 1)"
proof -
  have "distinct (map (sent_offset pu) [1..<Suc (unat len)])"
    using sent_offset_inj [OF assms(1,2)] by (simp add: distinct_map del: upt_Suc)
  moreover have "sent_offset pu j < length out"
    using sent_offset_le [of pu j "unat len"] assms by simp
  ultimately show ?thesis
    using assms nth_store_loop [of "sent_offset pu" "[1..<Suc (unat len)]" j out]
    by (simp add: depunct_eq del: upt_Suc)
qed

lemma nth_depunct_other:
  assumes "unat pu < 7" "unat len < 2 ^ 20" "k \<notin> sent_offset pu ` {1..unat len}"
  shows "snd (tetra_rcpc_depunct pu inp len out) ! k = out ! k"
  using assms by (simp add: depunct_eq nth_store_loop_notin atLeastLessThanSuc_atLeastAtMost del: upt_Suc)

lemma length_punctured [len_simps, simp]: "length (snd (get_punctured_rate pu inp len out)) = length out"
  by (simp add: get_punctured_rate_def Let_def)

lemma length_depunct [len_simps, simp]: "length (snd (tetra_rcpc_depunct pu inp len out)) = length out"
  by (simp add: tetra_rcpc_depunct_def Let_def)

lemma punct_depunct:
  assumes "unat pu < 7" "unat len < 2 ^ 20" "sent_offset pu (unat len) < length mother"
    and "length inp = unat len" "length out = unat len"
  shows "get_punctured_rate pu (snd (tetra_rcpc_depunct pu inp len mother)) len out = (0, inp)"
proof -
  have "snd (get_punctured_rate pu (snd (tetra_rcpc_depunct pu inp len mother)) len out) = inp"
  proof (rule nth_equalityI)
    fix i assume "i < length (snd (get_punctured_rate pu (snd (tetra_rcpc_depunct pu inp len mother)) len out))"
    then show "snd (get_punctured_rate pu (snd (tetra_rcpc_depunct pu inp len mother)) len out) ! i = inp ! i"
      using nth_punctured [of pu len out "Suc i"] nth_depunct [of pu len mother "Suc i" inp] assms by simp
  qed (simp add: assms)
  then show ?thesis using assms by (simp add: punctured_eq)
qed

text \<open>At the receiver: every sent position of the mother code is restored, the others are left as they were.\<close>

lemma depunct_punct_nth:
  assumes "unat pu < 7" "unat len < 2 ^ 20" "sent_offset pu (unat len) < length out"
    and "unat len \<le> length buf"
  shows "snd (tetra_rcpc_depunct pu (snd (get_punctured_rate pu mother len buf)) len out) ! k
    = (if k \<in> sent_offset pu ` {1..unat len} then mother ! k else out ! k)"
proof (cases "k \<in> sent_offset pu ` {1..unat len}")
  case True
  then obtain j where j: "k = sent_offset pu j" "1 \<le> j" "j \<le> unat len" by auto
  then show ?thesis
    using nth_depunct [of pu len out j] nth_punctured [of pu len buf j] assms by auto
next
  case False
  then show ?thesis using assms by (subst nth_depunct_other) auto
qed

section \<open>The self-test passes\<close>

lemma length_mother_fill: "length (mother_fill n j) = n"
  by (induction n arbitrary: j) (auto simp: Let_def)

lemma mother_fill_not_ff:
  assumes "0 \<le> j" "j \<le> 255" "x \<in> set (mother_fill n j)"
  shows "x \<noteq> 0xff"
  using assms
proof (induction n arbitrary: j)
  case (Suc n)
  have "of_int j \<noteq> (0xff :: u8)" if "j < 255" "0 \<le> j"
  proof
    assume "of_int j = (0xff :: u8)"
    then have "uint (of_int j :: u8) = 255" by simp
    then show False using that by (simp add: uint_word_of_int)
  qed
  then show ?case using Suc.prems Suc.IH [of "j + 1"] Suc.IH [of 1] by (auto simp: Let_def split: if_splits)
qed simp

text \<open>The comparison counts the positions that are not 0xff when they all agree.\<close>

lemma mother_memcmp_loop_count:
  assumes "length ms = length ds" "\<And>i. i < length ds \<Longrightarrow> ds ! i \<noteq> 0xff \<Longrightarrow> ds ! i = ms ! i"
  shows "mother_memcmp_loop ms ds e = e + int (card {i. i < length ds \<and> ds ! i \<noteq> 0xff})"
  using assms
proof (induction ms ds arbitrary: e rule: list_induct2')
  case (4 m ms d ds)
  have s: "{i. i < length (d # ds) \<and> (d # ds) ! i \<noteq> 0xff}
      = (if d = 0xff then {} else {0}) \<union> Suc ` {i. i < length ds \<and> ds ! i \<noteq> 0xff}"
  proof (rule set_eqI)
    fix i show "i \<in> {i. i < length (d # ds) \<and> (d # ds) ! i \<noteq> 0xff} \<longleftrightarrow>
        i \<in> (if d = 0xff then {} else {0}) \<union> Suc ` {i. i < length ds \<and> ds ! i \<noteq> 0xff}"
      by (cases i) auto
  qed
  have "card {i. i < length (d # ds) \<and> (d # ds) ! i \<noteq> 0xff}
      = (if d = 0xff then 0 else 1) + card {i. i < length ds \<and> ds ! i \<noteq> 0xff}"
    unfolding s by (auto simp: card_insert_if card_image)
  moreover have "ds ! i = ms ! i" if "i < length ds" "ds ! i \<noteq> 0xff" for i
    using "4.prems"(2) [of "Suc i"] that by simp
  moreover have "d = 0xff \<or> d = m" using "4.prems"(2) [of 0] by auto
  ultimately show ?case using "4.IH" "4.prems"(1) by auto
qed auto

lemma test_one_punct_passes:
  assumes pu: "unat (punct ptp) < 7"
    and off: "sent_offset (punct ptp) (unat (type3_len ptp)) < unat (type2_len ptp) * unat (mother_rate ptp)"
  shows "test_one_punct u ptp = 0"
proof -
  let ?n = "unat (type2_len ptp) * unat (mother_rate ptp)" and ?l = "unat (type3_len ptp)"
  let ?m = "mother_fill ?n 0" and ?len = "ucast (type3_len ptp) :: u32"
  define d where "d = snd (tetra_rcpc_depunct (punct ptp)
    (snd (get_punctured_rate (punct ptp) ?m ?len (replicate ?l u))) ?len (replicate ?n 0xff))"
  let ?S = "sent_offset (punct ptp) ` {1..?l}"
  have len: "unat ?len = ?l" "?l < 2 ^ 20" using unat_u16_less [of "type3_len ptp"] by simp_all
  have S: "k < ?n" if "k \<in> ?S" for k
    using that off sent_offset_le [OF pu, of _ ?l] len by fastforce
  have ld: "length d = ?n" by (simp add: d_def)
  have d: "d ! k = (if k \<in> ?S then ?m ! k else 0xff)" if "k < ?n" for k
    unfolding d_def using that len off pu
    by (simp_all only: length_depunct length_replicate depunct_punct_nth nth_replicate)
  have ff: "?m ! k \<noteq> 0xff" if "k < ?n" for k
    using that by (intro mother_fill_not_ff [of 0 _ ?n]) (simp_all add: length_mother_fill)
  have "mother_memcmp ?m d ?n = int (card {i. i < ?n \<and> d ! i \<noteq> 0xff})"
    unfolding mother_memcmp_def using ff
    by (subst mother_memcmp_loop_count) (auto simp: length_mother_fill ld d split: if_splits)
  also have "{i. i < ?n \<and> d ! i \<noteq> 0xff} = ?S"
    using S d ff by (auto split: if_splits)
  also have "card ?S = ?l"
    using sent_offset_inj [OF pu len(2)] by (simp add: card_image atLeastLessThanSuc_atLeastAtMost)
  finally show ?thesis
    by (simp add: test_one_punct_def Let_def d_def)
qed

lemma punct_test_passes: "tetra_punct_test u = 0"
proof -
  have "list_all (\<lambda>p. unat (punct p) < 7
      \<and> sent_offset (punct p) (unat (type3_len p)) < unat (type2_len p) * unat (mother_rate p)) punct_test_params"
    by code_simp
  then have "test_one_punct u p = 0" if "p \<in> set punct_test_params" for p
    using that test_one_punct_passes by (simp add: list_all_iff)
  then have "punct_test_loop u ps = 0" if "set ps \<subseteq> set punct_test_params" for ps
    using that by (induction ps) auto
  then show ?thesis by (simp add: tetra_punct_test_def)
qed

section \<open>The encoder computes the generator polynomials\<close>

text \<open>The bit \<open>k\<close> steps before the one at index \<open>i\<close>, zero before the first.\<close>

definition tap :: "u8 list \<Rightarrow> nat \<Rightarrow> nat \<Rightarrow> u8" where
  "tap xs i k = (if k \<le> i then xs ! (i - k) else 0)"

definition mother_bits :: "u8 list \<Rightarrow> nat \<Rightarrow> u8 list" where
  "mother_bits xs i =
    [mod2 [tap xs i 0, tap xs i 1, tap xs i 4],
     mod2 [tap xs i 0, tap xs i 2, tap xs i 3, tap xs i 4],
     mod2 [tap xs i 0, tap xs i 1, tap xs i 2, tap xs i 4],
     mod2 [tap xs i 0, tap xs i 1, tap xs i 3, tap xs i 4]]"

lemma tap_Suc: "tap xs (Suc i) (Suc k) = tap xs i k"
  by (simp add: tap_def)

lemma conv_enc_in_bit_taps:
  assumes "delayed ces = map (tap xs i) [1, 2, 3, 4]" "i < length xs"
  shows "fst (snd (conv_enc_in_bit ces (xs ! i))) = mother_bits xs i"
    and "delayed (fst (conv_enc_in_bit ces (xs ! i))) = map (tap xs (Suc i)) [1, 2, 3, 4]"
proof -
  have 0: "tap xs i 0 = xs ! i" by (simp add: tap_def)
  show "fst (snd (conv_enc_in_bit ces (xs ! i))) = mother_bits xs i"
    by (simp add: conv_enc_in_bit_def Let_def assms(1) mother_bits_def 0)
  have "map (tap xs (Suc i)) [1, 2, 3, 4] = map (tap xs i) [0, 1, 2, 3]"
    using tap_Suc [of xs i 0] tap_Suc [of xs i 1] tap_Suc [of xs i 2] tap_Suc [of xs i 3]
    by (simp add: numeral_eq_Suc)
  then show "delayed (fst (conv_enc_in_bit ces (xs ! i))) = map (tap xs (Suc i)) [1, 2, 3, 4]"
    by (simp add: conv_enc_in_bit_def Let_def assms(1) 0)
qed

lemma length_mother_bits [simp]: "length (mother_bits xs i) = 4"
  by (simp add: mother_bits_def)

lemma conv_enc_input_loop_eq:
  assumes "delayed ces = map (tap xs i) [1, 2, 3, 4]" "i \<le> length xs" "4 * length xs \<le> length out"
  shows "snd (conv_enc_input_loop ces (drop i xs) out (4 * i))
      = take (4 * i) out @ concat (map (mother_bits xs) [i..<length xs]) @ drop (4 * length xs) out
    \<and> delayed (fst (conv_enc_input_loop ces (drop i xs) out (4 * i))) = map (tap xs (length xs)) [1, 2, 3, 4]"
  using assms
proof (induction "length xs - i" arbitrary: i ces out)
  case 0
  then show ?case by simp
next
  case (Suc n)
  then have i: "i < length xs" by simp
  obtain ces' g r where b: "conv_enc_in_bit ces (xs ! i) = (ces', g, r)" by (cases "conv_enc_in_bit ces (xs ! i)")
  have g: "g = mother_bits xs i" and ces': "delayed ces' = map (tap xs (Suc i)) [1, 2, 3, 4]"
    using conv_enc_in_bit_taps [OF Suc.prems(1) i] b by simp_all
  have d: "drop i xs = xs ! i # drop (Suc i) xs" using i by (simp add: Cons_nth_drop_Suc)
  have up: "[i..<length xs] = i # [Suc i..<length xs]" using i by (simp add: upt_conv_Cons)
  let ?out = "blit out (4 * i) g"
  have len: "length ?out = length out" using i Suc.prems by (subst length_blit) (simp_all add: g)
  have t: "take (4 + 4 * i) ?out = take (4 * i) out @ mother_bits xs i"
    using i Suc.prems by (simp add: blit_def g)
  have dr: "drop (4 * length xs) ?out = drop (4 * length xs) out"
    using i Suc.prems by (simp add: blit_def g drop_Cons')
  have "n = length xs - Suc i" using Suc by simp
  from Suc.hyps(1) [OF this ces', of ?out] show ?case
    using i Suc.prems by (simp add: d b len t dr up add.commute [of "4 * i" 4])
qed

lemma conv_enc_input_eq:
  assumes "length xs = len" "4 * len \<le> length out"
  shows "snd (snd (conv_enc_input (snd (conv_enc_init ces)) xs len out))
    = concat (map (mother_bits xs) [0..<len]) @ drop (4 * len) out"
proof -
  have "delayed (snd (conv_enc_init ces)) = map (tap xs 0) [1, 2, 3, 4]"
    by (simp add: conv_enc_init_def tap_def numeral_eq_Suc)
  from conv_enc_input_loop_eq [OF this, of out] show ?thesis
    using assms by (simp add: conv_enc_input_def)
qed

section \<open>Properties\<close>

text \<open>
  What the transmitter punctures is what the receiver gets back: for each of the seven schemes and
  every length (below a million bits), de-puncturing a block into a mother-code buffer that reaches
  the last sent position, and puncturing that buffer again, gives the block and return code 0.
\<close>

theorem puncture_undoes_depuncture:
  assumes "unat pu < 7" "unat len < 2 ^ 20" "sent_offset pu (unat len) < length mother"
    and "length inp = unat len" "length out = unat len"
  shows "get_punctured_rate pu (snd (tetra_rcpc_depunct pu inp len mother)) len out = (0, inp)"
  using assms by (rule punct_depunct)

theorem puncture_undoes_depuncture_witness:
  "get_punctured_rate TETRA_RCPC_PUNCT_292_432
    (snd (tetra_rcpc_depunct TETRA_RCPC_PUNCT_292_432 [1, 0, 1, 1, 0 :: u8] 5 (replicate 12 0xff)))
    5 [7, 7, 7, 7, 7] = (0, [1, 0, 1, 1, 0])"
  by (rule puncture_undoes_depuncture) (code_simp, simp, code_simp, simp_all)

text \<open>
  De-puncturing at the receiver restores exactly the sent positions of the mother code and leaves
  every other position of the buffer (the erasures) as the caller initialised it.
\<close>

theorem depuncture_restores_sent_positions:
  assumes "unat pu < 7" "unat len < 2 ^ 20" "sent_offset pu (unat len) < length out"
    and "unat len \<le> length buf"
  shows "snd (tetra_rcpc_depunct pu (snd (get_punctured_rate pu mother len buf)) len out) ! k
    = (if k \<in> sent_offset pu ` {1..unat len} then mother ! k else out ! k)"
  using assms by (rule depunct_punct_nth)

theorem depuncture_restores_sent_positions_witness:
  "snd (tetra_rcpc_depunct TETRA_RCPC_PUNCT_2_3
      (snd (get_punctured_rate TETRA_RCPC_PUNCT_2_3 [1, 0, 1, 1, 0, 0, 1, 0 :: u8] 3 [0, 0, 0])) 3 (replicate 8 0xff)) ! 4
    = (if 4 \<in> sent_offset TETRA_RCPC_PUNCT_2_3 ` {1..unat (3 :: u32)} then [1, 0, 1, 1, 0, 0, 1, 0] ! 4
       else replicate 8 0xff ! 4)"
  by (rule depuncture_restores_sent_positions) (code_simp, simp, code_simp, simp_all)

text \<open>
  A puncturer outside the enumeration is refused with \<open>-EINVAL\<close> by both functions, and the output
  buffer is untouched.
\<close>

theorem unknown_puncturer_refused:
  assumes "7 \<le> unat pu"
  shows "get_punctured_rate pu inp len out = (-22, out) \<and> tetra_rcpc_depunct pu inp len out = (-22, out)"
  using assms by (simp add: get_punctured_rate_def tetra_rcpc_depunct_def length_tetra_puncts EINVAL_def)

theorem unknown_puncturer_refused_witness:
  "get_punctured_rate 9 [1 :: u8] 1 [5] = (-22, [5]) \<and> tetra_rcpc_depunct 9 [1 :: u8] 1 [5] = (-22, [5])"
  by (rule unknown_puncturer_refused) simp

text \<open>
  The self-test of the puncturing schemes passes on all its nine parameter sets, whatever the
  uninitialised type-3 buffer holds.
\<close>

theorem puncturing_self_test_passes: "tetra_punct_test u = 0"
  by (rule punct_test_passes)

text \<open>
  From the initial state the encoder writes, for each input bit, the four sums of the generator
  polynomials of the standard over that bit and the four before it (zero before the first), and
  nothing after them.
\<close>

theorem encoder_computes_generators:
  assumes "length xs = len" "4 * len \<le> length out"
  shows "snd (snd (conv_enc_input (snd (conv_enc_init ces)) xs len out))
    = concat (map (mother_bits xs) [0..<len]) @ drop (4 * len) out"
  using assms by (rule conv_enc_input_eq)

theorem encoder_computes_generators_witness:
  "snd (snd (conv_enc_input (snd (conv_enc_init \<lparr>delayed = [1, 1, 1, 1]\<rparr>)) [1, 1] 2 (replicate 9 5)))
    = concat (map (mother_bits [1, 1]) [0..<2]) @ drop (4 * 2) (replicate 9 5)"
  by (rule encoder_computes_generators) simp_all

end
