(* ===== verification/OsmoConv.thy ===== *)
theory OsmoConv
  imports Prelude
begin

text \<open>
  The convolutional decoders of \<open>lower_mac/osmo_conv.c\<close> and \<open>osmo_conv.h\<close>: the butterfly decoder that
  serves the codes with constraint length 5 or 7 and at most four outputs, and the table-driven one
  that serves every other code, with the choice between them. Definitions only: what the butterfly
  decoder computes is the subject of \<open>ViterbiMax\<close> and \<open>Viterbi\<close>.

  An \<open>int16_t\<close> is an \<open>int\<close> that every store wraps (\<open>i16\<close>); a soft bit (\<open>sbit_t\<close>) is an \<open>int\<close>; the soft
  bits and the hard bits are reached through pointers, so the input is a function of the offset.
  Registers and states (\<open>unsigned\<close>) are naturals: the masks keep them below the number of states.
  Allocation succeeds, and the freeing functions have no effect that the model could show.
\<close>

definition i16 :: "int \<Rightarrow> int" where "i16 x = signed_take_bit 15 x"

definition EPROTO :: int where "EPROTO = 71"
definition conv_EINVAL :: int where "conv_EINVAL = 22"
definition INT16_MAX :: int where "INT16_MAX = 32767"
definition INT8_MAX :: int where "INT8_MAX = 127"
definition MAX_AE :: u32 where "MAX_AE = 0x00ffffff"

datatype osmo_conv_term = CONV_TERM_FLUSH | CONV_TERM_TRUNCATION | CONV_TERM_TAIL_BITING

record osmo_conv_code =
  cN :: int   \<comment> \<open>inverse of code rate\<close>
  cK :: int   \<comment> \<open>constraint length\<close>
  clen :: int   \<comment> \<open>number of data bits\<close>
  cterm :: osmo_conv_term
  next_output :: "u8 list list"
  next_state :: "u8 list list"
  next_term_output :: "u8 list option"
  next_term_state :: "u8 list option"
  cpuncture :: "int list option"   \<comment> \<open>punctured bit indexes, ended by a negative one\<close>

section \<open>The butterfly decoder\<close>

definition NUM_STATES :: "int \<Rightarrow> nat" where "NUM_STATES K = (if K = 7 then 64 else 16)"

definition BIT2NRZ :: "nat \<Rightarrow> nat \<Rightarrow> int" where
  "BIT2NRZ REG N = (int (drop_bit N REG AND 1) * 2 - 1) * -1"

text \<open>
  Add-compare-select: the pointers \<open>new_sum\<close> and \<open>path\<close> of the C function are the arrays from the
  index \<open>state\<close> on.
\<close>

definition acs_butterfly :: "nat \<Rightarrow> nat \<Rightarrow> int \<Rightarrow> int list \<Rightarrow> int list \<times> int list \<Rightarrow> int list \<times> int list" where
  "acs_butterfly state num_states metric sm np =
    (let (new_sum, path) = np;
         state0 = sm ! (2 * state + 0);
         state1 = sm ! (2 * state + 1);
         sum0 = state0 + metric;
         sum1 = state1 - metric;
         sum2 = state0 - metric;
         sum3 = state1 + metric;
         (new_sum, path) = (if sum0 \<ge> sum1 then (new_sum[state := i16 sum0], path[state := -1])
                            else (new_sum[state := i16 sum1], path[state := 0]))
     in (if sum2 \<ge> sum3
         then (new_sum[state + num_states div 2 := i16 sum2], path[state + num_states div 2 := -1])
         else (new_sum[state + num_states div 2 := i16 sum3], path[state + num_states div 2 := 0])))"

definition gen_branch_metrics_n2 :: "nat \<Rightarrow> (nat \<Rightarrow> int) \<Rightarrow> int list \<Rightarrow> int list" where
  "gen_branch_metrics_n2 num_states seq out =
    map (\<lambda>i. i16 (seq 0 * out ! (2 * i + 0) + seq 1 * out ! (2 * i + 1))) [0..<num_states div 2]"

definition gen_branch_metrics_n3 :: "nat \<Rightarrow> (nat \<Rightarrow> int) \<Rightarrow> int list \<Rightarrow> int list" where
  "gen_branch_metrics_n3 num_states seq out =
    map (\<lambda>i. i16 (seq 0 * out ! (4 * i + 0) + seq 1 * out ! (4 * i + 1) + seq 2 * out ! (4 * i + 2)))
      [0..<num_states div 2]"

definition gen_branch_metrics_n4 :: "nat \<Rightarrow> (nat \<Rightarrow> int) \<Rightarrow> int list \<Rightarrow> int list" where
  "gen_branch_metrics_n4 num_states seq out =
    map (\<lambda>i. i16 (seq 0 * out ! (4 * i + 0) + seq 1 * out ! (4 * i + 1) + seq 2 * out ! (4 * i + 2)
                  + seq 3 * out ! (4 * i + 3)))
      [0..<num_states div 2]"

text \<open>The path metric unit returns the sums and the path selections; \<open>new_sums\<close> is filled completely.\<close>

definition gen_path_metrics :: "nat \<Rightarrow> int list \<Rightarrow> int list \<Rightarrow> int list \<Rightarrow> bool \<Rightarrow> int list \<times> int list" where
  "gen_path_metrics num_states sums metrics paths norm =
    (let (new_sums, paths) =
           foldl (\<lambda>np i. acs_butterfly i num_states (metrics ! i) sums np)
             (replicate num_states 0, paths) [0..<num_states div 2];
         new_sums = (if norm
           then (let m = foldl (\<lambda>m i. if new_sums ! i < m then new_sums ! i else m) (new_sums ! 0) [1..<num_states]
                 in map (\<lambda>s. i16 (s - m)) new_sums)
           else new_sums)
     in (new_sums, paths))"

type_synonym metric_func = "(nat \<Rightarrow> int) \<Rightarrow> int list \<Rightarrow> int list \<Rightarrow> int list \<Rightarrow> bool \<Rightarrow> int list \<times> int list"

definition osmo_conv_gen_metrics_k5_n2 :: metric_func where
  "osmo_conv_gen_metrics_k5_n2 seq out sums paths norm =
    gen_path_metrics 16 sums (gen_branch_metrics_n2 16 seq out) paths norm"
definition osmo_conv_gen_metrics_k5_n3 :: metric_func where
  "osmo_conv_gen_metrics_k5_n3 seq out sums paths norm =
    gen_path_metrics 16 sums (gen_branch_metrics_n3 16 seq out) paths norm"
definition osmo_conv_gen_metrics_k5_n4 :: metric_func where
  "osmo_conv_gen_metrics_k5_n4 seq out sums paths norm =
    gen_path_metrics 16 sums (gen_branch_metrics_n4 16 seq out) paths norm"
definition osmo_conv_gen_metrics_k7_n2 :: metric_func where
  "osmo_conv_gen_metrics_k7_n2 seq out sums paths norm =
    gen_path_metrics 64 sums (gen_branch_metrics_n2 64 seq out) paths norm"
definition osmo_conv_gen_metrics_k7_n3 :: metric_func where
  "osmo_conv_gen_metrics_k7_n3 seq out sums paths norm =
    gen_path_metrics 64 sums (gen_branch_metrics_n3 64 seq out) paths norm"
definition osmo_conv_gen_metrics_k7_n4 :: metric_func where
  "osmo_conv_gen_metrics_k7_n4 seq out sums paths norm =
    gen_path_metrics 64 sums (gen_branch_metrics_n4 64 seq out) paths norm"

record vstate =
  vreg :: nat
  prev0 :: nat
  prev1 :: nat

record vtrellis =
  num_states :: nat
  sums :: "int list"
  outputs :: "int list"
  vals :: "nat list"

record vdecoder =
  vn :: int
  vk :: int
  vlen :: nat
  recursive :: bool
  intrvl :: int
  trellis :: vtrellis
  paths :: "int list list"
  vmetric :: metric_func

definition conv_code_recursive :: "osmo_conv_code \<Rightarrow> bool" where
  "conv_code_recursive code \<longleftrightarrow> next_term_output code \<noteq> None"

text \<open>Left shift and mask for finding the previous state.\<close>

definition vstate_lshift :: "nat \<Rightarrow> int \<Rightarrow> nat \<Rightarrow> nat" where
  "vstate_lshift reg k val =
    (let mask = (if k = 5 then 0x0e else if k = 7 then 0x3e else 0)
     in (push_bit 1 reg AND mask) OR val)"

definition bitswap2 :: "nat \<Rightarrow> nat" where
  "bitswap2 v = drop_bit 1 (v AND 0x02) OR push_bit 1 (v AND 0x01)"

definition bitswap3 :: "nat \<Rightarrow> nat" where
  "bitswap3 v = drop_bit 2 (v AND 0x04) OR drop_bit 0 (v AND 0x02) OR push_bit 2 (v AND 0x01)"

definition bitswap4 :: "nat \<Rightarrow> nat" where
  "bitswap4 v = drop_bit 3 (v AND 0x08) OR drop_bit 1 (v AND 0x04) OR push_bit 1 (v AND 0x02)
    OR push_bit 3 (v AND 0x01)"

definition bitswap5 :: "nat \<Rightarrow> nat" where
  "bitswap5 v = drop_bit 4 (v AND 0x10) OR drop_bit 2 (v AND 0x08) OR drop_bit 0 (v AND 0x04)
    OR push_bit 2 (v AND 0x02) OR push_bit 4 (v AND 0x01)"

definition bitswap6 :: "nat \<Rightarrow> nat" where
  "bitswap6 v = drop_bit 5 (v AND 0x20) OR drop_bit 3 (v AND 0x10) OR drop_bit 1 (v AND 0x08)
    OR push_bit 1 (v AND 0x04) OR push_bit 3 (v AND 0x02) OR push_bit 5 (v AND 0x01)"

definition bitswap :: "nat \<Rightarrow> int \<Rightarrow> nat" where
  "bitswap v n =
    (if n = 1 then v else if n = 2 then bitswap2 v else if n = 3 then bitswap3 v
     else if n = 4 then bitswap4 v else if n = 5 then bitswap5 v else if n = 6 then bitswap6 v else 0)"

definition gen_output :: "vstate \<Rightarrow> nat \<Rightarrow> osmo_conv_code \<Rightarrow> nat" where
  "gen_output state val code =
    (let prev = bitswap (prev0 state) (cK code - 1);
         out = unat (next_output code ! prev ! val)
     in bitswap out (cN code))"

text \<open>The value of the input bit and the outputs, for a non-recursive code.\<close>

definition gen_state_info :: "nat \<Rightarrow> osmo_conv_code \<Rightarrow> nat \<times> int list" where
  "gen_state_info reg code =
    (let state = \<lparr>vreg = reg, prev0 = vstate_lshift reg (cK code) 0, prev1 = vstate_lshift reg (cK code) 1\<rparr>;
         val = drop_bit (nat (cK code - 2)) reg AND 1;
         out = gen_output state val code
     in (val, map (BIT2NRZ out) [0..<nat (cN code)]))"

definition gen_recursive_output :: "vstate \<Rightarrow> nat \<Rightarrow> osmo_conv_code \<Rightarrow> nat \<Rightarrow> nat \<times> nat" where
  "gen_recursive_output state reg code pos =
    (let prev = bitswap (vstate_lshift reg (cK code) 0) (cK code - 1);
         val0 = drop_bit (nat (cK code - 2)) reg AND 1;
         val1 = drop_bit pos (unat (the (next_term_output code) ! prev)) AND 1;
         val = (if val0 = val1 then 0 else 1);
         prev = bitswap (prev0 state) (cK code - 1);
         out = bitswap (unat (next_output code ! prev ! val)) (cN code)
     in (val, out))"

text \<open>The systematic bit: the first output that is 0 for input 0 in every state.\<close>

definition recursive_pos :: "osmo_conv_code \<Rightarrow> nat option" where
  "recursive_pos code =
    find (\<lambda>i. list_all (\<lambda>j. drop_bit i (unat (next_output code ! j ! 0)) AND 1 = 0) [0..<NUM_STATES (cK code)])
      [0..<nat (cN code)]"

definition gen_recursive_state_info :: "nat \<Rightarrow> osmo_conv_code \<Rightarrow> int + nat \<times> int list" where
  "gen_recursive_state_info reg code =
    (let state = \<lparr>vreg = reg, prev0 = vstate_lshift reg (cK code) 0, prev1 = vstate_lshift reg (cK code) 1\<rparr>
     in case recursive_pos code of
          None \<Rightarrow> Inl (- EPROTO)
        | Some pos \<Rightarrow>
            (let (val, out) = gen_recursive_output state reg code pos
             in Inr (val, map (BIT2NRZ out) [0..<nat (cN code)])))"

text \<open>The trellis: a code with three outputs uses a stride of four, the fourth is never read.\<close>

definition generate_trellis :: "bool \<Rightarrow> osmo_conv_code \<Rightarrow> int + vtrellis" where
  "generate_trellis rec_flag code =
    (let ns = NUM_STATES (cK code);
         olen = (if cN code = 2 then 2 else 4);
         infos = map (\<lambda>i. if rec_flag then gen_recursive_state_info i code
                          else Inr (gen_state_info i code)) [0..<ns]
     in case find (\<lambda>r. case r of Inl _ \<Rightarrow> True | Inr _ \<Rightarrow> False) infos of
          Some (Inl rc) \<Rightarrow> Inl rc
        | _ \<Rightarrow>
            (let vs = map (\<lambda>r. case r of Inr (v, _) \<Rightarrow> v | Inl _ \<Rightarrow> 0) infos;
                 os = map (\<lambda>r. case r of Inr (_, out) \<Rightarrow> out @ replicate (olen - length out) 0 | Inl _ \<Rightarrow> []) infos;
                 sms = replicate ns 0;
                 sms = (if cterm code \<noteq> CONV_TERM_TAIL_BITING
                        then sms[0 := i16 (INT8_MAX * cN code * cK code)] else sms)
             in Inr \<lparr>num_states = ns, sums = sms, outputs = concat os, vals = vs\<rparr>))"

fun traceback_out :: "vdecoder \<Rightarrow> nat \<Rightarrow> u8 list \<Rightarrow> nat \<Rightarrow> u8 list" where
  "traceback_out dec state out 0 = out"
| "traceback_out dec state out (Suc i) =
    (let path = nat (paths dec ! i ! state + 1)
     in traceback_out dec (vstate_lshift state (vk dec) path) (out[i := of_nat (vals (trellis dec) ! state)]) i)"

fun traceback_rec_out :: "vdecoder \<Rightarrow> nat \<Rightarrow> u8 list \<Rightarrow> nat \<Rightarrow> u8 list" where
  "traceback_rec_out dec state out 0 = out"
| "traceback_rec_out dec state out (Suc i) =
    (let path = nat (paths dec ! i ! state + 1)
     in traceback_rec_out dec (vstate_lshift state (vk dec) path)
          (out[i := of_nat (path XOR vals (trellis dec) ! state)]) i)"

text \<open>Follow the path selections from row \<open>i + k\<close> back to row \<open>i\<close>.\<close>

fun trace_state :: "vdecoder \<Rightarrow> nat \<Rightarrow> nat \<Rightarrow> nat \<Rightarrow> nat" where
  "trace_state dec i 0 state = state"
| "trace_state dec i (Suc k) state =
    trace_state dec i k (vstate_lshift state (vk dec) (nat (paths dec ! (i + k) ! state + 1)))"

text \<open>The first state with the largest sum, among those a test accepts.\<close>

definition best_state :: "vdecoder \<Rightarrow> (nat \<Rightarrow> bool) \<Rightarrow> int \<times> nat \<Rightarrow> int \<times> nat" where
  "best_state dec ok ms =
    foldl (\<lambda>(mx, st) i. if ok i \<and> sums (trellis dec) ! i > mx then (sums (trellis dec) ! i, i) else (mx, st))
      ms [0..<num_states (trellis dec)]"

definition traceback :: "vdecoder \<Rightarrow> u8 list \<Rightarrow> osmo_conv_term \<Rightarrow> nat \<Rightarrow> int \<times> u8 list" where
  "traceback dec out tm ln =
    (let (mx, state) = (if tm = CONV_TERM_TAIL_BITING
           then best_state dec (\<lambda>i. trace_state dec 0 ln i = i) (-1, 0) else (-1, 0));
         (mx, state) = (if mx < 0 \<and> tm \<noteq> CONV_TERM_FLUSH
           then best_state dec (\<lambda>_. True) (mx, state) else (mx, state))
     in if mx < 0 \<and> tm \<noteq> CONV_TERM_FLUSH then (- EPROTO, out)
        else (let state = trace_state dec ln (vlen dec - ln) state
              in (0, if recursive dec then traceback_rec_out dec state out ln
                     else traceback_out dec state out ln)))"

text \<open>The metric function pointer that \<open>vdec_init\<close> selects.\<close>

definition select_metric :: "int \<Rightarrow> int \<Rightarrow> metric_func option" where
  "select_metric k n =
    (if k = 5 then
       (if n = 2 then Some osmo_conv_gen_metrics_k5_n2
        else if n = 3 then Some osmo_conv_gen_metrics_k5_n3
        else if n = 4 then Some osmo_conv_gen_metrics_k5_n4 else None)
     else if k = 7 then
       (if n = 2 then Some osmo_conv_gen_metrics_k7_n2
        else if n = 3 then Some osmo_conv_gen_metrics_k7_n3
        else if n = 4 then Some osmo_conv_gen_metrics_k7_n4 else None)
     else None)"

definition vdec_init :: "osmo_conv_code \<Rightarrow> int + vdecoder" where
  "vdec_init code =
    (let ns = NUM_STATES (cK code);
         rec_flag = conv_code_recursive code;
         iv = INT16_MAX div (cN code * INT8_MAX) - cK code
     in case select_metric (cK code) (cN code) of
          None \<Rightarrow> Inl (- conv_EINVAL)
        | Some mf \<Rightarrow>
            (let ln = (if cterm code = CONV_TERM_FLUSH then clen code + cK code - 1 else clen code)
             in case generate_trellis rec_flag code of
                  Inl rc \<Rightarrow> Inl rc
                | Inr tr \<Rightarrow> Inr \<lparr>vn = cN code, vk = cK code, vlen = nat ln, recursive = rec_flag, intrvl = iv,
                    trellis = tr, paths = replicate (nat ln) (replicate ns 0), vmetric = mf\<rparr>))"

text \<open>De-puncturing with a negative terminated list of positions.\<close>

fun depuncture_loop :: "(nat \<Rightarrow> int) \<Rightarrow> int list \<Rightarrow> nat \<Rightarrow> nat \<Rightarrow> nat \<Rightarrow> nat \<Rightarrow> int list" where
  "depuncture_loop inp punc i n m 0 = []"
| "depuncture_loop inp punc i n m (Suc k) =
    (if int i = punc ! n then 0 # depuncture_loop inp punc (Suc i) (Suc n) m k
     else inp m # depuncture_loop inp punc (Suc i) n (Suc m) k)"

definition depuncture :: "(nat \<Rightarrow> int) \<Rightarrow> int list \<Rightarrow> nat \<Rightarrow> int list" where
  "depuncture inp punc ln = depuncture_loop inp punc 0 0 0 ln"

definition forward_step :: "(nat \<Rightarrow> int) \<Rightarrow> vdecoder \<Rightarrow> nat \<Rightarrow> vdecoder" where
  "forward_step seq dec i =
    (let (sms, ps) = vmetric dec (\<lambda>j. seq (nat (vn dec) * i + j)) (outputs (trellis dec)) (sums (trellis dec))
                       (paths dec ! i) (int i mod intrvl dec = 0)
     in dec\<lparr>trellis := (trellis dec)\<lparr>sums := sms\<rparr>, paths := (paths dec)[i := ps]\<rparr>)"

definition forward_traverse :: "vdecoder \<Rightarrow> (nat \<Rightarrow> int) \<Rightarrow> vdecoder" where
  "forward_traverse dec seq = foldl (forward_step seq) dec [0..<vlen dec]"

definition conv_decode ::
  "vdecoder \<Rightarrow> (nat \<Rightarrow> int) \<Rightarrow> int list option \<Rightarrow> u8 list \<Rightarrow> nat \<Rightarrow> osmo_conv_term \<Rightarrow> int \<times> u8 list" where
  "conv_decode dec seq punc out ln tm =
    (let seq = (case punc of None \<Rightarrow> seq | Some p \<Rightarrow> (!) (depuncture seq p (vlen dec * nat (vn dec))));
         dec = forward_traverse dec seq;
         dec = (if tm = CONV_TERM_TAIL_BITING then forward_traverse dec seq else dec)
     in traceback dec out tm ln)"

text \<open>Return code and output buffer.\<close>

definition osmo_conv_decode_acc :: "osmo_conv_code \<Rightarrow> (nat \<Rightarrow> int) \<Rightarrow> u8 list \<Rightarrow> int \<times> u8 list" where
  "osmo_conv_decode_acc code input output =
    (if cN code < 2 \<or> cN code > 4 \<or> clen code < 1 \<or> (cK code \<noteq> 5 \<and> cK code \<noteq> 7)
     then (- conv_EINVAL, output)
     else case vdec_init code of
            Inl rc \<Rightarrow> (rc, output)
          | Inr dec \<Rightarrow> conv_decode dec input (cpuncture code) output (nat (clen code)) (cterm code))"

section \<open>The table-driven decoder\<close>

text \<open>
  \<open>state_history\<close> is a flat array of \<open>n_states\<close> bytes per step, addressed by offset; \<open>malloc\<close> leaves
  its first content open, so it is a parameter. The next-error array is scratch space of one step.
\<close>

record osmo_conv_decoder =
  dcode :: osmo_conv_code
  n_states :: nat
  dlen :: int
  o_idx :: nat
  p_idx :: nat
  ae :: "u32 list"
  state_history :: "nat \<Rightarrow> u8"

definition osmo_conv_decode_reset :: "osmo_conv_decoder \<Rightarrow> int \<Rightarrow> osmo_conv_decoder" where
  "osmo_conv_decode_reset decoder start_state =
    decoder\<lparr>o_idx := 0, p_idx := 0,
      ae := (if start_state < 0 then replicate (n_states decoder) 0
             else map (\<lambda>i. if int i = start_state then 0 else MAX_AE) [0..<n_states decoder])\<rparr>"

definition osmo_conv_decode_init ::
  "(nat \<Rightarrow> u8) \<Rightarrow> osmo_conv_code \<Rightarrow> int \<Rightarrow> int \<Rightarrow> osmo_conv_decoder" where
  "osmo_conv_decode_init junk code ln start_state =
    (let ln = (if ln \<le> 0 then clen code else ln);
         ns = push_bit (nat (cK code - 1)) 1;
         decoder = \<lparr>dcode = code, n_states = ns, dlen = ln, o_idx = 0, p_idx = 0,
           ae = replicate ns 0, state_history = junk\<rparr>
     in osmo_conv_decode_reset decoder start_state)"

definition osmo_conv_decode_rewind :: "osmo_conv_decoder \<Rightarrow> osmo_conv_decoder" where
  "osmo_conv_decode_rewind decoder =
    (let min_ae = foldl (\<lambda>m i. if ae decoder ! i < m then ae decoder ! i else m) MAX_AE [0..<n_states decoder]
     in decoder\<lparr>o_idx := 0, p_idx := 0, ae := map (\<lambda>a. a - min_ae) (ae decoder)\<rparr>)"

text \<open>The symbols of one step, with the punctured ones undefined (0), and the two indexes after it.\<close>

definition get_in_sym :: "osmo_conv_code \<Rightarrow> (nat \<Rightarrow> int) \<Rightarrow> nat \<Rightarrow> nat \<times> nat \<Rightarrow> int list \<times> nat \<times> nat" where
  "get_in_sym code input step ip =
    (case cpuncture code of
       Some punc \<Rightarrow>
         foldl (\<lambda>(sym, i_idx, p_idx) j.
             let idx = int step * cN code + int j
             in if idx = punc ! p_idx then (sym @ [0], i_idx, p_idx + 1)
                else (sym @ [input i_idx], i_idx + 1, p_idx))
           ([], ip) [0..<nat (cN code)]
     | None \<Rightarrow> (let (i_idx, p_idx) = ip
                in (map (\<lambda>j. input (i_idx + j)) [0..<nat (cN code)], i_idx + nat (cN code), p_idx)))"

text \<open>The accumulated error of a branch: the mask selects the output bits from the first down.\<close>

definition branch_error :: "osmo_conv_code \<Rightarrow> int list \<Rightarrow> u8 \<Rightarrow> u32 \<Rightarrow> u32" where
  "branch_error code in_sym out a =
    fst (foldl (\<lambda>(nae, m) j.
        let sm = in_sym ! j;
            nae = (if sm \<noteq> 0
                   then (let ov = (if out AND m \<noteq> 0 then -127 else 127); e = sm - ov
                         in nae + of_int (drop_bit 9 (e * e)))
                   else nae)
        in (nae, drop_bit 1 m))
      (a, ucast (push_bit (nat (cN code - 1)) 1 :: u32) :: u8) [0..<nat (cN code)])"

definition survivor ::
  "nat \<Rightarrow> nat \<Rightarrow> u32 list \<times> (nat \<Rightarrow> u8) \<Rightarrow> nat \<Rightarrow> u8 \<Rightarrow> u32 \<Rightarrow> u32 list \<times> (nat \<Rightarrow> u8)" where
  "survivor ns row ah s state nae =
    (let (ae_next, hist) = ah
     in if ae_next ! unat state > nae
        then (ae_next[unat state := nae], hist(ns * row + unat state := of_nat s))
        else (ae_next, hist))"

definition scan_step ::
  "osmo_conv_code \<Rightarrow> nat \<Rightarrow> u32 list \<Rightarrow> (nat \<Rightarrow> u8) \<Rightarrow> nat \<Rightarrow> int list \<Rightarrow> u32 list \<times> (nat \<Rightarrow> u8)" where
  "scan_step code ns a hist row in_sym =
    foldl (\<lambda>ah (s, b).
        survivor ns row ah s (next_state code ! s ! b)
          (branch_error code in_sym (next_output code ! s ! b) (a ! s)))
      (replicate ns MAX_AE, hist) [(s, b). s \<leftarrow> [0..<ns], b \<leftarrow> [0, 1]]"

definition flush_step ::
  "osmo_conv_code \<Rightarrow> nat \<Rightarrow> u32 list \<Rightarrow> (nat \<Rightarrow> u8) \<Rightarrow> nat \<Rightarrow> int list \<Rightarrow> u32 list \<times> (nat \<Rightarrow> u8)" where
  "flush_step code ns a hist row in_sym =
    foldl (\<lambda>ah s.
        let (out, state) = (case next_term_output code of
              Some nto \<Rightarrow> (nto ! s, the (next_term_state code) ! s)
            | None \<Rightarrow> (next_output code ! s ! 0, next_state code ! s ! 0))
        in survivor ns row ah s state (branch_error code in_sym out (a ! s)))
      (replicate ns MAX_AE, hist) [0..<ns]"

text \<open>The loop over the steps is the same in both functions; only the scan of the states differs.\<close>

definition scan_loop ::
  "(osmo_conv_code \<Rightarrow> nat \<Rightarrow> u32 list \<Rightarrow> (nat \<Rightarrow> u8) \<Rightarrow> nat \<Rightarrow> int list \<Rightarrow> u32 list \<times> (nat \<Rightarrow> u8))
    \<Rightarrow> osmo_conv_decoder \<Rightarrow> (nat \<Rightarrow> int) \<Rightarrow> nat \<Rightarrow> nat \<times> osmo_conv_decoder" where
  "scan_loop step decoder input n =
    (let code = dcode decoder;
         (a, hist, i_idx, pidx) =
           foldl (\<lambda>(a, hist, i_idx, pidx) i.
               let (in_sym, i_idx, pidx) = get_in_sym code input (o_idx decoder + i) (i_idx, pidx);
                   (a, hist) = step code (n_states decoder) a hist (o_idx decoder + i) in_sym
               in (a, hist, i_idx, pidx))
             (ae decoder, state_history decoder, 0, p_idx decoder) [0..<n]
     in (i_idx, decoder\<lparr>ae := a, state_history := hist, p_idx := pidx, o_idx := o_idx decoder + n\<rparr>))"

definition osmo_conv_decode_scan :: "osmo_conv_decoder \<Rightarrow> (nat \<Rightarrow> int) \<Rightarrow> int \<Rightarrow> nat \<times> osmo_conv_decoder" where
  "osmo_conv_decode_scan decoder input n = scan_loop scan_step decoder input (nat n)"

definition osmo_conv_decode_flush :: "osmo_conv_decoder \<Rightarrow> (nat \<Rightarrow> int) \<Rightarrow> nat \<times> osmo_conv_decoder" where
  "osmo_conv_decode_flush decoder input =
    scan_loop flush_step decoder input (nat (cK (dcode decoder) - 1))"

fun history_back :: "osmo_conv_decoder \<Rightarrow> nat \<Rightarrow> nat \<Rightarrow> nat \<Rightarrow> nat" where
  "history_back decoder row 0 t = t"
| "history_back decoder row (Suc k) t =
    history_back decoder (row - 1) k (unat (state_history decoder (n_states decoder * row + t)))"

definition min_ae_state :: "osmo_conv_decoder \<Rightarrow> (nat \<Rightarrow> bool) \<Rightarrow> u32 \<times> int \<Rightarrow> u32 \<times> int" where
  "min_ae_state decoder ok ms =
    foldl (\<lambda>(m, st) s. if ok s \<and> ae decoder ! s < m then (ae decoder ! s, int s) else (m, st))
      ms [0..<n_states decoder]"

definition osmo_conv_decode_get_best_end_state :: "osmo_conv_decoder \<Rightarrow> int" where
  "osmo_conv_decode_get_best_end_state decoder =
    (if cterm (dcode decoder) = CONV_TERM_FLUSH then 0
     else let n = o_idx decoder;
              (m, st) = (if cterm (dcode decoder) = CONV_TERM_TAIL_BITING
                then min_ae_state decoder (\<lambda>s. s = history_back decoder (n - 1) n s) (MAX_AE, -1)
                else (MAX_AE, -1))
          in if m < MAX_AE then st
             else snd (min_ae_state decoder (\<lambda>_. True) (m, st)))"

fun get_output_loop :: "osmo_conv_decoder \<Rightarrow> u8 list \<Rightarrow> nat \<Rightarrow> u8 \<Rightarrow> u8 list" where
  "get_output_loop decoder output 0 cur_state = output"
| "get_output_loop decoder output (Suc i) cur_state =
    (let min_state = cur_state;
         cur_state = state_history decoder (n_states decoder * i + unat cur_state);
         b = (if next_state (dcode decoder) ! unat cur_state ! 0 = min_state then 0 else 1)
     in get_output_loop decoder (output[i := b]) i cur_state)"

text \<open>The returned \<open>min_ae\<close> is an \<open>unsigned\<close> stored in an \<open>int\<close>.\<close>

definition osmo_conv_decode_get_output ::
  "osmo_conv_decoder \<Rightarrow> u8 list \<Rightarrow> bool \<Rightarrow> int \<Rightarrow> int \<times> u8 list" where
  "osmo_conv_decode_get_output decoder output has_flush end_state =
    (let code = dcode decoder;
         end_state = (if end_state < 0 then osmo_conv_decode_get_best_end_state decoder else end_state)
     in if end_state < 0 then (-1, output)
        else let min_ae = sint (ae decoder ! nat end_state);
                 n = o_idx decoder;
                 kf = (if has_flush then nat (cK code - 1) else 0);
                 cur_state = of_nat (history_back decoder (n - 1) kf (unat (of_int end_state :: u8)))
             in (min_ae, get_output_loop decoder output (n - kf) cur_state))"

definition osmo_conv_decode :: "(nat \<Rightarrow> u8) \<Rightarrow> osmo_conv_code \<Rightarrow> (nat \<Rightarrow> int) \<Rightarrow> u8 list \<Rightarrow> int \<times> u8 list" where
  "osmo_conv_decode junk code input output =
    (if cN code \<le> 4 \<and> (cK code = 5 \<or> cK code = 7) then osmo_conv_decode_acc code input output
     else let decoder = osmo_conv_decode_init junk code 0 0;
              decoder = (if cterm code = CONV_TERM_TAIL_BITING
                then osmo_conv_decode_rewind (snd (osmo_conv_decode_scan decoder input (clen code)))
                else decoder);
              (l, decoder) = osmo_conv_decode_scan decoder input (clen code);
              decoder = (if cterm code = CONV_TERM_FLUSH
                then snd (osmo_conv_decode_flush decoder (\<lambda>i. input (l + i))) else decoder)
          in osmo_conv_decode_get_output decoder output (cterm code = CONV_TERM_FLUSH) (-1))"

section \<open>The codes of the control and traffic channels, and the wrapper\<close>

text \<open>\<open>viterbi_cch.c\<close>: the bits of an output value are G1 to G4 from the highest.\<close>

definition conv_cch_next_output :: "u8 list list" where
  "conv_cch_next_output = [
    [ 0, 15], [11,  4], [ 6,  9], [13,  2],
    [ 5, 10], [14,  1], [ 3, 12], [ 8,  7],
    [15,  0], [ 4, 11], [ 9,  6], [ 2, 13],
    [10,  5], [ 1, 14], [12,  3], [ 7,  8]]"

definition conv_cch_next_state :: "u8 list list" where
  "conv_cch_next_state = [
    [ 0,  1], [ 2,  3], [ 4,  5], [ 6,  7],
    [ 8,  9], [10, 11], [12, 13], [14, 15],
    [ 0,  1], [ 2,  3], [ 4,  5], [ 6,  7],
    [ 8,  9], [10, 11], [12, 13], [14, 15]]"

text \<open>The members that the initialiser leaves out are zero: flush termination, no puncturing.\<close>

definition conv_cch :: osmo_conv_code where
  "conv_cch = \<lparr>cN = 4, cK = 5, clen = 0, cterm = CONV_TERM_FLUSH,
    next_output = conv_cch_next_output, next_state = conv_cch_next_state,
    next_term_output = None, next_term_state = None, cpuncture = None\<rparr>"

definition conv_cch_decode :: "(nat \<Rightarrow> u8) \<Rightarrow> (nat \<Rightarrow> int) \<Rightarrow> u8 list \<Rightarrow> int \<Rightarrow> int \<times> u8 list" where
  "conv_cch_decode junk input output n = osmo_conv_decode junk (conv_cch\<lparr>clen := n\<rparr>) input output"

text \<open>\<open>viterbi_tch.c\<close>: three outputs per bit, declared with \<open>N = 4\<close>.\<close>

definition conv_tch_next_output :: "u8 list list" where
  "conv_tch_next_output = [
    [0, 7], [6, 1], [5, 2], [3, 4],
    [6, 1], [0, 7], [3, 4], [5, 2],
    [7, 0], [1, 6], [2, 5], [4, 3],
    [1, 6], [7, 0], [4, 3], [2, 5]]"

definition conv_tch_next_state :: "u8 list list" where
  "conv_tch_next_state = [
    [ 0,  1], [ 2,  3], [ 4,  5], [ 6,  7],
    [ 8,  9], [10, 11], [12, 13], [14, 15],
    [ 0,  1], [ 2,  3], [ 4,  5], [ 6,  7],
    [ 8,  9], [10, 11], [12, 13], [14, 15]]"

definition conv_tch :: osmo_conv_code where
  "conv_tch = \<lparr>cN = 4, cK = 5, clen = 0, cterm = CONV_TERM_FLUSH,
    next_output = conv_tch_next_output, next_state = conv_tch_next_state,
    next_term_output = None, next_term_state = None, cpuncture = None\<rparr>"

definition conv_tch_decode :: "(nat \<Rightarrow> u8) \<Rightarrow> (nat \<Rightarrow> int) \<Rightarrow> u8 list \<Rightarrow> int \<Rightarrow> int \<times> u8 list" where
  "conv_tch_decode junk input output n = osmo_conv_decode junk (conv_tch\<lparr>clen := n\<rparr>) input output"

text \<open>
  \<open>viterbi.c\<close>: hard bits with erasures to soft bits, in a local array of 864 * 4 that starts as zero.
  More than 864 symbols overrun it: \<open>None\<close>. (The decoder reads four steps past the symbols.)
\<close>

definition soft_bit :: "u8 \<Rightarrow> int" where
  "soft_bit b = (if b = 0 then 127 else if b = 0xff then 0 else -127)"

definition viterbi_dec_sb1_wrapper :: "(nat \<Rightarrow> u8) \<Rightarrow> (nat \<Rightarrow> u8) \<Rightarrow> u8 list \<Rightarrow> nat \<Rightarrow> u8 list option" where
  "viterbi_dec_sb1_wrapper junk inp out sym_count =
    (if 864 * 4 < sym_count * 4 \<or> 864 * 4 < (sym_count + 4) * 4 then None
     else let vit_inp = (\<lambda>i. if i < sym_count * 4 then soft_bit (inp i) else 0)
          in Some (snd (conv_cch_decode junk vit_inp out (int sym_count))))"

end
