(* ===== verification/ViterbiMax.thy ===== *)
theory ViterbiMax
  imports Prelude
begin

text \<open>
  Maximum-metric paths through a trellis whose every state has two predecessors: the dynamic program
  of the path metric unit over unbounded integers, the traceback through its decisions, and the
  proofs that the path it finds is a best one and that the metrics of the states stay close together.
  An interface only: \<open>Viterbi\<close> interprets it on the trellis that the decoder builds.
\<close>

locale viterbi_trellis =
  fixes ns :: nat                        \<comment> \<open>number of states\<close>
    and nxt :: "nat \<Rightarrow> nat \<Rightarrow> nat"        \<comment> \<open>next state for an input bit\<close>
    and prv :: "nat \<Rightarrow> nat \<Rightarrow> nat"        \<comment> \<open>the two predecessors of a state\<close>
    and val :: "nat \<Rightarrow> nat"               \<comment> \<open>the input bit that led to a state\<close>
    and init :: "nat \<Rightarrow> int"              \<comment> \<open>metric of the start states\<close>
    and br :: "nat \<Rightarrow> nat \<Rightarrow> nat \<Rightarrow> int"   \<comment> \<open>metric of a branch: step, state, input bit\<close>
  assumes prv_less: "r < ns \<Longrightarrow> c < 2 \<Longrightarrow> prv r c < ns"
    and nxt_less: "p < ns \<Longrightarrow> b < 2 \<Longrightarrow> nxt p b < ns"
    and val_less: "r < ns \<Longrightarrow> val r < 2"
    and nxt_prv: "r < ns \<Longrightarrow> c < 2 \<Longrightarrow> nxt (prv r c) (val r) = r"
    and prv_nxt: "p < ns \<Longrightarrow> b < 2 \<Longrightarrow> \<exists>c<2. prv (nxt p b) c = p"
    and val_nxt: "p < ns \<Longrightarrow> b < 2 \<Longrightarrow> val (nxt p b) = b"
begin

text \<open>The metrics after \<open>t\<close> steps, and the predecessor that the compare-select keeps (the first on a tie).\<close>

fun metric :: "nat \<Rightarrow> nat \<Rightarrow> int" where
  "metric 0 r = init r"
| "metric (Suc t) r =
    max (metric t (prv r 0) + br t (prv r 0) (val r)) (metric t (prv r 1) + br t (prv r 1) (val r))"

definition choice :: "nat \<Rightarrow> nat \<Rightarrow> nat" where
  "choice t r =
    (if metric t (prv r 0) + br t (prv r 0) (val r) \<ge> metric t (prv r 1) + br t (prv r 1) (val r)
     then 0 else 1)"

fun walk :: "nat \<Rightarrow> nat list \<Rightarrow> nat" where
  "walk p [] = p"
| "walk p (b # bs) = walk (nxt p b) bs"

text \<open>The metric of the path from \<open>p\<close> that takes the branches of \<open>bs\<close> at the steps from \<open>t\<close> on.\<close>

fun score :: "nat \<Rightarrow> nat \<Rightarrow> nat list \<Rightarrow> int" where
  "score t p [] = 0"
| "score t p (b # bs) = br t p b + score (Suc t) (nxt p b) bs"

text \<open>Traceback: the start state and the bits of the path that the decisions lead back along.\<close>

fun traced :: "nat \<Rightarrow> nat \<Rightarrow> nat \<times> nat list" where
  "traced 0 r = (r, [])"
| "traced (Suc t) r = (let (p, bs) = traced t (prv r (choice t r)) in (p, bs @ [val r]))"

lemma choice_less: "choice t r < 2"
  by (simp add: choice_def)

lemma walk_append: "walk p (xs @ ys) = walk (walk p xs) ys"
  by (induction xs arbitrary: p) auto

lemma score_append: "score t p (xs @ ys) = score t p xs + score (t + length xs) (walk p xs) ys"
  by (induction xs arbitrary: t p) auto

lemma walk_less: "p < ns \<Longrightarrow> set bs \<subseteq> {0, 1} \<Longrightarrow> walk p bs < ns"
  by (induction bs arbitrary: p) (auto simp: nxt_less)

lemma metric_step: "p < ns \<Longrightarrow> b < 2 \<Longrightarrow> metric t p + br t p b \<le> metric (Suc t) (nxt p b)"
  using prv_nxt [of p b] val_nxt [of p b] by (auto simp: less_2_cases_iff)

lemma metric_choice:
  "metric (Suc t) r = metric t (prv r (choice t r)) + br t (prv r (choice t r)) (val r)"
  by (auto simp: choice_def)

text \<open>No path beats the metric of its end state \<dots>\<close>

lemma score_le_metric:
  "p < ns \<Longrightarrow> set bs \<subseteq> {0, 1} \<Longrightarrow> init p + score 0 p bs \<le> metric (length bs) (walk p bs)"
proof (induction bs rule: rev_induct)
  case (snoc b bs)
  then have "set bs \<subseteq> {0, 1}" "b < 2" by auto
  then have "walk p bs < ns" using snoc.prems walk_less by blast
  note * = this \<open>b < 2\<close>
  then show ?case
    using snoc * metric_step [of "walk p bs" b "length bs"] by (auto simp: score_append walk_append)
qed simp

text \<open>\<dots> and the traced path reaches it.\<close>

lemma back_optimal:
  assumes "r < ns" "traced t r = (p, bs)"
  shows "p < ns \<and> length bs = t \<and> set bs \<subseteq> {0, 1} \<and> walk p bs = r \<and> init p + score 0 p bs = metric t r"
  using assms
proof (induction t arbitrary: r p bs)
  case (Suc t)
  let ?q = "prv r (choice t r)"
  obtain p' bs' where b: "traced t ?q = (p', bs')" by fastforce
  have q: "?q < ns" using Suc.prems prv_less choice_less by blast
  note ih = Suc.IH [OF q b]
  have "p = p'" "bs = bs' @ [val r]" using Suc.prems b by simp_all
  then show ?case
    using ih val_less [OF Suc.prems(1)] nxt_prv [OF Suc.prems(1) choice_less [of t r]] metric_choice [of t r]
    by (auto simp: score_append walk_append less_2_cases_iff simp del: metric.simps)
qed auto

lemma back_beats:
  assumes "r < ns" "traced t r = (p, bs)"
    and "q < ns" "set xs \<subseteq> {0, 1}" "length xs = t" "walk q xs = r"
  shows "init q + score 0 q xs \<le> init p + score 0 p bs"
  using back_optimal [OF assms(1,2)] score_le_metric [OF assms(3,4)] assms by simp

section \<open>The metrics of the states stay close together\<close>

lemma metric_prv:
  assumes "r < ns" "\<And>t p b. p < ns \<Longrightarrow> b < 2 \<Longrightarrow> \<bar>br t p b\<bar> \<le> B"
  shows "\<exists>p<ns. metric (Suc t) r \<le> metric t p + B"
proof (intro exI conjI)
  show p: "prv r (choice t r) < ns" using assms(1) choice_less prv_less by blast
  show "metric (Suc t) r \<le> metric t (prv r (choice t r)) + B"
    using assms(2) [OF p, of "val r" t] val_less assms(1)
    unfolding metric_choice by auto
qed

lemma metric_back:
  assumes "r < ns" "\<And>t p b. p < ns \<Longrightarrow> b < 2 \<Longrightarrow> \<bar>br t p b\<bar> \<le> B"
  shows "\<exists>p<ns. metric (t + k) r \<le> metric t p + int k * B"
  using assms(1)
proof (induction k arbitrary: r)
  case (Suc k)
  obtain q where q: "q < ns" "metric (Suc (t + k)) r \<le> metric (t + k) q + B"
    using metric_prv [OF Suc.prems assms(2)] by blast
  obtain p where "p < ns" "metric (t + k) q \<le> metric t p + int k * B"
    using Suc.IH [OF q(1)] by blast
  with q show ?case by (auto simp: algebra_simps simp del: metric.simps)
qed auto

lemma metric_forward:
  assumes "p < ns" "\<And>t p b. p < ns \<Longrightarrow> b < 2 \<Longrightarrow> \<bar>br t p b\<bar> \<le> B" "set bs \<subseteq> {0, 1}"
  shows "metric t p - int (length bs) * B \<le> metric (t + length bs) (walk p bs)"
  using assms(1,3)
proof (induction bs arbitrary: p t)
  case (Cons b bs)
  have b: "b < 2" "set bs \<subseteq> {0, 1}" using Cons.prems by auto
  have "metric t p - B \<le> metric (Suc t) (nxt p b)"
    using metric_step [OF Cons.prems(1) b(1), of t] assms(2) [OF Cons.prems(1) b(1), of t]
    by (auto simp del: metric.simps)
  moreover have "metric (Suc t) (nxt p b) - int (length bs) * B \<le> metric (Suc t + length bs) (walk (nxt p b) bs)"
    using Cons.prems b by (intro Cons.IH nxt_less) auto
  ultimately show ?case by (simp add: algebra_simps del: metric.simps)
qed simp

lemma metric_spread:
  assumes B: "\<And>t p b. p < ns \<Longrightarrow> b < 2 \<Longrightarrow> \<bar>br t p b\<bar> \<le> B"
    and reach: "\<And>p r. p < ns \<Longrightarrow> r < ns \<Longrightarrow> \<exists>bs. length bs = k \<and> set bs \<subseteq> {0, 1} \<and> walk p bs = r"
    and "r < ns" "r' < ns"
  shows "metric (t + k) r' - metric (t + k) r \<le> 2 * (int k * B)"
proof -
  obtain p where p: "p < ns" "metric (t + k) r' \<le> metric t p + int k * B"
    using metric_back [OF assms(4) B] by blast
  obtain bs where "length bs = k" "set bs \<subseteq> {0, 1}" "walk p bs = r"
    using reach [OF p(1) assms(3)] by blast
  with metric_forward [OF p(1) B, of bs t] have "metric t p - int k * B \<le> metric (t + k) r"
    by simp
  with p show ?thesis by simp
qed

lemma metric_bounds:
  assumes B: "\<And>t p b. p < ns \<Longrightarrow> b < 2 \<Longrightarrow> \<bar>br t p b\<bar> \<le> B"
    and i: "\<And>r. r < ns \<Longrightarrow> lo \<le> init r \<and> init r \<le> hi" and "r < ns"
  shows "lo - int t * B \<le> metric t r \<and> metric t r \<le> hi + int t * B"
  using assms(3)
proof (induction t arbitrary: r)
  case (Suc t)
  let ?q = "prv r (choice t r)"
  have q: "?q < ns" using Suc.prems prv_less choice_less by blast
  show ?case
    using Suc.IH [OF q] B [OF q, of "val r" t] val_less [OF Suc.prems]
    unfolding metric_choice by (auto simp: algebra_simps)
qed (simp add: i)

end

end
