(* ===== verification/Viterbi.thy ===== *)
theory Viterbi
  imports OsmoConv ViterbiMax ConvEnc
begin

text \<open>
  What the Viterbi decoder of the control channels computes, \<open>viterbi_dec_sb1_wrapper\<close> down to
  \<open>osmo_conv_decode_acc\<close> with the code of \<open>viterbi_cch.c\<close>. The code table is shown to be the one of the
  encoder in \<open>tetra_conv_enc.c\<close>; the 16-bit butterfly with its periodic normalisation is shown to
  compute, up to a constant, the dynamic program of the interpreted locale \<open>viterbi_trellis\<close>, as long as every
  step has an erased symbol (so that nothing overflows between two normalisations); hence the decoder
  returns a path of maximum metric, and decodes every erasure pattern that leaves a symbol per step.
\<close>

section \<open>The trellis of the control channel code\<close>

text \<open>States are the registers of the butterfly decoder: the latest bit is the highest.\<close>

definition reg_next :: "nat \<Rightarrow> nat \<Rightarrow> nat" where "reg_next p b = p div 2 + 8 * b"
definition reg_prev :: "nat \<Rightarrow> nat \<Rightarrow> nat" where "reg_prev r c = 2 * (r mod 8) + c"
definition reg_val :: "nat \<Rightarrow> nat" where "reg_val r = r div 8"

text \<open>Output \<open>j\<close> of the branch from state \<open>p\<close> for input bit \<open>b\<close>, as +1 or -1.\<close>

definition cch_nrz :: "nat \<Rightarrow> nat \<Rightarrow> nat \<Rightarrow> int" where
  "cch_nrz p b j = BIT2NRZ (bitswap (unat (conv_cch_next_output ! bitswap p 4 ! b)) 4) j"

text \<open>Correlation of four soft bits with a branch, and the initial metrics.\<close>

definition cch_branch :: "(nat \<Rightarrow> int) \<Rightarrow> nat \<Rightarrow> nat \<Rightarrow> nat \<Rightarrow> int" where
  "cch_branch y t p b = (\<Sum>j<4. y (4 * t + j) * cch_nrz p b j)"

definition cch_init :: "nat \<Rightarrow> int" where "cch_init p = (if p = 0 then 2540 else 0)"

interpretation cch: viterbi_trellis 16 reg_next reg_prev reg_val cch_init "cch_branch y" for y
proof
  fix p b :: nat assume "p < 16" "b < 2"
  then show "reg_next p b < 16" "reg_val (reg_next p b) = b"
    by (auto simp: reg_next_def reg_val_def)
  show "\<exists>c<2. reg_prev (reg_next p b) c = p"
    by (rule exI [of _ "p mod 2"]) (use \<open>p < 16\<close> in \<open>auto simp: reg_next_def reg_prev_def\<close>)
next
  fix r c :: nat assume "r < 16"
  then show "reg_val r < 2" by (auto simp: reg_val_def)
  assume "c < 2"
  then show "reg_prev r c < 16" "reg_next (reg_prev r c) (reg_val r) = r"
    by (auto simp: reg_prev_def reg_next_def reg_val_def)
qed

section \<open>The table is the encoder's\<close>

text \<open>The encoder state that a register stands for.\<close>

definition reg_delayed :: "nat \<Rightarrow> u8 list" where
  "reg_delayed p = map (\<lambda>k. of_nat ((p div 2 ^ (3 - k)) mod 2)) [0..<4]"

text \<open>The sign of a hard bit.\<close>

definition nrz :: "u8 \<Rightarrow> int" where "nrz b = (if b = 0 then 1 else -1)"

lemma upt_all: "list_all P [0..<n] \<Longrightarrow> r < n \<Longrightarrow> P r"
  by (simp add: list_all_iff del: upt_Suc)

text \<open>The outputs as a literal table.\<close>

definition cch_table :: "int list list list" where
  "cch_table = [
    [[1, 1, 1, 1], [-1, -1, -1, -1]],
    [[-1, -1, -1, -1], [1, 1, 1, 1]],
    [[1, -1, 1, -1], [-1, 1, -1, 1]],
    [[-1, 1, -1, 1], [1, -1, 1, -1]],
    [[1, -1, -1, 1], [-1, 1, 1, -1]],
    [[-1, 1, 1, -1], [1, -1, -1, 1]],
    [[1, 1, -1, -1], [-1, -1, 1, 1]],
    [[-1, -1, 1, 1], [1, 1, -1, -1]],
    [[-1, 1, -1, -1], [1, -1, 1, 1]],
    [[1, -1, 1, 1], [-1, 1, -1, -1]],
    [[-1, -1, -1, 1], [1, 1, 1, -1]],
    [[1, 1, 1, -1], [-1, -1, -1, 1]],
    [[-1, -1, 1, -1], [1, 1, -1, 1]],
    [[1, 1, -1, 1], [-1, -1, 1, -1]],
    [[-1, 1, 1, 1], [1, -1, -1, -1]],
    [[1, -1, -1, -1], [-1, 1, 1, 1]]]"

lemma upt_16: "[0..<16] = [0, 1, 2, 3, 4, 5, 6, 7, 8, 9, 10, 11, 12, 13, 14, 15]"
  by (simp add: upt_rec)

lemma cch_values:
  "map (\<lambda>p. map (\<lambda>b. bitswap (unat (conv_cch_next_output ! bitswap p 4 ! b)) 4) [0, 1]) [0..<16]
    = [[0, 15], [15, 0], [10, 5], [5, 10], [6, 9], [9, 6], [12, 3], [3, 12], [13, 2], [2, 13], [7, 8], [8, 7], [11, 4], [4, 11], [1, 14], [14, 1]]"
  unfolding upt_16 by (simp add: bitswap_def bitswap4_def conv_cch_next_output_def)

lemma cch_nrz_table:
  assumes "p < 16" "b < 2" "j < 4"
  shows "cch_nrz p b j = cch_table ! p ! b ! j"
proof -
  have "list_all (\<lambda>p. map (\<lambda>b. map (BIT2NRZ (bitswap (unat (conv_cch_next_output ! bitswap p 4 ! b)) 4)) [0, 1, 2, 3])
      [0, 1] = cch_table ! p) [0..<16]"
    unfolding upt_16
    by (simp add: bitswap_def bitswap4_def conv_cch_next_output_def BIT2NRZ_def cch_table_def)
  from upt_all [OF this assms(1)] have t: "cch_table ! p = map (\<lambda>b. map (cch_nrz p b) [0, 1, 2, 3]) [0, 1]"
    unfolding cch_nrz_def by simp
  have "b = 0 \<or> b = 1" "j = 0 \<or> j = 1 \<or> j = 2 \<or> j = 3" using assms by auto
  then show ?thesis unfolding t by (elim disjE) simp_all
qed

lemma cch_table_is_encoder:
  assumes "p < 16" "b < 2"
  shows "map (cch_nrz p b) [0..<4]
      = map nrz (fst (snd (conv_enc_in_bit \<lparr>delayed = reg_delayed p\<rparr> (of_nat b))))
    \<and> delayed (fst (conv_enc_in_bit \<lparr>delayed = reg_delayed p\<rparr> (of_nat b))) = reg_delayed (reg_next p b)"
proof -
  have "list_all (\<lambda>p. list_all (\<lambda>b.
      cch_table ! p ! b
        = map nrz (fst (snd (conv_enc_in_bit \<lparr>delayed = reg_delayed p\<rparr> (of_nat b))))
      \<and> delayed (fst (conv_enc_in_bit \<lparr>delayed = reg_delayed p\<rparr> (of_nat b))) = reg_delayed (reg_next p b))
      [0..<2]) [0..<16]"
    by code_simp
  from upt_all [OF upt_all [OF this assms(1)] assms(2)]
  have "cch_table ! p ! b = map nrz (fst (snd (conv_enc_in_bit \<lparr>delayed = reg_delayed p\<rparr> (of_nat b))))"
    and d: "delayed (fst (conv_enc_in_bit \<lparr>delayed = reg_delayed p\<rparr> (of_nat b))) = reg_delayed (reg_next p b)"
    by blast+
  moreover have "map (cch_nrz p b) [0..<4] = cch_table ! p ! b"
  proof -
    have "list_all (\<lambda>p. list_all (\<lambda>b. length (cch_table ! p ! b) = 4) [0..<2]) [0..<16]" by code_simp
    from upt_all [OF upt_all [OF this assms(1)] assms(2)]
    show ?thesis by (intro nth_equalityI) (simp_all add: cch_nrz_table assms)
  qed
  ultimately show ?thesis by simp
qed

lemma cch_nrz_values:
  assumes "p < 16" "b < 2" "j < 4"
  shows "cch_nrz p b j = 1 \<or> cch_nrz p b j = -1"
proof -
  have "list_all (\<lambda>p. list_all (\<lambda>b. list_all (\<lambda>j. cch_table ! p ! b ! j = 1 \<or> cch_table ! p ! b ! j = -1)
      [0..<4]) [0..<2]) [0..<16]"
    by code_simp
  from upt_all [OF upt_all [OF upt_all [OF this assms(1)] assms(2)] assms(3)]
  show ?thesis by (simp add: cch_nrz_table assms)
qed

text \<open>The other input bit, and the other predecessor, invert all four outputs.\<close>

lemma cch_antisymmetric:
  assumes "i < 8" "j < 4"
  shows "cch_nrz (2 * i + 1) 0 j = - cch_nrz (2 * i) 0 j
    \<and> cch_nrz (2 * i) 1 j = - cch_nrz (2 * i) 0 j
    \<and> cch_nrz (2 * i + 1) 1 j = cch_nrz (2 * i) 0 j"
proof -
  have "list_all (\<lambda>i. list_all (\<lambda>j. cch_table ! (2 * i + 1) ! 0 ! j = - cch_table ! (2 * i) ! 0 ! j
      \<and> cch_table ! (2 * i) ! 1 ! j = - cch_table ! (2 * i) ! 0 ! j
      \<and> cch_table ! (2 * i + 1) ! 1 ! j = cch_table ! (2 * i) ! 0 ! j) [0..<4]) [0..<8]"
    by code_simp
  from upt_all [OF upt_all [OF this assms(1)] assms(2)] show ?thesis
    using assms by (simp add: cch_nrz_table)
qed

section \<open>The path metric unit\<close>

definition sgn_r :: "nat \<Rightarrow> int" where "sgn_r r = (if r < 8 then 1 else -1)"

text \<open>The two candidate metrics of a state.\<close>

definition cand :: "int list \<Rightarrow> int list \<Rightarrow> nat \<Rightarrow> nat \<Rightarrow> int" where
  "cand s mt r c = s ! (2 * (r mod 8) + c) + (if c = 0 then sgn_r r else - sgn_r r) * mt ! (r mod 8)"

lemma acs_select:
  "(let (n, q) = (if B \<le> A then (N[k := i16 A], Q[k := -1]) else (N[k := i16 B], Q[k := 0]))
    in if D \<le> C then (n[l := i16 C], q[l := -1]) else (n[l := i16 D], q[l := 0]))
   = (N[k := i16 (max A B), l := i16 (max C D)],
      Q[k := (if B \<le> A then -1 else 0), l := (if D \<le> C then -1 else (0 :: int))])"
  by (simp add: max_def)

lemma acs_butterfly_cand:
  assumes "k < 8"
  shows "acs_butterfly k 16 (mt ! k) s (N, Q) =
    (N[k := i16 (max (cand s mt k 0) (cand s mt k 1)),
       k + 8 := i16 (max (cand s mt (k + 8) 0) (cand s mt (k + 8) 1))],
     Q[k := (if cand s mt k 0 \<ge> cand s mt k 1 then -1 else 0),
       k + 8 := (if cand s mt (k + 8) 0 \<ge> cand s mt (k + 8) 1 then -1 else 0)])"
proof -
  have c: "s ! (2 * k + 0) + mt ! k = cand s mt k 0" "s ! (2 * k + 1) - mt ! k = cand s mt k 1"
    "s ! (2 * k + 0) - mt ! k = cand s mt (k + 8) 0" "s ! (2 * k + 1) + mt ! k = cand s mt (k + 8) 1"
    using assms by (simp_all add: cand_def sgn_r_def)
  have h: "k + 16 div 2 = k + 8" by simp
  show ?thesis
    unfolding acs_butterfly_def Let_def prod.case c h by (rule acs_select [unfolded Let_def])
qed

lemma acs_fold:
  assumes "length N = 16" "length Q = 16" "k \<le> 8"
    and "foldl (\<lambda>np i. acs_butterfly i 16 (mt ! i) s np) (N, Q) [0..<k] = (N', Q')"
  shows "length N' = 16 \<and> length Q' = 16 \<and> (\<forall>r<16. r mod 8 < k \<longrightarrow>
    N' ! r = i16 (max (cand s mt r 0) (cand s mt r 1))
    \<and> Q' ! r = (if cand s mt r 0 \<ge> cand s mt r 1 then -1 else 0))"
  using assms(3,4)
proof (induction k arbitrary: N' Q')
  case 0
  then show ?case using assms by simp
next
  case (Suc k)
  obtain N1 Q1 where f: "foldl (\<lambda>np i. acs_butterfly i 16 (mt ! i) s np) (N, Q) [0..<k] = (N1, Q1)"
    by fastforce
  have k: "k < 8" using Suc.prems by simp
  note ih = Suc.IH [OF _ f]
  have e: "acs_butterfly k 16 (mt ! k) s (N1, Q1) = (N', Q')"
    using Suc.prems f by simp
  have N': "N' = N1[k := i16 (max (cand s mt k 0) (cand s mt k 1)),
      k + 8 := i16 (max (cand s mt (k + 8) 0) (cand s mt (k + 8) 1))]"
    and Q': "Q' = Q1[k := (if cand s mt k 0 \<ge> cand s mt k 1 then -1 else 0),
      k + 8 := (if cand s mt (k + 8) 0 \<ge> cand s mt (k + 8) 1 then -1 else 0)]"
    using e unfolding acs_butterfly_cand [OF k] by simp_all
  have r: "r = k \<or> r = k + 8" if "r mod 8 = k" "r < 16" for r
    using that by presburger
  have len: "length N1 = 16" "length Q1 = 16" using ih k by simp_all
  have "N' ! r = i16 (max (cand s mt r 0) (cand s mt r 1))
      \<and> Q' ! r = (if cand s mt r 0 \<ge> cand s mt r 1 then -1 else 0)" if "r < 16" "r mod 8 < Suc k" for r
  proof (cases "r mod 8 < k")
    case True
    then have "r \<noteq> k" "r \<noteq> k + 8" using k by auto
    then show ?thesis using ih k True that(1) by (simp add: N' Q')
  next
    case False
    then have "r = k \<or> r = k + 8" using that r by simp
    then show ?thesis
      by (elim disjE) (use k in \<open>simp_all add: N' Q' len\<close>)
  qed
  then show ?case using len by (simp add: N' Q')
qed

text \<open>
  One step of the path metric unit on 16 states: every new sum is the larger candidate, and with
  normalisation the smallest of them is subtracted from all.
\<close>

lemma min_scan:
  assumes "0 < n" "n \<le> length N"
  shows "(\<exists>r<n. foldl (\<lambda>m i. if N ! i < m then N ! i else m) (N ! 0) [1..<n] = N ! r)
    \<and> (\<forall>r<n. foldl (\<lambda>m i. if N ! i < m then N ! i else m) (N ! 0) [1..<n] \<le> (N ! r :: int))"
  using assms
proof (induction n)
  case (Suc n)
  show ?case
  proof (cases "n = 0")
    case False
    let ?m = "foldl (\<lambda>m i. if N ! i < m then N ! i else m) (N ! 0) [1..<n]"
    have s: "foldl (\<lambda>m i. if N ! i < m then N ! i else m) (N ! 0) [1..<Suc n]
        = (if N ! n < ?m then N ! n else ?m)" using False by simp
    show ?thesis unfolding s using Suc False by (auto simp: less_Suc_eq not_less intro: less_imp_le)
  qed simp
qed simp

lemma i16_id: "- 32768 \<le> x \<Longrightarrow> x \<le> 32767 \<Longrightarrow> i16 x = x"
  by (simp add: i16_def signed_take_bit_int_eq_self)

lemma gen_path_metrics_16:
  assumes "length s = 16" "length Q = 16"
    and small: "\<And>r. r < 16 \<Longrightarrow> \<bar>max (cand s mt r 0) (cand s mt r 1)\<bar> \<le> 32767"
    and spread: "\<And>r r'. norm \<Longrightarrow> r < 16 \<Longrightarrow> r' < 16 \<Longrightarrow>
      max (cand s mt r 0) (cand s mt r 1) - max (cand s mt r' 0) (cand s mt r' 1) \<le> D"
    and "D \<le> 32767"
  obtains s' Q' c where "gen_path_metrics 16 s mt Q norm = (s', Q')" "length s' = 16" "length Q' = 16"
    "\<And>r. r < 16 \<Longrightarrow> s' ! r = max (cand s mt r 0) (cand s mt r 1) - c"
    "\<And>r. r < 16 \<Longrightarrow> Q' ! r = (if cand s mt r 0 \<ge> cand s mt r 1 then -1 else 0)"
    "\<not> norm \<Longrightarrow> c = 0" "\<And>r. norm \<Longrightarrow> r < 16 \<Longrightarrow> 0 \<le> s' ! r \<and> s' ! r \<le> D"
proof -
  obtain N' Q' where f: "foldl (\<lambda>np i. acs_butterfly i 16 (mt ! i) s np) (replicate 16 0, Q) [0..<8] = (N', Q')"
    by fastforce
  let ?M = "\<lambda>r. max (cand s mt r 0) (cand s mt r 1)"
  have N: "length N' = 16" "length Q' = 16" "\<And>r. r < 16 \<Longrightarrow> N' ! r = ?M r"
    "\<And>r. r < 16 \<Longrightarrow> Q' ! r = (if cand s mt r 0 \<ge> cand s mt r 1 then -1 else 0)"
  proof -
    have a: "length N' = 16 \<and> length Q' = 16 \<and> (\<forall>r<16. r mod 8 < 8 \<longrightarrow>
        N' ! r = i16 (?M r) \<and> Q' ! r = (if cand s mt r 0 \<ge> cand s mt r 1 then -1 else 0))"
      using assms by (intro acs_fold [OF _ _ _ f]) simp_all
    then show "length N' = 16" "length Q' = 16"
      "\<And>r. r < 16 \<Longrightarrow> Q' ! r = (if cand s mt r 0 \<ge> cand s mt r 1 then -1 else 0)" by simp_all
    show "N' ! r = ?M r" if "r < 16" for r
      using a small [OF that] that i16_id [of "?M r"] by (simp del: max.bounded_iff)
  qed
  define m where "m = foldl (\<lambda>m i. if N' ! i < m then N' ! i else m) (N' ! 0) [1..<16]"
  have m: "(\<exists>r<16. m = N' ! r) \<and> (\<forall>r<16. m \<le> N' ! r)"
    unfolding m_def using min_scan [of 16 N'] N(1) by auto
  show thesis
  proof (cases norm)
    case True
    obtain r0 where r0: "r0 < 16" "m = N' ! r0" using m by auto
    have b: "0 \<le> N' ! r - m \<and> N' ! r - m \<le> D" if "r < 16" for r
      using spread [OF True that r0(1)] m that by (simp add: N(3) r0)
    have g: "gen_path_metrics 16 s mt Q norm = (map (\<lambda>x. i16 (x - m)) N', Q')"
      unfolding gen_path_metrics_def using True f by (simp add: Let_def m_def)
    show thesis
    proof (rule that [OF g, of m])
      show "map (\<lambda>x. i16 (x - m)) N' ! r = ?M r - m" if "r < 16" for r
        using that b [OF that] assms(5) i16_id [of "N' ! r - m"] by (simp add: N)
      then show "0 \<le> map (\<lambda>x. i16 (x - m)) N' ! r \<and> map (\<lambda>x. i16 (x - m)) N' ! r \<le> D"
        if "r < 16" for r
        using that b [OF that] by (simp add: N(3))
    qed (use N True in auto)
  next
    case False
    have g: "gen_path_metrics 16 s mt Q norm = (N', Q')"
      unfolding gen_path_metrics_def using False f by (simp add: Let_def)
    show thesis by (rule that [OF g, of 0]) (use N False in auto)
  qed
qed

lemma gen_path_metrics_16_ex:
  assumes "length s = 16" "length Q = 16"
    and "\<forall>r<16. \<bar>max (cand s mt r 0) (cand s mt r 1)\<bar> \<le> 32767"
    and "norm \<longrightarrow> (\<forall>r<16. \<forall>r'<16.
      max (cand s mt r 0) (cand s mt r 1) - max (cand s mt r' 0) (cand s mt r' 1) \<le> D)"
    and "D \<le> 32767"
  shows "\<exists>s' Q' c. gen_path_metrics 16 s mt Q norm = (s', Q') \<and> length s' = 16 \<and> length Q' = 16
    \<and> (\<forall>r<16. s' ! r = max (cand s mt r 0) (cand s mt r 1) - c)
    \<and> (\<forall>r<16. Q' ! r = (if cand s mt r 0 \<ge> cand s mt r 1 then -1 else 0))
    \<and> (\<not> norm \<longrightarrow> c = 0) \<and> (norm \<longrightarrow> (\<forall>r<16. 0 \<le> s' ! r \<and> s' ! r \<le> D))"
proof (rule gen_path_metrics_16 [OF assms(1,2), of mt norm D])
  show "\<bar>max (cand s mt r 0) (cand s mt r 1)\<bar> \<le> 32767" if "r < 16" for r using assms(3) that by blast
  show "max (cand s mt r 0) (cand s mt r 1) - max (cand s mt r' 0) (cand s mt r' 1) \<le> D"
    if "norm" "r < 16" "r' < 16" for r r'
    using assms(4) that by blast
qed (use assms(5) in blast)+

section \<open>The decoder object of the control channel code\<close>

definition cch_trellis :: vtrellis where
  "cch_trellis = \<lparr>num_states = 16, sums = 2540 # replicate 15 0,
    outputs = concat (map (\<lambda>r. map (cch_nrz (reg_prev r 0) (reg_val r)) [0..<4]) [0..<16]),
    vals = map reg_val [0..<16]\<rparr>"

definition cch_decoder :: "nat \<Rightarrow> vdecoder" where
  "cch_decoder n = \<lparr>vn = 4, vk = 5, vlen = n + 4, recursive = False, intrvl = 59, trellis = cch_trellis,
    paths = replicate (n + 4) (replicate 16 0), vmetric = osmo_conv_gen_metrics_k5_n4\<rparr>"

lemma lshift_prev: "r < 16 \<Longrightarrow> c < 2 \<Longrightarrow> vstate_lshift r 5 c = reg_prev r c"
proof -
  have "list_all (\<lambda>r. list_all (\<lambda>c. vstate_lshift r 5 c = reg_prev r c) [0, 1]) [0..<16]"
    unfolding upt_16 by (simp add: vstate_lshift_def reg_prev_def)
  then show "r < 16 \<Longrightarrow> c < 2 \<Longrightarrow> ?thesis"
    by (drule_tac upt_all) (auto simp: less_2_cases_iff)
qed

lemma reg_val_bits: "r < 16 \<Longrightarrow> drop_bit 3 r AND 1 = reg_val r"
proof -
  have "list_all (\<lambda>r. drop_bit 3 r AND 1 = reg_val r) [0..<16]"
    unfolding upt_16 by (simp add: reg_val_def)
  from upt_all [OF this] show "r < 16 \<Longrightarrow> ?thesis" by simp
qed

lemma cch_state_info:
  assumes "r < 16"
  shows "gen_state_info r (conv_cch\<lparr>clen := l\<rparr>) = (reg_val r, map (cch_nrz (reg_prev r 0) (reg_val r)) [0..<4])"
proof -
  have f: "cK (conv_cch\<lparr>clen := l\<rparr>) = 5" "cN (conv_cch\<lparr>clen := l\<rparr>) = 4"
    "next_output (conv_cch\<lparr>clen := l\<rparr>) = conv_cch_next_output"
    by (simp_all add: conv_cch_def)
  have n: "nat (5 - 2) = 3" "nat 4 = (4 :: nat)" "(5 :: int) - 1 = 4" by simp_all
  have c: "cch_nrz (reg_prev r 0) (reg_val r) =
      BIT2NRZ (bitswap (unat (conv_cch_next_output ! bitswap (reg_prev r 0) 4 ! reg_val r)) 4)"
    by (rule ext) (simp add: cch_nrz_def)
  show ?thesis
    unfolding gen_state_info_def Let_def gen_output_def f n c
    using lshift_prev [OF assms, of 0] reg_val_bits [OF assms] by simp
qed

lemma cch_vdec_init: "vdec_init (conv_cch\<lparr>clen := int n\<rparr>) = Inr (cch_decoder n)"
proof -
  let ?code = "conv_cch\<lparr>clen := int n\<rparr>"
  have f: "cK ?code = 5" "cN ?code = 4" "cterm ?code = CONV_TERM_FLUSH" "clen ?code = int n"
    "next_term_output ?code = None"
    by (simp_all add: conv_cch_def)
  have infos: "map (\<lambda>i. Inr (gen_state_info i ?code)) [0..<16]
      = map (\<lambda>r. Inr (reg_val r, map (cch_nrz (reg_prev r 0) (reg_val r)) [0..<4]) :: int + _) [0..<16]"
    by (rule map_cong) (simp_all add: cch_state_info del: upt_Suc)
  have sms: "(replicate 16 0)[0 := 2540 :: int] = 2540 # replicate 15 0"
    by (simp add: numeral_eq_Suc)
  have t: "generate_trellis False ?code = Inr cch_trellis"
    unfolding generate_trellis_def Let_def f NUM_STATES_def
    by (simp add: infos find_None_iff [THEN iffD2] i16_id INT8_MAX_def cch_trellis_def comp_def sms del: upt_Suc)
  show ?thesis
    unfolding vdec_init_def Let_def f conv_code_recursive_def
    by (simp add: t select_metric_def INT16_MAX_def INT8_MAX_def NUM_STATES_def cch_decoder_def nat_add_distrib)
qed

lemma nth_cch_outputs:
  assumes "i < 8" "j < 4"
  shows "outputs cch_trellis ! (4 * i + j) = cch_nrz (2 * i) 0 j"
proof -
  have "concat (map (\<lambda>r. map (f r) [0..<4]) [0..<k]) ! (4 * i + j) = f i j" if "i < k" "j < 4" for f :: "nat \<Rightarrow> nat \<Rightarrow> int" and i j k
    using that
  proof (induction k)
    case (Suc k)
    have "length (concat (map (\<lambda>r. map (f r) [0..<4]) [0..<k])) = 4 * k"
      by (induction k) simp_all
    then show ?case using Suc by (cases "i = k") (auto simp: nth_append)
  qed simp
  from this [of i 16 j "\<lambda>r. cch_nrz (reg_prev r 0) (reg_val r)"] show ?thesis
    using assms by (simp add: cch_trellis_def reg_prev_def reg_val_def del: upt_Suc)
qed

section \<open>The forward pass computes the metrics of the trellis\<close>

text \<open>Soft bits in range, at least one of every four erased: a branch metric is at most 3 * 127.\<close>

definition soft_ok :: "(nat \<Rightarrow> int) \<Rightarrow> bool" where
  "soft_ok y \<longleftrightarrow> (\<forall>i. \<bar>y i\<bar> \<le> 127) \<and> (\<forall>t. \<exists>j<4. y (4 * t + j) = 0)"

lemma branch_bound:
  assumes "soft_ok y" "p < 16" "b < 2"
  shows "\<bar>cch_branch y t p b\<bar> \<le> 381"
proof -
  obtain j0 where j0: "j0 < 4" "y (4 * t + j0) = 0" using assms(1) by (auto simp: soft_ok_def)
  have "\<bar>cch_branch y t p b\<bar> \<le> (\<Sum>j<4. \<bar>y (4 * t + j) * cch_nrz p b j\<bar>)"
    unfolding cch_branch_def by (rule sum_abs)
  also have "\<dots> = (\<Sum>j<4. \<bar>y (4 * t + j)\<bar>)"
  proof (rule sum.cong)
    fix j assume "j \<in> {..<4 :: nat}"
    then have "\<bar>cch_nrz p b j\<bar> = 1" using cch_nrz_values [OF assms(2,3), of j] by auto
    then show "\<bar>y (4 * t + j) * cch_nrz p b j\<bar> = \<bar>y (4 * t + j)\<bar>" by (simp add: abs_mult)
  qed simp
  also have "\<dots> = (\<Sum>j\<in>{..<4} - {j0}. \<bar>y (4 * t + j)\<bar>)"
    using j0 by (subst sum.remove [of _ j0]) auto
  also have "\<dots> \<le> int (card ({..<4} - {j0})) * 127"
    using assms(1) sum_bounded_above [of "{..<4} - {j0}" "\<lambda>j. \<bar>y (4 * t + j)\<bar>" 127]
    by (simp add: soft_ok_def)
  also have "card ({..<4} - {j0}) = 3" using j0 by simp
  finally show ?thesis by simp
qed

lemma cch_reach:
  assumes "p < 16" "r < 16"
  shows "\<exists>bs. length bs = 4 \<and> set bs \<subseteq> {0, 1} \<and> cch.walk p bs = r"
proof (intro exI conjI)
  let ?bs = "[r mod 2, (r div 2) mod 2, (r div 4) mod 2, r div 8]"
  have "list_all (\<lambda>p. list_all (\<lambda>r. reg_next (reg_next (reg_next (reg_next p (r mod 2)) ((r div 2) mod 2))
      ((r div 4) mod 2)) (r div 8) = r) [0..<16]) [0..<16]"
    unfolding upt_16 by (simp add: reg_next_def)
  from upt_all [OF upt_all [OF this assms(1)] assms(2)] show "cch.walk p ?bs = r" by simp
  show "set ?bs \<subseteq> {0, 1}" using assms(2) by auto
qed simp

lemma cch_spread:
  assumes "soft_ok y" "r < 16" "r' < 16"
  shows "cch.metric y t r' - cch.metric y t r \<le> 4826"
proof (cases "t < 4")
  case True
  have b: "0 - int t * 381 \<le> cch.metric y t r \<and> cch.metric y t r \<le> 2540 + int t * 381" if "r < 16" for r
    using that by (intro cch.metric_bounds branch_bound assms(1)) (simp_all add: cch_init_def)
  have "int t \<le> 3" using True by simp
  then show ?thesis using b [OF assms(2)] b [OF assms(3)] by linarith
next
  case False
  then obtain u where "t = u + 4" by (metis add.commute le_add_diff_inverse not_less)
  moreover have "cch.metric y (u + 4) r' - cch.metric y (u + 4) r \<le> 2 * (int 4 * 381)"
    by (intro cch.metric_spread branch_bound cch_reach assms)
  ultimately show ?thesis by simp
qed

abbreviation branch_metrics :: "(nat \<Rightarrow> int) \<Rightarrow> nat \<Rightarrow> int list" where
  "branch_metrics y t \<equiv> gen_branch_metrics_n4 16 (\<lambda>j. y (4 * t + j)) (outputs cch_trellis)"

lemma nth_branch_metrics:
  assumes "soft_ok y" "i < 8"
  shows "branch_metrics y t ! i = cch_branch y t (2 * i) 0"
proof -
  have "cch_branch y t (2 * i) 0 = y (4 * t + 0) * cch_nrz (2 * i) 0 0 + y (4 * t + 1) * cch_nrz (2 * i) 0 1
      + y (4 * t + 2) * cch_nrz (2 * i) 0 2 + y (4 * t + 3) * cch_nrz (2 * i) 0 3"
    by (simp add: cch_branch_def eval_nat_numeral lessThan_Suc)
  moreover have "\<bar>cch_branch y t (2 * i) 0\<bar> \<le> 381" using assms by (intro branch_bound) simp_all
  ultimately show ?thesis
    using assms(2) nth_cch_outputs [OF assms(2), of 0] nth_cch_outputs [OF assms(2), of 1]
      nth_cch_outputs [OF assms(2), of 2] nth_cch_outputs [OF assms(2), of 3]
    by (simp add: gen_branch_metrics_n4_def i16_id)
qed

lemma cch_branch_neg:
  assumes "i < 8"
  shows "cch_branch y t (2 * i + 1) 0 = - cch_branch y t (2 * i) 0
    \<and> cch_branch y t (2 * i) 1 = - cch_branch y t (2 * i) 0
    \<and> cch_branch y t (2 * i + 1) 1 = cch_branch y t (2 * i) 0"
  unfolding cch_branch_def using cch_antisymmetric [OF assms]
  by (auto simp: sum_negf [symmetric] intro!: sum.cong)

lemma cand_metric:
  assumes "soft_ok y" "r < 16" "c < 2" "\<And>r. r < 16 \<Longrightarrow> s ! r = cch.metric y t r - k"
  shows "cand s (branch_metrics y t) r c
    = cch.metric y t (reg_prev r c) + cch_branch y t (reg_prev r c) (reg_val r) - k"
proof -
  let ?i = "r mod 8"
  have i: "?i < 8" and p: "reg_prev r c < 16" using assms(3) by (auto simp: reg_prev_def)
  have v: "reg_val r = (if r < 8 then 0 else 1)" using assms(2) by (auto simp: reg_val_def)
  have c: "c = 0 \<or> c = 1" using assms(3) by auto
  have "cch_branch y t (reg_prev r c) (reg_val r)
      = (if c = 0 then sgn_r r else - sgn_r r) * cch_branch y t (2 * ?i) 0"
    using cch_branch_neg [OF i, of y t] c unfolding v reg_prev_def sgn_r_def by auto
  then show ?thesis
    using assms(4) [OF p] by (simp add: cand_def nth_branch_metrics [OF assms(1) i] reg_prev_def)
qed

definition forward_inv :: "(nat \<Rightarrow> int) \<Rightarrow> nat \<Rightarrow> nat \<Rightarrow> vdecoder \<Rightarrow> bool" where
  "forward_inv y n i dec \<longleftrightarrow> (\<exists>s Ps k.
    dec = (cch_decoder n)\<lparr>trellis := cch_trellis\<lparr>sums := s\<rparr>, paths := Ps\<rparr> \<and> length s = 16 \<and> length Ps = n + 4
    \<and> (\<forall>r<16. s ! r = cch.metric y i r - k) \<and> (\<forall>r<16. \<bar>s ! r\<bar> \<le> 4826 + 381 * (int (i + 58) mod 59))
    \<and> (\<forall>q<n + 4. length (Ps ! q) = 16)
    \<and> (\<forall>q<i. \<forall>r<16. Ps ! q ! r = (if cch.choice y q r = 0 then -1 else 0)))"

lemma forward_inv_start: "forward_inv y n 0 (cch_decoder n)"
proof -
  have "list_all (\<lambda>r. sums cch_trellis ! r = cch_init r) [0..<16]"
    unfolding upt_16 by (simp add: cch_trellis_def cch_init_def)
  then have "\<forall>r<16. sums cch_trellis ! r = cch_init r" using upt_all by blast
  then show ?thesis unfolding forward_inv_def
    by (intro exI [of _ "sums cch_trellis"] exI [of _ "paths (cch_decoder n)"] exI [of _ 0])
      (simp add: cch_decoder_def cch_init_def, simp add: cch_trellis_def)
qed

lemma mod59_step:
  assumes "z mod 59 \<noteq> (0 :: int)"
  shows "(z + 59) mod 59 = (z + 58) mod 59 + 1"
proof -
  have b: "0 < z mod 59" "z mod 59 < 59"
    using assms pos_mod_sign [of 59 z] pos_mod_bound [of 59 z] by linarith+
  have "(z + 58) mod 59 = (z mod 59 + 58) mod 59" by (simp add: mod_add_left_eq)
  also have "z mod 59 + 58 = (z mod 59 - 1) + 59" by simp
  also have "\<dots> mod 59 = (z mod 59 - 1) mod 59" by (rule mod_add_self2)
  also have "\<dots> = z mod 59 - 1" using b by (intro mod_pos_pos_trivial) simp_all
  finally show ?thesis by simp
qed

lemma forward_inv_step:
  assumes y: "soft_ok y" and inv: "forward_inv y n i dec" and i: "i < n + 4"
  shows "forward_inv y n (Suc i) (forward_step y dec i)"
proof -
  obtain s Ps k where dec: "dec = (cch_decoder n)\<lparr>trellis := cch_trellis\<lparr>sums := s\<rparr>, paths := Ps\<rparr>"
    and len: "length s = 16" "length Ps = n + 4" and s: "\<And>r. r < 16 \<Longrightarrow> s ! r = cch.metric y i r - k"
    and b: "\<And>r. r < 16 \<Longrightarrow> \<bar>s ! r\<bar> \<le> 4826 + 381 * (int (i + 58) mod 59)"
    and rows: "\<And>q. q < n + 4 \<Longrightarrow> length (Ps ! q) = 16"
    and ch: "\<And>q r. q < i \<Longrightarrow> r < 16 \<Longrightarrow> Ps ! q ! r = (if cch.choice y q r = 0 then -1 else 0)"
    using inv unfolding forward_inv_def by blast
  let ?mt = "branch_metrics y i" and ?norm = "int i mod 59 = 0"
  let ?M = "\<lambda>r. max (cand s ?mt r 0) (cand s ?mt r 1)"
  have M: "?M r = cch.metric y (Suc i) r - k" if "r < 16" for r
    using cand_metric [OF y that _ s, where c = 0] cand_metric [OF y that _ s, where c = 1]
    by (simp add: max_diff_distrib_left [symmetric])
  have small: "\<bar>?M r\<bar> \<le> 4826 + 381 * (int (i + 58) mod 59) + 381" if "r < 16" for r
  proof -
    have "\<bar>cand s ?mt r c\<bar> \<le> 4826 + 381 * (int (i + 58) mod 59) + 381" if "c < 2" for c
    proof -
      have p: "reg_prev r c < 16" using that by (auto simp: reg_prev_def)
      have "reg_val r < 2" using \<open>r < 16\<close> by (auto simp: reg_val_def)
      then show ?thesis
        using cand_metric [OF y \<open>r < 16\<close> that s] s [OF p] b [OF p] branch_bound [OF y p, of "reg_val r" i]
        by linarith
    qed
    from this [of 0] this [of 1] show ?thesis by linarith
  qed
  have m59: "int (i + 58) mod 59 \<le> 58" by simp
  have small': "\<bar>?M r\<bar> \<le> 32767" if "r < 16" for r using small [OF that] m59 by linarith
  have spread: "?M r - ?M r' \<le> 4826" if "r < 16" "r' < 16" for r r'
    using cch_spread [OF y that(2,1), of "Suc i"] unfolding M [OF that(1)] M [OF that(2)] by linarith
  have Q: "length (Ps ! i) = 16" using rows i by simp
  have "\<exists>s' Q' c. gen_path_metrics 16 s ?mt (Ps ! i) ?norm = (s', Q') \<and> length s' = 16 \<and> length Q' = 16
    \<and> (\<forall>r<16. s' ! r = ?M r - c)
    \<and> (\<forall>r<16. Q' ! r = (if cand s ?mt r 0 \<ge> cand s ?mt r 1 then -1 else 0))
    \<and> (\<not> ?norm \<longrightarrow> c = 0) \<and> (?norm \<longrightarrow> (\<forall>r<16. 0 \<le> s' ! r \<and> s' ! r \<le> 4826))"
    by (rule gen_path_metrics_16_ex [OF len(1) Q]) (use small' spread in auto)
  then obtain s' Q' c where g: "gen_path_metrics 16 s ?mt (Ps ! i) ?norm = (s', Q')"
    and len': "length s' = 16" "length Q' = 16"
    and s': "\<forall>r<16. s' ! r = ?M r - c"
    and Q': "\<forall>r<16. Q' ! r = (if cand s ?mt r 0 \<ge> cand s ?mt r 1 then -1 else 0)"
    and c: "\<not> ?norm \<longrightarrow> c = 0" and n: "?norm \<longrightarrow> (\<forall>r<16. 0 \<le> s' ! r \<and> s' ! r \<le> 4826)"
    by (elim exE conjE) (rule that)
  have step: "forward_step y dec i
      = (cch_decoder n)\<lparr>trellis := cch_trellis\<lparr>sums := s'\<rparr>, paths := Ps[i := Q']\<rparr>"
    using g by (simp add: forward_step_def dec cch_decoder_def osmo_conv_gen_metrics_k5_n4_def)
  have "Q' ! r = (if cch.choice y i r = 0 then -1 else 0)" if "r < 16" for r
    using cand_metric [OF y that _ s, where c = 0] cand_metric [OF y that _ s, where c = 1] Q' that
    by (simp add: cch.choice_def)
  moreover have "s' ! r = cch.metric y (Suc i) r - (k + c)" if "r < 16" for r
    using s' [rule_format, OF that] M [OF that] by linarith
  moreover have "\<bar>s' ! r\<bar> \<le> 4826 + 381 * (int (Suc i + 58) mod 59)" if "r < 16" for r
  proof (cases ?norm)
    case True
    then show ?thesis using n [rule_format, OF True that] by (simp add: abs_le_iff)
  next
    case False
    then have "int (Suc i + 58) mod 59 = int (i + 58) mod 59 + 1"
      using mod59_step [of "int i"] by (simp add: algebra_simps)
    then show ?thesis using small [OF that] s' [rule_format, OF that] c [rule_format, OF False] by linarith
  qed
  ultimately show ?thesis
    unfolding forward_inv_def step using len len' rows ch i
    by (intro exI [of _ s'] exI [of _ "Ps[i := Q']"] exI [of _ "k + c"])
      (auto simp: nth_list_update less_Suc_eq)
qed

lemma forward_inv_traverse:
  assumes "soft_ok y"
  shows "forward_inv y n (n + 4) (forward_traverse (cch_decoder n) y)"
proof -
  have "i \<le> n + 4 \<Longrightarrow> forward_inv y n i (foldl (forward_step y) (cch_decoder n) [0..<i])" for i
    by (induction i) (simp_all add: forward_inv_start forward_inv_step assms)
  from this [of "n + 4"] show ?thesis by (simp add: forward_traverse_def cch_decoder_def)
qed

section \<open>The traceback returns the traced path\<close>

lemma inv_choice:
  assumes "forward_inv y n (n + 4) dec" "q < n + 4" "r < 16"
  shows "vstate_lshift r (vk dec) (nat (paths dec ! q ! r + 1)) = reg_prev r (cch.choice y q r)"
proof -
  have "vk dec = 5" "paths dec ! q ! r = (if cch.choice y q r = 0 then -1 else 0)"
    using assms by (auto simp: forward_inv_def cch_decoder_def)
  moreover have "cch.choice y q r = 0 \<or> cch.choice y q r = 1" by (simp add: cch.choice_def)
  ultimately show ?thesis
    using lshift_prev [OF assms(3), of 0] lshift_prev [OF assms(3), of 1] by auto
qed

lemma traced_Suc:
  "cch.traced y (Suc t) r = (fst (cch.traced y t (reg_prev r (cch.choice y t r))),
    snd (cch.traced y t (reg_prev r (cch.choice y t r))) @ [reg_val r])"
  by (simp add: case_prod_beta)

lemma prev_choice_less: "reg_prev r (cch.choice y t r) < 16"
  by (auto simp: reg_prev_def cch.choice_def)

lemma trace_state_traced:
  assumes inv: "forward_inv y n (n + 4) dec"
  shows "k \<le> 4 \<Longrightarrow> r < 16 \<Longrightarrow> trace_state dec n k r < 16
    \<and> (\<exists>tl. length tl = k \<and> cch.traced y (n + k) r
        = (fst (cch.traced y n (trace_state dec n k r)), snd (cch.traced y n (trace_state dec n k r)) @ tl))"
proof (induction k arbitrary: r)
  case (Suc k)
  let ?q = "reg_prev r (cch.choice y (n + k) r)"
  have t: "trace_state dec n (Suc k) r = trace_state dec n k ?q"
    using inv_choice [OF inv, of "n + k" r] Suc.prems by simp
  obtain tl where "length tl = k" "cch.traced y (n + k) ?q
      = (fst (cch.traced y n (trace_state dec n k ?q)), snd (cch.traced y n (trace_state dec n k ?q)) @ tl)"
    and lt: "trace_state dec n k ?q < 16"
    using Suc.IH [of ?q] Suc.prems prev_choice_less by auto
  then have "length (tl @ [reg_val r]) = Suc k \<and> cch.traced y (n + Suc k) r
      = (fst (cch.traced y n (trace_state dec n k ?q)),
         snd (cch.traced y n (trace_state dec n k ?q)) @ tl @ [reg_val r])"
    unfolding add_Suc_right traced_Suc by simp
  then show ?case unfolding t using lt by blast
qed simp

lemma traceback_out_traced:
  assumes inv: "forward_inv y n (n + 4) dec" and "n \<le> length out"
  shows "i \<le> n \<Longrightarrow> r < 16 \<Longrightarrow> length out = l \<Longrightarrow> n \<le> l
    \<Longrightarrow> traceback_out dec r out i = map of_nat (snd (cch.traced y i r)) @ drop i out"
proof (induction i arbitrary: r out)
  case (Suc i)
  let ?q = "reg_prev r (cch.choice y i r)"
  have v: "vals (trellis dec) ! r = reg_val r"
    using inv Suc.prems by (auto simp: forward_inv_def cch_decoder_def cch_trellis_def simp del: upt_Suc)
  have d: "drop i (out[i := x]) = x # drop (Suc i) out" for x
    using Suc.prems by (simp add: drop_update_cancel Cons_nth_drop_Suc [symmetric])
  have "traceback_out dec r out (Suc i) = traceback_out dec ?q (out[i := of_nat (reg_val r)]) i"
    using inv_choice [OF inv, of i r] Suc.prems by (simp add: v)
  also have "\<dots> = map of_nat (snd (cch.traced y i ?q)) @ drop i (out[i := of_nat (reg_val r)])"
    using Suc.prems prev_choice_less by (intro Suc.IH) auto
  finally show ?case by (simp add: traced_Suc d del: cch.traced.simps)
qed simp

lemma cch_decode_traced:
  assumes "soft_ok y" "1 \<le> n" "length out = n"
  shows "conv_cch_decode junk y out (int n) = (0, map of_nat (take n (snd (cch.traced y (n + 4) 0))))"
proof -
  let ?dec = "forward_traverse (cch_decoder n) y"
  note inv = forward_inv_traverse [OF assms(1), of n]
  have f: "cK (conv_cch\<lparr>clen := int n\<rparr>) = 5" "cN (conv_cch\<lparr>clen := int n\<rparr>) = 4"
    "cterm (conv_cch\<lparr>clen := int n\<rparr>) = CONV_TERM_FLUSH" "clen (conv_cch\<lparr>clen := int n\<rparr>) = int n"
    "cpuncture (conv_cch\<lparr>clen := int n\<rparr>) = None"
    by (simp_all add: conv_cch_def)
  let ?r = "trace_state ?dec n 4 0"
  obtain tl where tr: "?r < 16" "cch.traced y (n + 4) 0 = (fst (cch.traced y n ?r), snd (cch.traced y n ?r) @ tl)"
    using trace_state_traced [OF inv, of 4 0] by auto
  have "length (snd (cch.traced y n ?r)) = n"
    using cch.back_optimal [OF tr(1), of y n] by (cases "cch.traced y n ?r") auto
  then have "take n (snd (cch.traced y (n + 4) 0)) = snd (cch.traced y n ?r)" by (simp add: tr(2))
  moreover have "vlen ?dec = n + 4" "recursive ?dec = False"
    using inv by (auto simp: forward_inv_def cch_decoder_def)
  moreover have "traceback_out ?dec ?r out n = map of_nat (snd (cch.traced y n ?r)) @ drop n out"
    using traceback_out_traced [OF inv _ _ tr(1) assms(3)] assms(3) by simp
  ultimately have "traceback ?dec out CONV_TERM_FLUSH n = (0, map of_nat (take n (snd (cch.traced y (n + 4) 0))))"
    using assms(3) by (simp add: traceback_def)
  then show ?thesis
    using assms(2)
    by (simp add: conv_cch_decode_def osmo_conv_decode_def osmo_conv_decode_acc_def f cch_vdec_init conv_decode_def)
qed

section \<open>Received blocks\<close>

text \<open>The correlation of received soft bits with the encoder path of some bits from a state.\<close>

fun path_corr :: "(nat \<Rightarrow> int) \<Rightarrow> nat \<Rightarrow> nat \<Rightarrow> nat list \<Rightarrow> int" where
  "path_corr y t p [] = 0"
| "path_corr y t p (b # bs) = cch_branch y t p b + path_corr y (Suc t) (reg_next p b) bs"

lemma score_eq: "cch.score y t p bs = path_corr y t p bs"
  by (induction bs arbitrary: t p) auto

lemma cch_branch_cong: "(\<And>j. j < 4 \<Longrightarrow> y (4 * t + j) = z (4 * t + j)) \<Longrightarrow> cch_branch y t p b = cch_branch z t p b"
  unfolding cch_branch_def by (intro sum.cong) auto

lemma path_corr_cong:
  "(\<And>i. 4 * t \<le> i \<Longrightarrow> i < 4 * (t + length bs) \<Longrightarrow> y i = z i) \<Longrightarrow> path_corr y t p bs = path_corr z t p bs"
proof (induction bs arbitrary: t p)
  case (Cons b bs)
  have "path_corr y (Suc t) (reg_next p b) bs = path_corr z (Suc t) (reg_next p b) bs"
    using Cons.prems by (intro Cons.IH) auto
  moreover have "cch_branch y t p b = cch_branch z t p b"
    using Cons.prems by (intro cch_branch_cong) auto
  ultimately show ?case by simp
qed simp

lemma path_corr_append:
  "path_corr y t p (xs @ ys) = path_corr y t p xs + path_corr y (t + length xs) (cch.walk p xs) ys"
  using cch.score_append [of y t p xs ys] by (simp add: score_eq)

lemma path_corr_zero: "(\<And>i. 4 * t \<le> i \<Longrightarrow> y i = 0) \<Longrightarrow> path_corr y t p bs = 0"
proof (induction bs arbitrary: t p)
  case (Cons b bs)
  have "cch_branch y t p b = 0" using Cons.prems by (simp add: cch_branch_def)
  moreover have "path_corr y (Suc t) (reg_next p b) bs = 0"
    by (rule Cons.IH) (use Cons.prems in auto)
  ultimately show ?case by simp
qed simp

lemma walk_flush: "p < 16 \<Longrightarrow> cch.walk p [0, 0, 0, 0] = 0"
  by (simp add: reg_next_def)

text \<open>The soft bits of a received block, and what the wrapper hands to the decoder.\<close>

definition received :: "(nat \<Rightarrow> u8) \<Rightarrow> nat \<Rightarrow> int" where "received inp i = soft_bit (inp i)"

definition vit_input :: "(nat \<Rightarrow> u8) \<Rightarrow> nat \<Rightarrow> nat \<Rightarrow> int" where
  "vit_input inp n i = (if i < n * 4 then soft_bit (inp i) else 0)"

lemma vit_input_ok:
  assumes "\<And>t. t < n \<Longrightarrow> \<exists>j<4. inp (4 * t + j) = 0xff"
  shows "soft_ok (vit_input inp n)"
  unfolding soft_ok_def
proof (intro conjI allI)
  show "\<bar>vit_input inp n i\<bar> \<le> 127" for i by (simp add: vit_input_def soft_bit_def)
  show "\<exists>j<4. vit_input inp n (4 * t + j) = 0" for t
  proof (cases "t < n")
    case True
    then obtain j where j: "j < 4" "inp (4 * t + j) = 0xff" using assms by blast
    then have "vit_input inp n (4 * t + j) = 0" by (simp add: vit_input_def soft_bit_def)
    with j(1) show ?thesis by blast
  next
    case False
    then show ?thesis by (intro exI [of _ 0]) (simp add: vit_input_def)
  qed
qed

lemma wrapper_traced:
  assumes "\<And>t. t < n \<Longrightarrow> \<exists>j<4. inp (4 * t + j) = 0xff" "1 \<le> n" "n \<le> 860" "length out = n"
  shows "viterbi_dec_sb1_wrapper junk inp out n
    = Some (map of_nat (take n (snd (cch.traced (vit_input inp n) (n + 4) 0))))"
proof -
  have "(\<lambda>i. if i < n * 4 then soft_bit (inp i) else 0) = vit_input inp n"
    by (rule ext) (simp add: vit_input_def)
  then show ?thesis
    using cch_decode_traced [OF vit_input_ok [OF assms(1)] assms(2,4)] assms(3)
    by (simp add: viterbi_dec_sb1_wrapper_def Let_def)
qed

lemma wrapper_optimal:
  assumes "\<forall>t<n. \<exists>j<4. inp (4 * t + j) = 0xff" "1 \<le> n" "n \<le> 860" "length out = n"
  shows "\<exists>p ds. viterbi_dec_sb1_wrapper junk inp out n = Some (map of_nat ds)
    \<and> p < 16 \<and> length ds = n \<and> set ds \<subseteq> {0, 1}
    \<and> (\<forall>xs. length xs = n \<and> set xs \<subseteq> {0, 1} \<longrightarrow>
        2540 + path_corr (received inp) 0 0 xs \<le> cch_init p + path_corr (received inp) 0 p ds)"
proof -
  let ?y = "vit_input inp n"
  obtain p bs where tr: "cch.traced ?y (n + 4) 0 = (p, bs)" by fastforce
  note opt = cch.back_optimal [OF _ tr, simplified]
  let ?ds = "take n bs"
  have len: "length ?ds = n" using opt by simp
  have z: "path_corr ?y n q tl = 0" for q tl by (rule path_corr_zero) (simp add: vit_input_def)
  have same: "path_corr ?y 0 q xs = path_corr (received inp) 0 q xs" if "length xs = n" for q xs
    by (rule path_corr_cong) (simp add: vit_input_def received_def that)
  have cut: "path_corr ?y 0 p bs = path_corr (received inp) 0 p ?ds"
    using path_corr_append [of ?y 0 p ?ds "drop n bs"] same [OF len] z len by simp
  have "viterbi_dec_sb1_wrapper junk inp out n = Some (map of_nat ?ds)"
    using wrapper_traced [of n inp out junk] assms by (simp add: tr)
  moreover have "set ?ds \<subseteq> {0, 1}" using opt set_take_subset by fastforce
  moreover have "2540 + path_corr (received inp) 0 0 xs \<le> cch_init p + path_corr (received inp) 0 p ?ds"
    if xs: "length xs = n" "set xs \<subseteq> {0, 1}" for xs
  proof -
    have "cch.walk 0 (xs @ [0, 0, 0, 0]) = 0"
      using cch.walk_less [of 0 xs] xs(2) walk_flush by (simp add: cch.walk_append)
    then have "cch_init 0 + cch.score ?y 0 0 (xs @ [0, 0, 0, 0]) \<le> cch_init p + cch.score ?y 0 p bs"
      using xs by (intro cch.back_beats [OF _ tr]) auto
    then show ?thesis
      using xs(1) by (simp add: score_eq path_corr_append z same cut cch_init_def del: path_corr.simps)
  qed
  ultimately show ?thesis using opt len by blast
qed

section \<open>Erasures only: the block is decoded\<close>

lemma reg_delayed_walk:
  assumes "is_bits xs"
  shows "t \<le> length xs \<Longrightarrow> cch.walk 0 (take t (map unat xs)) < 16
    \<and> reg_delayed (cch.walk 0 (take t (map unat xs))) = map (tap xs t) [1, 2, 3, 4]"
proof (induction t)
  case 0
  show ?case by (simp add: reg_delayed_def tap_def upt_rec)
next
  case (Suc t)
  let ?R = "cch.walk 0 (take t (map unat xs))"
  have b: "unat (xs ! t) < 2" "of_nat (unat (xs ! t)) = xs ! t"
    using is_bits_nth [OF assms, of t] Suc.prems by auto
  have step: "cch.walk 0 (take (Suc t) (map unat xs)) = reg_next ?R (unat (xs ! t))"
    using Suc.prems by (simp add: take_Suc_conv_app_nth cch.walk_append)
  have "delayed (fst (conv_enc_in_bit \<lparr>delayed = reg_delayed ?R\<rparr> (xs ! t))) = map (tap xs (Suc t)) [1, 2, 3, 4]"
    using Suc by (intro conv_enc_in_bit_taps(2)) simp_all
  then show ?case
    using cch_table_is_encoder [of ?R "unat (xs ! t)"] Suc b cch.nxt_less [of ?R "unat (xs ! t)"]
    unfolding step by simp
qed

lemma mother_bits_nrz:
  assumes "is_bits xs" "t < length xs" "j < 4"
  shows "nrz (mother_bits xs t ! j) = cch_nrz (cch.walk 0 (take t (map unat xs))) (unat (xs ! t)) j"
proof -
  let ?R = "cch.walk 0 (take t (map unat xs))"
  have R: "?R < 16" "reg_delayed ?R = map (tap xs t) [1, 2, 3, 4]"
    using reg_delayed_walk [OF assms(1), of t] assms(2) by auto
  have b: "unat (xs ! t) < 2" "of_nat (unat (xs ! t)) = xs ! t"
    using is_bits_nth [OF assms(1,2)] by auto
  have "fst (snd (conv_enc_in_bit \<lparr>delayed = reg_delayed ?R\<rparr> (xs ! t))) = mother_bits xs t"
    using R assms(2) by (intro conv_enc_in_bit_taps(1)) simp_all
  then have "map (cch_nrz ?R (unat (xs ! t))) [0..<4] = map nrz (mother_bits xs t)"
    using cch_table_is_encoder [OF R(1) b(1)] b(2) by simp
  then have "map (cch_nrz ?R (unat (xs ! t))) [0..<4] ! j = map nrz (mother_bits xs t) ! j" by simp
  then show ?thesis using assms(3) by simp
qed

lemma mod2_bit: "mod2 xs = 0 \<or> mod2 xs = 1"
  by (cases "sum_list (map unat xs) mod 2 = 0") (auto simp: mod2_def)

lemma mother_bits_bit: "j < 4 \<Longrightarrow> mother_bits xs t ! j = 0 \<or> mother_bits xs t ! j = 1"
proof -
  assume "j < 4"
  then have "\<exists>ys. mother_bits xs t ! j = mod2 ys"
    by (auto simp: mother_bits_def eval_nat_numeral less_Suc_eq)
  then obtain ys where "mother_bits xs t ! j = mod2 ys" by blast
  then show ?thesis using mod2_bit [of ys] by simp
qed

text \<open>Received blocks with erasures and no errors.\<close>

definition erased_only :: "(nat \<Rightarrow> u8) \<Rightarrow> u8 list \<Rightarrow> bool" where
  "erased_only inp xs \<longleftrightarrow> (\<forall>t<length xs. (\<forall>j<4. inp (4 * t + j) = 0xff \<or> inp (4 * t + j) = mother_bits xs t ! j)
    \<and> (\<exists>j<4. inp (4 * t + j) = 0xff) \<and> (\<exists>j<4. inp (4 * t + j) \<noteq> 0xff))"

lemma erased_only_list:
  "erased_only inp xs \<longleftrightarrow> list_all (\<lambda>t.
      list_all (\<lambda>j. inp (4 * t + j) = 0xff \<or> inp (4 * t + j) = mother_bits xs t ! j) [0..<4]
      \<and> list_ex (\<lambda>j. inp (4 * t + j) = 0xff) [0..<4] \<and> list_ex (\<lambda>j. inp (4 * t + j) \<noteq> 0xff) [0..<4])
    [0..<length xs]"
  by (simp add: erased_only_def list_all_iff list_ex_iff Ball_def Bex_def del: upt_Suc)

definition weight :: "(nat \<Rightarrow> u8) \<Rightarrow> nat \<Rightarrow> int" where
  "weight inp t = (\<Sum>j<4. \<bar>soft_bit (inp (4 * t + j))\<bar>)"

lemma branch_le_weight:
  assumes "p < 16" "b < 2"
  shows "cch_branch (received inp) t p b \<le> weight inp t"
  unfolding cch_branch_def weight_def
proof (rule sum_mono)
  fix j assume "j \<in> {..<4 :: nat}"
  then have "cch_nrz p b j = 1 \<or> cch_nrz p b j = -1" using cch_nrz_values [OF assms] by simp
  then show "received inp (4 * t + j) * cch_nrz p b j \<le> \<bar>soft_bit (inp (4 * t + j))\<bar>"
    by (auto simp: received_def)
qed

lemma branch_eq_weight:
  assumes "is_bits xs" "erased_only inp xs" "t < length xs"
  shows "cch_branch (received inp) t (cch.walk 0 (take t (map unat xs))) (unat (xs ! t)) = weight inp t"
  unfolding cch_branch_def weight_def
proof (rule sum.cong)
  fix j assume "j \<in> {..<4 :: nat}"
  then have j: "j < 4" by simp
  have "inp (4 * t + j) = 0xff \<or> inp (4 * t + j) = mother_bits xs t ! j"
    using assms j by (auto simp: erased_only_def)
  then show "received inp (4 * t + j) * cch_nrz (cch.walk 0 (take t (map unat xs))) (unat (xs ! t)) j
      = \<bar>soft_bit (inp (4 * t + j))\<bar>"
    using mother_bits_bit [OF j, of xs t] mother_bits_nrz [OF assms(1,3) j]
    by (auto simp: received_def soft_bit_def nrz_def)
qed simp

lemma weight_pos:
  assumes "erased_only inp xs" "t < length xs"
  shows "0 < weight inp t"
proof -
  obtain j where j: "j < 4" "inp (4 * t + j) \<noteq> 0xff" using assms by (auto simp: erased_only_def)
  have "0 < \<bar>soft_bit (inp (4 * t + j))\<bar>" using j by (simp add: soft_bit_def)
  also have "\<dots> \<le> weight inp t" unfolding weight_def using j by (intro member_le_sum) auto
  finally show ?thesis .
qed

lemma branch_other:
  assumes "p < 16" "b < 2" "b' < 2" "b \<noteq> b'"
  shows "cch_branch y t p b' = - cch_branch y t p b"
proof -
  have "cch_branch y t p 1 = - cch_branch y t p 0"
  proof (cases "even p")
    case True
    then show ?thesis using cch_branch_neg [of "p div 2" y t] assms(1) by auto
  next
    case False
    then have "p = 2 * (p div 2) + 1" by presburger
    moreover have "p div 2 < 8" using assms(1) by simp
    ultimately show ?thesis using cch_branch_neg [of "p div 2" y t] by (metis minus_minus)
  qed
  then show ?thesis using assms by (auto simp: less_2_cases_iff)
qed

lemma path_corr_le:
  "p < 16 \<Longrightarrow> set ds \<subseteq> {0, 1} \<Longrightarrow> path_corr (received inp) t p ds \<le> (\<Sum>i\<in>{t..<t + length ds}. weight inp i)"
proof (induction ds arbitrary: t p)
  case (Cons d ds)
  then have d: "d < 2" by auto
  have "path_corr (received inp) (Suc t) (reg_next p d) ds \<le> (\<Sum>i\<in>{Suc t..<Suc t + length ds}. weight inp i)"
    using Cons.prems d by (intro Cons.IH cch.nxt_less) auto
  moreover have "(\<Sum>i\<in>{t..<t + length (d # ds)}. weight inp i)
      = weight inp t + (\<Sum>i\<in>{Suc t..<Suc t + length ds}. weight inp i)"
    using sum.atLeast_Suc_lessThan [of t "t + length (d # ds)" "weight inp"] by simp
  ultimately show ?case
    using branch_le_weight [OF Cons.prems(1) d, of inp t] unfolding path_corr.simps by linarith
qed simp

lemma path_corr_self:
  assumes "is_bits xs" "erased_only inp xs"
  shows "t \<le> length xs \<Longrightarrow> path_corr (received inp) t (cch.walk 0 (take t (map unat xs))) (drop t (map unat xs))
    = (\<Sum>i\<in>{t..<length xs}. weight inp i)"
proof (induction "length xs - t" arbitrary: t)
  case 0
  then show ?case by simp
next
  case (Suc k)
  then have t: "t < length xs" by simp
  have d: "drop t (map unat xs) = unat (xs ! t) # drop (Suc t) (map unat xs)"
    using t by (metis Cons_nth_drop_Suc length_map nth_map)
  have w: "cch.walk 0 (take (Suc t) (map unat xs)) = reg_next (cch.walk 0 (take t (map unat xs))) (unat (xs ! t))"
    using t by (simp add: take_Suc_conv_app_nth cch.walk_append)
  show ?case
    using Suc.hyps(1) [of "Suc t"] Suc.hyps(2) t branch_eq_weight [OF assms t]
    by (simp add: d w sum.atLeast_Suc_lessThan del: drop_map take_map)
qed

lemma path_corr_unique:
  assumes "is_bits xs" "erased_only inp xs"
  shows "t \<le> length xs \<Longrightarrow> length ds = length xs - t \<Longrightarrow> set ds \<subseteq> {0, 1}
    \<Longrightarrow> (\<Sum>i\<in>{t..<length xs}. weight inp i)
        \<le> path_corr (received inp) t (cch.walk 0 (take t (map unat xs))) ds
    \<Longrightarrow> ds = drop t (map unat xs)"
proof (induction ds arbitrary: t)
  case (Cons d ds)
  let ?R = "cch.walk 0 (take t (map unat xs))" and ?b = "unat (xs ! t)"
  have t: "t < length xs" and d: "d < 2" and ds: "set ds \<subseteq> {0, 1}" using Cons.prems by auto
  have R: "?R < 16" using reg_delayed_walk [OF assms(1), of t] t by simp
  have b: "?b < 2" using is_bits_nth [OF assms(1) t] by auto
  have rest: "path_corr (received inp) (Suc t) (reg_next ?R d) ds \<le> (\<Sum>i\<in>{Suc t..<length xs}. weight inp i)"
  proof -
    have "Suc t + length ds = length xs" using Cons.prems(2) t by simp
    then show ?thesis using path_corr_le [OF cch.nxt_less [OF R d] ds, of inp "Suc t"] by metis
  qed
  have tot: "(\<Sum>i\<in>{t..<length xs}. weight inp i) = weight inp t + (\<Sum>i\<in>{Suc t..<length xs}. weight inp i)"
    using t by (simp add: sum.atLeast_Suc_lessThan)
  then have "weight inp t \<le> cch_branch (received inp) t ?R d"
    using Cons.prems(4) rest unfolding path_corr.simps by linarith
  then have db: "d = ?b"
    using branch_other [OF R b d] branch_eq_weight [OF assms t] weight_pos [OF assms(2) t] by fastforce
  have w: "cch.walk 0 (take (Suc t) (map unat xs)) = reg_next ?R ?b"
    using t by (simp add: take_Suc_conv_app_nth cch.walk_append)
  have "(\<Sum>i\<in>{Suc t..<length xs}. weight inp i)
      \<le> path_corr (received inp) (Suc t) (cch.walk 0 (take (Suc t) (map unat xs))) ds"
    using Cons.prems(4) tot branch_eq_weight [OF assms t] unfolding w path_corr.simps db by linarith
  then have "ds = drop (Suc t) (map unat xs)"
    using Cons.prems(2) t ds by (intro Cons.IH) simp_all
  then show ?case using t by (simp add: db Cons_nth_drop_Suc [symmetric] drop_map)
qed simp

lemma wrapper_erasures:
  assumes "is_bits xs" "erased_only inp xs" "1 \<le> length xs" "length xs \<le> 860" "length out = length xs"
  shows "viterbi_dec_sb1_wrapper junk inp out (length xs) = Some xs"
proof -
  have "\<forall>t<length xs. \<exists>j<4. inp (4 * t + j) = 0xff"
    using assms(2) by (auto simp: erased_only_def)
  from wrapper_optimal [OF this assms(3,4,5), of junk]
  obtain p ds where r: "viterbi_dec_sb1_wrapper junk inp out (length xs) = Some (map of_nat ds)"
    "p < 16" "length ds = length xs" "set ds \<subseteq> {0, 1}"
    and best: "\<forall>zs. length zs = length xs \<and> set zs \<subseteq> {0, 1} \<longrightarrow>
      2540 + path_corr (received inp) 0 0 zs \<le> cch_init p + path_corr (received inp) 0 p ds"
    by (elim exE conjE) (rule that)
  let ?W = "\<Sum>i\<in>{0..<length xs}. weight inp i"
  have bits: "set (map unat xs) \<subseteq> {0, 1}" using assms(1) by (auto simp: is_bits_def)
  have A: "2540 + ?W \<le> cch_init p + path_corr (received inp) 0 p ds"
    using best [rule_format, of "map unat xs"] path_corr_self [OF assms(1,2), of 0] bits by simp
  have B: "path_corr (received inp) 0 p ds \<le> ?W"
    using path_corr_le [OF r(2,4), of inp 0] unfolding r(3) by simp
  have p: "p = 0"
  proof (rule ccontr)
    assume "p \<noteq> 0"
    then have "cch_init p = 0" by (simp add: cch_init_def)
    with A B show False by linarith
  qed
  have "cch_init p = 2540" by (simp add: p cch_init_def)
  with A have "?W \<le> path_corr (received inp) 0 p ds" by linarith
  then have "ds = drop 0 (map unat xs)"
    using r(3,4) p by (intro path_corr_unique [OF assms(1,2)]) simp_all
  then show ?thesis by (simp add: r(1) comp_def)
qed

section \<open>Properties\<close>

text \<open>
  The code table of the control channel decoder is the transmitter's encoder: in every state and
  for either input bit, the four outputs and the next state are those of \<open>conv_enc_in_bit\<close>.
\<close>

theorem decoder_table_matches_encoder:
  assumes "p < 16" "b < 2"
  shows "map (cch_nrz p b) [0..<4]
      = map nrz (fst (snd (conv_enc_in_bit \<lparr>delayed = reg_delayed p\<rparr> (of_nat b))))
    \<and> delayed (fst (conv_enc_in_bit \<lparr>delayed = reg_delayed p\<rparr> (of_nat b))) = reg_delayed (reg_next p b)"
  using assms by (rule cch_table_is_encoder)

theorem decoder_table_matches_encoder_witness:
  "map (cch_nrz 5 1) [0..<4]
      = map nrz (fst (snd (conv_enc_in_bit \<lparr>delayed = reg_delayed 5\<rparr> (of_nat 1))))
    \<and> delayed (fst (conv_enc_in_bit \<lparr>delayed = reg_delayed 5\<rparr> (of_nat 1))) = reg_delayed (reg_next 5 1)"
  by (rule decoder_table_matches_encoder) simp_all

text \<open>
  C2. The decoder returns a maximum likelihood path: for any received block of at most 860 steps with
  an erased symbol in each, no bit sequence of that length correlates better with the soft bits than
  the decoded one does, counting the head start of the all-zero start state. The 16-bit sums, their
  normalisation every 59 steps, the flush steps past the block and the traceback lose nothing.
\<close>

theorem viterbi_maximum_likelihood:
  assumes "\<forall>t<n. \<exists>j<4. inp (4 * t + j) = 0xff" "1 \<le> n" "n \<le> 860" "length out = n"
  shows "\<exists>p ds. viterbi_dec_sb1_wrapper junk inp out n = Some (map of_nat ds)
    \<and> p < 16 \<and> length ds = n \<and> set ds \<subseteq> {0, 1}
    \<and> (\<forall>xs. length xs = n \<and> set xs \<subseteq> {0, 1} \<longrightarrow>
        2540 + path_corr (received inp) 0 0 xs \<le> cch_init p + path_corr (received inp) 0 p ds)"
  using assms by (rule wrapper_optimal)

theorem viterbi_maximum_likelihood_witness:
  "\<exists>p ds. viterbi_dec_sb1_wrapper (\<lambda>_. 0) (\<lambda>i. if i mod 4 = 3 then 0xff else of_nat (i mod 2)) [9, 9] 2
      = Some (map of_nat ds)
    \<and> p < 16 \<and> length ds = 2 \<and> set ds \<subseteq> {0, 1}
    \<and> (\<forall>xs. length xs = 2 \<and> set xs \<subseteq> {0, 1} \<longrightarrow>
        2540 + path_corr (received (\<lambda>i. if i mod 4 = 3 then 0xff else of_nat (i mod 2))) 0 0 xs
        \<le> cch_init p + path_corr (received (\<lambda>i. if i mod 4 = 3 then 0xff else of_nat (i mod 2))) 0 p ds)"
proof (rule viterbi_maximum_likelihood)
  have "(4 * t + 3) mod 4 = (3 :: nat)" for t by presburger
  then show "\<forall>t<2. \<exists>j<4. (if (4 * t + j) mod 4 = 3 then 0xff else of_nat ((4 * t + j) mod 2) :: u8) = 0xff"
    by (intro allI impI exI [of _ 3]) simp
qed simp_all

text \<open>
  A block of the encoder's output in which each step has lost at least one of its four symbols, but
  not all of them, is decoded to exactly the bits that were encoded.
\<close>

theorem viterbi_decodes_erasures:
  assumes "is_bits xs" "erased_only inp xs" "1 \<le> length xs" "length xs \<le> 860" "length out = length xs"
  shows "viterbi_dec_sb1_wrapper junk inp out (length xs) = Some xs"
  using assms by (rule wrapper_erasures)

theorem viterbi_decodes_erasures_witness:
  "viterbi_dec_sb1_wrapper (\<lambda>_. 0) (\<lambda>i. [1, 0xff, 1, 0xff, 0xff, 0, 0xff, 0xff] ! i) [9, 9] (length [1, 0 :: u8])
    = Some [1, 0]"
proof (rule viterbi_decodes_erasures)
  show "erased_only (\<lambda>i. [1, 0xff, 1, 0xff, 0xff, 0, 0xff, 0xff] ! i) [1, 0]"
    unfolding erased_only_list by code_simp
qed simp_all

end
