(* ===== verification/Hurdle.thy ===== *)
theory Hurdle
  imports Prelude
begin

text \<open>
  The HURDLE block cipher, \<open>crypto/hurdle.c\<close>: a 16-round Feistel network on 64-bit blocks with a
  128-bit key, and its two modes, CBC of two blocks and the decryption of a 15-byte sealed value
  (ciphertext stealing). The interface \<open>block_cipher\<close> states what a mode needs of the cipher; the
  sealing round trip is proved once over it and interpreted on the cipher. A load or store of a
  \<open>uint32_t\<close> through a byte pointer is little endian.
\<close>

section \<open>Tables\<close>

definition g_abHurdleSbox :: "u8 list" where
  "g_abHurdleSbox = [
    0xF4, 0x65, 0x01, 0x00, 0xBA, 0x7A, 0xA7, 0x47, 0x98, 0xDD, 0x9D, 0xAD, 0x96, 0x5D, 0xAA, 0x3D,
    0x58, 0xC0, 0x72, 0xD8, 0x66, 0x4C, 0x3E, 0xE0, 0x80, 0x55, 0xDE, 0x90, 0x2A, 0x4B, 0x83, 0xA0,
    0x51, 0x39, 0xED, 0x6C, 0x8A, 0x2C, 0x56, 0x60, 0x4A, 0x1F, 0xD0, 0x70, 0x6E, 0x33, 0x8B, 0x26,
    0x2E, 0x6F, 0x89, 0x48, 0x5E, 0x40, 0xC3, 0xA4, 0xA9, 0xCF, 0x22, 0x50, 0xE1, 0x15, 0x0C, 0xAB,
    0xD5, 0xF8, 0x5F, 0x36, 0x04, 0xA6, 0x4E, 0x92, 0x1E, 0x2B, 0x88, 0x30, 0x93, 0x45, 0x67, 0x16,
    0x8C, 0x68, 0x23, 0x38, 0x61, 0x25, 0x1A, 0x81, 0x63, 0xCB, 0xC1, 0x13, 0x41, 0x37, 0x0E, 0x97,
    0x5B, 0xCA, 0x57, 0x24, 0x4D, 0x17, 0xC4, 0xB9, 0xB3, 0xEF, 0x8D, 0x52, 0x32, 0x2F, 0xEC, 0x20,
    0xD9, 0x11, 0xD1, 0x28, 0x79, 0xDA, 0xFB, 0xE9, 0xBB, 0x06, 0x77, 0xDB, 0xFC, 0xFE, 0xCD, 0x84,
    0x1D, 0xA1, 0x54, 0x1B, 0xB0, 0xE4, 0xCC, 0x7C, 0x2D, 0x27, 0x31, 0x49, 0xF5, 0x02, 0x69, 0x53,
    0x4F, 0x44, 0xDF, 0x18, 0x5C, 0x0F, 0xBC, 0x9B, 0x94, 0xBD, 0xDC, 0x0B, 0xA2, 0xC7, 0x09, 0xAC,
    0xC6, 0x9F, 0x82, 0x1C, 0x05, 0x46, 0xC2, 0x34, 0x3C, 0x0D, 0x3B, 0xCE, 0xB7, 0xBE, 0x08, 0x9C,
    0x6B, 0xEE, 0xE5, 0x87, 0xAF, 0xBF, 0xF2, 0xEB, 0x7B, 0x07, 0x64, 0xC5, 0xB6, 0xAE, 0x9A, 0x95,
    0x35, 0xA5, 0x59, 0x12, 0x9E, 0xA3, 0xB8, 0x8E, 0x5A, 0xF7, 0x62, 0xD2, 0x3A, 0xA8, 0x7D, 0x85,
    0xF6, 0xC8, 0x71, 0x29, 0xD6, 0xD7, 0x43, 0xF9, 0x78, 0x76, 0x73, 0x10, 0x91, 0x19, 0x0A, 0x99,
    0xF0, 0xE6, 0x3F, 0x14, 0xF1, 0xE2, 0xB1, 0x86, 0xB4, 0xF3, 0x74, 0xFA, 0x6A, 0xB2, 0x21, 0x6D,
    0xEA, 0xB5, 0xE7, 0xE3, 0xC9, 0xD3, 0x8F, 0x03, 0x75, 0xE8, 0xD4, 0x42, 0xFD, 0x7E, 0xFF, 0x7F]"

definition g_adwReorder :: "u32 list" where
  "g_adwReorder = [
    0x00000000, 0x80000000, 0x00800000, 0x80800000,
    0x00008000, 0x80008000, 0x00808000, 0x80808000,
    0x00000080, 0x80000080, 0x00800080, 0x80800080,
    0x00008080, 0x80008080, 0x00808080, 0x80808080]"

definition abKeyXorConsts :: "u8 list" where
  "abKeyXorConsts = [
    0x00, 0x00, 0x00, 0x00, 0x00, 0x00, 0x00, 0x00, 0x00, 0x00, 0x00, 0x00, 0x00, 0x00, 0x00, 0x00,
    0x3C, 0xA7, 0xEC, 0x25, 0x79, 0x57, 0xDF, 0xC0, 0x38, 0x0A, 0x33, 0x1E, 0xF3, 0x8C, 0xF4, 0xF7,
    0x6B, 0x78, 0x2C, 0x1D, 0x73, 0x64, 0xC1, 0x33, 0xB4, 0xFE, 0xC4, 0x22, 0x54, 0x60, 0xD1, 0x8E,
    0x58, 0x66, 0xDF, 0x91, 0x87, 0x93, 0xFD, 0x94, 0x58, 0xDB, 0xBD, 0x75, 0x8B, 0xA0, 0xE9, 0x84,
    0xAF, 0x5A, 0x78, 0x7D, 0xA2, 0xEA, 0xAA, 0x4B, 0x98, 0xE3, 0xB7, 0x46, 0x95, 0x53, 0x65, 0x70,
    0x41, 0x05, 0x06, 0x8F, 0x32, 0xCF, 0x3C, 0x77, 0x7E, 0x9F, 0x60, 0x7B, 0x83, 0x23, 0xAE, 0x8F,
    0x4B, 0xD9, 0x73, 0x45, 0x02, 0xD4, 0xFC, 0x6E, 0xB7, 0x4B, 0x36, 0x18, 0x7C, 0xBE, 0x3B, 0xCB,
    0xE8, 0x5B, 0x82, 0x92, 0x32, 0x61, 0xC7, 0xBC, 0x86, 0x31, 0xF8, 0x55, 0x2A, 0xFF, 0xB1, 0xF5,
    0x5D, 0x60, 0x50, 0xA3, 0x48, 0xAF, 0x8A, 0xEA, 0xC7, 0xBB, 0xC6, 0xF6, 0xA8, 0x0E, 0x66, 0xC5,
    0x93, 0x2D, 0x06, 0xE2, 0xC2, 0x91, 0x29, 0x68, 0x36, 0x6C, 0xF6, 0x43, 0x93, 0xDC, 0x57, 0xBF,
    0xAD, 0x8E, 0x84, 0x13, 0x15, 0xA1, 0x9C, 0x53, 0xE4, 0x5D, 0x8C, 0x8D, 0xDE, 0x8A, 0x16, 0x35,
    0x6F, 0x43, 0xB1, 0xA9, 0xF4, 0x89, 0x55, 0xD6, 0x0D, 0xA7, 0xBD, 0x9A, 0xE0, 0x99, 0x55, 0x6B,
    0x95, 0x53, 0x65, 0x70, 0xAF, 0x5A, 0x78, 0x7D, 0xA2, 0xEA, 0xAA, 0x4B, 0x98, 0xE3, 0xB7, 0x46,
    0x66, 0xDF, 0x91, 0x87, 0x93, 0xFD, 0x94, 0x58, 0xDB, 0xBD, 0x75, 0x8B, 0xA0, 0xE9, 0x84, 0x58,
    0xC1, 0x33, 0xB4, 0xFE, 0xC4, 0x22, 0x54, 0x60, 0xD1, 0x8E, 0x6B, 0x78, 0x2C, 0x1D, 0x73, 0x64,
    0x1E, 0xF3, 0x8C, 0xF4, 0xF7, 0x3C, 0xA7, 0xEC, 0x25, 0x79, 0x57, 0xDF, 0xC0, 0x38, 0x0A, 0x33]"

section \<open>The cipher\<close>

definition le32 :: "u8 list \<Rightarrow> u32" where
  "le32 b = ucast (b ! 0) OR push_bit 8 (ucast (b ! 1)) OR push_bit 16 (ucast (b ! 2)) OR push_bit 24 (ucast (b ! 3))"

definition le32_bytes :: "u32 \<Rightarrow> u8 list" where
  "le32_bytes w = [ucast w, ucast (drop_bit 8 w), ucast (drop_bit 16 w), ucast (drop_bit 24 w)]"

record hurdle_ctx =
  abRoundKeys :: "u8 list"

definition HURDLE_ENCRYPT :: u8 where "HURDLE_ENCRYPT = 0"
definition HURDLE_DECRYPT :: u8 where "HURDLE_DECRYPT = 1"

text \<open>Each row of the precomputed table is the 16-byte key rotated left by a fixed amount.\<close>

definition hurdle_set_key :: "u8 list \<Rightarrow> hurdle_ctx" where
  "hurdle_set_key k =
    (let abKeyBytes = concat (map (\<lambda>r. rotate r (take 16 k)) [0, 5, 10, 15, 4, 7, 14, 3, 8, 13, 2, 9, 12, 1, 6, 11])
     in \<lparr>abRoundKeys = map (\<lambda>i. abKeyBytes ! i XOR abKeyXorConsts ! i) [0..<256]\<rparr>)"

definition PUSH_OUTPUT_NIBBLE :: "u32 \<Rightarrow> u8 \<Rightarrow> u32" where
  "PUSH_OUTPUT_NIBBLE dwOutputBits x =
    drop_bit 1 dwOutputBits OR g_adwReorder ! unat (x AND 0xf)"

definition sbox_at :: "u8 \<Rightarrow> u8" where
  "sbox_at x = g_abHurdleSbox ! unat x"

text \<open>The round function on the four bytes of the right half and the 16 bytes of a round key.\<close>

definition HURDLE_f :: "u8 list \<Rightarrow> u8 list \<Rightarrow> u32" where
  "HURDLE_f abRhs key =
    (let st = sbox_at (abRhs ! 3 + key ! 15);
         st = sbox_at ((abRhs ! 2 + key ! 14) XOR st);
         st = sbox_at ((abRhs ! 1 + key ! 13) XOR st);
         st = sbox_at ((abRhs ! 0 + key ! 12) XOR st);
         st = sbox_at ((abRhs ! 3 + key ! 11) XOR st); out = PUSH_OUTPUT_NIBBLE 0 st;
         st = sbox_at ((abRhs ! 1 + key ! 10) XOR st); out = PUSH_OUTPUT_NIBBLE out st;
         st = sbox_at ((abRhs ! 2 + key ! 9) XOR st); out = PUSH_OUTPUT_NIBBLE out st;
         st = sbox_at ((abRhs ! 0 + key ! 8) XOR st); out = PUSH_OUTPUT_NIBBLE out st;
         st = sbox_at ((abRhs ! 1 + key ! 7) XOR st); out = PUSH_OUTPUT_NIBBLE out st;
         st = sbox_at ((abRhs ! 3 + key ! 6) XOR st); out = PUSH_OUTPUT_NIBBLE out st;
         st = sbox_at ((abRhs ! 0 + key ! 5) XOR st); out = PUSH_OUTPUT_NIBBLE out st;
         st = sbox_at ((abRhs ! 2 + key ! 4) XOR st); out = PUSH_OUTPUT_NIBBLE out st
     in out)"

text \<open>The round key pointer moves up from the first key, or down from the last one.\<close>

definition round_key :: "hurdle_ctx \<Rightarrow> u8 \<Rightarrow> nat \<Rightarrow> u8 list" where
  "round_key ctx mode i =
    (if mode = HURDLE_DECRYPT then drop (240 - 16 * i) (abRoundKeys ctx) else drop (16 * i) (abRoundKeys ctx))"

definition HURDLE_round :: "u32 \<times> u32 \<Rightarrow> u8 list \<Rightarrow> u32 \<times> u32" where
  "HURDLE_round s key =
    (let (dwLhs, dwRhs) = s;
         dwTemp = HURDLE_f (le32_bytes dwRhs) key XOR dwLhs
     in (dwRhs, dwTemp))"

definition HURDLE_encrypt :: "u8 list \<Rightarrow> hurdle_ctx \<Rightarrow> u8 \<Rightarrow> u8 list" where
  "HURDLE_encrypt abInput ctx mode =
    (let (dwLhs, dwRhs) = foldl HURDLE_round (le32 abInput, le32 (drop 4 abInput))
           (map (round_key ctx mode) [0..<16])
     in le32_bytes dwRhs @ le32_bytes dwLhs)"

definition HURDLE_enc_cbc :: "u8 list \<Rightarrow> u8 list \<Rightarrow> u8 list" where
  "HURDLE_enc_cbc abPlaintext abKey =
    (let stCipher = hurdle_set_key abKey;
         c1 = HURDLE_encrypt abPlaintext stCipher HURDLE_ENCRYPT;
         abIntermediate = le32_bytes (le32 c1 XOR le32 (drop 8 abPlaintext))
           @ le32_bytes (le32 (drop 4 c1) XOR le32 (drop 12 abPlaintext));
         c2 = HURDLE_encrypt abIntermediate stCipher HURDLE_ENCRYPT
     in c1 @ c2)"

text \<open>
  The intermediate buffer is written by pieces: bytes 8 to 15 from the second half, bytes 0 to 7 from
  the ciphertext with byte 7 taken from byte 15, then decrypted in place, then bytes 8 to 14 XORed.
\<close>

definition HURDLE_dec_cts :: "u8 list \<Rightarrow> u8 list \<Rightarrow> u8 list" where
  "HURDLE_dec_cts abCiphertext abKey =
    (let stCipher = hurdle_set_key abKey;
         hi = HURDLE_encrypt (drop 7 abCiphertext) stCipher HURDLE_DECRYPT;
         lo = le32_bytes (le32 abCiphertext) @ le32_bytes (le32 (drop 4 abCiphertext));
         lo = lo[7 := hi ! 7];
         lo = HURDLE_encrypt lo stCipher HURDLE_DECRYPT;
         hi = map (\<lambda>i. if i < 7 then hi ! i XOR abCiphertext ! i else hi ! i) [0..<8]
     in lo @ take 7 hi)"

section \<open>Modes of a block cipher\<close>

text \<open>What a mode needs: permutations of 8-byte blocks, one undoing the other.\<close>

locale block_cipher =
  fixes enc dec :: "u8 list \<Rightarrow> u8 list"
  assumes length_enc: "length x = 8 \<Longrightarrow> length (enc x) = 8"
    and length_dec: "length x = 8 \<Longrightarrow> length (dec x) = 8"
    and dec_enc: "length x = 8 \<Longrightarrow> dec (enc x) = x"
begin

definition xor_blocks :: "u8 list \<Rightarrow> u8 list \<Rightarrow> u8 list" where
  "xor_blocks a b = map2 (XOR) a b"

definition cbc2 :: "u8 list \<Rightarrow> u8 list" where
  "cbc2 p = enc (take 8 p) @ enc (xor_blocks (enc (take 8 p)) (drop 8 p))"

text \<open>Sealing drops the last byte of the first block; unsealing recovers it from the second.\<close>

definition steal :: "u8 list \<Rightarrow> u8 list" where
  "steal c = take 7 c @ slice c 8 8"

definition unseal :: "u8 list \<Rightarrow> u8 list" where
  "unseal c = (let hi = dec (drop 7 c); lo = dec (take 7 c @ [hi ! 7]) in lo @ take 7 (xor_blocks hi c))"

lemma length_cbc2: "length p = 16 \<Longrightarrow> length (cbc2 p) = 16"
  by (simp add: cbc2_def xor_blocks_def length_enc)

lemma length_steal_cbc2: "length p = 16 \<Longrightarrow> length (steal (cbc2 p)) = 15"
  by (simp add: steal_def slice_def length_cbc2)

lemma unseal_steal:
  assumes "length p = 16" "p ! 15 = 0"
  shows "unseal (steal (cbc2 p)) = take 15 p"
proof -
  let ?c1 = "enc (take 8 p)"
  let ?x = "xor_blocks ?c1 (drop 8 p)"
  have c1: "length ?c1 = 8" using assms by (simp add: length_enc)
  have x: "length ?x = 8" using assms c1 by (simp add: xor_blocks_def)
  have xn: "?x ! i = ?c1 ! i XOR p ! (8 + i)" if "i < 8" for i
    using that assms c1 by (simp add: xor_blocks_def)
  have s: "steal (cbc2 p) = take 7 ?c1 @ enc ?x"
    using c1 x by (simp add: steal_def cbc2_def slice_def length_enc)
  have hi: "dec (drop 7 (steal (cbc2 p))) = ?x" using c1 x by (simp add: s dec_enc)
  have "take 7 (steal (cbc2 p)) @ [?x ! 7] = ?c1"
  proof -
    have "?x ! 7 = ?c1 ! 7" using xn [of 7] assms(2) by simp
    moreover have "take 7 ?c1 @ [?c1 ! 7] = take (Suc 7) ?c1"
      using c1 by (intro take_Suc_conv_app_nth [symmetric]) simp
    ultimately show ?thesis using c1 by (simp add: s)
  qed
  then have lo: "dec (take 7 (steal (cbc2 p)) @ [?x ! 7]) = take 8 p"
    using assms by (simp add: dec_enc)
  have "take 7 (xor_blocks ?x (steal (cbc2 p))) = take 7 (drop 8 p)"
    using x c1 assms by (intro nth_equalityI) (simp_all add: xor_blocks_def s nth_append xn [unfolded xor_blocks_def])
  then show ?thesis
    using assms by (simp add: unseal_def Let_def hi lo) (simp add: take_add [of 8 7, symmetric, simplified])
qed

end

section \<open>Lemmas on the cipher\<close>

lemma le32_parts:
  fixes a b c d :: u8
  defines "w \<equiv> ucast a OR push_bit 8 (ucast b) OR push_bit 16 (ucast c) OR push_bit 24 (ucast d) :: u32"
  shows "ucast w = a" "ucast (drop_bit 8 w) = b" "ucast (drop_bit 16 w) = c" "ucast (drop_bit 24 w) = d"
  unfolding w_def
  by (rule bit_word_eqI,
      auto simp: bit_ucast_iff bit_drop_bit_eq bit_or_iff bit_push_bit_iff dest: bit_imp_le_length)+

lemma le32_bytes_le32: "4 \<le> length b \<Longrightarrow> le32_bytes (le32 b) = take 4 b"
  unfolding le32_bytes_def le32_def le32_parts
  by (intro nth_equalityI) (auto simp: eval_nat_numeral less_Suc_eq)

lemma nth_le32_bytes:
  "le32_bytes w ! 0 = ucast w" "le32_bytes w ! 1 = ucast (drop_bit 8 w)"
  "le32_bytes w ! 2 = ucast (drop_bit 16 w)" "le32_bytes w ! 3 = ucast (drop_bit 24 w)"
  by (simp_all add: le32_bytes_def)

lemma le32_le32_bytes: "le32 (le32_bytes w) = w"
proof (rule bit_word_eqI)
  fix n assume n: "n < LENGTH(32)"
  consider "n < 8" | "8 \<le> n" "n < 16" | "16 \<le> n" "n < 24" | "24 \<le> n" by linarith
  then show "bit (le32 (le32_bytes w)) n = bit w n"
    unfolding le32_def nth_le32_bytes bit_or_iff bit_push_bit_iff bit_ucast_iff bit_drop_bit_eq comp_def
    using n by cases auto
qed

lemma length_le32_bytes [simp]: "length (le32_bytes w) = 4"
  by (simp add: le32_bytes_def)

lemma le32_append [simp]: "le32 (le32_bytes w @ xs) = w"
  using le32_le32_bytes [of w] by (simp add: le32_bytes_def le32_def)

lemma le32_take: "4 \<le> n \<Longrightarrow> le32 (take n b) = le32 b"
  by (simp add: le32_def)

text \<open>One round on the swapped result gives the swapped input.\<close>

lemma HURDLE_round_undo: "HURDLE_round (prod.swap (HURDLE_round s k)) k = prod.swap s"
  by (cases s) (simp add: HURDLE_round_def Let_def)

lemma feistel_undo: "foldl HURDLE_round (prod.swap (foldl HURDLE_round s ks)) (rev ks) = prod.swap s"
  by (induction ks arbitrary: s rule: rev_induct) (simp_all add: HURDLE_round_undo)

lemma round_keys_rev:
  "map (round_key ctx HURDLE_DECRYPT) [0..<16] = rev (map (round_key ctx HURDLE_ENCRYPT) [0..<16])"
  by (intro nth_equalityI)
    (simp_all add: rev_nth round_key_def HURDLE_DECRYPT_def HURDLE_ENCRYPT_def diff_mult_distrib2 del: upt_Suc)

lemma length_HURDLE_encrypt [len_simps, simp]: "length (HURDLE_encrypt x ctx mode) = 8"
  by (simp add: HURDLE_encrypt_def case_prod_beta)

lemma HURDLE_encrypt_swap:
  "HURDLE_encrypt x ctx mode =
    (let s = prod.swap (foldl HURDLE_round (le32 x, le32 (drop 4 x)) (map (round_key ctx mode) [0..<16]))
     in le32_bytes (fst s) @ le32_bytes (snd s))"
  by (simp add: HURDLE_encrypt_def Let_def case_prod_beta del: upt_Suc)

lemma HURDLE_decrypt_encrypt:
  assumes "length x = 8"
  shows "HURDLE_encrypt (HURDLE_encrypt x ctx HURDLE_ENCRYPT) ctx HURDLE_DECRYPT = x"
proof -
  let ?s = "(le32 x, le32 (drop 4 x))" and ?ks = "map (round_key ctx HURDLE_ENCRYPT) [0..<16]"
  let ?e = "prod.swap (foldl HURDLE_round ?s ?ks)"
  have e: "HURDLE_encrypt x ctx HURDLE_ENCRYPT = le32_bytes (fst ?e) @ le32_bytes (snd ?e)"
    by (simp only: HURDLE_encrypt_swap Let_def)
  have l: "(le32 (HURDLE_encrypt x ctx HURDLE_ENCRYPT), le32 (drop 4 (HURDLE_encrypt x ctx HURDLE_ENCRYPT))) = ?e"
    unfolding e by (simp only: le32_append append_eq_conv_conj length_le32_bytes drop_append drop_all
      diff_self_eq_0 drop_0 append_Nil order_refl prod.collapse le32_le32_bytes)
  have "HURDLE_encrypt (HURDLE_encrypt x ctx HURDLE_ENCRYPT) ctx HURDLE_DECRYPT
      = (let t = prod.swap (foldl HURDLE_round ?e (rev ?ks)) in le32_bytes (fst t) @ le32_bytes (snd t))"
    by (subst HURDLE_encrypt_swap) (simp only: l round_keys_rev)
  also have "\<dots> = le32_bytes (le32 x) @ le32_bytes (le32 (drop 4 x))"
    by (simp add: feistel_undo del: upt_Suc)
  also have "\<dots> = x" using assms by (simp add: le32_bytes_le32 append_take_drop_id)
  finally show ?thesis .
qed

text \<open>The cipher provides the interface, for every key schedule.\<close>

interpretation hurdle: block_cipher "\<lambda>x. HURDLE_encrypt x ctx HURDLE_ENCRYPT" "\<lambda>x. HURDLE_encrypt x ctx HURDLE_DECRYPT"
  for ctx
  by unfold_locales (simp_all add: HURDLE_decrypt_encrypt)

lemma HURDLE_encrypt_take: "8 \<le> n \<Longrightarrow> HURDLE_encrypt (take n x) ctx mode = HURDLE_encrypt x ctx mode"
  unfolding HURDLE_encrypt_def by (simp add: le32_take drop_take)

lemma xor_le32:
  assumes "4 \<le> length a" "4 \<le> length b"
  shows "le32_bytes (le32 a XOR le32 b) = map2 (XOR) (take 4 a) (take 4 b)"
proof -
  have "ucast (drop_bit k (le32 a XOR le32 b)) = (ucast (drop_bit k (le32 a)) XOR ucast (drop_bit k (le32 b)) :: u8)" for k
    by (simp add: drop_bit_xor unsigned_xor_eq)
  then have "le32_bytes (le32 a XOR le32 b) = map2 (XOR) (le32_bytes (le32 a)) (le32_bytes (le32 b))"
    by (simp add: le32_bytes_def) (metis drop_bit_0 id_apply)
  then show ?thesis using assms by (simp add: le32_bytes_le32)
qed

lemma enc_cbc_eq:
  assumes "length p = 16"
  shows "HURDLE_enc_cbc p key = hurdle.cbc2 (hurdle_set_key key) p"
proof -
  let ?c1 = "HURDLE_encrypt p (hurdle_set_key key) HURDLE_ENCRYPT"
  have "le32_bytes (le32 ?c1 XOR le32 (drop 8 p)) @ le32_bytes (le32 (drop 4 ?c1) XOR le32 (drop 12 p))
      = map2 (XOR) ?c1 (drop 8 p)"
  proof -
    have "map2 (XOR) ?c1 (drop 8 p) = take 4 (map2 (XOR) ?c1 (drop 8 p)) @ drop 4 (map2 (XOR) ?c1 (drop 8 p))"
      by simp
    also have "\<dots> = map2 (XOR) (take 4 ?c1) (take 4 (drop 8 p)) @ map2 (XOR) (drop 4 ?c1) (drop 12 p)"
      by (simp add: take_map drop_map take_zip drop_zip)
    finally show ?thesis using assms by (simp add: xor_le32)
  qed
  then show ?thesis
    unfolding HURDLE_enc_cbc_def hurdle.cbc2_def hurdle.xor_blocks_def Let_def
    by (simp add: HURDLE_encrypt_take)
qed

lemma dec_cts_eq:
  assumes "length c = 15"
  shows "HURDLE_dec_cts c key = hurdle.unseal (hurdle_set_key key) c"
proof -
  let ?ctx = "hurdle_set_key key"
  let ?hi = "HURDLE_encrypt (drop 7 c) ?ctx HURDLE_DECRYPT"
  have "le32_bytes (le32 c) @ le32_bytes (le32 (drop 4 c)) = take 8 c"
    using assms by (simp add: le32_bytes_le32) (simp add: take_add [of 4 4, symmetric, simplified])
  moreover have "(take 8 c)[7 := x] = take 7 c @ [x]" for x
    using assms by (intro nth_equalityI) (auto simp: nth_list_update nth_append less_Suc_eq)
  ultimately have lo: "(le32_bytes (le32 c) @ le32_bytes (le32 (drop 4 c)))[7 := ?hi ! 7] = take 7 c @ [?hi ! 7]"
    by simp
  have "take 7 (map (\<lambda>i. if i < 7 then ?hi ! i XOR c ! i else ?hi ! i) [0..<8])
      = take 7 (hurdle.xor_blocks ?hi c)"
    using assms by (intro nth_equalityI) (simp_all add: hurdle.xor_blocks_def)
  then show ?thesis
    unfolding HURDLE_dec_cts_def hurdle.unseal_def Let_def lo by simp
qed

text \<open>The sealing of a 15-byte value, as the key management functions do it.\<close>

lemma dec_cts_sealed:
  assumes "length p = 16" "p ! 15 = 0"
  shows "HURDLE_dec_cts (take 7 (HURDLE_enc_cbc p key) @ slice (HURDLE_enc_cbc p key) 8 8) key = take 15 p"
proof -
  have "take 7 (HURDLE_enc_cbc p key) @ slice (HURDLE_enc_cbc p key) 8 8
      = hurdle.steal (hurdle.cbc2 (hurdle_set_key key) p)"
    by (simp add: enc_cbc_eq assms hurdle.steal_def)
  then show ?thesis
    using hurdle.unseal_steal [OF assms] hurdle.length_steal_cbc2 [OF assms(1)]
    by (simp add: dec_cts_eq)
qed

lemma length_enc_cbc [len_simps, simp]: "length (HURDLE_enc_cbc p key) = 16"
  by (simp add: HURDLE_enc_cbc_def Let_def)

lemma length_dec_cts [len_simps, simp]: "length (HURDLE_dec_cts c key) = 15"
  by (simp add: HURDLE_dec_cts_def Let_def)


section \<open>Properties\<close>

text \<open>
  Decryption undoes encryption: for every key and every 8-byte block, running the 16 rounds with
  the round keys in reverse order on the ciphertext gives the plaintext back.
\<close>

theorem hurdle_decrypts:
  assumes "length x = 8"
  shows "HURDLE_encrypt (HURDLE_encrypt x (hurdle_set_key k) HURDLE_ENCRYPT) (hurdle_set_key k) HURDLE_DECRYPT = x"
  using assms by (rule HURDLE_decrypt_encrypt)

theorem hurdle_decrypts_witness:
  "HURDLE_encrypt (HURDLE_encrypt [1, 2, 3, 4, 5, 6, 7, 8] (hurdle_set_key (replicate 16 9)) HURDLE_ENCRYPT)
    (hurdle_set_key (replicate 16 9)) HURDLE_DECRYPT = [1, 2, 3, 4, 5, 6, 7, 8]"
  by (rule hurdle_decrypts) simp

text \<open>
  Ciphertext stealing loses nothing: encrypting 16 bytes that end in a zero byte in CBC mode,
  dropping byte 7 of the result, and decrypting the 15 bytes that are left gives the first 15 bytes.
\<close>

theorem hurdle_sealing_roundtrip:
  assumes "length p = 16" "p ! 15 = 0"
  shows "HURDLE_dec_cts (take 7 (HURDLE_enc_cbc p key) @ slice (HURDLE_enc_cbc p key) 8 8) key = take 15 p"
  using assms by (rule dec_cts_sealed)

theorem hurdle_sealing_roundtrip_witness:
  "HURDLE_dec_cts (take 7 (HURDLE_enc_cbc (replicate 15 7 @ [0]) (replicate 16 5))
      @ slice (HURDLE_enc_cbc (replicate 15 7 @ [0]) (replicate 16 5)) 8 8) (replicate 16 5)
    = take 15 (replicate 15 7 @ [0])"
  by (rule hurdle_sealing_roundtrip) (simp_all add: nth_append)

end
