(* ===== verification/Taa1.thy ===== *)
theory Taa1
  imports Hurdle
begin

text \<open>
  The TAA1 authentication and key management functions, \<open>crypto/taa1.c\<close>: the expansions of short
  values to cipher blocks, the key derivations TA11 to TA71, the sealing and unsealing of cipher keys
  (TA31/32, TA51/52, TA81/82, TA91/92) and the TB functions. A buffer that a function fills completely
  is the list it returns; several outputs are a tuple in the order of the parameters. The lemmas show
  that each unsealing function recovers what its sealing counterpart protected and reports no
  manipulation.
\<close>

definition mf :: "bool \<Rightarrow> u8" where "mf b = (if b then 1 else 0)"

text \<open>\<open>assert\<close> stops the program unless the build defines \<open>NDEBUG\<close>.\<close>

definition c_assert :: "bool \<Rightarrow> bool \<Rightarrow> 'a \<Rightarrow> 'a option" where
  "c_assert ndebug cond x = (if ndebug \<or> cond then Some x else None)"

section \<open>Expansions\<close>

definition transform_80_to_120 :: "u8 list \<Rightarrow> u8 list" where
  "transform_80_to_120 b =
    [b ! 0 + b ! 9, b ! 0, b ! 9, b ! 1 + b ! 8, b ! 1, b ! 8, b ! 2 + b ! 7, b ! 2, b ! 7,
     b ! 3 + b ! 6, b ! 3, b ! 6, b ! 4 + b ! 5, b ! 4, b ! 5]"

definition transform_80_to_128 :: "u8 list \<Rightarrow> u8 list" where
  "transform_80_to_128 b =
    (let t = transform_80_to_120 b
     in (t ! 0 XOR t ! 3 XOR t ! 6 XOR t ! 9 XOR t ! 12) # t)"

definition transform_80_to_120_alt :: "u8 list \<Rightarrow> u8 list" where
  "transform_80_to_120_alt b =
    [b ! 0, b ! 1, b ! 0 XOR b ! 1, b ! 2, b ! 3, b ! 2 XOR b ! 3, b ! 4, b ! 5, b ! 4 XOR b ! 5,
     b ! 6, b ! 7, b ! 6 XOR b ! 7, b ! 8, b ! 9, b ! 8 XOR b ! 9]"

definition transform_80_to_128_alt :: "u8 list \<Rightarrow> u8 list" where
  "transform_80_to_128_alt b =
    (let t = transform_80_to_120_alt b
     in t @ [t ! 2 + t ! 5 + t ! 8 + t ! 11 + t ! 14])"

definition transform_88_to_120 :: "u8 list \<Rightarrow> u8 list" where
  "transform_88_to_120 b =
    [b ! 0, b ! 1, b ! 0 XOR b ! 1, b ! 2, b ! 3, b ! 4, b ! 2 XOR b ! 3 XOR b ! 4,
     b ! 5, b ! 6, b ! 7, b ! 5 XOR b ! 6 XOR b ! 7, b ! 8, b ! 9, b ! 10, b ! 8 XOR b ! 9 XOR b ! 10]"

definition transform_120_to_88 :: "u8 list \<Rightarrow> u8 list" where
  "transform_120_to_88 b =
    [b ! 0, b ! 1, b ! 3, b ! 4, b ! 5, b ! 7, b ! 8, b ! 9, b ! 11, b ! 12, b ! 13]"

definition transform_120_to_80_alt :: "u8 list \<Rightarrow> u8 list" where
  "transform_120_to_80_alt b =
    [b ! 0, b ! 1, b ! 3, b ! 4, b ! 6, b ! 7, b ! 9, b ! 10, b ! 12, b ! 13]"

section \<open>Key derivation\<close>

definition ta11_ta41 :: "u8 list \<Rightarrow> u8 list \<Rightarrow> u8 list" where
  "ta11_ta41 lpKeyK lpChallengeRs = HURDLE_enc_cbc (transform_80_to_128_alt lpChallengeRs) lpKeyK"

text \<open>The response and the derived cipher key.\<close>

definition ta12_ta22 :: "u8 list \<Rightarrow> u8 list \<Rightarrow> u8 list \<times> u8 list" where
  "ta12_ta22 lpKeyKs lpRand =
    (let c = HURDLE_enc_cbc (transform_80_to_128_alt lpRand) lpKeyKs
     in ([c ! 0 XOR c ! 3, c ! 6, c ! 9, c ! 12 XOR c ! 15],
         [c ! 1, c ! 2, c ! 4, c ! 5, c ! 7, c ! 8, c ! 10, c ! 11, c ! 13, c ! 14]))"

definition ta21 :: "u8 list \<Rightarrow> u8 list \<Rightarrow> u8 list" where
  "ta21 lpKeyK lpChallengeRs =
    (let abChallengeReversed = map (\<lambda>i. lpChallengeRs ! (9 - i)) [0..<10]
     in HURDLE_enc_cbc (transform_80_to_128_alt abChallengeReversed) lpKeyK)"

text \<open>The key bytes, alternately XORed with the two bytes of an identifier or version number.\<close>

definition adjust_key :: "nat \<Rightarrow> u8 list \<Rightarrow> u8 list \<Rightarrow> u8 list" where
  "adjust_key n key vn = map (\<lambda>i. key ! i XOR vn ! (i mod 2)) [0..<n]"

text \<open>The two \<open>memcpy\<close> calls of the ciphertext stealing.\<close>

definition steal_ciphertext :: "u8 list \<Rightarrow> u8 list" where
  "steal_ciphertext abSealed = take 7 abSealed @ slice abSealed 8 8"

definition ta31 :: "u8 list \<Rightarrow> u8 list \<Rightarrow> u8 list \<Rightarrow> u8 list" where
  "ta31 lpUnsealedCck lpCckId lpDck =
    (let abUnsealedPadded = transform_80_to_120_alt lpUnsealedCck @ [0];
         abAdjustedDck = adjust_key 10 lpDck lpCckId;
         abHurdleKey = transform_80_to_128 abAdjustedDck;
         abSealed = HURDLE_enc_cbc abUnsealedPadded abHurdleKey
     in steal_ciphertext abSealed)"

definition ta32 :: "u8 list \<Rightarrow> u8 list \<Rightarrow> u8 list \<Rightarrow> u8 list \<times> u8" where
  "ta32 lpSealedCck lpCckId lpDck =
    (let abAdjustedDck = adjust_key 10 lpDck lpCckId;
         abHurdleKey = transform_80_to_128 abAdjustedDck;
         p = HURDLE_dec_cts lpSealedCck abHurdleKey
     in (transform_120_to_80_alt p,
         mf (p ! 0 XOR p ! 1 \<noteq> p ! 2 \<or> p ! 3 XOR p ! 4 \<noteq> p ! 5 \<or> p ! 6 XOR p ! 7 \<noteq> p ! 8
             \<or> p ! 9 XOR p ! 10 \<noteq> p ! 11 \<or> p ! 12 XOR p ! 13 \<noteq> p ! 14)))"

definition ta51 :: "bool \<Rightarrow> u8 list \<Rightarrow> u8 list \<Rightarrow> u8 list \<Rightarrow> u8 \<Rightarrow> u8 list option" where
  "ta51 ndebug lpUnsealed lpVn lpKey lpKeyN =
    c_assert ndebug (lpKeyN AND 0xe0 = 0)
      (let abUnsealed = take 10 lpUnsealed @ [lpKeyN];
           abUnsealedPadded = transform_88_to_120 abUnsealed @ [0];
           abAdjustedKey = adjust_key 16 lpKey lpVn;
           abSealed = HURDLE_enc_cbc abUnsealedPadded abAdjustedKey
       in steal_ciphertext abSealed)"

text \<open>The unsealed key, the manipulation flag and the key number.\<close>

definition ta52 :: "u8 list \<Rightarrow> u8 list \<Rightarrow> u8 list \<Rightarrow> u8 list \<times> u8 \<times> u8" where
  "ta52 lpSealed lpKey lpVn =
    (let abAdjustedKey = adjust_key 16 lpKey lpVn;
         p = HURDLE_dec_cts lpSealed abAdjustedKey;
         abUnsealed = transform_120_to_88 p
     in (take 10 abUnsealed,
         mf (p ! 0 XOR p ! 1 \<noteq> p ! 2 \<or> p ! 3 XOR p ! 4 XOR p ! 5 \<noteq> p ! 6
             \<or> p ! 7 XOR p ! 8 XOR p ! 9 \<noteq> p ! 10 \<or> p ! 11 XOR p ! 12 XOR p ! 13 \<noteq> p ! 14
             \<or> abUnsealed ! 10 AND 0xe0 \<noteq> 0),
         abUnsealed ! 10))"

definition ta71 :: "u8 list \<Rightarrow> u8 list \<Rightarrow> u8 list" where
  "ta71 lpGck lpCck =
    (let abPlaintext = map (\<lambda>i. lpGck ! i XOR lpCck ! i) [0..<10];
         abPlaintextExpanded = transform_80_to_128_alt abPlaintext;
         abHurdleKey = [lpGck ! 0, lpGck ! 1, lpGck ! 2, lpGck ! 3, lpGck ! 4, lpGck ! 5,
           lpGck ! 6 XOR lpCck ! 0, lpGck ! 7 XOR lpCck ! 1, lpGck ! 8 XOR lpCck ! 2, lpGck ! 9 XOR lpCck ! 3,
           lpCck ! 4, lpCck ! 5, lpCck ! 6, lpCck ! 7, lpCck ! 8, lpCck ! 9];
         abCiphertext = HURDLE_enc_cbc abPlaintextExpanded abHurdleKey
     in slice abCiphertext 3 10)"

definition ta81 :: "u8 list \<Rightarrow> u8 list \<Rightarrow> u8 list \<Rightarrow> u8 list \<Rightarrow> u8 list" where
  "ta81 g lpGckVn n lpKey =
    (let abUnsealedPadded =
           [g ! 0, g ! 1, g ! 2, g ! 3, g ! 0 XOR g ! 1 XOR g ! 2 XOR g ! 3,
            g ! 4, g ! 5, g ! 6, g ! 7, g ! 4 XOR g ! 5 XOR g ! 6 XOR g ! 7,
            g ! 8, g ! 9, n ! 0, n ! 1, g ! 8 XOR g ! 9 XOR n ! 0 XOR n ! 1, 0];
         abAdjustedKey = adjust_key 16 lpKey lpGckVn;
         abSealed = HURDLE_enc_cbc abUnsealedPadded abAdjustedKey
     in steal_ciphertext abSealed)"

text \<open>The unsealed key, the manipulation flag and the two bytes of the key number.\<close>

definition ta82 :: "u8 list \<Rightarrow> u8 list \<Rightarrow> u8 list \<Rightarrow> u8 list \<times> u8 \<times> u8 list" where
  "ta82 lpSealedGck lpGckVn lpKey =
    (let abAdjustedKey = adjust_key 16 lpKey lpGckVn;
         p = HURDLE_dec_cts lpSealedGck abAdjustedKey
     in ([p ! 0, p ! 1, p ! 2, p ! 3, p ! 5, p ! 6, p ! 7, p ! 8, p ! 10, p ! 11],
         mf (p ! 14 \<noteq> p ! 10 XOR p ! 11 XOR p ! 12 XOR p ! 13
             \<or> p ! 9 \<noteq> p ! 5 XOR p ! 6 XOR p ! 7 XOR p ! 8
             \<or> p ! 4 \<noteq> p ! 0 XOR p ! 1 XOR p ! 2 XOR p ! 3),
         [p ! 12, p ! 13]))"

definition ta91 :: "u8 list \<Rightarrow> u8 list \<Rightarrow> u8 list \<Rightarrow> u8 list" where
  "ta91 lpUnsealedGsko lpGskoVn lpKey = ta81 lpUnsealedGsko lpGskoVn (drop 10 lpUnsealedGsko) lpKey"

definition ta92 :: "u8 list \<Rightarrow> u8 list \<Rightarrow> u8 list \<Rightarrow> u8 list \<times> u8" where
  "ta92 lpSealedGsko lpGskoVn lpKey =
    (let (lpUnsealedGsko, lpMf, lpGckN) = ta82 lpSealedGsko lpGskoVn lpKey
     in (lpUnsealedGsko @ lpGckN, lpMf))"

section \<open>TB functions\<close>

definition tb4 :: "u8 list \<Rightarrow> u8 list \<Rightarrow> u8 list" where
  "tb4 lpDck1 lpDck2 = map (\<lambda>i. lpDck1 ! i XOR lpDck2 ! i) [0..<10]"

text \<open>Big-endian loads and stores; the stores cut the word to its width.\<close>

definition be16 :: "u8 list \<Rightarrow> u32" where
  "be16 b = push_bit 8 (ucast (b ! 0)) OR ucast (b ! 1)"

definition be32 :: "u8 list \<Rightarrow> u32" where
  "be32 b = push_bit 24 (ucast (b ! 0)) OR push_bit 16 (ucast (b ! 1)) OR push_bit 8 (ucast (b ! 2)) OR ucast (b ! 3)"

definition be16_bytes :: "u32 \<Rightarrow> u8 list" where
  "be16_bytes w = [ucast (drop_bit 8 w), ucast w]"

definition be32_bytes :: "u32 \<Rightarrow> u8 list" where
  "be32_bytes w = [ucast (drop_bit 24 w), ucast (drop_bit 16 w), ucast (drop_bit 8 w), ucast w]"

text \<open>
  The mask [la:14 cn:12 cc:6 cn:12 cc:6 cn:12 cc:6 cn:12] in three words. The shifts of promoted
  operands past bit 31 are taken to wrap, as the compilers the project uses implement them.
\<close>

definition tb5_mask :: "u32 \<Rightarrow> u32 \<Rightarrow> u32 \<Rightarrow> u32 \<times> u32 \<times> u32" where
  "tb5_mask wCn wLa bCc =
    (push_bit 2 wLa OR drop_bit 10 wCn,
     push_bit 22 wCn OR push_bit 16 bCc OR push_bit 4 wCn OR drop_bit 2 bCc,
     push_bit 30 bCc OR push_bit 18 wCn OR push_bit 12 bCc OR wCn)"

definition tb5 :: "bool \<Rightarrow> u8 list \<Rightarrow> u8 list \<Rightarrow> u8 \<Rightarrow> u8 list \<Rightarrow> u8 list option" where
  "tb5 ndebug lpCn lpLa lpCc lpCk =
    (let wCn = be16 lpCn; wLa = be16 lpLa; bCc = ucast lpCc :: u32
     in c_assert ndebug (wCn AND NOT 0xFFF = 0 \<and> wLa AND NOT 0x3FFF = 0 \<and> bCc AND NOT 0x3F = 0)
          (let (dwMask0, dwMask1, dwMask2) = tb5_mask wCn wLa bCc
           in be16_bytes (be16 lpCk XOR dwMask0) @ be32_bytes (be32 (drop 2 lpCk) XOR dwMask1)
              @ be32_bytes (be32 (drop 6 lpCk) XOR dwMask2)))"

text \<open>The mask [cn:12 ssi:24 cn:12 ssi:24 lsb(ssi):8].\<close>

definition tb6_mask :: "u32 \<Rightarrow> u32 \<Rightarrow> u32 \<times> u32 \<times> u32" where
  "tb6_mask wCn dwSsi =
    (push_bit 4 wCn OR drop_bit 20 dwSsi, push_bit 12 dwSsi OR wCn, push_bit 8 dwSsi OR (dwSsi AND 0xff))"

definition tb6 :: "u8 list \<Rightarrow> u8 list \<Rightarrow> u8 list \<Rightarrow> u8 list" where
  "tb6 lpSck lpCn lpSsi =
    (let wCn = be16 lpCn;
         dwSsi = push_bit 8 (be16 lpSsi) OR ucast (lpSsi ! 2);
         (dwMask0, dwMask1, dwMask2) = tb6_mask wCn dwSsi
     in be16_bytes (be16 lpSck XOR dwMask0) @ be32_bytes (be32 (drop 2 lpSck) XOR dwMask1)
        @ be32_bytes (be32 (drop 6 lpSck) XOR dwMask2))"

definition tb7 :: "u8 list \<Rightarrow> u8 list" where
  "tb7 g =
    [g ! 0, g ! 1, g ! 2, g ! 0 XOR g ! 1 XOR g ! 2, g ! 3, g ! 4, g ! 5, g ! 3 XOR g ! 4 XOR g ! 5,
     g ! 6, g ! 7, g ! 8, g ! 6 XOR g ! 7 XOR g ! 8, g ! 9, g ! 10, g ! 11, g ! 9 XOR g ! 10 XOR g ! 11]"

section \<open>Unsealing undoes sealing\<close>

lemma unseal_steal_ciphertext:
  assumes "length p = 15"
  shows "HURDLE_dec_cts (steal_ciphertext (HURDLE_enc_cbc (p @ [0]) key)) key = p"
  using dec_cts_sealed [of "p @ [0]" key] assms by (simp add: steal_ciphertext_def nth_append)

lemma length_10_nth: "length b = 10 \<Longrightarrow> [b ! 0, b ! 1, b ! 2, b ! 3, b ! 4, b ! 5, b ! 6, b ! 7, b ! 8, b ! 9] = b"
  by (intro nth_equalityI) (auto simp: eval_nat_numeral less_Suc_eq)

lemma ta32_ta31:
  assumes "length cck = 10"
  shows "ta32 (ta31 cck cid dck) cid dck = (cck, 0)"
proof -
  let ?p = "transform_80_to_120_alt cck"
  have "length ?p = 15" by (simp add: transform_80_to_120_alt_def)
  then have "ta32 (ta31 cck cid dck) cid dck = (transform_120_to_80_alt ?p,
      mf (?p ! 0 XOR ?p ! 1 \<noteq> ?p ! 2 \<or> ?p ! 3 XOR ?p ! 4 \<noteq> ?p ! 5 \<or> ?p ! 6 XOR ?p ! 7 \<noteq> ?p ! 8
        \<or> ?p ! 9 XOR ?p ! 10 \<noteq> ?p ! 11 \<or> ?p ! 12 XOR ?p ! 13 \<noteq> ?p ! 14))"
    by (simp add: ta32_def ta31_def Let_def unseal_steal_ciphertext)
  also have "\<dots> = (cck, 0)"
    using length_10_nth [OF assms] by (simp add: transform_80_to_120_alt_def transform_120_to_80_alt_def mf_def)
  finally show ?thesis .
qed

lemma ta52_ta51:
  assumes "length k = 10" "n AND 0xe0 = 0" "ta51 ndebug k vn key n = Some sealed"
  shows "ta52 sealed key vn = (k, 0, n)"
proof -
  let ?p = "transform_88_to_120 (k @ [n])"
  have l: "length ?p = 15" by (simp add: transform_88_to_120_def)
  have s: "sealed = steal_ciphertext (HURDLE_enc_cbc (?p @ [0]) (adjust_key 16 key vn))"
    using assms by (simp add: ta51_def c_assert_def Let_def split: if_splits)
  have "ta52 sealed key vn = (take 10 (transform_120_to_88 ?p),
      mf (?p ! 0 XOR ?p ! 1 \<noteq> ?p ! 2 \<or> ?p ! 3 XOR ?p ! 4 XOR ?p ! 5 \<noteq> ?p ! 6
        \<or> ?p ! 7 XOR ?p ! 8 XOR ?p ! 9 \<noteq> ?p ! 10 \<or> ?p ! 11 XOR ?p ! 12 XOR ?p ! 13 \<noteq> ?p ! 14
        \<or> transform_120_to_88 ?p ! 10 AND 0xe0 \<noteq> 0), transform_120_to_88 ?p ! 10)"
    unfolding ta52_def Let_def s unseal_steal_ciphertext [OF l] ..
  also have "\<dots> = (k, 0, n)"
    using length_10_nth [OF assms(1)] assms(1,2)
    by (simp add: transform_88_to_120_def transform_120_to_88_def mf_def nth_append)
  finally show ?thesis .
qed

lemma ta82_ta81:
  assumes "length g = 10" "length n = 2"
  shows "ta82 (ta81 g vn n key) vn key = (g, 0, n)"
proof -
  let ?p = "[g ! 0, g ! 1, g ! 2, g ! 3, g ! 0 XOR g ! 1 XOR g ! 2 XOR g ! 3,
            g ! 4, g ! 5, g ! 6, g ! 7, g ! 4 XOR g ! 5 XOR g ! 6 XOR g ! 7,
            g ! 8, g ! 9, n ! 0, n ! 1, g ! 8 XOR g ! 9 XOR n ! 0 XOR n ! 1]"
  have l: "length ?p = 15" by simp
  have s: "ta81 g vn n key = steal_ciphertext (HURDLE_enc_cbc (?p @ [0]) (adjust_key 16 key vn))"
    by (simp add: ta81_def Let_def)
  have n2: "[n ! 0, n ! 1] = n" using assms(2) by (intro nth_equalityI) (auto simp: less_Suc_eq numeral_2_eq_2)
  show ?thesis
    unfolding ta82_def Let_def s unseal_steal_ciphertext [OF l]
    using length_10_nth [OF assms(1)] n2 by (simp add: mf_def)
qed

lemma ta92_ta91:
  assumes "length g = 12"
  shows "ta92 (ta91 g vn key) vn key = (g, 0)"
proof -
  have t: "ta81 g vn n key = ta81 (take 10 g) vn n key" for n by (simp add: ta81_def)
  show ?thesis
    unfolding ta92_def ta91_def t using assms by (subst ta82_ta81) simp_all
qed

section \<open>The encryption keys of TB5 and TB6 are the cipher key XOR a mask\<close>

lemma be_parts:
  fixes a b c d :: u8
  defines "v \<equiv> push_bit 8 (ucast a) OR ucast b :: u32"
    and "w \<equiv> push_bit 24 (ucast a) OR push_bit 16 (ucast b) OR push_bit 8 (ucast c) OR ucast d :: u32"
  shows "ucast (drop_bit 8 v) = a" "ucast v = b"
    "ucast (drop_bit 24 w) = a" "ucast (drop_bit 16 w) = b" "ucast (drop_bit 8 w) = c" "ucast w = d"
  unfolding v_def w_def
  by (rule bit_word_eqI,
      auto simp: bit_ucast_iff bit_drop_bit_eq bit_or_iff bit_push_bit_iff dest: bit_imp_le_length)+

lemma be16_xor: "be16_bytes (be16 b XOR m) = [b ! 0 XOR ucast (drop_bit 8 m), b ! 1 XOR ucast m]"
  unfolding be16_bytes_def be16_def drop_bit_xor unsigned_xor_eq be_parts ..

lemma be32_xor: "be32_bytes (be32 b XOR m) =
    [b ! 0 XOR ucast (drop_bit 24 m), b ! 1 XOR ucast (drop_bit 16 m), b ! 2 XOR ucast (drop_bit 8 m), b ! 3 XOR ucast m]"
  unfolding be32_bytes_def be32_def drop_bit_xor unsigned_xor_eq be_parts ..

definition mask_bytes :: "u32 \<times> u32 \<times> u32 \<Rightarrow> u8 list" where
  "mask_bytes m = be16_bytes (fst m) @ be32_bytes (fst (snd m)) @ be32_bytes (snd (snd m))"

lemma length_mask_bytes [simp]: "length (mask_bytes m) = 10"
  by (simp add: mask_bytes_def be16_bytes_def be32_bytes_def)

lemma ck_xor_mask:
  assumes "length ck = 10"
  shows "be16_bytes (be16 ck XOR m0) @ be32_bytes (be32 (drop 2 ck) XOR m1) @ be32_bytes (be32 (drop 6 ck) XOR m2)
    = map2 (XOR) ck (mask_bytes (m0, m1, m2))"
proof -
  have "map2 (XOR) ck (mask_bytes (m0, m1, m2))
      = map2 (XOR) [ck ! 0, ck ! 1, ck ! 2, ck ! 3, ck ! 4, ck ! 5, ck ! 6, ck ! 7, ck ! 8, ck ! 9]
          (mask_bytes (m0, m1, m2))"
    by (simp only: length_10_nth [OF assms])
  then show ?thesis
    using assms unfolding be16_xor be32_xor by (simp add: mask_bytes_def be16_bytes_def be32_bytes_def)
qed

lemma tb5_eq:
  "length ck = 10 \<Longrightarrow> tb5 ndebug cn la cc ck =
    c_assert ndebug (be16 cn AND NOT 0xFFF = 0 \<and> be16 la AND NOT 0x3FFF = 0 \<and> ucast cc AND NOT (0x3F :: u32) = 0)
      (map2 (XOR) ck (mask_bytes (tb5_mask (be16 cn) (be16 la) (ucast cc))))"
  by (simp add: tb5_def Let_def case_prod_beta ck_xor_mask)

lemma map2_xor_twice: "length a = length b \<Longrightarrow> map2 (XOR) (map2 (XOR) a b) b = a" for a b :: "u8 list"
  by (intro nth_equalityI) auto

section \<open>Properties\<close>

text \<open>
  C37. Unsealing returns what was sealed: for every cipher key, key identifier and derived key, the
  common cipher key that TA31 seals comes back from TA32 with no manipulation flag, the static or
  group cipher key and its number that TA51 seals come back from TA52, those of TA81 from TA82, and
  the GSKO of TA91 from TA92.
\<close>

theorem sealed_keys_unseal:
  assumes "length k = 10" "length n2 = 2" "length g = 12" "kn AND 0xe0 = 0"
    and "ta51 ndebug k vn key kn = Some sealed"
  shows "ta32 (ta31 k cid dck) cid dck = (k, 0)
    \<and> ta52 sealed key vn = (k, 0, kn)
    \<and> ta82 (ta81 k vn n2 key) vn key = (k, 0, n2)
    \<and> ta92 (ta91 g vn key) vn key = (g, 0)"
  using assms by (simp add: ta32_ta31 ta52_ta51 ta82_ta81 ta92_ta91)

theorem sealed_keys_unseal_witness:
  "ta32 (ta31 (replicate 10 1) [2, 3] (replicate 10 4)) [2, 3] (replicate 10 4) = (replicate 10 1, 0)
    \<and> ta52 (the (ta51 False (replicate 10 1) [8, 9] (replicate 16 6) 5)) (replicate 16 6) [8, 9] = (replicate 10 1, 0, 5)
    \<and> ta82 (ta81 (replicate 10 1) [8, 9] [0, 7] (replicate 16 6)) [8, 9] (replicate 16 6) = (replicate 10 1, 0, [0, 7])
    \<and> ta92 (ta91 (replicate 12 2) [8, 9] (replicate 16 6)) [8, 9] (replicate 16 6) = (replicate 12 2, 0)"
  by (rule sealed_keys_unseal) (simp_all add: ta51_def c_assert_def Let_def)

text \<open>
  TB5 XORs a mask onto the cipher key: when the carrier number, location area and colour code fit
  their fields, applying it to its own result restores the key, and when one does not, the assertion
  stops the program in a build without \<open>NDEBUG\<close>.
\<close>

theorem tb5_involution:
  assumes "length ck = 10" "tb5 ndebug cn la cc ck = Some eck"
  shows "tb5 ndebug cn la cc eck = Some ck
    \<and> (tb5 False cn la cc ck = None \<longleftrightarrow>
        be16 cn AND NOT 0xFFF \<noteq> 0 \<or> be16 la AND NOT 0x3FFF \<noteq> 0 \<or> ucast cc AND NOT (0x3F :: u32) \<noteq> 0)"
  using assms by (auto simp: tb5_eq c_assert_def map2_xor_twice split: if_splits)

theorem tb5_involution_witness:
  "tb5 False [0x0f, 0x10] [0x12, 0x34] 0x2a (the (tb5 False [0x0f, 0x10] [0x12, 0x34] 0x2a (replicate 10 7))) = Some (replicate 10 7)
    \<and> (tb5 False [0x0f, 0x10] [0x12, 0x34] 0x2a (replicate 10 7) = None \<longleftrightarrow>
        be16 [0x0f, 0x10] AND NOT 0xFFF \<noteq> 0 \<or> be16 [0x12, 0x34] AND NOT 0x3FFF \<noteq> 0 \<or> ucast (0x2a :: u8) AND NOT (0x3F :: u32) \<noteq> 0)"
proof (rule tb5_involution)
  have "be16 [0x0f, 0x10] AND NOT 0xFFF = 0 \<and> be16 [0x12, 0x34] AND NOT 0x3FFF = 0
      \<and> ucast (0x2a :: u8) AND NOT (0x3F :: u32) = 0"
    by code_simp
  then show "tb5 False [0x0f, 0x10] [0x12, 0x34] 0x2a (replicate 10 7)
      = Some (the (tb5 False [0x0f, 0x10] [0x12, 0x34] 0x2a (replicate 10 7)))"
    by (simp only: tb5_def Let_def c_assert_def) simp
qed simp

end
