(* ===== verification/Tea.thy ===== *)
theory Tea
  imports Prelude
begin

text \<open>
  The TEA1, TEA2 and TEA3 keystream generators, \<open>crypto/tea1.c\<close>, \<open>tea2.c\<close> and \<open>tea3.c\<close>. Each keeps a
  64-bit register seeded from the frame numbers and a key register, steps both a number of rounds
  before the first byte and 19 rounds before each later one, and returns the register's top byte. The
  interfaces \<open>keystream\<close> (longer requests extend shorter ones) and \<open>iv_register\<close> (what makes a step
  of the 64-bit register injective) are interpreted on all three.
\<close>

section \<open>Tables\<close>

definition g_awTea1LutA :: "u16 list" where
  "g_awTea1LutA = [
    0xDA86, 0x85E9, 0x29B5, 0x2BC6, 0x8C6B, 0x974C, 0xC671, 0x93E2]"

definition g_awTea1LutB :: "u16 list" where
  "g_awTea1LutB = [
    0x85D6, 0x791A, 0xE985, 0xC671, 0x2B9C, 0xEC92, 0xC62B, 0x9C47]"

definition g_abTea1Sbox :: "u8 list" where
  "g_abTea1Sbox = [
    0x9B, 0xF8, 0x3B, 0x72, 0x75, 0x62, 0x88, 0x22, 0xFF, 0xA6, 0x10, 0x4D, 0xA9, 0x97, 0xC3, 0x7B,
    0x9F, 0x78, 0xF3, 0xB6, 0xA0, 0xCC, 0x17, 0xAB, 0x4A, 0x41, 0x8D, 0x89, 0x25, 0x87, 0xD3, 0xE3,
    0xCE, 0x47, 0x35, 0x2C, 0x6D, 0xFC, 0xE7, 0x6A, 0xB8, 0xB7, 0xFA, 0x8B, 0xCD, 0x74, 0xEE, 0x11,
    0x23, 0xDE, 0x39, 0x6C, 0x1E, 0x8E, 0xED, 0x30, 0x73, 0xBE, 0xBB, 0x91, 0xCA, 0x69, 0x60, 0x49,
    0x5F, 0xB9, 0xC0, 0x06, 0x34, 0x2A, 0x63, 0x4B, 0x90, 0x28, 0xAC, 0x50, 0xE4, 0x6F, 0x36, 0xB0,
    0xA4, 0xD2, 0xD4, 0x96, 0xD5, 0xC9, 0x66, 0x45, 0xC5, 0x55, 0xDD, 0xB2, 0xA1, 0xA8, 0xBF, 0x37,
    0x32, 0x2B, 0x3E, 0xB5, 0x5C, 0x54, 0x67, 0x92, 0x56, 0x4C, 0x20, 0x6B, 0x42, 0x9D, 0xA7, 0x58,
    0x0E, 0x52, 0x68, 0x95, 0x09, 0x7F, 0x59, 0x9C, 0x65, 0xB1, 0x64, 0x5E, 0x4F, 0xBA, 0x81, 0x1C,
    0xC2, 0x0C, 0x02, 0xB4, 0x31, 0x5B, 0xFD, 0x1D, 0x0A, 0xC8, 0x19, 0x8F, 0x83, 0x8A, 0xCF, 0x33,
    0x9E, 0x3A, 0x80, 0xF2, 0xF9, 0x76, 0x26, 0x44, 0xF1, 0xE2, 0xC4, 0xF5, 0xD6, 0x51, 0x46, 0x07,
    0x14, 0x61, 0xF4, 0xC1, 0x24, 0x7A, 0x94, 0x27, 0x00, 0xFB, 0x04, 0xDF, 0x1F, 0x93, 0x71, 0x53,
    0xEA, 0xD8, 0xBD, 0x3D, 0xD0, 0x79, 0xE6, 0x7E, 0x4E, 0x9A, 0xD7, 0x98, 0x1B, 0x05, 0xAE, 0x03,
    0xC7, 0xBC, 0x86, 0xDB, 0x84, 0xE8, 0xD1, 0xF7, 0x16, 0x21, 0x6E, 0xE5, 0xCB, 0xA3, 0x1A, 0xEC,
    0xA2, 0x7D, 0x18, 0x85, 0x48, 0xDA, 0xAA, 0xF0, 0x08, 0xC6, 0x40, 0xAD, 0x57, 0x0D, 0x29, 0x82,
    0x7C, 0xE9, 0x8C, 0xFE, 0xDC, 0x0F, 0x2D, 0x3C, 0x2E, 0xF6, 0x15, 0x2F, 0xAF, 0xE1, 0xEB, 0x3F,
    0x99, 0x43, 0x13, 0x0B, 0xE0, 0xA5, 0x12, 0x77, 0x5D, 0xB3, 0x38, 0xD9, 0xEF, 0x5A, 0x01, 0x70]"

definition g_abTea2LutA :: "u16 list" where
  "g_abTea2LutA = [
    0x2579, 0x86E5, 0xB6C8, 0x31D6, 0x7394, 0x934D, 0x638E, 0xC68B]"

definition g_abTea2LutB :: "u16 list" where
  "g_abTea2LutB = [
    0xD68A, 0x97A1, 0xB2C9, 0x239E, 0x9C71, 0x36E8, 0xC9B2, 0x6CD1]"

definition g_abTea2Sbox :: "u8 list" where
  "g_abTea2Sbox = [
    0x62, 0xDA, 0xFD, 0xB6, 0xBB, 0x9C, 0xD8, 0x2A, 0xAB, 0x28, 0x6E, 0x42, 0xE7, 0x1C, 0x78, 0x9E,
    0xFC, 0xCA, 0x81, 0x8E, 0x32, 0x3B, 0xB4, 0xEF, 0x9F, 0x8B, 0xDB, 0x94, 0x0F, 0x9A, 0xA2, 0x96,
    0x1B, 0x7A, 0xFF, 0xAA, 0xC5, 0xD6, 0xBC, 0x24, 0xDF, 0x44, 0x03, 0x09, 0x0B, 0x57, 0x90, 0xBA,
    0x7F, 0x1F, 0xCF, 0x71, 0x98, 0x07, 0xF8, 0xA1, 0x60, 0xF7, 0x52, 0x8D, 0xE5, 0xD7, 0x69, 0x87,
    0x14, 0xED, 0x92, 0xEB, 0xB3, 0x2F, 0xE9, 0x3D, 0xC6, 0x50, 0x5A, 0xA7, 0x45, 0x18, 0x11, 0xC4,
    0xCE, 0xAC, 0xF4, 0x1D, 0x82, 0x54, 0x3E, 0x49, 0xD5, 0xEE, 0x84, 0x35, 0x41, 0x3A, 0xEC, 0x34,
    0x17, 0xE0, 0xC9, 0xFE, 0xE8, 0xCB, 0xE6, 0xAE, 0x68, 0xE2, 0x6B, 0x46, 0xC8, 0x47, 0xB2, 0xE3,
    0x97, 0x10, 0x0E, 0xB8, 0x76, 0x5B, 0xBE, 0xF5, 0xA6, 0x3C, 0x8F, 0xF6, 0xD1, 0xAF, 0xC0, 0x5E,
    0x7E, 0xCD, 0x7C, 0x51, 0x6D, 0x74, 0x2C, 0x16, 0xF2, 0xA5, 0x65, 0x64, 0x58, 0x72, 0x1E, 0xF1,
    0x04, 0xA8, 0x13, 0x53, 0x31, 0xB1, 0x20, 0xD3, 0x75, 0x5F, 0xA4, 0x56, 0x06, 0x8A, 0x8C, 0xD9,
    0x70, 0x12, 0x29, 0x61, 0x4F, 0x4C, 0x15, 0x05, 0xD2, 0xBD, 0x7D, 0x9B, 0x99, 0x83, 0x2B, 0x25,
    0xD0, 0x23, 0x48, 0x3F, 0xB0, 0x2E, 0x0D, 0x0C, 0xC7, 0xCC, 0xB7, 0x5C, 0xF0, 0xBF, 0x2D, 0x4E,
    0x40, 0x39, 0x9D, 0x21, 0x37, 0x77, 0x73, 0x4B, 0x4D, 0x5D, 0xFA, 0xDE, 0x00, 0x80, 0x85, 0x6F,
    0x22, 0x91, 0xDC, 0x26, 0x38, 0xE4, 0x4A, 0x79, 0x6A, 0x67, 0x93, 0xF3, 0xFB, 0x19, 0xA0, 0x7B,
    0xF9, 0x95, 0x89, 0x66, 0xB9, 0xD4, 0xC1, 0xDD, 0x63, 0x33, 0xE1, 0xC3, 0xB5, 0xA3, 0xC2, 0x27,
    0x0A, 0x88, 0xA9, 0x1A, 0x6C, 0x43, 0xEA, 0xAD, 0x30, 0x86, 0x36, 0x59, 0x08, 0x55, 0x01, 0x02]"

definition g_awTea3LutA :: "u16 list" where
  "g_awTea3LutA = [
    0x92A7, 0xA761, 0x974C, 0x6B8C, 0x29CE, 0x176C, 0x39D4, 0x7463]"

definition g_awTea3LutB :: "u16 list" where
  "g_awTea3LutB = [
    0x9D58, 0xA46D, 0x176C, 0x79C4, 0xC62B, 0xB2C9, 0x4D93, 0x2E93]"

definition g_abTea3Sbox :: "u8 list" where
  "g_abTea3Sbox = [
    0x7D, 0xBF, 0x7B, 0x92, 0xAE, 0x7C, 0xF2, 0x10, 0x5A, 0x0F, 0x61, 0x7A, 0x98, 0x76, 0x07, 0x64,
    0xEE, 0x89, 0xF7, 0xBA, 0xC2, 0x02, 0x0D, 0xE8, 0x56, 0x2E, 0xCA, 0x58, 0xC0, 0xFA, 0x2A, 0x01,
    0x57, 0x6E, 0x3F, 0x4B, 0x9C, 0xDA, 0xA6, 0x5B, 0x41, 0x26, 0x50, 0x24, 0x3E, 0xF8, 0x0A, 0x86,
    0xB6, 0x5C, 0x34, 0xE9, 0x06, 0x88, 0x1F, 0x39, 0x33, 0xDF, 0xD9, 0x78, 0xD8, 0xA8, 0x51, 0xB2,
    0x09, 0xCD, 0xA1, 0xDD, 0x8E, 0x62, 0x69, 0x4D, 0x23, 0x2B, 0xA9, 0xE1, 0x53, 0x94, 0x90, 0x1E,
    0xB4, 0x3B, 0xF9, 0x4E, 0x36, 0xFE, 0xB5, 0xD1, 0xA2, 0x8D, 0x66, 0xCE, 0xB7, 0xC4, 0x60, 0xED,
    0x96, 0x4F, 0x31, 0x79, 0x35, 0xEB, 0x8F, 0xBB, 0x54, 0x14, 0xCB, 0xDE, 0x6B, 0x2D, 0x19, 0x82,
    0x80, 0xAC, 0x17, 0x05, 0xFF, 0xA4, 0xCF, 0xC6, 0x6F, 0x65, 0xE6, 0x74, 0xC8, 0x93, 0xF4, 0x7E,
    0xF3, 0x43, 0x9F, 0x71, 0xAB, 0x9A, 0x0B, 0x87, 0x55, 0x70, 0x0C, 0xAD, 0xCC, 0xA5, 0x44, 0xE7,
    0x46, 0x45, 0x03, 0x30, 0x1A, 0xEA, 0x67, 0x99, 0xDB, 0x4A, 0x42, 0xD7, 0xAA, 0xE4, 0xC2, 0xD5,
    0xF0, 0x77, 0x20, 0xC3, 0x3C, 0x16, 0xB9, 0xE2, 0xEF, 0x6C, 0x3D, 0x1B, 0x22, 0x84, 0x2F, 0x81,
    0x1D, 0xB1, 0x3A, 0xE5, 0x73, 0x40, 0xD0, 0x18, 0xC7, 0x6A, 0x9E, 0x91, 0x48, 0x27, 0x95, 0x72,
    0x68, 0x0E, 0x00, 0xFC, 0xC5, 0x5F, 0xF1, 0xF5, 0x38, 0x11, 0x7F, 0xE3, 0x5E, 0x13, 0xAF, 0x37,
    0xE0, 0x8A, 0x49, 0x1C, 0x21, 0x47, 0xD4, 0xDC, 0xB0, 0xEC, 0x83, 0x28, 0xB8, 0xF6, 0xA7, 0xC9,
    0x63, 0x59, 0xBD, 0x32, 0x85, 0x08, 0xBE, 0xD3, 0xFD, 0x4C, 0x2C, 0xFB, 0xA0, 0xC1, 0x9D, 0xB3,
    0x52, 0x8C, 0x5D, 0x29, 0x6D, 0x04, 0xBC, 0x25, 0x15, 0x8B, 0x12, 0x9B, 0xD6, 0x75, 0xA3, 0x97]"

section \<open>The shared loop, and the interfaces\<close>

text \<open>Rounds before a byte, the byte, and 19 rounds before each of the following ones.\<close>

fun tea_loop :: "('s \<Rightarrow> 's) \<Rightarrow> ('s \<Rightarrow> u8) \<Rightarrow> nat \<Rightarrow> 's \<Rightarrow> nat \<Rightarrow> u8 list" where
  "tea_loop round out skip st 0 = []"
| "tea_loop round out skip st (Suc n) =
    (let st = (round ^^ skip) st in out st # tea_loop round out 19 st n)"

lemma length_tea_loop [len_simps, simp]: "length (tea_loop round out skip st n) = n"
  by (induction n arbitrary: skip st) (auto simp: Let_def)

lemma take_tea_loop: "take m (tea_loop round out skip st (m + n)) = tea_loop round out skip st m"
  by (induction m arbitrary: skip st) (auto simp: Let_def)

text \<open>A keystream: as many bytes as asked for, and a longer one extends a shorter one.\<close>

locale keystream =
  fixes ks :: "nat \<Rightarrow> u8 list"
  assumes length_ks: "length (ks n) = n"
    and take_ks: "take m (ks (m + n)) = ks m"
begin

lemma nth_ks: "i < m \<Longrightarrow> m \<le> n \<Longrightarrow> ks n ! i = ks m ! i"
  using take_ks [of m "n - m"] by (metis le_add_diff_inverse nth_take)

text \<open>The bits of the stream, the highest bit of a byte first, as the decryption functions use them.\<close>

definition ks_bit :: "nat \<Rightarrow> nat \<Rightarrow> u8" where
  "ks_bit n i = drop_bit (7 - i mod 8) (ks n ! (i div 8)) AND 1"

lemma ks_bit_extend:
  assumes "i < 8 * m" "m \<le> n"
  shows "ks_bit n i = ks_bit m i"
proof -
  have "i div 8 < m" using assms(1) by linarith
  then show ?thesis using nth_ks [OF _ assms(2)] by (simp add: ks_bit_def)
qed

end

text \<open>
  A step of the 64-bit register: shift up by a byte, XOR a mixing byte at bit \<open>p\<close>, and put in a new
  low byte that is the old top byte XOR a function of the other bits. The mixing byte must not
  depend on the byte it is added to.
\<close>

definition iv_step :: "nat \<Rightarrow> (u64 \<Rightarrow> u8) \<Rightarrow> (u64 \<Rightarrow> u8) \<Rightarrow> u8 \<Rightarrow> u64 \<Rightarrow> u64" where
  "iv_step p mix f b iv =
    ((push_bit 8 iv XOR push_bit p (ucast (mix iv))) OR ucast (ucast (drop_bit 56 iv) XOR f iv XOR b :: u8))"

locale iv_register =
  fixes p :: nat and mix f :: "u64 \<Rightarrow> u8"
  assumes p_range: "16 \<le> p" "p \<le> 56"
    and mix_dep: "(\<And>n. n < 56 \<Longrightarrow> n < p - 8 \<or> p \<le> n \<Longrightarrow> bit x n = bit y n) \<Longrightarrow> mix x = mix y"
    and f_dep: "(\<And>n. n < 56 \<Longrightarrow> bit x n = bit y n) \<Longrightarrow> f x = f y"
begin

lemma bit_step_high:
  assumes "n < 56"
  shows "bit (iv_step p mix f b iv) (n + 8) \<longleftrightarrow> bit iv n \<noteq> (p \<le> n + 8 \<and> n < p \<and> bit (mix iv) (n + 8 - p))"
  using assms p_range
  by (auto simp: iv_step_def bit_or_iff bit_xor_iff bit_push_bit_iff bit_ucast_iff dest: bit_imp_le_length)

lemma bit_step_low:
  assumes "n < 8"
  shows "bit (iv_step p mix f b iv) n \<longleftrightarrow> bit iv (n + 56) \<noteq> bit (f iv XOR b) n"
  using assms p_range
  by (auto simp: iv_step_def bit_or_iff bit_xor_iff bit_push_bit_iff bit_ucast_iff bit_drop_bit_eq add.commute)

lemma iv_step_inj:
  assumes eq: "iv_step p mix f b x = iv_step p mix f b y"
  shows "x = y"
proof -
  have out: "bit x n = bit y n" if "n < 56" "n < p - 8 \<or> p \<le> n" for n
    using bit_step_high [OF that(1), of b x] bit_step_high [OF that(1), of b y] eq that p_range by auto
  then have m: "mix x = mix y" by (rule mix_dep)
  have low: "bit x n = bit y n" if "n < 56" for n
    using bit_step_high [OF that, of b x] bit_step_high [OF that, of b y] eq m by auto
  then have f: "f x = f y" by (rule f_dep)
  have top: "bit x (n + 56) = bit y (n + 56)" if "n < 8" for n
    using bit_step_low [OF that, of b x] bit_step_low [OF that, of b y] eq f by auto
  show ?thesis
  proof (rule bit_word_eqI)
    fix n assume "n < LENGTH(64)"
    then show "bit x n = bit y n" using low [of n] top [of "n - 56"] by (cases "n < 56") auto
  qed
qed

end

section \<open>TEA1\<close>

text \<open>The expansion of the frame numbers differs between the ciphers by a constant only.\<close>

definition expand_iv :: "u32 \<Rightarrow> u32 \<Rightarrow> u64" where
  "expand_iv c dwShortIv =
    (let dwXorred = dwShortIv XOR c;
         dwXorred = push_bit 8 dwXorred OR drop_bit 24 dwXorred;
         qwIv = push_bit 32 (ucast dwShortIv) OR ucast dwXorred
     in drop_bit 8 qwIv OR push_bit 56 qwIv)"

definition tea1_expand_iv :: "u32 \<Rightarrow> u64" where
  "tea1_expand_iv dwShortIv = expand_iv 0x96724FA1 dwShortIv"

text \<open>
  Eight lookups, the two state bytes rotated right by one after each; \<open>dist\<close> is the four-bit index
  that the taps of a cipher select.
\<close>

definition rotr1 :: "u8 \<Rightarrow> u8" where
  "rotr1 b = drop_bit 1 b OR push_bit 7 b"

definition word_to_newbyte :: "(u8 \<Rightarrow> u8 \<Rightarrow> u8) \<Rightarrow> u16 \<Rightarrow> u16 list \<Rightarrow> u8" where
  "word_to_newbyte dist wSt awLut =
    (let bSt0 = ucast (wSt AND 0xff); bSt1 = ucast (drop_bit 8 wSt AND 0xff)
     in fst (foldl (\<lambda>(bOut, bSt0, bSt1) i.
          let bDist = dist bSt0 bSt1;
              bOut = (if awLut ! i AND push_bit (unat bDist) 1 \<noteq> 0 then bOut OR push_bit i 1 else bOut)
          in (bOut, rotr1 bSt0, rotr1 bSt1)) (0, bSt0, bSt1) [0..<8]))"

definition tea1_state_word_to_newbyte :: "u16 \<Rightarrow> u16 list \<Rightarrow> u8" where
  "tea1_state_word_to_newbyte = word_to_newbyte (\<lambda>bSt0 bSt1.
    (drop_bit 7 bSt0 AND 1) OR (push_bit 1 bSt0 AND 2) OR (push_bit 1 bSt1 AND 12))"

definition tea1_reorder_state_byte :: "u8 \<Rightarrow> u8" where
  "tea1_reorder_state_byte b =
    (push_bit 6 b AND 0x40) OR (push_bit 1 b AND 0x20) OR (push_bit 2 b AND 0x08) OR (drop_bit 3 b AND 0x14)
    OR (drop_bit 2 b AND 0x01) OR (drop_bit 5 b AND 0x02) OR (push_bit 4 b AND 0x80)"

text \<open>The register is an \<open>int32_t\<close> whose shifts are taken to wrap; only its bits matter.\<close>

definition tea1_init_key_register :: "u8 list \<Rightarrow> u32" where
  "tea1_init_key_register lpKey =
    foldl (\<lambda>dwResult i. push_bit 8 dwResult OR
        ucast (g_abTea1Sbox ! unat ((drop_bit 24 dwResult XOR ucast (lpKey ! i) XOR dwResult) AND 0xff)))
      0 [0..<10]"

definition byte_at :: "nat \<Rightarrow> u64 \<Rightarrow> u8" where "byte_at k iv = ucast (drop_bit k iv AND 0xff)"
definition word_at :: "nat \<Rightarrow> u64 \<Rightarrow> u16" where "word_at k iv = ucast (drop_bit k iv AND 0xffff)"

definition tea1_mix :: "u64 \<Rightarrow> u8" where
  "tea1_mix iv = tea1_state_word_to_newbyte (word_at 8 iv) g_awTea1LutA"

definition tea1_new :: "u64 \<Rightarrow> u8" where
  "tea1_new iv = tea1_state_word_to_newbyte (word_at 40 iv) g_awTea1LutB XOR tea1_reorder_state_byte (byte_at 32 iv)"

definition tea1_round :: "u64 \<times> u32 \<Rightarrow> u64 \<times> u32" where
  "tea1_round st =
    (let (qwIvReg, dwKeyReg) = st;
         bSboxOut = g_abTea1Sbox ! unat ((drop_bit 24 dwKeyReg XOR dwKeyReg) AND 0xff);
         dwKeyReg = push_bit 8 dwKeyReg OR ucast bSboxOut
     in (iv_step 32 tea1_mix tea1_new bSboxOut qwIvReg, dwKeyReg))"

definition tea1_inner :: "u64 \<Rightarrow> u32 \<Rightarrow> nat \<Rightarrow> u8 list" where
  "tea1_inner qwIvReg dwKeyReg dwNumKsBytes =
    tea_loop tea1_round (\<lambda>(iv, _). ucast (drop_bit 56 iv)) 54 (qwIvReg, dwKeyReg) dwNumKsBytes"

definition tea1 :: "u32 \<Rightarrow> u8 list \<Rightarrow> nat \<Rightarrow> u8 list" where
  "tea1 dwFrameNumbers lpKey dwNumKsBytes =
    tea1_inner (tea1_expand_iv dwFrameNumbers) (tea1_init_key_register lpKey) dwNumKsBytes"

section \<open>TEA2\<close>

definition tea2_expand_iv :: "u32 \<Rightarrow> u64" where
  "tea2_expand_iv dwFrameNumbers = expand_iv 0x5A6E3278 dwFrameNumbers"

definition tea2_state_word_to_newbyte :: "u16 \<Rightarrow> u16 list \<Rightarrow> u8" where
  "tea2_state_word_to_newbyte = word_to_newbyte (\<lambda>bSt0 bSt1.
    (drop_bit 1 bSt0 AND 0x1) OR (drop_bit 1 bSt0 AND 0x2) OR (drop_bit 5 bSt1 AND 0x4) OR (push_bit 3 bSt1 AND 0x8))"

definition tea2_reorder_state_byte :: "u8 \<Rightarrow> u8" where
  "tea2_reorder_state_byte b =
    (push_bit 6 b AND 0x40) OR (push_bit 3 b AND 0x10) OR (drop_bit 2 b AND 0x01) OR (push_bit 2 b AND 0x20)
    OR (push_bit 3 b AND 0x80) OR (drop_bit 4 b AND 0x02) OR (drop_bit 3 b AND 0x08) OR (drop_bit 5 b AND 0x04)"

definition tea2_mix :: "u64 \<Rightarrow> u8" where
  "tea2_mix iv = tea2_state_word_to_newbyte (word_at 24 iv) g_abTea2LutB"

definition tea2_new :: "u64 \<Rightarrow> u8" where
  "tea2_new iv = byte_at 16 iv XOR tea2_reorder_state_byte (byte_at 40 iv)
    XOR tea2_state_word_to_newbyte (word_at 0 iv) g_abTea2LutA"

definition tea2_round :: "u64 \<times> u8 list \<Rightarrow> u64 \<times> u8 list" where
  "tea2_round st =
    (let (qwIvReg, abKeyReg) = st;
         bSboxOut = g_abTea2Sbox ! unat (abKeyReg ! 0 XOR abKeyReg ! 7);
         abKeyReg = take 9 (drop 1 abKeyReg) @ [bSboxOut]
     in (iv_step 24 tea2_mix tea2_new bSboxOut qwIvReg, abKeyReg))"

definition tea2 :: "u32 \<Rightarrow> u8 list \<Rightarrow> nat \<Rightarrow> u8 list" where
  "tea2 dwFrameNumbers lpKey dwNumKsBytes =
    tea_loop tea2_round (\<lambda>(iv, _). ucast (drop_bit 56 iv)) 51
      (tea2_expand_iv dwFrameNumbers, take 10 lpKey) dwNumKsBytes"

section \<open>TEA3\<close>

definition tea3_compute_iv :: "u32 \<Rightarrow> u64" where
  "tea3_compute_iv dwFrameNumbers = expand_iv 0xC43A7D51 dwFrameNumbers"

definition tea3_state_word_to_newbyte :: "u16 \<Rightarrow> u16 list \<Rightarrow> u8" where
  "tea3_state_word_to_newbyte = word_to_newbyte (\<lambda>bSt0 bSt1.
    (drop_bit 5 bSt0 AND 3) OR (drop_bit 3 bSt1 AND 12))"

definition tea3_reorder_state_byte :: "u8 \<Rightarrow> u8" where
  "tea3_reorder_state_byte b =
    (push_bit 6 b AND 0x40) OR (push_bit 1 b AND 0x20) OR (push_bit 2 b AND 0x98) OR (drop_bit 4 b AND 0x04)
    OR (drop_bit 3 b AND 0x01) OR (drop_bit 6 b AND 0x02)"

definition tea3_mix :: "u64 \<Rightarrow> u8" where
  "tea3_mix iv = tea3_state_word_to_newbyte (word_at 40 iv) g_awTea3LutB"

definition tea3_new :: "u64 \<Rightarrow> u8" where
  "tea3_new iv = tea3_reorder_state_byte (byte_at 32 iv) XOR tea3_state_word_to_newbyte (word_at 8 iv) g_awTea3LutA"

definition tea3_round :: "u64 \<times> u8 list \<Rightarrow> u64 \<times> u8 list" where
  "tea3_round st =
    (let (qwIvReg, abKeyReg) = st;
         bSboxOut = g_abTea3Sbox ! unat (abKeyReg ! 7 XOR abKeyReg ! 2) XOR abKeyReg ! 0;
         abKeyReg = take 9 (drop 1 abKeyReg) @ [bSboxOut]
     in (iv_step 40 tea3_mix tea3_new bSboxOut qwIvReg, abKeyReg))"

definition tea3 :: "u32 \<Rightarrow> u8 list \<Rightarrow> nat \<Rightarrow> u8 list" where
  "tea3 dwFrameNumbers lpKey dwNumKsBytes =
    tea_loop tea3_round (\<lambda>(iv, _). ucast (drop_bit 56 iv)) 51
      (tea3_compute_iv dwFrameNumbers, take 10 lpKey) dwNumKsBytes"

section \<open>The interfaces hold for the three generators\<close>

interpretation tea1: keystream "tea1 fn key" for fn key
  by unfold_locales (simp_all add: tea1_def tea1_inner_def take_tea_loop)

interpretation tea2: keystream "tea2 fn key" for fn key
  by unfold_locales (simp_all add: tea2_def take_tea_loop)

interpretation tea3: keystream "tea3 fn key" for fn key
  by unfold_locales (simp_all add: tea3_def take_tea_loop)

lemma low_masks: "0xff = (mask 8 :: u64)" "0xffff = (mask 16 :: u64)"
  by (simp_all add: mask_eq_exp_minus_1)

lemma byte_at_cong: "(\<And>n. k \<le> n \<Longrightarrow> n < k + 8 \<Longrightarrow> bit x n = bit y n) \<Longrightarrow> byte_at k x = byte_at k y"
  unfolding byte_at_def low_masks
  by (rule bit_word_eqI) (auto simp: bit_ucast_iff bit_and_iff bit_mask_iff bit_drop_bit_eq)

lemma word_at_cong: "(\<And>n. k \<le> n \<Longrightarrow> n < k + 16 \<Longrightarrow> bit x n = bit y n) \<Longrightarrow> word_at k x = word_at k y"
  unfolding word_at_def low_masks
  by (rule bit_word_eqI) (auto simp: bit_ucast_iff bit_and_iff bit_mask_iff bit_drop_bit_eq)

interpretation tea1: iv_register 32 tea1_mix tea1_new
proof
  fix x y :: u64
  assume "\<And>n. n < 56 \<Longrightarrow> n < 32 - 8 \<or> 32 \<le> n \<Longrightarrow> bit x n = bit y n"
  then have "word_at 8 x = word_at 8 y" by (intro word_at_cong) auto
  then show "tea1_mix x = tea1_mix y" by (simp add: tea1_mix_def)
next
  fix x y :: u64
  assume "\<And>n. n < 56 \<Longrightarrow> bit x n = bit y n"
  then have "word_at 40 x = word_at 40 y" "byte_at 32 x = byte_at 32 y"
    by (intro word_at_cong byte_at_cong; simp)+
  then show "tea1_new x = tea1_new y" by (simp add: tea1_new_def)
qed simp_all

interpretation tea2: iv_register 24 tea2_mix tea2_new
proof
  fix x y :: u64
  assume "\<And>n. n < 56 \<Longrightarrow> n < 24 - 8 \<or> 24 \<le> n \<Longrightarrow> bit x n = bit y n"
  then have "word_at 24 x = word_at 24 y" by (intro word_at_cong) auto
  then show "tea2_mix x = tea2_mix y" by (simp add: tea2_mix_def)
next
  fix x y :: u64
  assume "\<And>n. n < 56 \<Longrightarrow> bit x n = bit y n"
  then have "word_at 0 x = word_at 0 y" "byte_at 16 x = byte_at 16 y" "byte_at 40 x = byte_at 40 y"
    by (intro word_at_cong byte_at_cong; simp)+
  then show "tea2_new x = tea2_new y" by (simp add: tea2_new_def)
qed simp_all

interpretation tea3: iv_register 40 tea3_mix tea3_new
proof
  fix x y :: u64
  assume "\<And>n. n < 56 \<Longrightarrow> n < 40 - 8 \<or> 40 \<le> n \<Longrightarrow> bit x n = bit y n"
  then have "word_at 40 x = word_at 40 y" by (intro word_at_cong) auto
  then show "tea3_mix x = tea3_mix y" by (simp add: tea3_mix_def)
next
  fix x y :: u64
  assume "\<And>n. n < 56 \<Longrightarrow> bit x n = bit y n"
  then have "word_at 8 x = word_at 8 y" "byte_at 32 x = byte_at 32 y"
    by (intro word_at_cong byte_at_cong; simp)+
  then show "tea3_new x = tea3_new y" by (simp add: tea3_new_def)
qed simp_all


section \<open>The S-boxes\<close>

lemma sbox_onto:
  fixes S :: "u8 list"
  assumes "distinct (map unat S)" "length S = 256"
  shows "set S = UNIV"
proof -
  have "distinct S" using assms(1) by (simp add: distinct_map)
  then have "card (set S) = CARD(8 word)" using assms(2) by (simp add: distinct_card card_word)
  then show ?thesis by (intro card_subset_eq) auto
qed

lemma sbox_inj:
  fixes S :: "u8 list" and a b :: u8
  assumes "distinct (map unat S)" "length S = 256" "S ! unat a = S ! unat b"
  shows "a = b"
proof -
  have "distinct S" using assms(1) by (simp add: distinct_map)
  then have "unat a = unat b"
    using assms(2,3) unat_u8_less [of a] unat_u8_less [of b] by (simp add: nth_eq_iff_index_eq)
  then show ?thesis by (simp add: word_unat_eq_iff)
qed

lemma tea1_sbox_distinct: "distinct (map unat g_abTea1Sbox)" "length g_abTea1Sbox = 256"
  by (simp_all add: g_abTea1Sbox_def)

lemma tea2_sbox_distinct: "distinct (map unat g_abTea2Sbox)" "length g_abTea2Sbox = 256"
  by (simp_all add: g_abTea2Sbox_def)

section \<open>No round loses state\<close>

lemma bit_ff: "bit (0xff :: u32) n \<longleftrightarrow> n < 8" "bit (0xff :: u64) n \<longleftrightarrow> n < 8"
proof -
  have "0xff = (mask 8 :: u32)" "0xff = (mask 8 :: u64)" by (simp_all add: mask_eq_exp_minus_1)
  then show "bit (0xff :: u32) n \<longleftrightarrow> n < 8" "bit (0xff :: u64) n \<longleftrightarrow> n < 8" by (simp_all only: bit_mask_iff) auto
qed

lemma index_byte: "unat (w AND 0xff) = unat (ucast w :: u8)" for w :: u32
proof -
  have "w AND 0xff = ucast (ucast w :: u8)"
    by (rule bit_word_eqI) (simp only: bit_and_iff bit_ucast_iff bit_ff, auto)
  then show ?thesis by (metis unat_widen_c(2))
qed

text \<open>The key register of TEA1 takes the S-box output in at its low end.\<close>

lemma bit_key_shift:
  "bit (push_bit 8 r OR ucast b :: u32) n \<longleftrightarrow>
    (if n < 8 then bit b n else n < 32 \<and> bit r (n - 8))" for b :: u8 and r :: u32
  by (auto simp: bit_or_iff bit_push_bit_iff bit_ucast_iff dest: bit_imp_le_length)

lemma key_shift_inj:
  fixes r s :: u32 and b c :: u8
  assumes "push_bit 8 r OR ucast b = push_bit 8 s OR ucast c"
  shows "b = c" "n < 24 \<Longrightarrow> bit r n = bit s n"
proof -
  have *: "bit (push_bit 8 r OR ucast b) m = bit (push_bit 8 s OR ucast c) m" for m using assms by simp
  show "b = c"
  proof (rule bit_word_eqI)
    fix n assume "n < LENGTH(8)"
    then show "bit b n = bit c n" using * [of n] by (simp add: bit_key_shift)
  qed
  show "n < 24 \<Longrightarrow> bit r n = bit s n" using * [of "n + 8"] by (simp add: bit_key_shift)
qed

lemma tea1_key_inj:
  assumes eq: "push_bit 8 r OR ucast (g_abTea1Sbox ! unat ((drop_bit 24 r XOR r) AND 0xff)) =
    push_bit 8 s OR ucast (g_abTea1Sbox ! unat ((drop_bit 24 s XOR s) AND 0xff))"
  shows "r = (s :: u32)"
proof (rule bit_word_eqI)
  have low: "bit r n = bit s n" if "n < 24" for n using key_shift_inj(2) [OF eq that] .
  have "(ucast (drop_bit 24 r XOR r) :: u8) = ucast (drop_bit 24 s XOR s)"
    using key_shift_inj(1) [OF eq] unfolding index_byte by (rule sbox_inj [OF tea1_sbox_distinct])
  then have *: "bit (ucast (drop_bit 24 r XOR r) :: u8) n = bit (ucast (drop_bit 24 s XOR s) :: u8) n" for n
    by simp
  fix n assume "n < LENGTH(32)"
  show "bit r n = bit s n"
  proof (cases "n < 24")
    case False
    with \<open>n < LENGTH(32)\<close> have "bit r n \<noteq> bit r (n - 24) \<longleftrightarrow> bit s n \<noteq> bit s (n - 24)"
      using * [of "n - 24"] by (simp add: bit_ucast_iff bit_xor_iff bit_drop_bit_eq) linarith
    with low [of "n - 24"] \<open>n < LENGTH(32)\<close> show ?thesis by auto
  qed (rule low)
qed

text \<open>The byte-array registers: the nine kept bytes, and the new one.\<close>

lemma key_bytes_shift:
  assumes "take 9 (drop 1 k) @ [x] = take 9 (drop 1 l) @ [y]" "length k = 10" "length l = 10"
  shows "x = y" "0 < i \<Longrightarrow> i < 10 \<Longrightarrow> k ! i = l ! i"
proof -
  show "x = y" using assms by simp
  have "drop 1 k = drop 1 l" using assms by simp
  then have "drop 1 k ! (i - 1) = drop 1 l ! (i - 1)" by simp
  then show "0 < i \<Longrightarrow> i < 10 \<Longrightarrow> k ! i = l ! i" using assms(2,3) by simp
qed

lemma key_bytes_eq:
  assumes "\<And>i. 0 < i \<Longrightarrow> i < 10 \<Longrightarrow> k ! i = l ! i" "k ! 0 = l ! 0" "length k = 10" "length l = 10"
  shows "k = l"
  using assms by (intro nth_equalityI) (auto, metis gr0I)

text \<open>Rounds that step the key on its own, and the other register by an injection, keep registers apart.\<close>

lemma rounds_inj:
  fixes round :: "'x \<times> 'k \<Rightarrow> 'x \<times> 'k"
  assumes key: "\<And>s t. snd s = snd t \<Longrightarrow> snd (round s) = snd (round t)"
    and inj: "\<And>s t. snd s = snd t \<Longrightarrow> fst (round s) = fst (round t) \<Longrightarrow> fst s = fst t"
    and "fst ((round ^^ n) (x, k)) = fst ((round ^^ n) (y, k))"
  shows "x = y"
proof -
  have "fst ((round ^^ n) s) = fst ((round ^^ n) t) \<Longrightarrow> snd s = snd t \<Longrightarrow> fst s = fst t" for s t
  proof (induction n arbitrary: s t)
    case (Suc n)
    have "fst ((round ^^ n) (round s)) = fst ((round ^^ n) (round t))"
      using Suc.prems(1) by (simp only: funpow_Suc_right o_apply)
    then have "fst (round s) = fst (round t)" using Suc.IH key [OF Suc.prems(2)] by blast
    then show ?case by (rule inj [OF Suc.prems(2)])
  qed simp
  from this [OF assms(3)] show ?thesis by simp
qed

lemma ucast_expand_iv: "ucast (drop_bit 24 (expand_iv c x)) = x"
  by (rule bit_word_eqI)
    (auto simp: expand_iv_def Let_def bit_or_iff bit_push_bit_iff bit_ucast_iff bit_drop_bit_eq
      dest: bit_imp_le_length)

lemma expand_iv_eq_iff: "expand_iv c x = expand_iv c y \<longleftrightarrow> x = y"
  by (metis ucast_expand_iv)

lemma tea1_round_eq:
  "tea1_round (x, k) =
    (iv_step 32 tea1_mix tea1_new (g_abTea1Sbox ! unat ((drop_bit 24 k XOR k) AND 0xff)) x,
     push_bit 8 k OR ucast (g_abTea1Sbox ! unat ((drop_bit 24 k XOR k) AND 0xff)))"
  by (simp add: tea1_round_def Let_def)

lemma tea2_round_eq:
  "tea2_round (x, k) =
    (iv_step 24 tea2_mix tea2_new (g_abTea2Sbox ! unat (k ! 0 XOR k ! 7)) x,
     take 9 (drop 1 k) @ [g_abTea2Sbox ! unat (k ! 0 XOR k ! 7)])"
  by (simp add: tea2_round_def Let_def)

lemma tea3_round_eq:
  "tea3_round (x, k) =
    (iv_step 40 tea3_mix tea3_new (g_abTea3Sbox ! unat (k ! 7 XOR k ! 2) XOR k ! 0) x,
     take 9 (drop 1 k) @ [g_abTea3Sbox ! unat (k ! 7 XOR k ! 2) XOR k ! 0])"
  by (simp add: tea3_round_def Let_def)

lemma tea1_round_key: "snd s = snd t \<Longrightarrow> snd (tea1_round s) = snd (tea1_round t)"
  by (cases s; cases t) (simp add: tea1_round_eq)

lemma tea1_round_fst: "snd s = snd t \<Longrightarrow> fst (tea1_round s) = fst (tea1_round t) \<Longrightarrow> fst s = fst t"
  by (cases s; cases t) (auto simp: tea1_round_eq dest: tea1.iv_step_inj)

lemma tea2_round_key: "snd s = snd t \<Longrightarrow> snd (tea2_round s) = snd (tea2_round t)"
  by (cases s; cases t) (simp add: tea2_round_eq)

lemma tea2_round_fst: "snd s = snd t \<Longrightarrow> fst (tea2_round s) = fst (tea2_round t) \<Longrightarrow> fst s = fst t"
  by (cases s; cases t) (auto simp: tea2_round_eq dest: tea2.iv_step_inj)

lemma tea3_round_key: "snd s = snd t \<Longrightarrow> snd (tea3_round s) = snd (tea3_round t)"
  by (cases s; cases t) (simp add: tea3_round_eq)

lemma tea3_round_fst: "snd s = snd t \<Longrightarrow> fst (tea3_round s) = fst (tea3_round t) \<Longrightarrow> fst s = fst t"
  by (cases s; cases t) (auto simp: tea3_round_eq dest: tea3.iv_step_inj)

lemma tea1_round_inj: "inj tea1_round"
proof (rule injI)
  fix s t assume eq: "tea1_round s = tea1_round t"
  obtain x k y l where st: "s = (x, k)" "t = (y, l)" by (cases s; cases t) auto
  have "snd (tea1_round s) = snd (tea1_round t)" using eq by simp
  then have "k = l" unfolding st tea1_round_eq snd_conv by (rule tea1_key_inj)
  with eq show "s = t" using tea1_round_fst [of s t] by (simp add: st)
qed

lemma tea2_round_inj: "inj_on tea2_round (UNIV \<times> {k. length k = 10})"
proof (rule inj_onI)
  fix s t
  assume "s \<in> UNIV \<times> {k. length k = 10}" "t \<in> UNIV \<times> {k. length k = 10}" and eq: "tea2_round s = tea2_round t"
  then obtain x k y l where st: "s = (x, k)" "t = (y, l)" and len: "length k = 10" "length l = 10"
    by (cases s; cases t) auto
  have *: "take 9 (drop 1 k) @ [g_abTea2Sbox ! unat (k ! 0 XOR k ! 7)]
      = take 9 (drop 1 l) @ [g_abTea2Sbox ! unat (l ! 0 XOR l ! 7)]"
    using eq by (simp add: st tea2_round_eq)
  note tail = key_bytes_shift(2) [OF * len]
  have "k ! 0 XOR k ! 7 = l ! 0 XOR l ! 7"
    using key_bytes_shift(1) [OF * len] by (rule sbox_inj [OF tea2_sbox_distinct])
  moreover have "k ! 7 = l ! 7" by (rule tail; simp)
  ultimately have "k ! 0 = l ! 0" by (metis word_xor_cancel_right)
  then have "k = l" using key_bytes_eq tail len by blast
  with eq show "s = t" using tea2_round_fst [of s t] by (simp add: st)
qed

lemma tea3_round_inj: "inj_on tea3_round (UNIV \<times> {k. length k = 10})"
proof (rule inj_onI)
  fix s t
  assume "s \<in> UNIV \<times> {k. length k = 10}" "t \<in> UNIV \<times> {k. length k = 10}" and eq: "tea3_round s = tea3_round t"
  then obtain x k y l where st: "s = (x, k)" "t = (y, l)" and len: "length k = 10" "length l = 10"
    by (cases s; cases t) auto
  have *: "take 9 (drop 1 k) @ [g_abTea3Sbox ! unat (k ! 7 XOR k ! 2) XOR k ! 0]
      = take 9 (drop 1 l) @ [g_abTea3Sbox ! unat (l ! 7 XOR l ! 2) XOR l ! 0]"
    using eq by (simp add: st tea3_round_eq)
  note tail = key_bytes_shift(2) [OF * len]
  have "k ! 7 = l ! 7" "k ! 2 = l ! 2" by (rule tail; simp)+
  then have "k ! 0 = l ! 0" using key_bytes_shift(1) [OF * len] by (metis word_xor_cancel_left)
  then have "k = l" using key_bytes_eq tail len by blast
  with eq show "s = t" using tea3_round_fst [of s t] by (simp add: st)
qed

text \<open>
  A round of TEA1, TEA2 or TEA3 is injective on the pair of its registers (with the ten-byte key
  register of TEA2 and TEA3): the generators never merge two internal states, so none of them
  loses key or frame-number entropy after its registers are loaded.
\<close>
theorem tea_rounds_injective:
  "inj tea1_round \<and> inj_on tea2_round (UNIV \<times> {k. length k = 10}) \<and>
    inj_on tea3_round (UNIV \<times> {k. length k = 10})"
  by (intro conjI tea1_round_inj tea2_round_inj tea3_round_inj)

text \<open>
  With one key and after any number of rounds, two frame numbers never lead to the same 64-bit
  register of TEA1, TEA2 or TEA3: every frame has a keystream generator state of its own.
\<close>
theorem tea_frames_stay_apart:
  "(fst ((tea1_round ^^ n) (tea1_expand_iv f, r)) = fst ((tea1_round ^^ n) (tea1_expand_iv g, r)) \<longleftrightarrow> f = g) \<and>
   (fst ((tea2_round ^^ n) (tea2_expand_iv f, k)) = fst ((tea2_round ^^ n) (tea2_expand_iv g, k)) \<longleftrightarrow> f = g) \<and>
   (fst ((tea3_round ^^ n) (tea3_compute_iv f, k)) = fst ((tea3_round ^^ n) (tea3_compute_iv g, k)) \<longleftrightarrow> f = g)"
proof (intro conjI iffI)
  assume "fst ((tea1_round ^^ n) (tea1_expand_iv f, r)) = fst ((tea1_round ^^ n) (tea1_expand_iv g, r))"
  then have "tea1_expand_iv f = tea1_expand_iv g"
    by (rule rounds_inj [rotated 2]) (erule tea1_round_key, erule (1) tea1_round_fst)
  then show "f = g" by (simp add: tea1_expand_iv_def expand_iv_eq_iff)
next
  assume "fst ((tea2_round ^^ n) (tea2_expand_iv f, k)) = fst ((tea2_round ^^ n) (tea2_expand_iv g, k))"
  then have "tea2_expand_iv f = tea2_expand_iv g"
    by (rule rounds_inj [rotated 2]) (erule tea2_round_key, erule (1) tea2_round_fst)
  then show "f = g" by (simp add: tea2_expand_iv_def expand_iv_eq_iff)
next
  assume "fst ((tea3_round ^^ n) (tea3_compute_iv f, k)) = fst ((tea3_round ^^ n) (tea3_compute_iv g, k))"
  then have "tea3_compute_iv f = tea3_compute_iv g"
    by (rule rounds_inj [rotated 2]) (erule tea3_round_key, erule (1) tea3_round_fst)
  then show "f = g" by (simp add: tea3_compute_iv_def expand_iv_eq_iff)
qed simp_all

section \<open>The effective key length of TEA1\<close>

definition tea1_key_step :: "u32 \<Rightarrow> u8 \<Rightarrow> u32" where
  "tea1_key_step r k =
    push_bit 8 r OR ucast (g_abTea1Sbox ! unat ((drop_bit 24 r XOR ucast k XOR r) AND 0xff))"

lemma tea1_init_foldl: "length key = 10 \<Longrightarrow> tea1_init_key_register key = foldl tea1_key_step 0 key"
  unfolding tea1_init_key_register_def
  by (subst (2) map_nth [of key, symmetric])
    (simp only: foldl_map tea1_key_step_def [abs_def])

lemma tea1_key_step_any: "\<exists>k. tea1_key_step r k = push_bit 8 r OR ucast (b :: u8)"
proof -
  obtain i where i: "i < 256" "g_abTea1Sbox ! i = b"
    using sbox_onto [OF tea1_sbox_distinct] tea1_sbox_distinct(2) by (metis UNIV_I in_set_conv_nth)
  define k :: u8 where "k = ucast (drop_bit 24 r XOR r) XOR of_nat i"
  have "(ucast (drop_bit 24 r XOR ucast k XOR r) :: u8) = of_nat i"
    by (rule bit_word_eqI) (auto simp: k_def bit_ucast_iff bit_xor_iff bit_drop_bit_eq)
  then have "tea1_key_step r k = push_bit 8 r OR ucast b"
    unfolding tea1_key_step_def index_byte using i by (simp add: unat_of_nat_lt)
  then show ?thesis ..
qed

lemma four_byte_steps:
  fixes R r :: u32
  defines "b n \<equiv> (ucast (drop_bit n R) :: u8)"
  shows "push_bit 8 (push_bit 8 (push_bit 8 (push_bit 8 r OR ucast (b 24)) OR ucast (b 16)) OR ucast (b 8)) OR ucast (b 0) = R"
proof (rule bit_word_eqI)
  fix n assume "n < LENGTH(32)"
  then have "n < 32" by simp
  then have "n = n mod 8 \<or> n = n mod 8 + 8 \<or> n = n mod 8 + 16 \<or> n = n mod 8 + 24" by presburger
  then obtain m where m: "m < 8" and n: "n = m \<or> n = m + 8 \<or> n = m + 16 \<or> n = m + 24"
    by (rule that [rotated]) simp
  show "bit (push_bit 8 (push_bit 8 (push_bit 8 (push_bit 8 r OR ucast (b 24)) OR ucast (b 16)) OR ucast (b 8)) OR ucast (b 0)) n = bit R n"
    using n m by (elim disjE; simp only: bit_key_shift b_def bit_ucast_iff bit_drop_bit_eq; simp add: add.commute)
qed

lemma tea1_any_register: "\<exists>suf. length suf = 4 \<and> foldl tea1_key_step r suf = R"
proof -
  obtain k3 where 3: "tea1_key_step r k3 = push_bit 8 r OR ucast (ucast (drop_bit 24 R) :: u8)"
    using tea1_key_step_any by blast
  obtain k2 where 2: "tea1_key_step (tea1_key_step r k3) k2 =
      push_bit 8 (tea1_key_step r k3) OR ucast (ucast (drop_bit 16 R) :: u8)"
    using tea1_key_step_any by blast
  obtain k1 where 1: "tea1_key_step (tea1_key_step (tea1_key_step r k3) k2) k1 =
      push_bit 8 (tea1_key_step (tea1_key_step r k3) k2) OR ucast (ucast (drop_bit 8 R) :: u8)"
    using tea1_key_step_any by blast
  obtain k0 where 0: "tea1_key_step (tea1_key_step (tea1_key_step (tea1_key_step r k3) k2) k1) k0 =
      push_bit 8 (tea1_key_step (tea1_key_step (tea1_key_step r k3) k2) k1) OR ucast (ucast (drop_bit 0 R) :: u8)"
    using tea1_key_step_any by blast
  have "foldl tea1_key_step r [k3, k2, k1, k0] = R"
    by (simp only: foldl.simps) (subst 0, subst 1, subst 2, subst 3, rule four_byte_steps)
  then show ?thesis by (intro exI [of _ "[k3, k2, k1, k0]"]) simp
qed

lemma tea1_same_stream:
  assumes "length pre = 6" "length key = 10"
  shows "\<exists>suf. length suf = 4 \<and> (\<forall>fn n. tea1 fn (pre @ suf) n = tea1 fn key n)"
proof -
  obtain suf where suf: "length suf = 4"
      "foldl tea1_key_step (foldl tea1_key_step 0 pre) suf = tea1_init_key_register key"
    using tea1_any_register by blast
  then have "tea1_init_key_register (pre @ suf) = tea1_init_key_register key"
    using assms by (simp add: tea1_init_foldl)
  then show ?thesis using suf(1) by (auto simp: tea1_def)
qed

text \<open>
  C38. TEA1 has an effective key of 32 bits, not of 80: whatever the first six bytes of a key are
  replaced by, four final bytes exist with which every frame number and every length give
  the same keystream as before.
\<close>
theorem tea1_effective_key:
  assumes "length pre = 6" "length key = 10"
  shows "\<exists>suf. length suf = 4 \<and> (\<forall>fn n. tea1 fn (pre @ suf) n = tea1 fn key n)"
  using assms by (rule tea1_same_stream)

theorem tea1_effective_key_witness:
  "\<exists>suf. length suf = 4 \<and>
    (\<forall>fn n. tea1 fn ([0, 0, 0, 0, 0, 0] @ suf) n = tea1 fn [1, 2, 3, 4, 5, 6, 7, 8, 9, 10] n)"
  by (rule tea1_effective_key) simp_all

end
