(* ===== verification/Common.thy ===== *)
theory Common
  imports Tdma
begin

text \<open>
  What the protocol layers share: \<open>tetra_common.h\<close>, \<open>tetra_common.c\<close> and the enumerations of
  \<open>tetra_prim.h\<close> and \<open>phy/tetra_burst.h\<close>. Name tables, bit fields read from bit-per-byte buffers,
  carrier frequencies, and the message buffer \<open>msgb\<close> with its pointers. The lemmas give the value of a
  bit field and its inverse, the lookup in a table, and what moving the pointers of a message keeps.
\<close>

section \<open>Enumerations\<close>

datatype tetra_log_chan =
    TETRA_LC_UNKNOWN | TETRA_LC_SCH_F | TETRA_LC_SCH_HD | TETRA_LC_SCH_HU | TETRA_LC_STCH
  | TETRA_LC_SCH_P8_F | TETRA_LC_SCH_P8_HD | TETRA_LC_SCH_P8_HU
  | TETRA_LC_AACH | TETRA_LC_TCH | TETRA_LC_BSCH | TETRA_LC_BNCH

datatype tp_sap_data_type =
  TPSAP_T_SB1 | TPSAP_T_SB2 | TPSAP_T_NDB | TPSAP_T_BBK | TPSAP_T_SCH_HU | TPSAP_T_SCH_F

datatype tetra_saps = TETRA_SAP_TP | TETRA_SAP_TMV | TETRA_SAP_TMA | TETRA_SAP_TMB | TETRA_SAP_TMD

definition BLK_1 :: int where "BLK_1 = 1"
definition BLK_2 :: int where "BLK_2 = 2"

definition TETRA_BITS_PER_TS :: nat where "TETRA_BITS_PER_TS = 255 * 2"

section \<open>Name tables\<close>

text \<open>A table ends at the entry with value 0 and no string.\<close>

type_synonym value_string = "u32 \<times> string option"

fun get_value_string_or_null :: "value_string list \<Rightarrow> u32 \<Rightarrow> string option" where
  "get_value_string_or_null [] val = None"
| "get_value_string_or_null ((v, s) # vs) val =
    (if v = 0 \<and> s = None then None
     else if v = val then s
     else get_value_string_or_null vs val)"

definition hex_digit :: "nat \<Rightarrow> char" where
  "hex_digit n = ''0123456789abcdef'' ! n"

text \<open>The \<open>%x\<close> conversion, most significant digit first.\<close>

fun hex_nat :: "nat \<Rightarrow> string" where
  "hex_nat n = (if n < 16 then [hex_digit n] else hex_nat (n div 16) @ [hex_digit (n mod 16)])"

declare hex_nat.simps [simp del]

definition get_value_string :: "value_string list \<Rightarrow> u32 \<Rightarrow> string" where
  "get_value_string vs val =
    (case get_value_string_or_null vs val of
       Some str \<Rightarrow> str
     | None \<Rightarrow> ''unknown 0x'' @ hex_nat (unat val))"

definition tetra_sap_names :: "value_string list" where
  "tetra_sap_names =
    [(0, Some ''TP-SAP''), (1, Some ''TMV-SAP''), (2, Some ''TMA-SAP''), (3, Some ''TMB-SAP''),
     (4, Some ''TMD-SAP''), (0, None)]"

definition tetra_lchan_names :: "value_string list" where
  "tetra_lchan_names =
    [(0, Some ''UNKNOWN''), (1, Some ''SCH/F''), (2, Some ''SCH/HD''), (3, Some ''SCH/HU''),
     (4, Some ''STCH''), (5, Some ''SCH-P8/F''), (6, Some ''SCH-P8/HD''), (7, Some ''SCH-P8/HU''),
     (8, Some ''AACH''), (9, Some ''TCH''), (10, Some ''BSCH''), (11, Some ''BNCH''), (0, None)]"

primrec lchan_num :: "tetra_log_chan \<Rightarrow> u32" where
  "lchan_num TETRA_LC_UNKNOWN = 0"
| "lchan_num TETRA_LC_SCH_F = 1"
| "lchan_num TETRA_LC_SCH_HD = 2"
| "lchan_num TETRA_LC_SCH_HU = 3"
| "lchan_num TETRA_LC_STCH = 4"
| "lchan_num TETRA_LC_SCH_P8_F = 5"
| "lchan_num TETRA_LC_SCH_P8_HD = 6"
| "lchan_num TETRA_LC_SCH_P8_HU = 7"
| "lchan_num TETRA_LC_AACH = 8"
| "lchan_num TETRA_LC_TCH = 9"
| "lchan_num TETRA_LC_BSCH = 10"
| "lchan_num TETRA_LC_BNCH = 11"

definition tetra_get_lchan_name :: "tetra_log_chan \<Rightarrow> string" where
  "tetra_get_lchan_name lchan = get_value_string tetra_lchan_names (lchan_num lchan)"

definition tetra_get_sap_name :: "u8 \<Rightarrow> string" where
  "tetra_get_sap_name sap = get_value_string tetra_sap_names (ucast sap)"

text \<open>Lookup in a table whose entries before the end mark all have a string.\<close>

lemma value_string_lookup:
  assumes "\<forall>s \<in> snd ` set es. s \<noteq> None"
  shows "get_value_string_or_null (es @ [(0, None)]) val = Option.bind (map_of es val) id"
  using assms
proof (induction es)
  case (Cons e es)
  then show ?case by (cases e) auto
qed simp

section \<open>Bit fields\<close>

fun bits_to_uint :: "(nat \<Rightarrow> u8) \<Rightarrow> nat \<Rightarrow> u32" where
  "bits_to_uint bits 0 = 0"
| "bits_to_uint bits (Suc len) = push_bit 1 (bits_to_uint bits len) OR (ucast (bits len) AND 1)"

text \<open>The pointer \<open>bits + n\<close>.\<close>

definition at :: "(nat \<Rightarrow> u8) \<Rightarrow> nat \<Rightarrow> nat \<Rightarrow> u8" where
  "at bits n = (\<lambda>i. bits (n + i))"

lemma bit_bits_to_uint:
  "bit (bits_to_uint bits len) k \<longleftrightarrow> k < len \<and> k < 32 \<and> bit (bits (len - 1 - k)) 0"
proof (induction len arbitrary: k)
  case (Suc len)
  show ?case
  proof (cases k)
    case 0
    then show ?thesis by (simp add: bit_or_iff bit_push_bit_iff bit_and_iff bit_ucast_iff)
  next
    case (Suc j)
    then have "bit (bits_to_uint bits (Suc len)) k \<longleftrightarrow> k < 32 \<and> bit (bits_to_uint bits len) j"
      by (auto simp: bit_or_iff bit_push_bit_iff bit_and_iff bit_1_iff dest: bit_imp_le_length)
    with Suc.IH [of j] Suc show ?thesis by auto
  qed
qed simp

lemma bits_to_uint_cong:
  "(\<And>i. i < len \<Longrightarrow> f i = g i) \<Longrightarrow> bits_to_uint f len = bits_to_uint g len"
  by (induction len) auto

lemma bits_to_uint_less:
  assumes "len \<le> 32"
  shows "unat (bits_to_uint bits len) < 2 ^ len"
proof -
  have "take_bit len (bits_to_uint bits len) = bits_to_uint bits len"
    by (rule bit_word_eqI) (auto simp: bit_take_bit_iff bit_bits_to_uint)
  then have "take_bit len (unat (bits_to_uint bits len)) = unat (bits_to_uint bits len)"
    by (metis unsigned_take_bit_eq)
  then show ?thesis by (metis take_bit_nat_less_exp)
qed

text \<open>Two adjacent fields read as one.\<close>

lemma bits_to_uint_append:
  "bits_to_uint bits (m + n) = push_bit n (bits_to_uint bits m) OR bits_to_uint (at bits m) n"
proof (rule bit_word_eqI)
  fix k assume k: "k < LENGTH(32)"
  show "bit (bits_to_uint bits (m + n)) k \<longleftrightarrow>
    bit (push_bit n (bits_to_uint bits m) OR bits_to_uint (at bits m) n) k"
  proof (cases "k < n")
    case True
    then have "m + n - 1 - k = m + (n - 1 - k)" by simp
    with True k show ?thesis by (simp add: bit_or_iff bit_push_bit_iff bit_bits_to_uint at_def)
  next
    case False
    then have "m + n - 1 - k = m - 1 - (k - n)" by simp
    with False k show ?thesis
      by (auto simp: bit_or_iff bit_push_bit_iff bit_bits_to_uint at_def)
  qed
qed

text \<open>The bits of a number, the highest first: what the sender puts into a field.\<close>

definition uint_to_bits :: "nat \<Rightarrow> u32 \<Rightarrow> nat \<Rightarrow> u8" where
  "uint_to_bits len v i = ucast (drop_bit (len - 1 - i) v AND 1)"

lemma bits_to_uint_inverse:
  assumes "unat v < 2 ^ len" "len \<le> 32"
  shows "bits_to_uint (uint_to_bits len v) len = v"
proof (rule bit_word_eqI)
  fix k assume k: "k < LENGTH(32)"
  have "v < 2 ^ len \<or> len = 32"
  proof (cases "len = 32")
    case False
    then have "unat (2 ^ len :: u32) = 2 ^ len"
      using assms(2) unat_of_nat_lt [of "2 ^ len", where 'a = 32] power_strict_increasing [of len 32 "2 :: nat"]
      by simp
    then show ?thesis using assms(1) by (simp add: word_less_nat_alt)
  qed simp
  then have "\<not> bit v k" if "len \<le> k" using that k bit_high [of v len k] by (auto dest: bit_imp_le_length)
  moreover have "bit (uint_to_bits len v (len - 1 - k)) 0 \<longleftrightarrow> bit v k" if "k < len"
  proof -
    have "len - 1 - (len - 1 - k) = k" using that by simp
    then show ?thesis by (simp add: uint_to_bits_def bit_ucast_iff bit_and_iff bit_drop_bit_eq)
  qed
  ultimately show "bit (bits_to_uint (uint_to_bits len v) len) k \<longleftrightarrow> bit v k"
    using k by (cases "k < len") (auto simp: bit_bits_to_uint)
qed

section \<open>Carrier frequencies\<close>

definition tetra_band_base_hz :: "u8 \<Rightarrow> u32" where
  "tetra_band_base_hz band = ucast band * 100000000"

definition tetra_carrier_offset :: "16 word list" where
  "tetra_carrier_offset = [0, 6250, - 6250, 12500]"

text \<open>The \<open>int16_t\<close> table entries are sign extended, then added modulo \<open>2 ^ 32\<close>.\<close>

definition tetra_dl_carrier_hz :: "u8 \<Rightarrow> u16 \<Rightarrow> u8 \<Rightarrow> u32" where
  "tetra_dl_carrier_hz band carrier offset =
    (let freq = tetra_band_base_hz band;
         freq = freq + ucast carrier * 25000
     in freq + scast (tetra_carrier_offset ! unat (offset AND 3)))"

definition tetra_duplex_spacing :: "16 word list list" where
  "tetra_duplex_spacing =
    [[- 1, 1600, 10000, 10000, 10000, 10000, 10000, - 1, - 1, - 1, - 1, - 1, - 1, - 1, - 1, - 1],
     [- 1, 4500, - 1, 36000, 7000, - 1, - 1, - 1, 45000, 45000, - 1, - 1, - 1, - 1, - 1, - 1],
     [0, 0, 0, 0, 0, 0, 0, 0, 0, 0, 0, 0, 0, 0, 0, 0],
     [- 1, - 1, - 1, 8000, 8000, - 1, - 1, - 1, 18000, 18000, - 1, - 1, - 1, - 1, - 1, - 1],
     [- 1, - 1, - 1, 18000, 5000, - 1, 30000, 30000, - 1, 39000, - 1, - 1, - 1, - 1, - 1, - 1],
     [- 1, - 1, - 1, - 1, 9500, - 1, - 1, - 1, - 1, - 1, - 1, - 1, - 1, - 1, - 1, - 1],
     [- 1, - 1, - 1, - 1, - 1, - 1, - 1, - 1, - 1, - 1, - 1, - 1, - 1, - 1, - 1, - 1],
     [- 1, - 1, - 1, - 1, - 1, - 1, - 1, - 1, - 1, - 1, - 1, - 1, - 1, - 1, - 1, - 1]]"

text \<open>The comparison with zero is on an unsigned value and never holds.\<close>

definition tetra_ul_carrier_hz :: "u8 \<Rightarrow> u16 \<Rightarrow> u8 \<Rightarrow> u8 \<Rightarrow> u8 \<Rightarrow> u32" where
  "tetra_ul_carrier_hz band carrier offset duplex reverse =
    (let freq = tetra_dl_carrier_hz band carrier offset;
         duplex_spacing :: u32 = scast (tetra_duplex_spacing ! unat (duplex AND 7) ! unat (band AND 15))
     in if duplex_spacing < 0 then 0
        else (let duplex_spacing = duplex_spacing * 1000
              in if reverse \<noteq> 0 then freq + duplex_spacing else freq - duplex_spacing))"

lemma ul_carrier_reserved:
  assumes "tetra_duplex_spacing ! unat (duplex AND 7) ! unat (band AND 15) = - 1"
  shows "tetra_ul_carrier_hz band carrier offset duplex reverse =
    (if reverse = 0 then tetra_dl_carrier_hz band carrier offset + 1000
     else tetra_dl_carrier_hz band carrier offset - 1000)"
  by (simp add: tetra_ul_carrier_hz_def Let_def assms)

section \<open>Message buffers\<close>

text \<open>
  The buffer's memory is a function of the offset from \<open>_data\<close>: offsets outside the buffer read the
  bytes of the heap around it. The pointers are offsets too, the null pointer is \<^theory_text>\<open>None\<close>.
\<close>

record msgb =
  mem :: "int \<Rightarrow> u8"
  data_len :: u16
  m_len :: u16
  head :: int
  tail :: int
  l1h :: "int option"
  l2h :: "int option"
  l3h :: "int option"
  l4h :: "int option"

text \<open>\<open>heap\<close> is what lies around the new buffer.\<close>

definition msgb_alloc_c :: "(int \<Rightarrow> u8) \<Rightarrow> u16 \<Rightarrow> msgb" where
  "msgb_alloc_c heap sz =
    \<lparr>mem = (\<lambda>i. if 0 \<le> i \<and> i < int (unat sz) then 0 else heap i),
     data_len = sz, m_len = 0, head = 0, tail = 0, l1h = None, l2h = None, l3h = None, l4h = None\<rparr>"

definition msgb_alloc :: "(int \<Rightarrow> u8) \<Rightarrow> u16 \<Rightarrow> msgb" where
  "msgb_alloc heap sz = msgb_alloc_c heap sz"

text \<open>The assertions on the header pointers; lengths are \<open>unsigned int\<close>.\<close>

definition msgb_l1len :: "msgb \<Rightarrow> u32 option" where
  "msgb_l1len m = map_option (\<lambda>p. of_int (tail m - p)) (l1h m)"

definition msgb_l2len :: "msgb \<Rightarrow> u32 option" where
  "msgb_l2len m = map_option (\<lambda>p. of_int (tail m - p)) (l2h m)"

definition msgb_l3len :: "msgb \<Rightarrow> u32 option" where
  "msgb_l3len m = map_option (\<lambda>p. of_int (tail m - p)) (l3h m)"

definition msgb_l4len :: "msgb \<Rightarrow> u32 option" where
  "msgb_l4len m = map_option (\<lambda>p. of_int (tail m - p)) (l4h m)"

definition msgb_headlen :: "msgb \<Rightarrow> u32" where
  "msgb_headlen m = ucast (m_len m) - ucast (data_len m)"

definition msgb_tailroom :: "msgb \<Rightarrow> 32 word" where
  "msgb_tailroom m = of_int ((head m + int (unat (data_len m))) - tail m)"

text \<open>\<^theory_text>\<open>None\<close> is the call of \<open>abort\<close>; the result is the old tail.\<close>

definition msgb_put :: "msgb \<Rightarrow> u32 \<Rightarrow> (msgb \<times> int) option" where
  "msgb_put m n =
    (if sint (msgb_tailroom m) < sint n then None
     else Some (m\<lparr>tail := tail m + uint n, m_len := m_len m + ucast n\<rparr>, tail m))"

text \<open>\<open>memcpy\<close> into the buffer; a store outside it is \<^theory_text>\<open>None\<close>.\<close>

definition msgb_write :: "msgb \<Rightarrow> int \<Rightarrow> nat \<Rightarrow> (nat \<Rightarrow> u8) \<Rightarrow> msgb option" where
  "msgb_write m p n src =
    (if n = 0 \<or> 0 \<le> p \<and> p + int n \<le> int (unat (data_len m))
     then Some (m\<lparr>mem := (\<lambda>i. if p \<le> i \<and> i < p + int n then src (nat (i - p)) else mem m i)\<rparr>)
     else None)"

text \<open>The bytes from an offset on, as the decoding functions read them.\<close>

definition msgb_at :: "msgb \<Rightarrow> int \<Rightarrow> nat \<Rightarrow> u8" where
  "msgb_at m p i = mem m (p + int i)"

section \<open>Primitives between the MAC layers\<close>

text \<open>The block of an indication, and the primitive with its message (\<open>tetra_prim.h\<close>).\<close>

record tmv_unitdata_param =
  mac_block_len :: u32
  lchan :: tetra_log_chan
  crc_ok :: int
  scrambling_code :: u32
  tdma_time :: tetra_tdma_time
  blk_num :: int

datatype tmv_sap_prim = PRIM_TMV_UNITDATA | PRIM_TMV_CONFIGURE
datatype osmo_prim_operation = PRIM_OP_REQUEST | PRIM_OP_RESPONSE | PRIM_OP_INDICATION | PRIM_OP_CONFIRM

record tetra_tmvsap_prim =
  sap :: tetra_saps
  primitive :: tmv_sap_prim
  operation :: osmo_prim_operation
  msg :: msgb
  unitdata :: tmv_unitdata_param

lemma sint_of_small: "- 2147483648 \<le> k \<Longrightarrow> k < 2147483648 \<Longrightarrow> sint (of_int k :: u32) = k"
  by (simp add: sint_sbintrunc' signed_take_bit_int_eq_self)

lemma sint_small: "unat w < 2147483648 \<Longrightarrow> sint w = int (unat w)" for w :: u32
proof -
  assume "unat w < 2147483648"
  moreover have u: "int (unat w) = uint w" by simp
  ultimately have "- 2147483648 \<le> uint w" "uint w < 2147483648" by linarith+
  then show "sint w = int (unat w)" using sint_of_small [of "uint w"] by simp
qed

lemma msgb_put_fresh:
  assumes "unat n \<le> unat sz"
  shows "msgb_put (msgb_alloc heap sz) n =
    Some ((msgb_alloc heap sz)\<lparr>tail := uint n, m_len := ucast n\<rparr>, 0)"
proof -
  have sz: "unat sz < 65536" by (rule unat_u16_less)
  have "sint (msgb_tailroom (msgb_alloc heap sz)) = int (unat sz)"
  proof -
    have "- 2147483648 \<le> int (unat sz)" "int (unat sz) < 2147483648" using sz by linarith+
    then show ?thesis
      unfolding msgb_tailroom_def msgb_alloc_def msgb_alloc_c_def msgb.simps by (subst sint_of_small) simp_all
  qed
  moreover have "sint n = int (unat n)" using sz assms by (intro sint_small) simp
  ultimately show ?thesis
    unfolding msgb_put_def using assms by (simp only: of_nat_less_iff not_less if_False)
      (simp add: msgb_alloc_def msgb_alloc_c_def)
qed

section \<open>Properties\<close>

text \<open>
  A bit field read from a buffer is below two to its length, is the inverse of writing the number's
  bits with the highest first, and two adjacent fields read as one field are the first shifted up
  with the second below it.
\<close>
theorem bit_fields_decode:
  assumes "len \<le> 32" "unat v < 2 ^ len"
  shows "unat (bits_to_uint bits len) < 2 ^ len \<and> bits_to_uint (uint_to_bits len v) len = v \<and>
    bits_to_uint bits (m + n) = push_bit n (bits_to_uint bits m) OR bits_to_uint (at bits m) n"
  using assms by (intro conjI bits_to_uint_less bits_to_uint_inverse bits_to_uint_append)

theorem bit_fields_decode_witness:
  "unat (bits_to_uint (\<lambda>i. 1) 5) < 2 ^ 5 \<and> bits_to_uint (uint_to_bits 5 19) 5 = 19 \<and>
    bits_to_uint (\<lambda>i. 1) (2 + 3) = push_bit 3 (bits_to_uint (\<lambda>i. 1) 2) OR bits_to_uint (at (\<lambda>i. 1) 2) 3"
  by (rule bit_fields_decode) simp_all

text \<open>
  A duplex spacing that the table reserves for future use does not give the uplink frequency 0:
  the table's \<open>-1\<close> is compared as an unsigned number, and the result is the downlink frequency
  moved by 1 kHz.
\<close>
theorem reserved_duplex_not_refused:
  assumes "tetra_duplex_spacing ! unat (duplex AND 7) ! unat (band AND 15) = - 1"
  shows "tetra_ul_carrier_hz band carrier offset duplex reverse =
    (if reverse = 0 then tetra_dl_carrier_hz band carrier offset + 1000
     else tetra_dl_carrier_hz band carrier offset - 1000)"
  using assms by (rule ul_carrier_reserved)

theorem reserved_duplex_not_refused_witness:
  "tetra_ul_carrier_hz 4 3600 0 6 0 = (if (0 :: u8) = 0 then tetra_dl_carrier_hz 4 3600 0 + 1000
     else tetra_dl_carrier_hz 4 3600 0 - 1000)"
  by (rule reserved_duplex_not_refused) (simp add: tetra_duplex_spacing_def)

end
