(* ===== verification/TetraCrypto.thy ===== *)
theory TetraCrypto
  imports Taa1 Tea Common
begin

text \<open>
  Key management and decryption, \<open>crypto/tetra_crypto.h\<close> and \<open>tetra_crypto.c\<close>: the key store file, the
  selection of network and key, the initialisation vector, and the decryption of MAC elements and
  voice slots. A pointer into the key or the network array is an index into it. \<open>ndebug\<close> says whether
  the build removes assertions; \<^theory_text>\<open>None\<close> is an assertion that stops the program, or an
  access outside an array.
\<close>

section \<open>Types\<close>

definition TCDB_ALLOC_BLOCK_SIZE :: nat where "TCDB_ALLOC_BLOCK_SIZE = 16"

definition KEYTYPE_CCK_SCK :: u32 where "KEYTYPE_CCK_SCK = 1"
definition KSG_TEA1 :: u32 where "KSG_TEA1 = 1"
definition KSG_TEA2 :: u32 where "KSG_TEA2 = 2"
definition KSG_TEA3 :: u32 where "KSG_TEA3 = 3"
definition KSG_PROPRIETARY :: u32 where "KSG_PROPRIETARY = 8"

record tetra_netinfo =
  n_mcc :: u32
  n_mnc :: u32
  ksg_type :: u32
  security_class :: u32

record tetra_key =
  k_index :: u32
  k_mnc :: u32
  k_mcc :: u32
  key_type :: u32
  key_num :: u32
  addr :: u32
  key :: "u8 list"
  network_info :: "nat option"

record tetra_crypto_database =
  num_keys :: nat
  keys :: "tetra_key list"
  num_nets :: nat
  nets :: "tetra_netinfo list"
  nets_cnt :: nat

record tetra_crypto_state =
  c_mnc :: u32
  c_mcc :: u32
  c_cck_id :: u32
  c_hn :: int
  c_la :: int
  c_cn :: int
  c_cc :: int
  network :: "nat option"
  cck :: "nat option"

record tetra_addr =
  a_type :: u8
  a_mcc :: u16
  a_mnc :: u16
  ssi :: u32
  event_label :: u16
  usage_marker :: u8

section \<open>Names\<close>

definition tetra_key_types :: "value_string list" where
  "tetra_key_types =
    [(0, Some ''UNDEFINED''), (1, Some ''CCK/SCK''), (2, Some ''DCK''), (4, Some ''MGCK''), (8, Some ''GCK''), (0, None)]"

definition tetra_get_key_type_name :: "u32 \<Rightarrow> string" where
  "tetra_get_key_type_name t = get_value_string tetra_key_types t"

definition tetra_ksg_types :: "value_string list" where
  "tetra_ksg_types =
    [(0, Some ''UNKNOWN''), (1, Some ''TEA1''), (2, Some ''TEA2''), (3, Some ''TEA3''), (4, Some ''TEA4''),
     (5, Some ''TEA5''), (6, Some ''TEA6''), (7, Some ''TEA7''), (8, Some ''PROPRIETARY''), (0, None)]"

definition tetra_get_ksg_type_name :: "u32 \<Rightarrow> string" where
  "tetra_get_ksg_type_name t =
    (if KSG_PROPRIETARY \<le> t then the (snd (tetra_ksg_types ! unat KSG_PROPRIETARY))
     else get_value_string tetra_ksg_types t)"

definition tetra_security_classes :: "value_string list" where
  "tetra_security_classes =
    [(0, Some ''CLASS_UNDEFINED''), (1, Some ''CLASS_1''), (2, Some ''CLASS_2''), (3, Some ''CLASS_3''), (0, None)]"

definition tetra_get_security_class_name :: "u8 \<Rightarrow> string" where
  "tetra_get_security_class_name pdut = get_value_string tetra_security_classes (ucast pdut)"

section \<open>Initialisation\<close>

text \<open>Every field but the carrier number, which keeps its value.\<close>

definition tetra_crypto_state_init :: "tetra_crypto_state \<Rightarrow> tetra_crypto_state" where
  "tetra_crypto_state_init tcs = tcs\<lparr>
     c_mnc := - 1, c_mcc := - 1, c_cck_id := - 1, c_hn := - 1, c_la := - 1, c_cc := - 1,
     cck := None, network := None\<rparr>"

text \<open>\<open>malloc\<close> gives memory with some contents.\<close>

definition tetra_crypto_db_init :: "tetra_key \<Rightarrow> tetra_netinfo \<Rightarrow> tetra_crypto_database" where
  "tetra_crypto_db_init k0 n0 =
    \<lparr>num_keys = 0, keys = replicate TCDB_ALLOC_BLOCK_SIZE k0,
     num_nets = 0, nets = replicate TCDB_ALLOC_BLOCK_SIZE n0, nets_cnt = TCDB_ALLOC_BLOCK_SIZE\<rparr>"

section \<open>Key selection\<close>

text \<open>The loops over the array: the first index below \<open>n\<close> that satisfies the test.\<close>

definition first_index :: "(nat \<Rightarrow> bool) \<Rightarrow> nat \<Rightarrow> nat option" where
  "first_index P n = find P [0..<n]"

definition get_network_info :: "tetra_crypto_database \<Rightarrow> u32 \<Rightarrow> u32 \<Rightarrow> nat option" where
  "get_network_info tcdb mcc mnc =
    first_index (\<lambda>i. n_mcc (nets tcdb ! i) = mcc \<and> n_mnc (nets tcdb ! i) = mnc) (num_nets tcdb)"

definition get_key_by_addr :: "tetra_crypto_database \<Rightarrow> tetra_crypto_state \<Rightarrow> u32 \<Rightarrow> u32 \<Rightarrow> nat option" where
  "get_key_by_addr tcdb tcs a kt =
    first_index (\<lambda>i. let k = keys tcdb ! i
        in k_mnc k = c_mnc tcs \<and> k_mcc k = c_mcc tcs \<and> addr k = a \<and> key_type k AND kt \<noteq> 0)
      (num_keys tcdb)"

definition get_ksg_key :: "tetra_crypto_state \<Rightarrow> int \<Rightarrow> nat option" where
  "get_ksg_key tcs a = (case network tcs of None \<Rightarrow> None | Some _ \<Rightarrow> cck tcs)"

definition update_current_cck :: "tetra_crypto_database \<Rightarrow> tetra_crypto_state \<Rightarrow> tetra_crypto_state" where
  "update_current_cck tcdb tcs = tcs\<lparr>cck :=
    first_index (\<lambda>i. let k = keys tcdb ! i
        in k_mcc k = c_mcc tcs \<and> k_mnc k = c_mnc tcs \<and> key_num k = c_cck_id tcs \<and> key_type k = KEYTYPE_CCK_SCK)
      (num_keys tcdb)\<rparr>"

definition update_current_network :: "tetra_crypto_database \<Rightarrow> tetra_crypto_state \<Rightarrow> int \<Rightarrow> int \<Rightarrow> tetra_crypto_state" where
  "update_current_network tcdb tcs mcc mnc =
    (let tcs = tcs\<lparr>c_mcc := of_int mcc, c_mnc := of_int mnc\<rparr>;
         tcs = tcs\<lparr>network := first_index
           (\<lambda>i. n_mnc (nets tcdb ! i) = c_mnc tcs \<and> n_mcc (nets tcdb ! i) = c_mcc tcs) (num_nets tcdb)\<rparr>
     in update_current_cck tcdb tcs)"

section \<open>Keystream and decryption\<close>

definition tea_build_iv :: "bool \<Rightarrow> tetra_tdma_time \<Rightarrow> u16 \<Rightarrow> u8 \<Rightarrow> u32 option" where
  "tea_build_iv ndebug tm h dir =
    c_assert ndebug
      ((1 \<le> tn tm \<and> tn tm \<le> 4) \<and> (1 \<le> fn tm \<and> fn tm \<le> 18) \<and> (1 \<le> mn tm \<and> mn tm \<le> 60) \<and> (0 < dir \<and> dir \<le> 1))
      ((tn tm - 1) OR push_bit 2 (fn tm) OR push_bit 7 (mn tm) OR push_bit 13 (ucast (h AND 0x7FFF))
       OR push_bit 28 (ucast dir))"

definition be_bytes16 :: "int \<Rightarrow> u8 list" where
  "be_bytes16 x = [of_int (x div 256), of_int x]"

text \<open>
  The keystream as bits, \<^theory_text>\<open>Some None\<close> when the function returns false. The type of the
  generator is that of the key's network.
\<close>

definition generate_keystream ::
  "bool \<Rightarrow> tetra_crypto_database \<Rightarrow> tetra_crypto_state \<Rightarrow> nat option \<Rightarrow> tetra_tdma_time \<Rightarrow> nat \<Rightarrow> u8 list option option" where
  "generate_keystream ndebug tcdb tcs k t num_bits =
    (case k of
       None \<Rightarrow> Some None
     | Some ki \<Rightarrow>
        let num_bytes = (num_bits + 7) div 8 in
        Option.bind (tea_build_iv ndebug t (of_int (c_hn tcs)) 0) (\<lambda>iv.
        if c_cn tcs < 0 \<or> c_la tcs < 0 \<or> c_cc tcs < 0 then Some None
        else
          Option.bind (tb5 ndebug (be_bytes16 (c_cn tcs)) (be_bytes16 (c_la tcs)) (of_int (c_cc tcs)) (take 10 (key (keys tcdb ! ki)))) (\<lambda>eck.
          Option.bind (network_info (keys tcdb ! ki)) (\<lambda>ni.
            let ksg = ksg_type (nets tcdb ! ni);
                expand = (\<lambda>ks_bytes :: u8 list. map (\<lambda>i. drop_bit (7 - i mod 8) (ks_bytes ! (i div 8)) AND 1) [0..<num_bits])
            in if ksg = KSG_TEA1 then Some (Some (expand (tea1 iv eck num_bytes)))
               else if ksg = KSG_TEA2 then Some (Some (expand (tea2 iv eck num_bytes)))
               else if ksg = KSG_TEA3 then Some (Some (expand (tea3 iv eck num_bytes)))
               else Some None))))"

definition decrypt_identity :: "tetra_crypto_state \<Rightarrow> tetra_addr \<Rightarrow> bool" where
  "decrypt_identity tcs a = False"

text \<open>Decryption in place: the flag returned, and the primitive with its message changed.\<close>

definition decrypt_mac_element ::
  "bool \<Rightarrow> tetra_crypto_database \<Rightarrow> tetra_crypto_state \<Rightarrow> tetra_tmvsap_prim \<Rightarrow> nat option \<Rightarrow> int \<Rightarrow> int
    \<Rightarrow> (bool \<times> tetra_tmvsap_prim) option" where
  "decrypt_mac_element ndebug tcdb tcs tmvp k l1_len tmpdu_offset =
    (if k = None \<or> l1_len - tmpdu_offset \<le> 0 then Some (False, tmvp)
     else if c_cn tcs < 0 \<or> c_la tcs < 0 \<or> c_cc tcs < 0 then Some (False, tmvp)
     else
       let t = tdma_time (unitdata tmvp);
           ks_skip_bits = (if blk_num (unitdata tmvp) = BLK_2
               \<and> (lchan (unitdata tmvp) = TETRA_LC_SCH_HD \<or> lchan (unitdata tmvp) = TETRA_LC_UNKNOWN) then 216 else 0);
           m = msg tmvp;
           ct_len = nat (l1_len - tmpdu_offset);
           ks_num_bits = ks_skip_bits + ct_len
       in Option.bind (l1h m) (\<lambda>p.
          Option.bind (generate_keystream ndebug tcdb tcs k t ks_num_bits) (\<lambda>ks.
            case ks of
              None \<Rightarrow> Some (False, tmvp)
            | Some ks \<Rightarrow>
                map_option (\<lambda>m'. (True, tmvp\<lparr>msg := m'\<rparr>))
                  (msgb_write m (p + tmpdu_offset) ct_len (\<lambda>i. mem m (p + tmpdu_offset + int i) XOR ks ! (i + ks_skip_bits))))))"

text \<open>Two half slots of 137 bits, behind the bad-frame words at 0 and 138.\<close>

definition voice_step :: "u8 list \<Rightarrow> u16 list \<Rightarrow> nat \<Rightarrow> u16 list" where
  "voice_step ks b i =
    (let b = b[i + 1 := b ! (i + 1) XOR ucast (ks ! i)]
     in b[i + 139 := b ! (i + 139) XOR ucast (ks ! (i + 137))])"

definition decrypt_voice_timeslot ::
  "bool \<Rightarrow> tetra_crypto_database \<Rightarrow> tetra_crypto_state \<Rightarrow> tetra_tdma_time \<Rightarrow> u16 list \<Rightarrow> (bool \<times> u16 list) option" where
  "decrypt_voice_timeslot ndebug tcdb tcs t type1_block =
    (if cck tcs = None then Some (False, type1_block)
     else if c_cn tcs < 0 \<or> c_la tcs < 0 \<or> c_cc tcs < 0 then Some (False, type1_block)
     else
       Option.bind (generate_keystream ndebug tcdb tcs (cck tcs) t (137 * 2)) (\<lambda>ks.
         case ks of
           None \<Rightarrow> Some (False, type1_block)
         | Some ks \<Rightarrow> Some (True, foldl (voice_step ks) type1_block [0..<137])))"

section \<open>The key store file\<close>

text \<open>The conversions of \<open>sscanf\<close> that the two formats use.\<close>

datatype directive = Space | Lit char | Dec | Hex2

definition isspace :: "char \<Rightarrow> bool" where
  "isspace c \<longleftrightarrow> c = CHR '' '' \<or> c \<in> {CHR 0x09, CHR 0x0A, CHR 0x0B, CHR 0x0C, CHR 0x0D}"

definition isdigit :: "char \<Rightarrow> bool" where
  "isdigit c \<longleftrightarrow> 48 \<le> (of_char c :: nat) \<and> (of_char c :: nat) \<le> 57"

definition digit_val :: "char \<Rightarrow> int" where
  "digit_val c = of_char c - 48"

definition hex_val :: "char \<Rightarrow> int option" where
  "hex_val c =
    (let n = of_char c :: int
     in if 48 \<le> n \<and> n \<le> 57 then Some (n - 48)
        else if 65 \<le> n \<and> n \<le> 70 then Some (n - 55)
        else if 97 \<le> n \<and> n \<le> 102 then Some (n - 87)
        else None)"

definition split_sign :: "string \<Rightarrow> int \<times> string" where
  "split_sign s = (case s of [] \<Rightarrow> (1, [])
    | c # r \<Rightarrow> if c = CHR ''-'' then (- 1, r) else if c = CHR ''+'' then (1, r) else (1, s))"

definition conv_dec :: "string \<Rightarrow> (int \<times> string) option" where
  "conv_dec s =
    (let (sg, r) = split_sign (dropWhile isspace s);
         ds = takeWhile isdigit r
     in if ds = [] then None
        else Some (sg * foldl (\<lambda>v c. 10 * v + digit_val c) 0 ds, dropWhile isdigit r))"

text \<open>At most two characters, a sign or the prefix \<open>0x\<close> among them.\<close>

definition conv_hex2 :: "string \<Rightarrow> (int \<times> string) option" where
  "conv_hex2 s =
    (case dropWhile isspace s of
       [] \<Rightarrow> None
     | c # r \<Rightarrow>
        if c = CHR ''+'' \<or> c = CHR ''-'' then
          (case r of [] \<Rightarrow> None
           | d # r' \<Rightarrow> map_option (\<lambda>v. (if c = CHR ''-'' then - v else v, r')) (hex_val d))
        else
          (case hex_val c of None \<Rightarrow> None
           | Some v \<Rightarrow>
              (case r of [] \<Rightarrow> Some (v, [])
               | d # r' \<Rightarrow>
                  if c = CHR ''0'' \<and> (d = CHR ''x'' \<or> d = CHR ''X'') then None
                  else (case hex_val d of None \<Rightarrow> Some (v, r) | Some w \<Rightarrow> Some (16 * v + w, r')))))"

text \<open>The values converted before the first mismatch.\<close>

fun sscanf :: "directive list \<Rightarrow> string \<Rightarrow> int list" where
  "sscanf [] s = []"
| "sscanf (Space # ds) s = sscanf ds (dropWhile isspace s)"
| "sscanf (Lit c # ds) s = (case s of [] \<Rightarrow> [] | x # r \<Rightarrow> if x = c then sscanf ds r else [])"
| "sscanf (Dec # ds) s = (case conv_dec s of None \<Rightarrow> [] | Some (v, r) \<Rightarrow> v # sscanf ds r)"
| "sscanf (Hex2 # ds) s = (case conv_hex2 s of None \<Rightarrow> [] | Some (v, r) \<Rightarrow> v # sscanf ds r)"

definition lits :: "string \<Rightarrow> directive list" where
  "lits = map (\<lambda>c. if isspace c then Space else Lit c)"

definition network_format :: "directive list" where
  "network_format = lits ''network mcc '' @ [Dec] @ lits '' mnc '' @ [Dec] @ lits '' ksg_type '' @ [Dec]
    @ lits '' security_class '' @ [Dec, Space]"

definition key_format :: "directive list" where
  "key_format = lits ''key mcc '' @ [Dec] @ lits '' mnc '' @ [Dec] @ lits '' addr '' @ [Dec]
    @ lits '' key_type '' @ [Dec] @ lits '' key_num '' @ [Dec] @ lits '' key '' @ replicate 10 Hex2 @ [Space]"

datatype load_error = Exit_1 | Out_of_bounds

text \<open>Each \<open>%02X\<close> stores four bytes, low byte first, at its place in the key.\<close>

definition le_bytes :: "u32 \<Rightarrow> u8 list" where
  "le_bytes w = [ucast w, ucast (drop_bit 8 w), ucast (drop_bit 16 w), ucast (drop_bit 24 w)]"

definition store_key_bytes :: "u8 list \<Rightarrow> int list \<Rightarrow> u8 list" where
  "store_key_bytes k vs = foldl (\<lambda>k i. blit k i (le_bytes (of_int (vs ! i)))) k [0..<10]"

text \<open>Both branches grow the network array, whose recorded size is never updated.\<close>

definition grow_nets :: "tetra_netinfo \<Rightarrow> nat \<Rightarrow> tetra_crypto_database \<Rightarrow> tetra_crypto_database" where
  "grow_nets n0 i tcdb =
    (if 0 < i \<and> i mod TCDB_ALLOC_BLOCK_SIZE = 0
     then tcdb\<lparr>nets := take (nets_cnt tcdb) (nets tcdb) @ replicate (i + TCDB_ALLOC_BLOCK_SIZE - nets_cnt tcdb) n0\<rparr>
     else tcdb)"

definition load_network :: "tetra_netinfo \<Rightarrow> string \<Rightarrow> tetra_crypto_database \<Rightarrow> load_error + tetra_crypto_database" where
  "load_network n0 buf tcdb =
    (let i = num_nets tcdb;
         tcdb = grow_nets n0 i tcdb
     in if length (nets tcdb) \<le> i then Inl Out_of_bounds
        else
          let v = sscanf network_format buf
          in if length v \<noteq> 4 then Inl Exit_1
             else Inr (tcdb\<lparr>nets := (nets tcdb)[i := \<lparr>n_mcc = of_int (v ! 0), n_mnc = of_int (v ! 1),
                         ksg_type = of_int (v ! 2), security_class = of_int (v ! 3)\<rparr>],
                       num_nets := num_nets tcdb + 1\<rparr>))"

definition load_key :: "tetra_netinfo \<Rightarrow> string \<Rightarrow> tetra_crypto_database \<Rightarrow> load_error + tetra_crypto_database" where
  "load_key n0 buf tcdb =
    (let i = num_keys tcdb;
         tcdb = grow_nets n0 i tcdb
     in if length (keys tcdb) \<le> i then Inl Out_of_bounds
        else
          let v = sscanf key_format buf
          in if length v \<noteq> 15 then Inl Exit_1
             else Inr (tcdb\<lparr>keys := (keys tcdb)[i := (keys tcdb ! i)\<lparr>k_mcc := of_int (v ! 0), k_mnc := of_int (v ! 1),
                         addr := of_int (v ! 2), key_type := of_int (v ! 3), key_num := of_int (v ! 4),
                         key := store_key_bytes (key (keys tcdb ! i)) (drop 5 v), k_index := of_nat i\<rparr>],
                       num_keys := num_keys tcdb + 1\<rparr>))"

text \<open>One line as \<open>fgets\<close> returns it.\<close>

definition load_line :: "tetra_netinfo \<Rightarrow> string \<Rightarrow> tetra_crypto_database \<Rightarrow> load_error + tetra_crypto_database" where
  "load_line n0 buf tcdb =
    (if length buf \<le> 1 \<or> hd buf = CHR ''#'' then Inr tcdb
     else if take 8 buf = ''network '' then load_network n0 buf tcdb
     else if take 4 buf = ''key '' then load_key n0 buf tcdb
     else Inl Exit_1)"

fun load_lines :: "tetra_netinfo \<Rightarrow> string list \<Rightarrow> tetra_crypto_database \<Rightarrow> load_error + tetra_crypto_database" where
  "load_lines n0 [] tcdb = Inr tcdb"
| "load_lines n0 (l # ls) tcdb =
    (case load_line n0 l tcdb of Inl e \<Rightarrow> Inl e | Inr tcdb' \<Rightarrow> load_lines n0 ls tcdb')"

text \<open>The last loop: every key gets the pointer to its network.\<close>

fun link_keys :: "nat list \<Rightarrow> tetra_crypto_database \<Rightarrow> load_error + tetra_crypto_database" where
  "link_keys [] tcdb = Inr tcdb"
| "link_keys (i # is) tcdb =
    (case get_network_info tcdb (k_mcc (keys tcdb ! i)) (k_mnc (keys tcdb ! i)) of
       None \<Rightarrow> Inl Exit_1
     | Some ni \<Rightarrow> link_keys is (tcdb\<lparr>keys := (keys tcdb)[i := (keys tcdb ! i)\<lparr>network_info := Some ni\<rparr>]\<rparr>))"

text \<open>\<open>k0\<close> and \<open>n0\<close> are the contents of fresh memory; a file that cannot be opened is \<^theory_text>\<open>None\<close>.\<close>

definition load_keystore ::
  "tetra_key \<Rightarrow> tetra_netinfo \<Rightarrow> string list option \<Rightarrow> load_error + tetra_crypto_database" where
  "load_keystore k0 n0 file =
    (case file of
       None \<Rightarrow> Inl Exit_1
     | Some ls \<Rightarrow>
        (case load_lines n0 ls (tetra_crypto_db_init k0 n0) of
           Inl e \<Rightarrow> Inl e
         | Inr tcdb \<Rightarrow> link_keys [0..<num_keys tcdb] tcdb))"

section \<open>The initialisation vector\<close>

lemma iv_bits:
  fixes t f m h :: u32
  assumes "t < 4" "f < 32" "m < 64" "h < 32768"
    and iv: "v = t OR push_bit 2 f OR push_bit 7 m OR push_bit 13 h"
  shows "t = v AND mask 2" "f = drop_bit 2 v AND mask 5" "m = drop_bit 7 v AND mask 6" "h = drop_bit 13 v AND mask 15"
proof -
  have t: "\<not> bit t n" if "2 \<le> n" for n using bit_high [of t 2 n] assms that by simp
  have f: "\<not> bit f n" if "5 \<le> n" for n using bit_high [of f 5 n] assms that by simp
  have m: "\<not> bit m n" if "6 \<le> n" for n using bit_high [of m 6 n] assms that by simp
  have h: "\<not> bit h n" if "15 \<le> n" for n using bit_high [of h 15 n] assms that by simp
  have v: "bit v n \<longleftrightarrow> bit t n \<or> 2 \<le> n \<and> bit f (n - 2) \<or> 7 \<le> n \<and> bit m (n - 7) \<or> 13 \<le> n \<and> bit h (n - 13)"
    if "n < 32" for n
    using that unfolding iv by (simp add: bit_or_iff bit_push_bit_iff)
  show "t = v AND mask 2"
  proof (rule bit_word_eqI)
    fix n assume "n < LENGTH(32)"
    then show "bit t n \<longleftrightarrow> bit (v AND mask 2) n"
      using t [of n] by (cases "n < 2") (auto simp: bit_and_iff bit_mask_iff v)
  qed
  show "f = drop_bit 2 v AND mask 5"
  proof (rule bit_word_eqI)
    fix n assume "n < LENGTH(32)"
    then show "bit f n \<longleftrightarrow> bit (drop_bit 2 v AND mask 5) n"
      using t [of "2 + n"] f [of n] by (cases "n < 5") (auto simp: bit_and_iff bit_mask_iff bit_drop_bit_eq v)
  qed
  show "m = drop_bit 7 v AND mask 6"
  proof (rule bit_word_eqI)
    fix n assume "n < LENGTH(32)"
    then show "bit m n \<longleftrightarrow> bit (drop_bit 7 v AND mask 6) n"
      using t [of "7 + n"] f [of "5 + n"] m [of n]
      by (cases "n < 6") (auto simp: bit_and_iff bit_mask_iff bit_drop_bit_eq v)
  qed
  show "h = drop_bit 13 v AND mask 15"
  proof (rule bit_word_eqI)
    fix n assume "n < LENGTH(32)"
    then show "bit h n \<longleftrightarrow> bit (drop_bit 13 v AND mask 15) n"
      using t [of "13 + n"] f [of "11 + n"] m [of "6 + n"] h [of n]
      by (cases "n < 15") (auto simp: bit_and_iff bit_mask_iff bit_drop_bit_eq v)
  qed
qed

lemma masks_15: "0x7FFF = (mask 15 :: u16)"
  by (simp add: mask_eq_exp_minus_1)

lemma hn_field_less: "ucast (h AND 0x7FFF) < (32768 :: u32)" for h :: u16
proof -
  have "h AND 0x7FFF < 2 ^ 15" unfolding masks_15 by (rule and_mask_less') simp
  then have "unat (h AND 0x7FFF) < 32768" by (simp add: word_less_nat_alt)
  then show ?thesis by (simp add: word_less_nat_alt)
qed

lemma iv_value:
  assumes "valid_time tm"
  shows "tea_build_iv True tm h 0 =
    Some ((tn tm - 1) OR push_bit 2 (fn tm) OR push_bit 7 (mn tm) OR push_bit 13 (ucast (h AND 0x7FFF)))"
    "tn tm - 1 < 4" "fn tm < 32" "mn tm < 64"
  using assms by (auto simp: tea_build_iv_def c_assert_def valid_time_nat word_less_nat_alt unat_sub word_le_nat_alt)

lemma iv_injective:
  assumes a: "valid_time a" and b: "valid_time b"
  shows "tea_build_iv True a h 0 = tea_build_iv True b k 0 \<longleftrightarrow>
    tn a = tn b \<and> fn a = fn b \<and> mn a = mn b \<and> h AND 0x7FFF = k AND 0x7FFF"
proof
  assume "tea_build_iv True a h 0 = tea_build_iv True b k 0"
  then have eq: "(tn a - 1) OR push_bit 2 (fn a) OR push_bit 7 (mn a) OR push_bit 13 (ucast (h AND 0x7FFF)) =
      (tn b - 1) OR push_bit 2 (fn b) OR push_bit 7 (mn b) OR push_bit 13 (ucast (k AND 0x7FFF))"
    by (simp add: iv_value(1) [OF a] iv_value(1) [OF b])
  note A = iv_bits [OF iv_value(2-4) [OF a] hn_field_less eq [symmetric]]
  note B = iv_bits [OF iv_value(2-4) [OF b] hn_field_less refl]
  have "ucast (h AND 0x7FFF) = (ucast (k AND 0x7FFF) :: u32)" using A(4) B(4) by simp
  then have "h AND 0x7FFF = k AND 0x7FFF" by (metis unat_widen_c(4) word_unat_eq_iff)
  moreover have "tn a = tn b" using A(1) B(1) by simp
  moreover have "fn a = fn b" using A(2) B(2) by simp
  moreover have "mn a = mn b" using A(3) B(3) by simp
  ultimately show "tn a = tn b \<and> fn a = fn b \<and> mn a = mn b \<and> h AND 0x7FFF = k AND 0x7FFF" by simp
qed (simp add: tea_build_iv_def)

lemma iv_downlink_asserts: "tea_build_iv False tm h 0 = None"
  by (simp add: tea_build_iv_def c_assert_def)

section \<open>Decryption\<close>

lemma xor_twice_write:
  assumes "msgb_write m p n (\<lambda>i. mem m (p + int i) XOR k i) = Some m'"
  shows "msgb_write m' p n (\<lambda>i. mem m' (p + int i) XOR k i) = Some m"
    "q < p \<or> p + int n \<le> q \<Longrightarrow> mem m' q = mem m q"
proof -
  have ok: "n = 0 \<or> 0 \<le> p \<and> p + int n \<le> int (unat (data_len m))"
    using assms unfolding msgb_write_def by (metis option.distinct(1))
  then have m': "m' = m\<lparr>mem := (\<lambda>i. if p \<le> i \<and> i < p + int n then mem m i XOR k (nat (i - p)) else mem m i)\<rparr>"
  proof -
    have "(\<lambda>i. if p \<le> i \<and> i < p + int n then mem m (p + int (nat (i - p))) XOR k (nat (i - p)) else mem m i)
        = (\<lambda>i. if p \<le> i \<and> i < p + int n then mem m i XOR k (nat (i - p)) else mem m i)"
      by (rule ext) simp
    then show ?thesis using assms ok unfolding msgb_write_def by (simp only: if_True option.inject)
  qed
  have "(\<lambda>i. if p \<le> i \<and> i < p + int n then mem m' (p + int (nat (i - p))) XOR k (nat (i - p)) else mem m' i) = mem m"
    unfolding m' by (rule ext) simp
  then show "msgb_write m' p n (\<lambda>i. mem m' (p + int i) XOR k i) = Some m"
    using ok unfolding msgb_write_def by (simp add: m')
  show "q < p \<or> p + int n \<le> q \<Longrightarrow> mem m' q = mem m q" unfolding m' by auto
qed

lemma decrypt_mac_twice:
  assumes "decrypt_mac_element nd db tcs tmvp k len off = Some (True, tmvp')"
  shows "decrypt_mac_element nd db tcs tmvp' k len off = Some (True, tmvp)"
    "unitdata tmvp' = unitdata tmvp" "l1h (msg tmvp') = l1h (msg tmvp)"
    "q < the (l1h (msg tmvp)) + off \<Longrightarrow> mem (msg tmvp') q = mem (msg tmvp) q"
proof -
  define skip :: nat where "skip =
    (if blk_num (unitdata tmvp) = BLK_2
        \<and> (lchan (unitdata tmvp) = TETRA_LC_SCH_HD \<or> lchan (unitdata tmvp) = TETRA_LC_UNKNOWN) then 216 else 0)"
  have g: "k \<noteq> None" "\<not> len - off \<le> 0" "\<not> (c_cn tcs < 0 \<or> c_la tcs < 0 \<or> c_cc tcs < 0)"
    using assms by (auto simp: decrypt_mac_element_def split: if_splits)
  obtain p ks m' where p: "l1h (msg tmvp) = Some p"
    and ks: "generate_keystream nd db tcs k (tdma_time (unitdata tmvp)) (skip + nat (len - off)) = Some (Some ks)"
    and m': "msgb_write (msg tmvp) (p + off) (nat (len - off)) (\<lambda>i. mem (msg tmvp) (p + off + int i) XOR ks ! (i + skip)) = Some m'"
    and t: "tmvp' = tmvp\<lparr>msg := m'\<rparr>"
    using assms g unfolding decrypt_mac_element_def Let_def skip_def [symmetric]
    by (auto simp: bind_eq_Some_conv split: option.splits if_splits)
  note w = xor_twice_write [OF m']
  have l: "l1h m' = l1h (msg tmvp)" using m' by (auto simp: msgb_write_def split: if_splits)
  show "unitdata tmvp' = unitdata tmvp" "l1h (msg tmvp') = l1h (msg tmvp)" using t l by simp_all
  show "q < the (l1h (msg tmvp)) + off \<Longrightarrow> mem (msg tmvp') q = mem (msg tmvp) q" using t w(2) p by simp
  have "decrypt_mac_element nd db tcs tmvp' k len off = Some (True, tmvp'\<lparr>msg := msg tmvp\<rparr>)"
    using g unfolding decrypt_mac_element_def Let_def t
    by (simp add: l p ks w(1) flip: skip_def)
  then show "decrypt_mac_element nd db tcs tmvp' k len off = Some (True, tmvp)" by (simp add: t)
qed

text \<open>The loop over the two half slots, element by element.\<close>

lemma voice_step_nth:
  assumes "length b = 276" "n \<le> 136"
  shows "length (voice_step ks b n) = 276"
    "j < 276 \<Longrightarrow> voice_step ks b n ! j =
      (if j = n + 1 then b ! j XOR ucast (ks ! n) else if j = n + 139 then b ! j XOR ucast (ks ! (n + 137)) else b ! j)"
  using assms by (auto simp: voice_step_def Let_def nth_list_update)

lemma voice_loop:
  assumes "length b = 276" "n \<le> 137"
  shows "length (foldl (voice_step ks) b [0..<n]) = 276"
    "j < 276 \<Longrightarrow> foldl (voice_step ks) b [0..<n] ! j =
      (if 1 \<le> j \<and> j \<le> n then b ! j XOR ucast (ks ! (j - 1))
       else if 139 \<le> j \<and> j < 139 + n then b ! j XOR ucast (ks ! (j - 2))
       else (b ! j :: u16))"
proof -
  have "length (foldl (voice_step ks) b [0..<n]) = 276 \<and> (\<forall>j<276. foldl (voice_step ks) b [0..<n] ! j =
      (if 1 \<le> j \<and> j \<le> n then b ! j XOR ucast (ks ! (j - 1))
       else if 139 \<le> j \<and> j < 139 + n then b ! j XOR ucast (ks ! (j - 2)) else b ! j))"
    using assms(2)
  proof (induction n)
    case (Suc n)
    then have IH: "length (foldl (voice_step ks) b [0..<n]) = 276" "\<And>j. j < 276 \<Longrightarrow> foldl (voice_step ks) b [0..<n] ! j =
      (if 1 \<le> j \<and> j \<le> n then b ! j XOR ucast (ks ! (j - 1))
       else if 139 \<le> j \<and> j < 139 + n then b ! j XOR ucast (ks ! (j - 2)) else b ! j)" by simp_all
    have "foldl (voice_step ks) b [0..<Suc n] = voice_step ks (foldl (voice_step ks) b [0..<n]) n" by simp
    moreover have "n \<le> 136" using Suc.prems by simp
    note st = voice_step_nth [OF IH(1) this, where ks = ks]
    have "(\<forall>j<276. voice_step ks (foldl (voice_step ks) b [0..<n]) n ! j =
        (if 1 \<le> j \<and> j \<le> Suc n then b ! j XOR ucast (ks ! (j - 1))
         else if 139 \<le> j \<and> j < 139 + Suc n then b ! j XOR ucast (ks ! (j - 2)) else b ! j))"
      using \<open>n \<le> 136\<close> by (auto simp: st(2) IH(2) add.commute)
    ultimately show ?case using st(1) by simp
  qed (auto simp: assms(1))
  then show "length (foldl (voice_step ks) b [0..<n]) = 276"
    "j < 276 \<Longrightarrow> foldl (voice_step ks) b [0..<n] ! j =
      (if 1 \<le> j \<and> j \<le> n then b ! j XOR ucast (ks ! (j - 1))
       else if 139 \<le> j \<and> j < 139 + n then b ! j XOR ucast (ks ! (j - 2)) else b ! j)" by blast+
qed

lemma voice_twice:
  assumes "length b = 276" "decrypt_voice_timeslot nd db tcs t b = Some (True, b')"
  shows "decrypt_voice_timeslot nd db tcs t b' = Some (True, b)" "b' ! 0 = b ! 0" "b' ! 138 = b ! 138" "length b' = 276"
proof -
  let ?F = "\<lambda>ks b. foldl (voice_step ks) b [0..<137]"
  have g: "cck tcs \<noteq> None" "\<not> (c_cn tcs < 0 \<or> c_la tcs < 0 \<or> c_cc tcs < 0)"
    using assms(2) by (auto simp: decrypt_voice_timeslot_def split: if_splits)
  obtain ks where ks: "generate_keystream nd db tcs (cck tcs) t (137 * 2) = Some (Some ks)" and b': "b' = ?F ks b"
    using assms(2) g unfolding decrypt_voice_timeslot_def
    by (auto simp: bind_eq_Some_conv simp del: mult_numeral_left_semiring_numeral num_double split: option.splits if_splits)
  note v = voice_loop [OF assms(1) order_refl, where ks = ks]
  show len: "length b' = 276" and "b' ! 0 = b ! 0" "b' ! 138 = b ! 138" unfolding b' using v by simp_all
  have "?F ks b' = b"
    using voice_loop [OF len order_refl, where ks = ks] v assms(1) unfolding b' by (intro nth_equalityI) simp_all
  then show "decrypt_voice_timeslot nd db tcs t b' = Some (True, b)"
    using g unfolding decrypt_voice_timeslot_def by (simp only: ks if_False bind.bind_lunit option.case)
qed


section \<open>Key selection and loading\<close>

lemmas first_index_Some = find_upt_Some [folded first_index_def]
lemmas first_index_None = find_upt_None [folded first_index_def]

text \<open>What the selected key must satisfy.\<close>

definition key_fits :: "tetra_crypto_state \<Rightarrow> tetra_key \<Rightarrow> bool" where
  "key_fits tcs k \<longleftrightarrow> k_mcc k = c_mcc tcs \<and> k_mnc k = c_mnc tcs \<and> key_num k = c_cck_id tcs \<and> key_type k = KEYTYPE_CCK_SCK"

definition net_fits :: "tetra_crypto_state \<Rightarrow> tetra_netinfo \<Rightarrow> bool" where
  "net_fits tcs n \<longleftrightarrow> n_mnc n = c_mnc tcs \<and> n_mcc n = c_mcc tcs"

lemma update_cck_eq: "update_current_cck db tcs = tcs\<lparr>cck := first_index (\<lambda>i. key_fits tcs (keys db ! i)) (num_keys db)\<rparr>"
  by (simp add: update_current_cck_def key_fits_def Let_def)

lemma update_network_eq:
  "update_current_network db tcs mcc mnc =
    (let tcs' = tcs\<lparr>c_mcc := of_int mcc, c_mnc := of_int mnc\<rparr>
     in tcs'\<lparr>network := first_index (\<lambda>i. net_fits tcs' (nets db ! i)) (num_nets db),
             cck := first_index (\<lambda>i. key_fits tcs' (keys db ! i)) (num_keys db)\<rparr>)"
  by (simp add: update_current_network_def update_cck_eq Let_def net_fits_def key_fits_def)

text \<open>The invariant of loading: the key array keeps its 16 places, the recorded network size too.\<close>

definition loading :: "tetra_crypto_database \<Rightarrow> bool" where
  "loading db \<longleftrightarrow> length (keys db) = 16 \<and> num_keys db \<le> 16 \<and> nets_cnt db = 16"

lemma grow_nets_simps [simp]:
  "keys (grow_nets n0 i db) = keys db" "num_keys (grow_nets n0 i db) = num_keys db"
  "nets_cnt (grow_nets n0 i db) = nets_cnt db" "num_nets (grow_nets n0 i db) = num_nets db"
  by (simp_all add: grow_nets_def)

lemma load_line_loading: "load_line n0 l db = Inr db' \<Longrightarrow> loading db \<Longrightarrow> loading db'"
  by (auto simp: load_line_def load_network_def load_key_def loading_def Let_def split: if_splits)

lemma load_lines_loading: "load_lines n0 ls db = Inr db' \<Longrightarrow> loading db \<Longrightarrow> loading db'"
proof (induction ls arbitrary: db)
  case (Cons l ls)
  then show ?case by (auto split: sum.splits intro: load_line_loading)
qed simp

lemma loading_init: "loading (tetra_crypto_db_init k0 n0)"
  by (simp add: loading_def tetra_crypto_db_init_def TCDB_ALLOC_BLOCK_SIZE_def)

lemma load_lines_append:
  "load_lines n0 (ls @ ls') db = (case load_lines n0 ls db of Inl e \<Rightarrow> Inl e | Inr db' \<Rightarrow> load_lines n0 ls' db')"
  by (induction ls arbitrary: db) (auto split: sum.splits)

lemma load_17th_key:
  assumes "loading db" "num_keys db = 16" "take 4 l = ''key ''"
  shows "load_line n0 l db = Inl Out_of_bounds"
proof -
  obtain r where l: "l = ''key '' @ r"
    using assms(3) append_take_drop_id [of 4 l] by metis
  show ?thesis
    using assms(1,2) by (simp add: l load_line_def load_key_def loading_def Let_def)
qed

lemma load_more_keys:
  assumes "length (sscanf key_format l) = 15" "take 4 l = ''key ''"
    and "loading db" "num_keys db + n \<le> 16"
  shows "\<exists>db'. load_lines n0 (replicate n l) db = Inr db' \<and> num_keys db' = num_keys db + n"
  using assms(3,4)
proof (induction n arbitrary: db)
  case (Suc n)
  obtain r where l: "l = ''key '' @ r"
    using assms(2) append_take_drop_id [of 4 l] by metis
  have "\<exists>db1. load_line n0 l db = Inr db1 \<and> num_keys db1 = num_keys db + 1"
    using Suc.prems assms(1) by (simp add: l load_line_def load_key_def loading_def Let_def)
  then obtain db1 where 1: "load_line n0 l db = Inr db1" "num_keys db1 = num_keys db + 1" by blast
  have "loading db1" by (rule load_line_loading [OF 1(1) Suc.prems(1)])
  then obtain db' where "load_lines n0 (replicate n l) db1 = Inr db'" "num_keys db' = num_keys db1 + n"
    using Suc.IH [of db1] Suc.prems(2) 1(2) by auto
  then show ?case using 1 by simp
qed simp

text \<open>The third block of networks drops the second: only the first 16 are copied.\<close>

lemma grow_nets_forgets:
  assumes "nets_cnt db = 16" "length (nets db) = 32" "16 \<le> i" "i < 32"
  shows "nets (grow_nets n0 32 db) ! i = n0"
  using assms by (simp add: grow_nets_def TCDB_ALLOC_BLOCK_SIZE_def nth_append)

lemma link_keys_ok:
  assumes "link_keys is db = Inr db'" "\<forall>i\<in>set is. i < length (keys db)"
  shows "num_keys db' = num_keys db \<and> num_nets db' = num_nets db \<and> nets db' = nets db \<and>
    length (keys db') = length (keys db) \<and>
    (\<forall>i. (keys db' ! i)\<lparr>network_info := None\<rparr> = (keys db ! i)\<lparr>network_info := None\<rparr>) \<and>
    (\<forall>i. i \<notin> set is \<longrightarrow> keys db' ! i = keys db ! i) \<and>
    (\<forall>i\<in>set is. \<exists>ni. network_info (keys db' ! i) = Some ni \<and>
      get_network_info db (k_mcc (keys db ! i)) (k_mnc (keys db ! i)) = Some ni)"
  using assms
proof (induction "is" arbitrary: db)
  case (Cons j js)
  obtain ni where ni: "get_network_info db (k_mcc (keys db ! j)) (k_mnc (keys db ! j)) = Some ni"
    using Cons.prems(1) by (auto split: option.splits)
  define db1 where "db1 = db\<lparr>keys := (keys db)[j := (keys db ! j)\<lparr>network_info := Some ni\<rparr>]\<rparr>"
  have j: "j < length (keys db)" using Cons.prems(2) by simp
  have g: "get_network_info db1 a b = get_network_info db a b" for a b
    by (simp add: db1_def get_network_info_def)
  have k1: "k_mcc (keys db1 ! i) = k_mcc (keys db ! i)" "k_mnc (keys db1 ! i) = k_mnc (keys db ! i)"
    "(keys db1 ! i)\<lparr>network_info := None\<rparr> = (keys db ! i)\<lparr>network_info := None\<rparr>"
    "i \<noteq> j \<Longrightarrow> keys db1 ! i = keys db ! i" "network_info (keys db1 ! j) = Some ni" for i
    using j by (cases "i = j"; simp add: db1_def)+
  have "link_keys js db1 = Inr db'" "\<forall>i\<in>set js. i < length (keys db1)"
    using Cons.prems ni by (simp_all add: db1_def)
  note IH = Cons.IH [OF this]
  have d: "num_keys db1 = num_keys db" "num_nets db1 = num_nets db" "nets db1 = nets db"
    "length (keys db1) = length (keys db)" by (simp_all add: db1_def)
  have "\<exists>n. network_info (keys db' ! i) = Some n \<and>
      get_network_info db (k_mcc (keys db ! i)) (k_mnc (keys db ! i)) = Some n" if "i \<in> set (j # js)" for i
  proof (cases "i \<in> set js")
    case True
    then show ?thesis using IH by (auto simp: g k1(1,2))
  next
    case False
    then have "i = j" using that by simp
    then show ?thesis using IH False ni k1(5) by auto
  qed
  moreover have "(keys db' ! i)\<lparr>network_info := None\<rparr> = (keys db ! i)\<lparr>network_info := None\<rparr>" for i
    using IH k1(3) by simp
  moreover have "keys db' ! i = keys db ! i" if "i \<notin> set (j # js)" for i using IH k1(4) that by simp
  ultimately show ?case using IH d by simp
qed simp

lemma keystore_ok:
  assumes "load_keystore k0 n0 file = Inr db"
  shows "num_keys db \<le> 16" "i < num_keys db \<Longrightarrow> \<exists>j<num_nets db. network_info (keys db ! i) = Some j \<and>
    n_mcc (nets db ! j) = k_mcc (keys db ! i) \<and> n_mnc (nets db ! j) = k_mnc (keys db ! i)"
proof -
  obtain ls db1 where ls: "load_lines n0 ls (tetra_crypto_db_init k0 n0) = Inr db1"
    and lk: "link_keys [0..<num_keys db1] db1 = Inr db"
    using assms by (auto simp: load_keystore_def split: option.splits sum.splits)
  have "loading db1" by (rule load_lines_loading [OF ls loading_init])
  then have L: "length (keys db1) = 16" "num_keys db1 \<le> 16" by (simp_all add: loading_def)
  then have "\<forall>i\<in>set [0..<num_keys db1]. i < length (keys db1)" by auto
  note K = link_keys_ok [OF lk this]
  then show "num_keys db \<le> 16" using L by simp
  assume "i < num_keys db"
  then have "i \<in> set [0..<num_keys db1]" using K by simp
  then obtain ni where ni: "network_info (keys db ! i) = Some ni"
      "get_network_info db1 (k_mcc (keys db1 ! i)) (k_mnc (keys db1 ! i)) = Some ni"
    using K by blast
  have "(keys db ! i)\<lparr>network_info := None\<rparr> = (keys db1 ! i)\<lparr>network_info := None\<rparr>" using K by blast
  then have "k_mcc (keys db ! i) = k_mcc (keys db1 ! i)" "k_mnc (keys db ! i) = k_mnc (keys db1 ! i)"
    by (metis tetra_key.select_convs(2,3) tetra_key.surjective tetra_key.update_convs(8))+
  then show "\<exists>j<num_nets db. network_info (keys db ! i) = Some j \<and>
      n_mcc (nets db ! j) = k_mcc (keys db ! i) \<and> n_mnc (nets db ! j) = k_mnc (keys db ! i)"
    using ni K by (auto simp: get_network_info_def first_index_Some)
qed


section \<open>An example: one network, one key, a half slot\<close>

definition example_db :: tetra_crypto_database where
  "example_db = \<lparr>num_keys = 1,
     keys = [\<lparr>k_index = 0, k_mnc = 2, k_mcc = 1, key_type = 1, key_num = 3, addr = 0, key = replicate 16 7, network_info = Some 0\<rparr>],
     num_nets = 1, nets = [\<lparr>n_mcc = 1, n_mnc = 2, ksg_type = 1, security_class = 2\<rparr>], nets_cnt = 16\<rparr>"

definition example_tcs :: tetra_crypto_state where
  "example_tcs = \<lparr>c_mnc = 2, c_mcc = 1, c_cck_id = 3, c_hn = 9, c_la = 5, c_cn = 100, c_cc = 1,
     network = Some 0, cck = Some 0\<rparr>"

definition example_time :: tetra_tdma_time where
  "example_time = \<lparr>hn = 0, sn = 1, tn = 2, fn = 3, mn = 4\<rparr>"

definition example_prim :: tetra_tmvsap_prim where
  "example_prim = \<lparr>sap = TETRA_SAP_TMV, primitive = PRIM_TMV_UNITDATA, operation = PRIM_OP_INDICATION,
     msg = (msgb_alloc (\<lambda>_. 0) 412)\<lparr>tail := 124, l1h := Some 0\<rparr>,
     unitdata = \<lparr>mac_block_len = 0, lchan = TETRA_LC_SCH_F, crc_ok = 1, scrambling_code = 0,
       tdma_time = example_time, blk_num = 0\<rparr>\<rparr>"

definition example_network_line :: string where
  "example_network_line = ''network mcc 1 mnc 2 ksg_type 1 security_class 2'' @ [CHR 0x0A]"

definition example_key_line :: string where
  "example_key_line = ''key mcc 1 mnc 2 addr 00000000 key_type 1 key_num 003 key 1234deadbeefcafebabe'' @ [CHR 0x0A]"

lemma example_keystream: "\<exists>ks. generate_keystream True example_db example_tcs (Some 0) t n = Some (Some ks)"
  by (simp add: generate_keystream_def tea_build_iv_def tb5_def c_assert_def example_db_def example_tcs_def
      KSG_TEA1_def Let_def split: prod.split)

section \<open>Properties\<close>

text \<open>
  With assertions compiled out, two valid TDMA times and hyperframe numbers give the same
  initialisation vector exactly when slot, frame and multiframe agree and the hyperframe numbers agree
  in their low 15 bits: within that period no slot's keystream reuses another's vector.
\<close>
theorem initialisation_vectors_unique:
  assumes "valid_time a" "valid_time b"
  shows "tea_build_iv True a h 0 = tea_build_iv True b k 0 \<longleftrightarrow>
    tn a = tn b \<and> fn a = fn b \<and> mn a = mn b \<and> h AND 0x7FFF = k AND 0x7FFF"
  using assms by (rule iv_injective)

theorem initialisation_vectors_unique_witness:
  "tea_build_iv True \<lparr>hn = 0, sn = 1, tn = 2, fn = 3, mn = 4\<rparr> 5 0 =
      tea_build_iv True \<lparr>hn = 0, sn = 1, tn = 4, fn = 18, mn = 60\<rparr> 5 0 \<longleftrightarrow>
    (2 :: u32) = 4 \<and> (3 :: u32) = 18 \<and> (4 :: u32) = 60 \<and> (5 :: u16) AND 0x7FFF = 5 AND 0x7FFF"
  using initialisation_vectors_unique [of "\<lparr>hn = 0, sn = 1, tn = 2, fn = 3, mn = 4\<rparr>"
      "\<lparr>hn = 0, sn = 1, tn = 4, fn = 18, mn = 60\<rparr>" 5 5]
  by (simp add: valid_time_def)


text \<open>
  C12. Decrypting a MAC element is an involution: applied to its own result with the same crypto state,
  key and length it gives back the original primitive. It keeps the header in front of the element
  and the primitive's parameters.
\<close>
theorem mac_decryption_involution:
  assumes "decrypt_mac_element nd db tcs tmvp k len off = Some (True, tmvp')"
  shows "decrypt_mac_element nd db tcs tmvp' k len off = Some (True, tmvp) \<and> unitdata tmvp' = unitdata tmvp \<and>
    (\<forall>q < the (l1h (msg tmvp)) + off. mem (msg tmvp') q = mem (msg tmvp) q)"
  using decrypt_mac_twice [OF assms] by blast

theorem mac_decryption_involution_witness:
  "\<exists>p'. decrypt_mac_element True example_db example_tcs p' (Some 0) 124 40 = Some (True, example_prim) \<and>
    unitdata p' = unitdata example_prim \<and>
    (\<forall>q < the (l1h (msg example_prim)) + 40. mem (msg p') q = mem (msg example_prim) q)"
proof -
  obtain ks where "generate_keystream True example_db example_tcs (Some 0) (tdma_time (unitdata example_prim)) 84 = Some (Some ks)"
    using example_keystream by blast
  then have "\<exists>p'. decrypt_mac_element True example_db example_tcs example_prim (Some 0) 124 40 = Some (True, p')"
    by (simp add: decrypt_mac_element_def example_tcs_def example_prim_def example_time_def msgb_write_def
        msgb_alloc_def msgb_alloc_c_def Let_def)
  then obtain p' where "decrypt_mac_element True example_db example_tcs example_prim (Some 0) 124 40 = Some (True, p')"
    by blast
  from mac_decryption_involution [OF this] show ?thesis by blast
qed

text \<open>
  Decrypting a voice slot is an involution on the 276 words of the speech decoder's input, and never
  touches the two bad-frame words in front of the half slots.
\<close>
theorem voice_decryption_involution:
  assumes "length b = 276" "decrypt_voice_timeslot nd db tcs t b = Some (True, b')"
  shows "decrypt_voice_timeslot nd db tcs t b' = Some (True, b) \<and> b' ! 0 = b ! 0 \<and> b' ! 138 = b ! 138"
  using voice_twice [OF assms] by blast

theorem voice_decryption_involution_witness:
  "\<exists>b'. decrypt_voice_timeslot True example_db example_tcs example_time b' = Some (True, replicate 276 0) \<and>
    b' ! 0 = replicate 276 0 ! 0 \<and> b' ! 138 = replicate 276 0 ! 138"
proof -
  obtain ks where "generate_keystream True example_db example_tcs (Some 0) example_time 274 = Some (Some ks)"
    using example_keystream by blast
  then have "\<exists>b'. decrypt_voice_timeslot True example_db example_tcs example_time (replicate 276 0) = Some (True, b')"
    by (simp add: decrypt_voice_timeslot_def example_tcs_def)
  then obtain b' where "decrypt_voice_timeslot True example_db example_tcs example_time (replicate 276 0) = Some (True, b')"
    by blast
  from voice_decryption_involution [OF _ this] show ?thesis by auto
qed

text \<open>
  A change of network selects the first network record with the new codes and the first common or
  static cipher key of that network whose number is the one announced, and no network or key when
  there is none.
\<close>
theorem network_change_selects_key:
  assumes "tcs' = update_current_network db tcs mcc mnc"
  shows "(network tcs' = Some i \<longleftrightarrow> i < num_nets db \<and> net_fits tcs' (nets db ! i) \<and> (\<forall>j<i. \<not> net_fits tcs' (nets db ! j))) \<and>
    (cck tcs' = Some i \<longleftrightarrow> i < num_keys db \<and> key_fits tcs' (keys db ! i) \<and> (\<forall>j<i. \<not> key_fits tcs' (keys db ! j))) \<and>
    c_mcc tcs' = of_int mcc \<and> c_mnc tcs' = of_int mnc \<and> c_cck_id tcs' = c_cck_id tcs"
  by (simp add: assms update_network_eq Let_def first_index_Some net_fits_def key_fits_def)

theorem network_change_selects_key_witness:
  "let tcs' = update_current_network example_db example_tcs 1 2
   in (network tcs' = Some 0 \<longleftrightarrow> 0 < num_nets example_db \<and> net_fits tcs' (nets example_db ! 0)
        \<and> (\<forall>j<0. \<not> net_fits tcs' (nets example_db ! j))) \<and>
      (cck tcs' = Some 0 \<longleftrightarrow> 0 < num_keys example_db \<and> key_fits tcs' (keys example_db ! 0)
        \<and> (\<forall>j<0. \<not> key_fits tcs' (keys example_db ! j))) \<and>
      c_mcc tcs' = of_int 1 \<and> c_mnc tcs' = of_int 2 \<and> c_cck_id tcs' = c_cck_id example_tcs"
  unfolding Let_def by (rule network_change_selects_key) (rule refl)

text \<open>
  C25. A key store that loads has at most 16 keys, and every one of them points to a loaded network with
  its own country and network code.
\<close>
theorem keystore_keys_have_networks:
  assumes "load_keystore k0 n0 file = Inr db" "i < num_keys db"
  shows "num_keys db \<le> 16 \<and> (\<exists>j<num_nets db. network_info (keys db ! i) = Some j \<and>
    n_mcc (nets db ! j) = k_mcc (keys db ! i) \<and> n_mnc (nets db ! j) = k_mnc (keys db ! i))"
  using keystore_ok [OF assms(1)] assms(2) by blast

theorem keystore_keys_have_networks_witness:
  "\<exists>db. load_keystore (keys example_db ! 0) (nets example_db ! 0) (Some [example_network_line, example_key_line]) = Inr db \<and>
    num_keys db \<le> 16 \<and> (\<exists>j<num_nets db. network_info (keys db ! 0) = Some j \<and>
      n_mcc (nets db ! j) = k_mcc (keys db ! 0) \<and> n_mnc (nets db ! j) = k_mnc (keys db ! 0))"
proof -
  let ?l = "load_keystore (keys example_db ! 0) (nets example_db ! 0) (Some [example_network_line, example_key_line])"
  have "?l = Inr (projr ?l) \<and> 0 < num_keys (projr ?l)" by code_simp
  then show ?thesis using keystore_keys_have_networks [of _ _ _ "projr ?l" 0] by blast
qed

text \<open>
  The seventeenth key line of a key store writes outside the key array: the branch that should
  grow the keys grows the networks.
\<close>
theorem seventeenth_key_out_of_bounds:
  assumes "load_lines n0 ls (tetra_crypto_db_init k0 n0) = Inr db" "num_keys db = 16" "take 4 l = ''key ''"
  shows "load_keystore k0 n0 (Some (ls @ l # ls')) = Inl Out_of_bounds"
  using load_17th_key [OF load_lines_loading [OF assms(1) loading_init] assms(2,3)] assms(1)
  by (simp add: load_keystore_def load_lines_append)

theorem seventeenth_key_out_of_bounds_witness:
  "load_keystore (keys example_db ! 0) (nets example_db ! 0)
    (Some (replicate 16 example_key_line @ example_key_line # [])) = Inl Out_of_bounds"
proof -
  let ?init = "tetra_crypto_db_init (keys example_db ! 0) (nets example_db ! 0)"
  have key: "take 4 example_key_line = ''key ''" by (simp add: example_key_line_def)
  have "length (sscanf key_format example_key_line) = 15" by code_simp
  moreover have "num_keys ?init + 16 \<le> 16" by (simp add: tetra_crypto_db_init_def)
  ultimately obtain db where db: "load_lines (nets example_db ! 0) (replicate 16 example_key_line) ?init = Inr db"
      "num_keys db = num_keys ?init + 16"
    using load_more_keys [OF _ key loading_init] by blast
  have "num_keys db = 16" using db(2) by (simp add: tetra_crypto_db_init_def)
  from seventeenth_key_out_of_bounds [OF db(1) this key] show ?thesis .
qed

end
