(* ===== verification/Burst.thy ===== *)
theory Burst
  imports Common
begin

text \<open>
  The bursts of the physical layer, \<open>phy/tetra_burst.h\<close> and \<open>tetra_burst.c\<close>: the training sequences, the
  assembly of synchronisation and normal bursts with their phase adjustment bits, the search for a
  training sequence with its 22-bit filter, and the cutting of a received burst into blocks. The
  lemmas show that cutting undoes assembling, what the phase adjustment computes, and that the
  filtered search is the plain search from offset 21 on.
\<close>

section \<open>Fields and training sequences\<close>

definition f_bits :: "u8 list" where
  "f_bits =
    replicate 8 1 @ replicate 64 0 @ replicate 8 1"

definition n_bits :: "u8 list" where
  "n_bits =
    [1, 1, 0, 1, 0, 0, 0, 0, 1, 1, 1, 0, 1, 0, 0, 1, 1, 1, 0, 1, 0, 0]"

definition p_bits :: "u8 list" where
  "p_bits =
    [0, 1, 1, 1, 1, 0, 1, 0, 0, 1, 0, 0, 0, 0, 1, 1, 0, 1, 1, 1, 1, 0]"

definition q_bits :: "u8 list" where
  "q_bits =
    [1, 0, 1, 1, 0, 1, 1, 1, 0, 0, 0, 0, 0, 1, 1, 0, 1, 0, 1, 1, 0, 1]"

definition N_bits :: "u8 list" where
  "N_bits =
    [1, 1, 1, 0, 0, 1, 1, 0, 1, 1, 1, 1, 0, 0, 0, 1, 1, 1, 1, 0, 0, 0, 1, 1, 1, 1, 0, 0, 0, 0, 0, 0,
    0]"

definition P_bits :: "u8 list" where
  "P_bits =
    [1, 0, 1, 0, 1, 1, 1, 1, 1, 1, 0, 1, 0, 1, 0, 1, 0, 1, 1, 1, 0, 0, 0, 1, 1, 0, 0, 0, 1, 0, 0, 1,
    0]"

definition x_bits :: "u8 list" where
  "x_bits =
    [1, 0, 0, 1, 1, 1, 0, 1, 0, 0, 0, 0, 1, 1, 1, 0, 1, 0, 0, 1, 1, 1, 0, 1, 0, 0, 0, 0, 1, 1]"

definition X_bits :: "u8 list" where
  "X_bits =
    [0, 1, 1, 1, 0, 0, 1, 1, 0, 1, 0, 0, 0, 0, 1, 0, 0, 0, 1, 1, 1, 0, 1, 1, 0, 1, 0, 1, 0, 1, 1, 1,
    1, 1, 0, 1, 0, 0, 0, 0, 0, 1, 1, 1, 0]"

definition y_bits :: "u8 list" where
  "y_bits =
    [1, 1, 0, 0, 0, 0, 0, 1, 1, 0, 0, 1, 1, 1, 0, 0, 1, 1, 1, 0, 1, 0, 0, 1, 1, 1, 0, 0, 0, 0, 0, 1,
    1, 0, 0, 1, 1, 1]"

definition t_bits :: "u8 list" where
  "t_bits =
    [1, 1, 0, 0]"

definition T_bits :: "u8 list" where
  "T_bits =
    [1, 1, 1, 0, 0, 0]"

definition DQPSK4_BITS_PER_SYM :: nat where "DQPSK4_BITS_PER_SYM = 2"

definition SB_BLK1_OFFSET :: nat where "SB_BLK1_OFFSET = (6 + 1 + 40) * DQPSK4_BITS_PER_SYM"
definition SB_BBK_OFFSET :: nat where "SB_BBK_OFFSET = (6 + 1 + 40 + 60 + 19) * DQPSK4_BITS_PER_SYM"
definition SB_BLK2_OFFSET :: nat where "SB_BLK2_OFFSET = (6 + 1 + 40 + 60 + 19 + 15) * DQPSK4_BITS_PER_SYM"
definition SB_BLK1_BITS :: nat where "SB_BLK1_BITS = 60 * DQPSK4_BITS_PER_SYM"
definition SB_BBK_BITS :: nat where "SB_BBK_BITS = 15 * DQPSK4_BITS_PER_SYM"
definition SB_BLK2_BITS :: nat where "SB_BLK2_BITS = 108 * DQPSK4_BITS_PER_SYM"
definition NDB_BLK1_OFFSET :: nat where "NDB_BLK1_OFFSET = (5 + 1 + 1) * DQPSK4_BITS_PER_SYM"
definition NDB_BBK1_OFFSET :: nat where "NDB_BBK1_OFFSET = (5 + 1 + 1 + 108) * DQPSK4_BITS_PER_SYM"
definition NDB_BBK2_OFFSET :: nat where "NDB_BBK2_OFFSET = (5 + 1 + 1 + 108 + 7 + 11) * DQPSK4_BITS_PER_SYM"
definition NDB_BLK2_OFFSET :: nat where "NDB_BLK2_OFFSET = (5 + 1 + 1 + 108 + 7 + 11 + 8) * DQPSK4_BITS_PER_SYM"
definition NDB_BBK1_BITS :: nat where "NDB_BBK1_BITS = 7 * DQPSK4_BITS_PER_SYM"
definition NDB_BBK2_BITS :: nat where "NDB_BBK2_BITS = 8 * DQPSK4_BITS_PER_SYM"
definition NDB_BLK_BITS :: nat where "NDB_BLK_BITS = 108 * DQPSK4_BITS_PER_SYM"
definition NDB_BBK_BITS :: nat where "NDB_BBK_BITS = SB_BBK_BITS"

lemmas burst_layout =
  DQPSK4_BITS_PER_SYM_def SB_BLK1_OFFSET_def SB_BBK_OFFSET_def SB_BLK2_OFFSET_def SB_BLK1_BITS_def
  SB_BBK_BITS_def SB_BLK2_BITS_def NDB_BLK1_OFFSET_def NDB_BBK1_OFFSET_def NDB_BBK2_OFFSET_def
  NDB_BLK2_OFFSET_def NDB_BBK1_BITS_def NDB_BBK2_BITS_def NDB_BLK_BITS_def NDB_BBK_BITS_def

section \<open>Phase adjustment\<close>

datatype phase_adj_bits = HA | HB | HC | HD | HE | HF | HG | HH | HI | HJ

text \<open>First and last symbol of the span, from table 8.14.\<close>

primrec phase_adj_n :: "phase_adj_bits \<Rightarrow> nat \<times> nat" where
  "phase_adj_n HA = (8, 122)"
| "phase_adj_n HB = (123, 249)"
| "phase_adj_n HC = (8, 108)"
| "phase_adj_n HD = (109, 249)"
| "phase_adj_n HE = (112, 230)"
| "phase_adj_n HF = (1, 111)"
| "phase_adj_n HG = (3, 117)"
| "phase_adj_n HH = (118, 224)"
| "phase_adj_n HI = (3, 103)"
| "phase_adj_n HJ = (104, 224)"

definition bits2phase :: "int list" where
  "bits2phase = [1, - 1, 3, - 3]"

text \<open>The table is indexed by the phase plus 3; the entries between are zero.\<close>

definition phase2bits :: "(int \<times> u8 list) list" where
  "phase2bits =
    [(- 3, [1, 1]), (0, [0, 0]), (- 1, [0, 1]), (0, [0, 0]), (1, [0, 0]), (0, [0, 0]), (3, [1, 0])]"

text \<open>The remainder of C takes the sign of the dividend.\<close>

definition calc_phase_adj :: "int \<Rightarrow> int" where
  "calc_phase_adj phase =
    (let adj_phase = - (if 0 \<le> phase then phase mod 8 else - ((- phase) mod 8))
     in if adj_phase > 3 then adj_phase - 8
        else if adj_phase < - 3 then adj_phase + 8
        else adj_phase)"

text \<open>\<^theory_text>\<open>None\<close> when a symbol is not made of two bits: its index is outside the table.\<close>

fun sum_up_phase :: "(nat \<Rightarrow> u8) \<Rightarrow> nat \<Rightarrow> int option" where
  "sum_up_phase bits 0 = Some 0"
| "sum_up_phase bits (Suc n) =
    (let bn = 2 * n;
         sym_in = bits bn OR push_bit 1 (bits (bn + 1))
     in case sum_up_phase bits n of
          None \<Rightarrow> None
        | Some sum_phase \<Rightarrow>
            if unat sym_in < 4 then Some (sum_phase + bits2phase ! unat sym_in) else None)"

text \<open>The table is indexed with the phase itself, not with the phase plus 3.\<close>

definition put_phase_adj_bits :: "(nat \<Rightarrow> u8) \<Rightarrow> phase_adj_bits \<Rightarrow> u8 list option" where
  "put_phase_adj_bits bits pa =
    (let (n1, n2) = phase_adj_n pa
     in case sum_up_phase (at bits (2 * (n1 - 1))) (1 + n2 - n1) of
          None \<Rightarrow> None
        | Some sum_phase \<Rightarrow>
            (let adj_phase = calc_phase_adj sum_phase
             in if 0 \<le> adj_phase \<and> adj_phase < int (length phase2bits)
                then Some (snd (phase2bits ! nat adj_phase)) else None))"

section \<open>Assembling bursts\<close>

text \<open>
  The fields are copied in order; the two bits at a phase adjustment position keep the buffer's contents
  until both are computed, the first and then the second, from the buffer as it is then.
\<close>

definition put_phases :: "u8 list \<Rightarrow> phase_adj_bits \<Rightarrow> nat \<Rightarrow> phase_adj_bits \<Rightarrow> nat \<Rightarrow> u8 list option" where
  "put_phases buf pa1 at1 pa2 at2 =
    Option.bind (put_phase_adj_bits (\<lambda>i. buf ! i) pa1) (\<lambda>b1.
      let buf = blit buf at1 b1
      in Option.bind (put_phase_adj_bits (\<lambda>i. buf ! i) pa2) (\<lambda>b2. Some (blit buf at2 b2)))"

definition build_sync_c_d_burst :: "u8 list \<Rightarrow> u8 list \<Rightarrow> u8 list \<Rightarrow> u8 list \<Rightarrow> (u8 list \<times> nat) option" where
  "build_sync_c_d_burst buf sb bb bkn =
    (let cur = 0;
         buf = blit buf cur (slice q_bits 10 12); cur = cur + 12;
         hc = cur; cur = cur + 2;
         buf = blit buf cur f_bits; cur = cur + 80;
         buf = blit buf cur (take 120 sb); cur = cur + 120;
         buf = blit buf cur y_bits; cur = cur + 38;
         buf = blit buf cur (take 30 bb); cur = cur + 30;
         buf = blit buf cur (take 216 bkn); cur = cur + 216;
         hd = cur; cur = cur + 2;
         buf = blit buf cur (take 10 q_bits); cur = cur + 10
     in map_option (\<lambda>b. (b, cur)) (put_phases buf HC hc HD hd))"

definition build_norm_c_d_burst ::
  "u8 list \<Rightarrow> u8 list \<Rightarrow> u8 list \<Rightarrow> u8 list \<Rightarrow> bool \<Rightarrow> (u8 list \<times> nat) option" where
  "build_norm_c_d_burst buf bkn1 bb bkn2 two_log_chan =
    (let cur = 0;
         buf = blit buf cur (slice q_bits 10 12); cur = cur + 12;
         ha = cur; cur = cur + 2;
         buf = blit buf cur (take 216 bkn1); cur = cur + 216;
         buf = blit buf cur (take 14 bb); cur = cur + 14;
         buf = (if two_log_chan then blit buf cur p_bits else blit buf cur n_bits); cur = cur + 22;
         buf = blit buf cur (slice bb 14 16); cur = cur + 16;
         buf = blit buf cur (take 216 bkn2); cur = cur + 216;
         hb = cur; cur = cur + 2;
         buf = blit buf cur (take 10 q_bits); cur = cur + 10
     in map_option (\<lambda>b. (b, cur)) (put_phases buf HA ha HB hb))"

section \<open>Cutting a received burst into blocks\<close>

datatype tetra_train_seq =
  TETRA_TRAIN_NORM_1 | TETRA_TRAIN_NORM_2 | TETRA_TRAIN_NORM_3 | TETRA_TRAIN_SYNC | TETRA_TRAIN_EXT

text \<open>The blocks handed to the lower MAC, in order: the block type, its number and its bits.\<close>

definition burst_blocks :: "u8 list \<Rightarrow> tetra_train_seq \<Rightarrow> (tp_sap_data_type \<times> int \<times> u8 list) list" where
  "burst_blocks burst type =
    (let bbk_buf = slice burst NDB_BBK1_OFFSET NDB_BBK1_BITS @ slice burst NDB_BBK2_OFFSET NDB_BBK2_BITS;
         ndbf_buf = slice burst NDB_BLK1_OFFSET NDB_BLK_BITS @ slice burst NDB_BLK2_OFFSET NDB_BLK_BITS
     in case type of
          TETRA_TRAIN_SYNC \<Rightarrow>
            [(TPSAP_T_SB1, BLK_1, slice burst SB_BLK1_OFFSET SB_BLK1_BITS),
             (TPSAP_T_BBK, 0, slice burst SB_BBK_OFFSET SB_BBK_BITS),
             (TPSAP_T_SB2, BLK_2, slice burst SB_BLK2_OFFSET SB_BLK2_BITS)]
        | TETRA_TRAIN_NORM_2 \<Rightarrow>
            [(TPSAP_T_BBK, 0, bbk_buf),
             (TPSAP_T_NDB, BLK_1, slice burst NDB_BLK1_OFFSET NDB_BLK_BITS),
             (TPSAP_T_NDB, BLK_2, slice burst NDB_BLK2_OFFSET NDB_BLK_BITS)]
        | TETRA_TRAIN_NORM_1 \<Rightarrow> [(TPSAP_T_BBK, 0, bbk_buf), (TPSAP_T_SCH_F, 0, ndbf_buf)]
        | _ \<Rightarrow> [])"

section \<open>Searching for a training sequence\<close>

definition FILTER_LOOKAHEAD_LEN :: nat where "FILTER_LOOKAHEAD_LEN = 22"
definition FILTER_LOOKAHEAD_MASK :: u32 where "FILTER_LOOKAHEAD_MASK = push_bit FILTER_LOOKAHEAD_LEN 1 - 1"

definition tsq_bytes :: "u32 list" where
  "tsq_bytes = map (\<lambda>s. foldl (\<lambda>t i. push_bit 1 t OR ucast (s ! i)) 0 [0..<FILTER_LOOKAHEAD_LEN])
    [y_bits, n_bits, p_bits, q_bits, x_bits]"

text \<open>The mask of sequences to look for is a set; the comparisons in the order of the code.\<close>

definition memcmp_at :: "(nat \<Rightarrow> u8) \<Rightarrow> nat \<Rightarrow> nat \<Rightarrow> u8 list \<Rightarrow> bool" where
  "memcmp_at inb end_of_in cur s \<longleftrightarrow> length s \<le> end_of_in - cur \<and> map (\<lambda>i. inb (cur + i)) [0..<length s] = s"

definition compare_seqs :: "(nat \<Rightarrow> u8) \<Rightarrow> nat \<Rightarrow> tetra_train_seq set \<Rightarrow> nat \<Rightarrow> tetra_train_seq option" where
  "compare_seqs inb end_of_in wanted cur =
    (if TETRA_TRAIN_SYNC \<in> wanted \<and> memcmp_at inb end_of_in cur y_bits then Some TETRA_TRAIN_SYNC
     else if TETRA_TRAIN_NORM_1 \<in> wanted \<and> memcmp_at inb end_of_in cur n_bits then Some TETRA_TRAIN_NORM_1
     else if TETRA_TRAIN_NORM_2 \<in> wanted \<and> memcmp_at inb end_of_in cur p_bits then Some TETRA_TRAIN_NORM_2
     else if TETRA_TRAIN_NORM_3 \<in> wanted \<and> memcmp_at inb end_of_in cur q_bits then Some TETRA_TRAIN_NORM_3
     else if TETRA_TRAIN_EXT \<in> wanted \<and> memcmp_at inb end_of_in cur x_bits then Some TETRA_TRAIN_EXT
     else None)"

definition shift_filter :: "u32 \<Rightarrow> u8 \<Rightarrow> u32" where
  "shift_filter flt b = (push_bit 1 flt OR ucast b) AND FILTER_LOOKAHEAD_MASK"

function find_loop ::
  "(nat \<Rightarrow> u8) \<Rightarrow> nat \<Rightarrow> tetra_train_seq set \<Rightarrow> u32 \<Rightarrow> nat \<Rightarrow> (tetra_train_seq \<times> nat) option" where
  "find_loop inb end_of_in wanted flt cur =
    (if cur < end_of_in then
       (let flt = shift_filter flt (inb (cur + (FILTER_LOOKAHEAD_LEN - 1)))
        in if flt \<notin> set tsq_bytes then find_loop inb end_of_in wanted flt (cur + 1)
           else case compare_seqs inb end_of_in wanted cur of
                  Some s \<Rightarrow> Some (s, cur)
                | None \<Rightarrow> find_loop inb end_of_in wanted flt (cur + 1))
     else None)"
  by pat_completeness auto
termination
  by (relation "measure (\<lambda>(inb, end_of_in, wanted, flt, cur). end_of_in - cur)") auto

declare find_loop.simps [simp del]

definition tetra_find_train_seq :: "(nat \<Rightarrow> u8) \<Rightarrow> nat \<Rightarrow> tetra_train_seq set \<Rightarrow> (tetra_train_seq \<times> nat) option" where
  "tetra_find_train_seq inb end_of_in wanted =
    (let flt = foldl (\<lambda>f i. push_bit 1 f OR ucast (inb i)) 0 [0..<FILTER_LOOKAHEAD_LEN - 2]
     in find_loop inb end_of_in wanted flt 0)"

section \<open>The filter\<close>

definition fword :: "u8 list \<Rightarrow> u32" where
  "fword xs = foldl (\<lambda>t b. push_bit 1 t OR ucast b) 0 xs"

lemma fword_Nil [simp]: "fword [] = 0"
  by (simp add: fword_def)

lemma fword_snoc: "fword (xs @ [x]) = push_bit 1 (fword xs) OR ucast x"
  by (simp add: fword_def)

lemma fword_foldl_index: "foldl (\<lambda>t i. push_bit 1 t OR ucast (f i)) 0 is = fword (map f is)"
  unfolding fword_def foldl_map ..

lemma fword_append: "fword (xs @ ys) = push_bit (length ys) (fword xs) OR fword ys"
proof (induction ys rule: rev_induct)
  case (snoc y ys)
  have "fword (xs @ ys @ [y]) = push_bit 1 (push_bit (length ys) (fword xs) OR fword ys) OR ucast y"
    unfolding append_assoc [symmetric] fword_snoc snoc.IH ..
  also have "\<dots> = push_bit (length (ys @ [y])) (fword xs) OR fword (ys @ [y])"
    by (simp only: push_bit_or push_bit_push_bit or.assoc fword_snoc length_append list.size add_0 plus_1_eq_Suc
        add.commute [of "length ys"] One_nat_def)
  finally show ?case .
qed simp

lemma bit_fword:
  assumes "is_bits xs"
  shows "bit (fword xs) j \<longleftrightarrow> j < 32 \<and> j < length xs \<and> xs ! (length xs - 1 - j) = 1"
  using assms
proof (induction xs arbitrary: j rule: rev_induct)
  case (snoc x xs)
  have x: "x = 0 \<or> x = 1" using snoc.prems by simp
  show ?case
  proof (cases j)
    case 0
    then show ?thesis using x by (auto simp: fword_snoc bit_or_iff bit_push_bit_iff bit_ucast_iff nth_append)
  next
    case (Suc i)
    have "\<not> bit (ucast x :: u32) (Suc i)" using x by (auto simp: bit_1_iff)
    then have A: "bit (fword (xs @ [x])) j \<longleftrightarrow> j < 32 \<and> bit (fword xs) i"
      using Suc by (auto simp: fword_snoc bit_or_iff bit_push_bit_iff dest: bit_imp_le_length)
    have B: "bit (fword xs) i \<longleftrightarrow> i < 32 \<and> i < length xs \<and> xs ! (length xs - 1 - i) = 1"
      using snoc.prems by (intro snoc.IH) simp
    have C: "xs ! (length xs - 1 - i) = (xs @ [x]) ! (length (xs @ [x]) - 1 - j)" if "i < length xs"
    proof -
      have "length xs - Suc i < length xs" using that by simp
      then show ?thesis using Suc by (simp add: nth_append)
    qed
    show ?thesis unfolding A B using C Suc by auto
  qed
qed simp

lemma take_bit_fword_suffix: "length ys = n \<Longrightarrow> take_bit n (fword (xs @ ys)) = take_bit n (fword ys)"
  by (rule bit_word_eqI) (auto simp: fword_append bit_take_bit_iff bit_or_iff bit_push_bit_iff)

text \<open>The bits that have passed through the filter before position \<open>cur\<close>: the twenty-first is missing.\<close>

definition seen :: "(nat \<Rightarrow> u8) \<Rightarrow> nat \<Rightarrow> u8 list" where
  "seen inb cur = map inb ([0..<20] @ [21..<21 + cur])"

lemma seen_Suc: "seen inb (Suc cur) = seen inb cur @ [inb (cur + 21)]"
proof -
  have "[21..<21 + Suc cur] = [21..<21 + cur] @ [21 + cur]"
    unfolding add_Suc_right by (rule upt_Suc_append) simp
  then show ?thesis unfolding seen_def by (simp del: upt_Suc add: add.commute)
qed

lemma shift_filter_take_bit: "shift_filter f b = take_bit 22 (push_bit 1 f OR ucast b)"
proof -
  have "FILTER_LOOKAHEAD_MASK = mask 22"
    by (simp add: FILTER_LOOKAHEAD_MASK_def FILTER_LOOKAHEAD_LEN_def mask_eq_exp_minus_1 push_bit_of_1)
  then show ?thesis by (simp add: shift_filter_def take_bit_eq_mask)
qed

lemma shift_filter_seen:
  "shift_filter (take_bit 22 (fword (seen inb cur))) (inb (cur + 21)) = take_bit 22 (fword (seen inb (Suc cur)))"
  unfolding shift_filter_take_bit seen_Suc fword_snoc
  by (rule bit_word_eqI) (auto simp: bit_take_bit_iff bit_or_iff bit_push_bit_iff)

text \<open>What the search stops at: the filter holds a known prefix and a wanted sequence is there in full.\<close>

definition visible :: "(nat \<Rightarrow> u8) \<Rightarrow> nat \<Rightarrow> tetra_train_seq set \<Rightarrow> nat \<Rightarrow> bool" where
  "visible inb end_of_in wanted k \<longleftrightarrow>
    take_bit 22 (fword (seen inb (Suc k))) \<in> set tsq_bytes \<and> compare_seqs inb end_of_in wanted k \<noteq> None"

lemma find_loop_first:
  "find_loop inb end_of_in wanted (take_bit 22 (fword (seen inb cur))) cur =
    (case find (visible inb end_of_in wanted) [cur..<end_of_in] of
       None \<Rightarrow> None | Some k \<Rightarrow> Some (the (compare_seqs inb end_of_in wanted k), k))"
proof (induction "end_of_in - cur" arbitrary: cur)
  case 0
  then show ?case by (simp add: find_loop.simps)
next
  case (Suc n)
  then have "cur < end_of_in" "[cur..<end_of_in] = cur # [Suc cur..<end_of_in]" "n = end_of_in - Suc cur"
    by (simp_all add: upt_conv_Cons)
  then show ?case
    using Suc.hyps(1) [of "Suc cur"]
    by (subst find_loop.simps)
      (auto simp: Let_def FILTER_LOOKAHEAD_LEN_def shift_filter_seen visible_def split: option.split)
qed

lemma shift_filter_cut: "shift_filter (take_bit 22 f) b = shift_filter f b"
  unfolding shift_filter_take_bit
  by (rule bit_word_eqI) (auto simp: bit_take_bit_iff bit_or_iff bit_push_bit_iff)

lemma find_train_first:
  "tetra_find_train_seq inb end_of_in wanted =
    (case find (visible inb end_of_in wanted) [0..<end_of_in] of
       None \<Rightarrow> None | Some k \<Rightarrow> Some (the (compare_seqs inb end_of_in wanted k), k))"
proof -
  have "foldl (\<lambda>f i. push_bit 1 f OR ucast (inb i)) 0 [0..<FILTER_LOOKAHEAD_LEN - 2] = fword (seen inb 0)"
    unfolding fword_foldl_index by (simp add: FILTER_LOOKAHEAD_LEN_def seen_def del: upt_Suc)
  moreover have "find_loop inb end_of_in wanted f 0 = find_loop inb end_of_in wanted (take_bit 22 f) 0" for f
    by (subst (1 2) find_loop.simps) (simp add: shift_filter_cut)
  ultimately show ?thesis unfolding tetra_find_train_seq_def Let_def by (metis find_loop_first)
qed

lemma find_train_Some:
  "tetra_find_train_seq inb end_of_in wanted = Some (s, k) \<longleftrightarrow>
    k < end_of_in \<and> visible inb end_of_in wanted k \<and> compare_seqs inb end_of_in wanted k = Some s \<and>
    (\<forall>j<k. \<not> visible inb end_of_in wanted j)"
proof (cases "find (visible inb end_of_in wanted) [0..<end_of_in]")
  case None
  then have "\<forall>k<end_of_in. \<not> visible inb end_of_in wanted k" by (simp only: find_upt_None)
  then show ?thesis unfolding find_train_first None by auto
next
  case (Some j)
  note j = Some [unfolded find_upt_Some]
  have "k = j" if "visible inb end_of_in wanted k" "\<forall>j<k. \<not> visible inb end_of_in wanted j"
    using that j by (meson linorder_neqE_nat)
  moreover have "compare_seqs inb end_of_in wanted j \<noteq> None" using j by (simp add: visible_def)
  ultimately show ?thesis unfolding find_train_first Some using j by auto
qed

lemma find_train_None:
  "tetra_find_train_seq inb end_of_in wanted = None \<longleftrightarrow> (\<forall>k<end_of_in. \<not> visible inb end_of_in wanted k)"
  unfolding find_train_first find_upt_None [symmetric] by (simp split: option.split)

section \<open>Where the filter sees a sequence\<close>

lemmas train_bits = y_bits_def n_bits_def p_bits_def q_bits_def x_bits_def

lemma tsq_bytes_eq: "tsq_bytes = map (\<lambda>s. fword (take 22 s)) [y_bits, n_bits, p_bits, q_bits, x_bits]"
proof -
  have "map (\<lambda>i. s ! i) [0..<22] = take 22 s" if "22 \<le> length s" for s :: "u8 list"
    using that by (intro nth_equalityI) auto
  then show ?thesis
    unfolding tsq_bytes_def fword_foldl_index FILTER_LOOKAHEAD_LEN_def by (simp add: train_bits del: upt_Suc)
qed

text \<open>A comparison that succeeds is with one of the five, and copies it.\<close>

lemma compare_seqs_memcmp:
  assumes "compare_seqs inb end_of_in wanted k = Some t"
  shows "\<exists>s \<in> {y_bits, n_bits, p_bits, q_bits, x_bits}. memcmp_at inb end_of_in k s"
  using assms by (auto simp: compare_seqs_def split: if_splits)

lemma train_prefix_tsq:
  "s \<in> {y_bits, n_bits, p_bits, q_bits, x_bits} \<Longrightarrow> fword (take 22 s) \<in> set tsq_bytes \<and> 22 \<le> length s"
  unfolding tsq_bytes_eq by (auto simp: train_bits)

lemma memcmp_at_nth: "memcmp_at inb e k s \<Longrightarrow> i < length s \<Longrightarrow> inb (k + i) = s ! i"
  unfolding memcmp_at_def by (metis (no_types, lifting) diff_zero length_map length_upt nth_map nth_upt plus_nat.add_0)

lemma take_bit_fword_short: "is_bits xs \<Longrightarrow> length xs \<le> n \<Longrightarrow> take_bit n (fword xs) = fword xs"
  by (rule bit_word_eqI) (auto simp: bit_take_bit_iff bit_fword)

lemma visible_late:
  assumes "21 \<le> k" "compare_seqs inb end_of_in wanted k \<noteq> None"
  shows "visible inb end_of_in wanted k"
proof -
  obtain s where s: "s \<in> {y_bits, n_bits, p_bits, q_bits, x_bits}" "memcmp_at inb end_of_in k s"
    using compare_seqs_memcmp assms(2) by (metis not_Some_eq)
  have w: "map inb [k..<k + 22] = take 22 s"
    using train_prefix_tsq [OF s(1)] memcmp_at_nth [OF s(2)] by (intro nth_equalityI) auto
  have "[21..<21 + Suc k] = [21..<k] @ [k..<k + 22]"
    using assms(1) upt_add_eq_append [of 21 k 22] by (simp add: add.commute)
  then have "seen inb (Suc k) = (map inb ([0..<20] @ [21..<k])) @ take 22 s"
    unfolding seen_def w [symmetric] by simp
  then have "take_bit 22 (fword (seen inb (Suc k))) = take_bit 22 (fword (take 22 s))"
    using train_prefix_tsq [OF s(1)] by (simp only: take_bit_fword_suffix length_take min_absorb2)
  also have "\<dots> = fword (take 22 s)"
  proof (rule take_bit_fword_short)
    show "is_bits (take 22 s)" using s(1) by (auto simp: train_bits)
  qed simp
  finally show ?thesis
    using assms(2) train_prefix_tsq [OF s(1)] unfolding visible_def by simp
qed

text \<open>
  In the first 21 positions the filter has a gap. A full synchronisation sequence at position \<open>k\<close> passes
  it only at 19 or 20, after a bit 1.
\<close>

definition gapword :: "nat \<Rightarrow> u8 list" where
  "gapword k = take (20 - k) y_bits @ slice y_bits (21 - k) (k + 1)"

lemma gapword_length: "k \<le> 20 \<Longrightarrow> length (gapword k) = 21"
  by (simp add: gapword_def slice_def y_bits_def)

lemma gapword_bits: "is_bits (gapword k)"
proof -
  have "is_bits y_bits" by (simp add: y_bits_def)
  then show ?thesis by (auto simp: gapword_def slice_def)
qed

lemma seen_gapword:
  assumes "memcmp_at inb e k y_bits" "k \<le> 20"
  shows "seen inb (Suc k) = map inb [0..<k] @ gapword k"
proof -
  have y: "inb (k + i) = y_bits ! i" if "i < 38" for i
    using memcmp_at_nth [OF assms(1)] that by (simp add: y_bits_def)
  have "map inb [k..<20] = take (20 - k) y_bits"
    using y assms(2) by (intro nth_equalityI) (auto simp: y_bits_def)
  moreover have "map inb [21..<21 + Suc k] = slice y_bits (21 - k) (k + 1)"
  proof (rule nth_equalityI)
    show "length (map inb [21..<21 + Suc k]) = length (slice y_bits (21 - k) (k + 1))"
      using assms(2) by (simp add: slice_def y_bits_def)
    fix i assume "i < length (map inb [21..<21 + Suc k])"
    then have i: "i \<le> k" by simp
    then have "slice y_bits (21 - k) (k + 1) ! i = y_bits ! (21 - k + i)"
      using assms(2) by (intro nth_slice) (simp_all add: y_bits_def)
    also have "\<dots> = inb (k + (21 - k + i))" using i assms(2) by (intro y [symmetric]) simp
    also have "k + (21 - k + i) = 21 + i" using assms(2) by simp
    finally show "map inb [21..<21 + Suc k] ! i = slice y_bits (21 - k) (k + 1) ! i"
      using i by (simp del: upt_Suc)
  qed
  moreover have "[0..<20] = [0..<k] @ [k..<20]"
    using assms(2) by (metis le_add_diff_inverse upt_add_eq_append zero_le)
  ultimately show ?thesis unfolding seen_def gapword_def by simp
qed

lemma fword_inj:
  assumes "is_bits xs" "is_bits ys" "length xs = length ys" "length xs \<le> 32" "fword xs = fword ys"
  shows "xs = ys"
proof (rule nth_equalityI)
  fix i assume i: "i < length xs"
  have "bit (fword xs) (length xs - 1 - i) = bit (fword ys) (length xs - 1 - i)" using assms(5) by simp
  moreover have "length xs - 1 - i < 32" "length xs - 1 - i < length xs" "length xs - 1 - (length xs - 1 - i) = i"
    using i assms(4) by simp_all
  ultimately have "xs ! i = 1 \<longleftrightarrow> ys ! i = 1"
    using assms(1-3) by (simp only: bit_fword) simp
  then show "xs ! i = ys ! i"
    using is_bits_nth [OF assms(1) i] is_bits_nth [OF assms(2), of i] i assms(3) by auto
qed (rule assms(3))

lemma train_bits_ok: "s \<in> {y_bits, n_bits, p_bits, q_bits, x_bits} \<Longrightarrow> is_bits s \<and> 22 \<le> length s"
  by (auto simp: train_bits)

lemma fword_tsq_iff:
  assumes "is_bits xs" "length xs = 22"
  shows "fword xs \<in> set tsq_bytes \<longleftrightarrow> xs \<in> take 22 ` {y_bits, n_bits, p_bits, q_bits, x_bits}"
proof
  assume "fword xs \<in> set tsq_bytes"
  then obtain s where s: "s \<in> {y_bits, n_bits, p_bits, q_bits, x_bits}" "fword xs = fword (take 22 s)"
    unfolding tsq_bytes_eq by auto
  then have "xs = take 22 s" using train_bits_ok [OF s(1)] assms by (intro fword_inj) auto
  with s(1) show "xs \<in> take 22 ` {y_bits, n_bits, p_bits, q_bits, x_bits}" by blast
qed (auto simp: tsq_bytes_eq)

lemma gap_filter:
  assumes k: "0 < k" "k \<le> 20" and x: "x = 0 \<or> x = 1"
  shows "x # gapword k \<in> take 22 ` {y_bits, n_bits, p_bits, q_bits, x_bits} \<longleftrightarrow> 19 \<le> k \<and> x = 1"
proof -
  have "list_all (\<lambda>k. list_all (\<lambda>x. (x # gapword k \<in> take 22 ` {y_bits, n_bits, p_bits, q_bits, x_bits})
      = (19 \<le> k \<and> x = 1)) [0, 1]) [1..<21]"
    by (simp add: upt_rec gapword_def slice_def train_bits)
  with k x show ?thesis by (auto simp: list_all_iff)
qed

lemma gap_filter_0: "gapword 0 \<noteq> drop 1 (take 22 s)" if "s \<in> {y_bits, n_bits, p_bits, q_bits, x_bits}"
  using that by (auto simp: gapword_def slice_def train_bits)

lemma visible_sync_iff:
  assumes m: "memcmp_at inb e k y_bits" and w: "wanted = {TETRA_TRAIN_SYNC}"
    and b: "\<And>i. i < 20 \<Longrightarrow> inb i = 0 \<or> inb i = 1"
  shows "visible inb e wanted k \<longleftrightarrow> 21 \<le> k \<or> 19 \<le> k \<and> inb (k - 1) = 1"
proof -
  have c: "compare_seqs inb e wanted k = Some TETRA_TRAIN_SYNC" using m w by (simp add: compare_seqs_def)
  consider "21 \<le> k" | "0 < k" "k \<le> 20" | "k = 0" by linarith
  then show ?thesis
  proof cases
    case 1
    then show ?thesis using visible_late c by simp
  next
    case 2
    have "[0..<k] = [0..<k - 1] @ [k - 1]" using 2 by (metis One_nat_def Suc_pred upt_Suc_append zero_le)
    then have "seen inb (Suc k) = map inb [0..<k - 1] @ (inb (k - 1) # gapword k)"
      using seen_gapword [OF m 2(2)] by simp
    moreover have "length (inb (k - 1) # gapword k) = 22" using gapword_length [OF 2(2)] by simp
    ultimately have "take_bit 22 (fword (seen inb (Suc k))) = take_bit 22 (fword (inb (k - 1) # gapword k))"
      by (simp only: take_bit_fword_suffix)
    also have "\<dots> = fword (inb (k - 1) # gapword k)"
      using gapword_length [OF 2(2)] gapword_bits [of k] b [of "k - 1"] 2 by (intro take_bit_fword_short) auto
    finally have "visible inb e wanted k \<longleftrightarrow> inb (k - 1) # gapword k \<in> take 22 ` {y_bits, n_bits, p_bits, q_bits, x_bits}"
      using fword_tsq_iff [of "inb (k - 1) # gapword k"] gapword_length [OF 2(2)] gapword_bits [of k] b [of "k - 1"] 2 c
      by (simp add: visible_def)
    then show ?thesis using gap_filter [OF 2, of "inb (k - 1)"] b [of "k - 1"] 2 by auto
  next
    case 3
    have "seen inb (Suc k) = gapword 0" using seen_gapword [OF m] 3 by simp
    then have t: "take_bit 22 (fword (seen inb (Suc k))) = fword (gapword 0)"
      using gapword_length [of 0] gapword_bits [of 0] by (simp add: take_bit_fword_short)
    have "fword (gapword 0) \<noteq> fword (take 22 s)" if "s \<in> {y_bits, n_bits, p_bits, q_bits, x_bits}" for s
    proof
      assume eq: "fword (gapword 0) = fword (take 22 s)"
      let ?d = "drop 1 (take 22 s)"
      have d: "length ?d = 21" "is_bits ?d" using train_bits_ok [OF that] by auto
      have "fword (gapword 0) = take_bit 21 (fword (gapword 0))"
        using gapword_length [of 0] gapword_bits [of 0] by (simp add: take_bit_fword_short)
      also have "\<dots> = take_bit 21 (fword (take 1 (take 22 s) @ ?d))" unfolding eq append_take_drop_id ..
      also have "\<dots> = fword ?d"
        unfolding take_bit_fword_suffix [OF d(1)] using d by (simp add: take_bit_fword_short)
      finally have "gapword 0 = ?d"
        using d gapword_length [of 0] gapword_bits [of 0] by (intro fword_inj) simp_all
      then show False using gap_filter_0 [OF that] by simp
    qed
    then have "\<not> visible inb e wanted k" unfolding visible_def t tsq_bytes_eq by auto
    then show ?thesis using 3 by simp
  qed
qed

section \<open>Cutting undoes assembling\<close>

lemma slice_blit_same: "off + length s \<le> length b \<Longrightarrow> length s = n \<Longrightarrow> slice (blit b off s) off n = s"
  by (simp add: slice_def blit_def)

lemma slice_blit_other:
  assumes "off + n \<le> at1 \<or> at1 + length s \<le> off" "at1 + length s \<le> length b"
  shows "slice (blit b at1 s) off n = slice b off n"
proof (rule nth_equalityI)
  show "length (slice (blit b at1 s) off n) = length (slice b off n)"
    using assms(2) by (simp add: slice_def)
  fix i assume "i < length (slice (blit b at1 s) off n)"
  then have i: "i < n" "off + i < length b" using assms(2) by (auto simp: slice_def)
  then have "slice c off n ! i = c ! (off + i)" if "length c = length b" for c :: "'a list"
    using that by (simp add: slice_def)
  then show "slice (blit b at1 s) off n ! i = slice b off n ! i"
    using assms i by (auto simp: nth_blit)
qed

lemma put_phase_adj_bits_length: "put_phase_adj_bits bits pa = Some b \<Longrightarrow> length b = 2"
proof -
  have "\<forall>i < length phase2bits. length (snd (phase2bits ! i)) = 2"
    by (simp add: phase2bits_def less_Suc_eq numeral_eq_Suc)
  then show "put_phase_adj_bits bits pa = Some b \<Longrightarrow> length b = 2"
    by (auto simp: put_phase_adj_bits_def Let_def split: prod.splits option.splits if_splits)
qed

text \<open>The buffer after the phase adjustment differs in the two places only.\<close>

lemma put_phases_slice:
  assumes "put_phases buf pa1 at1 pa2 at2 = Some b" "at1 + 2 \<le> length buf" "at2 + 2 \<le> length buf"
  shows "length b = length buf"
    "(off + n \<le> at1 \<or> at1 + 2 \<le> off) \<Longrightarrow> (off + n \<le> at2 \<or> at2 + 2 \<le> off) \<Longrightarrow> slice b off n = slice buf off n"
proof -
  obtain b1 b2 where b: "b = blit (blit buf at1 b1) at2 b2" and l: "length b1 = 2" "length b2 = 2"
    using assms(1) by (auto simp: put_phases_def Let_def bind_eq_Some_conv dest: put_phase_adj_bits_length)
  show "length b = length buf" using l assms(2,3) by (simp add: b)
  show "(off + n \<le> at1 \<or> at1 + 2 \<le> off) \<Longrightarrow> (off + n \<le> at2 \<or> at2 + 2 \<le> off) \<Longrightarrow> slice b off n = slice buf off n"
    using l assms(2,3) by (simp add: b slice_blit_other)
qed

lemma memcmp_slice: "off + length s \<le> length b \<Longrightarrow> slice b off (length s) = s \<Longrightarrow> memcmp_at (\<lambda>i. b ! i) (length b) off s"
  unfolding memcmp_at_def by (auto intro!: nth_equalityI simp: nth_slice [symmetric])

lemma f_bits_length: "length f_bits = 80" by (simp add: f_bits_def)

lemma train_lengths: "length y_bits = 38" "length n_bits = 22" "length p_bits = 22" "length q_bits = 22"
  by (simp_all add: train_bits)

lemma slice_join: "off + m \<le> length b \<Longrightarrow> slice b off m @ slice b (off + m) n = slice b off (m + n)"
  by (simp add: slice_def take_add add.commute)

lemma norm_burst_parts:
  assumes "build_norm_c_d_burst buf bkn1 bb bkn2 two = Some (b, n)"
    and len: "length buf = 510" "length bkn1 = 216" "length bb = 30" "length bkn2 = 216"
  shows "n = 510" "length b = 510" "slice b 14 216 = bkn1" "slice b 230 14 = take 14 bb"
    "slice b 244 22 = (if two then p_bits else n_bits)" "slice b 266 16 = slice bb 14 16" "slice b 282 216 = bkn2"
proof -
  define b0 where "b0 = blit (blit (blit (blit (blit (blit (blit buf 0 (slice q_bits 10 12)) 14 bkn1) 230 (take 14 bb))
    244 (if two then p_bits else n_bits)) 266 (slice bb 14 16)) 282 bkn2) 500 (take 10 q_bits)"
  have l0: "length b0 = 510" using len by (simp add: b0_def train_lengths slice_def)
  have "n = 510" and pp: "put_phases b0 HA 12 HB 498 = Some b"
    using assms by (auto simp: build_norm_c_d_burst_def Let_def b0_def split: if_splits)
  note ps = put_phases_slice [OF pp, unfolded l0, simplified]
  show "n = 510" by fact
  show "length b = 510" by (rule ps(1))
  have q: "length (slice q_bits 10 12) = 12" "length (slice bb 14 16) = 16" "length (take 10 q_bits) = 10"
    using len by (simp_all add: slice_def train_lengths)
  show "slice b 14 216 = bkn1" "slice b 230 14 = take 14 bb"
    "slice b 244 22 = (if two then p_bits else n_bits)" "slice b 266 16 = slice bb 14 16" "slice b 282 216 = bkn2"
    using len q by (simp_all add: ps(2) b0_def slice_blit_other slice_blit_same train_lengths)
qed

lemma sync_burst_parts:
  assumes "build_sync_c_d_burst buf sb bb bkn = Some (b, n)"
    and len: "length buf = 510" "length sb = 120" "length bb = 30" "length bkn = 216"
  shows "n = 510" "length b = 510" "slice b 94 120 = sb" "slice b 214 38 = y_bits" "slice b 252 30 = bb" "slice b 282 216 = bkn"
proof -
  define b0 where "b0 = blit (blit (blit (blit (blit (blit (blit buf 0 (slice q_bits 10 12)) 14 f_bits) 94 sb)
    214 y_bits) 252 bb) 282 bkn) 500 (take 10 q_bits)"
  have l0: "length b0 = 510" using len by (simp add: b0_def train_lengths f_bits_length slice_def)
  have "n = 510" and pp: "put_phases b0 HC 12 HD 498 = Some b"
    using assms by (auto simp: build_sync_c_d_burst_def Let_def b0_def)
  note ps = put_phases_slice [OF pp, unfolded l0, simplified]
  show "n = 510" by fact
  show "length b = 510" by (rule ps(1))
  have q: "length (slice q_bits 10 12) = 12" "length (take 10 q_bits) = 10"
    by (simp_all add: slice_def train_lengths)
  show "slice b 94 120 = sb" "slice b 214 38 = y_bits" "slice b 252 30 = bb" "slice b 282 216 = bkn"
    using len q by (simp_all add: ps(2) b0_def slice_blit_other slice_blit_same train_lengths f_bits_length)
qed

section \<open>What the phase adjustment writes\<close>

lemma sum_up_phase_parity: "sum_up_phase bits n = Some p \<Longrightarrow> even p \<longleftrightarrow> even n"
proof (induction n arbitrary: p)
  case (Suc n)
  then obtain q where q: "sum_up_phase bits n = Some q"
      "unat (bits (2 * n) OR push_bit 1 (bits (2 * n + 1))) < 4"
      "p = q + bits2phase ! unat (bits (2 * n) OR push_bit 1 (bits (2 * n + 1)))"
    by (auto simp: Let_def split: option.splits if_splits)
  have "odd (bits2phase ! i)" if "i < 4" for i
    using that by (auto simp: bits2phase_def less_Suc_eq numeral_eq_Suc)
  then show ?case using Suc.IH [OF q(1)] q(2,3) by simp
qed simp

lemma calc_phase_adj_range:
  "odd p \<Longrightarrow> calc_phase_adj p \<in> {- 3, - 1, 1, 3}" "(p + calc_phase_adj p) mod 8 = 0"
  by (auto simp: calc_phase_adj_def Let_def; presburger)+

lemma odd_spans: "phase_adj_n pa = (n1, n2) \<Longrightarrow> odd (1 + n2 - n1)"
  by (cases pa) auto

lemma phase_adj_wrong:
  assumes "phase_adj_n pa = (n1, n2)" "sum_up_phase (at bits (2 * (n1 - 1))) (1 + n2 - n1) = Some p"
  shows "put_phase_adj_bits bits pa = (if calc_phase_adj p < 0 then None else Some [0, 0])"
proof -
  have "odd p" using sum_up_phase_parity [OF assms(2)] odd_spans [OF assms(1)] by simp
  then have "calc_phase_adj p \<in> {- 3, - 1, 1, 3}" by (rule calc_phase_adj_range)
  then show ?thesis
    using assms by (auto simp: put_phase_adj_bits_def phase2bits_def)
qed

lemma memcmp_at_less: "memcmp_at inb e k y_bits \<Longrightarrow> k < e"
  unfolding memcmp_at_def train_lengths by (elim conjE) linarith

lemma find_train_cases:
  "case tetra_find_train_seq inb e wanted of
     Some (s, k) \<Rightarrow> k < e \<and> compare_seqs inb e wanted k = Some s \<and>
       (\<forall>j. 21 \<le> j \<and> j < k \<longrightarrow> compare_seqs inb e wanted j = None)
   | None \<Rightarrow> \<forall>j. 21 \<le> j \<and> j < e \<longrightarrow> compare_seqs inb e wanted j = None"
proof (cases "tetra_find_train_seq inb e wanted")
  case None
  then have "\<forall>k<e. \<not> visible inb e wanted k" by (simp only: find_train_None)
  then have "\<forall>j. 21 \<le> j \<and> j < e \<longrightarrow> compare_seqs inb e wanted j = None" using visible_late by blast
  then show ?thesis by (simp add: None)
next
  case (Some r)
  obtain s k where r: "r = (s, k)" by (cases r)
  note f = Some [unfolded r find_train_Some]
  then have "\<forall>j. 21 \<le> j \<and> j < k \<longrightarrow> compare_seqs inb e wanted j = None" using visible_late by blast
  with f show ?thesis by (simp add: Some r)
qed

section \<open>Properties\<close>

text \<open>
  C35. The search with its 22-bit filter is sound, and from offset 21 on complete: what it returns is a
  wanted training sequence that lies in full at the returned offset, and no wanted sequence lies in
  full at an earlier offset from 21 on; when it returns nothing there is none from 21 on. The bytes
  it looks ahead to behind the end never matter.
\<close>
theorem train_search_correct:
  "case tetra_find_train_seq inb e wanted of
     Some (s, k) \<Rightarrow> k < e \<and> compare_seqs inb e wanted k = Some s \<and>
       (\<forall>j. 21 \<le> j \<and> j < k \<longrightarrow> compare_seqs inb e wanted j = None)
   | None \<Rightarrow> \<forall>j. 21 \<le> j \<and> j < e \<longrightarrow> compare_seqs inb e wanted j = None"
  by (rule find_train_cases)

theorem train_search_correct_witness:
  "case tetra_find_train_seq (\<lambda>i. 1) 100 {TETRA_TRAIN_SYNC} of
     Some (s, k) \<Rightarrow> k < 100 \<and> compare_seqs (\<lambda>i. 1) 100 {TETRA_TRAIN_SYNC} k = Some s \<and>
       (\<forall>j. 21 \<le> j \<and> j < k \<longrightarrow> compare_seqs (\<lambda>i. 1) 100 {TETRA_TRAIN_SYNC} j = None)
   | None \<Rightarrow> \<forall>j. 21 \<le> j \<and> j < 100 \<longrightarrow> compare_seqs (\<lambda>i. 1) 100 {TETRA_TRAIN_SYNC} j = None"
  by (rule train_search_correct)

text \<open>
  The filter is loaded with 20 bits and then skips one, so a synchronisation sequence that lies in
  full at one of the first 21 offsets is found only at offset 19 or 20, and there only after a bit 1.
\<close>
theorem train_search_gap:
  assumes "memcmp_at inb e k y_bits" "k \<le> 20" "\<forall>j<k. \<not> memcmp_at inb e j y_bits"
    and "\<forall>i<20. inb i = 0 \<or> inb i = 1"
  shows "tetra_find_train_seq inb e {TETRA_TRAIN_SYNC} = Some (TETRA_TRAIN_SYNC, k) \<longleftrightarrow> 19 \<le> k \<and> inb (k - 1) = 1"
proof -
  have "visible inb e {TETRA_TRAIN_SYNC} k \<longleftrightarrow> 19 \<le> k \<and> inb (k - 1) = 1"
    using visible_sync_iff [OF assms(1) refl] assms(2,4) by auto
  moreover have "\<forall>j<k. \<not> visible inb e {TETRA_TRAIN_SYNC} j"
    using assms(3) by (auto simp: visible_def compare_seqs_def)
  moreover have "compare_seqs inb e {TETRA_TRAIN_SYNC} k = Some TETRA_TRAIN_SYNC"
    using assms(1) by (simp add: compare_seqs_def)
  ultimately show ?thesis using memcmp_at_less [OF assms(1)] by (simp add: find_train_Some)
qed

theorem train_search_gap_witness:
  "tetra_find_train_seq (\<lambda>i. if i < 38 then y_bits ! i else 0) 50 {TETRA_TRAIN_SYNC} = Some (TETRA_TRAIN_SYNC, 0)
    \<longleftrightarrow> 19 \<le> (0 :: nat) \<and> (if 0 - 1 < (38 :: nat) then y_bits ! (0 - 1) else 0) = 1"
proof (rule train_search_gap)
  show "memcmp_at (\<lambda>i. if i < 38 then y_bits ! i else 0) 50 0 y_bits"
    unfolding memcmp_at_def by (auto intro!: nth_equalityI simp: train_lengths)
  have "is_bits y_bits" by (simp add: train_bits)
  then show "\<forall>i<20. (if i < 38 then y_bits ! i else 0) = 0 \<or> (if i < 38 then y_bits ! i else 0) = 1"
    using is_bits_nth [of y_bits] by (simp add: train_lengths)
qed simp_all

text \<open>
  Cutting undoes assembling: from a normal burst that was built, the receiver cuts exactly the
  broadcast block and the payload blocks that went in, as one full slot or as two half slots, and the
  training sequence lies at the bit offset 244 that the synchroniser expects.
\<close>
theorem normal_burst_roundtrip:
  assumes "build_norm_c_d_burst buf bkn1 bb bkn2 two = Some (b, n)"
    and "length buf = 510" "length bkn1 = 216" "length bb = 30" "length bkn2 = 216"
  shows "n = 510 \<and> memcmp_at (\<lambda>i. b ! i) 510 244 (if two then p_bits else n_bits) \<and>
    burst_blocks b TETRA_TRAIN_NORM_1 = [(TPSAP_T_BBK, 0, bb), (TPSAP_T_SCH_F, 0, bkn1 @ bkn2)] \<and>
    burst_blocks b TETRA_TRAIN_NORM_2 = [(TPSAP_T_BBK, 0, bb), (TPSAP_T_NDB, BLK_1, bkn1), (TPSAP_T_NDB, BLK_2, bkn2)]"
proof -
  note parts = norm_burst_parts [OF assms]
  have "take 14 bb @ slice bb 14 16 = bb"
    using assms(4) by (simp add: slice_def)
  moreover have "memcmp_at (\<lambda>i. b ! i) 510 244 (if two then p_bits else n_bits)"
    using memcmp_slice [of 244 "if two then p_bits else n_bits" b] parts(2,5) by (simp add: train_lengths)
  ultimately show ?thesis
    using parts by (simp add: burst_blocks_def burst_layout)
qed

theorem normal_burst_roundtrip_witness:
  "\<exists>b n. build_norm_c_d_burst (replicate 510 0) (replicate 216 0) (replicate 30 1) (replicate 216 0) False = Some (b, n) \<and>
    n = 510 \<and> memcmp_at (\<lambda>i. b ! i) 510 244 (if False then p_bits else n_bits) \<and>
    burst_blocks b TETRA_TRAIN_NORM_1 = [(TPSAP_T_BBK, 0, replicate 30 1), (TPSAP_T_SCH_F, 0, replicate 216 0 @ replicate 216 0)] \<and>
    burst_blocks b TETRA_TRAIN_NORM_2 =
      [(TPSAP_T_BBK, 0, replicate 30 1), (TPSAP_T_NDB, BLK_1, replicate 216 0), (TPSAP_T_NDB, BLK_2, replicate 216 0)]"
proof -
  have "build_norm_c_d_burst (replicate 510 0) (replicate 216 0) (replicate 30 1) (replicate 216 0) False \<noteq> None"
    by code_simp
  then obtain b n where
    "build_norm_c_d_burst (replicate 510 0) (replicate 216 0) (replicate 30 1) (replicate 216 0) False = Some (b, n)"
    by auto
  from normal_burst_roundtrip [OF this] show ?thesis using \<open>_ = Some (b, n)\<close> by simp
qed

text \<open>
  The same for a synchronisation burst: the synchronisation, broadcast and second blocks come back,
  and the training sequence lies at offset 214.
\<close>
theorem sync_burst_roundtrip:
  assumes "build_sync_c_d_burst buf sb bb bkn = Some (b, n)"
    and "length buf = 510" "length sb = 120" "length bb = 30" "length bkn = 216"
  shows "n = 510 \<and> memcmp_at (\<lambda>i. b ! i) 510 214 y_bits \<and>
    burst_blocks b TETRA_TRAIN_SYNC = [(TPSAP_T_SB1, BLK_1, sb), (TPSAP_T_BBK, 0, bb), (TPSAP_T_SB2, BLK_2, bkn)]"
proof -
  note parts = sync_burst_parts [OF assms]
  have "memcmp_at (\<lambda>i. b ! i) 510 214 y_bits"
    using memcmp_slice [of 214 y_bits b] parts(2,4) by (simp add: train_lengths)
  then show ?thesis
    using parts by (simp add: burst_blocks_def burst_layout)
qed

theorem sync_burst_roundtrip_witness:
  "\<exists>b n. build_sync_c_d_burst (replicate 510 0) ([1, 0] @ replicate 118 0) (replicate 30 0) (replicate 216 0) = Some (b, n) \<and>
    n = 510 \<and> memcmp_at (\<lambda>i. b ! i) 510 214 y_bits \<and>
    burst_blocks b TETRA_TRAIN_SYNC =
      [(TPSAP_T_SB1, BLK_1, [1, 0] @ replicate 118 0), (TPSAP_T_BBK, 0, replicate 30 0), (TPSAP_T_SB2, BLK_2, replicate 216 0)]"
proof -
  have "build_sync_c_d_burst (replicate 510 0) ([1, 0] @ replicate 118 0) (replicate 30 0) (replicate 216 0) \<noteq> None"
    by code_simp
  then obtain b n where
    "build_sync_c_d_burst (replicate 510 0) ([1, 0] @ replicate 118 0) (replicate 30 0) (replicate 216 0) = Some (b, n)"
    by auto
  from sync_burst_roundtrip [OF this] show ?thesis using \<open>_ = Some (b, n)\<close> by simp
qed

text \<open>
  The phase adjustment is never computed: every span has an odd number of symbols, so the phase it
  needs is one of +1, +3, -1, -3; the table of bits is then read at that index without the offset of
  3, which is before the table for the negative phases and an unset entry, the bits 0 0, for the
  positive ones. The needed phase itself is right: it makes the span's sum a multiple of 8.
\<close>
theorem phase_adjustment_index_wrong:
  assumes "phase_adj_n pa = (n1, n2)" "sum_up_phase (at bits (2 * (n1 - 1))) (1 + n2 - n1) = Some p"
  shows "calc_phase_adj p \<in> {- 3, - 1, 1, 3} \<and> (p + calc_phase_adj p) mod 8 = 0 \<and>
    put_phase_adj_bits bits pa = (if calc_phase_adj p < 0 then None else Some [0, 0])"
  using calc_phase_adj_range [of p] phase_adj_wrong [OF assms] sum_up_phase_parity [OF assms(2)]
    odd_spans [OF assms(1)] by simp

theorem phase_adjustment_index_wrong_witness:
  "calc_phase_adj 101 \<in> {- 3, - 1, 1, 3} \<and> (101 + calc_phase_adj 101) mod 8 = 0 \<and>
    put_phase_adj_bits (\<lambda>_. 0) HC = (if calc_phase_adj 101 < 0 then None else Some [0, 0])"
proof (rule phase_adjustment_index_wrong)
  have "sum_up_phase (\<lambda>_. 0) n = Some (int n)" for n
    by (induction n) (simp_all add: bits2phase_def)
  then show "sum_up_phase (at (\<lambda>_. 0) (2 * (8 - 1))) (1 + 108 - 8) = Some 101" by (simp add: at_def)
qed simp

end
