(* ===== verification/BurstSync.thy ===== *)
theory BurstSync
  imports Burst
begin

text \<open>
  The burst synchroniser, \<open>phy/tetra_burst_sync.h\<close> and \<open>tetra_burst_sync.c\<close>: a buffer of 4096 bits over
  the received stream and the states unlocked, frame start known and locked. The function the
  bursts are handed to is a parameter, with the state \<open>'w\<close> behind it and the global TDMA clock. The
  lemmas relate the buffer to the stream, show when the synchroniser stays inside its buffer, and
  what it delivers once locked.
\<close>

section \<open>The synchroniser\<close>

datatype rx_state = RX_S_UNLOCKED | RX_S_KNOW_FSTART | RX_S_LOCKED

record tetra_rx_state =
  state :: rx_state
  bits_in_buf :: nat
  bitbuf :: "u8 list"
  bitbuf_start_bitnum :: u32
  next_frame_start_bitnum :: u32

text \<open>A copy that leaves the buffer, and a failure of the burst callback.\<close>

datatype sync_error = Buffer_overrun | Callback_failed

type_synonym 'w burst_cb = "u8 list \<Rightarrow> tetra_train_seq \<Rightarrow> tetra_tdma_time \<times> 'w \<Rightarrow> (tetra_tdma_time \<times> 'w) option"

definition BITBUF_SIZE :: nat where "BITBUF_SIZE = 4096"

text \<open>\<open>memmove(buf, buf + off, n)\<close>.\<close>

definition memmove_front :: "u8 list \<Rightarrow> nat \<Rightarrow> nat \<Rightarrow> u8 list" where
  "memmove_front buf off n = take n (drop off buf) @ drop n buf"

definition make_bitbuf_space :: "tetra_rx_state \<Rightarrow> nat \<Rightarrow> sync_error + tetra_rx_state" where
  "make_bitbuf_space trs len =
    (let bitbuf_space = BITBUF_SIZE - bits_in_buf trs
     in if bitbuf_space < len then
          (let delta = len - bitbuf_space
           in if bits_in_buf trs < delta then Inl Buffer_overrun
              else Inr (trs\<lparr>bitbuf := memmove_front (bitbuf trs) delta (bits_in_buf trs - delta),
                            bits_in_buf := bits_in_buf trs - delta,
                            bitbuf_start_bitnum := bitbuf_start_bitnum trs + of_nat delta\<rparr>))
        else Inr trs)"

text \<open>The bits as the search sees them; behind the buffer lie other bytes of the structure.\<close>

definition buffer_bits :: "tetra_rx_state \<Rightarrow> (nat \<Rightarrow> u8) \<Rightarrow> nat \<Rightarrow> u8" where
  "buffer_bits trs behind i = (if i < BITBUF_SIZE then bitbuf trs ! i else behind (i - BITBUF_SIZE))"

text \<open>What the result of the search leads to: the next state, with the callback's effect.\<close>

definition handle_burst ::
  "'w burst_cb \<Rightarrow> (tetra_train_seq \<times> nat) option \<Rightarrow> tetra_rx_state \<Rightarrow> tetra_tdma_time \<times> 'w
    \<Rightarrow> sync_error + tetra_rx_state \<times> tetra_tdma_time \<times> 'w" where
  "handle_burst cb rc trs w =
    (let deliver = (\<lambda>s. case cb (bitbuf trs) s w of None \<Rightarrow> Inl Callback_failed | Some w' \<Rightarrow> Inr (trs, w'))
     in case rc of
          None \<Rightarrow> Inr (trs\<lparr>state := RX_S_UNLOCKED\<rparr>, w)
        | Some (s, train_seq_offs) \<Rightarrow>
            (case s of
               TETRA_TRAIN_SYNC \<Rightarrow>
                 if train_seq_offs = 214 then deliver s else Inr (trs\<lparr>state := RX_S_UNLOCKED\<rparr>, w)
             | TETRA_TRAIN_EXT \<Rightarrow> Inr (trs\<lparr>state := RX_S_UNLOCKED\<rparr>, w)
             | _ \<Rightarrow> if train_seq_offs = 244 then deliver s else Inr (trs, w)))"

definition rx_locked ::
  "'w burst_cb \<Rightarrow> (nat \<Rightarrow> u8) \<Rightarrow> nat \<Rightarrow> tetra_rx_state \<Rightarrow> tetra_tdma_time \<times> 'w
    \<Rightarrow> sync_error + int \<times> tetra_rx_state \<times> tetra_tdma_time \<times> 'w" where
  "rx_locked cb behind len trs w =
    (if bits_in_buf trs < TETRA_BITS_PER_TS then Inr (int len, trs, w)
     else
       (let w = (tetra_tdma_time_add_tn (fst w) 1, snd w);
            rc = tetra_find_train_seq (buffer_bits trs behind) (bits_in_buf trs)
                   {TETRA_TRAIN_NORM_1, TETRA_TRAIN_NORM_2, TETRA_TRAIN_SYNC}
        in case handle_burst cb rc trs w of
             Inl e \<Rightarrow> Inl e
           | Inr (trs, w) \<Rightarrow>
               (let n = bits_in_buf trs - TETRA_BITS_PER_TS
                in Inr (int len, trs\<lparr>bits_in_buf := n,
                          bitbuf := memmove_front (bitbuf trs) TETRA_BITS_PER_TS n,
                          bitbuf_start_bitnum := bitbuf_start_bitnum trs + of_nat TETRA_BITS_PER_TS,
                          next_frame_start_bitnum := next_frame_start_bitnum trs + of_nat TETRA_BITS_PER_TS\<rparr>, w))))"

text \<open>The offset is an \<open>int\<close>; a negative one or a negative rest copies outside the buffer.\<close>

definition rx_know_fstart ::
  "'w burst_cb \<Rightarrow> (nat \<Rightarrow> u8) \<Rightarrow> nat \<Rightarrow> tetra_rx_state \<Rightarrow> tetra_tdma_time \<times> 'w
    \<Rightarrow> sync_error + int \<times> tetra_rx_state \<times> tetra_tdma_time \<times> 'w" where
  "rx_know_fstart cb behind len trs w =
    (if bitbuf_start_bitnum trs + of_nat (bits_in_buf trs) < next_frame_start_bitnum trs then Inr (0, trs, w)
     else
       (let offset = sint (next_frame_start_bitnum trs - bitbuf_start_bitnum trs);
            bits_remaining = int (bits_in_buf trs) - offset
        in if offset < 0 \<or> bits_remaining < 0 then Inl Buffer_overrun
           else rx_locked cb behind len
             (trs\<lparr>bitbuf := memmove_front (bitbuf trs) (nat offset) (nat bits_remaining),
                  bits_in_buf := nat bits_remaining,
                  bitbuf_start_bitnum := bitbuf_start_bitnum trs + of_int offset,
                  next_frame_start_bitnum := next_frame_start_bitnum trs + of_nat TETRA_BITS_PER_TS,
                  state := RX_S_LOCKED\<rparr>) w))"

definition rx_unlocked ::
  "(nat \<Rightarrow> u8) \<Rightarrow> nat \<Rightarrow> tetra_rx_state \<Rightarrow> int \<times> tetra_rx_state" where
  "rx_unlocked behind len trs =
    (if bits_in_buf trs < TETRA_BITS_PER_TS * 2 then (int len, trs)
     else case tetra_find_train_seq (buffer_bits trs behind) (bits_in_buf trs) {TETRA_TRAIN_SYNC} of
            None \<Rightarrow> (- 1, trs)
          | Some (s, train_seq_offs) \<Rightarrow>
              (int len, trs\<lparr>state := RX_S_KNOW_FSTART,
                 next_frame_start_bitnum := bitbuf_start_bitnum trs + of_nat train_seq_offs + 296\<rparr>))"

definition tetra_burst_sync_in ::
  "'w burst_cb \<Rightarrow> (nat \<Rightarrow> u8) \<Rightarrow> tetra_rx_state \<Rightarrow> u8 list \<Rightarrow> tetra_tdma_time \<times> 'w
    \<Rightarrow> sync_error + int \<times> tetra_rx_state \<times> tetra_tdma_time \<times> 'w" where
  "tetra_burst_sync_in cb behind trs bits w =
    (let len = length bits
     in case make_bitbuf_space trs len of
          Inl e \<Rightarrow> Inl e
        | Inr trs \<Rightarrow>
            if BITBUF_SIZE < bits_in_buf trs + len then Inl Buffer_overrun
            else
              (let trs = trs\<lparr>bitbuf := blit (bitbuf trs) (bits_in_buf trs) bits,
                             bits_in_buf := bits_in_buf trs + len\<rparr>
               in case state trs of
                    RX_S_UNLOCKED \<Rightarrow> (let (rc, trs) = rx_unlocked behind len trs in Inr (rc, trs, w))
                  | RX_S_KNOW_FSTART \<Rightarrow> rx_know_fstart cb behind len trs w
                  | RX_S_LOCKED \<Rightarrow> rx_locked cb behind len trs w))"

text \<open>The receiver starts from cleared memory.\<close>

definition initial_rx_state :: tetra_rx_state where
  "initial_rx_state = \<lparr>state = RX_S_UNLOCKED, bits_in_buf = 0, bitbuf = replicate BITBUF_SIZE 0,
     bitbuf_start_bitnum = 0, next_frame_start_bitnum = 0\<rparr>"

section \<open>The buffer as a window of the stream\<close>

lemma TS_510 [simp]: "TETRA_BITS_PER_TS = 510"
  by (simp add: TETRA_BITS_PER_TS_def)

definition content :: "tetra_rx_state \<Rightarrow> u8 list" where
  "content trs = take (bits_in_buf trs) (bitbuf trs)"

definition buffer_ok :: "tetra_rx_state \<Rightarrow> bool" where
  "buffer_ok trs \<longleftrightarrow> length (bitbuf trs) = BITBUF_SIZE \<and> bits_in_buf trs \<le> BITBUF_SIZE"

lemma length_content: "buffer_ok trs \<Longrightarrow> length (content trs) = bits_in_buf trs"
  by (simp add: content_def buffer_ok_def)

lemma memmove_front_take: "off + n \<le> length b \<Longrightarrow> take n (memmove_front b off n) = take n (drop off b)"
  by (simp add: memmove_front_def)

lemma length_memmove_front [len_simps]: "off + n \<le> length b \<Longrightarrow> length (memmove_front b off n) = length b"
  by (simp add: memmove_front_def)

lemma take_blit_end: "n + length c \<le> length b \<Longrightarrow> take (n + length c) (blit b n c) = take n b @ c"
  by (simp add: blit_def)

text \<open>Making space and appending: the oldest bits go, the new ones follow the rest.\<close>

definition appended :: "tetra_rx_state \<Rightarrow> u8 list \<Rightarrow> tetra_rx_state \<Rightarrow> bool" where
  "appended trs bits trs1 \<longleftrightarrow> (\<exists>\<delta>. \<delta> = bits_in_buf trs + length bits - BITBUF_SIZE \<and> \<delta> \<le> bits_in_buf trs \<and>
    buffer_ok trs1 \<and> content trs1 = drop \<delta> (content trs) @ bits \<and>
    bits_in_buf trs1 = bits_in_buf trs - \<delta> + length bits \<and>
    bitbuf_start_bitnum trs1 = bitbuf_start_bitnum trs + of_nat \<delta> \<and>
    next_frame_start_bitnum trs1 = next_frame_start_bitnum trs \<and> state trs1 = state trs)"

lemma sync_in_appended:
  assumes "buffer_ok trs" "length bits \<le> BITBUF_SIZE"
  shows "\<exists>trs1. appended trs bits trs1 \<and> tetra_burst_sync_in cb behind trs bits w =
    (case state trs1 of
       RX_S_UNLOCKED \<Rightarrow> (let (rc, trs) = rx_unlocked behind (length bits) trs1 in Inr (rc, trs, w))
     | RX_S_KNOW_FSTART \<Rightarrow> rx_know_fstart cb behind (length bits) trs1 w
     | RX_S_LOCKED \<Rightarrow> rx_locked cb behind (length bits) trs1 w)"
proof -
  let ?n = "bits_in_buf trs" and ?len = "length bits"
  define \<delta> where "\<delta> = ?n + ?len - BITBUF_SIZE"
  have n: "length (bitbuf trs) = BITBUF_SIZE" "?n \<le> BITBUF_SIZE" using assms(1) by (simp_all add: buffer_ok_def)
  define trs0 where "trs0 = (if \<delta> = 0 then trs else trs\<lparr>bitbuf := memmove_front (bitbuf trs) \<delta> (?n - \<delta>),
    bits_in_buf := ?n - \<delta>, bitbuf_start_bitnum := bitbuf_start_bitnum trs + of_nat \<delta>\<rparr>)"
  have \<delta>: "\<delta> \<le> ?n" "?n - \<delta> + ?len \<le> BITBUF_SIZE" using n assms(2) by (simp_all add: \<delta>_def)
  have space: "make_bitbuf_space trs ?len = Inr trs0"
  proof -
    have d: "?len - (BITBUF_SIZE - ?n) = \<delta>" "BITBUF_SIZE - ?n < ?len \<longleftrightarrow> \<delta> \<noteq> 0" "\<not> ?n < \<delta>"
      using n \<delta> by (auto simp: \<delta>_def)
    show ?thesis unfolding make_bitbuf_space_def Let_def d(1,2) trs0_def by (simp add: d(3))
  qed
  have t0: "bits_in_buf trs0 = ?n - \<delta>" "length (bitbuf trs0) = BITBUF_SIZE"
    "take (?n - \<delta>) (bitbuf trs0) = drop \<delta> (content trs)" "bitbuf_start_bitnum trs0 = bitbuf_start_bitnum trs + of_nat \<delta>"
    "next_frame_start_bitnum trs0 = next_frame_start_bitnum trs" "state trs0 = state trs"
    using n \<delta> by (auto simp: trs0_def content_def memmove_front_take length_memmove_front drop_take)
  define trs1 where "trs1 = trs0\<lparr>bitbuf := blit (bitbuf trs0) (bits_in_buf trs0) bits,
    bits_in_buf := bits_in_buf trs0 + ?len\<rparr>"
  have "take (?n - \<delta> + ?len) (blit (bitbuf trs0) (?n - \<delta>) bits) = drop \<delta> (content trs) @ bits"
    using take_blit_end [of "?n - \<delta>" bits "bitbuf trs0"] \<delta>(2) t0 by simp
  then have "appended trs bits trs1"
    unfolding appended_def
    using \<delta> t0 by (intro exI [of _ \<delta>]) (simp add: \<delta>_def [symmetric] trs1_def buffer_ok_def content_def del: add_diff_assoc2 Nat.add_diff_assoc2)
  moreover have "\<not> BITBUF_SIZE < bits_in_buf trs0 + ?len" using \<delta> t0 by simp
  ultimately show ?thesis
    by (intro exI [of _ trs1]) (simp add: tetra_burst_sync_in_def Let_def space trs1_def [symmetric])
qed

section \<open>Staying inside the buffer\<close>

text \<open>No synchronisation sequence that the search would see.\<close>

definition sync_at :: "u8 list \<Rightarrow> nat \<Rightarrow> bool" where
  "sync_at c k \<longleftrightarrow> memcmp_at (\<lambda>i. c ! i) (length c) k y_bits"

definition searched :: "u8 list \<Rightarrow> bool" where
  "searched c \<longleftrightarrow> (\<forall>k. sync_at c k \<longrightarrow> \<not> (21 \<le> k \<or> 19 \<le> k \<and> c ! (k - 1) = 1))"

lemma memcmp_at_cong: "(\<And>i. i < e \<Longrightarrow> f i = g i) \<Longrightarrow> memcmp_at f e k s \<longleftrightarrow> memcmp_at g e k s"
proof -
  assume eq: "\<And>i. i < e \<Longrightarrow> f i = g i"
  show ?thesis
  proof (cases "length s \<le> e - k")
    case True
    then have "map (\<lambda>i. f (k + i)) [0..<length s] = map (\<lambda>i. g (k + i)) [0..<length s]"
      using eq by (intro map_cong) auto
    then show ?thesis by (simp only: memcmp_at_def)
  qed (simp add: memcmp_at_def)
qed

lemma content_nth: "buffer_ok trs \<Longrightarrow> i < bits_in_buf trs \<Longrightarrow> buffer_bits trs behind i = content trs ! i"
  by (simp add: buffer_ok_def buffer_bits_def content_def)

lemma sync_at_buffer:
  "buffer_ok trs \<Longrightarrow> memcmp_at (buffer_bits trs behind) (bits_in_buf trs) k y_bits \<longleftrightarrow> sync_at (content trs) k"
proof -
  assume ok: "buffer_ok trs"
  have "memcmp_at (buffer_bits trs behind) (bits_in_buf trs) k y_bits
      \<longleftrightarrow> memcmp_at (\<lambda>i. content trs ! i) (bits_in_buf trs) k y_bits"
    by (rule memcmp_at_cong) (rule content_nth [OF ok])
  then show ?thesis by (simp only: sync_at_def length_content [OF ok])
qed

lemma sync_at_length: "sync_at c k \<Longrightarrow> k + 38 \<le> length c"
  unfolding sync_at_def memcmp_at_def train_lengths by (elim conjE) linarith

lemma sync_at_shift: "sync_at (drop d c @ b) k \<Longrightarrow> k + 38 \<le> length (drop d c) \<Longrightarrow> sync_at c (k + d)"
proof -
  assume s: "sync_at (drop d c @ b) k" and l: "k + 38 \<le> length (drop d c)"
  have "map (\<lambda>i. c ! (k + d + i)) [0..<38] = map (\<lambda>i. (drop d c @ b) ! (k + i)) [0..<38]"
    using l by (intro map_cong) (auto simp: nth_append algebra_simps)
  also have "\<dots> = y_bits" using s by (simp add: sync_at_def memcmp_at_def train_lengths)
  finally show "sync_at c (k + d)" using l by (simp add: sync_at_def memcmp_at_def train_lengths)
qed

lemma rx_unlocked_cases:
  assumes ok: "buffer_ok trs" "is_bits (content trs)" "1020 \<le> bits_in_buf trs"
  shows "rx_unlocked behind len trs =
    (if searched (content trs) then (- 1, trs)
     else (let k = (LEAST k. sync_at (content trs) k \<and> (21 \<le> k \<or> 19 \<le> k \<and> content trs ! (k - 1) = 1))
       in (int len, trs\<lparr>state := RX_S_KNOW_FSTART,
             next_frame_start_bitnum := bitbuf_start_bitnum trs + of_nat k + 296\<rparr>)))"
proof -
  let ?in = "buffer_bits trs behind" and ?e = "bits_in_buf trs" and ?c = "content trs"
  let ?P = "\<lambda>k. sync_at ?c k \<and> (21 \<le> k \<or> 19 \<le> k \<and> ?c ! (k - 1) = 1)"
  have b: "?in i = 0 \<or> ?in i = 1" if "i < 20" for i
    using that ok is_bits_nth [of ?c i] by (simp add: content_nth length_content)
  have vis: "visible ?in ?e {TETRA_TRAIN_SYNC} k \<longleftrightarrow> ?P k" for k
  proof (cases "sync_at ?c k")
    case True
    then have m: "memcmp_at ?in ?e k y_bits" using sync_at_buffer [OF ok(1)] by simp
    then have "k < ?e" by (rule memcmp_at_less)
    then have "?in (k - 1) = ?c ! (k - 1)" using ok(1) by (simp add: content_nth)
    then show ?thesis using visible_sync_iff [OF m refl b] True by simp
  next
    case False
    then show ?thesis using sync_at_buffer [OF ok(1)] by (simp add: visible_def compare_seqs_def)
  qed
  have lt: "k < ?e" if "?P k" for k
    using that sync_at_length [of ?c k] ok(1) by (simp add: length_content)
  show ?thesis
  proof (cases "searched ?c")
    case True
    then have "tetra_find_train_seq ?in ?e {TETRA_TRAIN_SYNC} = None"
      using vis by (auto simp: find_train_None searched_def)
    then show ?thesis using True ok(3) by (simp add: rx_unlocked_def)
  next
    case False
    then obtain k where "?P k" by (auto simp: searched_def)
    define K where "K = (LEAST k. ?P k)"
    have P: "?P K" unfolding K_def by (rule LeastI) (rule \<open>?P k\<close>)
    have "\<not> ?P j" if "j < K" for j using that unfolding K_def by (rule not_less_Least)
    then have "\<forall>j<K. \<not> visible ?in ?e {TETRA_TRAIN_SYNC} j" using vis by blast
    moreover have "compare_seqs ?in ?e {TETRA_TRAIN_SYNC} K = Some TETRA_TRAIN_SYNC"
      using P sync_at_buffer [OF ok(1), of behind K] by (simp add: compare_seqs_def)
    moreover have "visible ?in ?e {TETRA_TRAIN_SYNC} K" using P vis by blast
    ultimately have "tetra_find_train_seq ?in ?e {TETRA_TRAIN_SYNC} = Some (TETRA_TRAIN_SYNC, K)"
      using lt [OF P] by (simp only: find_train_Some)
    then show ?thesis using False ok(3) by (simp add: rx_unlocked_def Let_def K_def)
  qed
qed

text \<open>The buffer holds the latest bits of the stream, and the bit numbers count it.\<close>

definition window :: "tetra_rx_state \<Rightarrow> u8 list \<Rightarrow> bool" where
  "window trs fed \<longleftrightarrow> buffer_ok trs \<and> bits_in_buf trs \<le> length fed \<and>
    content trs = drop (length fed - bits_in_buf trs) fed \<and>
    unat (bitbuf_start_bitnum trs) = length fed - bits_in_buf trs"

text \<open>
  The number of bits before a bit number wraps, less what one call looks ahead; the free space that one
  call of 510 bits needs, twice and once.
\<close>

abbreviation stream_limit :: nat where "stream_limit \<equiv> 4294960000"

definition state_ok :: "tetra_rx_state \<Rightarrow> bool" where
  "state_ok trs \<longleftrightarrow> (case state trs of
     RX_S_UNLOCKED \<Rightarrow> searched (content trs) \<or> bits_in_buf trs \<le> 3076
   | RX_S_KNOW_FSTART \<Rightarrow>
       unat (bitbuf_start_bitnum trs) \<le> unat (next_frame_start_bitnum trs) \<and>
       unat (next_frame_start_bitnum trs) < unat (bitbuf_start_bitnum trs) + 4500 \<and>
       (bits_in_buf trs \<le> 3586 \<or> unat (bitbuf_start_bitnum trs) + 510 \<le> unat (next_frame_start_bitnum trs))
   | RX_S_LOCKED \<Rightarrow> True)"

lemma unat_add_small: "unat x + n < 4294967296 \<Longrightarrow> unat (x + of_nat n) = unat x + n" for x :: u32
  by (simp add: unat_word_ariths unat_of_nat)

lemma window_state [simp]: "window (trs\<lparr>state := s\<rparr>) fed \<longleftrightarrow> window trs fed"
  by (simp add: window_def buffer_ok_def content_def)

lemma window_bits: "window trs fed \<Longrightarrow> is_bits fed \<Longrightarrow> is_bits (content trs)"
  by (auto simp: window_def)

lemma appended_window:
  assumes "window trs fed" "appended trs bits trs1" "length fed + length bits < 4294967296"
  shows "window trs1 (fed @ bits)"
proof -
  obtain \<delta> where \<delta>: "\<delta> \<le> bits_in_buf trs" "buffer_ok trs1" "content trs1 = drop \<delta> (content trs) @ bits"
    "bits_in_buf trs1 = bits_in_buf trs - \<delta> + length bits"
    "bitbuf_start_bitnum trs1 = bitbuf_start_bitnum trs + of_nat \<delta>"
    using assms(2) unfolding appended_def by blast
  have w: "bits_in_buf trs \<le> length fed" "content trs = drop (length fed - bits_in_buf trs) fed"
    "unat (bitbuf_start_bitnum trs) = length fed - bits_in_buf trs"
    using assms(1) by (simp_all add: window_def)
  have len: "length (fed @ bits) - bits_in_buf trs1 = length fed - bits_in_buf trs + \<delta>" using \<delta> w by simp
  have "content trs1 = drop (length fed - bits_in_buf trs + \<delta>) (fed @ bits)"
    using \<delta>(1,3) w by (simp add: add.commute)
  moreover have "unat (bitbuf_start_bitnum trs1) = length fed - bits_in_buf trs + \<delta>"
    unfolding \<delta>(5) w(3) [symmetric] using \<delta>(1) w assms(3) by (intro unat_add_small) simp
  ultimately show ?thesis unfolding window_def len using \<delta> w by simp
qed

text \<open>Cutting bits off the front keeps the window.\<close>

lemma window_cut:
  assumes "window trs fed" "off \<le> bits_in_buf trs" "length fed < 4294967296"
    and "bitbuf trs' = memmove_front (bitbuf trs) off (bits_in_buf trs - off)" "bits_in_buf trs' = bits_in_buf trs - off"
    and "bitbuf_start_bitnum trs' = bitbuf_start_bitnum trs + of_nat off"
  shows "window trs' fed"
proof -
  have w: "bits_in_buf trs \<le> length fed" "content trs = drop (length fed - bits_in_buf trs) fed"
    "unat (bitbuf_start_bitnum trs) = length fed - bits_in_buf trs"
    "length (bitbuf trs) = BITBUF_SIZE" "bits_in_buf trs \<le> BITBUF_SIZE"
    using assms(1) by (simp_all add: window_def buffer_ok_def)
  have "content trs' = drop off (content trs)"
    using assms(2,4,5) w(4,5) by (simp add: content_def memmove_front_take drop_take)
  then have c: "content trs' = drop (length fed - bits_in_buf trs + off) fed" by (simp add: w(2) add.commute)
  have l: "length fed - bits_in_buf trs' = length fed - bits_in_buf trs + off" using assms(2,5) w by simp
  have "unat (bitbuf_start_bitnum trs') = length fed - bits_in_buf trs + off"
    unfolding assms(6) w(3) [symmetric] using w assms(2,3) by (intro unat_add_small) simp
  moreover have "buffer_ok trs'" "bits_in_buf trs' \<le> length fed"
    using assms(2,4,5) w by (simp_all add: buffer_ok_def length_memmove_front)
  ultimately show ?thesis unfolding window_def l using c by simp
qed

lemma handle_burst_Inr:
  "handle_burst cb rc trs w = Inr (trs', w') \<Longrightarrow> trs' = trs \<or> trs' = trs\<lparr>state := RX_S_UNLOCKED\<rparr>"
  by (auto simp: handle_burst_def Let_def split: option.splits prod.splits tetra_train_seq.splits if_splits)

lemma handle_burst_Inl: "handle_burst cb rc trs w \<noteq> Inl Buffer_overrun"
  by (auto simp: handle_burst_def Let_def split: option.splits prod.splits tetra_train_seq.splits if_splits)

lemma rx_locked_safe: "rx_locked cb behind len trs w \<noteq> Inl Buffer_overrun"
  by (auto simp: rx_locked_def Let_def handle_burst_Inl split: sum.splits prod.splits)

lemma rx_locked_Inr:
  assumes "rx_locked cb behind len trs w = Inr (rc, trs', w')" "\<not> bits_in_buf trs < 510"
  shows "\<exists>trs0. (trs0 = trs \<or> trs0 = trs\<lparr>state := RX_S_UNLOCKED\<rparr>) \<and>
    trs' = trs0\<lparr>bits_in_buf := bits_in_buf trs0 - 510, bitbuf := memmove_front (bitbuf trs0) 510 (bits_in_buf trs0 - 510),
      bitbuf_start_bitnum := bitbuf_start_bitnum trs0 + of_nat 510,
      next_frame_start_bitnum := next_frame_start_bitnum trs0 + of_nat 510\<rparr>"
proof -
  let ?h = "handle_burst cb (tetra_find_train_seq (buffer_bits trs behind) (bits_in_buf trs)
    {TETRA_TRAIN_NORM_1, TETRA_TRAIN_NORM_2, TETRA_TRAIN_SYNC}) trs (tetra_tdma_time_add_tn (fst w) 1, snd w)"
  obtain trs0 w0 where h: "?h = Inr (trs0, w0)"
    using assms by (cases ?h) (auto simp: rx_locked_def)
  have "trs' = trs0\<lparr>bits_in_buf := bits_in_buf trs0 - 510, bitbuf := memmove_front (bitbuf trs0) 510 (bits_in_buf trs0 - 510),
      bitbuf_start_bitnum := bitbuf_start_bitnum trs0 + of_nat 510,
      next_frame_start_bitnum := next_frame_start_bitnum trs0 + of_nat 510\<rparr>"
    using assms unfolding rx_locked_def Let_def TS_510 h by simp
  then show ?thesis using handle_burst_Inr [OF h] by blast
qed

lemma rx_locked_window:
  assumes "window trs fed" "length fed < 4294967296" "state trs = RX_S_LOCKED"
    and "rx_locked cb behind len trs w = Inr (rc, trs', w')"
  shows "window trs' fed" "state trs' \<noteq> RX_S_KNOW_FSTART"
proof -
  have "window trs' fed \<and> state trs' \<noteq> RX_S_KNOW_FSTART"
  proof (cases "bits_in_buf trs < 510")
    case True
    then show ?thesis using assms(1,3,4) by (simp add: rx_locked_def)
  next
    case False
    from rx_locked_Inr [OF assms(4) this] obtain trs0 where
      t0: "trs0 = trs \<or> trs0 = trs\<lparr>state := RX_S_UNLOCKED\<rparr>" and
      t: "trs' = trs0\<lparr>bits_in_buf := bits_in_buf trs0 - 510, bitbuf := memmove_front (bitbuf trs0) 510 (bits_in_buf trs0 - 510),
        bitbuf_start_bitnum := bitbuf_start_bitnum trs0 + of_nat 510,
        next_frame_start_bitnum := next_frame_start_bitnum trs0 + of_nat 510\<rparr>" by blast
    have w0: "window trs0 fed" and n0: "bits_in_buf trs0 = bits_in_buf trs" and s0: "state trs0 \<noteq> RX_S_KNOW_FSTART"
      using t0 assms(1,3) by auto
    have "window trs' fed"
    proof (rule window_cut [OF w0 _ assms(2)])
      show "510 \<le> bits_in_buf trs0" using False n0 by simp
    qed (simp_all add: t)
    then show ?thesis using s0 by (simp add: t)
  qed
  then show "window trs' fed" "state trs' \<noteq> RX_S_KNOW_FSTART" by simp_all
qed

text \<open>One call keeps the invariant, unless it loses the lock with too many bits left.\<close>

lemma unlocked_step:
  assumes w: "window trs fed" "state_ok trs" "state trs = RX_S_UNLOCKED" and ap: "appended trs bits trs1"
    and b: "length bits \<le> 510" "is_bits (fed @ bits)" "length fed + length bits < stream_limit"
    and r: "rx_unlocked behind (length bits) trs1 = (rc, trs')"
  shows "window trs' (fed @ bits)" "state_ok trs'"
proof -
  have w1: "window trs1 (fed @ bits)" using appended_window [OF w(1) ap] b(3) by simp
  obtain \<delta> where \<delta>: "\<delta> = bits_in_buf trs + length bits - BITBUF_SIZE" "\<delta> \<le> bits_in_buf trs"
    "content trs1 = drop \<delta> (content trs) @ bits" "bits_in_buf trs1 = bits_in_buf trs - \<delta> + length bits"
    "state trs1 = RX_S_UNLOCKED"
    using ap w(3) unfolding appended_def by auto
  have ok1: "buffer_ok trs1" "bits_in_buf trs1 \<le> 4096" "bits_in_buf trs \<le> 4096" "length (content trs) = bits_in_buf trs"
    using w1 w(1) by (simp_all add: window_def buffer_ok_def BITBUF_SIZE_def length_content)
  have bits1: "is_bits (content trs1)" by (rule window_bits [OF w1 b(2)])
  consider "bits_in_buf trs1 < 1020" | "1020 \<le> bits_in_buf trs1" "searched (content trs1)"
    | "1020 \<le> bits_in_buf trs1" "\<not> searched (content trs1)" by linarith
  then have "window trs' (fed @ bits) \<and> state_ok trs'"
  proof cases
    case 1
    then have "trs' = trs1" using r by (simp add: rx_unlocked_def)
    then show ?thesis using w1 1 \<delta>(5) by (simp add: state_ok_def)
  next
    case 2
    then have "trs' = trs1" using r rx_unlocked_cases [OF ok1(1) bits1 2(1)] by simp
    then show ?thesis using w1 2 \<delta>(5) by (simp add: state_ok_def)
  next
    case 3
    let ?P = "\<lambda>k. sync_at (content trs1) k \<and> (21 \<le> k \<or> 19 \<le> k \<and> content trs1 ! (k - 1) = 1)"
    define k where "k = (LEAST k. ?P k)"
    have "\<exists>k. ?P k" using 3(2) by (auto simp: searched_def)
    then have P: "?P k" unfolding k_def by (rule LeastI_ex)
    have t: "trs' = trs1\<lparr>state := RX_S_KNOW_FSTART,
        next_frame_start_bitnum := bitbuf_start_bitnum trs1 + of_nat k + 296\<rparr>"
      using r rx_unlocked_cases [OF ok1(1) bits1 3(1)] 3(2) by (simp add: Let_def k_def)
    have kb: "k + 38 \<le> bits_in_buf trs1" using P sync_at_length length_content [OF ok1(1)] by metis
    have st: "unat (bitbuf_start_bitnum trs1) < stream_limit"
      using w1 b(3) by (simp add: window_def)
    have "unat (bitbuf_start_bitnum trs1) + (k + 296) < 4294967296" using st kb ok1(2) by simp
    from unat_add_small [OF this]
    have nx: "unat (bitbuf_start_bitnum trs1 + of_nat k + 296) = unat (bitbuf_start_bitnum trs1) + (k + 296)"
      by (simp add: add.assoc)
    have "bits_in_buf trs1 \<le> 3586 \<or> 510 \<le> k + 296"
    proof (rule ccontr)
      assume "\<not> ?thesis"
      then have big: "3586 < bits_in_buf trs1" "k < 214" by simp_all
      then have "\<not> bits_in_buf trs \<le> 3076" using \<delta>(2,4) b(1) by simp
      then have s: "searched (content trs)" using w(2,3) by (simp add: state_ok_def)
      have old: "k + 38 \<le> length (drop \<delta> (content trs))" using big \<delta>(2,4) b(1) ok1(4) by simp
      then have "sync_at (content trs) (k + \<delta>)"
        using P \<delta>(3) old by (intro sync_at_shift [of \<delta> "content trs" bits]) simp_all
      moreover have "content trs ! (k + \<delta> - 1) = content trs1 ! (k - 1)" if "19 \<le> k"
      proof -
        have "k - 1 < length (drop \<delta> (content trs))" using old that by linarith
        then have "content trs1 ! (k - 1) = content trs ! (\<delta> + (k - 1))"
          using \<delta>(2) ok1(4) unfolding \<delta>(3) by (simp add: nth_append)
        moreover have "\<delta> + (k - 1) = k + \<delta> - 1" using that by simp
        ultimately show ?thesis by simp
      qed
      ultimately have "\<not> searched (content trs)" using P unfolding searched_def by (intro notI) force
      with s show False by simp
    qed
    then show ?thesis
      using w1 nx kb ok1(2) by (auto simp: t state_ok_def window_def buffer_ok_def content_def)
  qed
  then show "window trs' (fed @ bits)" "state_ok trs'" by simp_all
qed

lemma word_diff_of_nat: "unat y \<le> unat x \<Longrightarrow> x - y = of_nat (unat x - unat y)" for x y :: u32
  by (simp add: of_nat_diff)

lemma know_step:
  assumes w: "window trs fed" "state_ok trs" "state trs = RX_S_KNOW_FSTART" and ap: "appended trs bits trs1"
    and b: "length bits \<le> 510" "length fed + length bits < stream_limit"
  shows "rx_know_fstart cb behind len trs1 wld \<noteq> Inl Buffer_overrun"
    and "rx_know_fstart cb behind len trs1 wld = Inr (rc, trs', wld') \<Longrightarrow>
      window trs' (fed @ bits) \<and> (state trs' = RX_S_KNOW_FSTART \<longrightarrow> state_ok trs')"
proof -
  have w1: "window trs1 (fed @ bits)" using appended_window [OF w(1) ap] b(2) by simp
  obtain \<delta> where \<delta>: "\<delta> = bits_in_buf trs + length bits - BITBUF_SIZE"
    "bitbuf_start_bitnum trs1 = bitbuf_start_bitnum trs + of_nat \<delta>" "\<delta> \<le> bits_in_buf trs"
    "next_frame_start_bitnum trs1 = next_frame_start_bitnum trs" "state trs1 = RX_S_KNOW_FSTART"
    using ap w(3) unfolding appended_def by auto
  define S N S1 where "S = unat (bitbuf_start_bitnum trs)" and "N = unat (next_frame_start_bitnum trs)"
    and "S1 = unat (bitbuf_start_bitnum trs1)"
  have k: "S \<le> N" "N < S + 4500" "bits_in_buf trs \<le> 3586 \<or> S + 510 \<le> N"
    using w(2,3) by (simp_all add: state_ok_def S_def N_def)
  have n: "bits_in_buf trs \<le> 4096" "bits_in_buf trs1 \<le> 4096" "S1 + bits_in_buf trs1 = length fed + length bits"
    "S + bits_in_buf trs = length fed"
    using w(1) w1 by (simp_all add: window_def buffer_ok_def BITBUF_SIZE_def S_def S1_def)
  have S1: "S1 = S + \<delta>"
    unfolding S1_def S_def \<delta>(2) using n(4) \<delta>(3) b(2) by (intro unat_add_small) (simp add: S_def)
  have \<delta>N: "S1 \<le> N" using k(1,3) b(1) n(1) \<delta>(1) by (auto simp: S1 BITBUF_SIZE_def)
  have less: "bitbuf_start_bitnum trs1 + of_nat (bits_in_buf trs1) < next_frame_start_bitnum trs1
      \<longleftrightarrow> S1 + bits_in_buf trs1 < N"
    using unat_add_small [of "bitbuf_start_bitnum trs1" "bits_in_buf trs1"] n(3) b(2)
    by (simp add: word_less_nat_alt \<delta>(4) N_def S1_def)
  show "rx_know_fstart cb behind len trs1 wld \<noteq> Inl Buffer_overrun"
    and "rx_know_fstart cb behind len trs1 wld = Inr (rc, trs', wld') \<Longrightarrow>
      window trs' (fed @ bits) \<and> (state trs' = RX_S_KNOW_FSTART \<longrightarrow> state_ok trs')"
  proof (atomize (full), cases "S1 + bits_in_buf trs1 < N")
    case True
    then have eq: "rx_know_fstart cb behind len trs1 wld = Inr (0, trs1, wld)"
      by (simp add: rx_know_fstart_def less)
    have "state_ok trs1"
      using True k \<delta>N n(2) S1 by (auto simp: state_ok_def \<delta>(4,5) S1_def [symmetric] N_def [symmetric])
    then show "rx_know_fstart cb behind len trs1 wld \<noteq> Inl Buffer_overrun \<and>
      (rx_know_fstart cb behind len trs1 wld = Inr (rc, trs', wld') \<longrightarrow>
        window trs' (fed @ bits) \<and> (state trs' = RX_S_KNOW_FSTART \<longrightarrow> state_ok trs'))"
      using w1 by (auto simp: eq)
  next
    case False
    have "next_frame_start_bitnum trs1 - bitbuf_start_bitnum trs1 = of_nat (N - S1)"
      using word_diff_of_nat [of "bitbuf_start_bitnum trs1" "next_frame_start_bitnum trs1"] \<delta>N
      by (simp add: S1_def N_def \<delta>(4))
    then have off: "sint (next_frame_start_bitnum trs1 - bitbuf_start_bitnum trs1) = int (N - S1)"
      using sint_of_small [of "int (N - S1)"] False n(2) by simp
    define trs2 where "trs2 = trs1\<lparr>bitbuf := memmove_front (bitbuf trs1) (N - S1) (bits_in_buf trs1 - (N - S1)),
      bits_in_buf := bits_in_buf trs1 - (N - S1),
      bitbuf_start_bitnum := bitbuf_start_bitnum trs1 + of_nat (N - S1),
      next_frame_start_bitnum := next_frame_start_bitnum trs1 + of_nat TETRA_BITS_PER_TS, state := RX_S_LOCKED\<rparr>"
    have le: "N - S1 \<le> bits_in_buf trs1" using False by simp
    then have "nat (int (bits_in_buf trs1) - int (N - S1)) = bits_in_buf trs1 - (N - S1)" by simp
    then have eq: "rx_know_fstart cb behind len trs1 wld = rx_locked cb behind len trs2 wld"
      using le unfolding rx_know_fstart_def less off Let_def trs2_def by (simp only: False if_False nat_int of_int_of_nat_eq) simp
    have "window trs2 (fed @ bits)"
      using w1 le b(2) by (rule_tac window_cut [of trs1 _ "N - S1"]) (simp_all add: trs2_def)
    moreover have "state trs2 = RX_S_LOCKED" by (simp add: trs2_def)
    ultimately show "rx_know_fstart cb behind len trs1 wld \<noteq> Inl Buffer_overrun \<and>
      (rx_know_fstart cb behind len trs1 wld = Inr (rc, trs', wld') \<longrightarrow>
        window trs' (fed @ bits) \<and> (state trs' = RX_S_KNOW_FSTART \<longrightarrow> state_ok trs'))"
      using rx_locked_safe rx_locked_window [of trs2 "fed @ bits"] b(2) unfolding eq by simp blast
  qed
qed

lemma locked_step:
  assumes w: "window trs fed" "state trs = RX_S_LOCKED" and ap: "appended trs bits trs1"
    and b: "length fed + length bits < stream_limit"
  shows "rx_locked cb behind len trs1 wld = Inr (rc, trs', wld') \<Longrightarrow>
      window trs' (fed @ bits) \<and> (state trs' = RX_S_KNOW_FSTART \<longrightarrow> state_ok trs')"
proof -
  have "window trs1 (fed @ bits)" using appended_window [OF w(1) ap] b by simp
  moreover have "state trs1 = RX_S_LOCKED" using ap w(2) by (auto simp: appended_def)
  moreover have "length (fed @ bits) < 4294967296" using b by simp
  ultimately show "rx_locked cb behind len trs1 wld = Inr (rc, trs', wld') \<Longrightarrow>
      window trs' (fed @ bits) \<and> (state trs' = RX_S_KNOW_FSTART \<longrightarrow> state_ok trs')"
    using rx_locked_window [of trs1 "fed @ bits"] by blast
qed

section \<open>Reachable states\<close>

text \<open>
  The receiver hands over at most 510 bits at a time. A state is reached with the stream \<open>fed\<close> so far;
  the last premise is that a call that loses the lock leaves at most 3076 bits in the buffer.
\<close>

inductive sync_reach :: "'w burst_cb \<Rightarrow> tetra_rx_state \<Rightarrow> tetra_tdma_time \<times> 'w \<Rightarrow> u8 list \<Rightarrow> bool" for cb where
  start: "sync_reach cb initial_rx_state w []"
| receive: "sync_reach cb trs w fed \<Longrightarrow> length bits \<le> 510 \<Longrightarrow> is_bits bits \<Longrightarrow>
     length fed + length bits < stream_limit \<Longrightarrow>
     tetra_burst_sync_in cb behind trs bits w = Inr (rc, trs', w') \<Longrightarrow>
     (state trs \<noteq> RX_S_UNLOCKED \<Longrightarrow> state trs' = RX_S_UNLOCKED \<Longrightarrow> bits_in_buf trs' \<le> 3076) \<Longrightarrow>
     sync_reach cb trs' w' (fed @ bits)"

lemma sync_step:
  assumes w: "window trs fed" "state_ok trs" "is_bits fed"
    and b: "length bits \<le> 510" "is_bits bits" "length fed + length bits < stream_limit"
  shows "tetra_burst_sync_in cb behind trs bits wld \<noteq> Inl Buffer_overrun"
    and "tetra_burst_sync_in cb behind trs bits wld = Inr (rc, trs', wld') \<Longrightarrow>
      (state trs \<noteq> RX_S_UNLOCKED \<Longrightarrow> state trs' = RX_S_UNLOCKED \<Longrightarrow> bits_in_buf trs' \<le> 3076) \<Longrightarrow>
      window trs' (fed @ bits) \<and> state_ok trs'"
proof -
  have "buffer_ok trs" "length bits \<le> BITBUF_SIZE" using w(1) b(1) by (simp_all add: window_def BITBUF_SIZE_def)
  from sync_in_appended [OF this] obtain trs1 where ap: "appended trs bits trs1"
    and eq: "tetra_burst_sync_in cb behind trs bits wld =
      (case state trs1 of
         RX_S_UNLOCKED \<Rightarrow> (let (rc, trs) = rx_unlocked behind (length bits) trs1 in Inr (rc, trs, wld))
       | RX_S_KNOW_FSTART \<Rightarrow> rx_know_fstart cb behind (length bits) trs1 wld
       | RX_S_LOCKED \<Rightarrow> rx_locked cb behind (length bits) trs1 wld)" by blast
  have st: "state trs1 = state trs" using ap by (auto simp: appended_def)
  have fb: "is_bits (fed @ bits)" using w(3) b(2) by simp
  have loose: "state_ok t" if "state t = RX_S_LOCKED \<or> state t = RX_S_UNLOCKED \<and> bits_in_buf t \<le> 3076" for t
    using that by (auto simp: state_ok_def)
  show "tetra_burst_sync_in cb behind trs bits wld \<noteq> Inl Buffer_overrun"
    using know_step(1) [OF w(1,2) _ ap b(1,3)]
    by (cases "state trs") (simp_all add: eq st Let_def rx_locked_safe split: prod.split)
  assume r: "tetra_burst_sync_in cb behind trs bits wld = Inr (rc, trs', wld')"
    and lost: "state trs \<noteq> RX_S_UNLOCKED \<Longrightarrow> state trs' = RX_S_UNLOCKED \<Longrightarrow> bits_in_buf trs' \<le> 3076"
  show "window trs' (fed @ bits) \<and> state_ok trs'"
  proof (cases "state trs")
    case RX_S_UNLOCKED
    then have "rx_unlocked behind (length bits) trs1 = (rc, trs')"
      using r by (simp add: eq st Let_def split: prod.splits)
    from unlocked_step [OF w(1,2) RX_S_UNLOCKED ap b(1) fb b(3) this] show ?thesis by simp
  next
    case RX_S_KNOW_FSTART
    then have "rx_know_fstart cb behind (length bits) trs1 wld = Inr (rc, trs', wld')" using r by (simp add: eq st)
    from know_step(2) [OF w(1,2) RX_S_KNOW_FSTART ap b(1,3) this]
    show ?thesis using lost RX_S_KNOW_FSTART loose [of trs'] by (cases "state trs'") auto
  next
    case RX_S_LOCKED
    then have "rx_locked cb behind (length bits) trs1 wld = Inr (rc, trs', wld')" using r by (simp add: eq st)
    from locked_step [OF w(1) RX_S_LOCKED ap b(3) this]
    show ?thesis using lost RX_S_LOCKED loose [of trs'] by (cases "state trs'") auto
  qed
qed

lemma sync_reach_inv: "sync_reach cb trs w fed \<Longrightarrow> window trs fed \<and> state_ok trs \<and> is_bits fed"
proof (induction rule: sync_reach.induct)
  case (start w)
  show ?case
    by (simp add: initial_rx_state_def window_def buffer_ok_def content_def state_ok_def BITBUF_SIZE_def)
next
  case (receive trs w fed bits behind rc trs' w')
  then show ?case using sync_step(2) [of trs fed bits cb behind w rc trs' w'] by auto
qed

section \<open>Leaving the buffer\<close>

text \<open>An offset that is negative, or larger than what is there, with the comparison passed.\<close>

lemma know_overrun:
  assumes "buffer_ok trs" "length bits \<le> BITBUF_SIZE" "state trs = RX_S_KNOW_FSTART"
    and "\<delta> = bits_in_buf trs + length bits - BITBUF_SIZE"
    and "\<not> bitbuf_start_bitnum trs + of_nat \<delta> + of_nat (bits_in_buf trs - \<delta> + length bits) < next_frame_start_bitnum trs"
    and "off = sint (next_frame_start_bitnum trs - (bitbuf_start_bitnum trs + of_nat \<delta>))"
    and "off < 0 \<or> int (bits_in_buf trs - \<delta> + length bits) < off"
  shows "tetra_burst_sync_in cb behind trs bits w = Inl Buffer_overrun"
proof -
  from sync_in_appended [OF assms(1,2)] obtain trs1 where ap: "appended trs bits trs1"
    and eq: "tetra_burst_sync_in cb behind trs bits w =
      (case state trs1 of
         RX_S_UNLOCKED \<Rightarrow> (let (rc, trs) = rx_unlocked behind (length bits) trs1 in Inr (rc, trs, w))
       | RX_S_KNOW_FSTART \<Rightarrow> rx_know_fstart cb behind (length bits) trs1 w
       | RX_S_LOCKED \<Rightarrow> rx_locked cb behind (length bits) trs1 w)" by blast
  have t: "state trs1 = RX_S_KNOW_FSTART" "bits_in_buf trs1 = bits_in_buf trs - \<delta> + length bits"
    "bitbuf_start_bitnum trs1 = bitbuf_start_bitnum trs + of_nat \<delta>"
    "next_frame_start_bitnum trs1 = next_frame_start_bitnum trs"
    using ap assms(3,4) by (auto simp: appended_def)
  show ?thesis
    using assms(5,7) unfolding eq t(1) rx_state.case rx_know_fstart_def t(2-4) Let_def assms(6) [symmetric]
    by (simp only: if_False) auto
qed

lemma backlog_overrun:
  assumes "buffer_ok trs" "length bits \<le> BITBUF_SIZE" "state trs = RX_S_KNOW_FSTART"
    and nxt: "next_frame_start_bitnum trs = bitbuf_start_bitnum trs + of_nat off"
    and few: "BITBUF_SIZE + off < bits_in_buf trs + length bits"
    and "unat (bitbuf_start_bitnum trs) < stream_limit - 4000"
  shows "tetra_burst_sync_in cb behind trs bits w = Inl Buffer_overrun"
proof (rule know_overrun [OF assms(1-3) refl _ refl])
  define \<delta> where "\<delta> = bits_in_buf trs + length bits - BITBUF_SIZE"
  have n: "bits_in_buf trs \<le> 4096" "length bits \<le> 4096" "off < \<delta>" "\<delta> \<le> 4096"
    using assms(1,2) few by (auto simp: buffer_ok_def BITBUF_SIZE_def \<delta>_def)
  define S where "S = bitbuf_start_bitnum trs"
  have S: "unat S < 4294956000" using assms(6) by (simp add: S_def)
  have 1: "unat (S + of_nat \<delta> + of_nat (bits_in_buf trs - \<delta> + length bits)) = unat S + \<delta> + (bits_in_buf trs - \<delta> + length bits)"
    using unat_add_small [of S "\<delta> + (bits_in_buf trs - \<delta> + length bits)"] S n by (simp add: add.assoc)
  have 2: "unat (S + of_nat off) = unat S + off" using S n by (intro unat_add_small) simp
  show "\<not> bitbuf_start_bitnum trs + of_nat (bits_in_buf trs + length bits - BITBUF_SIZE) +
      of_nat (bits_in_buf trs - (bits_in_buf trs + length bits - BITBUF_SIZE) + length bits) < next_frame_start_bitnum trs"
    unfolding nxt \<delta>_def [symmetric] S_def [symmetric] word_less_nat_alt 1 2 using n by simp
  have "S + of_nat off - (S + of_nat \<delta>) = of_int (int off - int \<delta>)" by simp
  then have "sint (S + of_nat off - (S + of_nat \<delta>)) = int off - int \<delta>"
    using sint_of_small [of "int off - int \<delta>"] n by simp
  then show "sint (next_frame_start_bitnum trs - (bitbuf_start_bitnum trs + of_nat (bits_in_buf trs + length bits - BITBUF_SIZE))) < 0 \<or>
      int (bits_in_buf trs - (bits_in_buf trs + length bits - BITBUF_SIZE) + length bits)
      < sint (next_frame_start_bitnum trs - (bitbuf_start_bitnum trs + of_nat (bits_in_buf trs + length bits - BITBUF_SIZE)))"
    unfolding nxt \<delta>_def [symmetric] S_def [symmetric] using n by simp
qed

lemma wrap_overrun:
  assumes "buffer_ok trs" "state trs = RX_S_KNOW_FSTART"
    and room: "bits_in_buf trs + length bits \<le> BITBUF_SIZE"
    and nxt: "next_frame_start_bitnum trs = bitbuf_start_bitnum trs + of_nat off" "off < 2147483648"
    and early: "bits_in_buf trs + length bits < off"
    and wrap: "unat (bitbuf_start_bitnum trs) + bits_in_buf trs + length bits < 4294967296"
      "4294967296 \<le> unat (bitbuf_start_bitnum trs) + off"
  shows "tetra_burst_sync_in cb behind trs bits w = Inl Buffer_overrun"
proof (rule know_overrun [OF assms(1) _ assms(2) refl _ refl])
  show "length bits \<le> BITBUF_SIZE" using room by simp
  define S where "S = bitbuf_start_bitnum trs"
  have d: "bits_in_buf trs + length bits - BITBUF_SIZE = 0" using room by simp
  have "unat (S + of_nat (bits_in_buf trs + length bits)) = unat S + (bits_in_buf trs + length bits)"
    using wrap(1) by (intro unat_add_small) (simp add: S_def)
  moreover have "unat (S + of_nat off) = unat S + off - 4294967296"
  proof -
    have "unat S < 4294967296" by (rule unat_u32_less)
    then show ?thesis using wrap(2) nxt(2)
      by (simp add: unat_word_ariths unat_of_nat S_def mod_if)
  qed
  ultimately show "\<not> bitbuf_start_bitnum trs + of_nat (bits_in_buf trs + length bits - BITBUF_SIZE) +
      of_nat (bits_in_buf trs - (bits_in_buf trs + length bits - BITBUF_SIZE) + length bits) < next_frame_start_bitnum trs"
    unfolding nxt d S_def [symmetric] word_less_nat_alt using nxt(2) wrap by (simp add: S_def)
  have "S + of_nat off - (S + of_nat 0) = of_int (int off)" by simp
  then have "sint (S + of_nat off - (S + of_nat 0)) = int off"
    using sint_of_small [of "int off"] nxt(2) by simp
  then show "sint (next_frame_start_bitnum trs - (bitbuf_start_bitnum trs + of_nat (bits_in_buf trs + length bits - BITBUF_SIZE))) < 0 \<or>
      int (bits_in_buf trs - (bits_in_buf trs + length bits - BITBUF_SIZE) + length bits)
      < sint (next_frame_start_bitnum trs - (bitbuf_start_bitnum trs + of_nat (bits_in_buf trs + length bits - BITBUF_SIZE)))"
    unfolding nxt d S_def [symmetric] using early by simp
qed

section \<open>Delivering bursts\<close>

lemma compare_seqs_cong: "(\<And>i. i < e \<Longrightarrow> f i = g i) \<Longrightarrow> compare_seqs f e wanted k = compare_seqs g e wanted k"
  unfolding compare_seqs_def using memcmp_at_cong [of e f g] by simp

definition expected_offset :: "tetra_train_seq \<Rightarrow> nat" where
  "expected_offset s = (if s = TETRA_TRAIN_SYNC then 214 else 244)"

definition downlink_seqs :: "tetra_train_seq set" where
  "downlink_seqs = {TETRA_TRAIN_NORM_1, TETRA_TRAIN_NORM_2, TETRA_TRAIN_SYNC}"

lemma locked_delivers:
  assumes ok: "buffer_ok trs" "state trs = RX_S_LOCKED" "bits_in_buf trs = 0" "length burst = 510"
    and s: "compare_seqs (\<lambda>i. burst ! i) 510 downlink_seqs (expected_offset s) = Some s"
    and first: "\<forall>j < expected_offset s. compare_seqs (\<lambda>i. burst ! i) 510 downlink_seqs j = None"
    and cb: "cb (blit (bitbuf trs) 0 burst) s (tetra_tdma_time_add_tn tm 1, m) = Some w'"
  shows "tetra_burst_sync_in cb behind trs burst (tm, m) =
    Inr (510, trs\<lparr>bitbuf := blit (bitbuf trs) 0 burst,
      bitbuf_start_bitnum := bitbuf_start_bitnum trs + 510,
      next_frame_start_bitnum := next_frame_start_bitnum trs + 510\<rparr>, w')"
proof -
  define trs1 where "trs1 = trs\<lparr>bitbuf := blit (bitbuf trs) 0 burst, bits_in_buf := 510\<rparr>"
  have L: "length (bitbuf trs) = 4096" using ok(1) by (simp add: buffer_ok_def BITBUF_SIZE_def)
  have "buffer_bits trs1 behind i = burst ! i" if "i < 510" for i
    using that L ok(4) by (simp add: buffer_bits_def trs1_def BITBUF_SIZE_def nth_blit)
  then have c: "compare_seqs (buffer_bits trs1 behind) 510 downlink_seqs k = compare_seqs (\<lambda>i. burst ! i) 510 downlink_seqs k" for k
    by (rule compare_seqs_cong)
  have e: "21 \<le> expected_offset s" "expected_offset s < 510" by (simp_all add: expected_offset_def)
  have f: "tetra_find_train_seq (buffer_bits trs1 behind) 510 downlink_seqs = Some (s, expected_offset s)"
    unfolding find_train_Some c using e s first visible_late [OF e(1), of "buffer_bits trs1 behind" 510 downlink_seqs]
    by (auto simp: c visible_def)
  have sd: "s = TETRA_TRAIN_NORM_1 \<or> s = TETRA_TRAIN_NORM_2 \<or> s = TETRA_TRAIN_SYNC"
    using s by (auto simp: compare_seqs_def downlink_seqs_def split: if_splits)
  have h: "handle_burst cb (Some (s, expected_offset s)) trs1 (tetra_tdma_time_add_tn tm 1, m) = Inr (trs1, w')"
    using sd cb by (auto simp: handle_burst_def expected_offset_def trs1_def)
  have "make_bitbuf_space trs 510 = Inr trs" using ok(3) by (simp add: make_bitbuf_space_def BITBUF_SIZE_def)
  then have "tetra_burst_sync_in cb behind trs burst (tm, m) = rx_locked cb behind 510 trs1 (tm, m)"
    using ok by (simp add: tetra_burst_sync_in_def Let_def BITBUF_SIZE_def trs1_def)
  also have "\<dots> = Inr (510, trs1\<lparr>bits_in_buf := 0, bitbuf := memmove_front (bitbuf trs1) 510 0,
      bitbuf_start_bitnum := bitbuf_start_bitnum trs1 + 510, next_frame_start_bitnum := next_frame_start_bitnum trs1 + 510\<rparr>, w')"
    using f h unfolding rx_locked_def Let_def downlink_seqs_def by (simp add: trs1_def)
  finally show ?thesis using ok(2,3) by (simp add: trs1_def memmove_front_def)
qed

section \<open>The properties of the synchroniser\<close>

definition sample_time :: tetra_tdma_time where
  "sample_time = \<lparr>hn = 0, sn = 0, tn = 1, fn = 1, mn = 1\<rparr>"

text \<open>
  C5. As long as the bit numbers have not wrapped and no lost lock leaves a large backlog, the
  synchroniser fed with at most 510 bits at a time never copies outside its buffer, and the buffer is
  always the end of the stream received so far, its first bit numbered by its position in the stream.
\<close>
theorem synchroniser_stays_in_buffer:
  assumes "sync_reach cb trs w fed" "length bits \<le> 510" "is_bits bits"
    and "length fed + length bits < stream_limit"
  shows "tetra_burst_sync_in cb behind trs bits w \<noteq> Inl Buffer_overrun \<and>
    bits_in_buf trs \<le> BITBUF_SIZE \<and>
    take (bits_in_buf trs) (bitbuf trs) = drop (length fed - bits_in_buf trs) fed \<and>
    unat (bitbuf_start_bitnum trs) = length fed - bits_in_buf trs"
proof -
  have inv: "window trs fed" "state_ok trs" "is_bits fed" using sync_reach_inv [OF assms(1)] by simp_all
  from sync_step(1) [OF this assms(2-4)] show ?thesis
    using inv(1) by (simp add: window_def buffer_ok_def content_def)
qed

theorem synchroniser_stays_in_buffer_witness:
  "tetra_burst_sync_in (\<lambda>_ _ w. Some w) (\<lambda>_. 0) initial_rx_state (replicate 510 0) (sample_time, ()) \<noteq> Inl Buffer_overrun \<and>
    bits_in_buf initial_rx_state \<le> BITBUF_SIZE \<and>
    take (bits_in_buf initial_rx_state) (bitbuf initial_rx_state) = drop (length ([] :: u8 list) - bits_in_buf initial_rx_state) [] \<and>
    unat (bitbuf_start_bitnum initial_rx_state) = length ([] :: u8 list) - bits_in_buf initial_rx_state"
  by (rule synchroniser_stays_in_buffer [OF sync_reach.start]) (simp_all add: is_bits_def)

text \<open>
  C23. Once locked, with the buffer empty, a burst of 510 bits whose first training sequence lies where
  its kind has it is handed to the receiver exactly once, with its bits at the start of the buffer, one
  slot later on the clock; the buffer is empty again, the lock is kept and the bit numbers advance by 510.
\<close>
theorem synchroniser_delivers_bursts:
  assumes "buffer_ok trs" "state trs = RX_S_LOCKED" "bits_in_buf trs = 0" "length burst = 510"
    and "compare_seqs (\<lambda>i. burst ! i) 510 downlink_seqs (expected_offset s) = Some s"
    and "\<forall>j < expected_offset s. compare_seqs (\<lambda>i. burst ! i) 510 downlink_seqs j = None"
    and "cb (burst @ drop 510 (bitbuf trs)) s (tetra_tdma_time_add_tn tm 1, m) = Some w'"
  shows "tetra_burst_sync_in cb behind trs burst (tm, m) =
    Inr (510, trs\<lparr>bitbuf := burst @ drop 510 (bitbuf trs),
      bitbuf_start_bitnum := bitbuf_start_bitnum trs + 510,
      next_frame_start_bitnum := next_frame_start_bitnum trs + 510\<rparr>, w')"
proof -
  have "blit (bitbuf trs) 0 burst = burst @ drop 510 (bitbuf trs)" using assms(4) by (simp add: blit_def)
  then show ?thesis using locked_delivers [OF assms(1-6), of cb tm m w' behind] assms(7) by simp
qed

definition sample_burst :: "u8 list" where
  "sample_burst = replicate 244 0 @ n_bits @ replicate 244 0"

lemma sample_burst_silent: "j < 244 \<Longrightarrow> compare_seqs (\<lambda>i. sample_burst ! i) 510 downlink_seqs j = None"
proof -
  assume j: "j < 244"
  show ?thesis
  proof (cases "j = 243")
    case True
    moreover have "compare_seqs (\<lambda>i. sample_burst ! i) 510 downlink_seqs 243 = None" by code_simp
    ultimately show ?thesis by simp
  next
    case False
    then have z: "sample_burst ! Suc j = 0" using j by (simp add: sample_burst_def nth_append)
    have "y_bits ! 1 = 1" "n_bits ! 1 = 1" "p_bits ! 1 = 1" by (code_simp, code_simp, code_simp)
    then show ?thesis
      using z memcmp_at_nth [of "\<lambda>i. sample_burst ! i" 510 j _ 1]
      by (auto simp: compare_seqs_def downlink_seqs_def train_lengths)
  qed
qed

theorem synchroniser_delivers_bursts_witness:
  "tetra_burst_sync_in (\<lambda>_ _ w. Some w) (\<lambda>_. 0) (initial_rx_state\<lparr>state := RX_S_LOCKED\<rparr>) sample_burst (sample_time, ()) =
    Inr (510, initial_rx_state\<lparr>state := RX_S_LOCKED, bitbuf := sample_burst @ drop 510 (bitbuf initial_rx_state),
      bitbuf_start_bitnum := 510, next_frame_start_bitnum := 510\<rparr>, (tetra_tdma_time_add_tn sample_time 1, ()))"
proof -
  let ?trs = "initial_rx_state\<lparr>state := RX_S_LOCKED\<rparr>"
  have "tetra_burst_sync_in (\<lambda>_ _ w. Some w) (\<lambda>_. 0) ?trs sample_burst (sample_time, ()) =
    Inr (510, ?trs\<lparr>bitbuf := sample_burst @ drop 510 (bitbuf ?trs),
      bitbuf_start_bitnum := bitbuf_start_bitnum ?trs + 510,
      next_frame_start_bitnum := next_frame_start_bitnum ?trs + 510\<rparr>, (tetra_tdma_time_add_tn sample_time 1, ()))"
  proof (rule synchroniser_delivers_bursts [where s = TETRA_TRAIN_NORM_1])
    show "compare_seqs (\<lambda>i. sample_burst ! i) 510 downlink_seqs (expected_offset TETRA_TRAIN_NORM_1) = Some TETRA_TRAIN_NORM_1"
      by code_simp
    show "\<forall>j < expected_offset TETRA_TRAIN_NORM_1. compare_seqs (\<lambda>i. sample_burst ! i) 510 downlink_seqs j = None"
      using sample_burst_silent by (simp add: expected_offset_def)
  qed (simp_all add: initial_rx_state_def buffer_ok_def sample_burst_def train_lengths)
  then show ?thesis by (simp add: initial_rx_state_def)
qed

text \<open>
  C40. A receiver that knows the frame start and has more than the free space of backlog behind that
  start loses the start when it makes room: the offset becomes negative and the copy starts before the
  buffer.
\<close>
theorem synchroniser_backlog_overrun:
  assumes "buffer_ok trs" "length bits \<le> BITBUF_SIZE" "state trs = RX_S_KNOW_FSTART"
    and "next_frame_start_bitnum trs = bitbuf_start_bitnum trs + of_nat off"
    and "BITBUF_SIZE + off < bits_in_buf trs + length bits"
    and "unat (bitbuf_start_bitnum trs) < stream_limit - 4000"
  shows "tetra_burst_sync_in cb behind trs bits w = Inl Buffer_overrun"
  by (rule backlog_overrun [OF assms])

theorem synchroniser_backlog_overrun_witness:
  "tetra_burst_sync_in (\<lambda>_ _ w. Some w) (\<lambda>_. 0)
     (initial_rx_state\<lparr>state := RX_S_KNOW_FSTART, bits_in_buf := 4000, next_frame_start_bitnum := 315\<rparr>)
     (replicate 510 0) (sample_time, ()) = Inl Buffer_overrun"
  by (rule synchroniser_backlog_overrun [where off = 315])
    (simp_all add: initial_rx_state_def buffer_ok_def BITBUF_SIZE_def)

text \<open>
  Bit numbers are 32 bits wide and compared without regard to their wrap: shortly before 2 to the
  power 32 bits, when the next frame start has wrapped and the buffer has not, the frame start is
  taken as passed, and more bits are moved and counted than the buffer holds.
\<close>
theorem synchroniser_wrap_overrun:
  assumes "buffer_ok trs" "state trs = RX_S_KNOW_FSTART" "bits_in_buf trs + length bits \<le> BITBUF_SIZE"
    and "next_frame_start_bitnum trs = bitbuf_start_bitnum trs + of_nat off" "off < 2147483648"
    and "bits_in_buf trs + length bits < off"
    and "unat (bitbuf_start_bitnum trs) + bits_in_buf trs + length bits < 4294967296"
    and "4294967296 \<le> unat (bitbuf_start_bitnum trs) + off"
  shows "tetra_burst_sync_in cb behind trs bits w = Inl Buffer_overrun"
  by (rule wrap_overrun [OF assms])

theorem synchroniser_wrap_overrun_witness:
  "tetra_burst_sync_in (\<lambda>_ _ w. Some w) (\<lambda>_. 0)
     (initial_rx_state\<lparr>state := RX_S_KNOW_FSTART, bits_in_buf := 1020,
        bitbuf_start_bitnum := 4294965500, next_frame_start_bitnum := 4\<rparr>)
     (replicate 510 0) (sample_time, ()) = Inl Buffer_overrun"
  by (rule synchroniser_wrap_overrun [where off = 1800])
    (simp_all add: initial_rx_state_def buffer_ok_def BITBUF_SIZE_def)

end
