(* ===== verification/MacPdu.thy ===== *)
theory MacPdu
  imports TetraCrypto
begin

text \<open>
  The PDU decoders of the upper MAC, \<open>tetra_mac_pdu.h\<close> and \<open>tetra_mac_pdu.c\<close>: system information,
  channel allocation, MAC-RESOURCE headers and access assignments, with the name tables. The bits a
  decoder reads are a function of the position behind its argument; each decoder returns the
  structure it fills, and the length where the code returns one. The lemmas relate the decoders to
  encoders of the same layouts and bound the lengths.
\<close>

section \<open>Constants and structures\<close>

definition MACPDU_LEN_2ND_STOLEN :: int where "MACPDU_LEN_2ND_STOLEN = - 2"
definition MACPDU_LEN_START_FRAG :: int where "MACPDU_LEN_START_FRAG = - 1"

definition ADDR_TYPE_NULL :: u8 where "ADDR_TYPE_NULL = 0"
definition ADDR_TYPE_SSI :: u8 where "ADDR_TYPE_SSI = 1"
definition ADDR_TYPE_EVENT_LABEL :: u8 where "ADDR_TYPE_EVENT_LABEL = 2"
definition ADDR_TYPE_USSI :: u8 where "ADDR_TYPE_USSI = 3"
definition ADDR_TYPE_SMI :: u8 where "ADDR_TYPE_SMI = 4"
definition ADDR_TYPE_SSI_EVENT :: u8 where "ADDR_TYPE_SSI_EVENT = 5"
definition ADDR_TYPE_SSI_USAGE :: u8 where "ADDR_TYPE_SSI_USAGE = 6"
definition ADDR_TYPE_SMI_EVENT :: u8 where "ADDR_TYPE_SMI_EVENT = 7"

lemmas addr_types = ADDR_TYPE_NULL_def ADDR_TYPE_SSI_def ADDR_TYPE_EVENT_LABEL_def ADDR_TYPE_USSI_def
  ADDR_TYPE_SMI_def ADDR_TYPE_SSI_EVENT_def ADDR_TYPE_SSI_USAGE_def ADDR_TYPE_SMI_EVENT_def

record tetra_mle_si_decoded =
  la :: u16
  subscr_class :: u16
  bs_service_details :: u16

text \<open>The two unions are one field each: the CCK identifier or hyperframe number, and the option's value.\<close>

record tetra_si_decoded =
  main_carrier :: u16
  freq_band :: u8
  freq_offset :: u8
  duplex_spacing :: u8
  reverse_operation :: u8
  num_of_csch :: u8
  ms_txpwr_max_cell :: u8
  rxlev_access_min :: u8
  access_parameter :: u8
  radio_dl_timeout :: u8
  cck_valid_no_hf :: int
  cck_id_or_hyperframe :: u16
  option_field :: u8
  option_value :: u32
  mle_si :: tetra_mle_si_decoded

record tetra_ext_carr =
  ec_freq_band :: u8
  ec_freq_offset :: u8
  ec_duplex_spc :: u8
  ec_reverse_oper :: u8

record tetra_aug =
  ul_dl_ass :: u8
  bandwidth :: u8
  modulation :: u8
  max_ul_qam :: u8
  conf_chan_stat :: u8
  bs_imbalance :: u8
  bs_tx_rel :: u8
  napping_sts :: u8

record tetra_chan_alloc_decoded =
  ca_type :: u8
  timeslot :: u8
  ul_dl :: u8
  clch_perm :: u8
  cell_chg_f :: u8
  carrier_nr :: u16
  ext_carr_pres :: u8
  ext_carr :: tetra_ext_carr
  monit_pattern :: u8
  monit_patt_f18 :: u8
  aug :: tetra_aug

record tetra_slot_granting =
  sg_nr_slots :: u8
  sg_delay :: u8
  sg_pres :: u8

record tetra_resrc_decoded =
  fill_bits :: u8
  grant_position :: u8
  encryption_mode :: u8
  is_encrypted :: u8
  rand_acc_flag :: u8
  macpdu_length :: int
  rs_addr :: tetra_addr
  power_control_pres :: u8
  slot_granting :: tetra_slot_granting
  chan_alloc_pres :: u8
  cad :: tetra_chan_alloc_decoded

record tetra_access_field =
  access_code :: u8
  base_frame_len :: u8

record tetra_acc_ass_decoded =
  aa_hdr :: u8
  aa_pres :: u32
  aa_ul_usage :: u8
  aa_dl_usage :: u8
  aa_access1 :: tetra_access_field
  aa_access2 :: tetra_access_field

text \<open>Structures after \<open>memset\<close> with zero.\<close>

definition zero_mle_si :: tetra_mle_si_decoded where
  "zero_mle_si = \<lparr>la = 0, subscr_class = 0, bs_service_details = 0\<rparr>"

definition zero_si :: tetra_si_decoded where
  "zero_si = \<lparr>main_carrier = 0, freq_band = 0, freq_offset = 0, duplex_spacing = 0, reverse_operation = 0,
     num_of_csch = 0, ms_txpwr_max_cell = 0, rxlev_access_min = 0, access_parameter = 0, radio_dl_timeout = 0,
     cck_valid_no_hf = 0, cck_id_or_hyperframe = 0, option_field = 0, option_value = 0, mle_si = zero_mle_si\<rparr>"

definition zero_cad :: tetra_chan_alloc_decoded where
  "zero_cad = \<lparr>ca_type = 0, timeslot = 0, ul_dl = 0, clch_perm = 0, cell_chg_f = 0, carrier_nr = 0,
     ext_carr_pres = 0,
     ext_carr = \<lparr>ec_freq_band = 0, ec_freq_offset = 0, ec_duplex_spc = 0, ec_reverse_oper = 0\<rparr>,
     monit_pattern = 0, monit_patt_f18 = 0,
     aug = \<lparr>ul_dl_ass = 0, bandwidth = 0, modulation = 0, max_ul_qam = 0, conf_chan_stat = 0,
       bs_imbalance = 0, bs_tx_rel = 0, napping_sts = 0\<rparr>\<rparr>"

definition zero_addr :: tetra_addr where
  "zero_addr = \<lparr>a_type = 0, a_mcc = 0, a_mnc = 0, ssi = 0, event_label = 0, usage_marker = 0\<rparr>"

definition zero_rsd :: tetra_resrc_decoded where
  "zero_rsd = \<lparr>fill_bits = 0, grant_position = 0, encryption_mode = 0, is_encrypted = 0, rand_acc_flag = 0,
     macpdu_length = 0, rs_addr = zero_addr, power_control_pres = 0,
     slot_granting = \<lparr>sg_nr_slots = 0, sg_delay = 0, sg_pres = 0\<rparr>, chan_alloc_pres = 0, cad = zero_cad\<rparr>"

definition zero_aad :: tetra_acc_ass_decoded where
  "zero_aad = \<lparr>aa_hdr = 0, aa_pres = 0, aa_ul_usage = 0, aa_dl_usage = 0,
     aa_access1 = \<lparr>access_code = 0, base_frame_len = 0\<rparr>, aa_access2 = \<lparr>access_code = 0, base_frame_len = 0\<rparr>\<rparr>"

section \<open>Decoders\<close>

text \<open>\<open>bits_to_uint(bits + cur, n)\<close>, cut to the width of what it is stored in.\<close>

definition fld :: "(nat \<Rightarrow> u8) \<Rightarrow> nat \<Rightarrow> nat \<Rightarrow> 'w::len word" where
  "fld bits cur n = ucast (bits_to_uint (at bits cur) n)"

definition decode_d_mle_sysinfo :: "(nat \<Rightarrow> u8) \<Rightarrow> tetra_mle_si_decoded" where
  "decode_d_mle_sysinfo bits =
    \<lparr>la = fld bits 0 14, subscr_class = fld bits 14 16, bs_service_details = fld bits 30 12\<rparr>"

text \<open>
  After the CCK identifier or hyperframe number at bit 44 the position is not moved on, so the option
  field is read at bit 44 too, and its value at bit 46.
\<close>

definition macpdu_decode_sysinfo :: "tetra_si_decoded \<Rightarrow> (nat \<Rightarrow> u8) \<Rightarrow> tetra_si_decoded" where
  "macpdu_decode_sysinfo sid si_bits =
    (let cur = 2 + 2;
         sid = sid\<lparr>main_carrier := fld si_bits cur 12\<rparr>; cur = cur + 12;
         sid = sid\<lparr>freq_band := fld si_bits cur 4\<rparr>; cur = cur + 4;
         sid = sid\<lparr>freq_offset := fld si_bits cur 2\<rparr>; cur = cur + 2;
         sid = sid\<lparr>duplex_spacing := fld si_bits cur 3\<rparr>; cur = cur + 3;
         sid = sid\<lparr>reverse_operation := si_bits cur\<rparr>; cur = cur + 1;
         sid = sid\<lparr>num_of_csch := fld si_bits cur 2\<rparr>; cur = cur + 2;
         sid = sid\<lparr>ms_txpwr_max_cell := fld si_bits cur 3\<rparr>; cur = cur + 3;
         sid = sid\<lparr>rxlev_access_min := fld si_bits cur 4\<rparr>; cur = cur + 4;
         sid = sid\<lparr>access_parameter := fld si_bits cur 4\<rparr>; cur = cur + 4;
         sid = sid\<lparr>radio_dl_timeout := fld si_bits cur 4\<rparr>; cur = cur + 4;
         sid = sid\<lparr>cck_valid_no_hf := uint (si_bits cur)\<rparr>; cur = cur + 1;
         sid = sid\<lparr>cck_id_or_hyperframe := fld si_bits cur 16\<rparr>;
         sid = sid\<lparr>option_field := fld si_bits cur 2\<rparr>; cur = cur + 2;
         sid = (if option_field sid \<le> 3 then sid\<lparr>option_value := fld si_bits cur 20\<rparr> else sid)
     in sid\<lparr>mle_si := decode_d_mle_sysinfo (at si_bits (124 - 42))\<rparr>)"

definition addr_len_by_type :: "nat list" where
  "addr_len_by_type = [0, 24, 10, 24, 24, 34, 30, 34]"

definition decode_ext_carr :: "(nat \<Rightarrow> u8) \<Rightarrow> nat \<Rightarrow> tetra_ext_carr" where
  "decode_ext_carr bits cur =
    \<lparr>ec_freq_band = fld bits cur 4, ec_freq_offset = fld bits (cur + 4) 2,
     ec_duplex_spc = fld bits (cur + 6) 3, ec_reverse_oper = fld bits (cur + 9) 1\<rparr>"

text \<open>The augmented allocation: the structure, and the position behind it.\<close>

definition decode_aug :: "(nat \<Rightarrow> u8) \<Rightarrow> nat \<Rightarrow> tetra_aug \<times> nat" where
  "decode_aug bits cur =
    (let a = \<lparr>ul_dl_ass = fld bits cur 2, bandwidth = fld bits (cur + 2) 3, modulation = fld bits (cur + 5) 3,
           max_ul_qam = fld bits (cur + 8) 3, conf_chan_stat = fld bits (cur + 14) 3,
           bs_imbalance = fld bits (cur + 17) 4, bs_tx_rel = fld bits (cur + 21) 5, napping_sts = fld bits (cur + 26) 2\<rparr>;
         cur = cur + 28;
         cur = (if napping_sts a = 1 then cur + 11 else cur);
         cur = cur + 4;
         cur = (if bits cur \<noteq> 0 then cur + 1 + 16 else cur + 1);
         cur = (if bits cur \<noteq> 0 then cur + 1 + 16 else cur + 1)
     in (a, cur + 1))"

definition macpdu_decode_chan_alloc :: "tetra_chan_alloc_decoded \<Rightarrow> (nat \<Rightarrow> u8) \<Rightarrow> tetra_chan_alloc_decoded \<times> nat" where
  "macpdu_decode_chan_alloc cd bits =
    (let cd = cd\<lparr>ca_type := fld bits 0 2, timeslot := fld bits 2 4, ul_dl := fld bits 6 2, clch_perm := bits 8,
           cell_chg_f := bits 9, carrier_nr := fld bits 10 12, ext_carr_pres := bits 22\<rparr>;
         cur = 23;
         (cd, cur) = (if ext_carr_pres cd \<noteq> 0 then (cd\<lparr>ext_carr := decode_ext_carr bits cur\<rparr>, cur + 10) else (cd, cur));
         cd = cd\<lparr>monit_pattern := fld bits cur 2\<rparr>; cur = cur + 2;
         (cd, cur) = (if monit_pattern cd = 0 then (cd\<lparr>monit_patt_f18 := fld bits cur 2\<rparr>, cur + 2) else (cd, cur))
     in if ul_dl cd = 0 then (let (a, cur) = decode_aug bits cur in (cd\<lparr>aug := a\<rparr>, cur)) else (cd, cur))"

text \<open>Table 21.90.\<close>

definition dec_tbl :: "u8 list" where
  "dec_tbl = [0, 1, 2, 3, 4, 5, 6, 8, 10, 13, 17, 24, 34, 51, 68, 0xff]"

definition decode_nr_slots :: "u8 \<Rightarrow> u8" where
  "decode_nr_slots x = dec_tbl ! unat (x AND 0xf)"

definition decode_length :: "u32 \<Rightarrow> int" where
  "decode_length length_ind =
    (let y2 = 1; z2 = 1
     in if length_ind = 0 \<or> length_ind = 0x3b \<or> length_ind = 0x3c then - EINVAL
        else if length_ind \<le> 0x12 then y2 * uint length_ind
        else if length_ind \<le> 0x3a then 18 * y2 + (uint length_ind - 18) * z2
        else if length_ind = 0x3e then MACPDU_LEN_2ND_STOLEN
        else if length_ind = 0x3f then MACPDU_LEN_START_FRAG
        else - EINVAL)"

text \<open>The address behind its type; the default of the switch is \<^theory_text>\<open>None\<close>.\<close>

definition decode_addr :: "tetra_addr \<Rightarrow> (nat \<Rightarrow> u8) \<Rightarrow> nat \<Rightarrow> tetra_addr option" where
  "decode_addr a bits cur =
    (if a_type a = ADDR_TYPE_SSI \<or> a_type a = ADDR_TYPE_USSI \<or> a_type a = ADDR_TYPE_SMI then
       Some (a\<lparr>ssi := fld bits cur 24\<rparr>)
     else if a_type a = ADDR_TYPE_EVENT_LABEL then Some (a\<lparr>event_label := fld bits cur 10\<rparr>)
     else if a_type a = ADDR_TYPE_SSI_EVENT \<or> a_type a = ADDR_TYPE_SMI_EVENT then
       Some (a\<lparr>ssi := fld bits cur 24, event_label := fld bits (cur + 24) 10\<rparr>)
     else if a_type a = ADDR_TYPE_SSI_USAGE then
       Some (a\<lparr>ssi := fld bits cur 24, usage_marker := fld bits (cur + 24) 6\<rparr>)
     else None)"

text \<open>The slot granting element behind its flag, and all elements behind the address.\<close>

definition decode_slot_granting :: "tetra_slot_granting \<Rightarrow> (nat \<Rightarrow> u8) \<Rightarrow> nat \<Rightarrow> tetra_slot_granting \<times> nat" where
  "decode_slot_granting sg bits cur =
    (let sg = sg\<lparr>sg_pres := bits cur\<rparr>; cur = cur + 1
     in if sg_pres sg \<noteq> 0 then
          (sg\<lparr>sg_nr_slots := decode_nr_slots (fld bits cur 4), sg_delay := fld bits (cur + 4) 4\<rparr>, cur + 8)
        else (sg, cur))"

definition decode_resource_tail :: "tetra_resrc_decoded \<Rightarrow> (nat \<Rightarrow> u8) \<Rightarrow> nat \<Rightarrow> tetra_resrc_decoded \<times> int" where
  "decode_resource_tail rsd bits cur =
    (let rsd = rsd\<lparr>power_control_pres := bits cur\<rparr>; cur = cur + 1;
         cur = (if power_control_pres rsd \<noteq> 0 then cur + 4 else cur);
         (sg, cur) = decode_slot_granting (slot_granting rsd) bits cur;
         rsd = rsd\<lparr>slot_granting := sg, chan_alloc_pres := bits cur\<rparr>; cur = cur + 1
     in if chan_alloc_pres rsd \<noteq> 0 \<and> is_encrypted rsd = 0 then
          (let (cd, n) = macpdu_decode_chan_alloc (cad rsd) (at bits cur) in (rsd\<lparr>cad := cd\<rparr>, int (cur + n)))
        else (rsd, int cur))"

text \<open>The header up to the address type, and the whole decoder.\<close>

definition resource_head :: "tetra_resrc_decoded \<Rightarrow> (nat \<Rightarrow> u8) \<Rightarrow> u8 \<Rightarrow> tetra_resrc_decoded" where
  "resource_head rsd bits is_decrypted =
    (let rsd = rsd\<lparr>fill_bits := fld bits 2 1, grant_position := fld bits 3 1, encryption_mode := fld bits 4 2\<rparr>
     in rsd\<lparr>is_encrypted := if 0 < encryption_mode rsd \<and> is_decrypted = 0 then 1 else 0,
            rand_acc_flag := bits 6, macpdu_length := decode_length (fld bits 7 6),
            rs_addr := (rs_addr rsd)\<lparr>a_type := fld bits 13 3\<rparr>\<rparr>)"

definition macpdu_decode_resource ::
  "tetra_resrc_decoded \<Rightarrow> (nat \<Rightarrow> u8) \<Rightarrow> u8 \<Rightarrow> tetra_resrc_decoded \<times> int" where
  "macpdu_decode_resource rsd bits is_decrypted =
    (let rsd = resource_head rsd bits is_decrypted
     in if a_type (rs_addr rsd) = ADDR_TYPE_NULL then (rsd, 0)
        else case decode_addr (rs_addr rsd) bits 16 of
               None \<Rightarrow> (rsd, - EINVAL)
             | Some a \<Rightarrow>
                 decode_resource_tail (rsd\<lparr>rs_addr := a\<rparr>) bits (16 + addr_len_by_type ! unat (a_type a)))"

definition decode_access_field :: "u8 \<Rightarrow> tetra_access_field" where
  "decode_access_field f =
    (let f = f AND 0x3f in \<lparr>access_code = drop_bit 4 f, base_frame_len = f AND 0xf\<rparr>)"

definition TETRA_ACC_ASS_PRES_ACCESS1 :: u32 where "TETRA_ACC_ASS_PRES_ACCESS1 = 1"
definition TETRA_ACC_ASS_PRES_ACCESS2 :: u32 where "TETRA_ACC_ASS_PRES_ACCESS2 = 2"
definition TETRA_ACC_ASS_PRES_DL_USAGE :: u32 where "TETRA_ACC_ASS_PRES_DL_USAGE = 4"
definition TETRA_ACC_ASS_PRES_UL_USAGE :: u32 where "TETRA_ACC_ASS_PRES_UL_USAGE = 8"

lemmas pres_flags = TETRA_ACC_ASS_PRES_ACCESS1_def TETRA_ACC_ASS_PRES_ACCESS2_def
  TETRA_ACC_ASS_PRES_DL_USAGE_def TETRA_ACC_ASS_PRES_UL_USAGE_def

definition with_access1 :: "u8 \<Rightarrow> tetra_acc_ass_decoded \<Rightarrow> tetra_acc_ass_decoded" where
  "with_access1 f aad = aad\<lparr>aa_access1 := decode_access_field f, aa_pres := aa_pres aad OR TETRA_ACC_ASS_PRES_ACCESS1\<rparr>"

definition with_access2 :: "u8 \<Rightarrow> tetra_acc_ass_decoded \<Rightarrow> tetra_acc_ass_decoded" where
  "with_access2 f aad = aad\<lparr>aa_access2 := decode_access_field f, aa_pres := aa_pres aad OR TETRA_ACC_ASS_PRES_ACCESS2\<rparr>"

definition with_dl_usage :: "u8 \<Rightarrow> tetra_acc_ass_decoded \<Rightarrow> tetra_acc_ass_decoded" where
  "with_dl_usage f aad = aad\<lparr>aa_dl_usage := f, aa_pres := aa_pres aad OR TETRA_ACC_ASS_PRES_DL_USAGE\<rparr>"

definition with_ul_usage :: "u8 \<Rightarrow> tetra_acc_ass_decoded \<Rightarrow> tetra_acc_ass_decoded" where
  "with_ul_usage f aad = aad\<lparr>aa_ul_usage := f, aa_pres := aa_pres aad OR TETRA_ACC_ASS_PRES_UL_USAGE\<rparr>"

text \<open>The header's four values, in frame 18 with another meaning.\<close>

definition macpdu_decode_access_assign ::
  "tetra_acc_ass_decoded \<Rightarrow> (nat \<Rightarrow> u8) \<Rightarrow> bool \<Rightarrow> tetra_acc_ass_decoded" where
  "macpdu_decode_access_assign aad bits f18 =
    (let aad = aad\<lparr>aa_hdr := fld bits 0 2\<rparr>;
         field1 = fld bits 2 6;
         field2 = fld bits 8 6
     in if \<not> f18 then
          (if aa_hdr aad = 0 then with_access2 field2 (with_access1 field1 aad)
           else if aa_hdr aad = 1 then with_access2 field2 (with_dl_usage field1 aad)
           else if aa_hdr aad = 2 then with_access2 field2 (with_dl_usage field1 aad)
           else if aa_hdr aad = 3 then with_ul_usage field2 (with_dl_usage field1 aad)
           else aad)
        else
          (if aa_hdr aad = 0 \<or> aa_hdr aad = 1 \<or> aa_hdr aad = 2 then with_access2 field2 (with_access1 field1 aad)
           else if aa_hdr aad = 3 then with_access2 field2 aad
           else aad))"


section \<open>Reading what was written\<close>

definition field_bits :: "nat \<Rightarrow> 'w::len word \<Rightarrow> u8 list" where
  "field_bits n w = map (uint_to_bits n (ucast w)) [0..<n]"

lemma length_field_bits [simp]: "length (field_bits n w) = n"
  by (simp add: field_bits_def)

lemma fld_here:
  fixes w :: "'w::len word"
  assumes "unat w < 2 ^ n" "n \<le> 32" "LENGTH('w) \<le> 32"
  shows "fld ((!) (field_bits n w @ ys)) 0 n = w"
proof -
  have u: "unat (ucast w :: u32) = unat w"
  proof -
    have "unat w < 2 ^ LENGTH('w)" by (rule unsigned_less)
    also have "(2 :: nat) ^ LENGTH('w) \<le> 2 ^ 32" using assms(3) by (intro power_increasing) simp_all
    finally show ?thesis by (simp add: unsigned_ucast_eq take_bit_nat_eq_self)
  qed
  have "bits_to_uint (at ((!) (field_bits n w @ ys)) 0) n = bits_to_uint (uint_to_bits n (ucast w)) n"
    by (rule bits_to_uint_cong) (simp add: at_def nth_append field_bits_def)
  also have "\<dots> = ucast w" using assms(1,2) u by (intro bits_to_uint_inverse) simp_all
  finally have "fld ((!) (field_bits n w @ ys)) 0 n = (ucast (ucast w :: u32) :: 'w word)" by (simp add: fld_def)
  also have "\<dots> = w" by (rule bit_word_eqI) (use assms(3) in \<open>auto simp: bit_ucast_iff\<close>)
  finally show ?thesis .
qed

lemma at_append: "at ((!) (xs @ ys)) (length xs + k) = at ((!) ys) k"
  by (rule ext) (simp add: at_def nth_append)

lemma at_0 [simp]: "at f 0 = f"
  by (rule ext) (simp add: at_def)

lemma fld_skip: "length xs \<le> m \<Longrightarrow> fld ((!) (xs @ ys)) m n = fld ((!) ys) (m - length xs) n"
  using at_append [of xs ys "m - length xs"] by (simp add: fld_def)

lemma nth_skip: "length xs \<le> m \<Longrightarrow> (xs @ ys) ! m = ys ! (m - length xs)"
  by (simp add: nth_append)

lemma fld_skip1: "0 < m \<Longrightarrow> fld ((!) (x # ys)) m n = fld ((!) ys) (m - 1) n"
  using fld_skip [of "[x]" m ys n] by simp

lemma nth_skip1: "0 < m \<Longrightarrow> (x # ys) ! m = ys ! (m - 1)"
  by (cases m) auto

lemmas reading = fld_here fld_skip fld_skip1 nth_skip nth_skip1

definition enc_ext_carr :: "tetra_ext_carr \<Rightarrow> u8 list" where
  "enc_ext_carr e = field_bits 4 (ec_freq_band e) @ field_bits 2 (ec_freq_offset e) @ field_bits 3 (ec_duplex_spc e)
    @ field_bits 1 (ec_reverse_oper e)"

definition ext_carr_ok :: "tetra_ext_carr \<Rightarrow> bool" where
  "ext_carr_ok e \<longleftrightarrow> unat (ec_freq_band e) < 2 ^ 4 \<and> unat (ec_freq_offset e) < 2 ^ 2 \<and>
    unat (ec_duplex_spc e) < 2 ^ 3 \<and> unat (ec_reverse_oper e) < 2 ^ 1"

lemma length_enc_ext_carr [simp]: "length (enc_ext_carr e) = 10"
  by (simp add: enc_ext_carr_def)

lemma decode_ext_carr_0: "ext_carr_ok e \<Longrightarrow> decode_ext_carr ((!) (enc_ext_carr e @ ys)) 0 = e"
  by (simp add: decode_ext_carr_def enc_ext_carr_def ext_carr_ok_def reading)


lemma at_at [simp]: "at (at f m) n = at f (m + n)"
  by (rule ext) (simp add: at_def add.assoc)

lemma at_apply: "at f m n = f (m + n)"
  by (simp add: at_def)

lemma fld_at: "fld (at f m) k n = fld f (m + k) n"
  by (simp add: fld_def)

lemma decode_ext_carr_at: "decode_ext_carr bits cur = decode_ext_carr (at bits cur) 0"
  by (simp add: decode_ext_carr_def fld_at)

text \<open>The augmented allocation, with or without the napping information and the two optional elements.\<close>

definition opt_bits :: "u8 list option \<Rightarrow> u8 list" where
  "opt_bits x = (case x of None \<Rightarrow> [0] | Some bs \<Rightarrow> 1 # bs)"

definition enc_aug :: "tetra_aug \<Rightarrow> u8 list \<Rightarrow> u8 list option \<Rightarrow> u8 list option \<Rightarrow> u8 list" where
  "enc_aug a nap x1 x2 = field_bits 2 (ul_dl_ass a) @ field_bits 3 (bandwidth a) @ field_bits 3 (modulation a)
    @ field_bits 3 (max_ul_qam a) @ [0, 0, 0] @ field_bits 3 (conf_chan_stat a) @ field_bits 4 (bs_imbalance a)
    @ field_bits 5 (bs_tx_rel a) @ field_bits 2 (napping_sts a) @ (if napping_sts a = 1 then nap else [])
    @ [0, 0, 0, 0] @ opt_bits x1 @ opt_bits x2 @ [0]"

definition aug_ok :: "tetra_aug \<Rightarrow> u8 list \<Rightarrow> u8 list option \<Rightarrow> u8 list option \<Rightarrow> bool" where
  "aug_ok a nap x1 x2 \<longleftrightarrow> unat (ul_dl_ass a) < 2 ^ 2 \<and> unat (bandwidth a) < 2 ^ 3 \<and> unat (modulation a) < 2 ^ 3 \<and>
    unat (max_ul_qam a) < 2 ^ 3 \<and> unat (conf_chan_stat a) < 2 ^ 3 \<and> unat (bs_imbalance a) < 2 ^ 4 \<and>
    unat (bs_tx_rel a) < 2 ^ 5 \<and> unat (napping_sts a) < 2 ^ 2 \<and> length nap = 11 \<and>
    (\<forall>x \<in> set_option x1 \<union> set_option x2. length x = 16)"

lemma decode_aug_at: "decode_aug bits cur = (let (a, n) = decode_aug (at bits cur) 0 in (a, cur + n))"
  by (simp add: decode_aug_def fld_at Let_def at_apply add.assoc add.left_commute)

lemma decode_aug_enc:
  assumes "aug_ok a nap x1 x2"
  shows "decode_aug ((!) (enc_aug a nap x1 x2 @ ys)) 0 = (a, length (enc_aug a nap x1 x2))"
  using assms
  by (cases x1; cases x2) (auto simp: decode_aug_def enc_aug_def aug_ok_def opt_bits_def reading Let_def)


text \<open>
  A channel allocation, with the parts that are present; the absent ones are as in cleared memory.
  \<open>opts\<close> carries the optional elements of the augmented part.
\<close>

definition enc_monit :: "tetra_chan_alloc_decoded \<Rightarrow> u8 list" where
  "enc_monit c = field_bits 2 (monit_pattern c) @ (if monit_pattern c = 0 then field_bits 2 (monit_patt_f18 c) else [])"

definition enc_chan_alloc :: "tetra_chan_alloc_decoded \<Rightarrow> u8 list \<times> u8 list option \<times> u8 list option \<Rightarrow> u8 list" where
  "enc_chan_alloc c opts = field_bits 2 (ca_type c) @ field_bits 4 (timeslot c) @ field_bits 2 (ul_dl c)
    @ [clch_perm c, cell_chg_f c] @ field_bits 12 (carrier_nr c) @ [ext_carr_pres c]
    @ (if ext_carr_pres c \<noteq> 0 then enc_ext_carr (ext_carr c) else []) @ enc_monit c
    @ (if ul_dl c = 0 then enc_aug (aug c) (fst opts) (fst (snd opts)) (snd (snd opts)) else [])"

definition chan_alloc_ok :: "tetra_chan_alloc_decoded \<Rightarrow> u8 list \<times> u8 list option \<times> u8 list option \<Rightarrow> bool" where
  "chan_alloc_ok c opts \<longleftrightarrow> unat (ca_type c) < 2 ^ 2 \<and> unat (timeslot c) < 2 ^ 4 \<and> unat (ul_dl c) < 2 ^ 2 \<and>
    unat (carrier_nr c) < 2 ^ 12 \<and> unat (monit_pattern c) < 2 ^ 2 \<and> unat (monit_patt_f18 c) < 2 ^ 2 \<and>
    (if ext_carr_pres c = 0 then ext_carr c = ext_carr zero_cad else ext_carr_ok (ext_carr c)) \<and>
    (monit_pattern c \<noteq> 0 \<longrightarrow> monit_patt_f18 c = 0) \<and>
    (if ul_dl c = 0 then aug_ok (aug c) (fst opts) (fst (snd opts)) (snd (snd opts)) else aug c = aug zero_cad)"

text \<open>The decoder, element by element.\<close>

definition chan_alloc_head :: "(nat \<Rightarrow> u8) \<Rightarrow> tetra_chan_alloc_decoded \<Rightarrow> tetra_chan_alloc_decoded" where
  "chan_alloc_head bits cd = cd\<lparr>ca_type := fld bits 0 2, timeslot := fld bits 2 4, ul_dl := fld bits 6 2,
     clch_perm := bits 8, cell_chg_f := bits 9, carrier_nr := fld bits 10 12, ext_carr_pres := bits 22\<rparr>"

definition chan_alloc_monit :: "(nat \<Rightarrow> u8) \<Rightarrow> tetra_chan_alloc_decoded \<Rightarrow> tetra_chan_alloc_decoded \<times> nat" where
  "chan_alloc_monit bits cd =
    (let cd = cd\<lparr>monit_pattern := fld bits 0 2\<rparr>
     in if monit_pattern cd = 0 then (cd\<lparr>monit_patt_f18 := fld bits 2 2\<rparr>, 4) else (cd, 2))"

lemma decode_chan_alloc_steps:
  "macpdu_decode_chan_alloc cd bits =
    (let cd = chan_alloc_head bits cd;
         (cd, n) = (if ext_carr_pres cd \<noteq> 0 then (cd\<lparr>ext_carr := decode_ext_carr (at bits 23) 0\<rparr>, 10) else (cd, 0));
         (cd, m) = chan_alloc_monit (at bits (23 + n)) cd
     in if ul_dl cd = 0 then (let (a, k) = decode_aug (at bits (23 + n + m)) 0 in (cd\<lparr>aug := a\<rparr>, 23 + n + m + k))
        else (cd, 23 + n + m))"
  unfolding macpdu_decode_chan_alloc_def decode_aug_at [of bits "_ + _"]
  by (simp add: Let_def chan_alloc_head_def chan_alloc_monit_def fld_at decode_ext_carr_at [of bits 23]
      decode_aug_at [of bits 25] decode_aug_at [of bits 35] decode_aug_at [of bits 27] decode_aug_at [of bits 37]
      split: prod.split)


lemma at_append_0 [simp]: "at ((!) (xs @ ys)) (length xs) = (!) ys"
  using at_append [of xs ys 0] by simp

lemma chan_alloc_monit_enc:
  assumes "unat (monit_pattern c) < 2 ^ 2" "unat (monit_patt_f18 c) < 2 ^ 2" "monit_pattern c \<noteq> 0 \<longrightarrow> monit_patt_f18 c = 0"
    and "monit_patt_f18 cd = 0"
  shows "chan_alloc_monit ((!) (enc_monit c @ ys)) cd =
    (cd\<lparr>monit_pattern := monit_pattern c, monit_patt_f18 := monit_patt_f18 c\<rparr>, length (enc_monit c))"
  using assms by (simp add: chan_alloc_monit_def enc_monit_def reading Let_def)

lemma chan_alloc_roundtrip:
  assumes ok: "chan_alloc_ok c opts"
  shows "macpdu_decode_chan_alloc zero_cad ((!) (enc_chan_alloc c opts @ ys)) = (c, length (enc_chan_alloc c opts))"
proof -
  define hd where "hd = field_bits 2 (ca_type c) @ field_bits 4 (timeslot c) @ field_bits 2 (ul_dl c)
    @ [clch_perm c, cell_chg_f c] @ field_bits 12 (carrier_nr c) @ [ext_carr_pres c]"
  define ex where "ex = (if ext_carr_pres c \<noteq> 0 then enc_ext_carr (ext_carr c) else [])"
  define au where "au = (if ul_dl c = 0 then enc_aug (aug c) (fst opts) (fst (snd opts)) (snd (snd opts)) else [])"
  define bits where "bits = (!) (hd @ ex @ enc_monit c @ au @ ys)"
  have e: "enc_chan_alloc c opts = hd @ ex @ enc_monit c @ au"
    by (simp add: enc_chan_alloc_def hd_def ex_def au_def)
  have lh: "length hd = 23" by (simp add: hd_def)
  have a1: "at bits 23 = (!) (ex @ enc_monit c @ au @ ys)"
    using at_append_0 [of hd "ex @ enc_monit c @ au @ ys"] by (simp add: bits_def lh)
  have a2: "at bits (23 + length ex) = (!) (enc_monit c @ au @ ys)"
    using at_append_0 [of "hd @ ex" "enc_monit c @ au @ ys"] by (simp add: bits_def lh)
  have a3: "at bits (23 + length ex + length (enc_monit c)) = (!) (au @ ys)"
    using at_append_0 [of "hd @ ex @ enc_monit c" "au @ ys"] by (simp add: bits_def lh add.assoc)
  have h: "chan_alloc_head bits zero_cad = zero_cad\<lparr>ca_type := ca_type c, timeslot := timeslot c, ul_dl := ul_dl c,
     clch_perm := clch_perm c, cell_chg_f := cell_chg_f c, carrier_nr := carrier_nr c, ext_carr_pres := ext_carr_pres c\<rparr>"
    using ok by (simp add: chan_alloc_head_def bits_def hd_def chan_alloc_ok_def reading)
  have m: "unat (monit_pattern c) < 2 ^ 2" "unat (monit_patt_f18 c) < 2 ^ 2" "monit_pattern c \<noteq> 0 \<longrightarrow> monit_patt_f18 c = 0"
    using ok by (simp_all add: chan_alloc_ok_def)
  define cd1 where "cd1 = (chan_alloc_head bits zero_cad)\<lparr>ext_carr := ext_carr c\<rparr>"
  define cd2 where "cd2 = cd1\<lparr>monit_pattern := monit_pattern c, monit_patt_f18 := monit_patt_f18 c\<rparr>"
  have pres: "ext_carr_pres (chan_alloc_head bits zero_cad) = ext_carr_pres c" "ul_dl cd2 = ul_dl c"
    by (simp_all add: h cd1_def cd2_def)
  have s1: "(if ext_carr_pres c \<noteq> 0
      then ((chan_alloc_head bits zero_cad)\<lparr>ext_carr := decode_ext_carr (at bits 23) 0\<rparr>, 10)
      else (chan_alloc_head bits zero_cad, 0)) = (cd1, length ex)"
    using ok unfolding cd1_def h a1 by (auto simp: ex_def decode_ext_carr_0 chan_alloc_ok_def zero_cad_def)
  have s2: "chan_alloc_monit (at bits (23 + length ex)) cd1 = (cd2, length (enc_monit c))"
    unfolding a2 cd2_def using m by (intro chan_alloc_monit_enc) (simp_all only: cd1_def h, simp_all add: zero_cad_def)
  have s3: "(if ul_dl c = 0 then (let (a, k) = decode_aug ((!) (au @ ys)) 0
        in (cd2\<lparr>aug := a\<rparr>, 23 + length ex + length (enc_monit c) + k))
      else (cd2, 23 + length ex + length (enc_monit c))) = (c, 23 + length ex + length (enc_monit c) + length au)"
    using ok unfolding cd2_def cd1_def h by (auto simp: au_def decode_aug_enc chan_alloc_ok_def zero_cad_def)
  have "macpdu_decode_chan_alloc zero_cad bits = (c, 23 + length ex + length (enc_monit c) + length au)"
    unfolding decode_chan_alloc_steps Let_def [of "chan_alloc_head bits zero_cad"] pres(1) s1
      Let_def [of "(_, _)"] prod.case s2 pres(2) a3
    by (rule s3)
  then show ?thesis by (simp add: e bits_def lh)
qed


text \<open>The address behind its type.\<close>

definition enc_addr :: "tetra_addr \<Rightarrow> u8 list" where
  "enc_addr a =
    (if a_type a \<in> {ADDR_TYPE_SSI, ADDR_TYPE_USSI, ADDR_TYPE_SMI} then field_bits 24 (ssi a)
     else if a_type a = ADDR_TYPE_EVENT_LABEL then field_bits 10 (event_label a)
     else if a_type a = ADDR_TYPE_SSI_USAGE then field_bits 24 (ssi a) @ field_bits 6 (usage_marker a)
     else field_bits 24 (ssi a) @ field_bits 10 (event_label a))"

definition addr_ok :: "tetra_addr \<Rightarrow> bool" where
  "addr_ok a \<longleftrightarrow> 0 < a_type a \<and> a_type a < 8 \<and> a_mcc a = 0 \<and> a_mnc a = 0 \<and>
    (a_type a = ADDR_TYPE_EVENT_LABEL \<longrightarrow> ssi a = 0) \<and> unat (ssi a) < 2 ^ 24 \<and>
    (a_type a \<notin> {ADDR_TYPE_EVENT_LABEL, ADDR_TYPE_SSI_EVENT, ADDR_TYPE_SMI_EVENT} \<longrightarrow> event_label a = 0) \<and>
    unat (event_label a) < 2 ^ 10 \<and> (a_type a \<noteq> ADDR_TYPE_SSI_USAGE \<longrightarrow> usage_marker a = 0) \<and>
    unat (usage_marker a) < 2 ^ 6"

lemma addr_type_cases:
  "unat x < 8 \<Longrightarrow> x = 0 \<or> x = 1 \<or> x = 2 \<or> x = 3 \<or> x = 4 \<or> x = 5 \<or> x = 6 \<or> x = 7" for x :: u8
proof -
  assume "unat x < 8"
  then have "unat x = unat (0 :: u8) \<or> unat x = unat (1 :: u8) \<or> unat x = unat (2 :: u8) \<or> unat x = unat (3 :: u8)
      \<or> unat x = unat (4 :: u8) \<or> unat x = unat (5 :: u8) \<or> unat x = unat (6 :: u8) \<or> unat x = unat (7 :: u8)"
    by simp linarith
  then show ?thesis by (simp only: word_unat_eq_iff)
qed

lemma decode_addr_at: "decode_addr a bits cur = decode_addr a (at bits cur) 0"
  by (simp add: decode_addr_def fld_at)

lemma length_enc_addr: "addr_ok a \<Longrightarrow> length (enc_addr a) = addr_len_by_type ! unat (a_type a)"
proof -
  assume ok: "addr_ok a"
  then have "unat (a_type a) < 8" "a_type a \<noteq> 0" by (auto simp: addr_ok_def word_less_nat_alt)
  then show ?thesis
    using addr_type_cases [of "a_type a"] by (auto simp: enc_addr_def addr_types addr_len_by_type_def)
qed

lemma decode_addr_enc:
  assumes ok: "addr_ok a"
  shows "decode_addr (zero_addr\<lparr>a_type := a_type a\<rparr>) ((!) (enc_addr a @ ys)) 0 = Some a"
proof -
  have "unat (a_type a) < 8" "a_type a \<noteq> 0" using ok by (auto simp: addr_ok_def word_less_nat_alt)
  then show ?thesis
    using ok addr_type_cases [of "a_type a"]
    by (auto simp: decode_addr_def enc_addr_def addr_types addr_ok_def zero_addr_def reading)
qed


lemma at_skip: "length xs \<le> m \<Longrightarrow> at ((!) (xs @ ys)) m = at ((!) ys) (m - length xs)"
  using at_append [of xs ys "m - length xs"] by simp

lemma at_skip1: "0 < m \<Longrightarrow> at ((!) (x # ys)) m = at ((!) ys) (m - 1)"
  using at_skip [of "[x]" m ys] by simp

text \<open>
  A MAC-RESOURCE header: \<open>li\<close> is the code of the length, \<open>gc\<close> that of the number of granted slots and
  \<open>pcb\<close> the power control element.
\<close>

definition enc_slot_granting :: "tetra_slot_granting \<Rightarrow> u8 \<Rightarrow> u8 list" where
  "enc_slot_granting sg gc = [sg_pres sg] @ (if sg_pres sg \<noteq> 0 then field_bits 4 gc @ field_bits 4 (sg_delay sg) else [])"

definition slot_granting_ok :: "tetra_slot_granting \<Rightarrow> u8 \<Rightarrow> bool" where
  "slot_granting_ok sg gc \<longleftrightarrow> unat gc < 2 ^ 4 \<and>
    (if sg_pres sg = 0 then sg = slot_granting zero_rsd else sg_nr_slots sg = decode_nr_slots gc \<and> unat (sg_delay sg) < 2 ^ 4)"

lemma decode_slot_granting_at:
  "decode_slot_granting sg bits cur = (let (g, n) = decode_slot_granting sg (at bits cur) 0 in (g, cur + n))"
  by (simp add: decode_slot_granting_def fld_at Let_def at_apply ac_simps)

lemma decode_slot_granting_enc:
  "slot_granting_ok sg gc \<Longrightarrow> decode_slot_granting (slot_granting zero_rsd) ((!) (enc_slot_granting sg gc @ ys)) 0 =
    (sg, length (enc_slot_granting sg gc))"
  by (auto simp: decode_slot_granting_def enc_slot_granting_def slot_granting_ok_def reading Let_def zero_rsd_def)

definition enc_resource_tail ::
  "tetra_resrc_decoded \<Rightarrow> u8 list \<Rightarrow> u8 \<Rightarrow> u8 list \<times> u8 list option \<times> u8 list option \<Rightarrow> u8 list" where
  "enc_resource_tail r pcb gc opts =
    power_control_pres r # (if power_control_pres r \<noteq> 0 then pcb else [])
    @ enc_slot_granting (slot_granting r) gc
    @ chan_alloc_pres r # (if chan_alloc_pres r \<noteq> 0 \<and> is_encrypted r = 0 then enc_chan_alloc (cad r) opts else [])"

definition resource_tail_ok ::
  "tetra_resrc_decoded \<Rightarrow> u8 list \<Rightarrow> u8 \<Rightarrow> u8 list \<times> u8 list option \<times> u8 list option \<Rightarrow> bool" where
  "resource_tail_ok r pcb gc opts \<longleftrightarrow> length pcb = 4 \<and> slot_granting_ok (slot_granting r) gc \<and>
    (if chan_alloc_pres r \<noteq> 0 \<and> is_encrypted r = 0 then chan_alloc_ok (cad r) opts else cad r = zero_cad)"

text \<open>The encoding lies at position \<open>cur\<close> of the bits.\<close>

lemma at_next: "at bits cur = (!) (xs @ ys) \<Longrightarrow> at bits (cur + length xs) = (!) ys"
  by (metis at_append_0 at_at)

lemma at_head: "at bits cur = (!) (x # ys) \<Longrightarrow> bits cur = x \<and> at bits (cur + 1) = (!) ys"
  using at_next [of bits cur "[x]" ys] at_apply [of bits cur 0] by simp

lemma decode_resource_tail_enc:
  assumes ok: "resource_tail_ok r pcb gc opts"
    and z: "slot_granting rsd = slot_granting zero_rsd" "cad rsd = zero_cad" "is_encrypted rsd = is_encrypted r"
    and b: "at bits cur = (!) (enc_resource_tail r pcb gc opts @ ys)"
  shows "decode_resource_tail rsd bits cur =
    (rsd\<lparr>power_control_pres := power_control_pres r, slot_granting := slot_granting r,
       chan_alloc_pres := chan_alloc_pres r, cad := cad r\<rparr>, int (cur + length (enc_resource_tail r pcb gc opts)))"
proof -
  define p where "p = (if power_control_pres r \<noteq> 0 then pcb else [])"
  define g where "g = enc_slot_granting (slot_granting r) gc"
  define c where "c = (if chan_alloc_pres r \<noteq> 0 \<and> is_encrypted r = 0 then enc_chan_alloc (cad r) opts else [])"
  have e: "enc_resource_tail r pcb gc opts = power_control_pres r # p @ g @ chan_alloc_pres r # c"
    by (simp add: enc_resource_tail_def p_def g_def c_def)
  have b0: "bits cur = power_control_pres r" "at bits (cur + 1) = (!) (p @ g @ chan_alloc_pres r # c @ ys)"
    using at_head [of bits cur "power_control_pres r" "p @ g @ chan_alloc_pres r # c @ ys"] b by (simp_all add: e)
  define cur1 where "cur1 = cur + 1 + length p"
  have p: "(if power_control_pres r \<noteq> 0 then cur + 1 + 4 else cur + 1) = cur1"
    using ok by (simp add: cur1_def p_def resource_tail_ok_def)
  have b1: "at bits cur1 = (!) (g @ chan_alloc_pres r # c @ ys)"
    using at_next [OF b0(2)] by (simp add: cur1_def)
  have sg: "decode_slot_granting (slot_granting zero_rsd) bits cur1 = (slot_granting r, cur1 + length g)"
    using ok unfolding decode_slot_granting_at [of _ bits cur1] b1
    by (simp add: decode_slot_granting_enc g_def resource_tail_ok_def)
  have b2: "bits (cur1 + length g) = chan_alloc_pres r" "at bits (cur1 + length g + 1) = (!) (c @ ys)"
    using at_head [OF at_next [OF b1]] by simp_all
  have cd: "macpdu_decode_chan_alloc zero_cad ((!) (c @ ys)) = (cad r, length c)" if "chan_alloc_pres r \<noteq> 0" "is_encrypted r = 0"
    using ok that by (simp add: resource_tail_ok_def c_def chan_alloc_roundtrip)
  have nc: "cad r = zero_cad" "c = []" if "\<not> (chan_alloc_pres r \<noteq> 0 \<and> is_encrypted r = 0)"
    using ok that by (auto simp: resource_tail_ok_def c_def)
  show ?thesis
  proof (cases "chan_alloc_pres r \<noteq> 0 \<and> is_encrypted r = 0")
    case True
    with cd have "macpdu_decode_chan_alloc zero_cad ((!) (c @ ys)) = (cad r, length c)" by simp
    with True show ?thesis
      unfolding decode_resource_tail_def by (simp add: Let_def b0 p sg z b2 e del: One_nat_def) (simp add: cur1_def)
  next
    case False
    note nc' = nc [OF False]
    from False show ?thesis
      unfolding decode_resource_tail_def
      by (auto simp add: Let_def b0 p sg z b2 e nc' simp del: One_nat_def) (auto simp: cur1_def)
  qed
qed


definition enc_resource ::
  "tetra_resrc_decoded \<Rightarrow> u32 \<Rightarrow> u8 list \<Rightarrow> u8 \<Rightarrow> u8 list \<times> u8 list option \<times> u8 list option \<Rightarrow> u8 list" where
  "enc_resource r li pcb gc opts =
    [0, 0] @ field_bits 1 (fill_bits r) @ field_bits 1 (grant_position r) @ field_bits 2 (encryption_mode r)
    @ [rand_acc_flag r] @ field_bits 6 li @ field_bits 3 (a_type (rs_addr r)) @ enc_addr (rs_addr r)
    @ enc_resource_tail r pcb gc opts"

definition resource_ok ::
  "tetra_resrc_decoded \<Rightarrow> u32 \<Rightarrow> u8 list \<Rightarrow> u8 \<Rightarrow> u8 list \<times> u8 list option \<times> u8 list option \<Rightarrow> bool" where
  "resource_ok r li pcb gc opts \<longleftrightarrow> unat (fill_bits r) < 2 ^ 1 \<and> unat (grant_position r) < 2 ^ 1 \<and>
    unat (encryption_mode r) < 2 ^ 2 \<and> is_encrypted r = (if encryption_mode r = 0 then 0 else 1) \<and>
    unat li < 2 ^ 6 \<and> macpdu_length r = decode_length li \<and> addr_ok (rs_addr r) \<and> resource_tail_ok r pcb gc opts"

lemma resource_roundtrip:
  assumes ok: "resource_ok r li pcb gc opts"
  shows "macpdu_decode_resource zero_rsd ((!) (enc_resource r li pcb gc opts @ ys)) 0 =
    (r, int (length (enc_resource r li pcb gc opts)))"
proof -
  define hd where "hd = [0, 0] @ field_bits 1 (fill_bits r) @ field_bits 1 (grant_position r)
    @ field_bits 2 (encryption_mode r) @ [rand_acc_flag r] @ field_bits 6 li @ field_bits 3 (a_type (rs_addr r))"
  define tl where "tl = enc_resource_tail r pcb gc opts"
  define bits where "bits = (!) (hd @ enc_addr (rs_addr r) @ tl @ ys)"
  have e: "enc_resource r li pcb gc opts = hd @ enc_addr (rs_addr r) @ tl"
    by (simp add: enc_resource_def hd_def tl_def)
  have lh: "length hd = 16" by (simp add: hd_def)
  have ad: "addr_ok (rs_addr r)" using ok by (simp add: resource_ok_def)
  have ty: "unat (a_type (rs_addr r)) < 2 ^ 3" "a_type (rs_addr r) \<noteq> ADDR_TYPE_NULL"
    using ad by (auto simp: addr_ok_def word_less_nat_alt addr_types)
  define rsd1 where "rsd1 = zero_rsd\<lparr>fill_bits := fill_bits r, grant_position := grant_position r,
    encryption_mode := encryption_mode r, is_encrypted := is_encrypted r, rand_acc_flag := rand_acc_flag r,
    macpdu_length := macpdu_length r, rs_addr := zero_addr\<lparr>a_type := a_type (rs_addr r)\<rparr>\<rparr>"
  have fs: "fld bits 2 1 = fill_bits r" "fld bits 3 1 = grant_position r" "fld bits 4 2 = encryption_mode r"
    "bits 6 = rand_acc_flag r" "fld bits 7 6 = li" "fld bits 13 3 = a_type (rs_addr r)"
    using ok ty(1) by (simp_all add: bits_def hd_def resource_ok_def reading)
  have enc: "(if 0 < encryption_mode r \<and> (0 :: u8) = 0 then 1 else 0) = is_encrypted r"
    using ok by (simp add: resource_ok_def word_gt_0)
  have a0: "at bits 16 = (!) (enc_addr (rs_addr r) @ tl @ ys)"
    using at_append_0 [of hd] by (simp add: bits_def lh)
  have da: "decode_addr (rs_addr rsd1) bits 16 = Some (rs_addr r)"
    using decode_addr_enc [OF ad] unfolding decode_addr_at [of _ _ 16] a0 by (simp add: rsd1_def)
  have a1: "at bits (16 + addr_len_by_type ! unat (a_type (rs_addr r))) = (!) (tl @ ys)"
    using at_next [OF a0] by (simp add: length_enc_addr [OF ad])
  have "decode_resource_tail (rsd1\<lparr>rs_addr := rs_addr r\<rparr>) bits (16 + addr_len_by_type ! unat (a_type (rs_addr r))) =
      ((rsd1\<lparr>rs_addr := rs_addr r\<rparr>)\<lparr>power_control_pres := power_control_pres r, slot_granting := slot_granting r,
         chan_alloc_pres := chan_alloc_pres r, cad := cad r\<rparr>,
       int (16 + addr_len_by_type ! unat (a_type (rs_addr r)) + length tl))"
    unfolding tl_def by (rule decode_resource_tail_enc [where ys = ys])
      (use ok a1 in \<open>simp_all add: resource_ok_def rsd1_def zero_rsd_def tl_def\<close>)
  moreover have "(rsd1\<lparr>rs_addr := rs_addr r\<rparr>)\<lparr>power_control_pres := power_control_pres r,
      slot_granting := slot_granting r, chan_alloc_pres := chan_alloc_pres r, cad := cad r\<rparr> = r"
    by (simp add: rsd1_def)
  ultimately have tail: "decode_resource_tail (rsd1\<lparr>rs_addr := rs_addr r\<rparr>) bits (16 + addr_len_by_type ! unat (a_type (rs_addr r))) =
      (r, int (length (enc_resource r li pcb gc opts)))"
    by (simp add: e lh length_enc_addr [OF ad])
  have len: "macpdu_length r = decode_length li" using ok by (simp add: resource_ok_def)
  have head: "resource_head zero_rsd bits 0 = rsd1"
    unfolding resource_head_def Let_def fs by (simp add: rsd1_def len zero_rsd_def enc [symmetric])
  have "macpdu_decode_resource zero_rsd bits 0 =
     (if a_type (rs_addr rsd1) = ADDR_TYPE_NULL then (rsd1, 0)
      else case decode_addr (rs_addr rsd1) bits 16 of None \<Rightarrow> (rsd1, - EINVAL)
      | Some a \<Rightarrow> decode_resource_tail (rsd1\<lparr>rs_addr := a\<rparr>) bits (16 + addr_len_by_type ! unat (a_type a)))"
    unfolding macpdu_decode_resource_def Let_def head by (rule refl)
  also have "\<dots> = (r, int (length (enc_resource r li pcb gc opts)))"
    using ty(2) tail unfolding da by (simp add: rsd1_def)
  finally show ?thesis by (simp add: bits_def e)
qed


section \<open>Bounds on what is read\<close>

lemma decode_aug_length: "snd (decode_aug bits 0) \<in> {35..78}"
  by (auto simp: decode_aug_def Let_def)

lemma chan_alloc_length: "snd (macpdu_decode_chan_alloc cd bits) \<in> {25..115}"
proof -
  obtain cd1 n where 1: "(if ext_carr_pres (chan_alloc_head bits cd) \<noteq> 0
      then ((chan_alloc_head bits cd)\<lparr>ext_carr := decode_ext_carr (at bits 23) 0\<rparr>, 10)
      else (chan_alloc_head bits cd, 0)) = (cd1, n)" "n \<le> (10 :: nat)"
    by (cases "ext_carr_pres (chan_alloc_head bits cd) \<noteq> 0") auto
  have "snd (chan_alloc_monit (at bits (23 + n)) cd1) \<in> {2, 4}" by (simp add: chan_alloc_monit_def Let_def)
  then obtain cd2 m where 2: "chan_alloc_monit (at bits (23 + n)) cd1 = (cd2, m)" "2 \<le> m" "m \<le> 4"
    by (cases "chan_alloc_monit (at bits (23 + n)) cd1") auto
  obtain a k where 3: "decode_aug (at bits (23 + n + m)) 0 = (a, k)" by fastforce
  then have "35 \<le> k" "k \<le> 78" using decode_aug_length [of "at bits (23 + n + m)"] by simp_all
  then show ?thesis
    using 1(2) 2(2,3) unfolding decode_chan_alloc_steps Let_def [of "chan_alloc_head bits cd"] 1(1)
      Let_def [of "(_, _)"] prod.case 2(1) 3 by simp
qed

lemma slot_granting_length: "snd (decode_slot_granting sg bits cur) \<in> {cur + 1..cur + 9}"
  by (simp add: decode_slot_granting_def Let_def)

lemma resource_tail_length: "snd (decode_resource_tail rsd bits cur) \<in> {int cur + 3..int cur + 130}"
proof -
  define c1 where "c1 = (if bits cur \<noteq> 0 then cur + 1 + 4 else cur + 1)"
  obtain sg n where sg: "decode_slot_granting (slot_granting rsd) bits c1 = (sg, n)" by fastforce
  then have n: "c1 + 1 \<le> n" "n \<le> c1 + 9"
    using slot_granting_length [of "slot_granting rsd" bits c1] by simp_all
  obtain cd k where cd: "macpdu_decode_chan_alloc (cad rsd) (at bits (n + 1)) = (cd, k)" by fastforce
  then have k: "k \<le> 115" using chan_alloc_length [of "cad rsd" "at bits (n + 1)"] by simp
  have "snd (decode_resource_tail rsd bits cur) =
      (if bits n \<noteq> 0 \<and> is_encrypted rsd = 0 then int (n + 1 + k) else int (n + 1))"
    unfolding decode_resource_tail_def Let_def
    using sg cd by (simp add: c1_def split: if_splits)
  then show ?thesis using n k by (auto simp: c1_def split: if_splits)
qed

lemma addr_type_less: "unat (fld bits cur 3 :: u8) < 8"
  using bits_to_uint_less [of 3 "at bits cur"] by (simp add: fld_def unsigned_ucast_eq take_bit_nat_eq_self)

lemma tail_keeps_addr: "rs_addr (fst (decode_resource_tail s b c)) = rs_addr s"
  by (auto simp: decode_resource_tail_def Let_def case_prod_beta)

lemma resource_length:
  assumes "macpdu_decode_resource rsd bits dec = (r, off)"
  shows "a_type (rs_addr r) = ADDR_TYPE_NULL \<and> off = 0 \<or>
    a_type (rs_addr r) \<noteq> ADDR_TYPE_NULL \<and> 29 \<le> off \<and> off \<le> 180"
proof -
  define ty where "ty = (fld bits 13 3 :: u8)"
  define rsd1 where "rsd1 = resource_head rsd bits dec"
  have ty: "a_type (rs_addr rsd1) = ty" by (simp add: rsd1_def resource_head_def Let_def ty_def)
  note cases = addr_type_cases [OF addr_type_less [of bits 13], folded ty_def]
  note dec = assms [unfolded macpdu_decode_resource_def rsd1_def [symmetric] Let_def ty]
  show ?thesis
  proof (cases "ty = ADDR_TYPE_NULL")
    case True
    then show ?thesis using dec ty by auto
  next
    case False
    obtain a where a: "decode_addr (rs_addr rsd1) bits 16 = Some a" "a_type a = ty"
      using cases False ty by (auto simp: decode_addr_def addr_types)
    have len: "10 \<le> addr_len_by_type ! unat ty" "addr_len_by_type ! unat ty \<le> 34"
      using cases False by (auto simp: addr_len_by_type_def addr_types)
    have "decode_resource_tail (rsd1\<lparr>rs_addr := a\<rparr>) bits (16 + addr_len_by_type ! unat ty) = (r, off)"
      using dec a False by simp
    then show ?thesis
      using resource_tail_length [of "rsd1\<lparr>rs_addr := a\<rparr>" bits "16 + addr_len_by_type ! unat ty"]
        tail_keeps_addr [of "rsd1\<lparr>rs_addr := a\<rparr>" bits "16 + addr_len_by_type ! unat ty"] len a(2) False
      by simp
  qed
qed

lemma decode_length_values:
  assumes "unat li < 64"
  shows "decode_length li =
    (if 1 \<le> unat li \<and> unat li \<le> 58 then int (unat li) else if unat li = 62 then MACPDU_LEN_2ND_STOLEN
     else if unat li = 63 then MACPDU_LEN_START_FRAG else - EINVAL)"
  using assms by (auto simp: decode_length_def word_le_nat_alt word_unat_eq_iff)

section \<open>System information\<close>

text \<open>A part of a field, read from where the field starts.\<close>

lemma fld_part:
  fixes w :: "'w::len word"
  assumes "a + n \<le> m" "m \<le> 32"
  shows "bits_to_uint (at ((!) (field_bits m w @ ys)) a) n = take_bit n (drop_bit (m - a - n) (ucast w))"
proof (rule bit_word_eqI)
  fix k assume k: "k < LENGTH(32)"
  have "(field_bits m w @ ys) ! (a + (n - 1 - k)) = uint_to_bits m (ucast w) (a + (n - 1 - k))" if "k < n"
  proof -
    have "a + (n - 1 - k) < m" using that assms(1) by linarith
    then show ?thesis by (simp add: nth_append field_bits_def)
  qed
  moreover have "m - 1 - (a + (n - 1 - k)) = m - a - n + k" if "k < n" using that assms(1) by simp
  ultimately show "bit (bits_to_uint (at ((!) (field_bits m w @ ys)) a) n) k \<longleftrightarrow>
      bit (take_bit n (drop_bit (m - a - n) (ucast w)) :: u32) k"
    using k by (auto simp: bit_bits_to_uint at_def bit_take_bit_iff bit_drop_bit_eq uint_to_bits_def bit_ucast_iff
      bit_and_iff)
qed

definition enc_sysinfo :: "tetra_si_decoded \<Rightarrow> u8 list" where
  "enc_sysinfo s = [1, 0, 0, 0] @ field_bits 12 (main_carrier s) @ field_bits 4 (freq_band s) @ field_bits 2 (freq_offset s)
    @ field_bits 3 (duplex_spacing s) @ [reverse_operation s] @ field_bits 2 (num_of_csch s)
    @ field_bits 3 (ms_txpwr_max_cell s) @ field_bits 4 (rxlev_access_min s) @ field_bits 4 (access_parameter s)
    @ field_bits 4 (radio_dl_timeout s) @ [of_int (cck_valid_no_hf s)] @ field_bits 16 (cck_id_or_hyperframe s)
    @ field_bits 2 (option_field s) @ field_bits 20 (option_value s)
    @ field_bits 14 (la (mle_si s)) @ field_bits 16 (subscr_class (mle_si s)) @ field_bits 12 (bs_service_details (mle_si s))"

definition sysinfo_ok :: "tetra_si_decoded \<Rightarrow> bool" where
  "sysinfo_ok s \<longleftrightarrow> unat (main_carrier s) < 2 ^ 12 \<and> unat (freq_band s) < 2 ^ 4 \<and> unat (freq_offset s) < 2 ^ 2 \<and>
    unat (duplex_spacing s) < 2 ^ 3 \<and> unat (num_of_csch s) < 2 ^ 2 \<and> unat (ms_txpwr_max_cell s) < 2 ^ 3 \<and>
    unat (rxlev_access_min s) < 2 ^ 4 \<and> unat (access_parameter s) < 2 ^ 4 \<and> unat (radio_dl_timeout s) < 2 ^ 4 \<and>
    0 \<le> cck_valid_no_hf s \<and> cck_valid_no_hf s < 256 \<and> unat (option_field s) < 2 ^ 2 \<and> unat (option_value s) < 2 ^ 20 \<and>
    unat (la (mle_si s)) < 2 ^ 14 \<and> unat (bs_service_details (mle_si s)) < 2 ^ 12"

lemma sysinfo_decode:
  assumes ok: "sysinfo_ok s"
  shows "macpdu_decode_sysinfo zero_si ((!) (enc_sysinfo s @ ys)) =
    s\<lparr>option_field := ucast (drop_bit 14 (cck_id_or_hyperframe s)),
      option_value := push_bit 6 (take_bit 14 (ucast (cck_id_or_hyperframe s)))
        OR push_bit 4 (ucast (option_field s)) OR drop_bit 16 (option_value s)\<rparr>"
proof -
  define hd where "hd = [1, 0, 0, 0] @ field_bits 12 (main_carrier s) @ field_bits 4 (freq_band s) @ field_bits 2 (freq_offset s)
    @ field_bits 3 (duplex_spacing s) @ [reverse_operation s] @ field_bits 2 (num_of_csch s)
    @ field_bits 3 (ms_txpwr_max_cell s) @ field_bits 4 (rxlev_access_min s) @ field_bits 4 (access_parameter s)
    @ field_bits 4 (radio_dl_timeout s) @ [of_int (cck_valid_no_hf s)]"
  define ml where "ml = field_bits 14 (la (mle_si s)) @ field_bits 16 (subscr_class (mle_si s))
    @ field_bits 12 (bs_service_details (mle_si s))"
  let ?hf = "field_bits 16 (cck_id_or_hyperframe s)" and ?of = "field_bits 2 (option_field s)"
    and ?ov = "field_bits 20 (option_value s)"
  define bits where "bits = (!) (hd @ ?hf @ ?of @ ?ov @ ml @ ys)"
  have e: "enc_sysinfo s @ ys = hd @ ?hf @ ?of @ ?ov @ ml @ ys" by (simp add: enc_sysinfo_def hd_def ml_def)
  have lh: "length hd = 44" by (simp add: hd_def)
  have fs: "fld bits 4 12 = main_carrier s" "fld bits 16 4 = freq_band s" "fld bits 20 2 = freq_offset s"
    "fld bits 22 3 = duplex_spacing s" "bits 25 = reverse_operation s" "fld bits 26 2 = num_of_csch s"
    "fld bits 28 3 = ms_txpwr_max_cell s" "fld bits 31 4 = rxlev_access_min s" "fld bits 35 4 = access_parameter s"
    "fld bits 39 4 = radio_dl_timeout s" "bits 43 = of_int (cck_valid_no_hf s)"
    using ok by (simp_all add: bits_def hd_def sysinfo_ok_def reading)
  have cck: "uint (of_int (cck_valid_no_hf s) :: u8) = cck_valid_no_hf s"
    using ok by (simp add: uint_word_of_int sysinfo_ok_def)
  have a44: "at bits 44 = (!) (?hf @ ?of @ ?ov @ ml @ ys)"
    using at_append_0 [of hd] by (simp add: bits_def lh)
  have a60: "at bits 60 = (!) (?of @ ?ov @ ml @ ys)" using at_next [OF a44] by simp
  have a62: "at bits 62 = (!) (?ov @ ml @ ys)" using at_next [OF a60] by simp
  have a82: "at bits 82 = (!) (ml @ ys)" using at_next [OF a62] by simp
  have "unat (cck_id_or_hyperframe s) < 2 ^ 16" using unat_u16_less [of "cck_id_or_hyperframe s"] by simp
  then have hf: "fld bits 44 16 = cck_id_or_hyperframe s"
    using fld_at [of bits 44 0 16, where 'a = 16] by (simp add: a44 fld_here)
  have of1: "fld bits 44 2 = (ucast (drop_bit 14 (cck_id_or_hyperframe s)) :: u8)"
  proof -
    have "bits_to_uint (at bits 44) 2 = take_bit 2 (drop_bit 14 (ucast (cck_id_or_hyperframe s)))"
      using fld_part [of 0 2 16 "cck_id_or_hyperframe s"] by (simp add: a44)
    then show ?thesis
      unfolding fld_def by (intro bit_word_eqI) (auto simp: bit_ucast_iff bit_take_bit_iff bit_drop_bit_eq dest: bit_imp_le_length)
  qed
  have ov: "bits_to_uint (at bits 46) 20 = push_bit 6 (take_bit 14 (ucast (cck_id_or_hyperframe s)))
        OR push_bit 4 (ucast (option_field s)) OR drop_bit 16 (option_value s)"
  proof -
    have 1: "bits_to_uint (at bits 46) 14 = take_bit 14 (ucast (cck_id_or_hyperframe s))"
    proof -
      have "at bits 46 = at ((!) (?hf @ ?of @ ?ov @ ml @ ys)) 2" using at_at [of bits 44 2] by (simp add: a44)
      then show ?thesis using fld_part [of 2 14 16 "cck_id_or_hyperframe s"] by simp
    qed
    have 2: "bits_to_uint (at bits 60) 2 = ucast (option_field s)"
    proof -
      have "unat (option_field s) < 4" using ok by (simp add: sysinfo_ok_def)
      then have "take_bit 2 (ucast (option_field s) :: u32) = ucast (option_field s)"
        by (simp add: word_unat_eq_iff unsigned_take_bit_eq unsigned_ucast_eq take_bit_nat_eq_self)
      then show ?thesis using fld_part [of 0 2 2 "option_field s"] by (simp add: a60)
    qed
    have 3: "bits_to_uint (at bits 62) 4 = drop_bit 16 (option_value s)"
    proof -
      have "take_bit 4 (drop_bit 16 (option_value s)) = drop_bit 16 (option_value s)"
      proof -
        have "unat (option_value s) div 65536 < 16" using ok by (simp add: sysinfo_ok_def less_mult_imp_div_less)
        then show ?thesis
          by (simp add: word_unat_eq_iff unsigned_take_bit_eq unat_div drop_bit_eq_div take_bit_nat_eq_self)
      qed
      then show ?thesis using fld_part [of 0 4 20 "option_value s"] by (simp add: a62)
    qed
    show ?thesis
      using bits_to_uint_append [of "at bits 46" 14 6] bits_to_uint_append [of "at bits 60" 2 4]
      by (simp add: 1 2 3 push_bit_or or.assoc)
  qed
  have mle: "decode_d_mle_sysinfo (at bits 82) = mle_si s"
    using ok unat_u16_less [of "subscr_class (mle_si s)"]
    by (simp add: a82 decode_d_mle_sysinfo_def ml_def sysinfo_ok_def reading)
  have o3: "(ucast (drop_bit 14 (cck_id_or_hyperframe s)) :: u8) \<le> 3"
  proof -
    have "unat (cck_id_or_hyperframe s) div 16384 < 4"
      using unat_u16_less [of "cck_id_or_hyperframe s"] by (simp add: less_mult_imp_div_less)
    then show ?thesis
      by (simp add: word_le_nat_alt unsigned_ucast_eq drop_bit_eq_div unat_div take_bit_nat_eq_self)
  qed
  have o20: "fld bits 46 20 = bits_to_uint (at bits 46) 20" by (simp add: fld_def)
  show ?thesis
    unfolding e bits_def [symmetric] macpdu_decode_sysinfo_def Let_def using fs o3
    by (simp add: hf of1 ov o20 cck mle zero_si_def)
qed


section \<open>Access assignments\<close>

lemma access_field_ranges: "unat (access_code (decode_access_field f)) < 4 \<and> unat (base_frame_len (decode_access_field f)) < 16"
proof -
  have "unat (f AND 0x3f) < 64" "unat ((f AND 0x3f) AND 0xf) < 16"
    using word_and_le1 [of f "0x3f"] word_and_le1 [of "f AND 0x3f" "0xf"] by (simp_all add: word_le_nat_alt)
  then show ?thesis
    by (simp add: decode_access_field_def Let_def unat_div drop_bit_eq_div less_mult_imp_div_less)
qed

lemma header_cases: "unat x < 4 \<Longrightarrow> x = 0 \<or> x = 1 \<or> x = 2 \<or> x = 3" for x :: u8
  using addr_type_cases [of x] by (auto dest: arg_cong [of _ _ unat])

lemma fld_less: "n \<le> 7 \<Longrightarrow> unat (fld bits cur n :: u8) < 2 ^ n"
proof -
  assume n: "n \<le> 7"
  have "unat (bits_to_uint (at bits cur) n) < 2 ^ n" using n by (intro bits_to_uint_less) simp
  also have "(2 :: nat) ^ n \<le> 2 ^ 7" using n by (intro power_increasing) simp_all
  finally show ?thesis
    using \<open>unat (bits_to_uint (at bits cur) n) < 2 ^ n\<close> by (simp add: fld_def unsigned_ucast_eq take_bit_nat_eq_self)
qed

lemma access_assign_usage:
  "aa_dl_usage (macpdu_decode_access_assign zero_aad bits f18) =
     (if \<not> f18 \<and> (fld bits 0 2 :: u8) \<noteq> 0 then fld bits 2 6 else 0)"
  "aa_ul_usage (macpdu_decode_access_assign zero_aad bits f18) =
     (if \<not> f18 \<and> (fld bits 0 2 :: u8) = 3 then fld bits 8 6 else 0)"
  "aa_pres (macpdu_decode_access_assign zero_aad bits f18) =
     (if f18 then (if (fld bits 0 2 :: u8) = 3 then 2 else 3)
      else if (fld bits 0 2 :: u8) = 0 then 3 else if (fld bits 0 2 :: u8) = 3 then 12 else 6)"
  using header_cases [OF fld_less [of 2 bits 0, simplified]]
  by (auto simp: macpdu_decode_access_assign_def Let_def zero_aad_def with_access1_def with_access2_def
      with_dl_usage_def with_ul_usage_def pres_flags)

section \<open>Properties\<close>

text \<open>
  C24. Every MAC-RESOURCE header comes back from its encoding: all fields, the address in each of its
  forms, the optional power control, slot granting and channel allocation elements, and as the result
  the length of the header, where the SDU starts.
\<close>
theorem resource_header_roundtrip:
  assumes "resource_ok r li pcb gc opts"
  shows "macpdu_decode_resource zero_rsd ((!) (enc_resource r li pcb gc opts @ sdu)) 0 =
    (r, int (length (enc_resource r li pcb gc opts)))"
  using assms by (rule resource_roundtrip)

definition example_resource :: tetra_resrc_decoded where
  "example_resource = zero_rsd\<lparr>fill_bits := 1, macpdu_length := 20,
     rs_addr := zero_addr\<lparr>a_type := ADDR_TYPE_SSI_USAGE, ssi := 1234567, usage_marker := 17\<rparr>,
     slot_granting := \<lparr>sg_nr_slots = 17, sg_delay = 3, sg_pres = 1\<rparr>, chan_alloc_pres := 1,
     cad := zero_cad\<lparr>timeslot := 5, ul_dl := 3, carrier_nr := 3600, monit_pattern := 1\<rparr>\<rparr>"

theorem resource_header_roundtrip_witness:
  "macpdu_decode_resource zero_rsd ((!) (enc_resource example_resource 20 [0, 0, 0, 0] 10 ([], None, None) @ [1, 0])) 0 =
    (example_resource, int (length (enc_resource example_resource 20 [0, 0, 0, 0] 10 ([], None, None))))"
  by (rule resource_header_roundtrip)
    (simp add: resource_ok_def example_resource_def zero_rsd_def zero_addr_def zero_cad_def addr_ok_def addr_types
      resource_tail_ok_def slot_granting_ok_def chan_alloc_ok_def decode_nr_slots_def dec_tbl_def decode_length_values)

text \<open>
  Whatever the bits are, a MAC-RESOURCE header ends within 29 to 180 bits, or is the null PDU with
  offset 0; a channel allocation has 25 to 115 bits. The error of an unknown address type cannot occur.
\<close>
theorem resource_header_length:
  assumes "macpdu_decode_resource rsd bits dec = (r, off)"
  shows "(a_type (rs_addr r) = ADDR_TYPE_NULL \<and> off = 0 \<or>
      a_type (rs_addr r) \<noteq> ADDR_TYPE_NULL \<and> 29 \<le> off \<and> off \<le> 180) \<and>
    25 \<le> snd (macpdu_decode_chan_alloc cd bits) \<and> snd (macpdu_decode_chan_alloc cd bits) \<le> 115"
  using resource_length [OF assms] chan_alloc_length [of cd bits] by simp

theorem resource_header_length_witness:
  "(a_type (rs_addr (resource_head zero_rsd (\<lambda>_. 0) 0)) = ADDR_TYPE_NULL \<and> (0 :: int) = 0 \<or>
      a_type (rs_addr (resource_head zero_rsd (\<lambda>_. 0) 0)) \<noteq> ADDR_TYPE_NULL \<and> 29 \<le> (0 :: int) \<and> (0 :: int) \<le> 180) \<and>
    25 \<le> snd (macpdu_decode_chan_alloc zero_cad (\<lambda>_. 0)) \<and> snd (macpdu_decode_chan_alloc zero_cad (\<lambda>_. 0)) \<le> 115"
  by (rule resource_header_length [of zero_rsd "\<lambda>_. 0" 0]) code_simp

text \<open>
  System information comes back from its encoding in every field but the optional one. The position
  is not moved past the CCK identifier or hyperframe number, so the option field is the first two bits
  of that number, and the option's value the rest of it followed by the real option field and the first
  four bits of the real value.
\<close>
theorem sysinfo_decodes_but_option:
  assumes "sysinfo_ok s"
  shows "macpdu_decode_sysinfo zero_si ((!) (enc_sysinfo s @ rest)) =
    s\<lparr>option_field := ucast (drop_bit 14 (cck_id_or_hyperframe s)),
      option_value := push_bit 6 (take_bit 14 (ucast (cck_id_or_hyperframe s)))
        OR push_bit 4 (ucast (option_field s)) OR drop_bit 16 (option_value s)\<rparr>"
  using assms by (rule sysinfo_decode)

theorem sysinfo_decodes_but_option_witness:
  "macpdu_decode_sysinfo zero_si ((!) (enc_sysinfo (zero_si\<lparr>main_carrier := 3600, option_field := 2\<rparr>) @ [])) =
    zero_si\<lparr>main_carrier := 3600, option_field := 0, option_value := 32\<rparr>"
  using sysinfo_decodes_but_option [of "zero_si\<lparr>main_carrier := 3600, option_field := 2\<rparr>" "[]"]
  by (simp add: sysinfo_ok_def zero_si_def zero_mle_si_def)

text \<open>
  An access assignment gives a downlink usage marker exactly when it is not in frame 18 and its
  header is not 0, an uplink marker only with header 3, and marks as present what it decodes; the
  marker and the access codes stay within their fields.
\<close>
theorem access_assign_decodes:
  "aa_dl_usage (macpdu_decode_access_assign zero_aad bits f18) =
     (if \<not> f18 \<and> (fld bits 0 2 :: u8) \<noteq> 0 then fld bits 2 6 else 0) \<and>
   aa_ul_usage (macpdu_decode_access_assign zero_aad bits f18) =
     (if \<not> f18 \<and> (fld bits 0 2 :: u8) = 3 then fld bits 8 6 else 0) \<and>
   aa_pres (macpdu_decode_access_assign zero_aad bits f18) =
     (if f18 then (if (fld bits 0 2 :: u8) = 3 then 2 else 3)
      else if (fld bits 0 2 :: u8) = 0 then 3 else if (fld bits 0 2 :: u8) = 3 then 12 else 6) \<and>
   unat (fld bits 2 6 :: u8) < 64 \<and> unat (access_code (decode_access_field f)) < 4"
  using access_assign_usage [of bits f18] fld_less [of 6 bits 2] access_field_ranges [of f] by simp

end
