(* ===== verification/PduNames.thy ===== *)
theory PduNames
  imports MacPdu
begin

text \<open>
  The names and textual forms of the MAC PDUs (\<open>tetra_mac_pdu.c\<close>, \<open>tetra_upper_mac.c\<close>) and of the
  CMCE, MLE, MM and SNDCP PDUs above them (\<open>tetra_cmce_pdu.c\<close>, \<open>tetra_mle_pdu.c\<close>, \<open>tetra_mm_pdu.c\<close>,
  \<open>tetra_sndcp_pdu.c\<close>), and the entry of the MLE (\<open>tetra_mle.c\<close>), which only looks at the protocol
  discriminator. The lemmas show that every text fits the buffer it is printed into.
\<close>

section \<open>Names of MAC elements\<close>

definition tetra_macpdu_t_names :: "value_string list" where
  "tetra_macpdu_t_names =
   [(0, Some ''RESOURCE''), (1, Some ''FRAG/END''), (2, Some ''BROADCAST''), (3, Some ''SUPPLEMENTARY''),
    (0, None)]"

definition serv_det_names :: "value_string list" where
  "serv_det_names =
   [(0x800, Some ''Registration mandatory''), (0x400, Some ''De-registration mandatory''),
    (0x200, Some ''Priority cell''), (0x100, Some ''Cell never uses minimum mode''),
    (0x80, Some ''Migration supported''), (0x40, Some ''Normal mode''), (0x20, Some ''Voice service''),
    (0x10, Some ''Circuit data''), (4, Some ''SNDCP data''), (2, Some ''Air encryption''),
    (1, Some ''Advanced link''), (0, None)]"

definition dl_usage_names :: "value_string list" where
  "dl_usage_names =
   [(0, Some ''Unallocated''), (1, Some ''Assigned control''), (2, Some ''Common control''),
    (3, Some ''Reserved''), (0, None)]"

definition addr_type_names :: "value_string list" where
  "addr_type_names =
   [(0, Some ''Null PDU''), (1, Some ''SSI''), (2, Some ''Event Label''),
    (3, Some ''USSI (migrading MS un-exchanged)''), (4, Some ''SMI (management)''),
    (5, Some ''SSI + Event Label''), (6, Some ''SSI + Usage Marker''), (7, Some ''SMI + Event Label''),
    (0, None)]"

definition alloc_type_names :: "value_string list" where
  "alloc_type_names =
   [(0, Some ''Replace''), (1, Some ''Additional''), (2, Some ''Quit and go''),
    (3, Some ''Replace + Slot1''), (0, None)]"

definition ul_dl_names :: "value_string list" where
  "ul_dl_names =
   [(0, Some ''Augmented''), (1, Some ''Downlink only''), (2, Some ''Uplink only''),
    (3, Some ''Uplink + Downlink''), (0, None)]"

definition tetra_get_macpdu_name :: "u8 \<Rightarrow> string" where
  "tetra_get_macpdu_name pdu_type = get_value_string tetra_macpdu_t_names (ucast pdu_type)"

definition tetra_get_bs_serv_det_name :: "u32 \<Rightarrow> string" where
  "tetra_get_bs_serv_det_name pdu_type = get_value_string serv_det_names pdu_type"

definition tetra_get_dl_usage_name :: "u8 \<Rightarrow> string" where
  "tetra_get_dl_usage_name num = (if num \<le> 3 then get_value_string dl_usage_names (ucast num) else ''Traffic'')"

definition tetra_get_ul_usage_name :: "u8 \<Rightarrow> string" where
  "tetra_get_ul_usage_name num = (if num = 0 then ''Unallocated'' else ''Traffic'')"

definition tetra_get_addr_t_name :: "u8 \<Rightarrow> string" where
  "tetra_get_addr_t_name addrt = get_value_string addr_type_names (ucast addrt)"

definition tetra_get_alloc_t_name :: "u8 \<Rightarrow> string" where
  "tetra_get_alloc_t_name alloct = get_value_string alloc_type_names (ucast alloct)"

definition tetra_get_ul_dl_name :: "u8 \<Rightarrow> string" where
  "tetra_get_ul_dl_name uldl = get_value_string ul_dl_names (ucast uldl)"

section \<open>Names of the PDUs of the upper layers\<close>

definition cmce_pdut_d_names :: "value_string list" where
  "cmce_pdut_d_names =
   [(0, Some ''D-ALERT''), (1, Some ''D-CALL PROCEEDING''), (2, Some ''D-CONNECT''),
    (3, Some ''D-CONNECT ACK''), (4, Some ''D-DISCONNECT''), (5, Some ''D-INFO''), (6, Some ''D-RELEASE''),
    (7, Some ''D-SETUP''), (8, Some ''D-STATUS''), (9, Some ''D-TX CEASED''), (10, Some ''D-TX CONTINUE''),
    (11, Some ''D-TX GRANTED''), (12, Some ''D-TX WAIT''), (13, Some ''D-TX INTERRUPT''),
    (14, Some ''D-TX CALL RESTORE''), (15, Some ''D-SDS DATA''), (0x10, Some ''D-FACILITY''), (0, None)]"

definition cmce_pdut_u_names :: "value_string list" where
  "cmce_pdut_u_names =
   [(0, Some ''U-ALERT''), (2, Some ''U-CONNECT''), (4, Some ''U-DISCONNECT''), (5, Some ''U-INFO''),
    (6, Some ''U-RELEASE''), (7, Some ''U-SETUP''), (8, Some ''U-STATUS''), (9, Some ''U-TX CEASED''),
    (10, Some ''U-TX DEMAND''), (14, Some ''U-TX CALL RESTORE''), (15, Some ''U-SDS DATA''),
    (0x10, Some ''U-FACILITY''), (0, None)]"

definition tetra_get_cmce_pdut_name :: "u16 \<Rightarrow> int \<Rightarrow> string" where
  "tetra_get_cmce_pdut_name pdut uplink =
    (if uplink = 0 then get_value_string cmce_pdut_d_names (ucast pdut)
     else get_value_string cmce_pdut_u_names (ucast pdut))"

definition mle_pdisc_names :: "value_string list" where
  "mle_pdisc_names =
   [(1, Some ''MM''), (2, Some ''CMCE''), (4, Some ''SNDCP''), (5, Some ''MLE''), (6, Some ''MGMT''),
    (7, Some ''TEST''), (0, None)]"

definition mle_pdut_d_names :: "value_string list" where
  "mle_pdut_d_names =
   [(0, Some ''D-NEW CELL''), (1, Some ''D-PREPARE FAIL''), (2, Some ''D-NWRK BROADCAST''),
    (3, Some ''D-NWRK BROADCAST EXT''), (4, Some ''D-RESTORE ACK''), (5, Some ''D-RESTORE FAIL''),
    (6, Some ''D-CHANNEL RESPONSE''), (0, None)]"

definition tetra_get_mle_pdisc_name :: "u8 \<Rightarrow> string" where
  "tetra_get_mle_pdisc_name pdisc = get_value_string mle_pdisc_names (ucast pdisc)"

definition tetra_get_mle_pdut_name :: "u32 \<Rightarrow> int \<Rightarrow> string" where
  "tetra_get_mle_pdut_name pdut uplink = get_value_string mle_pdut_d_names pdut"

definition mm_pdut_d_names :: "value_string list" where
  "mm_pdut_d_names =
   [(0, Some ''D-OTAR''), (1, Some ''D-AUTHENTICATION''), (2, Some ''D-CK CHANGE DEMAND''),
    (3, Some ''D-DISABLE''), (4, Some ''D-ENABLE''), (5, Some ''D-LOCATION UPDATE ACCEPT''),
    (6, Some ''D-LOCATION UPDATE COMMAND''), (7, Some ''D-LOCATION UPDATE REJECT''),
    (9, Some ''D-LOCATION UPDATE PROCEEDING''), (10, Some ''D-ATTACH/DETACH GROUP ID''),
    (11, Some ''D-ATTACH/DETACH GROUP ID ACK''), (12, Some ''D-MM STATUS''),
    (15, Some ''MM PDU/FUNCTION NOT SUPPORTED''), (0, None)]"

definition tetra_get_mm_pdut_name :: "u8 \<Rightarrow> int \<Rightarrow> string" where
  "tetra_get_mm_pdut_name pdut uplink = get_value_string mm_pdut_d_names (ucast pdut)"

definition sndcp_pdut_names :: "value_string list" where
  "sndcp_pdut_names =
   [(0, Some ''SN-ACTIVATE PDP ACCEPT''), (1, Some ''SN-DEACTIVATE PDP ACCEPT''),
    (2, Some ''SN-DEACTIVATE PDP DEMAND''), (3, Some ''SN-ACTIVATE PDP REJECT''),
    (4, Some ''SN-UNITDATA''), (5, Some ''SN-DATA''), (6, Some ''SN-DATA TX REQUEST''),
    (7, Some ''SN-DATA TX RESPONSE''), (8, Some ''SN-END OF DATA''), (9, Some ''SN-RECONNECT''),
    (10, Some ''SN-PAGE REQUEST''), (11, Some ''SN-NOT SUPPORTED''), (12, Some ''SN-DATA PRIORITY''),
    (13, Some ''SN-MODIFY''), (0, None)]"

definition tetra_get_sndcp_pdut_name :: "u8 \<Rightarrow> int \<Rightarrow> string" where
  "tetra_get_sndcp_pdut_name pdut uplink = get_value_string sndcp_pdut_names (ucast pdut)"

text \<open>
  The MLE entry: every branch of its switch only prints, and the length is returned. A missing layer 3
  pointer is \<^theory_text>\<open>None\<close>.
\<close>

definition rx_tl_sdu :: "msgb \<Rightarrow> u32 \<Rightarrow> (u8 \<times> int) option" where
  "rx_tl_sdu m len =
    map_option (\<lambda>p. let mle_pdisc = fld (msgb_at m p) 0 3 in (mle_pdisc, sint len)) (l3h m)"

section \<open>Textual forms\<close>

text \<open>\<open>%u\<close>.\<close>

fun dec_nat :: "nat \<Rightarrow> string" where
  "dec_nat n = (if n < 10 then [char_of (48 + n)] else dec_nat (n div 10) @ [char_of (48 + n mod 10)])"

declare dec_nat.simps [simp del]

definition tetra_addr_dump :: "tetra_addr \<Rightarrow> string" where
  "tetra_addr_dump a = tetra_get_addr_t_name (a_type a) @ ''('' @
    (if a_type a \<in> {ADDR_TYPE_SSI, ADDR_TYPE_USSI, ADDR_TYPE_SMI} then dec_nat (unat (ssi a))
     else if a_type a \<in> {ADDR_TYPE_EVENT_LABEL, ADDR_TYPE_SSI_EVENT, ADDR_TYPE_SMI_EVENT} then
       dec_nat (unat (ssi a)) @ ''/E'' @ dec_nat (unat (event_label a))
     else if a_type a = ADDR_TYPE_SSI_USAGE then dec_nat (unat (ssi a)) @ ''/U'' @ dec_nat (unat (usage_marker a))
     else []) @ '')''"

text \<open>The band and offset are those of the last system information unless the allocation has its own.\<close>

definition tetra_alloc_dump :: "tetra_chan_alloc_decoded \<Rightarrow> tetra_si_decoded \<Rightarrow> string" where
  "tetra_alloc_dump cd last_sid =
    (let (band, offset) =
       (if ext_carr_pres cd \<noteq> 0 then (ec_freq_band (ext_carr cd), ec_freq_offset (ext_carr cd))
        else (freq_band last_sid, freq_offset last_sid))
     in tetra_get_alloc_t_name (ca_type cd) @ '' (TN'' @ dec_nat (unat (timeslot cd)) @ ''/'' @
        tetra_get_ul_dl_name (ul_dl cd) @ ''/'' @ dec_nat (unat (tetra_dl_carrier_hz band (carrier_nr cd) offset)) @ ''Hz)'')"

section \<open>Lengths\<close>

lemma length_dec_nat: "n < 10 ^ Suc k \<Longrightarrow> length (dec_nat n) \<le> Suc k"
proof (induction k arbitrary: n)
  case 0
  then show ?case by (simp add: dec_nat.simps [of n])
next
  case (Suc k)
  then have "n div 10 < 10 ^ Suc k" by (simp add: less_mult_imp_div_less)
  from Suc.IH [OF this] show ?case by (simp add: dec_nat.simps [of n])
qed

lemma length_hex_nat: "n < 16 ^ Suc k \<Longrightarrow> length (hex_nat n) \<le> Suc k"
proof (induction k arbitrary: n)
  case 0
  then show ?case by (simp add: hex_nat.simps [of n])
next
  case (Suc k)
  then have "n div 16 < 16 ^ Suc k" by (simp add: less_mult_imp_div_less)
  from Suc.IH [OF this] show ?case by (simp add: hex_nat.simps [of n])
qed

text \<open>A name of the table, or the text for an unknown 8-bit value.\<close>

lemma get_value_string_length:
  assumes "\<forall>s. s \<in> snd ` set es \<longrightarrow> s = None \<or> length (the s) \<le> k" "unat val < 256" "12 \<le> k"
  shows "length (get_value_string es val) \<le> k"
proof -
  have "get_value_string_or_null es val = Some s \<Longrightarrow> length s \<le> k" for s
    using assms(1) by (induction es val rule: get_value_string_or_null.induct) (auto split: if_splits)
  moreover have "length (hex_nat (unat val)) \<le> 2" using length_hex_nat [of "unat val" 1] assms(2) by simp
  ultimately show ?thesis using assms(3) by (auto simp: get_value_string_def split: option.split)
qed

lemma unat_u8_widen: "unat (ucast x :: u32) < 256" for x :: u8
  using unat_u8_less [of x] by (simp add: unat_widen_c)

lemma names_length:
  "length (tetra_get_addr_t_name x) \<le> 32" "length (tetra_get_alloc_t_name x) \<le> 15" "length (tetra_get_ul_dl_name x) \<le> 17"
  unfolding tetra_get_addr_t_name_def tetra_get_alloc_t_name_def tetra_get_ul_dl_name_def
  by (intro get_value_string_length unat_u8_widen; simp add: addr_type_names_def alloc_type_names_def ul_dl_names_def)+

lemma dec_word_length:
  "length (dec_nat (unat x)) \<le> 3" "length (dec_nat (unat y)) \<le> 5" "length (dec_nat (unat z)) \<le> 10"
  for x :: u8 and y :: u16 and z :: u32
  using length_dec_nat [of "unat x" 2] unat_u8_less [of x] length_dec_nat [of "unat y" 4] unat_u16_less [of y]
    length_dec_nat [of "unat z" 9] unat_u32_less [of z] by simp_all

section \<open>Properties\<close>

text \<open>
  The texts of an address and of a channel allocation fit the 64 bytes they are printed into, with
  the terminating zero, whatever the fields are.
\<close>
theorem dumps_fit_their_buffers:
  "length (tetra_addr_dump a) < 64 \<and> length (tetra_alloc_dump cd last_sid) < 64"
proof
  show "length (tetra_addr_dump a) < 64"
    using names_length(1) [of "a_type a"] dec_word_length(3) [of "ssi a"] dec_word_length(2) [of "event_label a"]
      dec_word_length(1) [of "usage_marker a"]
    by (auto simp: tetra_addr_dump_def)
  have "length (tetra_alloc_dump cd last_sid) \<le> 15 + 4 + 3 + 1 + 17 + 1 + 10 + 3"
    using names_length(2) [of "ca_type cd"] names_length(3) [of "ul_dl cd"] dec_word_length(1) [of "timeslot cd"]
      dec_word_length(3) [of "tetra_dl_carrier_hz (ec_freq_band (ext_carr cd)) (carrier_nr cd) (ec_freq_offset (ext_carr cd))"]
      dec_word_length(3) [of "tetra_dl_carrier_hz (freq_band last_sid) (carrier_nr cd) (freq_offset last_sid)"]
    by (simp add: tetra_alloc_dump_def Let_def)
  then show "length (tetra_alloc_dump cd last_sid) < 64" by simp
qed

end
