(* ===== verification/UpperMac.thy ===== *)
theory UpperMac
  imports MacPdu
begin

text \<open>
  The upper MAC, \<open>tetra_upper_mac.c\<close>, with the MAC and display state of \<open>tetra_common.h\<close> and the
  fragment slots of \<open>tetra_fragslot.h\<close>. Each handler takes the primitive and the MAC state and returns
  the number of bits of the PDU (\<open>-1\<close> when it fills the slot) with both as it leaves them;
  \<^theory_text>\<open>None\<close> is an abort or an access outside an object. The key database and the memory around a
  new buffer are arguments. Definitions only: \<open>Reassembly\<close> follows a message through the fragment
  slots and shows which PDUs make the handlers leave their buffers.
\<close>

section \<open>State\<close>

definition FRAGSLOT_NR_SLOTS :: nat where "FRAGSLOT_NR_SLOTS = 5"
definition N203 :: u32 where "N203 = 6"
definition FRAGSLOT_MSGB_SIZE :: u16 where "FRAGSLOT_MSGB_SIZE = 8192"

record fragslot =
  active :: bool
  age :: u32
  num_frags :: int
  frag_length :: int
  encryption :: bool
  frag_key :: "nat option"
  frag_msgb :: "msgb option"

record tetra_display_state =
  curr_hyperframe :: int
  curr_multiframe :: int
  curr_frame :: int
  timeslot_content :: "int list"
  dl_usage :: int
  ul_usage :: int
  access1_code :: u8
  access2_code :: u8
  access1 :: int
  access2 :: int
  dl_freq :: int
  ul_freq :: int
  ds_mcc :: int
  ds_mnc :: int
  ds_cc :: int
  last_crc_fail :: bool
  advanced_link :: bool
  air_encryption :: bool
  sndcp_data :: bool
  circuit_data :: bool
  voice_service :: bool
  normal_mode :: bool
  migration_supported :: bool
  never_minimum_mode :: bool
  priority_cell :: bool
  dereg_mandatory :: bool
  reg_mandatory :: bool

text \<open>The cryptographic state and the display state, which the code points to, are parts of it.\<close>

record tetra_mac_state =
  is_traffic :: int
  blk1_stolen :: bool
  blk2_stolen :: bool
  last_sid :: tetra_si_decoded
  tcs :: tetra_crypto_state
  tms_ssi :: int
  tms_usage_marker :: int
  addr_type :: int
  t_display_st :: tetra_display_state
  codec_first_pass :: bool
  last_frame :: int
  curr_active_timeslot :: int
  fragslots :: "fragslot list"

definition zero_fragslot :: fragslot where
  "zero_fragslot = \<lparr>active = False, age = 0, num_frags = 0, frag_length = 0, encryption = False,
     frag_key = None, frag_msgb = None\<rparr>"

text \<open>The memory the receiver clears, and its initialisation.\<close>

definition tetra_mac_state_init :: "tetra_mac_state \<Rightarrow> tetra_mac_state" where
  "tetra_mac_state_init tms = tms\<lparr>codec_first_pass := True\<rparr>"

definition cleared_display_state :: tetra_display_state where
  "cleared_display_state = \<lparr>curr_hyperframe = 0, curr_multiframe = 0, curr_frame = 0, timeslot_content = [0, 0, 0, 0],
     dl_usage = 0, ul_usage = 0, access1_code = 0, access2_code = 0, access1 = 0, access2 = 0, dl_freq = 0, ul_freq = 0,
     ds_mcc = 0, ds_mnc = 0, ds_cc = 0, last_crc_fail = False, advanced_link = False, air_encryption = False,
     sndcp_data = False, circuit_data = False, voice_service = False, normal_mode = False, migration_supported = False,
     never_minimum_mode = False, priority_cell = False, dereg_mandatory = False, reg_mandatory = False\<rparr>"

definition initial_mac_state :: tetra_mac_state where
  "initial_mac_state = tetra_mac_state_init \<lparr>is_traffic = 0, blk1_stolen = False, blk2_stolen = False, last_sid = zero_si,
     tcs = tetra_crypto_state_init \<lparr>c_mnc = 0, c_mcc = 0, c_cck_id = 0, c_hn = 0, c_la = 0, c_cn = 0, c_cc = 0,
             network = None, cck = None\<rparr>,
     tms_ssi = 0, tms_usage_marker = 0, addr_type = 0, t_display_st = cleared_display_state, codec_first_pass = False,
     last_frame = 0, curr_active_timeslot = 0, fragslots = replicate FRAGSLOT_NR_SLOTS zero_fragslot\<rparr>"

text \<open>What the code does to one slot of the array; a slot outside it is \<^theory_text>\<open>None\<close>.\<close>

definition slot_of :: "tetra_mac_state \<Rightarrow> nat \<Rightarrow> fragslot option" where
  "slot_of tms i = (if i < length (fragslots tms) then Some (fragslots tms ! i) else None)"

definition set_slot :: "tetra_mac_state \<Rightarrow> nat \<Rightarrow> fragslot \<Rightarrow> tetra_mac_state" where
  "set_slot tms i fs = tms\<lparr>fragslots := (fragslots tms)[i := fs]\<rparr>"

type_synonym mac_result = "(int \<times> tetra_tmvsap_prim \<times> tetra_mac_state) option"

section \<open>Fragment slots\<close>

definition init_fragslot :: "(int \<Rightarrow> u8) \<Rightarrow> fragslot \<Rightarrow> fragslot" where
  "init_fragslot heap fs =
    (let fs = (if frag_msgb fs \<noteq> None then zero_fragslot else fs)
     in fs\<lparr>frag_msgb := Some (msgb_alloc heap FRAGSLOT_MSGB_SIZE)\<rparr>)"

definition cleanup_fragslot :: "fragslot \<Rightarrow> fragslot" where
  "cleanup_fragslot fs = zero_fragslot"

definition age_fragslot :: "fragslot \<Rightarrow> fragslot" where
  "age_fragslot fs =
    (if active fs then
       (let fs = fs\<lparr>age := age fs + 1\<rparr> in if N203 < age fs then cleanup_fragslot fs else fs)
     else fs)"

definition age_fragslots :: "tetra_mac_state \<Rightarrow> tetra_mac_state" where
  "age_fragslots tms =
    tms\<lparr>fragslots := map age_fragslot (take FRAGSLOT_NR_SLOTS (fragslots tms)) @ drop FRAGSLOT_NR_SLOTS (fragslots tms)\<rparr>"

definition get_num_fill_bits :: "(nat \<Rightarrow> u8) \<Rightarrow> int \<Rightarrow> nat" where
  "get_num_fill_bits l1 len_with_fillbits =
    (case find (\<lambda>i. l1 (nat len_with_fillbits - i) = 1) [1..<nat len_with_fillbits] of
       Some i \<Rightarrow> i
     | None \<Rightarrow> 0)"

text \<open>Setting the tail with the length that goes with it.\<close>

definition msg_set_tail :: "msgb \<Rightarrow> int \<Rightarrow> msgb" where
  "msg_set_tail m t = m\<lparr>tail := t, m_len := of_int (t - head m)\<rparr>"

text \<open>The length as the \<open>int\<close> parameters get it.\<close>

definition msg_int_len :: "u32 option \<Rightarrow> int option" where
  "msg_int_len = map_option sint"

definition strip_fill_bits :: "msgb \<Rightarrow> msgb option" where
  "strip_fill_bits m =
    Option.bind (l1h m) (\<lambda>p. Option.bind (msg_int_len (msgb_l1len m)) (\<lambda>n.
      Some (msg_set_tail m (tail m - int (get_num_fill_bits (msgb_at m p) n)))))"

text \<open>
  Appending a fragment: the comparison is between \<open>int\<close> values, and a negative length becomes a huge
  \<open>size_t\<close> in \<open>memcpy\<close>.
\<close>

definition append_frag_bits :: "tetra_mac_state \<Rightarrow> nat \<Rightarrow> (nat \<Rightarrow> u8) \<Rightarrow> int \<Rightarrow> tetra_mac_state option" where
  "append_frag_bits tms slot bits bitlen =
    Option.bind (slot_of tms slot) (\<lambda>fs. Option.bind (frag_msgb fs) (\<lambda>fragmsgb.
      if uint (data_len fragmsgb) < uint (m_len fragmsgb) + bitlen then Some tms
      else
        Option.bind (msgb_put fragmsgb (of_int bitlen)) (\<lambda>(fragmsgb, append_ptr).
        Option.bind (msgb_write fragmsgb append_ptr (nat (bitlen mod 2 ^ 64)) bits) (\<lambda>fragmsgb.
          Some (set_slot tms slot (fs\<lparr>frag_msgb := Some fragmsgb, frag_length := frag_length fs + bitlen,
                  num_frags := num_frags fs + 1, age := 0\<rparr>))))))"

section \<open>Handlers\<close>

definition rx_bcast :: "tetra_crypto_database \<Rightarrow> tetra_tmvsap_prim \<Rightarrow> tetra_mac_state \<Rightarrow> mac_result" where
  "rx_bcast tcdb tmvp tms =
    Option.bind (l1h (msg tmvp)) (\<lambda>p.
      let sid = macpdu_decode_sysinfo zero_si (msgb_at (msg tmvp) p);
          ud = unitdata tmvp;
          tmvp = tmvp\<lparr>unitdata := ud\<lparr>tdma_time := (tdma_time ud)\<lparr>hn := cck_id_or_hyperframe sid\<rparr>\<rparr>\<rparr>;
          dl = tetra_dl_carrier_hz (freq_band sid) (main_carrier sid) (freq_offset sid);
          ul = tetra_ul_carrier_hz (freq_band sid) (main_carrier sid) (freq_offset sid)
                 (duplex_spacing sid) (reverse_operation sid);
          det = (\<lambda>i. bit (bs_service_details (mle_si sid)) i);
          ds = (t_display_st tms)\<lparr>dl_freq := sint dl, ul_freq := sint ul\<rparr>;
          ds = (if cck_valid_no_hf sid \<noteq> 0 then ds else ds\<lparr>curr_hyperframe := uint (cck_id_or_hyperframe sid)\<rparr>);
          ds = ds\<lparr>advanced_link := det 0, air_encryption := det 1, sndcp_data := det 2, circuit_data := det 4,
                 voice_service := det 5, normal_mode := det 6, migration_supported := det 7,
                 never_minimum_mode := det 8, priority_cell := det 9, dereg_mandatory := det 10,
                 reg_mandatory := det 11\<rparr>;
          cs = (tcs tms)\<lparr>c_la := uint (la (mle_si sid)), c_cn := uint (main_carrier sid)\<rparr>;
          cs = (if cck_valid_no_hf sid \<noteq> 0 then
                  (if ucast (cck_id_or_hyperframe sid) \<noteq> c_cck_id cs
                   then update_current_cck tcdb (cs\<lparr>c_cck_id := ucast (cck_id_or_hyperframe sid)\<rparr>) else cs)
                else cs\<lparr>c_hn := uint (cck_id_or_hyperframe sid)\<rparr>)
      in Some (- 1, tmvp, tms\<lparr>t_display_st := ds, last_sid := sid, tcs := cs\<rparr>))"

text \<open>The start of a message in a slot: the old contents go, and the SDU is copied behind the header.\<close>

definition start_fragments ::
  "(int \<Rightarrow> u8) \<Rightarrow> tetra_mac_state \<Rightarrow> nat \<Rightarrow> msgb \<Rightarrow> int \<Rightarrow> bool \<Rightarrow> nat option \<Rightarrow> tetra_mac_state option" where
  "start_fragments heap tms slot m tmpdu_offset enc k =
    Option.bind (slot_of tms slot) (\<lambda>fs.
    Option.bind (msgb_l1len m) (\<lambda>l1len. Option.bind (msgb_l2len m) (\<lambda>l2len. Option.bind (l2h m) (\<lambda>l2.
      let fs = (if active fs then cleanup_fragslot fs else fs);
          fs = init_fragslot heap fs
      in Option.bind (frag_msgb fs) (\<lambda>fragmsgb. Option.bind (msgb_put fragmsgb l1len) (\<lambda>(fragmsgb, p).
         let fragmsgb = fragmsgb\<lparr>l1h := Some p, l2h := Some (p + tmpdu_offset), l3h := None\<rparr>
         in Option.bind (msgb_write fragmsgb (p + tmpdu_offset) (unat l2len) (msgb_at m l2)) (\<lambda>fragmsgb.
              Some (set_slot tms slot (fs\<lparr>frag_msgb := Some fragmsgb, active := True, num_frags := 1,
                      frag_length := sint l2len, encryption := enc, frag_key := k\<rparr>)))))))))"

text \<open>The end of the PDU as its length says, and the number of bits to report.\<close>

definition resource_extent :: "msgb \<Rightarrow> int \<Rightarrow> int \<times> msgb" where
  "resource_extent m macpdu_len =
    (if macpdu_len = MACPDU_LEN_2ND_STOLEN \<or> macpdu_len = MACPDU_LEN_START_FRAG then (- 1, m)
     else (macpdu_len * 8, msg_set_tail m (head m + macpdu_len * 8)))"

text \<open>Decryption when there are keys: the header, its length, the key and the primitive.\<close>

definition decrypt_resource ::
  "bool \<Rightarrow> tetra_crypto_database \<Rightarrow> tetra_crypto_state \<Rightarrow> tetra_tmvsap_prim \<Rightarrow> tetra_resrc_decoded \<Rightarrow> int
    \<Rightarrow> (tetra_resrc_decoded \<times> int \<times> nat option \<times> tetra_tmvsap_prim) option" where
  "decrypt_resource ndebug tcdb cs tmvp rsd off =
    (if is_encrypted rsd \<noteq> 0 \<and> num_keys tcdb \<noteq> 0 then
       (case get_ksg_key cs (sint (ssi (rs_addr rsd))) of
          None \<Rightarrow> Some (rsd, off, None, tmvp)
        | Some k \<Rightarrow>
            Option.bind (l1h (msg tmvp)) (\<lambda>p. Option.bind (msg_int_len (msgb_l1len (msg tmvp))) (\<lambda>l1len.
            Option.bind (decrypt_mac_element ndebug tcdb cs tmvp (Some k) l1len off) (\<lambda>(ok, tmvp).
              let rsd = rsd\<lparr>is_encrypted := if ok then 0 else 1\<rparr>
              in if chan_alloc_pres rsd \<noteq> 0 then
                   (let (cd, n) = macpdu_decode_chan_alloc (cad rsd) (msgb_at (msg tmvp) (p + off))
                    in Some (rsd\<lparr>cad := cd\<rparr>, off + int n, Some k, tmvp))
                 else Some (rsd, off, Some k, tmvp)))))
     else Some (rsd, off, None, tmvp))"

definition rx_resrc ::
  "bool \<Rightarrow> tetra_crypto_database \<Rightarrow> (int \<Rightarrow> u8) \<Rightarrow> tetra_tmvsap_prim \<Rightarrow> tetra_mac_state \<Rightarrow> mac_result" where
  "rx_resrc ndebug tcdb heap tmvp tms =
    Option.bind (l1h (msg tmvp)) (\<lambda>p.
      let (rsd, off) = macpdu_decode_resource zero_rsd (msgb_at (msg tmvp) p) 0;
          tms = (if macpdu_length rsd = MACPDU_LEN_2ND_STOLEN then tms\<lparr>blk2_stolen := True\<rparr> else tms);
          (pdu_bits, m) = resource_extent (msg tmvp) (macpdu_length rsd)
      in Option.bind (if fill_bits rsd \<noteq> 0 then strip_fill_bits m else Some m) (\<lambda>m.
         Option.bind (decrypt_resource ndebug tcdb (tcs tms) (tmvp\<lparr>msg := m\<rparr>) rsd off) (\<lambda>(rsd, off, k, tmvp).
           let m = (msg tmvp)\<lparr>l2h := Some (p + off)\<rparr>;
               tmvp = tmvp\<lparr>msg := m\<rparr>
           in if a_type (rs_addr rsd) = ADDR_TYPE_NULL then Some (- 1, tmvp, tms)
              else
                let tms = tms\<lparr>tms_ssi := sint (ssi (rs_addr rsd)), tms_usage_marker := uint (usage_marker (rs_addr rsd)),
                            addr_type := uint (a_type (rs_addr rsd))\<rparr>
                in if msgb_l2len m = Some 0 \<or> is_encrypted rsd \<noteq> 0 \<or> macpdu_length rsd \<noteq> MACPDU_LEN_START_FRAG
                   then Some (pdu_bits, tmvp, tms)
                   else Option.bind (start_fragments heap tms (unat (tn (tdma_time (unitdata tmvp)))) m off
                                       (0 < encryption_mode rsd) k) (\<lambda>tms.
                          Some (pdu_bits, tmvp, tms)))))"

text \<open>Decryption of a fragment in a slot that carries an encrypted message with a key.\<close>

definition decrypt_fragment ::
  "bool \<Rightarrow> tetra_crypto_database \<Rightarrow> tetra_crypto_state \<Rightarrow> tetra_tmvsap_prim \<Rightarrow> fragslot \<Rightarrow> int \<Rightarrow> tetra_tmvsap_prim option" where
  "decrypt_fragment ndebug tcdb cs tmvp fs n =
    (if encryption fs \<and> frag_key fs \<noteq> None then
       Option.bind (msg_int_len (msgb_l1len (msg tmvp))) (\<lambda>l1len.
         map_option snd (decrypt_mac_element ndebug tcdb cs tmvp (frag_key fs) l1len n))
     else Some tmvp)"

text \<open>The layer 2 part from offset \<open>n\<close> on goes to the slot's buffer.\<close>

definition append_l2 :: "tetra_tmvsap_prim \<Rightarrow> tetra_mac_state \<Rightarrow> nat \<Rightarrow> int \<Rightarrow> (tetra_tmvsap_prim \<times> tetra_mac_state) option" where
  "append_l2 tmvp tms slot n =
    Option.bind (l1h (msg tmvp)) (\<lambda>p.
      let m = (msg tmvp)\<lparr>l2h := Some (p + n)\<rparr>
      in Option.bind (msg_int_len (msgb_l2len m)) (\<lambda>l2len.
           map_option (\<lambda>tms. (tmvp\<lparr>msg := m\<rparr>, tms)) (append_frag_bits tms slot (msgb_at m (p + n)) l2len)))"

definition rx_macfrag ::
  "bool \<Rightarrow> tetra_crypto_database \<Rightarrow> tetra_tmvsap_prim \<Rightarrow> tetra_mac_state \<Rightarrow> mac_result" where
  "rx_macfrag ndebug tcdb tmvp tms =
    (let slot = unat (tn (tdma_time (unitdata tmvp)))
     in Option.bind (slot_of tms slot) (\<lambda>fs.
          if \<not> active fs then Some (- 1, tmvp, tms)
          else
            Option.bind (l1h (msg tmvp)) (\<lambda>p.
              let n = 4;
                  fillbits_present = (fld (msgb_at (msg tmvp) p) 3 1 :: u8);
                  m = (msg tmvp)\<lparr>l2h := Some (p + n)\<rparr>
              in Option.bind (if fillbits_present \<noteq> 0 then strip_fill_bits m else Some m) (\<lambda>m.
                 Option.bind (decrypt_fragment ndebug tcdb (tcs tms) (tmvp\<lparr>msg := m\<rparr>) fs n) (\<lambda>tmvp.
                 map_option (\<lambda>(tmvp, tms). (- 1, tmvp, tms)) (append_l2 tmvp tms slot n))))))"

definition rx_macend ::
  "bool \<Rightarrow> tetra_crypto_database \<Rightarrow> tetra_tmvsap_prim \<Rightarrow> tetra_mac_state \<Rightarrow> mac_result" where
  "rx_macend ndebug tcdb tmvp tms =
    (let slot = unat (tn (tdma_time (unitdata tmvp)))
     in Option.bind (l1h (msg tmvp)) (\<lambda>p. Option.bind (slot_of tms slot) (\<lambda>fs.
          let bits = msgb_at (msg tmvp) p;
              fillbits_present = (fld bits 3 1 :: u8);
              length_indicator = (fld bits 5 6 :: u8);
              pdu_bits = uint length_indicator * 8
          in if \<not> active fs then Some (pdu_bits, tmvp, set_slot tms slot (cleanup_fragslot fs))
             else
               let n = (if (fld bits 11 1 :: u8) \<noteq> 0 then 12 + 8 else 12);
                   chanalloc_present = (fld bits n 1 :: u8);
                   n = n + 1;
                   m = msg_set_tail (msg tmvp) (head (msg tmvp) + pdu_bits)
               in Option.bind (if fillbits_present \<noteq> 0 then strip_fill_bits m else Some m) (\<lambda>m.
                  Option.bind (decrypt_fragment ndebug tcdb (tcs tms) (tmvp\<lparr>msg := m\<rparr>) fs (int n)) (\<lambda>tmvp.
                    let n = (if chanalloc_present \<noteq> 0
                             then n + snd (macpdu_decode_chan_alloc zero_cad (msgb_at (msg tmvp) (p + int n))) else n)
                    in Option.bind (append_l2 tmvp tms slot (int n)) (\<lambda>(tmvp, tms).
                         Some (pdu_bits, tmvp, set_slot tms slot (cleanup_fragslot (fragslots tms ! slot)))))))))"

definition rx_suppl :: "tetra_tmvsap_prim \<Rightarrow> tetra_mac_state \<Rightarrow> mac_result" where
  "rx_suppl tmvp tms =
    Option.bind (l1h (msg tmvp)) (\<lambda>p.
      let slot_granting = msgb_at (msg tmvp) p 17;
          tmpdu_offset = (if slot_granting \<noteq> 0 then 17 + 1 + 8 else 17 + 1)
      in Some (- 1, tmvp\<lparr>msg := (msg tmvp)\<lparr>l2h := Some (p + tmpdu_offset)\<rparr>\<rparr>, tms))"

definition rx_aach :: "tetra_tmvsap_prim \<Rightarrow> tetra_mac_state \<Rightarrow> tetra_mac_state option" where
  "rx_aach tmvp tms =
    Option.bind (l1h (msg tmvp)) (\<lambda>p.
      let aad = macpdu_decode_access_assign zero_aad (msgb_at (msg tmvp) p) (fn (tdma_time (unitdata tmvp)) = 18);
          present = (\<lambda>flag. aa_pres aad AND flag \<noteq> 0);
          ds = t_display_st tms;
          ds = (if present TETRA_ACC_ASS_PRES_ACCESS1 then
                  ds\<lparr>access1_code := 65 + access_code (aa_access1 aad), access1 := uint (base_frame_len (aa_access1 aad))\<rparr>
                else ds);
          ds = (if present TETRA_ACC_ASS_PRES_ACCESS2 then
                  ds\<lparr>access2_code := 65 + access_code (aa_access2 aad), access2 := uint (base_frame_len (aa_access2 aad))\<rparr>
                else ds);
          ds = (if present TETRA_ACC_ASS_PRES_DL_USAGE then ds\<lparr>dl_usage := uint (aa_dl_usage aad)\<rparr> else ds);
          ds = (if present TETRA_ACC_ASS_PRES_UL_USAGE then ds\<lparr>ul_usage := uint (aa_ul_usage aad)\<rparr> else ds)
      in Some (tms\<lparr>t_display_st := ds, is_traffic := if 3 < aa_dl_usage aad then uint (aa_dl_usage aad) else 0,
                 blk1_stolen := False, blk2_stolen := False\<rparr>))"

definition rx_tmv_unitdata_ind ::
  "bool \<Rightarrow> tetra_crypto_database \<Rightarrow> (int \<Rightarrow> u8) \<Rightarrow> tetra_tmvsap_prim \<Rightarrow> tetra_mac_state \<Rightarrow> mac_result" where
  "rx_tmv_unitdata_ind ndebug tcdb heap tmvp tms =
    Option.bind (l1h (msg tmvp)) (\<lambda>p.
      let bits = msgb_at (msg tmvp) p;
          pdu_type = (fld bits 0 2 :: u8)
      in if crc_ok (unitdata tmvp) = 0 then Some (- 1, tmvp, tms)
         else
           let tms = (if fn (tdma_time (unitdata tmvp)) = 18 then age_fragslots tms else tms)
           in case lchan (unitdata tmvp) of
                TETRA_LC_AACH \<Rightarrow> map_option (\<lambda>tms. (- 1, tmvp, tms)) (rx_aach tmvp tms)
              | lc \<Rightarrow>
                  if lc = TETRA_LC_BNCH \<or> lc = TETRA_LC_UNKNOWN \<or> lc = TETRA_LC_SCH_F then
                    (if pdu_type = 2 then rx_bcast tcdb tmvp tms
                     else if pdu_type = 0 then rx_resrc ndebug tcdb heap tmvp tms
                     else if pdu_type = 3 then rx_suppl tmvp tms
                     else if bits 2 = 0 then rx_macfrag ndebug tcdb tmvp tms
                     else rx_macend ndebug tcdb tmvp tms)
                  else Some (- 1, tmvp, tms))"

definition upper_mac_prim_recv ::
  "bool \<Rightarrow> tetra_crypto_database \<Rightarrow> (int \<Rightarrow> u8) \<Rightarrow> tetra_tmvsap_prim \<Rightarrow> tetra_mac_state \<Rightarrow> mac_result" where
  "upper_mac_prim_recv ndebug tcdb heap tmvp tms =
    (if sap tmvp = TETRA_SAP_TMV then rx_tmv_unitdata_ind ndebug tcdb heap tmvp tms else Some (- 1, tmvp, tms))"

end
