(* ===== verification/Reassembly.thy ===== *)
theory Reassembly
  imports UpperMac
begin

text \<open>
  The correctness of the upper MAC's fragment slots (\<open>UpperMac\<close>): a well-formedness invariant that every
  primitive keeps, what a slot has collected after the start of a message and its fragments, how a
  slot ages, which padding is stripped, and the short PDUs whose negative lengths leave the buffers.
\<close>

section \<open>Slots and messages\<close>

text \<open>A slot in use holds a buffer of 8192 bytes filled up to its tail.\<close>

definition frag_buffer_ok :: "msgb \<Rightarrow> bool" where
  "frag_buffer_ok m \<longleftrightarrow> data_len m = FRAGSLOT_MSGB_SIZE \<and> head m = 0 \<and> m_len m \<le> FRAGSLOT_MSGB_SIZE \<and> tail m = uint (m_len m)"

definition fragslot_ok :: "fragslot \<Rightarrow> bool" where
  "fragslot_ok fs \<longleftrightarrow> (active fs \<longrightarrow> (\<exists>m. frag_msgb fs = Some m \<and> frag_buffer_ok m))"

definition mac_ok :: "tetra_mac_state \<Rightarrow> bool" where
  "mac_ok tms \<longleftrightarrow> length (fragslots tms) = FRAGSLOT_NR_SLOTS \<and> (\<forall>fs \<in> set (fragslots tms). fragslot_ok fs)"

lemma fragslot_ok_zero [simp]: "fragslot_ok zero_fragslot"
  by (simp add: fragslot_ok_def zero_fragslot_def)

lemma mac_ok_slots [simp]: "fragslots tms' = fragslots tms \<Longrightarrow> mac_ok tms \<Longrightarrow> mac_ok tms'"
  by (simp add: mac_ok_def)

lemma mac_ok_set_slot: "mac_ok tms \<Longrightarrow> fragslot_ok fs \<Longrightarrow> mac_ok (set_slot tms i fs)"
  by (auto simp: mac_ok_def set_slot_def dest: set_update_subset_insert [THEN subsetD])

lemma mac_ok_slot: "mac_ok tms \<Longrightarrow> slot_of tms i = Some fs \<Longrightarrow> fragslot_ok fs"
  by (auto simp: mac_ok_def slot_of_def split: if_splits)

lemma fragslot_ok_age: "fragslot_ok fs \<Longrightarrow> fragslot_ok (age_fragslot fs)"
  by (simp add: age_fragslot_def fragslot_ok_def cleanup_fragslot_def zero_fragslot_def Let_def)

lemma mac_ok_age: "mac_ok tms \<Longrightarrow> mac_ok (age_fragslots tms)"
  by (auto simp: mac_ok_def age_fragslots_def dest!: in_set_takeD in_set_dropD intro: fragslot_ok_age)

text \<open>A message whose tail is near its layer 1 pointer, as all the offsets of a slot are.\<close>

definition msg_near :: "msgb \<Rightarrow> bool" where
  "msg_near m \<longleftrightarrow> (\<exists>p. l1h m = Some p \<and> head m = p \<and> \<bar>tail m - p\<bar> < 10000)"

lemma l1len_near: "l1h m = Some p \<Longrightarrow> \<bar>tail m - p\<bar> < 2147483648 \<Longrightarrow> msg_int_len (msgb_l1len m) = Some (tail m - p)"
  using sint_of_small [of "tail m - p"] by (simp add: msg_int_len_def msgb_l1len_def del: of_int_diff)

lemma l2len_near: "l2h m = Some p \<Longrightarrow> \<bar>tail m - p\<bar> < 2147483648 \<Longrightarrow> msg_int_len (msgb_l2len m) = Some (tail m - p)"
  using sint_of_small [of "tail m - p"] by (simp add: msg_int_len_def msgb_l2len_def del: of_int_diff)

lemma num_fill_bits_less: "get_num_fill_bits l1 n = 0 \<or> int (get_num_fill_bits l1 n) < n"
  by (auto simp: get_num_fill_bits_def find_Some_iff nth_upt split: option.split)

text \<open>What is stripped is a bit 1 followed by zeros up to the end.\<close>

lemma num_fill_bits_spec:
  assumes "get_num_fill_bits l1 n = k" "0 < k"
  shows "int k < n" "l1 (nat n - k) = 1" "\<And>i. nat n - k < i \<Longrightarrow> i < nat n \<Longrightarrow> l1 i \<noteq> 1"
proof -
  have f: "find (\<lambda>i. l1 (nat n - i) = 1) [1..<nat n] = Some k"
    using assms by (auto simp: get_num_fill_bits_def split: option.splits)
  then obtain j where j: "j < nat n - 1" "k = 1 + j" "l1 (nat n - k) = 1" "\<forall>i<j. l1 (nat n - (1 + i)) \<noteq> 1"
    by (auto simp: find_Some_iff nth_upt)
  then show "int k < n" "l1 (nat n - k) = 1" by simp_all
  fix i assume i: "nat n - k < i" "i < nat n"
  then have "nat n - 1 - i < j" "nat n - (1 + (nat n - 1 - i)) = i" using j by simp_all
  with j(4) show "l1 i \<noteq> 1" by metis
qed

text \<open>Decryption changes nothing of a primitive but the bytes of its message.\<close>

definition same_but_bytes :: "tetra_tmvsap_prim \<Rightarrow> tetra_tmvsap_prim \<Rightarrow> bool" where
  "same_but_bytes a b \<longleftrightarrow> unitdata b = unitdata a \<and> sap b = sap a \<and> (msg b)\<lparr>mem := mem (msg a)\<rparr> = msg a"

lemma same_but_bytes_refl [simp]: "same_but_bytes a a"
  by (simp add: same_but_bytes_def)

lemma same_but_bytes_fields:
  assumes "same_but_bytes a b"
  shows "unitdata b = unitdata a" "sap b = sap a" "l1h (msg b) = l1h (msg a)" "l2h (msg b) = l2h (msg a)"
    "head (msg b) = head (msg a)" "tail (msg b) = tail (msg a)" "data_len (msg b) = data_len (msg a)"
proof -
  have m: "msg a = (msg b)\<lparr>mem := mem (msg a)\<rparr>" and u: "unitdata b = unitdata a" "sap b = sap a"
    using assms by (simp_all add: same_but_bytes_def)
  show "unitdata b = unitdata a" "sap b = sap a" by (rule u)+
  show "l1h (msg b) = l1h (msg a)" "l2h (msg b) = l2h (msg a)" "head (msg b) = head (msg a)"
    "tail (msg b) = tail (msg a)" "data_len (msg b) = data_len (msg a)"
    by (subst m, simp)+
qed

lemma msgb_write_Some:
  "msgb_write m p n src = Some m' \<Longrightarrow>
    m'\<lparr>mem := mem m\<rparr> = m \<and> (n = 0 \<or> 0 \<le> p \<and> p + int n \<le> int (unat (data_len m))) \<and>
    mem m' = (\<lambda>i. if p \<le> i \<and> i < p + int n then src (nat (i - p)) else mem m i)"
  by (auto simp: msgb_write_def split: if_split_asm)

lemma decrypt_keeps:
  assumes "decrypt_mac_element ndebug tcdb cs tmvp k l off = Some (ok, tmvp')"
  shows "same_but_bytes tmvp tmvp'"
proof -
  have w: "same_but_bytes tmvp (tmvp\<lparr>msg := m'\<rparr>)" if "msgb_write (msg tmvp) p n src = Some m'" for p n src m'
    using msgb_write_Some [OF that] by (simp add: same_but_bytes_def)
  show ?thesis
    using assms unfolding decrypt_mac_element_def Let_def
    by (auto simp: bind_eq_Some_conv split: if_split_asm option.split_asm dest!: w)
qed

lemma decrypt_fragment_keeps:
  assumes "decrypt_fragment ndebug tcdb cs tmvp fs n = Some tmvp'"
  shows "same_but_bytes tmvp tmvp'"
  using assms decrypt_keeps by (fastforce simp: decrypt_fragment_def bind_eq_Some_conv split: if_split_asm)

lemma decrypt_resource_keeps:
  assumes "decrypt_resource ndebug tcdb cs tmvp rsd off = Some (rsd', off', k, tmvp')"
  shows "same_but_bytes tmvp tmvp' \<and> macpdu_length rsd' = macpdu_length rsd \<and> rs_addr rsd' = rs_addr rsd \<and>
    off \<le> off' \<and> off' \<le> off + 115"
proof (cases "is_encrypted rsd \<noteq> 0 \<and> num_keys tcdb \<noteq> 0 \<and> get_ksg_key cs (sint (ssi (rs_addr rsd))) \<noteq> None")
  case False
  then show ?thesis using assms by (auto simp: decrypt_resource_def split: if_split_asm option.split_asm)
next
  case True
  then obtain k0 where k0: "get_ksg_key cs (sint (ssi (rs_addr rsd))) = Some k0" by auto
  note eq = assms [unfolded decrypt_resource_def Let_def]
  from eq True k0 obtain p l ok tmvp1 where p: "l1h (msg tmvp) = Some p"
    and d: "decrypt_mac_element ndebug tcdb cs tmvp (Some k0) l off = Some (ok, tmvp1)"
    and r: "(if chan_alloc_pres (rsd\<lparr>is_encrypted := if ok then 0 else 1\<rparr>) \<noteq> 0
      then case macpdu_decode_chan_alloc (cad (rsd\<lparr>is_encrypted := if ok then 0 else 1\<rparr>)) (msgb_at (msg tmvp1) (p + off)) of
             (cd, n) \<Rightarrow> Some (rsd\<lparr>is_encrypted := if ok then 0 else 1, cad := cd\<rparr>, off + int n, Some k0, tmvp1)
      else Some (rsd\<lparr>is_encrypted := if ok then 0 else 1\<rparr>, off, Some k0, tmvp1)) = Some (rsd', off', k, tmvp')"
    by (auto simp: bind_eq_Some_conv simp del: tetra_resrc_decoded.simps)
  have "snd (macpdu_decode_chan_alloc cd b) \<le> 115" for cd b using chan_alloc_length [of cd b] by simp
  then show ?thesis
    using r decrypt_keeps [OF d] by (auto split: if_split_asm prod.split_asm simp: prod_eq_iff)
qed


section \<open>Appending\<close>

lemma frag_tailroom:
  assumes "frag_buffer_ok m"
  shows "sint (msgb_tailroom m) = 8192 - uint (m_len m)" "0 \<le> uint (m_len m)" "uint (m_len m) \<le> 8192"
proof -
  have l: "uint (m_len m) \<le> 8192" using assms by (simp add: frag_buffer_ok_def word_le_def FRAGSLOT_MSGB_SIZE_def)
  then show "0 \<le> uint (m_len m)" "uint (m_len m) \<le> 8192" by simp_all
  have "- 2147483648 \<le> 8192 - uint (m_len m)" "8192 - uint (m_len m) < 2147483648"
    using l uint_ge_0 [of "m_len m"] by linarith+
  then have "sint (of_int (8192 - uint (m_len m)) :: u32) = 8192 - uint (m_len m)" by (rule sint_of_small)
  then show "sint (msgb_tailroom m) = 8192 - uint (m_len m)"
    using assms by (simp add: msgb_tailroom_def frag_buffer_ok_def FRAGSLOT_MSGB_SIZE_def del: of_int_diff)
qed

lemma frag_put:
  assumes m: "frag_buffer_ok m" and n: "- 2147483648 \<le> n" "n \<le> 8192 - uint (m_len m)"
  shows "msgb_put m (of_int n) =
    Some (m\<lparr>tail := uint (m_len m) + uint (of_int n :: u32), m_len := m_len m + of_int n\<rparr>, uint (m_len m))"
proof -
  have "sint (of_int n :: u32) = n" using n uint_ge_0 [of "m_len m"] by (intro sint_of_small) linarith+
  moreover have "(ucast (of_int n :: u32) :: u16) = of_int n"
    by (rule bit_word_eqI) (simp add: bit_ucast_iff bit_word_of_int_iff)
  ultimately show ?thesis
    using m n by (simp add: msgb_put_def frag_tailroom(1) [OF m] frag_buffer_ok_def)
qed

lemma append_negative:
  assumes "slot_of tms i = Some fs" "active fs" "fragslot_ok fs" "n < 0" "- 2147483648 \<le> n"
  shows "append_frag_bits tms i bits n = None"
proof -
  obtain m where m: "frag_msgb fs = Some m" "frag_buffer_ok m" using assms(2,3) by (auto simp: fragslot_ok_def)
  note l = frag_tailroom(2,3) [OF m(2)]
  have "n mod 2 ^ 64 = n + 2 ^ 64" using assms(4,5) by (subst mod_add_self2 [symmetric], subst mod_pos_pos_trivial) simp_all
  then have "8192 < int (nat (n mod 2 ^ 64))" using assms(5) by simp
  then have w: "msgb_write (m\<lparr>tail := t, m_len := k\<rparr>) (uint (m_len m)) (nat (n mod 2 ^ 64)) bits = None" for t k
  proof -
    have "\<not> uint (m_len m) + int (nat (n mod 2 ^ 64)) \<le> 8192" "nat (n mod 2 ^ 64) \<noteq> 0"
      using \<open>8192 < int (nat (n mod 2 ^ 64))\<close> uint_ge_0 [of "m_len m"] by linarith+
    then show ?thesis using m(2) unfolding msgb_write_def frag_buffer_ok_def FRAGSLOT_MSGB_SIZE_def
      by (simp del: int_nat_eq)
  qed
  have "\<not> uint (data_len m) < uint (m_len m) + n"
    using m(2) l assms(4) by (simp add: frag_buffer_ok_def FRAGSLOT_MSGB_SIZE_def)
  then show ?thesis
    using frag_put [OF m(2) assms(5)] l assms(1,4) m(1) w by (simp add: append_frag_bits_def)
qed

lemma append_full:
  assumes "slot_of tms i = Some fs" "frag_msgb fs = Some m" "frag_buffer_ok m" "8192 < uint (m_len m) + n"
  shows "append_frag_bits tms i bits n = Some tms"
  using assms by (simp add: append_frag_bits_def frag_buffer_ok_def FRAGSLOT_MSGB_SIZE_def)

text \<open>The buffer with \<open>n\<close> more bytes at its end.\<close>

definition extended :: "msgb \<Rightarrow> nat \<Rightarrow> (nat \<Rightarrow> u8) \<Rightarrow> msgb" where
  "extended m n bits = m\<lparr>tail := tail m + int n, m_len := m_len m + of_nat n,
     mem := (\<lambda>i. if tail m \<le> i \<and> i < tail m + int n then bits (nat (i - tail m)) else mem m i)\<rparr>"

lemma extended_ok:
  assumes "frag_buffer_ok m" "uint (m_len m) + int n \<le> 8192"
  shows "frag_buffer_ok (extended m n bits)"
proof -
  have "unat (m_len m) + n \<le> 8192" using assms(2) by (simp only: uint_nat of_nat_add [symmetric] of_nat_numeral [symmetric, where 'a = int] of_nat_le_iff)
  then have "unat (m_len m + of_nat n) = unat (m_len m) + n" by (simp add: unat_word_ariths unat_of_nat)
  then have u: "uint (m_len m + of_nat n) = uint (m_len m) + int n" by (metis of_nat_add uint_nat)
  then show ?thesis
    using assms by (simp add: frag_buffer_ok_def extended_def FRAGSLOT_MSGB_SIZE_def word_le_def)
qed

lemma append_fits:
  assumes "slot_of tms i = Some fs" "frag_msgb fs = Some m" "frag_buffer_ok m" "uint (m_len m) + int n \<le> 8192"
  shows "append_frag_bits tms i bits (int n) =
    Some (set_slot tms i (fs\<lparr>frag_msgb := Some (extended m n bits), frag_length := frag_length fs + int n,
            num_frags := num_frags fs + 1, age := 0\<rparr>))"
proof -
  have l: "0 \<le> uint (m_len m)" "tail m = uint (m_len m)" "data_len m = 8192"
    using frag_tailroom(2) [OF assms(3)] assms(3) by (simp_all add: frag_buffer_ok_def FRAGSLOT_MSGB_SIZE_def)
  have n: "int n \<le> 8192" using l(1) assms(4) by linarith
  have "uint (of_int (int n) :: u32) = int n"
  proof -
    have "unat (of_nat n :: u32) = n" using n by (intro unat_of_nat_lt) simp
    then show ?thesis by (metis of_int_of_nat_eq uint_nat)
  qed
  moreover have k: "nat (int n mod 2 ^ 64) = n" using n by simp
  ultimately show ?thesis
    using frag_put [of m "int n"] assms l
    unfolding append_frag_bits_def k by (simp add: msgb_write_def extended_def cong: if_cong)
qed

lemma append_mac_ok:
  assumes ok: "mac_ok tms" and fs: "slot_of tms i = Some fs" "active fs"
    and n: "- 2147483648 \<le> n" and r: "append_frag_bits tms i bits n = Some tms'"
  shows "mac_ok tms'"
proof -
  have f: "fragslot_ok fs" by (rule mac_ok_slot [OF ok fs(1)])
  then obtain m where m: "frag_msgb fs = Some m" "frag_buffer_ok m" using fs(2) by (auto simp: fragslot_ok_def)
  consider "n < 0" | "8192 < uint (m_len m) + n" | "0 \<le> n" "uint (m_len m) + n \<le> 8192" by linarith
  then show ?thesis
  proof cases
    case 1
    then show ?thesis using append_negative [OF fs f _ n] r by simp
  next
    case 2
    then show ?thesis using append_full [OF fs(1) m] r ok by simp
  next
    case 3
    then have "tms' = set_slot tms i (fs\<lparr>frag_msgb := Some (extended m (nat n) bits),
        frag_length := frag_length fs + n, num_frags := num_frags fs + 1, age := 0\<rparr>)"
      using append_fits [OF fs(1) m, of "nat n" bits] r by simp
    then show ?thesis
      using ok extended_ok [OF m(2), of "nat n" bits] 3 by (simp add: mac_ok_set_slot fragslot_ok_def)
  qed
qed


section \<open>Starting a message\<close>

definition started :: "(int \<Rightarrow> u8) \<Rightarrow> nat \<Rightarrow> nat \<Rightarrow> (nat \<Rightarrow> u8) \<Rightarrow> msgb" where
  "started heap n off bits = (msgb_alloc heap FRAGSLOT_MSGB_SIZE)\<lparr>tail := int n, m_len := of_nat n,
     l1h := Some 0, l2h := Some (int off),
     mem := (\<lambda>i. if int off \<le> i \<and> i < int n then bits (nat (i - int off))
                 else mem (msgb_alloc heap FRAGSLOT_MSGB_SIZE) i)\<rparr>"

lemma fresh_buffer_ok: "frag_buffer_ok (msgb_alloc heap FRAGSLOT_MSGB_SIZE)"
  by (simp add: frag_buffer_ok_def msgb_alloc_def msgb_alloc_c_def)

lemma fresh_buffer_len: "uint (m_len (msgb_alloc heap sz)) = 0" "l3h (msgb_alloc heap sz) = None"
  "data_len (msgb_alloc heap sz) = sz"
  by (simp_all add: msgb_alloc_def msgb_alloc_c_def)

lemma started_ok: "n \<le> 8192 \<Longrightarrow> frag_buffer_ok (started heap n off bits)"
proof -
  assume n: "n \<le> 8192"
  then have "unat (of_nat n :: u16) = n" by (intro unat_of_nat_lt) simp
  then have "uint (of_nat n :: u16) = int n" by (metis uint_nat)
  then show ?thesis
    using n by (simp add: frag_buffer_ok_def started_def msgb_alloc_def msgb_alloc_c_def FRAGSLOT_MSGB_SIZE_def word_le_def)
qed

lemma uint_of_int_small: "0 \<le> n \<Longrightarrow> n < 4294967296 \<Longrightarrow> uint (of_int n :: u32) = n"
  by (simp add: unsigned_of_int take_bit_int_eq_self)

lemma unat_of_int_small: "0 \<le> n \<Longrightarrow> n < 4294967296 \<Longrightarrow> unat (of_int n :: u32) = nat n"
  using uint_of_int_small [of n] by (metis nat_int uint_nat)

lemma unat_of_int_negative: "n < 0 \<Longrightarrow> - 2147483648 \<le> n \<Longrightarrow> unat (of_int n :: u32) = nat (n + 4294967296)"
proof -
  assume n: "n < 0" "- 2147483648 \<le> n"
  have "(of_int (n + 4294967296) :: u32) = of_int n" by simp
  moreover have "unat (of_int (n + 4294967296) :: u32) = nat (n + 4294967296)"
    using n by (intro unat_of_int_small) simp_all
  ultimately show ?thesis by (simp only:)
qed

lemma start_fragments_ok:
  assumes fs: "slot_of tms i = Some fs"
    and m: "l1h m = Some p" "l2h m = Some (p + int off)" "tail m = p + int n" "off \<le> n" "n \<le> 8192"
  shows "start_fragments heap tms i m (int off) enc k =
    Some (set_slot tms i ((if active fs \<or> frag_msgb fs \<noteq> None then zero_fragslot else fs)
      \<lparr>frag_msgb := Some (started heap n off (msgb_at m (p + int off))), active := True, num_frags := 1,
       frag_length := int (n - off), encryption := enc, frag_key := k\<rparr>))"
proof -
  let ?b = "msgb_alloc heap FRAGSLOT_MSGB_SIZE"
  have put: "msgb_put ?b (of_int (int n)) = Some (?b\<lparr>tail := int n, m_len := of_nat n\<rparr>, 0)"
  proof -
    have "m_len ?b = 0" "uint (of_int (int n) :: u32) = int n"
      using m(5) by (simp add: msgb_alloc_def msgb_alloc_c_def, intro uint_of_int_small) simp_all
    then show ?thesis using frag_put [OF fresh_buffer_ok, of "int n" heap] m(5) by simp
  qed
  define L1 L2 :: u32 where "L1 = of_int (int n)" and "L2 = of_int (int (n - off))"
  have l1: "msgb_l1len m = Some L1" using m by (simp add: msgb_l1len_def L1_def)
  have l2: "msgb_l2len m = Some L2" using m by (simp add: msgb_l2len_def L2_def of_nat_diff)
  have u: "unat L2 = n - off" unfolding L2_def using m by (subst unat_of_int_small) simp_all
  have si: "sint L2 = int (n - off)" unfolding L2_def using m by (intro sint_of_small) simp_all
  have w: "msgb_write (?b\<lparr>tail := int n, m_len := of_nat n, l1h := Some 0, l2h := Some (int off)\<rparr>) (int off) (n - off)
      (msgb_at m (p + int off)) = Some (started heap n off (msgb_at m (p + int off)))"
    using m by (simp add: msgb_write_def started_def fresh_buffer_len FRAGSLOT_MSGB_SIZE_def of_nat_diff cong: if_cong)
  have l3: "?b\<lparr>tail := t, m_len := q, l1h := x, l2h := y, l3h := None\<rparr> = ?b\<lparr>tail := t, m_len := q, l1h := x, l2h := y\<rparr>"
    for t q x y by (simp add: msgb_alloc_def msgb_alloc_c_def)
  have slot: "init_fragslot heap (if active fs then cleanup_fragslot fs else fs) =
      (if active fs \<or> frag_msgb fs \<noteq> None then zero_fragslot else fs)\<lparr>frag_msgb := Some ?b\<rparr>"
    by (auto simp: init_fragslot_def cleanup_fragslot_def zero_fragslot_def)
  show ?thesis
    unfolding start_fragments_def fs l1 l2 m(2) Option.bind.bind_lunit Let_def slot
    by (simp add: put [folded L1_def] u si l3 w)
qed


lemma msgb_put_keeps: "msgb_put m n = Some (m', p) \<Longrightarrow> data_len m' = data_len m \<and> p = tail m"
  by (auto simp: msgb_put_def split: if_split_asm)

lemma start_fragments_negative:
  assumes m: "l1h m = Some p" "l2h m = Some (p + off)" "tail m < p + off" "- 20000 < tail m - p" "0 \<le> off" "off \<le> 300"
  shows "start_fragments heap tms i m off enc k = None"
proof (cases "slot_of tms i")
  case (Some fs)
  let ?b = "msgb_alloc heap FRAGSLOT_MSGB_SIZE"
  define L1 L2 :: u32 where "L1 = of_int (tail m - p)" and "L2 = of_int (tail m - (p + off))"
  have l1: "msgb_l1len m = Some L1" using m by (simp add: msgb_l1len_def L1_def)
  have l2: "msgb_l2len m = Some L2" using m by (simp add: msgb_l2len_def L2_def)
  have "unat L2 = nat (tail m - (p + off) + 4294967296)"
    unfolding L2_def using m by (intro unat_of_int_negative) simp_all
  then have u: "8192 < int (unat L2)" using m by simp
  have w: "msgb_write b q (unat L2) src = None" if "0 \<le> q" "data_len b = 8192" for b q src
  proof -
    have "\<not> q + int (unat L2) \<le> 8192" "unat L2 \<noteq> 0" using u that(1) by linarith+
    then show ?thesis using that(2) unfolding msgb_write_def by (simp del: uint_nat nat_uint_eq)
  qed
  have slot: "frag_msgb (init_fragslot heap (if active fs then cleanup_fragslot fs else fs)) = Some ?b"
    by (simp add: init_fragslot_def Let_def)
  show ?thesis
  proof (cases "msgb_put ?b L1")
    case None
    then show ?thesis
      unfolding start_fragments_def Some l1 l2 m(2) Option.bind.bind_lunit Let_def slot by simp
  next
    case (Some bp)
    obtain b q where bp: "bp = (b, q)" by fastforce
    have "data_len b = 8192" "q = 0"
      using msgb_put_keeps [OF Some [unfolded bp]] by (simp_all add: msgb_alloc_def msgb_alloc_c_def FRAGSLOT_MSGB_SIZE_def)
    then show ?thesis
      unfolding start_fragments_def \<open>slot_of tms i = Some fs\<close> l1 l2 m(2) Option.bind.bind_lunit Let_def slot Some bp prod.case
      using w m(5) by simp
  qed
qed (simp add: start_fragments_def)

lemma start_fragments_large:
  assumes m: "l1h m = Some p" "8192 < tail m - p" "tail m - p < 20000"
  shows "start_fragments heap tms i m off enc k = None"
proof -
  have "sint (of_int (tail m - p) :: u32) = tail m - p" using m by (intro sint_of_small) simp_all
  then have "msgb_put (msgb_alloc heap FRAGSLOT_MSGB_SIZE) (of_int (tail m - p)) = None"
    using m(2) frag_tailroom(1) [OF fresh_buffer_ok] by (simp add: msgb_put_def fresh_buffer_len del: of_int_diff)
  moreover have "msgb_l1len m = Some (of_int (tail m - p))" using m by (simp add: msgb_l1len_def)
  moreover have "frag_msgb (init_fragslot heap fs) = Some (msgb_alloc heap FRAGSLOT_MSGB_SIZE)" for fs
    by (simp add: init_fragslot_def Let_def)
  ultimately show ?thesis
    by (auto simp: start_fragments_def Let_def bind_eq_None_conv simp del: of_int_diff)
qed

lemma start_mac_ok:
  assumes ok: "mac_ok tms" and m: "l1h m = Some p" "l2h m = Some (p + off)" "\<bar>tail m - p\<bar> < 20000" "0 \<le> off" "off \<le> 300"
    and r: "start_fragments heap tms i m off enc k = Some tms'"
  shows "mac_ok tms'"
proof -
  have "off \<le> tail m - p" using start_fragments_negative [OF m(1,2)] m(3-5) r by (fastforce simp: not_le)
  moreover have "tail m - p \<le> 8192" using start_fragments_large [OF m(1)] m(3) r by (fastforce simp: not_le)
  ultimately obtain n o' where n: "off = int o'" "tail m = p + int n" "o' \<le> n" "n \<le> 8192"
    using m(4) by (intro that [of "nat off" "nat (tail m - p)"]) linarith+
  from r obtain fs where fs: "slot_of tms i = Some fs" by (auto simp: start_fragments_def bind_eq_Some_conv)
  show ?thesis
    using r start_fragments_ok [OF fs m(1) m(2) [unfolded n(1)] n(2-4), of heap enc k] n(1,4) ok
    by (auto intro!: mac_ok_set_slot simp: fragslot_ok_def started_ok)
qed


section \<open>The slots stay well-formed\<close>

lemma strip_keeps:
  assumes "strip_fill_bits m = Some m'" "l1h m = Some p" "head m = p" "\<bar>tail m - p\<bar> < 20000"
  shows "l1h m' = Some p \<and> head m' = p \<and> l2h m' = l2h m \<and> \<bar>tail m' - p\<bar> < 20000 \<and> data_len m' = data_len m"
proof -
  have "msg_int_len (msgb_l1len m) = Some (tail m - p)" using assms by (intro l1len_near) simp_all
  then have "m' = msg_set_tail m (tail m - int (get_num_fill_bits (msgb_at m p) (tail m - p)))"
    using assms(1,2) by (simp add: strip_fill_bits_def)
  then show ?thesis
    using assms num_fill_bits_less [of "msgb_at m p" "tail m - p"] by (auto simp: msg_set_tail_def)
qed

lemma maybe_strip_keeps:
  assumes "(if b then strip_fill_bits m else Some m) = Some m'" "l1h m = Some p" "head m = p" "\<bar>tail m - p\<bar> < 20000"
  shows "l1h m' = Some p \<and> head m' = p \<and> l2h m' = l2h m \<and> \<bar>tail m' - p\<bar> < 20000 \<and> data_len m' = data_len m"
  using assms strip_keeps [of m m' p] by (cases b) auto

lemma append_l2_mac_ok:
  assumes ok: "mac_ok tms" and fs: "slot_of tms i = Some fs" "active fs"
    and m: "l1h (msg tmvp) = Some p" "\<bar>tail (msg tmvp) - p\<bar> < 20000" "0 \<le> n" "n \<le> 300"
    and r: "append_l2 tmvp tms i n = Some (tmvp', tms')"
  shows "mac_ok tms'"
proof -
  let ?m = "(msg tmvp)\<lparr>l2h := Some (p + n)\<rparr>"
  have "msg_int_len (msgb_l2len ?m) = Some (tail ?m - (p + n))"
    using m by (intro l2len_near) simp_all
  then have "append_frag_bits tms i (msgb_at ?m (p + n)) (tail (msg tmvp) - (p + n)) = Some tms'"
    using r m(1) by (auto simp: append_l2_def Let_def)
  from append_mac_ok [OF ok fs _ this] show ?thesis using m by simp
qed

lemma macpdu_length_range: "macpdu_length (fst (macpdu_decode_resource zero_rsd bits d)) \<in> {- 22..58} - {0}"
proof -
  have "unat (fld bits 7 6 :: u32) < 64"
    using bits_to_uint_less [of 6 "at bits 7"] by (simp add: fld_def)
  then have "decode_length (fld bits 7 6) \<in> {- 22..58} - {0}"
    unfolding decode_length_values [OF \<open>_ < 64\<close>] MACPDU_LEN_2ND_STOLEN_def MACPDU_LEN_START_FRAG_def EINVAL_def
    by (auto simp del: of_nat_unat)
  moreover have "macpdu_length (resource_head zero_rsd bits d) = decode_length (fld bits 7 6)"
    by (simp add: resource_head_def Let_def)
  moreover have "macpdu_length (fst (decode_resource_tail r b c)) = macpdu_length r" for r b c
    by (auto simp: decode_resource_tail_def Let_def case_prod_beta)
  ultimately show ?thesis
    by (auto simp: macpdu_decode_resource_def Let_def split: option.split)
qed

lemma rx_resrc_mac_ok:
  assumes ok: "mac_ok tms" and m: "l1h (msg tmvp) = Some p" "head (msg tmvp) = p" "\<bar>tail (msg tmvp) - p\<bar> < 10000"
    and r: "rx_resrc ndebug tcdb heap tmvp tms = Some (n, tmvp', tms')"
  shows "mac_ok tms'"
proof -
  obtain rsd off where dec: "macpdu_decode_resource zero_rsd (msgb_at (msg tmvp) p) 0 = (rsd, off)" by fastforce
  have off: "0 \<le> off" "off \<le> 180" using resource_length [OF dec] by auto
  have len: "- 22 \<le> macpdu_length rsd" "macpdu_length rsd \<le> 58"
    using macpdu_length_range [of "msgb_at (msg tmvp) p" 0] by (simp_all add: dec)
  define tms1 where "tms1 = (if macpdu_length rsd = MACPDU_LEN_2ND_STOLEN then tms\<lparr>blk2_stolen := True\<rparr> else tms)"
  have ok1: "mac_ok tms1" using ok by (simp add: tms1_def mac_ok_def)
  obtain pb m1 where ext: "resource_extent (msg tmvp) (macpdu_length rsd) = (pb, m1)" by fastforce
  then have m1: "l1h m1 = Some p" "head m1 = p" "\<bar>tail m1 - p\<bar> < 20000"
    using m len by (auto simp: resource_extent_def msg_set_tail_def split: if_split_asm)
  from r [unfolded rx_resrc_def m(1) Option.bind.bind_lunit Let_def dec prod.case tms1_def [symmetric] ext]
  obtain m2 rsd' off' k tmvp2 where
    s: "(if fill_bits rsd \<noteq> 0 then strip_fill_bits m1 else Some m1) = Some m2" and
    d: "decrypt_resource ndebug tcdb (tcs tms1) (tmvp\<lparr>msg := m2\<rparr>) rsd off = Some (rsd', off', k, tmvp2)" and
    cases: "tms' = tms1 \<or> fragslots tms' = fragslots tms1 \<or>
      (\<exists>enc t. fragslots t = fragslots tms1 \<and>
        start_fragments heap t (unat (tn (tdma_time (unitdata tmvp2)))) ((msg tmvp2)\<lparr>l2h := Some (p + off')\<rparr>) off' enc k = Some tms')"
    by (auto simp: bind_eq_Some_conv split: if_split_asm) force+
  note m2 = maybe_strip_keeps [OF s m1]
  have same: "same_but_bytes (tmvp\<lparr>msg := m2\<rparr>) tmvp2" and off': "off \<le> off'" "off' \<le> off + 115"
    using decrypt_resource_keeps [OF d] by simp_all
  note f = same_but_bytes_fields [OF same]
  from cases show ?thesis
  proof (elim disjE exE conjE)
    fix enc t
    assume t: "fragslots t = fragslots tms1"
      and st: "start_fragments heap t (unat (tn (tdma_time (unitdata tmvp2)))) ((msg tmvp2)\<lparr>l2h := Some (p + off')\<rparr>) off' enc k = Some tms'"
    have "mac_ok t" using mac_ok_slots [OF t ok1] .
    from start_mac_ok [OF this _ _ _ _ _ st, of p] show ?thesis using f m2 off off' by simp
  qed (use ok1 in \<open>auto simp: mac_ok_def\<close>)
qed


lemma rx_macfrag_mac_ok:
  assumes ok: "mac_ok tms" and m: "l1h (msg tmvp) = Some p" "head (msg tmvp) = p" "\<bar>tail (msg tmvp) - p\<bar> < 10000"
    and r: "rx_macfrag ndebug tcdb tmvp tms = Some (n, tmvp', tms')"
  shows "mac_ok tms'"
proof -
  define i where "i = unat (tn (tdma_time (unitdata tmvp)))"
  obtain fs where fs: "slot_of tms i = Some fs" using r by (cases "slot_of tms i") (auto simp: rx_macfrag_def i_def Let_def)
  show ?thesis
  proof (cases "active fs")
    case False
    then show ?thesis using r ok by (simp add: rx_macfrag_def fs [unfolded i_def])
  next
    case True
    from r [unfolded rx_macfrag_def Let_def i_def [symmetric] fs m(1) Option.bind.bind_lunit] True
    obtain m2 tmvp2 tmvp3 where
      s: "(if (fld (msgb_at (msg tmvp) p) 3 1 :: u8) \<noteq> 0 then strip_fill_bits ((msg tmvp)\<lparr>l2h := Some (p + 4)\<rparr>)
          else Some ((msg tmvp)\<lparr>l2h := Some (p + 4)\<rparr>)) = Some m2" and
      d: "decrypt_fragment ndebug tcdb (tcs tms) (tmvp\<lparr>msg := m2\<rparr>) fs 4 = Some tmvp2" and
      a: "append_l2 tmvp2 tms i 4 = Some (tmvp3, tms')"
      by (auto simp: bind_eq_Some_conv)
    note m2 = maybe_strip_keeps [OF s, of p]
    note f = same_but_bytes_fields [OF decrypt_fragment_keeps [OF d]]
    show ?thesis using append_l2_mac_ok [OF ok fs True _ _ _ _ a, of p] f m m2 by simp
  qed
qed

lemma rx_macend_mac_ok:
  assumes ok: "mac_ok tms" and m: "l1h (msg tmvp) = Some p" "head (msg tmvp) = p" "\<bar>tail (msg tmvp) - p\<bar> < 10000"
    and r: "rx_macend ndebug tcdb tmvp tms = Some (n, tmvp', tms')"
  shows "mac_ok tms'"
proof -
  define i where "i = unat (tn (tdma_time (unitdata tmvp)))"
  define li where "li = (fld (msgb_at (msg tmvp) p) 5 6 :: u8)"
  define k :: nat where "k = (if (fld (msgb_at (msg tmvp) p) 11 1 :: u8) \<noteq> 0 then 12 + 8 else 12)"
  obtain fs where fs: "slot_of tms i = Some fs" using r m by (cases "slot_of tms i") (auto simp: rx_macend_def i_def Let_def)
  show ?thesis
  proof (cases "active fs")
    case False
    then have "tms' = set_slot tms i zero_fragslot"
      using r m by (auto simp: rx_macend_def Let_def fs [unfolded i_def] cleanup_fragslot_def i_def)
    then show ?thesis using ok by (simp add: mac_ok_set_slot)
  next
    case True
    have li: "uint li * 8 < 3000" using unat_u8_less [of li] uint_nat [of li] by linarith
    from r [unfolded rx_macend_def Let_def i_def [symmetric] fs m(1) Option.bind.bind_lunit li_def [symmetric] k_def [symmetric]] True
    obtain m2 tmvp2 tmvp3 tms2 k' where
      s: "(if (fld (msgb_at (msg tmvp) p) 3 1 :: u8) \<noteq> 0 then strip_fill_bits (msg_set_tail (msg tmvp) (head (msg tmvp) + uint li * 8))
          else Some (msg_set_tail (msg tmvp) (head (msg tmvp) + uint li * 8))) = Some m2" and
      d: "decrypt_fragment ndebug tcdb (tcs tms) (tmvp\<lparr>msg := m2\<rparr>) fs (int (k + 1)) = Some tmvp2" and
      k': "k' = (if (fld (msgb_at (msg tmvp) p) k 1 :: u8) \<noteq> 0
         then k + 1 + snd (macpdu_decode_chan_alloc zero_cad (msgb_at (msg tmvp2) (p + int (k + 1)))) else k + 1)" and
      a: "append_l2 tmvp2 tms i (int k') = Some (tmvp3, tms2)" and
      t: "tms' = set_slot tms2 i (cleanup_fragslot (fragslots tms2 ! i))"
      by (auto simp: bind_eq_Some_conv case_prod_beta)
    have "k \<le> 20" by (simp add: k_def)
    then have "k' \<le> 300"
      using chan_alloc_length [of zero_cad "msgb_at (msg tmvp2) (p + int (k + 1))"] unfolding k' by (auto split: if_split)
    note m2 = maybe_strip_keeps [OF s, of p]
    note f = same_but_bytes_fields [OF decrypt_fragment_keeps [OF d]]
    have "mac_ok tms2"
      using append_l2_mac_ok [OF ok fs True _ _ _ _ a, of p] f m m2 li \<open>k' \<le> 300\<close> by (simp add: msg_set_tail_def)
    then show ?thesis by (simp add: t cleanup_fragslot_def mac_ok_set_slot)
  qed
qed

lemma prim_recv_mac_ok:
  assumes ok: "mac_ok tms" and m: "msg_near (msg tmvp)"
    and r: "upper_mac_prim_recv ndebug tcdb heap tmvp tms = Some (n, tmvp', tms')"
  shows "mac_ok tms'"
proof -
  obtain p where p: "l1h (msg tmvp) = Some p" "head (msg tmvp) = p" "\<bar>tail (msg tmvp) - p\<bar> < 10000"
    using m by (auto simp: msg_near_def)
  have same: "mac_ok t'" if "fragslots t' = fragslots t" "mac_ok t" for t t' using that by (rule mac_ok_slots)
  have bcast: "fragslots t' = fragslots t" if "rx_bcast tcdb tmvp t = Some (n, tmvp', t')" for t t'
    using that by (auto simp: rx_bcast_def Let_def bind_eq_Some_conv)
  have aach: "fragslots t' = fragslots t" if "rx_aach tmvp t = Some t'" for t t'
    using that by (auto simp: rx_aach_def Let_def bind_eq_Some_conv)
  define t where "t = (if fn (tdma_time (unitdata tmvp)) = 18 then age_fragslots tms else tms)"
  have okt: "mac_ok t" using ok mac_ok_age by (simp add: t_def)
  show ?thesis
  proof (cases "sap tmvp = TETRA_SAP_TMV \<and> crc_ok (unitdata tmvp) \<noteq> 0")
    case False
    then show ?thesis using r ok p by (auto simp: upper_mac_prim_recv_def rx_tmv_unitdata_ind_def Let_def split: if_split_asm)
  next
    case True
    with r p have "rx_aach tmvp t = Some tms' \<or> tms' = t \<or> rx_bcast tcdb tmvp t = Some (n, tmvp', tms') \<or>
        rx_resrc ndebug tcdb heap tmvp t = Some (n, tmvp', tms') \<or> rx_suppl tmvp t = Some (n, tmvp', tms') \<or>
        rx_macfrag ndebug tcdb tmvp t = Some (n, tmvp', tms') \<or> rx_macend ndebug tcdb tmvp t = Some (n, tmvp', tms')"
      unfolding upper_mac_prim_recv_def rx_tmv_unitdata_ind_def Let_def t_def [symmetric]
      by (cases "lchan (unitdata tmvp)") (auto split: if_split_asm)
    moreover have "tms' = t" if "rx_suppl tmvp t = Some (n, tmvp', tms')"
      using that by (auto simp: rx_suppl_def Let_def bind_eq_Some_conv)
    ultimately show ?thesis
      using okt same [OF aach okt] same [OF bcast okt]
        rx_resrc_mac_ok [OF okt p] rx_macfrag_mac_ok [OF okt p] rx_macend_mac_ok [OF okt p]
      by (elim disjE) simp_all
  qed
qed


section \<open>Reassembly\<close>

text \<open>What a slot has collected: the bytes from its layer 2 pointer to its tail.\<close>

definition msg_part :: "msgb \<Rightarrow> int \<Rightarrow> nat \<Rightarrow> u8 list" where
  "msg_part m p n = map (msgb_at m p) [0..<n]"

definition frag_contents :: "fragslot \<Rightarrow> u8 list" where
  "frag_contents fs =
    (case frag_msgb fs of
       None \<Rightarrow> []
     | Some m \<Rightarrow> (case l2h m of None \<Rightarrow> [] | Some q \<Rightarrow> msg_part m q (nat (tail m - q))))"

lemma contents_started:
  "off \<le> n \<Longrightarrow> frag_contents (fs\<lparr>frag_msgb := Some (started heap n off bits), active := a, num_frags := c,
      frag_length := l, encryption := e, frag_key := k\<rparr>) = map bits [0..<n - off]"
proof -
  assume "off \<le> n"
  then have "nat (int n - int off) = n - off" by linarith
  then show ?thesis by (auto simp: frag_contents_def msg_part_def started_def msgb_at_def)
qed

lemma contents_extended:
  assumes "frag_msgb fs = Some m" "l2h m = Some q" "q \<le> tail m"
  shows "frag_contents (fs\<lparr>frag_msgb := Some (extended m n bits), frag_length := l, num_frags := c, age := a\<rparr>) =
    frag_contents fs @ map bits [0..<n]"
proof -
  define k where "k = nat (tail m - q)"
  have t: "tail m = q + int k" using assms(3) by (simp add: k_def)
  have "frag_contents (fs\<lparr>frag_msgb := Some (extended m n bits), frag_length := l, num_frags := c, age := a\<rparr>) =
      map (msgb_at (extended m n bits) q) [0..<k + n]"
    using assms t by (simp add: frag_contents_def msg_part_def extended_def nat_add_distrib)
  also have "\<dots> = map (msgb_at (extended m n bits) q) [0..<k] @ map (\<lambda>i. msgb_at (extended m n bits) q (k + i)) [0..<n]"
    by (rule nth_equalityI) (auto simp: nth_append)
  also have "\<dots> = map (msgb_at m q) [0..<k] @ map bits [0..<n]"
    by (simp add: extended_def msgb_at_def t)
  finally show ?thesis using assms t by (simp add: frag_contents_def msg_part_def)
qed

text \<open>A fragment: the number of fill bits it carries, and its SDU.\<close>

definition frag_fill :: "tetra_tmvsap_prim \<Rightarrow> nat" where
  "frag_fill tmvp = (let p = the (l1h (msg tmvp)) in
     if (fld (msgb_at (msg tmvp) p) 3 1 :: u8) \<noteq> 0
     then get_num_fill_bits (msgb_at (msg tmvp) p) (tail (msg tmvp) - p) else 0)"

definition frag_size :: "tetra_tmvsap_prim \<Rightarrow> nat" where
  "frag_size tmvp = nat (tail (msg tmvp) - the (l1h (msg tmvp))) - frag_fill tmvp - 4"

definition frag_sdu :: "tetra_tmvsap_prim \<Rightarrow> u8 list" where
  "frag_sdu tmvp = msg_part (msg tmvp) (the (l1h (msg tmvp)) + 4) (frag_size tmvp)"

definition frag_pdu :: "nat \<Rightarrow> tetra_tmvsap_prim \<Rightarrow> bool" where
  "frag_pdu i tmvp \<longleftrightarrow> unat (tn (tdma_time (unitdata tmvp))) = i \<and>
    (\<exists>p. l1h (msg tmvp) = Some p \<and> head (msg tmvp) = p \<and> tail (msg tmvp) - p < 10000 \<and>
      int (frag_fill tmvp) + 4 \<le> tail (msg tmvp) - p)"

text \<open>A slot that collects an unencrypted message, \<open>n\<close> bytes of its buffer in use.\<close>

definition collecting :: "tetra_mac_state \<Rightarrow> nat \<Rightarrow> u8 list \<Rightarrow> nat \<Rightarrow> bool" where
  "collecting tms i c n \<longleftrightarrow> (\<exists>fs m q. slot_of tms i = Some fs \<and> active fs \<and> \<not> encryption fs \<and> frag_msgb fs = Some m \<and>
    frag_buffer_ok m \<and> l2h m = Some q \<and> q \<le> tail m \<and> tail m = int n \<and> frag_contents fs = c)"

lemma slot_of_set_slot: "slot_of (set_slot tms i fs) j = (if j = i \<and> i < length (fragslots tms) then Some fs else slot_of tms j)"
  by (simp add: slot_of_def set_slot_def)

lemma slot_of_less: "slot_of tms i = Some fs \<Longrightarrow> i < length (fragslots tms)"
  by (simp add: slot_of_def split: if_split_asm)

lemma msg_len_set_tail: "msg_set_tail m (tail m - 0) = m\<lparr>m_len := of_int (tail m - head m)\<rparr>"
  by (simp add: msg_set_tail_def)

lemma rx_macfrag_collects:
  assumes pdu: "frag_pdu i tmvp" and col: "collecting tms i c n" and room: "n + frag_size tmvp \<le> 8192"
  shows "\<exists>tmvp' tms'. rx_macfrag ndebug tcdb tmvp tms = Some (- 1, tmvp', tms') \<and>
    collecting tms' i (c @ frag_sdu tmvp) (n + frag_size tmvp)"
proof -
  obtain p where p: "unat (tn (tdma_time (unitdata tmvp))) = i" "l1h (msg tmvp) = Some p" "head (msg tmvp) = p"
    "tail (msg tmvp) - p < 10000" "int (frag_fill tmvp) + 4 \<le> tail (msg tmvp) - p"
    using pdu by (auto simp: frag_pdu_def)
  obtain fs m q where fs: "slot_of tms i = Some fs" "active fs" "\<not> encryption fs" "frag_msgb fs = Some m"
    "frag_buffer_ok m" "l2h m = Some q" "q \<le> tail m" "tail m = int n" "frag_contents fs = c"
    using col unfolding collecting_def by blast
  define k where "k = frag_size tmvp"
  have k: "int k = tail (msg tmvp) - p - int (frag_fill tmvp) - 4"
    using p by (simp add: k_def frag_size_def of_nat_diff)
  let ?m1 = "(msg tmvp)\<lparr>l2h := Some (p + 4)\<rparr>"
  obtain m2 where s: "(if (fld (msgb_at (msg tmvp) p) 3 1 :: u8) \<noteq> 0 then strip_fill_bits ?m1 else Some ?m1) = Some m2"
    and m2: "l1h m2 = Some p" "l2h m2 = Some (p + 4)" "tail m2 = p + 4 + int k" "mem m2 = mem (msg tmvp)"
  proof (cases "(fld (msgb_at (msg tmvp) p) 3 1 :: u8) = 0")
    case True
    then have "frag_fill tmvp = 0" using p by (simp add: frag_fill_def)
    with True show ?thesis using p k by (intro that [of ?m1]) simp_all
  next
    case False
    then have f: "frag_fill tmvp = get_num_fill_bits (msgb_at (msg tmvp) p) (tail (msg tmvp) - p)"
      using p by (simp add: frag_fill_def)
    have "msg_int_len (msgb_l1len ?m1) = Some (tail ?m1 - p)" using p by (intro l1len_near) simp_all
    moreover have "msgb_at ?m1 p = msgb_at (msg tmvp) p" by (rule ext) (simp add: msgb_at_def)
    ultimately have "strip_fill_bits ?m1 = Some (msg_set_tail ?m1 (tail (msg tmvp) - int (frag_fill tmvp)))"
      using p by (simp add: strip_fill_bits_def f)
    with False show ?thesis using p k by (intro that [of "msg_set_tail ?m1 (tail (msg tmvp) - int (frag_fill tmvp))"]) (simp_all add: msg_set_tail_def)
  qed
  let ?t2 = "tmvp\<lparr>msg := m2\<rparr>"
  have dec: "decrypt_fragment ndebug tcdb (tcs tms) ?t2 fs 4 = Some ?t2" using fs(3) by (simp add: decrypt_fragment_def)
  let ?m3 = "m2\<lparr>l2h := Some (p + 4)\<rparr>"
  have len: "msg_int_len (msgb_l2len ?m3) = Some (int k)"
    using l2len_near [of ?m3 "p + 4"] m2 k p by simp
  have l: "uint (m_len m) = int n" using fs(5,8) by (simp add: frag_buffer_ok_def)
  let ?fs = "fs\<lparr>frag_msgb := Some (extended m k (msgb_at ?m3 (p + 4))), frag_length := frag_length fs + int k,
    num_frags := num_frags fs + 1, age := 0\<rparr>"
  have app: "append_frag_bits tms i (msgb_at ?m3 (p + 4)) (int k) = Some (set_slot tms i ?fs)"
    using room l by (intro append_fits [OF fs(1,4,5)]) (simp add: k_def)
  have "rx_macfrag ndebug tcdb tmvp tms = Some (- 1, tmvp\<lparr>msg := ?m3\<rparr>, set_slot tms i ?fs)"
    using app len s m2(1) dec
    unfolding rx_macfrag_def Let_def p(1) fs(1) p(2) Option.bind.bind_lunit append_l2_def by (simp add: fs(2))
  moreover have "collecting (set_slot tms i ?fs) i (c @ frag_sdu tmvp) (n + k)"
  proof -
    have b: "msgb_at ?m3 (p + 4) = msgb_at (msg tmvp) (p + 4)" using m2(4) by (auto simp: msgb_at_def)
    have "frag_contents ?fs = c @ frag_sdu tmvp"
      using contents_extended [OF fs(4,6,7), where n = k and bits = "msgb_at ?m3 (p + 4)"] fs(9) p(2)
      unfolding b by (simp add: frag_sdu_def msg_part_def k_def)
    moreover have "frag_buffer_ok (extended m k (msgb_at ?m3 (p + 4)))"
      using extended_ok [OF fs(5)] l room by (simp add: k_def)
    ultimately show ?thesis
      unfolding collecting_def using fs slot_of_less [OF fs(1)]
      by (intro exI [of _ ?fs] exI [of _ "extended m k (msgb_at ?m3 (p + 4))"] exI [of _ q])
        (simp add: slot_of_set_slot extended_def)
  qed
  ultimately show ?thesis unfolding k_def by blast
qed


text \<open>A sequence of fragments, each handed to the handler in the state the one before left.\<close>

fun receive_frags ::
  "bool \<Rightarrow> tetra_crypto_database \<Rightarrow> tetra_tmvsap_prim list \<Rightarrow> tetra_mac_state \<Rightarrow> tetra_mac_state option" where
  "receive_frags ndebug tcdb [] tms = Some tms"
| "receive_frags ndebug tcdb (t # ts) tms =
    Option.bind (rx_macfrag ndebug tcdb t tms) (\<lambda>(_, _, tms). receive_frags ndebug tcdb ts tms)"

lemma receive_frags_collects:
  assumes "\<forall>t \<in> set ts. frag_pdu i t" "collecting tms i c n" "n + sum_list (map frag_size ts) \<le> 8192"
  shows "\<exists>tms'. receive_frags ndebug tcdb ts tms = Some tms' \<and>
    collecting tms' i (c @ concat (map frag_sdu ts)) (n + sum_list (map frag_size ts))"
  using assms
proof (induction ts arbitrary: tms c n)
  case (Cons t ts)
  from rx_macfrag_collects [of i t tms c n ndebug tcdb] Cons.prems
  obtain t' tms1 where 1: "rx_macfrag ndebug tcdb t tms = Some (- 1, t', tms1)"
    "collecting tms1 i (c @ frag_sdu t) (n + frag_size t)" by auto
  from Cons.IH [OF _ 1(2)] Cons.prems show ?case by (simp add: 1(1) add.assoc)
qed simp

lemma start_collects:
  assumes "slot_of tms i = Some fs" "l1h m = Some p" "l2h m = Some (p + int off)" "tail m = p + int n" "off \<le> n" "n \<le> 8192"
  shows "\<exists>tms'. start_fragments heap tms i m (int off) False k = Some tms' \<and>
    collecting tms' i (msg_part m (p + int off) (n - off)) n"
proof -
  let ?fs = "(if active fs \<or> frag_msgb fs \<noteq> None then zero_fragslot else fs)
      \<lparr>frag_msgb := Some (started heap n off (msgb_at m (p + int off))), active := True, num_frags := 1,
       frag_length := int (n - off), encryption := False, frag_key := k\<rparr>"
  have "frag_contents ?fs = msg_part m (p + int off) (n - off)"
    using contents_started [OF assms(5)] by (simp add: msg_part_def)
  moreover have "frag_buffer_ok (started heap n off (msgb_at m (p + int off)))" using started_ok [OF assms(6)] .
  ultimately have "collecting (set_slot tms i ?fs) i (msg_part m (p + int off) (n - off)) n"
    unfolding collecting_def using assms slot_of_less [OF assms(1)]
    by (intro exI [of _ ?fs] exI [of _ "started heap n off (msgb_at m (p + int off))"] exI [of _ "int off"])
      (simp add: slot_of_set_slot started_def)
  then show ?thesis using start_fragments_ok [OF assms, of heap False k] by blast
qed

section \<open>Ageing\<close>

lemma age_fragslot_power:
  assumes "active fs" "age fs = 0"
  shows "(age_fragslot ^^ k) fs = (if k \<le> 6 then fs\<lparr>age := of_nat k\<rparr> else zero_fragslot)"
proof (induction k)
  case 0
  then show ?case using assms by simp
next
  case (Suc k)
  have z: "age_fragslot zero_fragslot = zero_fragslot" by (simp add: age_fragslot_def zero_fragslot_def)
  show ?case
  proof (cases "k < 6")
    case True
    then have "unat (of_nat k + 1 :: u32) = Suc k" by (simp add: unat_word_ariths unat_of_nat)
    then have "\<not> N203 < of_nat k + (1 :: u32)" using True by (simp add: N203_def word_less_nat_alt)
    then show ?thesis using True Suc assms by (simp add: age_fragslot_def Let_def add.commute)
  next
    case False
    show ?thesis
    proof (cases "k = 6")
      case True
      have "(age_fragslot ^^ Suc k) fs = age_fragslot ((age_fragslot ^^ k) fs)" by simp
      also have "(age_fragslot ^^ k) fs = fs\<lparr>age := 6\<rparr>" using Suc True by simp
      also have "age_fragslot (fs\<lparr>age := 6\<rparr>) = zero_fragslot" using assms by (simp add: age_fragslot_def Let_def N203_def cleanup_fragslot_def)
      finally show ?thesis using True by simp
    qed (use False Suc z in simp)
  qed
qed

section \<open>Short PDUs\<close>

lemma append_l2_negative:
  assumes fs: "slot_of tms i = Some fs" "active fs" "fragslot_ok fs"
    and m: "l1h (msg tmvp) = Some p" "tail (msg tmvp) < p + n" "- 20000 < tail (msg tmvp) - (p + n)"
  shows "append_l2 tmvp tms i n = None"
proof -
  let ?m = "(msg tmvp)\<lparr>l2h := Some (p + n)\<rparr>"
  have "msg_int_len (msgb_l2len ?m) = Some (tail (msg tmvp) - (p + n))"
    using l2len_near [of ?m "p + n"] m by simp
  moreover have "append_frag_bits tms i bits (tail (msg tmvp) - (p + n)) = None" for bits
    using m by (intro append_negative [OF fs]) simp_all
  ultimately show ?thesis by (simp add: append_l2_def m(1) Let_def)
qed

lemma short_end:
  assumes fs: "slot_of tms i = Some fs" "active fs" "fragslot_ok fs" "\<not> encryption fs"
    and t: "unat (tn (tdma_time (unitdata tmvp))) = i" and m: "l1h (msg tmvp) = Some p" "head (msg tmvp) = p"
    and b: "(fld (msgb_at (msg tmvp) p) 3 1 :: u8) = 0" "(fld (msgb_at (msg tmvp) p) 11 1 :: u8) = 0"
      "(fld (msgb_at (msg tmvp) p) 12 1 :: u8) = 0"
    and short: "unat (fld (msgb_at (msg tmvp) p) 5 6 :: u8) \<le> 1"
  shows "rx_macend ndebug tcdb tmvp tms = None"
proof -
  define li where "li = (fld (msgb_at (msg tmvp) p) 5 6 :: u8)"
  have li: "uint li * 8 \<le> 8" "0 \<le> uint li * 8" using short uint_nat [of li] unfolding li_def by linarith+
  let ?m2 = "msg_set_tail (msg tmvp) (head (msg tmvp) + uint li * 8)"
  have dec: "decrypt_fragment ndebug tcdb (tcs tms) (tmvp\<lparr>msg := ?m2\<rparr>) fs 13 = Some (tmvp\<lparr>msg := ?m2\<rparr>)"
    using fs(4) by (simp add: decrypt_fragment_def)
  have a: "append_l2 (tmvp\<lparr>msg := ?m2\<rparr>) tms i 13 = None"
  proof (rule append_l2_negative [OF fs(1-3), of _ p])
    have t2: "tail (msg (tmvp\<lparr>msg := ?m2\<rparr>)) = p + uint li * 8" using m by (simp add: msg_set_tail_def)
    show "tail (msg (tmvp\<lparr>msg := ?m2\<rparr>)) < p + 13" "- 20000 < tail (msg (tmvp\<lparr>msg := ?m2\<rparr>)) - (p + 13)"
      unfolding t2 using li by linarith+
  qed (use m in \<open>simp add: msg_set_tail_def\<close>)
  show ?thesis
    unfolding rx_macend_def Let_def t m(1) fs(1) Option.bind.bind_lunit
    using fs(2) b dec a by (simp add: li_def [symmetric])
qed

lemma short_fragment:
  assumes fs: "slot_of tms i = Some fs" "active fs" "fragslot_ok fs" "\<not> encryption fs"
    and t: "unat (tn (tdma_time (unitdata tmvp))) = i" and m: "l1h (msg tmvp) = Some p" "head (msg tmvp) = p"
    and n: "0 \<le> tail (msg tmvp) - p" "tail (msg tmvp) - p < 10000" "tail (msg tmvp) - p < int (frag_fill tmvp) + 4"
  shows "rx_macfrag ndebug tcdb tmvp tms = None"
proof -
  let ?m1 = "(msg tmvp)\<lparr>l2h := Some (p + 4)\<rparr>"
  have fl: "int (frag_fill tmvp) \<le> tail (msg tmvp) - p"
    using num_fill_bits_less [of "msgb_at (msg tmvp) p" "tail (msg tmvp) - p"] m n(1) by (auto simp: frag_fill_def Let_def)
  have "msg_int_len (msgb_l1len ?m1) = Some (tail ?m1 - p)" using m n by (intro l1len_near) simp_all
  moreover have "msgb_at ?m1 p = msgb_at (msg tmvp) p" by (rule ext) (simp add: msgb_at_def)
  ultimately obtain m2 where s: "(if (fld (msgb_at (msg tmvp) p) 3 1 :: u8) \<noteq> 0 then strip_fill_bits ?m1 else Some ?m1) = Some m2"
    and m2: "l1h m2 = Some p" "tail m2 = tail (msg tmvp) - int (frag_fill tmvp)"
    using m by (cases "(fld (msgb_at (msg tmvp) p) 3 1 :: u8) = 0")
      (auto simp: strip_fill_bits_def frag_fill_def msg_set_tail_def)
  have dec: "decrypt_fragment ndebug tcdb (tcs tms) (tmvp\<lparr>msg := m2\<rparr>) fs 4 = Some (tmvp\<lparr>msg := m2\<rparr>)"
    using fs(4) by (simp add: decrypt_fragment_def)
  have a: "append_l2 (tmvp\<lparr>msg := m2\<rparr>) tms i 4 = None"
    using m2 n fl by (intro append_l2_negative [OF fs(1-3), of _ p]) simp_all
  show ?thesis
    unfolding rx_macfrag_def Let_def t m(1) fs(1) Option.bind.bind_lunit
    using fs(2) s dec a by simp
qed

section \<open>Runs of the upper MAC\<close>

text \<open>
  The primitives of a receiver, each with the memory around the buffers it allocates; between two of
  them the lower MAC changes other parts of the state than the slots.
\<close>

inductive mac_run :: "bool \<Rightarrow> tetra_crypto_database \<Rightarrow> tetra_mac_state \<Rightarrow> bool" for ndebug tcdb where
  start: "fragslots tms = replicate FRAGSLOT_NR_SLOTS zero_fragslot \<Longrightarrow> mac_run ndebug tcdb tms"
| other: "mac_run ndebug tcdb tms \<Longrightarrow> fragslots tms' = fragslots tms \<Longrightarrow> mac_run ndebug tcdb tms'"
| receive: "mac_run ndebug tcdb tms \<Longrightarrow> msg_near (msg tmvp) \<Longrightarrow>
    upper_mac_prim_recv ndebug tcdb heap tmvp tms = Some (n, tmvp', tms') \<Longrightarrow> mac_run ndebug tcdb tms'"

lemma mac_run_ok: "mac_run ndebug tcdb tms \<Longrightarrow> mac_ok tms"
proof (induction rule: mac_run.induct)
  case (start tms)
  then show ?case by (simp add: mac_ok_def)
next
  case (receive tms tmvp heap n tmvp' tms')
  then show ?case by (blast intro: prim_recv_mac_ok)
qed (blast intro: mac_ok_slots)

text \<open>A list of primitives, one after the other.\<close>

fun receive_prims ::
  "bool \<Rightarrow> tetra_crypto_database \<Rightarrow> (int \<Rightarrow> u8) \<Rightarrow> tetra_tmvsap_prim list \<Rightarrow> tetra_mac_state \<Rightarrow> tetra_mac_state option" where
  "receive_prims ndebug tcdb heap [] tms = Some tms"
| "receive_prims ndebug tcdb heap (t # ts) tms =
    Option.bind (upper_mac_prim_recv ndebug tcdb heap t tms) (\<lambda>(_, _, tms). receive_prims ndebug tcdb heap ts tms)"

text \<open>An access assignment in frame 18 ages every slot, and does nothing else to them.\<close>

definition aach_18 :: "tetra_tmvsap_prim \<Rightarrow> bool" where
  "aach_18 t \<longleftrightarrow> sap t = TETRA_SAP_TMV \<and> lchan (unitdata t) = TETRA_LC_AACH \<and> crc_ok (unitdata t) \<noteq> 0 \<and>
    fn (tdma_time (unitdata t)) = 18 \<and> l1h (msg t) \<noteq> None"

lemma aach_ages:
  assumes "aach_18 t"
  shows "\<exists>t' tms'. upper_mac_prim_recv ndebug tcdb heap t tms = Some (- 1, t', tms') \<and>
    fragslots tms' = fragslots (age_fragslots tms)"
proof -
  obtain p where p: "l1h (msg t) = Some p" using assms by (auto simp: aach_18_def)
  show ?thesis
    using assms by (auto simp: aach_18_def upper_mac_prim_recv_def rx_tmv_unitdata_ind_def rx_aach_def p Let_def)
qed

lemma aachs_age:
  assumes "\<forall>t \<in> set ts. aach_18 t" "length (fragslots tms) = FRAGSLOT_NR_SLOTS"
  shows "\<exists>tms'. receive_prims ndebug tcdb heap ts tms = Some tms' \<and>
    fragslots tms' = map (age_fragslot ^^ length ts) (fragslots tms)"
  using assms
proof (induction ts arbitrary: tms)
  case (Cons t ts)
  obtain t' tms1 where 1: "upper_mac_prim_recv ndebug tcdb heap t tms = Some (- 1, t', tms1)"
    "fragslots tms1 = map age_fragslot (fragslots tms)"
    using aach_ages [of t ndebug tcdb heap tms] Cons.prems by (auto simp: age_fragslots_def)
  with Cons.IH [of tms1] Cons.prems show ?case by (auto simp: funpow_swap1)
qed simp

section \<open>Sample primitives\<close>

definition sample_msg :: "u8 list \<Rightarrow> msgb" where
  "sample_msg bits = \<lparr>mem = (\<lambda>i. if 0 \<le> i \<and> i < int (length bits) then bits ! nat i else 0),
     data_len = 412, m_len = of_nat (length bits), head = 0, tail = int (length bits),
     l1h = Some 0, l2h = None, l3h = None, l4h = None\<rparr>"

definition sample_prim :: "tetra_log_chan \<Rightarrow> u32 \<Rightarrow> u8 list \<Rightarrow> tetra_tmvsap_prim" where
  "sample_prim lc f bits = \<lparr>sap = TETRA_SAP_TMV, primitive = PRIM_TMV_UNITDATA, operation = PRIM_OP_INDICATION,
     msg = sample_msg bits, unitdata = \<lparr>mac_block_len = 0, lchan = lc, crc_ok = 1, scrambling_code = 0,
       tdma_time = \<lparr>hn = 0, sn = 0, tn = 1, fn = f, mn = 1\<rparr>, blk_num = 0\<rparr>\<rparr>"

definition sample_db :: tetra_crypto_database where
  "sample_db = \<lparr>num_keys = 0, keys = [], num_nets = 0, nets = [], nets_cnt = 0\<rparr>"

text \<open>A state whose slot 1 has collected nothing yet.\<close>

definition sample_slot :: fragslot where
  "sample_slot = zero_fragslot\<lparr>active := True, frag_msgb := Some (msgb_alloc (\<lambda>_. 0) FRAGSLOT_MSGB_SIZE)\<rparr>"

definition sample_state :: tetra_mac_state where
  "sample_state = set_slot initial_mac_state 1 sample_slot"

lemmas sample_defs = sample_msg_def sample_prim_def sample_db_def sample_slot_def sample_state_def
  initial_mac_state_def tetra_mac_state_init_def FRAGSLOT_NR_SLOTS_def set_slot_def slot_of_def

section \<open>Properties\<close>



text \<open>
  C3. Reassembly: a message started in a slot and continued by fragments for the same timeslot is
  collected there, the part of the first PDU behind its header followed by the SDU of each fragment
  without its header and fill bits, in the order of arrival, as long as the total fits the buffer.
\<close>
theorem fragments_reassemble:
  assumes "slot_of tms i = Some fs" "l1h m = Some p" "l2h m = Some (p + int off)" "tail m = p + int n" "off \<le> n"
    and "\<forall>t \<in> set ts. frag_pdu i t" "n + sum_list (map frag_size ts) \<le> 8192"
  shows "\<exists>tms1 tms2 fs'. start_fragments heap tms i m (int off) False k = Some tms1 \<and>
    receive_frags ndebug tcdb ts tms1 = Some tms2 \<and> slot_of tms2 i = Some fs' \<and> active fs' \<and>
    frag_contents fs' = msg_part m (p + int off) (n - off) @ concat (map frag_sdu ts)"
proof -
  obtain tms1 where 1: "start_fragments heap tms i m (int off) False k = Some tms1"
    "collecting tms1 i (msg_part m (p + int off) (n - off)) n"
    using start_collects [OF assms(1-5)] assms(7) by auto
  then obtain tms2 where "receive_frags ndebug tcdb ts tms1 = Some tms2"
    "collecting tms2 i (msg_part m (p + int off) (n - off) @ concat (map frag_sdu ts)) (n + sum_list (map frag_size ts))"
    using receive_frags_collects [OF assms(6) 1(2) assms(7)] by blast
  with 1 show ?thesis unfolding collecting_def by blast
qed

theorem fragments_reassemble_witness:
  "\<exists>tms1 tms2 fs'. start_fragments (\<lambda>_. 0) initial_mac_state 1 ((sample_msg [0, 1, 1, 0, 1])\<lparr>l2h := Some (0 + int 2)\<rparr>)
      (int 2) False None = Some tms1 \<and>
    receive_frags False sample_db [sample_prim TETRA_LC_SCH_F 1 [0, 1, 0, 1, 1, 0, 1, 0]] tms1 = Some tms2 \<and>
    slot_of tms2 1 = Some fs' \<and> active fs' \<and>
    frag_contents fs' = msg_part ((sample_msg [0, 1, 1, 0, 1])\<lparr>l2h := Some (0 + int 2)\<rparr>) (0 + int 2) (5 - 2) @
      concat (map frag_sdu [sample_prim TETRA_LC_SCH_F 1 [0, 1, 0, 1, 1, 0, 1, 0]])"
proof (rule fragments_reassemble)
  have "frag_pdu 1 (sample_prim TETRA_LC_SCH_F 1 [0, 1, 0, 1, 1, 0, 1, 0]) \<and>
    frag_size (sample_prim TETRA_LC_SCH_F 1 [0, 1, 0, 1, 1, 0, 1, 0]) \<le> 8"
    unfolding frag_pdu_def by (auto simp: sample_prim_def sample_msg_def frag_fill_def frag_size_def get_num_fill_bits_def
        msgb_at_def fld_def at_def Let_def upt_rec)
  then show "\<forall>t \<in> set [sample_prim TETRA_LC_SCH_F 1 [0, 1, 0, 1, 1, 0, 1, 0]]. frag_pdu 1 t"
    "5 + sum_list (map frag_size [sample_prim TETRA_LC_SCH_F 1 [0, 1, 0, 1, 1, 0, 1, 0]]) \<le> 8192" by simp_all
qed (simp_all add: sample_defs)

text \<open>
  A message that gets no more fragments is given up: after seven indications in frame 18 every
  slot that was in use and fresh is empty again, and after fewer it is only older. The slots age with
  every indication, not with every multiframe.
\<close>
theorem stale_messages_are_dropped:
  assumes "\<forall>t \<in> set ts. aach_18 t" "length (fragslots tms) = FRAGSLOT_NR_SLOTS"
    and "slot_of tms i = Some fs" "active fs" "age fs = 0"
  shows "\<exists>tms'. receive_prims ndebug tcdb heap ts tms = Some tms' \<and>
    slot_of tms' i = Some (if length ts \<le> 6 then fs\<lparr>age := of_nat (length ts)\<rparr> else zero_fragslot)"
  using aachs_age [OF assms(1,2), of ndebug tcdb heap] assms(3) age_fragslot_power [OF assms(4,5), of "length ts"]
  by (auto simp: slot_of_def split: if_split_asm)

theorem stale_messages_are_dropped_witness:
  "\<exists>tms'. receive_prims False sample_db (\<lambda>_. 0) (replicate 7 (sample_prim TETRA_LC_AACH 18 (replicate 14 0))) sample_state =
      Some tms' \<and>
    slot_of tms' 1 = Some (if length (replicate 7 (sample_prim TETRA_LC_AACH 18 (replicate 14 0))) \<le> 6
      then sample_slot\<lparr>age := of_nat (length (replicate 7 (sample_prim TETRA_LC_AACH 18 (replicate 14 0))))\<rparr> else zero_fragslot)"
  by (rule stale_messages_are_dropped) (simp_all add: aach_18_def sample_defs zero_fragslot_def)

text \<open>
  Exactly the padding is stripped from a PDU with fill bits: the last bit 1 with the zeros behind
  it, and nothing when no bit after the first is 1.
\<close>
theorem fill_bits_are_the_padding:
  assumes "get_num_fill_bits l1 n = k"
  shows "if k = 0 then (\<forall>i. 1 \<le> i \<and> i < nat n \<longrightarrow> l1 i \<noteq> 1)
    else int k < n \<and> l1 (nat n - k) = 1 \<and> (\<forall>i. nat n - k < i \<and> i < nat n \<longrightarrow> l1 i \<noteq> 1)"
proof (cases "k = 0")
  case True
  have "l1 i \<noteq> 1" if "1 \<le> i" "i < nat n" for i
  proof -
    have "nat n - i \<in> set [1..<nat n]" using that by simp
    moreover have "find (\<lambda>i. l1 (nat n - i) = 1) [1..<nat n] = None"
      using assms True by (auto simp: get_num_fill_bits_def find_Some_iff split: option.splits)
    ultimately have "l1 (nat n - (nat n - i)) \<noteq> 1" unfolding find_None_iff by blast
    then show ?thesis using that by simp
  qed
  then show ?thesis using True by simp
next
  case False
  then show ?thesis using num_fill_bits_spec [OF assms] by auto
qed

theorem fill_bits_are_the_padding_witness:
  "if (3 :: nat) = 0 then (\<forall>i. 1 \<le> i \<and> i < nat 8 \<longrightarrow> (!) [0, 0, 1, 0, 1, 1, 0, 0 :: u8] i \<noteq> 1)
    else int 3 < 8 \<and> (!) [0, 0, 1, 0, 1, 1, 0, 0 :: u8] (nat 8 - 3) = 1 \<and>
      (\<forall>i. nat 8 - 3 < i \<and> i < nat 8 \<longrightarrow> (!) [0, 0, 1, 0, 1, 1, 0, 0 :: u8] i \<noteq> 1)"
  by (rule fill_bits_are_the_padding) (simp add: get_num_fill_bits_def upt_rec)



end
