(* ===== verification/LowerMac.thy ===== *)
theory LowerMac
  imports Crc Scramble Viterbi BurstSync Reassembly
begin

text \<open>
  The lower MAC, \<open>lower_mac/tetra_lower_mac.c\<close>: the table of block parameters, the receive chain of a
  block (descrambling, de-interleaving, de-puncturing, decoding, check), what a synchronisation block
  changes, the voice path, the loop over the MAC PDUs of a block, and the burst callback of
  \<open>phy/tetra_burst.c\<close> that hands the blocks over. The ETSI speech codec, which is not part of the
  repository, is an argument. Definitions only: \<open>ReceiveChain\<close>, \<open>PduLoop\<close> and \<open>Receiver\<close> hold the
  theorems.
\<close>

section \<open>Parameters and state\<close>

record tetra_blk_param =
  blk_name :: string
  type345_bits :: u16
  type2_bits :: u16
  type1_bits :: u16
  interleave_a :: u16
  have_crc16 :: u8

primrec blk_params :: "tp_sap_data_type \<Rightarrow> tetra_blk_param" where
  "blk_params TPSAP_T_SB1 = \<lparr>blk_name = ''SB1'', type345_bits = 120, type2_bits = 80, type1_bits = 60,
     interleave_a = 11, have_crc16 = 1\<rparr>"
| "blk_params TPSAP_T_SB2 = \<lparr>blk_name = ''SB2'', type345_bits = 216, type2_bits = 144, type1_bits = 124,
     interleave_a = 101, have_crc16 = 1\<rparr>"
| "blk_params TPSAP_T_NDB = \<lparr>blk_name = ''NDB'', type345_bits = 216, type2_bits = 144, type1_bits = 124,
     interleave_a = 101, have_crc16 = 1\<rparr>"
| "blk_params TPSAP_T_SCH_HU = \<lparr>blk_name = ''SCH/HU'', type345_bits = 168, type2_bits = 112, type1_bits = 92,
     interleave_a = 13, have_crc16 = 1\<rparr>"
| "blk_params TPSAP_T_SCH_F = \<lparr>blk_name = ''SCH/F'', type345_bits = 432, type2_bits = 288, type1_bits = 268,
     interleave_a = 103, have_crc16 = 1\<rparr>"
| "blk_params TPSAP_T_BBK = \<lparr>blk_name = ''BBK'', type345_bits = 30, type2_bits = 30, type1_bits = 14,
     interleave_a = 0, have_crc16 = 0\<rparr>"

record tetra_cell_data =
  cd_mcc :: u16
  cd_mnc :: u16
  colour_code :: u8
  cd_time :: tetra_tdma_time
  scramb_init :: u32

text \<open>The functions of the speech codec, with the static state behind them.\<close>

record 'c etsi_codec =
  Desinterleaving_Speech :: "u16 list \<Rightarrow> u16 list"
  Channel_Decoding :: "bool \<Rightarrow> int \<Rightarrow> u16 list \<Rightarrow> 'c \<Rightarrow> int \<times> u16 list \<times> 'c"
  Bits2prm_Tetra :: "u16 list \<Rightarrow> u16 list"
  Decod_Tetra :: "u16 list \<Rightarrow> 'c \<Rightarrow> u16 list \<times> 'c"
  Post_Process :: "u16 list \<Rightarrow> 'c \<Rightarrow> u16 list \<times> 'c"

text \<open>
  The state behind the PHY clock: the cell, the MAC state, the codec, and the frames of speech handed
  to \<open>put_voice_data\<close> so far.
\<close>

record 'c receiver =
  rx_tcd :: tetra_cell_data
  rx_tms :: tetra_mac_state
  rx_codec :: 'c
  rx_voice :: "u16 list list"

text \<open>An assertion of \<open>msgb_put\<close>, a buffer the decoder leaves, the upper MAC, the display's slots.\<close>

datatype lower_error = Block_fault | Upper_mac_fault | Display_fault

definition is_bsch :: "tetra_tdma_time \<Rightarrow> bool" where
  "is_bsch tm \<longleftrightarrow> fn tm = 18 \<and> tn tm = 4 - ((mn tm + 1) mod 4)"

definition is_bnch :: "tetra_tdma_time \<Rightarrow> bool" where
  "is_bnch tm \<longleftrightarrow> fn tm = 18 \<and> tn tm = 4 - ((mn tm + 3) mod 4)"

definition tmvsap_prim_alloc :: "(int \<Rightarrow> u8) \<Rightarrow> tmv_sap_prim \<Rightarrow> osmo_prim_operation \<Rightarrow> tetra_tmvsap_prim" where
  "tmvsap_prim_alloc heap prim op =
    \<lparr>sap = TETRA_SAP_TMV, primitive = prim, operation = op, msg = msgb_alloc heap 412,
     unitdata = \<lparr>mac_block_len = 0, lchan = TETRA_LC_UNKNOWN, crc_ok = 0, scrambling_code = 0,
       tdma_time = \<lparr>hn = 0, sn = 0, tn = 0, fn = 0, mn = 0\<rparr>, blk_num = 0\<rparr>\<rparr>"

section \<open>The receive chain\<close>

definition block_seed :: "tetra_cell_data \<Rightarrow> tp_sap_data_type \<Rightarrow> u32" where
  "block_seed tcd type = (if type = TPSAP_T_SB1 then SCRAMB_INIT else scramb_init tcd)"

definition descramble_block :: "u32 \<Rightarrow> tetra_blk_param \<Rightarrow> u8 list \<Rightarrow> u8 list" where
  "descramble_block seed tbp bits =
    (let n = unat (type345_bits tbp) in tetra_scramb_bits seed (take n bits) n)"

text \<open>
  The buffers hold what was on the stack; of each, the part that the following step reads is kept.
  \<open>junk\<close> is the memory the Viterbi decoder allocates.
\<close>

definition decode_block :: "(nat \<Rightarrow> u8) \<Rightarrow> (nat \<Rightarrow> u8) \<Rightarrow> tetra_blk_param \<Rightarrow> u8 list \<Rightarrow> u8 list option" where
  "decode_block stack junk tbp type4 =
    (let n = type345_bits tbp;
         type3 = block_deinterleave (ucast n) (ucast (interleave_a tbp)) type4 (map stack [0..<unat n]);
         type3dp = snd (tetra_rcpc_depunct TETRA_RCPC_PUNCT_2_3 type3 (ucast n) (replicate (512 * 4) 0xff))
     in viterbi_dec_sb1_wrapper junk (\<lambda>i. type3dp ! i) (map stack [0..<unat (type2_bits tbp)]) (unat (type2_bits tbp)))"

text \<open>The check and the display flag; the block without a code is taken as it is.\<close>

definition check_block ::
  "tp_sap_data_type \<Rightarrow> tetra_blk_param \<Rightarrow> u8 list \<Rightarrow> u8 list \<Rightarrow> tetra_display_state \<Rightarrow> int \<times> u8 list \<times> tetra_display_state" where
  "check_block type tbp type4 type2 ds =
    (if have_crc16 tbp \<noteq> 0 then
       (if crc16_ccitt_bits type2 (unat (type1_bits tbp) + 16) = TETRA_CRC_OK then (1, type2, ds\<lparr>last_crc_fail := False\<rparr>)
        else if type \<noteq> TPSAP_T_SCH_F then (0, type2, ds\<lparr>last_crc_fail := True\<rparr>)
        else (0, type2, ds))
     else if type = TPSAP_T_BBK then (1, take (unat (type2_bits tbp)) type4, ds\<lparr>last_crc_fail := False\<rparr>)
     else (0, type2, ds))"

text \<open>The synchronisation block: the display, the cell with its clock and seed, the network of the keys.\<close>

definition rx_sync_block ::
  "tetra_crypto_database \<Rightarrow> bool \<Rightarrow> (nat \<Rightarrow> u8) \<Rightarrow> tetra_cell_data \<Rightarrow> tetra_mac_state \<Rightarrow> tetra_cell_data \<times> tetra_mac_state" where
  "rx_sync_block tcdb ok type2 tcd tms =
    (let ds = (t_display_st tms)\<lparr>ds_mcc := sint (bits_to_uint (at type2 31) 10),
                ds_mnc := sint (bits_to_uint (at type2 41) 14), ds_cc := sint (bits_to_uint (at type2 4) 6)\<rparr>;
         tcd = (if ok then
                  (let tcd = tcd\<lparr>colour_code := fld type2 4 6,
                         cd_time := (cd_time tcd)\<lparr>tn := fld type2 10 2 + 1, fn := fld type2 12 5, mn := fld type2 17 6\<rparr>,
                         cd_mcc := fld type2 31 10, cd_mnc := fld type2 41 14\<rparr>
                   in tcd\<lparr>scramb_init := tetra_scramb_get_init (cd_mcc tcd) (cd_mnc tcd) (colour_code tcd)\<rparr>)
                else tcd);
         cs = (tcs tms)\<lparr>c_cc := uint (colour_code tcd)\<rparr>;
         cs = (if c_mcc cs \<noteq> ucast (cd_mcc tcd) \<or> c_mnc cs \<noteq> ucast (cd_mnc tcd)
               then update_current_network tcdb cs (uint (cd_mcc tcd)) (uint (cd_mnc tcd)) else cs)
     in (tcd, tms\<lparr>t_display_st := ds, tcs := cs\<rparr>))"

section \<open>The voice path\<close>

definition soft_speech :: "u8 list \<Rightarrow> nat \<Rightarrow> u16" where
  "soft_speech type4 i = (if type4 ! i \<noteq> 0 then - 127 else 127)"

definition voice_block :: "u8 list \<Rightarrow> u16 list" where
  "voice_block type4 =
    (let block = store_loop (\<lambda>i. 115 * i) (\<lambda>i. 0x6b21 + of_nat i) [0..<6] (replicate 690 0);
         block = store_loop (\<lambda>i. 1 + i) (\<lambda>i. soft_speech type4 i) [0..<114] block;
         block = store_loop (\<lambda>i. 116 + i) (\<lambda>i. soft_speech type4 (114 + i)) [0..<114] block;
         block = store_loop (\<lambda>i. 231 + i) (\<lambda>i. soft_speech type4 (228 + i)) [0..<114] block
     in store_loop (\<lambda>i. 346 + i) (\<lambda>i. soft_speech type4 (342 + i)) [0..<90] block)"

definition interleaved_speech :: "u16 list \<Rightarrow> u16 list" where
  "interleaved_speech block =
    map (\<lambda>x. if x AND 0x0080 = 0x0080 then x OR 0xff00 else x)
      (map (\<lambda>i. block ! (1 + i)) [0..<114] @ map (\<lambda>i. block ! ((161 - 45) + i)) [0..<114] @
       map (\<lambda>i. block ! ((321 - 45 - 45) + i)) [0..<114] @ map (\<lambda>i. block ! ((481 - 45 - 45 - 45) + i)) [0..<90])"

text \<open>One half of the synthesised speech.\<close>

definition synthesise :: "'c etsi_codec \<Rightarrow> u16 list \<Rightarrow> 'c \<Rightarrow> u16 list \<times> 'c" where
  "synthesise codec serial c =
    (let parm = Bits2prm_Tetra codec serial;
         (synth, c) = Decod_Tetra codec parm c
     in Post_Process codec synth c)"

definition decode_speech :: "'c etsi_codec \<Rightarrow> bool \<Rightarrow> u8 list \<Rightarrow> 'c \<Rightarrow> u16 list \<times> 'c" where
  "decode_speech codec first_pass type4 c =
    (let coded = Desinterleaving_Speech codec (interleaved_speech (voice_block type4));
         (rc, reordered, c) = Channel_Decoding codec first_pass 0 coded c;
         corrupted = (if rc \<noteq> 0 then 1 else 0);
         cdecoder_output = (corrupted # map (\<lambda>i. reordered ! i) [0..<137]) @
           (corrupted # map (\<lambda>i. reordered ! (137 + i)) [0..<137]);
         (synth, c) = synthesise codec (map (\<lambda>i. cdecoder_output ! i) [0..<138]) c;
         (synth_p2, c) = synthesise codec (map (\<lambda>i. cdecoder_output ! (i + 138)) [0..<138]) c
     in (synth @ synth_p2, c))"

definition rx_speech :: "'c etsi_codec \<Rightarrow> u8 list \<Rightarrow> tetra_tdma_time \<Rightarrow> 'c receiver \<Rightarrow> 'c receiver" where
  "rx_speech codec type4 phy w =
    (let tms = rx_tms w;
         (synth, c) = decode_speech codec (codec_first_pass tms) type4 (rx_codec w);
         tms = tms\<lparr>codec_first_pass := False\<rparr>;
         tms = (if curr_frame (t_display_st tms) \<noteq> last_frame tms
                then tms\<lparr>curr_active_timeslot := sint (tn phy), last_frame := curr_frame (t_display_st tms)\<rparr> else tms)
     in w\<lparr>rx_tms := tms, rx_codec := c,
          rx_voice := (if of_int (curr_active_timeslot tms) = tn phy then rx_voice w @ [synth] else rx_voice w)\<rparr>)"

section \<open>The loop over the PDUs of a block\<close>

text \<open>A round: the time of the cell goes with the primitive; the result is the size of the PDU.\<close>

definition pdu_round ::
  "bool \<Rightarrow> tetra_crypto_database \<Rightarrow> (int \<Rightarrow> u8) \<Rightarrow> tetra_tdma_time \<Rightarrow> tetra_tmvsap_prim \<Rightarrow> tetra_mac_state \<Rightarrow> mac_result" where
  "pdu_round ndebug tcdb heap tm ttp tms =
    upper_mac_prim_recv ndebug tcdb heap (ttp\<lparr>unitdata := (unitdata ttp)\<lparr>tdma_time := tm\<rparr>\<rparr>) tms"

text \<open>The message from the next PDU on, up to the end of the timeslot.\<close>

definition advance_msg :: "int \<Rightarrow> int \<Rightarrow> u32 \<Rightarrow> msgb \<Rightarrow> msgb" where
  "advance_msg orig_head orig_tail offset m =
    (let h = orig_head + uint offset
     in m\<lparr>head := h, tail := orig_tail, m_len := of_int (orig_tail - h),
          l1h := Some h, l2h := None, l3h := None, l4h := None\<rparr>)"

partial_function (option) pdu_loop ::
  "bool \<Rightarrow> tetra_crypto_database \<Rightarrow> (int \<Rightarrow> u8) \<Rightarrow> tetra_tdma_time \<Rightarrow> u32 \<Rightarrow> int \<Rightarrow> int \<Rightarrow> u32 \<Rightarrow>
    tetra_tmvsap_prim \<Rightarrow> tetra_mac_state \<Rightarrow> (lower_error + tetra_mac_state) option" where
  "pdu_loop ndebug tcdb heap tm limit orig_head orig_tail offset ttp tms =
    (if offset < limit then
       (case pdu_round ndebug tcdb heap tm ttp tms of
          None \<Rightarrow> Some (Inl Upper_mac_fault)
        | Some (pdu_bits, ttp, tms) \<Rightarrow>
            if pdu_bits < 0 then Some (Inr tms)
            else
              (let offset = offset + of_int pdu_bits
               in pdu_loop ndebug tcdb heap tm limit orig_head orig_tail offset
                    (ttp\<lparr>msg := advance_msg orig_head orig_tail offset (msg ttp)\<rparr>) tms))
     else Some (Inr tms))"

section \<open>A block from the PHY\<close>

text \<open>
  The message with the block's bits. The result is \<^theory_text>\<open>None\<close> when the loop does not return.
\<close>

definition block_msg :: "tetra_blk_param \<Rightarrow> u8 list \<Rightarrow> msgb \<Rightarrow> msgb option" where
  "block_msg tbp type2 m =
    Option.bind (msgb_put m (ucast (type1_bits tbp))) (\<lambda>(m, p).
      msgb_write (m\<lparr>l1h := Some p\<rparr>) p (unat (type1_bits tbp)) (\<lambda>i. type2 ! i))"

definition block_lchan :: "tetra_tdma_time \<Rightarrow> tp_sap_data_type \<Rightarrow> tetra_log_chan" where
  "block_lchan tm type =
    (case type of
       TPSAP_T_SB1 \<Rightarrow> TETRA_LC_BSCH
     | TPSAP_T_SB2 \<Rightarrow> if is_bnch tm then TETRA_LC_BNCH else TETRA_LC_UNKNOWN
     | TPSAP_T_BBK \<Rightarrow> TETRA_LC_AACH
     | TPSAP_T_SCH_F \<Rightarrow> TETRA_LC_SCH_F
     | _ \<Rightarrow> TETRA_LC_UNKNOWN)"

definition block_type2 ::
  "(nat \<Rightarrow> u8) \<Rightarrow> (nat \<Rightarrow> u8) \<Rightarrow> tetra_blk_param \<Rightarrow> u8 list \<Rightarrow> u8 list option" where
  "block_type2 stack junk tbp type4 =
    (if interleave_a tbp \<noteq> 0 then decode_block stack junk tbp type4
     else Some (map stack [0..<unat (type2_bits tbp)]))"

definition tp_sap_udata_ind ::
  "bool \<Rightarrow> tetra_crypto_database \<Rightarrow> 'c etsi_codec \<Rightarrow> (nat \<Rightarrow> u8) \<Rightarrow> (nat \<Rightarrow> u8) \<Rightarrow> (int \<Rightarrow> u8) \<Rightarrow>
    tp_sap_data_type \<Rightarrow> int \<Rightarrow> u8 list \<Rightarrow> tetra_tdma_time \<times> 'c receiver \<Rightarrow>
    (lower_error + tetra_tdma_time \<times> 'c receiver) option" where
  "tp_sap_udata_ind ndebug tcdb codec stack junk heap type blk bits pw =
    (let (phy, w) = pw;
         tbp = blk_params type;
         ttp = tmvsap_prim_alloc heap PRIM_TMV_UNITDATA PRIM_OP_INDICATION;
         tcd = (rx_tcd w)\<lparr>cd_time := phy\<rparr>;
         seed = block_seed tcd type;
         type4 = descramble_block seed tbp bits;
         tms = rx_tms w;
         tms = (if is_traffic tms \<noteq> 0 \<and> type = TPSAP_T_NDB \<and> blk = BLK_1 then tms\<lparr>blk1_stolen := True\<rparr> else tms)
     in case block_type2 stack junk tbp type4 of
          None \<Rightarrow> Some (Inl Block_fault)
        | Some type2 \<Rightarrow>
            (let (ok, type2, ds) = check_block type tbp type4 type2 (t_display_st tms);
                 tms = tms\<lparr>t_display_st := ds\<rparr>
             in case block_msg tbp type2 (msg ttp) of
                  None \<Rightarrow> Some (Inl Block_fault)
                | Some m \<Rightarrow>
                    (let (tcd, tms) = (if type = TPSAP_T_SB1 then rx_sync_block tcdb (ok \<noteq> 0) (\<lambda>i. type2 ! i) tcd tms
                                       else (tcd, tms));
                         phy = (if type = TPSAP_T_SB1 then cd_time tcd else phy);
                         w = w\<lparr>rx_tcd := tcd, rx_tms := tms\<rparr>;
                         w = (if type = TPSAP_T_SCH_F \<and> is_traffic tms \<noteq> 0 then rx_speech codec type4 phy w else w);
                         ttp = ttp\<lparr>msg := m, unitdata := (unitdata ttp)\<lparr>lchan := block_lchan phy type, crc_ok := ok,
                                 scrambling_code := seed, blk_num := blk\<rparr>\<rparr>
                     in map_option (map_sum id (\<lambda>tms. (phy, w\<lparr>rx_tms := tms\<rparr>)))
                          (pdu_loop ndebug tcdb heap (cd_time tcd) (ucast (type1_bits tbp) - 16) (head m) (tail m) 0
                             ttp (rx_tms w)))))"

section \<open>A burst from the synchroniser\<close>

fun rx_blocks ::
  "bool \<Rightarrow> tetra_crypto_database \<Rightarrow> 'c etsi_codec \<Rightarrow> (nat \<Rightarrow> u8) \<Rightarrow> (nat \<Rightarrow> u8) \<Rightarrow> (int \<Rightarrow> u8) \<Rightarrow>
    (tp_sap_data_type \<times> int \<times> u8 list) list \<Rightarrow> tetra_tdma_time \<times> 'c receiver \<Rightarrow>
    (lower_error + tetra_tdma_time \<times> 'c receiver) option" where
  "rx_blocks ndebug tcdb codec stack junk heap [] pw = Some (Inr pw)"
| "rx_blocks ndebug tcdb codec stack junk heap ((type, blk, bits) # bs) pw =
    Option.bind (tp_sap_udata_ind ndebug tcdb codec stack junk heap type blk bits pw) (\<lambda>r.
      case r of Inl e \<Rightarrow> Some (Inl e) | Inr pw \<Rightarrow> rx_blocks ndebug tcdb codec stack junk heap bs pw)"

definition slot_content :: "tetra_train_seq \<Rightarrow> tetra_mac_state \<Rightarrow> int" where
  "slot_content type tms =
    (case type of
       TETRA_TRAIN_SYNC \<Rightarrow> 3
     | TETRA_TRAIN_NORM_2 \<Rightarrow> 2
     | TETRA_TRAIN_NORM_1 \<Rightarrow> if is_traffic tms = 0 then 1 else 4
     | _ \<Rightarrow> 0)"

definition tetra_burst_rx_cb ::
  "bool \<Rightarrow> tetra_crypto_database \<Rightarrow> 'c etsi_codec \<Rightarrow> (nat \<Rightarrow> u8) \<Rightarrow> (nat \<Rightarrow> u8) \<Rightarrow> (int \<Rightarrow> u8) \<Rightarrow>
    u8 list \<Rightarrow> tetra_train_seq \<Rightarrow> tetra_tdma_time \<times> 'c receiver \<Rightarrow>
    (lower_error + tetra_tdma_time \<times> 'c receiver) option" where
  "tetra_burst_rx_cb ndebug tcdb codec stack junk heap burst type pw =
    (let (phy, w) = pw;
         show_time = (\<lambda>ds. ds\<lparr>curr_multiframe := sint (mn phy), curr_frame := sint (fn phy)\<rparr>);
         w = w\<lparr>rx_tms := (rx_tms w)\<lparr>t_display_st := show_time (t_display_st (rx_tms w))\<rparr>\<rparr>
     in Option.bind (rx_blocks ndebug tcdb codec stack junk heap (burst_blocks burst type) (phy, w)) (\<lambda>r.
          case r of
            Inl e \<Rightarrow> Some (Inl e)
          | Inr (phy, w) \<Rightarrow>
              (let tms = rx_tms w; ds = t_display_st tms; i = unat (tn phy - 1)
               in if i < 4 then
                    Some (Inr (phy, w\<lparr>rx_tms := tms\<lparr>t_display_st :=
                      ds\<lparr>timeslot_content := (timeslot_content ds)[i := slot_content type tms]\<rparr>\<rparr>\<rparr>))
                  else Some (Inl Display_fault))))"

end
