(* ===== verification/ReceiveChain.thy ===== *)
theory ReceiveChain
  imports LowerMac
begin

text \<open>
  The receive chain of the lower MAC against the transmit chain: a transmitter built from the encoder,
  the puncturing, the interleaver and the scrambler of the code, which \<open>descramble_block\<close> and
  \<open>decode_block\<close> undo, with the interface of a coding chain interpreted on them; the check sequence;
  and the soft bits the voice path hands to the speech codec.
\<close>

section \<open>The table of block parameters\<close>

lemma blk_sizes:
  "unat (type345_bits (blk_params type)) \<le> 432" "unat (type1_bits (blk_params type)) \<le> 268"
  "14 \<le> unat (type1_bits (blk_params type))" "unat (type2_bits (blk_params type)) \<le> 288"
  "unat (type1_bits (blk_params type)) \<le> unat (type2_bits (blk_params type))"
  by (cases type; simp)+

lemma coded_sizes:
  assumes "type \<noteq> TPSAP_T_BBK"
  shows "3 * unat (type2_bits (blk_params type)) = 2 * unat (type345_bits (blk_params type))"
    "even (unat (type2_bits (blk_params type)))" "0 < unat (type2_bits (blk_params type))"
    "unat (type1_bits (blk_params type)) + 20 = unat (type2_bits (blk_params type))"
    "interleave_a (blk_params type) \<noteq> 0" "have_crc16 (blk_params type) \<noteq> 0"
  using assms by (cases type; simp)+

lemma interleave_params_blk:
  "interleave_a (blk_params type) \<noteq> 0 \<Longrightarrow>
    interleave_params (ucast (type345_bits (blk_params type))) (ucast (interleave_a (blk_params type)))"
  by (cases type) (simp_all add: interleave_params_def coprime_iff_gcd_eq_1 gcd_non_0_nat unsigned_ucast_eq)

section \<open>The transmit chain\<close>

text \<open>Interleaving and scrambling as stages over the bits of a block, without interleaving when the table has none.\<close>

definition interleave_block :: "(nat \<Rightarrow> u8) \<Rightarrow> tetra_blk_param \<Rightarrow> u8 list \<Rightarrow> u8 list" where
  "interleave_block stack tbp xs =
    (if interleave_a tbp \<noteq> 0
     then block_interleave (ucast (type345_bits tbp)) (ucast (interleave_a tbp)) xs (map stack [0..<unat (type345_bits tbp)])
     else xs)"

definition deinterleave_block :: "(nat \<Rightarrow> u8) \<Rightarrow> tetra_blk_param \<Rightarrow> u8 list \<Rightarrow> u8 list" where
  "deinterleave_block stack tbp xs =
    (if interleave_a tbp \<noteq> 0
     then block_deinterleave (ucast (type345_bits tbp)) (ucast (interleave_a tbp)) xs (map stack [0..<unat (type345_bits tbp)])
     else xs)"

interpretation channel: coding_chain "unat (type345_bits (blk_params type))"
  "interleave_block stack (blk_params type)" "deinterleave_block stack' (blk_params type)"
  "\<lambda>xs. tetra_scramb_bits seed xs (unat (type345_bits (blk_params type)))"
  "\<lambda>xs. tetra_scramb_bits seed xs (unat (type345_bits (blk_params type)))"
  for type seed stack stack'
proof unfold_locales
  fix xs :: "u8 list" assume n: "length xs = unat (type345_bits (blk_params type))"
  then show "length (interleave_block stack (blk_params type) xs) = unat (type345_bits (blk_params type))"
    by (simp add: interleave_block_def)
  have "unat (ucast (type345_bits (blk_params type)) :: u32) = unat (type345_bits (blk_params type))"
    by (cases type) simp_all
  then show "deinterleave_block stack' (blk_params type) (interleave_block stack (blk_params type) xs) = xs"
    using n interleave_params_blk [of type]
    by (auto simp: interleave_block_def deinterleave_block_def intro!: block_deinterleave_interleave)
qed

text \<open>
  The transmitter's chain, from the functions of the code: encoding from the initial state, puncturing
  at rate 2/3, interleaving, scrambling.
\<close>

definition transmit_block :: "(nat \<Rightarrow> u8) \<Rightarrow> u32 \<Rightarrow> tetra_blk_param \<Rightarrow> u8 list \<Rightarrow> u8 list" where
  "transmit_block stack seed tbp type2 =
    (let n = unat (type345_bits tbp); k = unat (type2_bits tbp);
         mother = snd (snd (conv_enc_input (snd (conv_enc_init \<lparr>delayed = [0, 0, 0, 0]\<rparr>)) type2 k (map stack [0..<4 * k])));
         type3 = snd (get_punctured_rate TETRA_RCPC_PUNCT_2_3 mother (of_nat n) (map stack [0..<n]))
     in tetra_scramb_bits seed (interleave_block stack tbp type3) n)"

lemma nth_concat_4: "t < n \<Longrightarrow> j < 4 \<Longrightarrow> concat (map (mother_bits xs) [0..<n]) ! (4 * t + j) = mother_bits xs t ! j"
proof (induction n)
  case (Suc n)
  have l: "length (concat (map (mother_bits xs) [0..<m])) = 4 * m" for m
    by (induction m) auto
  show ?case
  proof (cases "t = n")
    case True
    then show ?thesis using l [of n] Suc.prems by (simp add: nth_append)
  next
    case False
    then have "t < n" "4 * t + j < 4 * n" using Suc.prems by simp_all
    then show ?thesis using l [of n] Suc.IH Suc.prems by (simp add: nth_append)
  qed
qed simp

lemma sent_2_3:
  assumes "1 \<le> j" "j < 2 ^ 20"
  shows "sent_offset TETRA_RCPC_PUNCT_2_3 j = 8 * ((j - 1) div 3) + [0, 1, 4] ! ((j - 1) mod 3)"
proof -
  have "(j - 1) mod 3 < 3" by simp
  then have m: "(j - 1) mod 3 = 0 \<or> (j - 1) mod 3 = 1 \<or> (j - 1) mod 3 = 2" by linarith
  have p: "tetra_puncts ! 0 = punct_2_3" by (simp add: tetra_puncts_def)
  show ?thesis
    using punct_k_minus_1 [of TETRA_RCPC_PUNCT_2_3 j] assms m
    by (auto simp: sent_offset_def TETRA_RCPC_PUNCT_2_3_def idx_of_def punct_pos_def p punct_2_3_def P_rate2_3_def)
qed

lemma sent_2_3_set:
  assumes "even k" "3 * k = 2 * n" "n < 2 ^ 20" "i < 4 * k"
  shows "i \<in> sent_offset TETRA_RCPC_PUNCT_2_3 ` {1..n} \<longleftrightarrow> i mod 8 \<in> {0, 1, 4}"
proof
  assume "i \<in> sent_offset TETRA_RCPC_PUNCT_2_3 ` {1..n}"
  then obtain j where j: "1 \<le> j" "j \<le> n" "i = sent_offset TETRA_RCPC_PUNCT_2_3 j" by auto
  have "(j - 1) mod 3 < 3" by simp
  then have m: "(j - 1) mod 3 = 0 \<or> (j - 1) mod 3 = 1 \<or> (j - 1) mod 3 = 2" by linarith
  have "i = 8 * ((j - 1) div 3) + [0, 1, 4] ! ((j - 1) mod 3)"
    unfolding j(3) using j assms(3) by (intro sent_2_3) simp_all
  then show "i mod 8 \<in> {0, 1, 4}" using m by auto
next
  assume i: "i mod 8 \<in> {0, 1, 4}"
  define j where "j = 3 * (i div 8) + (if i mod 8 = 0 then 0 else if i mod 8 = 1 then 1 else 2) + (1 :: nat)"
  have q: "(j - 1) div 3 = i div 8" "(j - 1) mod 3 = (if i mod 8 = 0 then 0 else if i mod 8 = 1 then 1 else 2)"
    by (simp_all add: j_def)
  obtain m where m: "k = 2 * m" "n = 3 * m" using evenE [OF assms(1)] assms(2) by fastforce
  then have "i div 8 < m" using assms(4) by (simp add: div_less_iff_less_mult)
  then have "j \<le> n" unfolding j_def m(2) by simp
  have "1 \<le> j" "j < 2 ^ 20" using \<open>j \<le> n\<close> assms(3) by (simp_all add: j_def)
  then have "sent_offset TETRA_RCPC_PUNCT_2_3 j = 8 * (i div 8) + [0, 1, 4] ! (if i mod 8 = 0 then 0 else if i mod 8 = 1 then 1 else 2)"
    unfolding q [symmetric] by (rule sent_2_3)
  moreover have "[0, 1, 4] ! (if i mod 8 = 0 then 0 else if i mod 8 = 1 then 1 else 2) = i mod 8" using i by auto
  ultimately have "sent_offset TETRA_RCPC_PUNCT_2_3 j = 8 * (i div 8) + i mod 8" by simp
  then have "i = sent_offset TETRA_RCPC_PUNCT_2_3 j" by simp
  then show "i \<in> sent_offset TETRA_RCPC_PUNCT_2_3 ` {1..n}" using \<open>j \<le> n\<close> by (auto simp: j_def)
qed

lemma depunctured_erased:
  assumes k: "even k" "3 * k = 2 * n" "n \<le> 512" "0 < k" and xs: "length xs = k" "4 * k \<le> length out"
    and mother: "\<And>i. i < 4 * k \<Longrightarrow> mother ! i = concat (map (mother_bits xs) [0..<k]) ! i"
    and out: "\<And>i. i < length out \<Longrightarrow> out ! i = 0xff" and buf: "length buf = n"
  shows "erased_only (\<lambda>i. snd (tetra_rcpc_depunct TETRA_RCPC_PUNCT_2_3
    (snd (get_punctured_rate TETRA_RCPC_PUNCT_2_3 mother (of_nat n) buf)) (of_nat n) out) ! i) xs"
proof -
  define d where "d = snd (tetra_rcpc_depunct TETRA_RCPC_PUNCT_2_3
    (snd (get_punctured_rate TETRA_RCPC_PUNCT_2_3 mother (of_nat n) buf)) (of_nat n) out)"
  have un: "unat (of_nat n :: u32) = n" using k(3) by (intro unat_of_nat_lt) simp
  have so: "sent_offset TETRA_RCPC_PUNCT_2_3 n < length out"
  proof -
    have "1 \<le> n" using k by simp
    moreover have "n < 2 ^ 20" using k by simp
    ultimately have "sent_offset TETRA_RCPC_PUNCT_2_3 n = 8 * ((n - 1) div 3) + [0, 1, 4] ! ((n - 1) mod 3)" by (rule sent_2_3)
    moreover have "[0, 1, 4 :: nat] ! ((n - 1) mod 3) \<le> 4"
    proof -
      have "(n - 1) mod 3 < 3" by simp
      then have "(n - 1) mod 3 = 0 \<or> (n - 1) mod 3 = 1 \<or> (n - 1) mod 3 = 2" by linarith
      then show ?thesis by auto
    qed
    moreover have "8 * ((n - 1) div 3) + 4 < 4 * k"
    proof -
      obtain m where m: "k = 2 * m" "n = 3 * m" using evenE [OF k(1)] k(2) by fastforce
      then have "(n - 1) div 3 < m" using k(4) by (simp add: div_less_iff_less_mult)
      then show ?thesis using m by simp
    qed
    ultimately show ?thesis using xs(2) by linarith
  qed
  have d: "d ! i = (if i mod 8 \<in> {0, 1, 4} then concat (map (mother_bits xs) [0..<k]) ! i else 0xff)" if "i < 4 * k" for i
    unfolding d_def
    using that depunct_punct_nth [of TETRA_RCPC_PUNCT_2_3 "of_nat n" out buf mother i] so buf un mother [of i] out [of i] xs(2)
      sent_2_3_set [of k n i] k
    by (simp add: TETRA_RCPC_PUNCT_2_3_def)
  show ?thesis
    unfolding d_def [symmetric] erased_only_def
  proof (intro allI impI conjI)
    fix t assume t: "t < length xs"
    have dj: "d ! (4 * t + j) = (if (4 * t + j) mod 8 \<in> {0, 1, 4} then mother_bits xs t ! j else 0xff)" if "j < 4" for j
      using d [of "4 * t + j"] nth_concat_4 [of t k j xs] that t xs(1) by simp
    show "d ! (4 * t + j) = 0xff \<or> d ! (4 * t + j) = mother_bits xs t ! j" if "j < 4" for j using dj [OF that] by simp
    have "(4 * t + 2) mod 8 \<notin> {0, 1, 4}" "(4 * t + 0) mod 8 \<in> {0, 1, 4}" by (simp_all, presburger+)
    then have "d ! (4 * t + 2) = 0xff" "d ! (4 * t + 0) = mother_bits xs t ! 0" using dj [of 2] dj [of 0] by simp_all
    moreover have "mother_bits xs t ! 0 \<noteq> 0xff" using mother_bits_bit [of 0 xs t] by auto
    ultimately have "(2::nat) < 4 \<and> d ! (4 * t + 2) = 0xff" "(0::nat) < 4 \<and> d ! (4 * t + 0) \<noteq> 0xff" by simp_all
    then show "\<exists>j<4. d ! (4 * t + j) = 0xff" "\<exists>j<4. d ! (4 * t + j) \<noteq> 0xff" by blast+
  qed
qed

lemma decode_transmitted:
  assumes ty: "type \<noteq> TPSAP_T_BBK" and xs: "is_bits xs" "length xs = unat (type2_bits (blk_params type))"
  shows "decode_block stack junk (blk_params type)
    (descramble_block seed (blk_params type) (transmit_block stack' seed (blk_params type) xs)) = Some xs"
proof -
  let ?tbp = "blk_params type"
  define n where "n = unat (type345_bits ?tbp)"
  define k where "k = unat (type2_bits ?tbp)"
  define mother where "mother = snd (snd (conv_enc_input (snd (conv_enc_init \<lparr>delayed = [0, 0, 0, 0]\<rparr>)) xs k (map stack' [0..<4 * k])))"
  define type3 where "type3 = snd (get_punctured_rate TETRA_RCPC_PUNCT_2_3 mother (of_nat n) (map stack' [0..<n]))"
  note s = coded_sizes [OF ty] and b = blk_sizes [of type]
  have l3: "length type3 = n" by (simp add: type3_def)
  have nw: "of_nat n = (ucast (type345_bits ?tbp) :: u32)"
    by (cases type) (simp_all add: n_def)
  have lt: "length (tetra_scramb_bits seed (interleave_block stack' ?tbp type3) n) = n"
    using channel.chain.length_enc l3 by (simp add: n_def)
  then have de: "descramble_block seed ?tbp (transmit_block stack' seed ?tbp xs)
      = tetra_scramb_bits seed (tetra_scramb_bits seed (interleave_block stack' ?tbp type3) n) n"
    unfolding descramble_block_def transmit_block_def Let_def n_def [symmetric] k_def [symmetric]
      mother_def [symmetric] type3_def [symmetric] by simp
  have di: "block_deinterleave (ucast (type345_bits ?tbp)) (ucast (interleave_a ?tbp))
      (descramble_block seed ?tbp (transmit_block stack' seed ?tbp xs)) (map stack [0..<n]) = type3"
    using channel.chain_dec_enc [where xs = type3 and type = type and seed = seed and stack = stack' and stack' = stack] l3 s(5)
    unfolding de deinterleave_block_def n_def [symmetric] by simp
  have m: "mother ! i = concat (map (mother_bits xs) [0..<k]) ! i" if "i < 4 * k" for i
  proof -
    have "length (concat (map (mother_bits xs) [0..<m])) = 4 * m" for m by (induction m) auto
    then show ?thesis unfolding mother_def using xs that
      by (subst conv_enc_input_eq) (simp_all add: k_def nth_append)
  qed
  have "erased_only (\<lambda>i. snd (tetra_rcpc_depunct TETRA_RCPC_PUNCT_2_3 type3 (of_nat n) (replicate (512 * 4) 0xff)) ! i) xs"
    unfolding type3_def using s b xs m by (intro depunctured_erased [where k = k]) (simp_all add: k_def n_def)
  then have "viterbi_dec_sb1_wrapper junk
      (\<lambda>i. snd (tetra_rcpc_depunct TETRA_RCPC_PUNCT_2_3 type3 (of_nat n) (replicate (512 * 4) 0xff)) ! i)
      (map stack [0..<k]) (length xs) = Some xs"
    using xs s b by (intro wrapper_erasures) (simp_all add: k_def)
  then show ?thesis
    unfolding decode_block_def Let_def n_def [symmetric] di unfolding nw [symmetric] using xs(2) by (simp add: k_def)
qed

section \<open>Blocks that pass the check\<close>

text \<open>The type-2 bits of a block: its data, the complement of their CRC, four tail bits.\<close>

definition add_check :: "u8 list \<Rightarrow> u8 list" where
  "add_check xs = xs @ msb_bits (NOT (crc16_ccitt_bits xs (length xs))) @ replicate 4 0"

lemma length_add_check [simp]: "length (add_check xs) = length xs + 20"
  by (simp add: add_check_def)

lemma is_bits_add_check: "is_bits xs \<Longrightarrow> is_bits (add_check xs)"
  by (simp add: add_check_def is_bits_msb_bits)

lemma nth_add_check: "i < length xs \<Longrightarrow> add_check xs ! i = xs ! i"
  by (simp add: add_check_def nth_append)

lemma crc_add_check: "crc16_ccitt_bits (add_check xs) (length xs + 16) = TETRA_CRC_OK"
  by (simp add: crc16_ccitt_bits_def crc16_itut_bits_fold crc_fold_append crc_fold_check add_check_def)

lemma check_add_check:
  assumes "type \<noteq> TPSAP_T_BBK" "length xs = unat (type1_bits (blk_params type))"
  shows "check_block type (blk_params type) type4 (add_check xs) ds = (1, add_check xs, ds\<lparr>last_crc_fail := False\<rparr>)"
  using coded_sizes(6) [OF assms(1)] crc_add_check [of xs] by (simp add: check_block_def assms(2))

lemma coded_type2:
  assumes "type \<noteq> TPSAP_T_BBK" "is_bits xs" "length xs = unat (type1_bits (blk_params type))"
  shows "block_type2 stack junk (blk_params type)
    (descramble_block seed (blk_params type) (transmit_block stack' seed (blk_params type) (add_check xs))) = Some (add_check xs)"
  using coded_sizes(4,5) [OF assms(1)] assms is_bits_add_check
  by (simp add: block_type2_def decode_transmitted)


section \<open>The soft bits of speech\<close>

lemma sign_extension:
  "(if soft_speech type4 i AND 0x0080 = 0x0080 then soft_speech type4 i OR 0xff00 else soft_speech type4 i) = soft_speech type4 i"
proof -
  have "(- 127 :: u16) AND 0x0080 = 0x0080" "(- 127 :: u16) OR 0xff00 = - 127" "(127 :: u16) AND 0x0080 \<noteq> 0x0080" by code_simp+
  then show ?thesis by (simp add: soft_speech_def)
qed

text \<open>A loop that stores a run of elements, read inside and outside the run.\<close>

lemma nth_run:
  assumes "k < length out"
  shows "store_loop (\<lambda>i. c + i) g [0..<n] out ! k = (if c \<le> k \<and> k < c + n then g (k - c) else out ! k)"
proof (cases "c \<le> k \<and> k < c + n")
  case True
  have "store_loop (\<lambda>i. c + i) g [0..<n] out ! (c + (k - c)) = g (k - c)"
    using True assms by (intro nth_store_loop) (auto simp: distinct_map)
  then show ?thesis using True by simp
next
  case False
  then have "k \<notin> (\<lambda>i. c + i) ` set [0..<n]" by auto
  then show ?thesis using False nth_store_loop_notin [of k "\<lambda>i. c + i" "[0..<n]" g out] by auto
qed

lemma interleaved_voice: "interleaved_speech (voice_block type4) = map (soft_speech type4) [0..<432]"
proof -
  let ?b = "voice_block type4"
  have b: "?b ! (1 + i) = soft_speech type4 i" "?b ! (116 + i) = soft_speech type4 (114 + i)"
    "?b ! (231 + i) = soft_speech type4 (228 + i)" if "i < 114" for i
    using that by (simp_all add: voice_block_def Let_def nth_run nth_run [of _ _ 1, simplified])
  have b4: "?b ! (346 + i) = soft_speech type4 (342 + i)" if "i < 90" for i
    using that by (simp add: voice_block_def Let_def nth_run)
  have up: "[0..<432] = [0..<114] @ map (\<lambda>i. 114 + i) [0..<114] @ map (\<lambda>i. 228 + i) [0..<114] @ map (\<lambda>i. 342 + i) [0..<90]"
    by (rule nth_equalityI) (auto simp: nth_append simp del: upt_Suc)
  have "map (\<lambda>i. ?b ! (1 + i)) [0..<114] @ map (\<lambda>i. ?b ! ((161 - 45) + i)) [0..<114] @
      map (\<lambda>i. ?b ! ((321 - 45 - 45) + i)) [0..<114] @ map (\<lambda>i. ?b ! ((481 - 45 - 45 - 45) + i)) [0..<90]
    = map (soft_speech type4) [0..<432]"
    unfolding up using b b4 by simp
  then show ?thesis unfolding interleaved_speech_def by (simp add: sign_extension del: upt_Suc)
qed

section \<open>Properties\<close>

text \<open>
  C1. The receive chain undoes the transmit chain: a block encoded from the initial state, punctured at
  rate 2/3, interleaved and scrambled is decoded to its type-2 bits by descrambling, de-interleaving,
  de-puncturing into erasures and maximum likelihood decoding, for every type of coded block and every
  scrambling code, whatever the buffers held.
\<close>
theorem received_blocks_decode:
  assumes "type \<noteq> TPSAP_T_BBK" "is_bits xs" "length xs = unat (type2_bits (blk_params type))"
  shows "decode_block stack junk (blk_params type)
    (descramble_block seed (blk_params type) (transmit_block stack' seed (blk_params type) xs)) = Some xs"
  by (rule decode_transmitted [OF assms])

theorem received_blocks_decode_witness:
  "decode_block (\<lambda>_. 7) (\<lambda>_. 9) (blk_params TPSAP_T_SB1)
    (descramble_block SCRAMB_INIT (blk_params TPSAP_T_SB1)
      (transmit_block (\<lambda>_. 5) SCRAMB_INIT (blk_params TPSAP_T_SB1) (replicate 30 1 @ replicate 50 0))) =
    Some (replicate 30 1 @ replicate 50 0)"
  by (rule received_blocks_decode) simp_all

text \<open>
  The block of 690 words with its six frame markers, and the copies out of it, are a detour: what
  the speech codec gets is the descrambled bits in order, 0 as 127 and 1 as -127, and the extension of
  the sign changes none of them.
\<close>
theorem speech_soft_bits: "interleaved_speech (voice_block type4) = map (soft_speech type4) [0..<432]"
  by (rule interleaved_voice)

end
