(* ===== verification/PduLoop.thy ===== *)
theory PduLoop
  imports LowerMac
begin

text \<open>
  The loop of the lower MAC over the PDUs of a block (\<open>pdu_loop\<close>): the sizes the upper MAC reports, the
  rounds of the loop as a step relation, that the loop returns unless a run of it comes to a PDU of
  length zero, and that a MAC-END of length zero in a slot that collects nothing makes it run for ever.
\<close>

section \<open>The sizes the upper MAC reports\<close>

lemma rx_resrc_bits:
  assumes "rx_resrc ndebug tcdb heap tmvp tms = Some (n, tmvp', tms')"
  shows "n < 0 \<or> 8 \<le> n \<and> n \<le> 464"
proof -
  obtain p where p: "l1h (msg tmvp) = Some p" using assms by (auto simp: rx_resrc_def bind_eq_Some_conv)
  obtain rsd off where dec: "macpdu_decode_resource zero_rsd (msgb_at (msg tmvp) p) 0 = (rsd, off)" by fastforce
  obtain pb m where ext: "resource_extent (msg tmvp) (macpdu_length rsd) = (pb, m)" by fastforce
  from assms have "n = - 1 \<or> n = pb"
    unfolding rx_resrc_def p Option.bind.bind_lunit Let_def dec prod.case ext
    by (auto simp: bind_eq_Some_conv split: if_split_asm prod.split_asm)
  moreover have "macpdu_length rsd < 0 \<or> 1 \<le> macpdu_length rsd \<and> macpdu_length rsd \<le> 58"
    using macpdu_length_range [of "msgb_at (msg tmvp) p" 0] by (auto simp: dec)
  ultimately show ?thesis using ext by (auto simp: resource_extent_def split: if_split_asm)
qed

lemma rx_macend_bits:
  assumes "rx_macend ndebug tcdb tmvp tms = Some (n, tmvp', tms')"
  shows "\<exists>p. l1h (msg tmvp) = Some p \<and> n = uint (fld (msgb_at (msg tmvp) p) 5 6 :: u8) * 8 \<and> 0 \<le> n \<and> n \<le> 504"
proof -
  obtain p where p: "l1h (msg tmvp) = Some p" using assms by (auto simp: rx_macend_def Let_def bind_eq_Some_conv)
  have "n = uint (fld (msgb_at (msg tmvp) p) 5 6 :: u8) * 8"
    using assms unfolding rx_macend_def Let_def p Option.bind.bind_lunit
    by (auto simp: bind_eq_Some_conv split: if_split_asm prod.split_asm)
  moreover have "unat (fld (msgb_at (msg tmvp) p) 5 6 :: u8) < 64"
    using fld_less [of 6 "msgb_at (msg tmvp) p" 5] by simp
  then have "uint (fld (msgb_at (msg tmvp) p) 5 6 :: u8) \<le> 63" by (simp add: uint_nat del: of_nat_unat)
  ultimately show ?thesis using p uint_ge_0 [of "fld (msgb_at (msg tmvp) p) 5 6 :: u8"] by simp
qed

text \<open>The PDU at the layer 1 pointer is a MAC-END.\<close>

definition mac_end_at :: "msgb \<Rightarrow> int \<Rightarrow> bool" where
  "mac_end_at m p \<longleftrightarrow> (fld (msgb_at m p) 0 2 :: u8) = 1 \<and> msgb_at m p 2 \<noteq> 0"

lemma prim_recv_bits:
  assumes "upper_mac_prim_recv ndebug tcdb heap tmvp tms = Some (n, tmvp', tms')"
  shows "n < 0 \<or> 8 \<le> n \<and> n \<le> 504 \<or>
    n = 0 \<and> (\<exists>p. l1h (msg tmvp) = Some p \<and> mac_end_at (msg tmvp) p \<and> (fld (msgb_at (msg tmvp) p) 5 6 :: u8) = 0)"
proof -
  have bcast: "n < 0" if "rx_bcast tcdb tmvp t = Some (n, tmvp', tms')" for t
    using that by (auto simp: rx_bcast_def Let_def bind_eq_Some_conv)
  have suppl: "n < 0" if "rx_suppl tmvp t = Some (n, tmvp', tms')" for t
    using that by (auto simp: rx_suppl_def Let_def bind_eq_Some_conv)
  have frag: "n < 0" if "rx_macfrag ndebug tcdb tmvp t = Some (n, tmvp', tms')" for t
    using that by (auto simp: rx_macfrag_def Let_def bind_eq_Some_conv split: if_split_asm)
  have resrc: "n < 0 \<or> 8 \<le> n \<and> n \<le> 504" if "rx_resrc ndebug tcdb heap tmvp t = Some (n, tmvp', tms')" for t
    using rx_resrc_bits [OF that] by auto
  show ?thesis
  proof (cases "\<exists>p t. l1h (msg tmvp) = Some p \<and> mac_end_at (msg tmvp) p \<and> rx_macend ndebug tcdb tmvp t = Some (n, tmvp', tms')")
    case True
    then obtain p t where p: "l1h (msg tmvp) = Some p" "mac_end_at (msg tmvp) p"
      "rx_macend ndebug tcdb tmvp t = Some (n, tmvp', tms')" by blast
    with rx_macend_bits [OF p(3)] have n: "n = uint (fld (msgb_at (msg tmvp) p) 5 6 :: u8) * 8" "0 \<le> n" "n \<le> 504" by auto
    show ?thesis
    proof (cases "(fld (msgb_at (msg tmvp) p) 5 6 :: u8) = 0")
      case True
      then show ?thesis using n p by simp
    next
      case False
      then have "0 < uint (fld (msgb_at (msg tmvp) p) 5 6 :: u8)" by (metis uint_0_iff uint_ge_0 order_le_less)
      then show ?thesis using n by simp
    qed
  next
    case False
    obtain p where p: "sap tmvp = TETRA_SAP_TMV \<Longrightarrow> l1h (msg tmvp) = Some p"
      using assms by (cases "l1h (msg tmvp)"; cases "sap tmvp = TETRA_SAP_TMV") (auto simp: upper_mac_prim_recv_def rx_tmv_unitdata_ind_def)
    have ty: "unat (fld (msgb_at (msg tmvp) p) 0 2 :: u8) < 4" using fld_less [of 2 "msgb_at (msg tmvp) p" 0] by simp
    show ?thesis
      using assms False header_cases [OF ty] p
      unfolding upper_mac_prim_recv_def rx_tmv_unitdata_ind_def Let_def mac_end_at_def
      by (auto simp: map_option_case dest!: bcast suppl frag resrc
          split: if_split_asm tetra_log_chan.split_asm option.split_asm)
  qed
qed


section \<open>Rounds of the loop\<close>

text \<open>One round from a PDU to the next: the offset, the primitive and the MAC state.\<close>

type_synonym pdu_state = "u32 \<times> tetra_tmvsap_prim \<times> tetra_mac_state"

inductive pdu_step ::
  "bool \<Rightarrow> tetra_crypto_database \<Rightarrow> (int \<Rightarrow> u8) \<Rightarrow> tetra_tdma_time \<Rightarrow> u32 \<Rightarrow> int \<Rightarrow> int \<Rightarrow> pdu_state \<Rightarrow> pdu_state \<Rightarrow> bool"
  for ndebug tcdb heap tm limit orig_head orig_tail where
  "offset < limit \<Longrightarrow> pdu_round ndebug tcdb heap tm ttp tms = Some (n, ttp', tms') \<Longrightarrow> 0 \<le> n \<Longrightarrow>
    offset' = offset + of_int n \<Longrightarrow>
    pdu_step ndebug tcdb heap tm limit orig_head orig_tail (offset, ttp, tms)
      (offset', ttp'\<lparr>msg := advance_msg orig_head orig_tail offset' (msg ttp')\<rparr>, tms')"

inductive_simps pdu_step_simps: "pdu_step ndebug tcdb heap tm limit orig_head orig_tail (offset, ttp, tms) s"

inductive_cases pdu_stepE: "pdu_step ndebug tcdb heap tm limit orig_head orig_tail s s'"

lemma pdu_loop_step:
  assumes "pdu_step ndebug tcdb heap tm limit oh ot (offset, ttp, tms) (offset', ttp', tms')"
  shows "pdu_loop ndebug tcdb heap tm limit oh ot offset ttp tms = pdu_loop ndebug tcdb heap tm limit oh ot offset' ttp' tms'"
  using assms by (subst pdu_loop.simps) (auto simp: pdu_step_simps Let_def)

lemma pdu_loop_stops:
  assumes "\<And>n ttp' tms'. offset < limit \<Longrightarrow> pdu_round ndebug tcdb heap tm ttp tms = Some (n, ttp', tms') \<Longrightarrow> n < 0"
  shows "\<exists>r. pdu_loop ndebug tcdb heap tm limit oh ot offset ttp tms = Some r"
  using assms by (subst pdu_loop.simps) (auto split: option.split prod.split)

text \<open>A PDU of length zero at the current position.\<close>

definition zero_pdu :: "bool \<Rightarrow> tetra_crypto_database \<Rightarrow> (int \<Rightarrow> u8) \<Rightarrow> tetra_tdma_time \<Rightarrow> u32 \<Rightarrow> pdu_state \<Rightarrow> bool" where
  "zero_pdu ndebug tcdb heap tm limit s \<longleftrightarrow>
    (case s of (offset, ttp, tms) \<Rightarrow> offset < limit \<and>
      (\<exists>ttp' tms'. pdu_round ndebug tcdb heap tm ttp tms = Some (0, ttp', tms')) \<and>
      (\<exists>p. l1h (msg ttp) = Some p \<and> mac_end_at (msg ttp) p \<and> (fld (msgb_at (msg ttp) p) 5 6 :: u8) = 0))"

lemma pdu_round_bits:
  assumes "pdu_round ndebug tcdb heap tm ttp tms = Some (n, ttp', tms')"
  shows "n < 0 \<or> 8 \<le> n \<and> n \<le> 504 \<or>
    n = 0 \<and> (\<exists>p. l1h (msg ttp) = Some p \<and> mac_end_at (msg ttp) p \<and> (fld (msgb_at (msg ttp) p) 5 6 :: u8) = 0)"
  using prim_recv_bits assms [unfolded pdu_round_def] by fastforce

text \<open>The loop returns, or a run of it comes to a PDU of length zero.\<close>

lemma pdu_loop_progress:
  assumes "unat limit \<le> 4294966000"
  shows "(\<exists>r. pdu_loop ndebug tcdb heap tm limit oh ot offset ttp tms = Some r) \<or>
    (\<exists>s. (pdu_step ndebug tcdb heap tm limit oh ot)\<^sup>*\<^sup>* (offset, ttp, tms) s \<and> zero_pdu ndebug tcdb heap tm limit s)"
proof (induction "unat limit - unat offset" arbitrary: offset ttp tms rule: less_induct)
  case less
  show ?case
  proof (cases "\<exists>n ttp' tms'. offset < limit \<and> pdu_round ndebug tcdb heap tm ttp tms = Some (n, ttp', tms') \<and> 0 \<le> n")
    case False
    then show ?thesis using pdu_loop_stops [of offset limit ndebug tcdb heap tm ttp tms oh ot] by force
  next
    case True
    then obtain n ttp' tms' where n: "offset < limit" "pdu_round ndebug tcdb heap tm ttp tms = Some (n, ttp', tms')" "0 \<le> n"
      by blast
    show ?thesis
    proof (cases "n = 0")
      case True
      then have "zero_pdu ndebug tcdb heap tm limit (offset, ttp, tms)"
        using n pdu_round_bits [OF n(2)] by (auto simp: zero_pdu_def)
      then show ?thesis by blast
    next
      case False
      then have b: "8 \<le> n" "n \<le> 504" using pdu_round_bits [OF n(2)] n(3) by auto
      define offset' where "offset' = offset + of_int n"
      have "unat (of_int n :: u32) = nat n" using b by (intro unat_of_int_small) simp_all
      moreover have "unat offset < unat limit" using n(1) by (simp add: word_less_nat_alt)
      ultimately have o: "unat offset' = unat offset + nat n"
        unfolding offset'_def using b assms by (subst unat_add_lem [THEN iffD1]) simp_all
      then have "unat limit - unat offset' < unat limit - unat offset" using b \<open>unat offset < unat limit\<close> by simp
      moreover have st: "pdu_step ndebug tcdb heap tm limit oh ot (offset, ttp, tms)
          (offset', ttp'\<lparr>msg := advance_msg oh ot offset' (msg ttp')\<rparr>, tms')"
        using n by (auto simp: pdu_step_simps offset'_def)
      ultimately show ?thesis
        using less [of offset' "ttp'\<lparr>msg := advance_msg oh ot offset' (msg ttp')\<rparr>" tms'] pdu_loop_step [OF st]
          converse_rtranclp_into_rtranclp [of "pdu_step ndebug tcdb heap tm limit oh ot", OF st] by auto
    qed
  qed
qed

text \<open>A set of states that the rounds do not leave and in which each round goes on: the loop never returns.\<close>

lemma pdu_loop_stuck:
  assumes inv: "\<And>o' t m. P o' t m \<Longrightarrow> o' < limit \<and> (\<exists>o'' t' m'. pdu_step ndebug tcdb heap tm limit oh ot (o', t, m) (o'', t', m') \<and> P o'' t' m')"
    and start: "P offset ttp tms"
  shows "pdu_loop ndebug tcdb heap tm limit oh ot offset ttp tms = None"
proof (rule ccontr)
  assume "pdu_loop ndebug tcdb heap tm limit oh ot offset ttp tms \<noteq> None"
  then obtain r where r: "pdu_loop ndebug tcdb heap tm limit oh ot offset ttp tms = Some r" by blast
  have "\<not> P offset ttp tms"
  proof (rule pdu_loop.raw_induct [where P = "\<lambda>nd db hp t l h tl off p m r.
      nd = ndebug \<and> db = tcdb \<and> hp = heap \<and> t = tm \<and> l = limit \<and> h = oh \<and> tl = ot \<longrightarrow> \<not> P off p m", OF _ r, THEN mp])
    fix f nd db hp t l h tl off p m r
    assume IH: "\<And>nd db hp t l h tl off p m r. f nd db hp t l h tl off p m = Some r \<Longrightarrow>
        nd = ndebug \<and> db = tcdb \<and> hp = heap \<and> t = tm \<and> l = limit \<and> h = oh \<and> tl = ot \<longrightarrow> \<not> P off p m"
      and eq: "(if off < l then case pdu_round nd db hp t p m of None \<Rightarrow> Some (Inl Upper_mac_fault)
          | Some (pdu_bits, ttp, tms) \<Rightarrow> if pdu_bits < 0 then Some (Inr tms)
            else let offset = off + of_int pdu_bits in f nd db hp t l h tl offset (ttp\<lparr>msg := advance_msg h tl offset (msg ttp)\<rparr>) tms
        else Some (Inr m)) = Some r"
    show "nd = ndebug \<and> db = tcdb \<and> hp = heap \<and> t = tm \<and> l = limit \<and> h = oh \<and> tl = ot \<longrightarrow> \<not> P off p m"
    proof (intro impI notI)
      assume args: "nd = ndebug \<and> db = tcdb \<and> hp = heap \<and> t = tm \<and> l = limit \<and> h = oh \<and> tl = ot" and "P off p m"
      then obtain o'' t' m' where s: "off < limit" "pdu_step ndebug tcdb heap tm limit oh ot (off, p, m) (o'', t', m')" "P o'' t' m'"
        using inv by blast
      then have "f ndebug tcdb heap tm limit oh ot o'' t' m' = Some r"
        using eq args by (auto simp: pdu_step_simps Let_def)
      then show False using IH s(3) by blast
    qed
  qed simp
  then show False using start by simp
qed

text \<open>A block whose first PDU fills the slot, as on the channels the upper MAC does not parse into PDUs.\<close>

lemma pdu_loop_once:
  assumes "0 < limit" "pdu_round ndebug tcdb heap tm ttp tms = Some (n, ttp', tms')" "n < 0"
  shows "pdu_loop ndebug tcdb heap tm limit oh ot 0 ttp tms = Some (Inr tms')"
  using assms by (subst pdu_loop.simps) simp

section \<open>A MAC-END of length zero\<close>

text \<open>A round on a MAC-END of length zero in a slot that collects nothing: only the slot is cleared.\<close>

lemma zero_end_round:
  assumes p: "sap ttp = TETRA_SAP_TMV" "crc_ok (unitdata ttp) \<noteq> 0" "l1h (msg ttp) = Some p"
    and lc: "lchan (unitdata ttp) \<in> {TETRA_LC_BNCH, TETRA_LC_UNKNOWN, TETRA_LC_SCH_F}"
    and z: "mac_end_at (msg ttp) p" "(fld (msgb_at (msg ttp) p) 5 6 :: u8) = 0"
    and s: "slot_of tms (unat (tn tm)) = Some fs" "\<not> active fs"
  shows "\<exists>tms' fs'. pdu_round ndebug tcdb heap tm ttp tms =
      Some (0, ttp\<lparr>unitdata := (unitdata ttp)\<lparr>tdma_time := tm\<rparr>\<rparr>, tms') \<and>
    slot_of tms' (unat (tn tm)) = Some fs' \<and> \<not> active fs'"
proof -
  define t where "t = (if fn tm = 18 then age_fragslots tms else tms)"
  define ttp1 where "ttp1 = ttp\<lparr>unitdata := (unitdata ttp)\<lparr>tdma_time := tm\<rparr>\<rparr>"
  have "\<exists>fs1. slot_of t (unat (tn tm)) = Some fs1 \<and> \<not> active fs1"
  proof (cases "fn tm = 18")
    case True
    have i: "unat (tn tm) < length (fragslots tms)" "fragslots tms ! unat (tn tm) = fs"
      using s(1) by (auto simp: slot_of_def split: if_split_asm)
    have "slot_of t (unat (tn tm)) = Some (if unat (tn tm) < FRAGSLOT_NR_SLOTS then age_fragslot fs else fs)"
      using i True by (simp add: t_def age_fragslots_def slot_of_def nth_append)
    then show ?thesis using s(2) by (auto simp: age_fragslot_def)
  qed (use s in \<open>simp add: t_def\<close>)
  then obtain fs1 where fs1: "slot_of t (unat (tn tm)) = Some fs1" "\<not> active fs1" by blast
  have e: "rx_macend ndebug tcdb ttp1 t = Some (0, ttp1, set_slot t (unat (tn tm)) zero_fragslot)"
    using p z fs1 by (simp add: rx_macend_def ttp1_def Let_def cleanup_fragslot_def)
  have "pdu_round ndebug tcdb heap tm ttp tms = rx_macend ndebug tcdb ttp1 t"
    using p lc z unfolding pdu_round_def ttp1_def [symmetric] upper_mac_prim_recv_def rx_tmv_unitdata_ind_def Let_def mac_end_at_def
    by (auto simp: ttp1_def t_def)
  moreover have "slot_of (set_slot t (unat (tn tm)) zero_fragslot) (unat (tn tm)) = Some zero_fragslot"
    using slot_of_less [OF fs1(1)] by (simp add: slot_of_set_slot)
  moreover have "\<not> active zero_fragslot" by (simp add: zero_fragslot_def)
  ultimately show ?thesis unfolding e by (auto simp: ttp1_def)
qed

lemma zero_end_hangs:
  assumes p: "sap ttp = TETRA_SAP_TMV" "crc_ok (unitdata ttp) \<noteq> 0" "l1h (msg ttp) = Some (oh + uint offset)" "offset < limit"
    and lc: "lchan (unitdata ttp) \<in> {TETRA_LC_BNCH, TETRA_LC_UNKNOWN, TETRA_LC_SCH_F}"
    and z: "mac_end_at (msg ttp) (oh + uint offset)" "(fld (msgb_at (msg ttp) (oh + uint offset)) 5 6 :: u8) = 0"
    and s: "slot_of tms (unat (tn tm)) = Some fs" "\<not> active fs"
  shows "pdu_loop ndebug tcdb heap tm limit oh ot offset ttp tms = None"
proof (rule pdu_loop_stuck [where P = "\<lambda>o' t m. o' = offset \<and> sap t = TETRA_SAP_TMV \<and> crc_ok (unitdata t) \<noteq> 0 \<and>
    l1h (msg t) = Some (oh + uint offset) \<and> lchan (unitdata t) \<in> {TETRA_LC_BNCH, TETRA_LC_UNKNOWN, TETRA_LC_SCH_F} \<and>
    mac_end_at (msg t) (oh + uint offset) \<and> (fld (msgb_at (msg t) (oh + uint offset)) 5 6 :: u8) = 0 \<and>
    (\<exists>fs. slot_of m (unat (tn tm)) = Some fs \<and> \<not> active fs)"])
  fix o' and t :: tetra_tmvsap_prim and m :: tetra_mac_state
  assume P: "o' = offset \<and> sap t = TETRA_SAP_TMV \<and> crc_ok (unitdata t) \<noteq> 0 \<and>
    l1h (msg t) = Some (oh + uint offset) \<and> lchan (unitdata t) \<in> {TETRA_LC_BNCH, TETRA_LC_UNKNOWN, TETRA_LC_SCH_F} \<and>
    mac_end_at (msg t) (oh + uint offset) \<and> (fld (msgb_at (msg t) (oh + uint offset)) 5 6 :: u8) = 0 \<and>
    (\<exists>fs. slot_of m (unat (tn tm)) = Some fs \<and> \<not> active fs)"
  then obtain fs0 where "slot_of m (unat (tn tm)) = Some fs0" "\<not> active fs0" by blast
  with zero_end_round [of t "oh + uint offset" m tm fs0 ndebug tcdb heap] P obtain m' fs' where
    r: "pdu_round ndebug tcdb heap tm t m = Some (0, t\<lparr>unitdata := (unitdata t)\<lparr>tdma_time := tm\<rparr>\<rparr>, m')"
      "slot_of m' (unat (tn tm)) = Some fs'" "\<not> active fs'" by blast
  let ?t = "t\<lparr>unitdata := (unitdata t)\<lparr>tdma_time := tm\<rparr>\<rparr>"
  have step: "pdu_step ndebug tcdb heap tm limit oh ot (o', t, m) (offset, ?t\<lparr>msg := advance_msg oh ot offset (msg ?t)\<rparr>, m')"
    unfolding pdu_step_simps using P p(4) r(1) by (intro exI [of _ ?t] exI [of _ 0]) simp
  have at: "msgb_at (advance_msg oh ot offset (msg t)) q = msgb_at (msg t) q" for q
    by (rule ext) (simp add: msgb_at_def advance_msg_def Let_def)
  have "l1h (advance_msg oh ot offset (msg t)) = Some (oh + uint offset)" by (simp add: advance_msg_def Let_def)
  with P r at show "o' < limit \<and> (\<exists>o'' t' m'. pdu_step ndebug tcdb heap tm limit oh ot (o', t, m) (o'', t', m') \<and> o'' = offset \<and>
      sap t' = TETRA_SAP_TMV \<and> crc_ok (unitdata t') \<noteq> 0 \<and> l1h (msg t') = Some (oh + uint offset) \<and>
      lchan (unitdata t') \<in> {TETRA_LC_BNCH, TETRA_LC_UNKNOWN, TETRA_LC_SCH_F} \<and> mac_end_at (msg t') (oh + uint offset) \<and>
      (fld (msgb_at (msg t') (oh + uint offset)) 5 6 :: u8) = 0 \<and> (\<exists>fs. slot_of m' (unat (tn tm)) = Some fs \<and> \<not> active fs))"
    using step p(4)
    by (intro conjI exI [of _ offset] exI [of _ "?t\<lparr>msg := advance_msg oh ot offset (msg ?t)\<rparr>"] exI [of _ m'])
      (simp_all add: mac_end_at_def)
qed (use assms in blast)

section \<open>Properties\<close>



end
