(* ===== verification/Receiver.thy ===== *)
theory Receiver
  imports ReceiveChain PduLoop
begin

text \<open>
  The receiver as a whole: what \<open>tp_sap_udata_ind\<close> does with a block down to the upper MAC, what a
  synchronisation block sets, and what bursts behind the synchroniser keep of the receiver's state.
\<close>

section \<open>From the block to the first PDU\<close>

text \<open>The message of a block: its type-1 bits at the start of a fresh buffer.\<close>

definition received_msg :: "(int \<Rightarrow> u8) \<Rightarrow> nat \<Rightarrow> u8 list \<Rightarrow> msgb" where
  "received_msg heap n type2 = (msgb_alloc heap 412)\<lparr>tail := int n, m_len := of_nat n, l1h := Some 0,
     mem := (\<lambda>i. if 0 \<le> i \<and> i < int n then type2 ! nat i else mem (msgb_alloc heap 412) i)\<rparr>"

lemma received_msg_fields [simp]:
  "l1h (received_msg heap n xs) = Some 0" "head (received_msg heap n xs) = 0" "tail (received_msg heap n xs) = int n"
  by (simp_all add: received_msg_def msgb_alloc_def msgb_alloc_c_def)

lemma received_msg_at: "i < n \<Longrightarrow> msgb_at (received_msg heap n xs) 0 i = xs ! i"
  by (simp add: received_msg_def msgb_at_def)

lemma block_msg_received:
  assumes "n = unat (type1_bits tbp)" "n \<le> 412"
  shows "block_msg tbp type2 (msgb_alloc heap 412) = Some (received_msg heap n type2)"
proof -
  have u: "unat (ucast (type1_bits tbp) :: u32) = n" using assms(1) by (simp add: unat_widen_c)
  have p: "msgb_put (msgb_alloc heap 412) (ucast (type1_bits tbp)) =
      Some ((msgb_alloc heap 412)\<lparr>tail := uint (ucast (type1_bits tbp) :: u32), m_len := ucast (ucast (type1_bits tbp) :: u32)\<rparr>, 0)"
    using assms u by (intro msgb_put_fresh) simp
  have t: "uint (ucast (type1_bits tbp) :: u32) = int n" using u by (metis uint_nat)
  have w: "(ucast (ucast (type1_bits tbp) :: u32) :: u16) = of_nat n"
    unfolding assms(1) by (simp, intro bit_word_eqI) (simp add: bit_ucast_iff)
  show ?thesis
    unfolding block_msg_def p t w assms(1) [symmetric] using assms(2)
    by (simp add: msgb_write_def msgb_alloc_def msgb_alloc_c_def received_msg_def cong: if_cong)
qed

lemma decode_block_total: "\<exists>type2. decode_block stack junk (blk_params type) type4 = Some type2"
  using blk_sizes(4) [of type] by (simp add: decode_block_def viterbi_dec_sb1_wrapper_def Let_def)

lemma block_type2_total: "\<exists>type2. block_type2 stack junk (blk_params type) type4 = Some type2"
  using decode_block_total by (simp add: block_type2_def)

text \<open>The primitive the loop starts from.\<close>

definition block_prim :: "(int \<Rightarrow> u8) \<Rightarrow> tp_sap_data_type \<Rightarrow> tetra_tdma_time \<Rightarrow> int \<Rightarrow> u32 \<Rightarrow> int \<Rightarrow> u8 list \<Rightarrow> tetra_tmvsap_prim" where
  "block_prim heap type phy blk seed ok type2 =
    (tmvsap_prim_alloc heap PRIM_TMV_UNITDATA PRIM_OP_INDICATION)\<lparr>
       msg := received_msg heap (unat (type1_bits (blk_params type))) type2,
       unitdata := (unitdata (tmvsap_prim_alloc heap PRIM_TMV_UNITDATA PRIM_OP_INDICATION))\<lparr>
         lchan := block_lchan phy type, crc_ok := ok, scrambling_code := seed, blk_num := blk\<rparr>\<rparr>"

lemma block_prim_fields [simp]:
  "msg (block_prim heap type phy blk seed ok xs) = received_msg heap (unat (type1_bits (blk_params type))) xs"
  "sap (block_prim heap type phy blk seed ok xs) = TETRA_SAP_TMV"
  "lchan (unitdata (block_prim heap type phy blk seed ok xs)) = block_lchan phy type"
  "crc_ok (unitdata (block_prim heap type phy blk seed ok xs)) = ok"
  "scrambling_code (unitdata (block_prim heap type phy blk seed ok xs)) = seed"
  by (simp_all add: block_prim_def tmvsap_prim_alloc_def)

text \<open>The number of bits below which another PDU is looked for.\<close>

definition pdu_limit :: "tp_sap_data_type \<Rightarrow> u32" where
  "pdu_limit type = ucast (type1_bits (blk_params type)) - 16"

lemma pdu_limit_le: "type \<noteq> TPSAP_T_BBK \<Longrightarrow> unat (pdu_limit type) \<le> 252"
  by (cases type) (simp_all add: pdu_limit_def)

lemma pdu_limit_pos: "0 < pdu_limit type"
proof -
  have "(0 :: u32) < - 2" by code_simp
  then show ?thesis by (cases type) (simp_all add: pdu_limit_def)
qed

definition after_loop ::
  "tetra_tdma_time \<Rightarrow> 'c receiver \<Rightarrow> (lower_error + tetra_mac_state) option \<Rightarrow> (lower_error + tetra_tdma_time \<times> 'c receiver) option" where
  "after_loop phy w = map_option (map_sum id (\<lambda>tms. (phy, w\<lparr>rx_tms := tms\<rparr>)))"

lemma after_loop_simps [simp]:
  "after_loop phy w None = None" "after_loop phy w (Some (Inl e)) = Some (Inl e)"
  "after_loop phy w (Some (Inr tms)) = Some (Inr (phy, w\<lparr>rx_tms := tms\<rparr>))"
  by (simp_all add: after_loop_def)

text \<open>The blocks that are no synchronisation blocks.\<close>

lemma tp_sap_other:
  assumes ty: "type \<noteq> TPSAP_T_SB1"
    and t2: "block_type2 stack junk (blk_params type) (descramble_block (scramb_init (rx_tcd w)) (blk_params type) bits) = Some type2"
    and ck: "\<And>ds. check_block type (blk_params type) (descramble_block (scramb_init (rx_tcd w)) (blk_params type) bits) type2 ds =
      (ok, type2', ds\<lparr>last_crc_fail := f ds\<rparr>)"
  shows "\<exists>w'. tp_sap_udata_ind ndebug tcdb codec stack junk heap type blk bits (phy, w) =
      after_loop phy w' (pdu_loop ndebug tcdb heap phy (pdu_limit type) 0 (int (unat (type1_bits (blk_params type)))) 0
        (block_prim heap type phy blk (scramb_init (rx_tcd w)) ok type2') (rx_tms w')) \<and>
    rx_tcd w' = (rx_tcd w)\<lparr>cd_time := phy\<rparr> \<and> fragslots (rx_tms w') = fragslots (rx_tms w) \<and>
    last_crc_fail (t_display_st (rx_tms w')) = f (t_display_st (rx_tms w))"
proof -
  define type4 where "type4 = descramble_block (scramb_init (rx_tcd w)) (blk_params type) bits"
  define tms where "tms = (if is_traffic (rx_tms w) \<noteq> 0 \<and> type = TPSAP_T_NDB \<and> blk = BLK_1
    then (rx_tms w)\<lparr>blk1_stolen := True\<rparr> else rx_tms w)"
  define tms1 where "tms1 = tms\<lparr>t_display_st := (t_display_st tms)\<lparr>last_crc_fail := f (t_display_st tms)\<rparr>\<rparr>"
  define w1 where "w1 = w\<lparr>rx_tcd := (rx_tcd w)\<lparr>cd_time := phy\<rparr>, rx_tms := tms1\<rparr>"
  define w2 where "w2 = (if type = TPSAP_T_SCH_F \<and> is_traffic tms1 \<noteq> 0 then rx_speech codec type4 phy w1 else w1)"
  have bm: "block_msg (blk_params type) type2' (msg (tmvsap_prim_alloc heap PRIM_TMV_UNITDATA PRIM_OP_INDICATION)) =
      Some (received_msg heap (unat (type1_bits (blk_params type))) type2')"
    unfolding tmvsap_prim_alloc_def tetra_tmvsap_prim.simps
    using blk_sizes(2) [of type] by (intro block_msg_received) simp_all
  have seed: "block_seed ((rx_tcd w)\<lparr>cd_time := phy\<rparr>) type = scramb_init (rx_tcd w)" using ty by (simp add: block_seed_def)
  have sp: "fragslots (rx_tms (rx_speech codec type4 phy v)) = fragslots (rx_tms v) \<and>
      t_display_st (rx_tms (rx_speech codec type4 phy v)) = t_display_st (rx_tms v) \<and>
      rx_tcd (rx_speech codec type4 phy v) = rx_tcd v" for v
    by (simp add: rx_speech_def Let_def split: prod.split)
  have "tp_sap_udata_ind ndebug tcdb codec stack junk heap type blk bits (phy, w) =
      after_loop phy w2 (pdu_loop ndebug tcdb heap phy (pdu_limit type) 0 (int (unat (type1_bits (blk_params type)))) 0
        (block_prim heap type phy blk (scramb_init (rx_tcd w)) ok type2') (rx_tms w2))"
    unfolding tp_sap_udata_ind_def Let_def prod.case seed type4_def [symmetric] t2 [folded type4_def] option.case
      ck [folded type4_def] bm after_loop_def tms_def [symmetric]
    using ty by (simp add: w2_def w1_def tms1_def block_prim_def pdu_limit_def tmvsap_prim_alloc_def)
  moreover have "rx_tcd w2 = rx_tcd w1" "fragslots (rx_tms w2) = fragslots (rx_tms w1)"
      "t_display_st (rx_tms w2) = t_display_st (rx_tms w1)"
    by (simp_all add: w2_def sp)
  moreover have "rx_tcd w1 = (rx_tcd w)\<lparr>cd_time := phy\<rparr>" "fragslots (rx_tms w1) = fragslots (rx_tms w)"
      "last_crc_fail (t_display_st (rx_tms w1)) = f (t_display_st (rx_tms w))"
    by (simp_all add: w1_def tms1_def tms_def)
  ultimately show ?thesis by metis
qed

lemma coded_block_arrives:
  assumes "type \<noteq> TPSAP_T_BBK" "type \<noteq> TPSAP_T_SB1" "is_bits xs" "length xs = unat (type1_bits (blk_params type))"
  shows "\<exists>w'. tp_sap_udata_ind ndebug tcdb codec stack junk heap type blk
      (transmit_block stack' (scramb_init (rx_tcd w)) (blk_params type) (add_check xs)) (phy, w) =
      after_loop phy w' (pdu_loop ndebug tcdb heap phy (pdu_limit type) 0 (int (length xs)) 0
        (block_prim heap type phy blk (scramb_init (rx_tcd w)) 1 (add_check xs)) (rx_tms w')) \<and>
    rx_tcd w' = (rx_tcd w)\<lparr>cd_time := phy\<rparr> \<and> fragslots (rx_tms w') = fragslots (rx_tms w) \<and>
    \<not> last_crc_fail (t_display_st (rx_tms w'))"
  using tp_sap_other [where f = "\<lambda>_. False", OF assms(2) coded_type2 [OF assms(1,3,4)] check_add_check [OF assms(1,4)]] assms(4)
  by simp

section \<open>Synchronisation blocks\<close>

lemma bsch_round:
  assumes "sap ttp = TETRA_SAP_TMV" "lchan (unitdata ttp) = TETRA_LC_BSCH" "l1h (msg ttp) = Some p"
  shows "\<exists>ttp' tms'. pdu_round ndebug tcdb heap tm ttp tms = Some (- 1, ttp', tms') \<and>
    (tms' = tms \<or> tms' = age_fragslots tms)"
  using assms by (auto simp: pdu_round_def upper_mac_prim_recv_def rx_tmv_unitdata_ind_def Let_def)

lemma sync_block_arrives:
  assumes t2: "block_type2 stack junk (blk_params TPSAP_T_SB1) (descramble_block SCRAMB_INIT (blk_params TPSAP_T_SB1) bits) = Some type2"
    and ck: "\<And>ds. check_block TPSAP_T_SB1 (blk_params TPSAP_T_SB1) (descramble_block SCRAMB_INIT (blk_params TPSAP_T_SB1) bits) type2 ds =
      (ok, type2, ds\<lparr>last_crc_fail := f ds\<rparr>)"
    and sy: "rx_sync_block tcdb (ok \<noteq> 0) (\<lambda>i. type2 ! i) ((rx_tcd w)\<lparr>cd_time := phy\<rparr>)
      ((rx_tms w)\<lparr>t_display_st := (t_display_st (rx_tms w))\<lparr>last_crc_fail := f (t_display_st (rx_tms w))\<rparr>\<rparr>) = (tcd, tms)"
  shows "\<exists>tms'. tp_sap_udata_ind ndebug tcdb codec stack junk heap TPSAP_T_SB1 blk bits (phy, w) =
      Some (Inr (cd_time tcd, w\<lparr>rx_tcd := tcd, rx_tms := tms'\<rparr>)) \<and> (tms' = tms \<or> tms' = age_fragslots tms)"
proof -
  let ?ty = "TPSAP_T_SB1"
  have bm: "block_msg (blk_params ?ty) type2 (msg (tmvsap_prim_alloc heap PRIM_TMV_UNITDATA PRIM_OP_INDICATION)) =
      Some (received_msg heap (unat (type1_bits (blk_params ?ty))) type2)"
    unfolding tmvsap_prim_alloc_def tetra_tmvsap_prim.simps
    using blk_sizes(2) [of ?ty] by (intro block_msg_received) simp_all
  have seed: "block_seed ((rx_tcd w)\<lparr>cd_time := phy\<rparr>) ?ty = SCRAMB_INIT" by (simp add: block_seed_def)
  have eq: "tp_sap_udata_ind ndebug tcdb codec stack junk heap ?ty blk bits (phy, w) =
      after_loop (cd_time tcd) (w\<lparr>rx_tcd := tcd, rx_tms := tms\<rparr>)
        (pdu_loop ndebug tcdb heap (cd_time tcd) (pdu_limit ?ty) 0 (int (unat (type1_bits (blk_params ?ty)))) 0
          (block_prim heap ?ty (cd_time tcd) blk SCRAMB_INIT ok type2) tms)"
    unfolding tp_sap_udata_ind_def Let_def prod.case seed t2 option.case ck bm after_loop_def
    by (simp add: sy block_prim_def pdu_limit_def tmvsap_prim_alloc_def)
  obtain ttp' tms' where r: "pdu_round ndebug tcdb heap (cd_time tcd) (block_prim heap ?ty (cd_time tcd) blk SCRAMB_INIT ok type2) tms
      = Some (- 1, ttp', tms')" "tms' = tms \<or> tms' = age_fragslots tms"
    using bsch_round [of "block_prim heap ?ty (cd_time tcd) blk SCRAMB_INIT ok type2" 0 ndebug tcdb heap "cd_time tcd" tms]
    by (auto simp: block_lchan_def)
  have "tp_sap_udata_ind ndebug tcdb codec stack junk heap ?ty blk bits (phy, w) =
      Some (Inr (cd_time tcd, w\<lparr>rx_tcd := tcd, rx_tms := tms'\<rparr>))"
    unfolding eq by (subst pdu_loop_once [OF pdu_limit_pos r(1)]) simp_all
  then show ?thesis using r(2) by blast
qed

lemma fld_cong: "(\<And>i. c \<le> i \<Longrightarrow> i < c + n \<Longrightarrow> f i = g i) \<Longrightarrow> fld f c n = fld g c n"
proof -
  assume eq: "\<And>i. c \<le> i \<Longrightarrow> i < c + n \<Longrightarrow> f i = g i"
  have "bits_to_uint (at f c) n = bits_to_uint (at g c) n" by (rule bits_to_uint_cong) (simp add: at_def eq)
  then show ?thesis by (simp add: fld_def)
qed

lemma fld_widen: "n \<le> 16 \<Longrightarrow> (ucast (fld f c n :: u16) :: u32) = fld f c n"
proof -
  assume n: "n \<le> 16"
  have "unat (bits_to_uint (at f c) n) < 2 ^ n" using n by (intro bits_to_uint_less) simp
  also have "(2 :: nat) ^ n \<le> 2 ^ 16" using n by (intro power_increasing) simp_all
  finally have "unat (bits_to_uint (at f c) n) < 2 ^ 16" .
  then have "unat (ucast (ucast (bits_to_uint (at f c) n) :: u16) :: u32) = unat (bits_to_uint (at f c) n)"
    by (simp add: unsigned_ucast_eq take_bit_nat_eq_self unsigned_take_bit_eq)
  then show ?thesis by (simp add: fld_def word_unat_eq_iff)
qed

lemma coded_sync_block:
  assumes xs: "is_bits xs" "length xs = 60"
  shows "\<exists>phy' w'. tp_sap_udata_ind ndebug tcdb codec stack junk heap TPSAP_T_SB1 blk
      (transmit_block stack' SCRAMB_INIT (blk_params TPSAP_T_SB1) (add_check xs)) (phy, w) = Some (Inr (phy', w')) \<and>
    phy' = phy\<lparr>tn := fld ((!) xs) 10 2 + 1, fn := fld ((!) xs) 12 5, mn := fld ((!) xs) 17 6\<rparr> \<and> cd_time (rx_tcd w') = phy' \<and>
    scramb_init (rx_tcd w') = tetra_scramb_get_init (fld ((!) xs) 31 10) (fld ((!) xs) 41 14) (fld ((!) xs) 4 6) \<and>
    c_mcc (tcs (rx_tms w')) = fld ((!) xs) 31 10 \<and> c_mnc (tcs (rx_tms w')) = fld ((!) xs) 41 14 \<and>
    c_cc (tcs (rx_tms w')) = uint (fld ((!) xs) 4 6 :: u8)"
proof -
  let ?t2 = "add_check xs"
  have same: "fld ((!) ?t2) c n = (fld ((!) xs) c n :: 'w::len word)" if "c + n \<le> 60" for c n
    using that xs(2) by (intro fld_cong nth_add_check) simp
  have n: "length xs = unat (type1_bits (blk_params TPSAP_T_SB1))" using xs(2) by simp
  obtain tcd tms where sy: "rx_sync_block tcdb (1 \<noteq> (0 :: int)) (\<lambda>i. ?t2 ! i) ((rx_tcd w)\<lparr>cd_time := phy\<rparr>)
      ((rx_tms w)\<lparr>t_display_st := (t_display_st (rx_tms w))\<lparr>last_crc_fail := False\<rparr>\<rparr>) = (tcd, tms)" by fastforce
  have r: "cd_time tcd = phy\<lparr>tn := fld ((!) xs) 10 2 + 1, fn := fld ((!) xs) 12 5, mn := fld ((!) xs) 17 6\<rparr>"
    "scramb_init tcd = tetra_scramb_get_init (fld ((!) xs) 31 10) (fld ((!) xs) 41 14) (fld ((!) xs) 4 6)"
    "c_mcc (tcs tms) = fld ((!) xs) 31 10" "c_mnc (tcs tms) = fld ((!) xs) 41 14" "c_cc (tcs tms) = uint (fld ((!) xs) 4 6 :: u8)"
    using sy by (auto simp: rx_sync_block_def Let_def same fld_widen update_network_eq split: if_split_asm)
  have "\<exists>tms'. tp_sap_udata_ind ndebug tcdb codec stack junk heap TPSAP_T_SB1 blk
      (transmit_block stack' SCRAMB_INIT (blk_params TPSAP_T_SB1) ?t2) (phy, w) =
      Some (Inr (cd_time tcd, w\<lparr>rx_tcd := tcd, rx_tms := tms'\<rparr>)) \<and> (tms' = tms \<or> tms' = age_fragslots tms)"
    by (rule sync_block_arrives [where f = "\<lambda>_. False", OF coded_type2 [OF _ xs(1) n] check_add_check [OF _ n] sy]) simp_all
  then obtain tms' where a: "tp_sap_udata_ind ndebug tcdb codec stack junk heap TPSAP_T_SB1 blk
      (transmit_block stack' SCRAMB_INIT (blk_params TPSAP_T_SB1) ?t2) (phy, w) =
      Some (Inr (cd_time tcd, w\<lparr>rx_tcd := tcd, rx_tms := tms'\<rparr>))" "tms' = tms \<or> tms' = age_fragslots tms" by blast
  have "tcs tms' = tcs tms" using a(2) by (auto simp: age_fragslots_def)
  then show ?thesis using a(1) r by (intro exI [of _ "cd_time tcd"] exI [of _ "w\<lparr>rx_tcd := tcd, rx_tms := tms'\<rparr>"]) simp
qed

section \<open>What the receiver keeps\<close>

text \<open>The slots are well-formed and the timeslot of the clock is one of the display's four.\<close>

definition receiver_ok :: "tetra_tdma_time \<times> 'c receiver \<Rightarrow> bool" where
  "receiver_ok pw \<longleftrightarrow> mac_ok (rx_tms (snd pw)) \<and> 1 \<le> unat (tn (fst pw)) \<and> unat (tn (fst pw)) \<le> 4"

lemma pdu_round_mac_ok:
  assumes "mac_ok tms" "msg_near (msg ttp)" "pdu_round ndebug tcdb heap tm ttp tms = Some (n, ttp', tms')"
  shows "mac_ok tms'"
proof -
  have "msg_near (msg (ttp\<lparr>unitdata := (unitdata ttp)\<lparr>tdma_time := tm\<rparr>\<rparr>))" using assms(2) by simp
  from prim_recv_mac_ok [OF assms(1) this assms(3) [unfolded pdu_round_def]] show ?thesis .
qed

lemma near_advance:
  assumes "uint offset < 5000" "0 \<le> ot" "ot < 5000"
  shows "msg_near (advance_msg 0 ot offset m)"
proof -
  have "\<bar>ot - uint offset\<bar> < 10000" using assms uint_ge_0 [of offset] by linarith
  then show ?thesis by (simp add: msg_near_def advance_msg_def Let_def)
qed

lemma pdu_loop_mac_ok:
  assumes limit: "unat limit \<le> 252" and ot: "0 \<le> ot" "ot < 5000" and ok: "mac_ok tms" "msg_near (msg ttp)"
    and r: "pdu_loop ndebug tcdb heap tm limit 0 ot offset ttp tms = Some r"
  shows "case r of Inl e \<Rightarrow> e = Upper_mac_fault | Inr tms' \<Rightarrow> mac_ok tms'"
proof (rule pdu_loop.raw_induct [where P = "\<lambda>nd db hp t l h tl off p m r. unat l \<le> 252 \<and> h = 0 \<and> 0 \<le> tl \<and> tl < 5000 \<and>
    mac_ok m \<and> msg_near (msg p) \<longrightarrow> (case r of Inl e \<Rightarrow> e = Upper_mac_fault | Inr m' \<Rightarrow> mac_ok m')", OF _ r, THEN mp])
  fix f nd db hp t l h tl off p m r
  assume IH: "\<And>nd db hp t l h tl off p m r. f nd db hp t l h tl off p m = Some r \<Longrightarrow>
      unat l \<le> 252 \<and> h = 0 \<and> 0 \<le> tl \<and> tl < 5000 \<and> mac_ok m \<and> msg_near (msg p) \<longrightarrow>
      (case r of Inl e \<Rightarrow> e = Upper_mac_fault | Inr m' \<Rightarrow> mac_ok m')"
    and eq: "(if off < l then case pdu_round nd db hp t p m of None \<Rightarrow> Some (Inl Upper_mac_fault)
        | Some (pdu_bits, ttp, tms) \<Rightarrow> if pdu_bits < 0 then Some (Inr tms)
          else let offset = off + of_int pdu_bits in f nd db hp t l h tl offset (ttp\<lparr>msg := advance_msg h tl offset (msg ttp)\<rparr>) tms
      else Some (Inr m)) = Some r"
  show "unat l \<le> 252 \<and> h = 0 \<and> 0 \<le> tl \<and> tl < 5000 \<and> mac_ok m \<and> msg_near (msg p) \<longrightarrow>
      (case r of Inl e \<Rightarrow> e = Upper_mac_fault | Inr m' \<Rightarrow> mac_ok m')"
  proof
    assume A: "unat l \<le> 252 \<and> h = 0 \<and> 0 \<le> tl \<and> tl < 5000 \<and> mac_ok m \<and> msg_near (msg p)"
    show "case r of Inl e \<Rightarrow> e = Upper_mac_fault | Inr m' \<Rightarrow> mac_ok m'"
    proof (cases "\<exists>n p' m'. off < l \<and> pdu_round nd db hp t p m = Some (n, p', m') \<and> 0 \<le> n")
      case False
      then consider "r = Inr m" | "r = Inl Upper_mac_fault" | n p' m' where "pdu_round nd db hp t p m = Some (n, p', m')" "r = Inr m'"
        using eq by (cases "off < l"; cases "pdu_round nd db hp t p m") (auto simp: not_le split: if_split_asm)
      then show ?thesis
      proof cases
        case (3 n p' m')
        then show ?thesis using pdu_round_mac_ok [OF _ _ 3(1)] A by simp
      qed (use A in simp_all)
    next
      case True
      then obtain n p' m' where n: "off < l" "pdu_round nd db hp t p m = Some (n, p', m')" "0 \<le> n" by blast
      then have b: "n \<le> 504" using pdu_round_bits by fastforce
      define off' where "off' = off + of_int n"
      have "unat (of_int n :: u32) = nat n" using b n(3) by (intro unat_of_int_small) simp_all
      moreover have "unat off < 252" using n(1) A by (simp add: word_less_nat_alt)
      ultimately have "unat off' < 5000" unfolding off'_def using b by (subst unat_add_lem [THEN iffD1]) simp_all
      then have "uint off' < 5000" by (simp add: uint_nat del: of_nat_unat)
      then have "msg_near (advance_msg h tl off' (msg p'))" using A near_advance by simp
      moreover have "mac_ok m'" using pdu_round_mac_ok [OF _ _ n(2)] A by simp
      moreover have "f nd db hp t l h tl off' (p'\<lparr>msg := advance_msg h tl off' (msg p')\<rparr>) m' = Some r"
        using eq n by (simp add: off'_def Let_def)
      ultimately show ?thesis using IH [of nd db hp t l h tl off' "p'\<lparr>msg := advance_msg h tl off' (msg p')\<rparr>" m' r] A by simp
    qed
  qed
qed (use limit ot ok in simp)

lemma received_near: "unat (type1_bits (blk_params type)) = n \<Longrightarrow> msg_near (received_msg heap n xs)"
  using blk_sizes(2) [of type] by (auto simp: msg_near_def)

text \<open>The access assignment fills the slot.\<close>

lemma aach_loop_mac_ok:
  assumes "sap ttp = TETRA_SAP_TMV" "lchan (unitdata ttp) = TETRA_LC_AACH" "l1h (msg ttp) \<noteq> None" "msg_near (msg ttp)"
    and "mac_ok tms" "0 < limit"
    and r: "pdu_loop ndebug tcdb heap tm limit oh ot 0 ttp tms = Some r"
  shows "case r of Inl e \<Rightarrow> e = Upper_mac_fault | Inr tms' \<Rightarrow> mac_ok tms'"
proof (cases "pdu_round ndebug tcdb heap tm ttp tms")
  case None
  then have "r = Inl Upper_mac_fault" using r assms(6) by (simp add: pdu_loop.simps)
  then show ?thesis by simp
next
  case (Some x)
  then obtain n ttp' tms' where x: "pdu_round ndebug tcdb heap tm ttp tms = Some (n, ttp', tms')" by (cases x) auto
  have "n < 0"
    using x assms(1-3) by (auto simp: pdu_round_def upper_mac_prim_recv_def rx_tmv_unitdata_ind_def Let_def split: if_split_asm)
  then have "r = Inr tms'" using pdu_loop_once [OF assms(6) x] r by simp
  then show ?thesis using pdu_round_mac_ok [OF assms(5,4) x] by simp
qed

lemma check_block_form:
  "\<exists>ok type2' f. \<forall>ds. check_block type tbp type4 type2 ds = (ok, type2', ds\<lparr>last_crc_fail := f ds\<rparr>)"
proof -
  have id: "ds = ds\<lparr>last_crc_fail := last_crc_fail ds\<rparr>" for ds :: tetra_display_state by simp
  consider "have_crc16 tbp \<noteq> 0" "crc16_ccitt_bits type2 (unat (type1_bits tbp) + 16) = TETRA_CRC_OK"
    | "have_crc16 tbp \<noteq> 0" "crc16_ccitt_bits type2 (unat (type1_bits tbp) + 16) \<noteq> TETRA_CRC_OK" "type \<noteq> TPSAP_T_SCH_F"
    | "have_crc16 tbp \<noteq> 0" "crc16_ccitt_bits type2 (unat (type1_bits tbp) + 16) \<noteq> TETRA_CRC_OK" "type = TPSAP_T_SCH_F"
    | "have_crc16 tbp = 0" "type = TPSAP_T_BBK" | "have_crc16 tbp = 0" "type \<noteq> TPSAP_T_BBK" by blast
  then show ?thesis
  proof cases
    case 1
    then show ?thesis by (intro exI [of _ 1] exI [of _ type2] exI [of _ "\<lambda>_. False"]) (simp add: check_block_def)
  next
    case 2
    then show ?thesis by (intro exI [of _ 0] exI [of _ type2] exI [of _ "\<lambda>_. True"]) (simp add: check_block_def)
  next
    case 4
    then show ?thesis by (intro exI [of _ 1] exI exI [of _ "\<lambda>_. False"]) (simp add: check_block_def)
  qed (intro exI [of _ 0] exI [of _ type2] exI [of _ last_crc_fail], simp add: check_block_def)+
qed

lemma sync_tn:
  assumes "rx_sync_block tcdb ok type2 tcd tms = (tcd', tms')"
  shows "fragslots tms' = fragslots tms \<and> (tn (cd_time tcd') = tn (cd_time tcd) \<or>
    1 \<le> unat (tn (cd_time tcd')) \<and> unat (tn (cd_time tcd')) \<le> 4)"
proof -
  have "unat (bits_to_uint (at type2 10) 2) < 2 ^ 2" by (intro bits_to_uint_less) simp
  then have "unat (fld type2 10 2 :: u32) \<le> 3" by (simp add: fld_def)
  then have "unat (fld type2 10 2 + 1 :: u32) = unat (fld type2 10 2 :: u32) + 1" by (subst unat_add_lem [THEN iffD1]) simp_all
  with \<open>unat (fld type2 10 2 :: u32) \<le> 3\<close> have "1 \<le> unat (fld type2 10 2 + 1 :: u32)" "unat (fld type2 10 2 + 1 :: u32) \<le> 4" by simp_all
  then show ?thesis using assms by (auto simp: rx_sync_block_def Let_def split: if_split_asm)
qed

lemma tp_sap_ok:
  assumes ok: "receiver_ok pw"
    and r: "tp_sap_udata_ind ndebug tcdb codec stack junk heap type blk bits pw = Some r"
  shows "case r of Inl e \<Rightarrow> e = Upper_mac_fault | Inr pw' \<Rightarrow> receiver_ok pw'"
proof -
  obtain phy w where pw: "pw = (phy, w)" by (cases pw)
  have ok': "mac_ok (rx_tms w)" "1 \<le> unat (tn phy)" "unat (tn phy) \<le> 4" using ok by (simp_all add: pw receiver_ok_def)
  show ?thesis
  proof (cases "type = TPSAP_T_SB1")
    case True
    let ?ty = TPSAP_T_SB1
    obtain type2 where t2: "block_type2 stack junk (blk_params ?ty) (descramble_block SCRAMB_INIT (blk_params ?ty) bits) = Some type2"
      using block_type2_total by blast
    obtain ok f where ck: "\<And>ds. check_block ?ty (blk_params ?ty) (descramble_block SCRAMB_INIT (blk_params ?ty) bits) type2 ds =
        (ok, type2, ds\<lparr>last_crc_fail := f ds\<rparr>)"
    proof (cases "crc16_ccitt_bits type2 (unat (type1_bits (blk_params ?ty)) + 16) = TETRA_CRC_OK")
      case True
      then show ?thesis using that [of 1 "\<lambda>_. False"] by (simp add: check_block_def)
    next
      case False
      then show ?thesis using that [of 0 "\<lambda>_. True"] by (simp add: check_block_def)
    qed
    obtain tcd tms where sy: "rx_sync_block tcdb (ok \<noteq> 0) (\<lambda>i. type2 ! i) ((rx_tcd w)\<lparr>cd_time := phy\<rparr>)
        ((rx_tms w)\<lparr>t_display_st := (t_display_st (rx_tms w))\<lparr>last_crc_fail := f (t_display_st (rx_tms w))\<rparr>\<rparr>) = (tcd, tms)"
      by fastforce
    have "\<exists>tms'. tp_sap_udata_ind ndebug tcdb codec stack junk heap ?ty blk bits (phy, w) =
        Some (Inr (cd_time tcd, w\<lparr>rx_tcd := tcd, rx_tms := tms'\<rparr>)) \<and> (tms' = tms \<or> tms' = age_fragslots tms)"
      by (rule sync_block_arrives [OF t2 ck sy])
    then obtain tms' where a: "r = Inr (cd_time tcd, w\<lparr>rx_tcd := tcd, rx_tms := tms'\<rparr>)" "tms' = tms \<or> tms' = age_fragslots tms"
      using r by (auto simp: pw True)
    have "mac_ok tms" using sync_tn [OF sy] ok'(1) mac_ok_slots [of tms "rx_tms w"] by simp
    then have "mac_ok tms'" using a(2) mac_ok_age by auto
    then show ?thesis using a(1) sync_tn [OF sy] ok' by (auto simp: receiver_ok_def)
  next
    case False
    obtain type2 where t2: "block_type2 stack junk (blk_params type)
        (descramble_block (scramb_init (rx_tcd w)) (blk_params type) bits) = Some type2" using block_type2_total by blast
    obtain ok type2' f where ck: "\<And>ds. check_block type (blk_params type)
        (descramble_block (scramb_init (rx_tcd w)) (blk_params type) bits) type2 ds = (ok, type2', ds\<lparr>last_crc_fail := f ds\<rparr>)"
      using check_block_form [of type "blk_params type" "descramble_block (scramb_init (rx_tcd w)) (blk_params type) bits" type2] by blast
    let ?p = "block_prim heap type phy blk (scramb_init (rx_tcd w)) ok type2'"
    obtain w' where w': "tp_sap_udata_ind ndebug tcdb codec stack junk heap type blk bits (phy, w) =
        after_loop phy w' (pdu_loop ndebug tcdb heap phy (pdu_limit type) 0 (int (unat (type1_bits (blk_params type)))) 0 ?p (rx_tms w'))"
      "fragslots (rx_tms w') = fragslots (rx_tms w)"
      using tp_sap_other [OF False t2 ck, of ndebug tcdb codec heap blk phy] by blast
    then obtain r' where r': "pdu_loop ndebug tcdb heap phy (pdu_limit type) 0 (int (unat (type1_bits (blk_params type)))) 0 ?p (rx_tms w') = Some r'"
      "after_loop phy w' (Some r') = Some r" using r by (auto simp: pw after_loop_def)
    have m: "mac_ok (rx_tms w')" using w'(2) ok'(1) mac_ok_slots [of "rx_tms w'" "rx_tms w"] by simp
    have near: "msg_near (msg ?p)" using received_near [of type] by simp
    have "case r' of Inl e \<Rightarrow> e = Upper_mac_fault | Inr tms' \<Rightarrow> mac_ok tms'"
    proof (cases "type = TPSAP_T_BBK")
      case True
      then show ?thesis using r'(1) m near pdu_limit_pos [of type] by (intro aach_loop_mac_ok) (auto simp: block_lchan_def)
    next
      case False
      have "int (unat (type1_bits (blk_params type))) < 5000" using blk_sizes(2) [of type] by linarith
      then show ?thesis using r'(1) m near pdu_limit_le [OF False] by (intro pdu_loop_mac_ok) simp_all
    qed
    then show ?thesis using r'(2) ok' by (cases r') (auto simp: receiver_ok_def after_loop_def)
  qed
qed

lemma rx_blocks_ok:
  assumes "receiver_ok pw" "rx_blocks ndebug tcdb codec stack junk heap bs pw = Some r"
  shows "case r of Inl e \<Rightarrow> e = Upper_mac_fault | Inr pw' \<Rightarrow> receiver_ok pw'"
  using assms
proof (induction bs arbitrary: pw)
  case (Cons b bs)
  obtain type blk bits where b: "b = (type, blk, bits)" by (cases b) auto
  from Cons.prems(2) obtain r1 where r1: "tp_sap_udata_ind ndebug tcdb codec stack junk heap type blk bits pw = Some r1"
    "(case r1 of Inl e \<Rightarrow> Some (Inl e) | Inr pw \<Rightarrow> rx_blocks ndebug tcdb codec stack junk heap bs pw) = Some r"
    by (auto simp: b bind_eq_Some_conv)
  show ?case using tp_sap_ok [OF Cons.prems(1) r1(1)] r1(2) Cons.IH by (cases r1) auto
qed auto

lemma burst_ok:
  assumes "receiver_ok pw" "tetra_burst_rx_cb ndebug tcdb codec stack junk heap burst type pw = Some r"
  shows "case r of Inl e \<Rightarrow> e = Upper_mac_fault | Inr pw' \<Rightarrow> receiver_ok pw'"
proof -
  obtain phy w where pw: "pw = (phy, w)" by (cases pw)
  let ?w = "w\<lparr>rx_tms := (rx_tms w)\<lparr>t_display_st := (t_display_st (rx_tms w))
    \<lparr>curr_multiframe := sint (mn phy), curr_frame := sint (fn phy)\<rparr>\<rparr>\<rparr>"
  have 0: "receiver_ok (phy, ?w)" using assms(1) by (simp add: pw receiver_ok_def mac_ok_def)
  obtain r1 where r1: "rx_blocks ndebug tcdb codec stack junk heap (burst_blocks burst type) (phy, ?w) = Some r1"
    using assms(2) by (auto simp: tetra_burst_rx_cb_def pw Let_def bind_eq_Some_conv)
  show ?thesis
  proof (cases r1)
    case (Inl e)
    then show ?thesis using rx_blocks_ok [OF 0 r1] assms(2) by (auto simp: tetra_burst_rx_cb_def pw Let_def r1)
  next
    case (Inr pw1)
    obtain phy1 w1 where pw1: "pw1 = (phy1, w1)" by (cases pw1)
    have ok1: "receiver_ok (phy1, w1)" using rx_blocks_ok [OF 0 r1] by (simp add: Inr pw1)
    then have t: "1 \<le> unat (tn phy1)" "unat (tn phy1) \<le> 4" by (simp_all add: receiver_ok_def)
    then have "unat (tn phy1 - 1) = unat (tn phy1) - 1" by (intro unat_minus_one) auto
    then have "unat (tn phy1 - 1) < 4" using t by simp
    then show ?thesis using assms(2) ok1 by (auto simp: tetra_burst_rx_cb_def pw Let_def r1 Inr pw1 receiver_ok_def mac_ok_def)
  qed
qed

section \<open>The receiver behind the synchroniser\<close>

text \<open>The callback as the synchroniser sees it: a burst that does not come back, or only with a fault, is a failure.\<close>

definition burst_handler ::
  "bool \<Rightarrow> tetra_crypto_database \<Rightarrow> 'c etsi_codec \<Rightarrow> (nat \<Rightarrow> u8) \<Rightarrow> (nat \<Rightarrow> u8) \<Rightarrow> (int \<Rightarrow> u8) \<Rightarrow> 'c receiver burst_cb" where
  "burst_handler ndebug tcdb codec stack junk heap burst type pw =
    (case tetra_burst_rx_cb ndebug tcdb codec stack junk heap burst type pw of Some (Inr pw') \<Rightarrow> Some pw' | _ \<Rightarrow> None)"

text \<open>Before the first burst the clock has not started.\<close>

definition receiver_live :: "tetra_tdma_time \<times> 'c receiver \<Rightarrow> bool" where
  "receiver_live pw \<longleftrightarrow> mac_ok (rx_tms (snd pw)) \<and> unat (tn (fst pw)) \<le> 4"

lemma add_tn_range:
  assumes "unat (tn tm) \<le> 4"
  shows "1 \<le> unat (tn (tetra_tdma_time_add_tn tm 1)) \<and> unat (tn (tetra_tdma_time_add_tn tm 1)) \<le> 4"
proof -
  have n: "tn (normalize_fn t) = tn t" for t by (simp add: normalize_fn_def normalize_mn_def Let_def)
  have u: "unat (tn tm + 1) = unat (tn tm) + 1" using assms by (subst unat_add_lem [THEN iffD1]) simp_all
  show ?thesis
  proof (cases "tn tm + 1 > 4")
    case True
    then have "unat (tn tm) = 4" using u assms by (simp add: word_less_nat_alt)
    then have "tn tm = 4" by (simp add: word_unat_eq_iff)
    then show ?thesis by (simp add: tetra_tdma_time_add_tn_def normalize_tn_def Let_def n)
  next
    case False
    then show ?thesis using u assms by (simp add: tetra_tdma_time_add_tn_def normalize_tn_def Let_def n word_less_nat_alt)
  qed
qed

lemma handler_live:
  assumes "receiver_live pw" "burst_handler ndebug tcdb codec stack junk heap burst type (tetra_tdma_time_add_tn (fst pw) 1, snd pw) = Some pw'"
  shows "receiver_live pw'"
proof -
  have "receiver_ok (tetra_tdma_time_add_tn (fst pw) 1, snd pw)"
    using assms(1) add_tn_range [of "fst pw"] by (simp add: receiver_live_def receiver_ok_def)
  moreover have "tetra_burst_rx_cb ndebug tcdb codec stack junk heap burst type (tetra_tdma_time_add_tn (fst pw) 1, snd pw) = Some (Inr pw')"
    using assms(2) by (auto simp: burst_handler_def split: option.splits sum.splits)
  ultimately show ?thesis using burst_ok by (fastforce simp: receiver_live_def receiver_ok_def)
qed

lemma locked_live:
  assumes "receiver_live pw" "rx_locked (burst_handler ndebug tcdb codec stack junk heap) behind len trs pw = Inr (rc, trs', pw')"
  shows "receiver_live pw'"
proof -
  have tick: "receiver_live (tetra_tdma_time_add_tn (fst pw) 1, snd pw)"
    using assms(1) add_tn_range [of "fst pw"] by (simp add: receiver_live_def)
  show ?thesis
    using assms(2) assms(1) tick handler_live [OF assms(1)]
    by (auto simp: rx_locked_def handle_burst_def Let_def
        split: if_split_asm sum.split_asm prod.split_asm option.split_asm tetra_train_seq.split_asm)
qed

lemma sync_live:
  assumes "receiver_live pw"
    and "tetra_burst_sync_in (burst_handler ndebug tcdb codec stack junk heap) behind trs bits pw = Inr (rc, trs', pw')"
  shows "receiver_live pw'"
proof -
  obtain trs1 where 1: "make_bitbuf_space trs (length bits) = Inr trs1"
    using assms(2) by (cases "make_bitbuf_space trs (length bits)") (auto simp: tetra_burst_sync_in_def Let_def)
  define trs2 where "trs2 = trs1\<lparr>bitbuf := blit (bitbuf trs1) (bits_in_buf trs1) bits, bits_in_buf := bits_in_buf trs1 + length bits\<rparr>"
  have 2: "(case state trs2 of RX_S_UNLOCKED \<Rightarrow> (let (rc, trs) = rx_unlocked behind (length bits) trs2 in Inr (rc, trs, pw))
      | RX_S_KNOW_FSTART \<Rightarrow> rx_know_fstart (burst_handler ndebug tcdb codec stack junk heap) behind (length bits) trs2 pw
      | RX_S_LOCKED \<Rightarrow> rx_locked (burst_handler ndebug tcdb codec stack junk heap) behind (length bits) trs2 pw) = Inr (rc, trs', pw')"
    using assms(2) unfolding tetra_burst_sync_in_def Let_def 1 sum.case trs2_def [symmetric] by (simp split: if_split_asm)
  show ?thesis
  proof (cases "state trs2")
    case RX_S_KNOW_FSTART
    then show ?thesis using 2 assms(1) locked_live [OF assms(1)] by (auto simp: rx_know_fstart_def Let_def split: if_split_asm)
  qed (use 2 assms(1) locked_live [OF assms(1)] in \<open>auto split: prod.split_asm\<close>)
qed


text \<open>
  Runs of the receiver from its cleared state, over any pieces of the stream; the memory that the
  code does not initialise may differ with every call.
\<close>

inductive receiver_run :: "bool \<Rightarrow> tetra_crypto_database \<Rightarrow> 'c etsi_codec \<Rightarrow> tetra_rx_state \<Rightarrow> tetra_tdma_time \<times> 'c receiver \<Rightarrow> bool"
  for ndebug tcdb codec where
  start: "tn tm = 0 \<Longrightarrow> fragslots (rx_tms w) = replicate FRAGSLOT_NR_SLOTS zero_fragslot \<Longrightarrow>
    receiver_run ndebug tcdb codec initial_rx_state (tm, w)"
| receive: "receiver_run ndebug tcdb codec trs pw \<Longrightarrow>
    tetra_burst_sync_in (burst_handler ndebug tcdb codec stack junk heap) behind trs bits pw = Inr (rc, trs', pw') \<Longrightarrow>
    receiver_run ndebug tcdb codec trs' pw'"

lemma receiver_run_live: "receiver_run ndebug tcdb codec trs pw \<Longrightarrow> receiver_live pw"
proof (induction rule: receiver_run.induct)
  case (start tm w)
  then show ?case by (simp add: receiver_live_def mac_ok_def)
next
  case receive
  then show ?case by (blast intro: sync_live)
qed

section \<open>Samples\<close>

definition sample_codec :: "unit etsi_codec" where
  "sample_codec = \<lparr>Desinterleaving_Speech = id, Channel_Decoding = (\<lambda>_ _ xs c. (0, take 286 xs, c)),
     Bits2prm_Tetra = take 24, Decod_Tetra = (\<lambda>_ c. (replicate 240 0, c)), Post_Process = (\<lambda>xs c. (xs, c))\<rparr>"

definition sample_receiver :: "unit receiver" where
  "sample_receiver = \<lparr>rx_tcd = \<lparr>cd_mcc = 0, cd_mnc = 0, colour_code = 0, cd_time = sample_time, scramb_init = 3\<rparr>,
     rx_tms = initial_mac_state, rx_codec = (), rx_voice = []\<rparr>"

section \<open>Properties\<close>

text \<open>
  C7. A coded block from the cell arrives: for the types other than the synchronisation and broadcast
  blocks, data bits with their check sequence, sent through the transmit chain with the cell's
  scrambling code, reach the upper MAC as the message of a primitive that is marked as received
  without error, with the data bits and nothing else in it; the slots are as they were.
\<close>
theorem coded_blocks_reach_upper_mac:
  assumes "type \<noteq> TPSAP_T_BBK" "type \<noteq> TPSAP_T_SB1" "is_bits xs" "length xs = unat (type1_bits (blk_params type))"
  shows "\<exists>ttp w'. tp_sap_udata_ind ndebug tcdb codec stack junk heap type blk
      (transmit_block stack' (scramb_init (rx_tcd w)) (blk_params type) (add_check xs)) (phy, w) =
      after_loop phy w' (pdu_loop ndebug tcdb heap phy (pdu_limit type) 0 (int (length xs)) 0 ttp (rx_tms w')) \<and>
    sap ttp = TETRA_SAP_TMV \<and> crc_ok (unitdata ttp) = 1 \<and> lchan (unitdata ttp) = block_lchan phy type \<and>
    l1h (msg ttp) = Some 0 \<and> tail (msg ttp) = int (length xs) \<and> msg_part (msg ttp) 0 (length xs) = xs \<and>
    fragslots (rx_tms w') = fragslots (rx_tms w) \<and> \<not> last_crc_fail (t_display_st (rx_tms w'))"
proof -
  let ?p = "block_prim heap type phy blk (scramb_init (rx_tcd w)) 1 (add_check xs)"
  obtain w' where arrives: "tp_sap_udata_ind ndebug tcdb codec stack junk heap type blk
      (transmit_block stack' (scramb_init (rx_tcd w)) (blk_params type) (add_check xs)) (phy, w) =
      after_loop phy w' (pdu_loop ndebug tcdb heap phy (pdu_limit type) 0 (int (length xs)) 0 ?p (rx_tms w'))"
      "fragslots (rx_tms w') = fragslots (rx_tms w)" "\<not> last_crc_fail (t_display_st (rx_tms w'))"
    using coded_block_arrives [OF assms, of ndebug tcdb codec stack junk heap blk stack' w phy] by blast
  have "msg_part (msg ?p) 0 (length xs) = xs"
    by (rule nth_equalityI) (simp_all add: msg_part_def received_msg_at nth_add_check flip: assms(4))
  then show ?thesis
    using arrives by (intro exI [of _ ?p] exI [of _ w']) (simp add: assms(4))
qed

theorem coded_blocks_reach_upper_mac_witness:
  "\<exists>ttp w'. tp_sap_udata_ind False sample_db sample_codec (\<lambda>_. 1) (\<lambda>_. 2) (\<lambda>_. 3) TPSAP_T_NDB BLK_1
      (transmit_block (\<lambda>_. 0) (scramb_init (rx_tcd sample_receiver)) (blk_params TPSAP_T_NDB) (add_check (replicate 124 1)))
      (sample_time, sample_receiver) =
      after_loop sample_time w' (pdu_loop False sample_db (\<lambda>_. 3) sample_time (pdu_limit TPSAP_T_NDB) 0
        (int (length (replicate 124 (1 :: u8)))) 0 ttp (rx_tms w')) \<and>
    sap ttp = TETRA_SAP_TMV \<and> crc_ok (unitdata ttp) = 1 \<and> lchan (unitdata ttp) = block_lchan sample_time TPSAP_T_NDB \<and>
    l1h (msg ttp) = Some 0 \<and> tail (msg ttp) = int (length (replicate 124 (1 :: u8))) \<and>
    msg_part (msg ttp) 0 (length (replicate 124 (1 :: u8))) = replicate 124 1 \<and>
    fragslots (rx_tms w') = fragslots (rx_tms sample_receiver) \<and> \<not> last_crc_fail (t_display_st (rx_tms w'))"
  by (rule coded_blocks_reach_upper_mac) simp_all

text \<open>
  C8. A synchronisation block sets the receiver to its cell: the PHY clock and the cell's clock get
  the slot, frame and multiframe it carries, the scrambling code is that of its network and colour
  code, and the cipher state gets the same identity. The block returns after one primitive.
\<close>
theorem sync_block_sets_cell:
  assumes "is_bits xs" "length xs = 60"
  shows "\<exists>phy' w'. tp_sap_udata_ind ndebug tcdb codec stack junk heap TPSAP_T_SB1 blk
      (transmit_block stack' SCRAMB_INIT (blk_params TPSAP_T_SB1) (add_check xs)) (phy, w) = Some (Inr (phy', w')) \<and>
    phy' = phy\<lparr>tn := fld ((!) xs) 10 2 + 1, fn := fld ((!) xs) 12 5, mn := fld ((!) xs) 17 6\<rparr> \<and> cd_time (rx_tcd w') = phy' \<and>
    scramb_init (rx_tcd w') = tetra_scramb_get_init (fld ((!) xs) 31 10) (fld ((!) xs) 41 14) (fld ((!) xs) 4 6) \<and>
    c_mcc (tcs (rx_tms w')) = fld ((!) xs) 31 10 \<and> c_mnc (tcs (rx_tms w')) = fld ((!) xs) 41 14 \<and>
    c_cc (tcs (rx_tms w')) = uint (fld ((!) xs) 4 6 :: u8)"
  by (rule coded_sync_block [OF assms])

theorem sync_block_sets_cell_witness:
  "\<exists>phy' w'. tp_sap_udata_ind False sample_db sample_codec (\<lambda>_. 1) (\<lambda>_. 2) (\<lambda>_. 3) TPSAP_T_SB1 BLK_1
      (transmit_block (\<lambda>_. 0) SCRAMB_INIT (blk_params TPSAP_T_SB1) (add_check (replicate 60 1))) (sample_time, sample_receiver) =
      Some (Inr (phy', w')) \<and>
    phy' = sample_time\<lparr>tn := fld ((!) (replicate 60 1)) 10 2 + 1, fn := fld ((!) (replicate 60 1)) 12 5,
      mn := fld ((!) (replicate 60 1)) 17 6\<rparr> \<and> cd_time (rx_tcd w') = phy' \<and>
    scramb_init (rx_tcd w') = tetra_scramb_get_init (fld ((!) (replicate 60 1)) 31 10) (fld ((!) (replicate 60 1)) 41 14)
      (fld ((!) (replicate 60 1)) 4 6) \<and>
    c_mcc (tcs (rx_tms w')) = fld ((!) (replicate 60 1)) 31 10 \<and> c_mnc (tcs (rx_tms w')) = fld ((!) (replicate 60 1)) 41 14 \<and>
    c_cc (tcs (rx_tms w')) = uint (fld ((!) (replicate 60 1)) 4 6 :: u8)"
  by (rule sync_block_sets_cell) simp_all

text \<open>
  C19. A valid block can stop the receiver: when the first PDU of a received block is a MAC-END whose
  length field is zero and its timeslot collects no message, \<open>tp_sap_udata_ind\<close> does not return; the
  loop advances by nothing and reads the same PDU again, for ever.
\<close>
theorem zero_length_mac_end_never_returns:
  assumes "type \<noteq> TPSAP_T_BBK" "type \<noteq> TPSAP_T_SB1" "is_bits xs" "length xs = unat (type1_bits (blk_params type))"
    and "take 3 xs = [0, 1, 1]" "slice xs 5 6 = replicate 6 0"
    and "slot_of (rx_tms w) (unat (tn phy)) = Some fs" "\<not> active fs"
  shows "tp_sap_udata_ind ndebug tcdb codec stack junk heap type blk
    (transmit_block stack' (scramb_init (rx_tcd w)) (blk_params type) (add_check xs)) (phy, w) = None"
proof -
  let ?p = "block_prim heap type phy blk (scramb_init (rx_tcd w)) 1 (add_check xs)"
  have n: "14 \<le> length xs" using assms(4) blk_sizes(3) [of type] by simp
  let ?m = "received_msg heap (length xs) (add_check xs)"
  have m: "msg ?p = ?m" by (simp add: assms(4))
  have at: "msgb_at ?m 0 i = xs ! i" if "i < 14" for i
    using that n by (simp add: received_msg_at nth_add_check)
  have h: "xs ! 0 = 0" "xs ! 1 = 1" "xs ! 2 = 1"
    using arg_cong [OF assms(5), of "\<lambda>l. l ! 0"] arg_cong [OF assms(5), of "\<lambda>l. l ! 1"] arg_cong [OF assms(5), of "\<lambda>l. l ! 2"] n
    by simp_all
  have z: "xs ! (5 + i) = 0" if "i < 6" for i
    using arg_cong [OF assms(6), of "\<lambda>l. l ! i"] that n by (simp add: nth_slice)
  have t: "mac_end_at (msg ?p) 0" "(fld (msgb_at (msg ?p) 0) 5 6 :: u8) = 0"
  proof -
    have f: "fld (msgb_at ?m 0) 0 2 = (fld ((!) xs) 0 2 :: u8)" "fld (msgb_at ?m 0) 5 6 = (fld ((!) xs) 5 6 :: u8)"
      by (rule fld_cong, simp add: at)+
    have "(fld ((!) xs) 0 2 :: u8) = 1" "(fld ((!) xs) 5 6 :: u8) = 0"
      using z [of 0] z [of 1] z [of 2] z [of 3] z [of 4] z [of 5] h by (simp_all add: fld_def at_def eval_nat_numeral)
    then show "mac_end_at (msg ?p) 0" "(fld (msgb_at (msg ?p) 0) 5 6 :: u8) = 0"
      using h(3) at [of 2] unfolding m mac_end_at_def by (simp_all add: f)
  qed
  obtain w' where w': "tp_sap_udata_ind ndebug tcdb codec stack junk heap type blk
      (transmit_block stack' (scramb_init (rx_tcd w)) (blk_params type) (add_check xs)) (phy, w) =
      after_loop phy w' (pdu_loop ndebug tcdb heap phy (pdu_limit type) 0 (int (length xs)) 0 ?p (rx_tms w'))"
      "fragslots (rx_tms w') = fragslots (rx_tms w)"
    using coded_block_arrives [OF assms(1-4), of ndebug tcdb codec stack junk heap blk stack' w phy] by blast
  have "slot_of (rx_tms w') (unat (tn phy)) = Some fs" using assms(7) unfolding slot_of_def w'(2) .
  moreover have "block_lchan phy type \<in> {TETRA_LC_BNCH, TETRA_LC_UNKNOWN, TETRA_LC_SCH_F}"
    using assms(1,2) by (cases type) (simp_all add: block_lchan_def)
  ultimately have "pdu_loop ndebug tcdb heap phy (pdu_limit type) 0 (int (length xs)) 0 ?p (rx_tms w') = None"
    using t pdu_limit_pos [of type] assms(8) by (intro zero_end_hangs) simp_all
  then show ?thesis by (simp add: w'(1))
qed

theorem zero_length_mac_end_never_returns_witness:
  "tp_sap_udata_ind False sample_db sample_codec (\<lambda>_. 1) (\<lambda>_. 2) (\<lambda>_. 3) TPSAP_T_SCH_F 0
    (transmit_block (\<lambda>_. 0) (scramb_init (rx_tcd sample_receiver)) (blk_params TPSAP_T_SCH_F)
      (add_check ([0, 1, 1] @ replicate 265 0))) (sample_time, sample_receiver) = None"
  by (rule zero_length_mac_end_never_returns [where fs = zero_fragslot])
    (simp_all add: slice_def sample_receiver_def sample_time_def sample_defs zero_fragslot_def)



end
