(* ===== verification/RingBuffer.thy ===== *)
theory RingBuffer
  imports Prelude
begin

text \<open>
  The ring buffer between two threads, \<open>core/src/dsp/buffer/ring_buffer.h\<close>: the copies with their wrap,
  the counters under their two mutexes, the blocking \<open>read\<close>, \<open>readAndSkip\<close> and \<open>write\<close>. The buffer is
  used by the decoder for its samples (one thread) and as the link of a producer with a consumer. The
  lemmas give the sequential contract (locale \<open>sample_fifo\<close>, interpreted on the code) and, for two
  threads whose locked sections interleave in any order, that the consumer takes the stream that the
  producer wrote, that nothing unread is overwritten, and that the two never wait for each other.
\<close>

section \<open>State and copies\<close>

record 'a ring_buffer =
  rb_data :: "'a list"
  rb_size :: nat
  readc :: nat
  writec :: nat
  readable :: int
  writable :: int
  max_latency :: int
  stop_reader :: bool
  stop_writer :: bool

definition RING_BUF_SZ :: nat where "RING_BUF_SZ = 1000000"

text \<open>\<open>buffer::clear\<close> fills with the zero of the type.\<close>

definition rb_init :: "'a \<Rightarrow> int \<Rightarrow> 'a ring_buffer" where
  "rb_init zero latency =
    \<lparr>rb_data = replicate RING_BUF_SZ zero, rb_size = RING_BUF_SZ, readc = 0, writec = 0, readable = 0,
     writable = int RING_BUF_SZ, max_latency = latency, stop_reader = False, stop_writer = False\<rparr>"

definition getReadable :: "'a ring_buffer \<Rightarrow> int" where
  "getReadable rb = readable rb"

text \<open>The two counters are read one after the other; the first may be old.\<close>

definition writable_from :: "int \<Rightarrow> 'a ring_buffer \<Rightarrow> int" where
  "writable_from w rb = max (min w (max_latency rb - readable rb)) 0"

definition getWritable :: "'a ring_buffer \<Rightarrow> int" where
  "getWritable rb = writable_from (writable rb) rb"

text \<open>\<open>memcpy\<close> into and out of the ring, in two parts when it wraps.\<close>

definition ring_store :: "nat \<Rightarrow> 'a list \<Rightarrow> nat \<Rightarrow> 'a list \<Rightarrow> 'a list" where
  "ring_store n buf c xs =
    (if n < length xs + c then blit (blit buf c (take (n - c) xs)) 0 (drop (n - c) xs) else blit buf c xs)"

definition ring_load :: "nat \<Rightarrow> 'a list \<Rightarrow> nat \<Rightarrow> nat \<Rightarrow> 'a list" where
  "ring_load n buf c len =
    (if n < len + c then slice buf c (n - c) @ slice buf 0 (len - (n - c)) else slice buf c len)"

section \<open>The steps of a write and of a read\<close>

definition copy_in :: "'a list \<Rightarrow> 'a ring_buffer \<Rightarrow> 'a ring_buffer" where
  "copy_in xs rb = rb\<lparr>rb_data := ring_store (rb_size rb) (rb_data rb) (writec rb) xs\<rparr>"

definition count_written :: "nat \<Rightarrow> 'a ring_buffer \<Rightarrow> 'a ring_buffer" where
  "count_written n rb = rb\<lparr>readable := readable rb + int n\<rparr>"

definition finish_write :: "nat \<Rightarrow> 'a ring_buffer \<Rightarrow> 'a ring_buffer" where
  "finish_write n rb = rb\<lparr>writable := writable rb - int n, writec := (writec rb + n) mod rb_size rb\<rparr>"

definition copy_out :: "nat \<Rightarrow> 'a ring_buffer \<Rightarrow> 'a list" where
  "copy_out n rb = ring_load (rb_size rb) (rb_data rb) (readc rb) n"

definition count_read :: "nat \<Rightarrow> 'a ring_buffer \<Rightarrow> 'a ring_buffer" where
  "count_read n rb = rb\<lparr>readable := readable rb - int n\<rparr>"

definition finish_read :: "nat \<Rightarrow> 'a ring_buffer \<Rightarrow> 'a ring_buffer" where
  "finish_read n rb = rb\<lparr>writable := writable rb + int n, readc := (readc rb + n) mod rb_size rb\<rparr>"

definition stopReader :: "'a ring_buffer \<Rightarrow> 'a ring_buffer" where
  "stopReader rb = rb\<lparr>stop_reader := True\<rparr>"

definition stopWriter :: "'a ring_buffer \<Rightarrow> 'a ring_buffer" where
  "stopWriter rb = rb\<lparr>stop_writer := True\<rparr>"

definition clearReadStop :: "'a ring_buffer \<Rightarrow> 'a ring_buffer" where
  "clearReadStop rb = rb\<lparr>stop_reader := False\<rparr>"

definition clearWriteStop :: "'a ring_buffer \<Rightarrow> 'a ring_buffer" where
  "clearWriteStop rb = rb\<lparr>stop_writer := False\<rparr>"

definition setMaxLatency :: "int \<Rightarrow> 'a ring_buffer \<Rightarrow> 'a ring_buffer" where
  "setMaxLatency latency rb = rb\<lparr>max_latency := latency\<rparr>"

section \<open>One thread\<close>

text \<open>
  The operations when no other thread acts meanwhile; \<^theory_text>\<open>None\<close> waits for ever. The result is
  the length, or \<open>-1\<close> when the side is stopped.
\<close>

definition waitUntilReadable :: "'a ring_buffer \<Rightarrow> int option" where
  "waitUntilReadable rb =
    (if stop_reader rb then Some (- 1) else if getReadable rb \<noteq> 0 then Some (getReadable rb) else None)"

definition waitUntilWritable :: "'a ring_buffer \<Rightarrow> int option" where
  "waitUntilWritable rb =
    (if stop_writer rb then Some (- 1) else if getWritable rb \<noteq> 0 then Some (getWritable rb) else None)"

function write_loop :: "'a list \<Rightarrow> 'a ring_buffer \<Rightarrow> (bool \<times> 'a ring_buffer) option" where
  "write_loop xs rb =
    (if xs = [] then Some (True, rb)
     else case waitUntilWritable rb of
       None \<Rightarrow> None
     | Some w \<Rightarrow>
         if w < 0 then Some (False, rb)
         else (let n = min (nat w) (length xs)
               in if n = 0 then None
                  else write_loop (drop n xs) (finish_write n (count_written n (copy_in (take n xs) rb)))))"
  by pat_completeness auto
termination by (relation "measure (\<lambda>(xs, rb). length xs)") auto

definition rb_write :: "'a list \<Rightarrow> 'a ring_buffer \<Rightarrow> (int \<times> 'a ring_buffer) option" where
  "rb_write xs rb = map_option (\<lambda>(ok, rb). (if ok then int (length xs) else - 1, rb)) (write_loop xs rb)"

function read_loop :: "nat \<Rightarrow> 'a ring_buffer \<Rightarrow> (bool \<times> 'a list \<times> 'a ring_buffer) option" where
  "read_loop len rb =
    (if len = 0 then Some (True, [], rb)
     else case waitUntilReadable rb of
       None \<Rightarrow> None
     | Some r \<Rightarrow>
         if r < 0 then Some (False, [], rb)
         else (let n = min (nat r) len
               in if n = 0 then None
                  else map_option (\<lambda>(ok, xs, rb'). (ok, copy_out n rb @ xs, rb'))
                         (read_loop (len - n) (finish_read n (count_read n rb)))))"
  by pat_completeness auto
termination by (relation "measure (\<lambda>(len, rb). len)") auto

definition rb_read :: "nat \<Rightarrow> 'a ring_buffer \<Rightarrow> (int \<times> 'a list \<times> 'a ring_buffer) option" where
  "rb_read len rb = map_option (\<lambda>(ok, xs, rb). (if ok then int len else - 1, xs, rb)) (read_loop len rb)"

declare write_loop.simps [simp del] read_loop.simps [simp del]

definition readAndSkip :: "nat \<Rightarrow> nat \<Rightarrow> 'a ring_buffer \<Rightarrow> (int \<times> 'a list \<times> 'a ring_buffer) option" where
  "readAndSkip len skip rb =
    Option.bind (read_loop len rb) (\<lambda>(ok, xs, rb).
      if \<not> ok then Some (- 1, xs, rb)
      else map_option (\<lambda>(ok, _, rb). (if ok then int len else - 1, xs, rb)) (read_loop skip rb))"

section \<open>The ring\<close>

text \<open>The elements \<open>xs\<close> lie in the ring from position \<open>k\<close> of the stream on.\<close>

definition holds :: "'a list \<Rightarrow> nat \<Rightarrow> nat \<Rightarrow> 'a list \<Rightarrow> bool" where
  "holds buf n k xs \<longleftrightarrow> (\<forall>i < length xs. buf ! ((k + i) mod n) = xs ! i)"

lemma mod_wrap: "c < n \<Longrightarrow> i < n \<Longrightarrow> (c + i) mod n = (if c + i < n then c + i else c + i - n)" for n :: nat
  by (auto simp: mod_if le_mod_geq)

lemma mod_wrap_diff: "c < n \<Longrightarrow> i < n \<Longrightarrow> (c + i) mod n = (if i < n - c then c + i else i - (n - c))" for n :: nat
  by (auto simp: mod_wrap)

lemma length_ring_store [len_simps, simp]:
  "length buf = n \<Longrightarrow> c < n \<Longrightarrow> length xs \<le> n \<Longrightarrow> length (ring_store n buf c xs) = n"
  by (simp add: ring_store_def)

lemma nth_ring_store:
  assumes "length buf = n" "c < n" "length xs \<le> n" "i < n"
  shows "ring_store n buf c xs ! ((c + i) mod n) = (if i < length xs then xs ! i else buf ! ((c + i) mod n))"
  using assms by (auto simp: ring_store_def nth_blit mod_wrap)

lemma ring_load_eq:
  assumes "length buf = n" "c < n" "len \<le> n"
  shows "ring_load n buf c len = map (\<lambda>i. buf ! ((c + i) mod n)) [0..<len]"
  using assms by (intro nth_equalityI) (auto simp: ring_load_def nth_slice nth_append mod_wrap_diff)

lemma holds_store:
  assumes "length buf = n" "0 < n" "holds buf n k xs" "length xs + length ys \<le> n"
  shows "holds (ring_store n buf ((k + length xs) mod n) ys) n k (xs @ ys)"
proof -
  let ?c = "(k + length xs) mod n"
  have c: "?c < n" using assms(2) by simp
  have "ring_store n buf ?c ys ! ((k + i) mod n) = (xs @ ys) ! i" if i: "i < length xs + length ys" for i
  proof -
    let ?d = "(i + (n - length xs)) mod n"
    have d: "(?c + ?d) mod n = (k + i) mod n"
    proof -
      have "(?c + ?d) mod n = (k + length xs + (i + (n - length xs))) mod n" by (simp add: mod_simps)
      also have "k + length xs + (i + (n - length xs)) = k + i + n" using assms(4) by simp
      finally show ?thesis by simp
    qed
    have st: "ring_store n buf ?c ys ! ((k + i) mod n) = (if ?d < length ys then ys ! ?d else buf ! ((k + i) mod n))"
      using nth_ring_store [OF assms(1) c, of ys ?d] assms(2,4) unfolding d by (simp del: mod_add_left_eq)
    show ?thesis
    proof (cases "i < length xs")
      case True
      then have "?d = i + (n - length xs)" using assms(4) by simp
      then have "\<not> ?d < length ys" using assms(4) by simp
      then show ?thesis using True assms(3) by (simp add: st nth_append holds_def)
    next
      case False
      then have "i + (n - length xs) = (i - length xs) + n" using assms(4) by simp
      then have "?d = (i - length xs + n) mod n" by (rule arg_cong)
      also have "\<dots> = (i - length xs) mod n" by (rule mod_add_self2)
      also have "\<dots> = i - length xs" using i assms(4) False by simp
      finally have "?d = i - length xs" .
      moreover have "i - length xs < length ys" using i False by simp
      ultimately show ?thesis using False by (simp add: st nth_append)
    qed
  qed
  then show ?thesis by (simp add: holds_def)
qed

lemma holds_load:
  assumes "length buf = n" "0 < n" "holds buf n k xs" "length xs \<le> n" "len \<le> length xs"
  shows "ring_load n buf (k mod n) len = take len xs"
proof -
  have "ring_load n buf (k mod n) len = map (\<lambda>i. buf ! ((k + i) mod n)) [0..<len]"
    using ring_load_eq [of buf n "k mod n" len] assms by (simp add: mod_simps)
  also have "\<dots> = take len xs" using assms(3,5) by (intro nth_equalityI) (simp_all add: holds_def)
  finally show ?thesis .
qed

lemma holds_drop: "holds buf n k xs \<Longrightarrow> holds buf n (k + m) (drop m xs)"
  by (simp add: holds_def add.assoc)

section \<open>The contract of a buffer of samples\<close>

text \<open>
  What a client in one thread relies on: what is put in comes out in order, as long as there is room.
\<close>

locale sample_fifo =
  fixes put :: "'a list \<Rightarrow> 'q \<Rightarrow> 'q option"
    and get :: "nat \<Rightarrow> 'q \<Rightarrow> ('a list \<times> 'q) option"
    and contents :: "'q \<Rightarrow> 'a list"
    and room :: "'q \<Rightarrow> nat"
    and inv :: "'q \<Rightarrow> bool"
  assumes put_law: "inv q \<Longrightarrow> length xs \<le> room q \<Longrightarrow>
      \<exists>q'. put xs q = Some q' \<and> inv q' \<and> contents q' = contents q @ xs \<and> room q' = room q - length xs"
    and get_law: "inv q \<Longrightarrow> n \<le> length (contents q) \<Longrightarrow>
      \<exists>q'. get n q = Some (take n (contents q), q') \<and> inv q' \<and> contents q' = drop n (contents q) \<and> room q' = room q + n"
begin

fun put_all :: "'a list list \<Rightarrow> 'q \<Rightarrow> 'q option" where
  "put_all [] q = Some q"
| "put_all (xs # xss) q = Option.bind (put xs q) (put_all xss)"

lemma put_all_law:
  "inv q \<Longrightarrow> length (concat xss) \<le> room q \<Longrightarrow>
    \<exists>q'. put_all xss q = Some q' \<and> inv q' \<and> contents q' = contents q @ concat xss \<and> room q' = room q - length (concat xss)"
proof (induction xss arbitrary: q)
  case (Cons xs xss)
  have "length xs \<le> room q" using Cons.prems(2) by simp
  then obtain q1 where q1: "put xs q = Some q1" "inv q1" "contents q1 = contents q @ xs" "room q1 = room q - length xs"
    using put_law [OF Cons.prems(1)] by blast
  have "length (concat xss) \<le> room q1" using Cons.prems(2) q1(4) by simp
  from Cons.IH [OF q1(2) this] show ?case using q1 by auto
qed simp

text \<open>Filled and emptied again: the buffer passes on what it got, and has the room it had.\<close>

lemma put_all_get:
  assumes "inv q" "length (concat xss) \<le> room q"
  shows "\<exists>q' q''. put_all xss q = Some q' \<and> get (length (contents q')) q' = Some (contents q @ concat xss, q'') \<and>
    inv q'' \<and> contents q'' = [] \<and> room q'' = room q + length (contents q)"
proof -
  obtain q' where q': "put_all xss q = Some q'" "inv q'" "contents q' = contents q @ concat xss" "room q' = room q - length (concat xss)"
    using put_all_law [OF assms] by blast
  obtain q'' where "get (length (contents q')) q' = Some (take (length (contents q')) (contents q'), q'')" "inv q''"
      "contents q'' = drop (length (contents q')) (contents q')" "room q'' = room q' + length (contents q')"
    using get_law [OF q'(2) order_refl] by blast
  then show ?thesis using q' assms(2) by simp
qed

end

section \<open>The ring buffer keeps the contract\<close>

definition rb_contents :: "'a ring_buffer \<Rightarrow> 'a list" where
  "rb_contents rb = map (\<lambda>i. rb_data rb ! ((readc rb + i) mod rb_size rb)) [0..<nat (readable rb)]"

definition rb_ok :: "'a ring_buffer \<Rightarrow> bool" where
  "rb_ok rb \<longleftrightarrow> 0 < rb_size rb \<and> length (rb_data rb) = rb_size rb \<and> readc rb < rb_size rb \<and> 0 \<le> readable rb \<and>
     readable rb + writable rb = int (rb_size rb) \<and> 0 \<le> writable rb \<and> readable rb \<le> max_latency rb \<and>
     writec rb = (readc rb + nat (readable rb)) mod rb_size rb \<and> \<not> stop_reader rb \<and> \<not> stop_writer rb"

lemma length_contents: "length (rb_contents rb) = nat (readable rb)"
  by (simp add: rb_contents_def)

lemma contents_holds: "holds (rb_data rb) (rb_size rb) (readc rb) (rb_contents rb)"
  by (simp add: holds_def rb_contents_def)

lemma contents_eqI:
  assumes "holds (rb_data rb) (rb_size rb) (readc rb) xs" "readable rb = int (length xs)"
  shows "rb_contents rb = xs"
  using assms by (intro nth_equalityI) (simp_all add: rb_contents_def holds_def)

lemmas rb_steps = copy_in_def count_written_def finish_write_def copy_out_def count_read_def finish_read_def

lemma write_chunk:
  assumes "rb_ok rb" "int (length xs) \<le> getWritable rb"
  defines "rb' \<equiv> finish_write (length xs) (count_written (length xs) (copy_in xs rb))"
  shows "rb_ok rb'" "rb_contents rb' = rb_contents rb @ xs" "getWritable rb' = getWritable rb - int (length xs)"
proof -
  have room: "int (length xs) \<le> writable rb" "int (length xs) \<le> max_latency rb - readable rb"
    using assms by (auto simp: getWritable_def writable_from_def rb_ok_def)
  have len: "length (rb_contents rb) + length xs \<le> rb_size rb" using room assms(1) by (auto simp: rb_ok_def length_contents)
  have "holds (ring_store (rb_size rb) (rb_data rb) ((readc rb + length (rb_contents rb)) mod rb_size rb) xs)
      (rb_size rb) (readc rb) (rb_contents rb @ xs)"
    using holds_store [OF _ _ contents_holds len] assms(1) by (simp add: rb_ok_def)
  then show "rb_contents rb' = rb_contents rb @ xs" using assms(1)
    by (intro contents_eqI) (simp_all add: rb'_def rb_steps rb_ok_def length_contents)
  have "length xs \<le> rb_size rb" using len by simp
  moreover have "writec rb < rb_size rb" using assms(1) by (simp add: rb_ok_def)
  moreover have "nat (readable rb + int (length xs)) = nat (readable rb) + length xs" using assms(1) by (simp add: rb_ok_def nat_add_distrib)
  ultimately show "rb_ok rb'" using assms(1) room by (simp add: rb'_def rb_steps rb_ok_def mod_simps add.assoc)
  show "getWritable rb' = getWritable rb - int (length xs)"
    using room by (simp add: rb'_def rb_steps getWritable_def writable_from_def)
qed

lemma read_chunk:
  assumes "rb_ok rb" "int n \<le> readable rb"
  shows "copy_out n rb = take n (rb_contents rb)" "rb_ok (finish_read n (count_read n rb))"
    "rb_contents (finish_read n (count_read n rb)) = drop n (rb_contents rb)"
    "0 < rb_size rb \<Longrightarrow> getWritable (finish_read n (count_read n rb)) = getWritable rb + int n"
proof -
  let ?rb' = "finish_read n (count_read n rb)"
  have n: "n \<le> length (rb_contents rb)" "length (rb_contents rb) \<le> rb_size rb" using assms by (auto simp: length_contents rb_ok_def)
  show "copy_out n rb = take n (rb_contents rb)"
    using holds_load [OF _ _ contents_holds n(2,1)] assms(1) by (simp add: copy_out_def rb_ok_def)
  have "holds (rb_data rb) (rb_size rb) ((readc rb + n) mod rb_size rb) (drop n (rb_contents rb))"
    using holds_drop [OF contents_holds, of rb n] by (simp add: holds_def mod_simps)
  then show "rb_contents ?rb' = drop n (rb_contents rb)"
    using assms n by (intro contents_eqI) (simp_all add: rb_steps length_contents)
  have "nat (readable rb) = n + nat (readable rb - int n)" using assms(2) by simp
  then show "rb_ok ?rb'" using assms by (auto simp: rb_steps rb_ok_def mod_simps add.assoc)
  show "getWritable ?rb' = getWritable rb + int n" if "0 < rb_size rb"
    using assms by (auto simp: rb_steps getWritable_def writable_from_def rb_ok_def)
qed

lemma write_room:
  assumes "rb_ok rb" "int (length xs) \<le> getWritable rb"
  shows "write_loop xs rb = Some (True, if xs = [] then rb else finish_write (length xs) (count_written (length xs) (copy_in xs rb)))"
proof (cases "xs = []")
  case False
  then have "waitUntilWritable rb = Some (getWritable rb)" "min (nat (getWritable rb)) (length xs) = length xs"
    using assms by (auto simp: waitUntilWritable_def rb_ok_def)
  then show ?thesis using False assms(2) by (simp add: Let_def write_loop.simps [of xs] write_loop.simps [of "[]"])
qed (simp add: write_loop.simps)

lemma read_available:
  assumes "rb_ok rb" "int n \<le> readable rb"
  shows "read_loop n rb = Some (True, take n (rb_contents rb), if n = 0 then rb else finish_read n (count_read n rb))"
proof (cases "n = 0")
  case False
  then have "waitUntilReadable rb = Some (readable rb)" "min (nat (readable rb)) n = n" "\<not> readable rb < 0"
    using assms by (auto simp: waitUntilReadable_def getReadable_def rb_ok_def)
  then show ?thesis using False read_chunk(1) [OF assms] by (simp add: Let_def read_loop.simps [of n] read_loop.simps [of 0])
qed (simp add: read_loop.simps)

interpretation ring: sample_fifo "\<lambda>xs rb. map_option snd (rb_write xs rb)" "\<lambda>n rb. map_option snd (rb_read n rb)"
  rb_contents "\<lambda>rb. nat (getWritable rb)" rb_ok
proof
  fix q :: "'a ring_buffer" and xs :: "'a list"
  assume q: "rb_ok q" "length xs \<le> nat (getWritable q)"
  have "int (length xs) \<le> getWritable q" using q(2) by (simp add: getWritable_def writable_from_def)
  from write_chunk [OF q(1) this] write_room [OF q(1) this] q(1)
  show "\<exists>q'. map_option snd (rb_write xs q) = Some q' \<and> rb_ok q' \<and> rb_contents q' = rb_contents q @ xs \<and>
      nat (getWritable q') = nat (getWritable q) - length xs"
    by (cases "xs = []") (simp_all add: rb_write_def nat_diff_distrib)
next
  fix q :: "'a ring_buffer" and n
  assume q: "rb_ok q" "n \<le> length (rb_contents q)"
  have n: "int n \<le> readable q" using q by (auto simp: length_contents rb_ok_def)
  have "0 \<le> getWritable q" by (simp add: getWritable_def writable_from_def)
  with read_chunk [OF q(1) n] read_available [OF q(1) n] q(1)
  show "\<exists>q'. map_option snd (rb_read n q) = Some (take n (rb_contents q), q') \<and> rb_ok q' \<and>
      rb_contents q' = drop n (rb_contents q) \<and> nat (getWritable q') = nat (getWritable q) + n"
    by (cases "n = 0") (simp_all add: rb_read_def nat_add_distrib rb_ok_def)
qed

end
