(* ===== verification/RingThreads.thy ===== *)
theory RingThreads
  imports RingBuffer
begin

text \<open>
  Two threads on the ring buffer of \<open>core/src/dsp/buffer/ring_buffer.h\<close>: one in \<open>write\<close>, one in
  \<open>read\<close> or \<open>readAndSkip\<close>. A step is what happens between two mutex operations: the look at a counter,
  a \<open>memcpy\<close>, the update of a counter. The stop flags may change at any moment.
\<close>

section \<open>The steps\<close>

text \<open>
  Where a thread is in its loop: before the look at the counters, with the number it saw, with the
  copy done, with the first of the two counters updated.
\<close>

datatype writer_pc = W_idle | W_saw int | W_copied nat | W_counted nat
datatype reader_pc = R_idle | R_saw int | R_copied nat | R_counted nat

text \<open>
  \<open>pending\<close> is the rest of the data of the writer's call, \<open>want\<close> and \<open>skip\<close> what the reader's call still
  has to take. \<open>sent\<close> is all that was copied in; \<open>consumed\<close> all that was taken, with whether it was
  delivered or skipped.
\<close>

record 'a ring_threads =
  ring :: "'a ring_buffer"
  w_pc :: writer_pc
  pending :: "'a list"
  r_pc :: reader_pc
  want :: nat
  to_skip :: nat
  sent :: "'a list"
  consumed :: "('a \<times> bool) list"

definition threads_start :: "'a \<Rightarrow> int \<Rightarrow> 'a ring_threads" where
  "threads_start zero latency =
    \<lparr>ring = rb_init zero latency, w_pc = W_idle, pending = [], r_pc = R_idle, want = 0, to_skip = 0, sent = [], consumed = []\<rparr>"

text \<open>How much the reader takes, and whether it delivers it: the skipped part comes last.\<close>

definition read_amount :: "int \<Rightarrow> 'a ring_threads \<Rightarrow> nat" where
  "read_amount r s = (if want s \<noteq> 0 then min (nat r) (want s) else min (nat r) (to_skip s))"

definition reader_take :: "nat \<Rightarrow> 'a ring_threads \<Rightarrow> 'a ring_threads" where
  "reader_take n s =
    (if want s \<noteq> 0
     then s\<lparr>consumed := consumed s @ map (\<lambda>x. (x, True)) (copy_out n (ring s)), want := want s - n, r_pc := R_copied n\<rparr>
     else s\<lparr>consumed := consumed s @ map (\<lambda>x. (x, False)) (copy_out n (ring s)), to_skip := to_skip s - n, r_pc := R_copied n\<rparr>)"

inductive ring_step :: "'a ring_threads \<Rightarrow> 'a ring_threads \<Rightarrow> bool" where
  write_call: "w_pc s = W_idle \<Longrightarrow> pending s = [] \<Longrightarrow> ring_step s (s\<lparr>pending := xs\<rparr>)"
| write_stopped: "w_pc s = W_idle \<Longrightarrow> stop_writer (ring s) \<Longrightarrow> ring_step s (s\<lparr>pending := []\<rparr>)"
| write_look: "w_pc s = W_idle \<Longrightarrow> pending s \<noteq> [] \<Longrightarrow> \<not> stop_writer (ring s) \<Longrightarrow>
    ring_step s (s\<lparr>w_pc := W_saw (writable (ring s))\<rparr>)"
| write_wait: "w_pc s = W_saw w \<Longrightarrow> writable_from w (ring s) = 0 \<Longrightarrow> ring_step s (s\<lparr>w_pc := W_idle\<rparr>)"
| write_copy: "w_pc s = W_saw w \<Longrightarrow> n = min (nat (writable_from w (ring s))) (length (pending s)) \<Longrightarrow> 0 < n \<Longrightarrow>
    ring_step s (s\<lparr>ring := copy_in (take n (pending s)) (ring s), sent := sent s @ take n (pending s),
      pending := drop n (pending s), w_pc := W_copied n\<rparr>)"
| write_count: "w_pc s = W_copied n \<Longrightarrow> ring_step s (s\<lparr>ring := count_written n (ring s), w_pc := W_counted n\<rparr>)"
| write_finish: "w_pc s = W_counted n \<Longrightarrow> ring_step s (s\<lparr>ring := finish_write n (ring s), w_pc := W_idle\<rparr>)"
| read_call: "r_pc s = R_idle \<Longrightarrow> want s = 0 \<Longrightarrow> to_skip s = 0 \<Longrightarrow> ring_step s (s\<lparr>want := m, to_skip := k\<rparr>)"
| read_stopped: "r_pc s = R_idle \<Longrightarrow> stop_reader (ring s) \<Longrightarrow> ring_step s (s\<lparr>want := 0, to_skip := 0\<rparr>)"
| read_look: "r_pc s = R_idle \<Longrightarrow> want s \<noteq> 0 \<or> to_skip s \<noteq> 0 \<Longrightarrow> \<not> stop_reader (ring s) \<Longrightarrow> getReadable (ring s) \<noteq> 0 \<Longrightarrow>
    ring_step s (s\<lparr>r_pc := R_saw (getReadable (ring s))\<rparr>)"
| read_copy: "r_pc s = R_saw r \<Longrightarrow> ring_step s (reader_take (read_amount r s) s)"
| read_count: "r_pc s = R_copied n \<Longrightarrow> ring_step s (s\<lparr>ring := count_read n (ring s), r_pc := R_counted n\<rparr>)"
| read_finish: "r_pc s = R_counted n \<Longrightarrow> ring_step s (s\<lparr>ring := finish_read n (ring s), r_pc := R_idle\<rparr>)"
| stop: "rb \<in> {stopReader (ring s), stopWriter (ring s), clearReadStop (ring s), clearWriteStop (ring s)} \<Longrightarrow>
    ring_step s (s\<lparr>ring := rb\<rparr>)"

inductive ring_reach :: "'a \<Rightarrow> int \<Rightarrow> 'a ring_threads \<Rightarrow> bool" for zero latency where
  start: "ring_reach zero latency (threads_start zero latency)"
| step: "ring_reach zero latency s \<Longrightarrow> ring_step s s' \<Longrightarrow> ring_reach zero latency s'"

section \<open>The invariant\<close>

text \<open>What is copied in but not counted, and what is not finished; the same for the reader.\<close>

fun w_uncounted :: "writer_pc \<Rightarrow> nat" where
  "w_uncounted (W_copied n) = n" | "w_uncounted _ = 0"

fun w_unfinished :: "writer_pc \<Rightarrow> nat" where
  "w_unfinished (W_copied n) = n" | "w_unfinished (W_counted n) = n" | "w_unfinished _ = 0"

fun r_uncounted :: "reader_pc \<Rightarrow> nat" where
  "r_uncounted (R_copied n) = n" | "r_uncounted _ = 0"

fun r_unfinished :: "reader_pc \<Rightarrow> nat" where
  "r_unfinished (R_copied n) = n" | "r_unfinished (R_counted n) = n" | "r_unfinished _ = 0"

text \<open>
  The counters against the numbers of elements sent (\<open>a\<close>) and consumed (\<open>c\<close>), and the positions in
  the ring.
\<close>

definition counts_ok :: "int \<Rightarrow> int \<Rightarrow> int \<Rightarrow> writer_pc \<Rightarrow> reader_pc \<Rightarrow> int \<Rightarrow> int \<Rightarrow> bool" where
  "counts_ok latency rd wr w r a c \<longleftrightarrow>
    int (w_unfinished w) \<le> a \<and> int (r_unfinished r) \<le> c \<and> c + int (w_uncounted w) \<le> a \<and>
    rd = a - int (w_uncounted w) - (c - int (r_uncounted r)) \<and>
    wr = int RING_BUF_SZ - (a - int (w_unfinished w)) + (c - int (r_unfinished r)) \<and>
    a \<le> c + int RING_BUF_SZ \<and> a \<le> c + latency \<and>
    (\<forall>x. w = W_saw x \<longrightarrow> x \<le> wr) \<and> (\<forall>x. r = R_saw x \<longrightarrow> 0 < x \<and> x \<le> rd)"

definition places_ok :: "int \<Rightarrow> 'a ring_buffer \<Rightarrow> nat \<Rightarrow> nat \<Rightarrow> bool" where
  "places_ok latency rb a c \<longleftrightarrow>
    max_latency rb = latency \<and> rb_size rb = RING_BUF_SZ \<and> length (rb_data rb) = RING_BUF_SZ \<and>
    writec rb = a mod RING_BUF_SZ \<and> readc rb = c mod RING_BUF_SZ"

definition threads_ok :: "int \<Rightarrow> 'a ring_threads \<Rightarrow> bool" where
  "threads_ok latency s \<longleftrightarrow>
    counts_ok latency (readable (ring s)) (writable (ring s)) (w_pc s) (r_pc s)
      (int (length (sent s))) (int (length (consumed s))) \<and>
    places_ok latency (ring s) (length (sent s) - w_unfinished (w_pc s)) (length (consumed s) - r_unfinished (r_pc s)) \<and>
    map fst (consumed s) = take (length (consumed s)) (sent s) \<and>
    holds (rb_data (ring s)) RING_BUF_SZ (length (consumed s)) (drop (length (consumed s)) (sent s)) \<and>
    (r_pc s \<noteq> R_idle \<longrightarrow> r_unfinished (r_pc s) \<noteq> 0 \<or> want s \<noteq> 0 \<or> to_skip s \<noteq> 0)"

lemma RING_BUF_SZ_pos [simp]: "0 < RING_BUF_SZ"
  by (simp add: RING_BUF_SZ_def)

lemma threads_start_ok: "0 \<le> latency \<Longrightarrow> threads_ok latency (threads_start zero latency)"
  by (simp add: threads_ok_def threads_start_def counts_ok_def places_ok_def rb_init_def holds_def)

lemma uncounted_le: "r_uncounted r \<le> r_unfinished r" "w_uncounted w \<le> w_unfinished w"
  by (cases r; simp) (cases w; simp)

text \<open>What the writer may copy.\<close>

lemma counts_room:
  assumes "counts_ok latency rd wr (W_saw w) r a c" "n \<le> w" "n \<le> latency - rd"
  shows "a + n \<le> c + int RING_BUF_SZ" "a + n \<le> c + latency" "c \<le> a"
  using assms uncounted_le(1) [of r] by (simp_all add: counts_ok_def)

lemma counts_copy_in:
  assumes "counts_ok latency rd wr (W_saw w) r a c" "int n \<le> w" "int n \<le> latency - rd"
  shows "counts_ok latency rd wr (W_copied n) r (a + int n) c"
proof -
  have "0 \<le> a" "0 \<le> c" using assms(1) by (auto simp: counts_ok_def)
  then show ?thesis using assms(1) counts_room [OF assms] by (auto simp: counts_ok_def)
qed

lemma counts_copy_out:
  assumes "counts_ok latency rd wr w (R_saw x) a c" "int n \<le> x"
  shows "counts_ok latency rd wr w (R_copied n) a (c + int n)" "c + int n + int (w_uncounted w) \<le> a" "a \<le> c + int RING_BUF_SZ"
  using assms by (auto simp: counts_ok_def)

lemma counts_updates:
  "counts_ok latency rd wr (W_copied n) r a c \<Longrightarrow> counts_ok latency (rd + int n) wr (W_counted n) r a c"
  "counts_ok latency rd wr (W_counted n) r a c \<Longrightarrow> counts_ok latency rd (wr - int n) W_idle r a c"
  "counts_ok latency rd wr w (R_copied n) a c \<Longrightarrow> counts_ok latency (rd - int n) wr w (R_counted n) a c"
  "counts_ok latency rd wr w (R_counted n) a c \<Longrightarrow> counts_ok latency rd (wr + int n) w R_idle a c"
  by (auto simp: counts_ok_def)

lemma write_copy_ok:
  assumes "threads_ok latency s" "w_pc s = W_saw w" "n = min (nat (writable_from w (ring s))) (length (pending s))" "0 < n"
  shows "threads_ok latency (s\<lparr>ring := copy_in (take n (pending s)) (ring s), sent := sent s @ take n (pending s),
      pending := drop n (pending s), w_pc := W_copied n\<rparr>)"
proof -
  let ?a = "length (sent s)" and ?c = "length (consumed s)" and ?N = RING_BUF_SZ
  have c: "counts_ok latency (readable (ring s)) (writable (ring s)) (W_saw w) (r_pc s) (int ?a) (int ?c)"
    and pl: "places_ok latency (ring s) ?a (?c - r_unfinished (r_pc s))"
    using assms(1,2) by (simp_all add: threads_ok_def)
  have n: "int n \<le> w" "int n \<le> latency - readable (ring s)" "n \<le> length (pending s)"
  proof -
    have "n \<le> nat (writable_from w (ring s))" using assms(3) by simp
    then have pos: "int n \<le> writable_from w (ring s)" using assms(4) by linarith
    then have "writable_from w (ring s) = min w (latency - readable (ring s))"
      using assms(4) pl by (auto simp: writable_from_def places_ok_def)
    then show "int n \<le> w" "int n \<le> latency - readable (ring s)" using pos by simp_all
    show "n \<le> length (pending s)" using assms(3) by simp
  qed
  note room = counts_room [OF c n(1,2)] and c' = counts_copy_in [OF c n(1,2)]
  have rm: "?a + n \<le> ?c + ?N" "?c \<le> ?a" using room by linarith+
  have h: "holds (ring_store ?N (rb_data (ring s)) (?a mod ?N) (take n (pending s))) ?N ?c
      (drop ?c (sent s) @ take n (pending s))"
    using holds_store [of "rb_data (ring s)" ?N ?c "drop ?c (sent s)" "take n (pending s)"] assms(1) pl rm n(3)
    by (simp add: threads_ok_def places_ok_def)
  have "places_ok latency (copy_in (take n (pending s)) (ring s)) ?a (?c - r_unfinished (r_pc s))"
    using pl rm n(3) by (simp add: places_ok_def copy_in_def)
  then show ?thesis using assms(1) c' h n(3) rm(2) pl
    by (simp add: threads_ok_def) (simp add: copy_in_def places_ok_def)
qed

lemma read_copy_ok:
  assumes "threads_ok latency s" "r_pc s = R_saw r"
  shows "threads_ok latency (reader_take (read_amount r s) s)"
proof -
  let ?a = "length (sent s)" and ?c = "length (consumed s)" and ?N = RING_BUF_SZ
  define n where "n = read_amount r s"
  have c: "counts_ok latency (readable (ring s)) (writable (ring s)) (w_pc s) (R_saw r) (int ?a) (int ?c)"
    and pl: "places_ok latency (ring s) (?a - w_unfinished (w_pc s)) ?c" and q: "want s \<noteq> 0 \<or> to_skip s \<noteq> 0"
    using assms by (simp_all add: threads_ok_def)
  have "0 < r" using c by (simp add: counts_ok_def)
  then have n: "int n \<le> r" "0 < n" using q by (auto simp: n_def read_amount_def)
  note out = counts_copy_out [OF c n(1)]
  have le: "?c + n \<le> ?a" "?a \<le> ?c + ?N" using out(2,3) by linarith+
  have hc: "holds (rb_data (ring s)) ?N ?c (drop ?c (sent s))" using assms(1) by (simp add: threads_ok_def)
  have "ring_load ?N (rb_data (ring s)) (?c mod ?N) n = take n (drop ?c (sent s))"
    by (rule holds_load [OF _ _ hc]) (use pl le in \<open>simp_all add: places_ok_def\<close>)
  then have out': "copy_out n (ring s) = take n (drop ?c (sent s))" using pl by (simp add: copy_out_def places_ok_def)
  have h: "holds (rb_data (ring s)) ?N (?c + n) (drop (?c + n) (sent s))"
    using holds_drop [OF hc, of n] by (simp add: add.commute)
  have t: "map fst (consumed s) @ take n (drop ?c (sent s)) = take (?c + n) (sent s)"
    using assms(1) by (simp add: threads_ok_def take_add)
  have len: "length (take n (drop ?c (sent s))) = n" using le(1) by simp
  show ?thesis
  proof (cases "want s = 0")
    case True
    then show ?thesis using assms(1) h t len n(2) out(1) pl unfolding threads_ok_def n_def [symmetric]
      by (simp add: reader_take_def out' comp_def)
  next
    case False
    then show ?thesis using assms(1) h t len n(2) out(1) pl unfolding threads_ok_def n_def [symmetric]
      by (simp add: reader_take_def out' comp_def)
  qed
qed

lemma ring_step_ok:
  assumes "ring_step s s'" "threads_ok latency s"
  shows "threads_ok latency s'"
  using assms
proof (induction rule: ring_step.induct)
  case (write_copy s w n)
  then show ?case by (intro write_copy_ok)
next
  case (read_copy s r)
  then show ?case by (intro read_copy_ok)
next
  case (write_look s)
  then show ?case by (auto simp: threads_ok_def counts_ok_def)
next
  case (write_wait s w)
  then show ?case by (auto simp: threads_ok_def counts_ok_def)
next
  case (write_count s n)
  then show ?case using counts_updates(1) by (simp add: threads_ok_def count_written_def places_ok_def)
next
  case (write_finish s n)
  have n: "n \<le> length (sent s)" using write_finish by (simp add: threads_ok_def counts_ok_def)
  have "((length (sent s) - n) mod RING_BUF_SZ + n) mod RING_BUF_SZ = length (sent s) mod RING_BUF_SZ"
    using n by (simp add: mod_simps)
  then show ?case using write_finish counts_updates(2)
    by (simp add: threads_ok_def finish_write_def places_ok_def)
next
  case (read_look s)
  then show ?case by (auto simp: threads_ok_def counts_ok_def getReadable_def)
next
  case (read_count s n)
  then show ?case using counts_updates(3) by (simp add: threads_ok_def count_read_def places_ok_def)
next
  case (read_finish s n)
  have n: "n \<le> length (consumed s)" using read_finish by (simp add: threads_ok_def counts_ok_def)
  have "((length (consumed s) - n) mod RING_BUF_SZ + n) mod RING_BUF_SZ = length (consumed s) mod RING_BUF_SZ"
    using n by (simp add: mod_simps)
  then show ?case using read_finish counts_updates(4)
    by (simp add: threads_ok_def finish_read_def places_ok_def)
next
  case (stop rb s)
  then show ?case
    by (auto simp: threads_ok_def places_ok_def stopReader_def stopWriter_def clearReadStop_def clearWriteStop_def)
qed (simp_all add: threads_ok_def)

lemma ring_reach_ok: "ring_reach zero latency s \<Longrightarrow> 0 \<le> latency \<Longrightarrow> threads_ok latency s"
  by (induction rule: ring_reach.induct) (blast intro: threads_start_ok ring_step_ok)+

section \<open>A sample\<close>

text \<open>Three of five elements sent, one of them taken, by a reader that still has one to skip.\<close>

definition sample_threads :: "nat ring_threads" where
  "sample_threads =
    (let s = threads_start 0 3; rb = finish_write 3 (count_written 3 (copy_in [1, 2, 3] (ring s)))
     in s\<lparr>ring := finish_read 1 (count_read 1 rb), pending := [4, 5], to_skip := 1, sent := [1, 2, 3],
          consumed := map (\<lambda>x. (x, True)) (copy_out 1 rb)\<rparr>)"

lemma sample_threads_reach: "ring_reach 0 3 sample_threads"
proof -
  have N: "int RING_BUF_SZ = 1000000" by (simp add: RING_BUF_SZ_def)
  let ?s = "threads_start (0 :: nat) 3" and ?xs = "[1, 2, 3, 4, 5 :: nat]"
  let ?rb = "copy_in [1, 2, 3] (ring ?s)"
  let ?full = "finish_write 3 (count_written 3 ?rb)"
  let ?r = "?s\<lparr>ring := ?full, pending := [4, 5], sent := [1, 2, 3]\<rparr>"
  let ?got = "map (\<lambda>x. (x, True)) (copy_out 1 ?full)"
  have "ring_reach 0 3 (?s\<lparr>pending := ?xs\<rparr>)"
    by (rule ring_reach.step [OF ring_reach.start write_call]) (simp_all add: threads_start_def)
  then have "ring_reach 0 3 (?s\<lparr>pending := ?xs, w_pc := W_saw (int RING_BUF_SZ)\<rparr>)"
    by (rule ring_reach.step) (use write_look [of "?s\<lparr>pending := ?xs\<rparr>"] in \<open>simp add: threads_start_def rb_init_def\<close>)
  then have "ring_reach 0 3 (?s\<lparr>ring := ?rb, pending := [4, 5], w_pc := W_copied 3, sent := [1, 2, 3]\<rparr>)"
    by (rule ring_reach.step)
      (use write_copy [of "?s\<lparr>pending := ?xs, w_pc := W_saw (int RING_BUF_SZ)\<rparr>" "int RING_BUF_SZ" 3]
       in \<open>simp add: threads_start_def rb_init_def writable_from_def N eval_nat_numeral\<close>)
  then have "ring_reach 0 3 (?s\<lparr>ring := count_written 3 ?rb, pending := [4, 5], w_pc := W_counted 3, sent := [1, 2, 3]\<rparr>)"
    by (rule ring_reach.step)
      (use write_count [of "?s\<lparr>ring := ?rb, pending := [4, 5], w_pc := W_copied 3, sent := [1, 2, 3]\<rparr>" 3] in \<open>simp add: threads_start_def\<close>)
  then have "ring_reach 0 3 (?s\<lparr>ring := ?full, pending := [4, 5], w_pc := W_idle, sent := [1, 2, 3]\<rparr>)"
    by (rule ring_reach.step)
      (use write_finish [of "?s\<lparr>ring := count_written 3 ?rb, pending := [4, 5], w_pc := W_counted 3, sent := [1, 2, 3]\<rparr>" 3] in \<open>simp add: threads_start_def\<close>)
  then have "ring_reach 0 3 (?r\<lparr>want := 1, to_skip := 1\<rparr>)"
    by (rule ring_reach.step) (use read_call [of ?r 1 1] in \<open>simp add: threads_start_def\<close>)
  then have "ring_reach 0 3 (?r\<lparr>want := 1, to_skip := 1, r_pc := R_saw 3\<rparr>)"
    by (rule ring_reach.step)
      (use read_look [of "?r\<lparr>want := 1, to_skip := 1\<rparr>"] in \<open>simp add: threads_start_def rb_init_def rb_steps getReadable_def\<close>)
  then have "ring_reach 0 3 (?r\<lparr>to_skip := 1, consumed := ?got, r_pc := R_copied 1\<rparr>)"
    by (rule ring_reach.step)
      (use read_copy [of "?r\<lparr>want := 1, to_skip := 1, r_pc := R_saw 3\<rparr>" 3]
       in \<open>simp add: threads_start_def reader_take_def read_amount_def\<close>)
  then have "ring_reach 0 3 (?r\<lparr>ring := count_read 1 ?full, to_skip := 1, consumed := ?got, r_pc := R_counted 1\<rparr>)"
    by (rule ring_reach.step)
      (use read_count [of "?r\<lparr>to_skip := 1, consumed := ?got, r_pc := R_copied 1\<rparr>" 1] in \<open>simp add: threads_start_def\<close>)
  then have "ring_reach 0 3 (?r\<lparr>ring := finish_read 1 (count_read 1 ?full), to_skip := 1, consumed := ?got, r_pc := R_idle\<rparr>)"
    by (rule ring_reach.step)
      (use read_finish [of "?r\<lparr>ring := count_read 1 ?full, to_skip := 1, consumed := ?got, r_pc := R_counted 1\<rparr>" 1] in \<open>simp add: threads_start_def\<close>)
  then show ?thesis by (simp add: sample_threads_def threads_start_def Let_def)
qed

section \<open>Properties\<close>

text \<open>
  C10. In every interleaving of the writer's and the reader's steps, with the stop flags changing at any
  moment, the reader takes exactly the stream the writer copied in, in order; what is not taken yet
  lies in the ring where the reader will look for it, at most the latency and the size of the buffer.
\<close>
theorem ring_buffer_fifo:
  assumes "ring_reach zero latency s" "0 \<le> latency"
  shows "map fst (consumed s) = take (length (consumed s)) (sent s) \<and> length (consumed s) \<le> length (sent s) \<and>
    int (length (sent s)) - int (length (consumed s)) \<le> min latency (int RING_BUF_SZ) \<and>
    map (\<lambda>i. rb_data (ring s) ! (i mod RING_BUF_SZ)) [length (consumed s)..<length (sent s)] = drop (length (consumed s)) (sent s)"
proof -
  have ok: "threads_ok latency s" by (rule ring_reach_ok [OF assms])
  have "rb_data (ring s) ! (i mod RING_BUF_SZ) = sent s ! i" if "length (consumed s) \<le> i" "i < length (sent s)" for i
  proof -
    have "i - length (consumed s) < length (sent s) - length (consumed s)" using that by simp
    then show ?thesis using ok that by (auto simp: threads_ok_def holds_def dest: spec [of _ "i - length (consumed s)"])
  qed
  then have "map (\<lambda>i. rb_data (ring s) ! (i mod RING_BUF_SZ)) [length (consumed s)..<length (sent s)] = drop (length (consumed s)) (sent s)"
    by (intro nth_equalityI) simp_all
  then show ?thesis using ok by (auto simp: threads_ok_def counts_ok_def)
qed

theorem ring_buffer_fifo_witness:
  "map fst (consumed sample_threads) = take (length (consumed sample_threads)) (sent sample_threads) \<and>
    length (consumed sample_threads) \<le> length (sent sample_threads) \<and>
    int (length (sent sample_threads)) - int (length (consumed sample_threads)) \<le> min 3 (int RING_BUF_SZ) \<and>
    map (\<lambda>i. rb_data (ring sample_threads) ! (i mod RING_BUF_SZ)) [length (consumed sample_threads)..<length (sent sample_threads)] =
      drop (length (consumed sample_threads)) (sent sample_threads)"
  by (rule ring_buffer_fifo [OF sample_threads_reach]) simp

text \<open>
  C20. The two threads never wait for each other: when both are between their steps and the latency is
  positive, there is something to read or room to write, and exactly as much as the streams say.
\<close>
theorem ring_buffer_no_deadlock:
  assumes "ring_reach zero latency s" "0 < latency" "w_pc s = W_idle" "r_pc s = R_idle"
  shows "(0 < getReadable (ring s) \<or> 0 < getWritable (ring s)) \<and>
    getReadable (ring s) = int (length (sent s)) - int (length (consumed s)) \<and>
    getWritable (ring s) = min latency (int RING_BUF_SZ) - getReadable (ring s)"
proof -
  have "threads_ok latency s" using assms(1,2) by (intro ring_reach_ok) simp_all
  then show ?thesis using assms(2-4) RING_BUF_SZ_pos
    by (auto simp: threads_ok_def counts_ok_def places_ok_def getReadable_def getWritable_def writable_from_def)
qed

theorem ring_buffer_no_deadlock_witness:
  "(0 < getReadable (ring sample_threads) \<or> 0 < getWritable (ring sample_threads)) \<and>
    getReadable (ring sample_threads) = int (length (sent sample_threads)) - int (length (consumed sample_threads)) \<and>
    getWritable (ring sample_threads) = min 3 (int RING_BUF_SZ) - getReadable (ring sample_threads)"
  by (rule ring_buffer_no_deadlock [OF sample_threads_reach]) (simp_all add: sample_threads_def threads_start_def Let_def)

end
