(* ===== verification/StreamLink.thy ===== *)
theory StreamLink
  imports Prelude
begin

text \<open>
  The link between two blocks of the signal path, \<open>core/src/dsp/stream.h\<close>: two buffers that a writer
  and a reader thread exchange under two mutexes. Each operation is split at its locked sections; a
  step of the two threads is one such section, in any interleaving, with the stop flags changing at any
  moment. The lemmas show that the handshake is a channel of one place: every block is delivered once,
  in order, is not touched while the reader holds it, and the two threads never wait for each other.
\<close>

section \<open>The stream\<close>

text \<open>The pointers \<open>writeBuf\<close> and \<open>readBuf\<close> are modelled by what they point to.\<close>

record 'a stream =
  writeBuf :: "'a list"
  readBuf :: "'a list"
  canSwap :: bool
  dataReady :: bool
  readerStop :: bool
  writerStop :: bool
  dataSize :: nat

definition stream_init :: "'a list \<Rightarrow> 'a list \<Rightarrow> 'a stream" where
  "stream_init b0 b1 =
    \<lparr>writeBuf = b0, readBuf = b1, canSwap = True, dataReady = False, readerStop = False, writerStop = False, dataSize = 0\<rparr>"

text \<open>
  \<open>swap\<close> waits, swaps and then, in a second section, announces the data; \<^theory_text>\<open>None\<close> waits.
\<close>

definition swap_enter :: "nat \<Rightarrow> 'a stream \<Rightarrow> (bool \<times> 'a stream) option" where
  "swap_enter n st =
    (if \<not> (canSwap st \<or> writerStop st) then None
     else if writerStop st then Some (False, st)
     else Some (True, st\<lparr>dataSize := n, writeBuf := readBuf st, readBuf := writeBuf st, canSwap := False\<rparr>))"

definition swap_announce :: "'a stream \<Rightarrow> 'a stream" where
  "swap_announce st = st\<lparr>dataReady := True\<rparr>"

definition stream_read :: "'a stream \<Rightarrow> int option" where
  "stream_read st =
    (if \<not> (dataReady st \<or> readerStop st) then None
     else Some (if readerStop st then - 1 else int (dataSize st)))"

definition isDataReady :: "'a stream \<Rightarrow> bool" where
  "isDataReady st = dataReady st"

text \<open>\<open>flush\<close> takes the data back and then lets the writer swap.\<close>

definition flush_data :: "'a stream \<Rightarrow> 'a stream" where
  "flush_data st = st\<lparr>dataReady := False\<rparr>"

definition flush_swap :: "'a stream \<Rightarrow> 'a stream" where
  "flush_swap st = st\<lparr>canSwap := True\<rparr>"

definition stop_stream_writer :: "bool \<Rightarrow> 'a stream \<Rightarrow> 'a stream" where
  "stop_stream_writer b st = st\<lparr>writerStop := b\<rparr>"

definition stop_stream_reader :: "bool \<Rightarrow> 'a stream \<Rightarrow> 'a stream" where
  "stop_stream_reader b st = st\<lparr>readerStop := b\<rparr>"

section \<open>Two threads\<close>

datatype link_writer = Filling | Swapped
datatype link_reader = Waiting | Holding | Flushing

text \<open>\<open>sent\<close> and \<open>got\<close> are the blocks swapped in and the blocks \<open>read\<close> returned.\<close>

record 'a link =
  strm :: "'a stream"
  writer :: link_writer
  reader :: link_reader
  blocks_sent :: "'a list list"
  blocks_got :: "'a list list"

definition link_start :: "'a list \<Rightarrow> 'a list \<Rightarrow> 'a link" where
  "link_start b0 b1 = \<lparr>strm = stream_init b0 b1, writer = Filling, reader = Waiting, blocks_sent = [], blocks_got = []\<rparr>"

inductive link_step :: "'a link \<Rightarrow> 'a link \<Rightarrow> bool" where
  fill: "writer s = Filling \<Longrightarrow> length xs = length (writeBuf (strm s)) \<Longrightarrow>
    link_step s (s\<lparr>strm := (strm s)\<lparr>writeBuf := xs\<rparr>\<rparr>)"
| swap: "writer s = Filling \<Longrightarrow> n \<le> length (writeBuf (strm s)) \<Longrightarrow> swap_enter n (strm s) = Some (True, st) \<Longrightarrow>
    link_step s (s\<lparr>strm := st, writer := Swapped, blocks_sent := blocks_sent s @ [take n (writeBuf (strm s))]\<rparr>)"
| swap_refused: "writer s = Filling \<Longrightarrow> swap_enter n (strm s) = Some (False, st) \<Longrightarrow> link_step s (s\<lparr>strm := st\<rparr>)"
| announce: "writer s = Swapped \<Longrightarrow> link_step s (s\<lparr>strm := swap_announce (strm s), writer := Filling\<rparr>)"
| read: "reader s = Waiting \<Longrightarrow> stream_read (strm s) = Some n \<Longrightarrow> 0 \<le> n \<Longrightarrow>
    link_step s (s\<lparr>reader := Holding, blocks_got := blocks_got s @ [take (nat n) (readBuf (strm s))]\<rparr>)"
| read_refused: "reader s = Waiting \<Longrightarrow> stream_read (strm s) = Some (- 1) \<Longrightarrow> link_step s s"
| flush: "reader s = Holding \<Longrightarrow> link_step s (s\<lparr>strm := flush_data (strm s), reader := Flushing\<rparr>)"
| flushed: "reader s = Flushing \<Longrightarrow> link_step s (s\<lparr>strm := flush_swap (strm s), reader := Waiting\<rparr>)"
| stop_writer: "link_step s (s\<lparr>strm := stop_stream_writer b (strm s)\<rparr>)"
| stop_reader: "link_step s (s\<lparr>strm := stop_stream_reader b (strm s)\<rparr>)"

inductive link_reach :: "'a list \<Rightarrow> 'a list \<Rightarrow> 'a link \<Rightarrow> bool" for b0 b1 where
  start: "link_reach b0 b1 (link_start b0 b1)"
| step: "link_reach b0 b1 s \<Longrightarrow> link_step s s' \<Longrightarrow> link_reach b0 b1 s'"

inductive_cases link_stepE: "link_step s s'"

section \<open>The invariant\<close>

text \<open>The block in the read buffer.\<close>

definition front :: "'a link \<Rightarrow> 'a list" where
  "front s = take (dataSize (strm s)) (readBuf (strm s))"

text \<open>
  The phases of the handshake: nothing in flight; swapped; announced; held by the reader; given back.
\<close>

definition link_ok :: "'a link \<Rightarrow> bool" where
  "link_ok s \<longleftrightarrow>
    (case (canSwap (strm s), dataReady (strm s), writer s, reader s) of
       (True, False, Filling, Waiting) \<Rightarrow> blocks_sent s = blocks_got s
     | (False, False, Swapped, Waiting) \<Rightarrow> blocks_sent s = blocks_got s @ [front s]
     | (False, True, Filling, Waiting) \<Rightarrow> blocks_sent s = blocks_got s @ [front s]
     | (False, True, Filling, Holding) \<Rightarrow> blocks_sent s = blocks_got s \<and> blocks_got s \<noteq> [] \<and> last (blocks_got s) = front s
     | (False, False, Filling, Flushing) \<Rightarrow> blocks_sent s = blocks_got s
     | _ \<Rightarrow> False)"

lemma link_start_ok: "link_ok (link_start b0 b1)"
  by (simp add: link_ok_def link_start_def stream_init_def)

lemmas stream_ops = swap_enter_def swap_announce_def stream_read_def flush_data_def flush_swap_def
  stop_stream_writer_def stop_stream_reader_def

lemma link_step_ok: "link_step s s' \<Longrightarrow> link_ok s \<Longrightarrow> link_ok s'"
  by (erule link_stepE)
    (auto simp: link_ok_def front_def stream_ops split: bool.splits link_writer.splits link_reader.splits if_split_asm)

lemma link_reach_ok: "link_reach b0 b1 s \<Longrightarrow> link_ok s"
  by (induction rule: link_reach.induct) (blast intro: link_start_ok link_step_ok)+

section \<open>A channel of one place\<close>

text \<open>The abstract channel: empty, or with a block that was sent and not yet received.\<close>

datatype 'a chan_event = Send "'a list" | Receive "'a list"

fun chan_step :: "'a chan_event \<Rightarrow> 'a list option \<Rightarrow> 'a list option \<Rightarrow> bool" where
  "chan_step (Send b) c c' \<longleftrightarrow> c = None \<and> c' = Some b"
| "chan_step (Receive b) c c' \<longleftrightarrow> c = Some b \<and> c' = None"

text \<open>What a state of the link stands for, and what a step does.\<close>

definition in_flight :: "'a link \<Rightarrow> 'a list option" where
  "in_flight s = (if length (blocks_got s) < length (blocks_sent s) then Some (blocks_sent s ! length (blocks_got s)) else None)"

lemma in_flight_simps [simp]:
  "blocks_sent s = blocks_got s \<Longrightarrow> in_flight s = None"
  "blocks_sent s = blocks_got s @ [b] \<Longrightarrow> in_flight s = Some b"
  by (simp_all add: in_flight_def)

definition event_of :: "'a link \<Rightarrow> 'a link \<Rightarrow> 'a chan_event option" where
  "event_of s s' =
    (if length (blocks_sent s) < length (blocks_sent s') then Some (Send (last (blocks_sent s')))
     else if length (blocks_got s) < length (blocks_got s') then Some (Receive (last (blocks_got s'))) else None)"

lemma link_step_chan:
  assumes "link_step s s'" "link_ok s"
  shows "case event_of s s' of None \<Rightarrow> in_flight s' = in_flight s | Some e \<Rightarrow> chan_step e (in_flight s) (in_flight s')"
  using assms
  by (elim link_stepE)
    (auto simp: link_ok_def front_def event_of_def in_flight_def stream_ops
      split: bool.splits link_writer.splits link_reader.splits if_split_asm)

section \<open>A sample\<close>

text \<open>One block sent and announced; then held by the reader, the other buffer filled again.\<close>

definition sample_announced :: "nat link" where
  "sample_announced =
    \<lparr>strm = \<lparr>writeBuf = [0, 0], readBuf = [1, 2], canSwap = False, dataReady = True, readerStop = False,
       writerStop = False, dataSize = 2\<rparr>,
     writer = Filling, reader = Waiting, blocks_sent = [[1, 2]], blocks_got = []\<rparr>"

definition sample_link :: "nat link" where
  "sample_link =
    sample_announced\<lparr>strm := (strm sample_announced)\<lparr>writeBuf := [3, 4]\<rparr>, reader := Holding, blocks_got := [[1, 2]]\<rparr>"

lemma sample_announced_reach: "link_reach [0, 0] [0, 0] sample_announced"
proof -
  let ?s = "\<lambda>wb rb c w sn n. \<lparr>strm = \<lparr>writeBuf = wb, readBuf = rb, canSwap = c, dataReady = False, readerStop = False,
    writerStop = False, dataSize = n\<rparr>, writer = w, reader = Waiting, blocks_sent = sn, blocks_got = []\<rparr> :: nat link"
  have "link_reach [0, 0] [0, 0] (?s [0, 0] [0, 0] True Filling [] 0)"
    using link_reach.start [of "[0, 0 :: nat]" "[0, 0]"] by (simp add: link_start_def stream_init_def)
  then have "link_reach [0, 0] [0, 0] (?s [1, 2] [0, 0] True Filling [] 0)"
    by (rule link_reach.step) (use fill [of "?s [0, 0] [0, 0] True Filling [] 0" "[1, 2]"] in simp)
  then have "link_reach [0, 0] [0, 0] (?s [0, 0] [1, 2] False Swapped [[1, 2]] 2)"
    by (rule link_reach.step) (use swap [of "?s [1, 2] [0, 0] True Filling [] 0" 2] in \<open>simp add: stream_ops\<close>)
  then show ?thesis unfolding sample_announced_def
    by (rule link_reach.step) (use announce [of "?s [0, 0] [1, 2] False Swapped [[1, 2]] 2"] in \<open>simp add: stream_ops\<close>)
qed

lemma sample_read_step: "link_step sample_announced (sample_announced\<lparr>reader := Holding, blocks_got := [[1, 2]]\<rparr>)"
  using read [of sample_announced 2] by (simp add: sample_announced_def stream_ops)

lemma sample_link_reach: "link_reach [0, 0] [0, 0] sample_link"
  using fill [of "sample_announced\<lparr>reader := Holding, blocks_got := [[1, 2]]\<rparr>" "[3, 4]"]
  by (intro link_reach.step [OF link_reach.step [OF sample_announced_reach sample_read_step]])
    (simp add: sample_link_def sample_announced_def)

section \<open>Properties\<close>

text \<open>
  C11. The double buffer of a stream refines a channel of one place: every step of the two threads either
  sends a block into the empty channel, or receives the block that was sent, or leaves the channel.
\<close>
theorem stream_refines_channel:
  assumes "link_reach b0 b1 s" "link_step s s'"
  shows "case event_of s s' of None \<Rightarrow> in_flight s' = in_flight s | Some e \<Rightarrow> chan_step e (in_flight s) (in_flight s')"
  by (rule link_step_chan [OF assms(2) link_reach_ok [OF assms(1)]])

theorem stream_refines_channel_witness:
  "case event_of sample_announced (sample_announced\<lparr>reader := Holding, blocks_got := [[1, 2]]\<rparr>) of
     None \<Rightarrow> in_flight (sample_announced\<lparr>reader := Holding, blocks_got := [[1, 2]]\<rparr>) = in_flight sample_announced
   | Some e \<Rightarrow> chan_step e (in_flight sample_announced) (in_flight (sample_announced\<lparr>reader := Holding, blocks_got := [[1, 2]]\<rparr>))"
  by (rule stream_refines_channel [OF sample_announced_reach sample_read_step])

text \<open>
  C21. In every interleaving the reader gets the blocks that were swapped in, each once and in order,
  all but at most one in flight; a block stays as it was sent for as long as the reader holds it; and
  when both threads are between their operations, one of them can go on.
\<close>
theorem stream_delivers_blocks:
  assumes "link_reach b0 b1 s"
  shows "blocks_got s = take (length (blocks_got s)) (blocks_sent s) \<and>
    length (blocks_sent s) \<le> length (blocks_got s) + 1 \<and>
    (if reader s = Holding then blocks_sent s = blocks_got s \<and> last (blocks_got s) = front s else True) \<and>
    (if writer s = Filling \<and> reader s = Waiting then swap_enter n (strm s) \<noteq> None \<or> stream_read (strm s) \<noteq> None else True)"
  using link_reach_ok [OF assms]
  by (auto simp: link_ok_def stream_ops split: bool.splits link_writer.splits link_reader.splits)

theorem stream_delivers_blocks_witness:
  "blocks_got sample_link = take (length (blocks_got sample_link)) (blocks_sent sample_link) \<and>
    length (blocks_sent sample_link) \<le> length (blocks_got sample_link) + 1 \<and>
    (if reader sample_link = Holding
     then blocks_sent sample_link = blocks_got sample_link \<and> last (blocks_got sample_link) = front sample_link else True) \<and>
    (if writer sample_link = Filling \<and> reader sample_link = Waiting
     then swap_enter 2 (strm sample_link) \<noteq> None \<or> stream_read (strm sample_link) \<noteq> None else True)"
  by (rule stream_delivers_blocks [OF sample_link_reach])

end
