(* ===== verification/Decoder.thy ===== *)
theory Decoder
  imports Receiver RingBuffer
begin

text \<open>
  The decoder block of the TETRA module, \<open>ch_tetra_demodulator/src/dsp\<close>: the symbol extractor
  (\<open>dqpsk_sym_extr.cpp\<close>, its decisions and the differential decoding; the error measure is floating
  point and only drawn), the bit unpacker (\<open>bit_unpacker.cpp\<close>), and \<open>osmotetra_dec.h\<close>, which feeds the
  bits to the synchroniser in pieces of 510, collects the speech that the lower MAC hands to its callback
  and paces its output. A sample of the output is of any type \<open>'f\<close>: the conversion of the VOLK library is
  a parameter. The lemmas show that bits survive the differential code whatever the phase of the carrier,
  that no speech is lost on the way out, and how exact the pacing of the output is.
\<close>

section \<open>Symbols and bits\<close>

text \<open>
  A sample of the constellation is the pair of its signs: \<open>a\<close> for a negative imaginary part, \<open>b\<close> for a
  negative real part.
\<close>

definition decide_symbol :: "bool \<Rightarrow> bool \<Rightarrow> u8" where
  "decide_symbol a b = push_bit 1 (of_bool a) OR of_bool (a \<noteq> b)"

definition remap_phase :: "u8 \<Rightarrow> u8" where
  "remap_phase d = (if d = 0 then 0 else if d = 1 then 1 else if d = 2 then 3 else 2)"

text \<open>The arithmetic is that of \<open>int\<close>; the result is the symbols with the new \<open>prev\<close>.\<close>

fun extract_symbols :: "(bool \<times> bool) list \<Rightarrow> u8 \<Rightarrow> u8 list \<times> u8" where
  "extract_symbols [] prev = ([], prev)"
| "extract_symbols ((a, b) # samples) prev =
    (let sym = decide_symbol a b;
         phaseDiff = of_int ((uint sym - uint prev + 4) mod 4);
         (out, last) = extract_symbols samples sym
     in (remap_phase phaseDiff # out, last))"

definition unpack_symbol :: "u8 \<Rightarrow> u8 list" where
  "unpack_symbol s = [drop_bit 1 (s AND 2), s AND 1]"

definition unpack_bits :: "u8 list \<Rightarrow> u8 list" where
  "unpack_bits symbols = concat (map unpack_symbol symbols)"

section \<open>The decoder\<close>

text \<open>The receiver behind its synchroniser, the ring of output samples, and the two counters.\<close>

record ('c, 'f) osmotetradec =
  dec_trs :: tetra_rx_state
  dec_pw :: "tetra_tdma_time \<times> 'c receiver"
  out_tmp_buff :: "'f ring_buffer"
  inSymsCtr :: int
  outSymsCtr :: int

definition SAFE_SLOT_BURST_SIZE :: nat where "SAFE_SLOT_BURST_SIZE = 510"
definition UNPACKED_BITS_SIZE :: nat where "UNPACKED_BITS_SIZE = 8192"

text \<open>
  The state is cleared and its parts initialised, the codec by its \<open>Init_Decod_Tetra\<close>; the clock and
  the cell are static variables of other files and stay.
\<close>

definition decoder_init :: "'c \<Rightarrow> 'f \<Rightarrow> tetra_tdma_time \<times> 'c receiver \<Rightarrow> ('c, 'f) osmotetradec" where
  "decoder_init fresh_codec zero pw =
    \<lparr>dec_trs = initial_rx_state,
     dec_pw = (fst pw, (snd pw)\<lparr>rx_tms := initial_mac_state, rx_codec := fresh_codec, rx_voice := []\<rparr>),
     out_tmp_buff = rb_init zero 32768, inSymsCtr = 0, outSymsCtr = 0\<rparr>"

text \<open>The loop over the symbols with the bits so far; it stops when the buffer is nearly full.\<close>

fun unpack_loop :: "u8 list \<Rightarrow> u8 list \<Rightarrow> u8 list" where
  "unpack_loop [] buf = buf"
| "unpack_loop (s # symbols) buf =
    (if UNPACKED_BITS_SIZE \<le> length buf + 2 then buf else unpack_loop symbols (buf @ unpack_symbol s))"

text \<open>The pieces of 510 bits, the last one shorter.\<close>

function pieces :: "u8 list \<Rightarrow> u8 list list" where
  "pieces bits =
    (if bits = [] then [] else take SAFE_SLOT_BURST_SIZE bits # pieces (drop SAFE_SLOT_BURST_SIZE bits))"
  by pat_completeness auto
termination by (relation "measure length") (auto simp: SAFE_SLOT_BURST_SIZE_def)

text \<open>The callback of the lower MAC: the frame is dropped when the ring has no room for all of it.\<close>

definition put_voice_data :: "(u16 \<Rightarrow> 'f) \<Rightarrow> nat \<Rightarrow> u16 list \<Rightarrow> 'f ring_buffer \<Rightarrow> 'f ring_buffer option" where
  "put_voice_data conv count data rb =
    (let conv_data = map conv (take count data)
     in if int count \<le> getWritable rb then map_option snd (rb_write conv_data rb) else Some rb)"

fun put_frames :: "(u16 \<Rightarrow> 'f) \<Rightarrow> u16 list list \<Rightarrow> 'f ring_buffer \<Rightarrow> 'f ring_buffer option" where
  "put_frames conv [] rb = Some rb"
| "put_frames conv (frame # frames) rb = Option.bind (put_voice_data conv 480 frame rb) (put_frames conv frames)"

text \<open>
  The memory that a call of the synchroniser and the bursts below it find uninitialised: what lies
  behind the buffer, on the stack, behind a new block, on the heap.
\<close>

type_synonym memory = "(nat \<Rightarrow> u8) \<times> (nat \<Rightarrow> u8) \<times> (nat \<Rightarrow> u8) \<times> (int \<Rightarrow> u8)"

text \<open>
  One piece: the synchroniser, and the frames of speech that the burst in it produced. Outer
  \<^theory_text>\<open>None\<close>: a write to the ring that waits for ever.
\<close>

definition feed_piece ::
  "bool \<Rightarrow> tetra_crypto_database \<Rightarrow> 'c etsi_codec \<Rightarrow> (u16 \<Rightarrow> 'f) \<Rightarrow> memory \<Rightarrow> u8 list \<Rightarrow>
    ('c, 'f) osmotetradec \<Rightarrow> (sync_error + ('c, 'f) osmotetradec) option" where
  "feed_piece ndebug tcdb codec conv m piece d =
    (let (behind, stack, junk, heap) = m
     in case tetra_burst_sync_in (burst_handler ndebug tcdb codec stack junk heap) behind (dec_trs d) piece (dec_pw d) of
          Inl e \<Rightarrow> Some (Inl e)
        | Inr (rc, trs, pw) \<Rightarrow>
            map_option (\<lambda>rb. Inr (d\<lparr>dec_trs := trs, dec_pw := pw, out_tmp_buff := rb\<rparr>))
              (put_frames conv (drop (length (rx_voice (snd (dec_pw d)))) (rx_voice (snd pw))) (out_tmp_buff d)))"

fun feed_pieces ::
  "bool \<Rightarrow> tetra_crypto_database \<Rightarrow> 'c etsi_codec \<Rightarrow> (u16 \<Rightarrow> 'f) \<Rightarrow> (nat \<Rightarrow> memory) \<Rightarrow> u8 list list \<Rightarrow>
    ('c, 'f) osmotetradec \<Rightarrow> (sync_error + ('c, 'f) osmotetradec) option" where
  "feed_pieces ndebug tcdb codec conv m [] d = Some (Inr d)"
| "feed_pieces ndebug tcdb codec conv m (piece # ps) d =
    Option.bind (feed_piece ndebug tcdb codec conv (m 0) piece d) (\<lambda>r.
      case r of Inl e \<Rightarrow> Some (Inl e) | Inr d \<Rightarrow> feed_pieces ndebug tcdb codec conv (\<lambda>k. m (Suc k)) ps d)"

definition decoding :: "('c, 'f) osmotetradec \<Rightarrow> bool" where
  "decoding d \<longleftrightarrow> (\<exists>i \<in> {0, 1, 2, 3}. timeslot_content (t_display_st (rx_tms (snd (dec_pw d)))) ! i = 4)"

text \<open>What the ring holds goes out.\<close>

definition drain :: "'f ring_buffer \<Rightarrow> ('f list \<times> 'f ring_buffer) option" where
  "drain rb = (if 0 < getReadable rb then map_option snd (rb_read (nat (getReadable rb)) rb) else Some ([], rb))"

text \<open>
  The end of \<open>process\<close>: eight samples for 36 bits, silence where no speech filled them. Both counters
  are never negative, so that the divisions are those of C.
\<close>

definition pace_output :: "'f \<Rightarrow> nat \<Rightarrow> 'f list \<Rightarrow> ('c, 'f) osmotetradec \<Rightarrow> 'f list \<times> ('c, 'f) osmotetradec" where
  "pace_output zero count out d =
    (let outSyms = outSymsCtr d + int (length out);
         inSyms = inSymsCtr d + int count * 2;
         requiredOut = inSyms * 8 div 36;
         remainingOut = requiredOut - outSyms;
         out = (if 0 < remainingOut \<and> \<not> decoding d then out @ replicate (nat remainingOut) zero else out)
     in (out, d\<lparr>outSymsCtr := outSyms - min outSyms requiredOut, inSymsCtr := inSyms - requiredOut * 36 div 8\<rparr>))"

definition decoder_process ::
  "bool \<Rightarrow> tetra_crypto_database \<Rightarrow> 'c etsi_codec \<Rightarrow> (u16 \<Rightarrow> 'f) \<Rightarrow> 'f \<Rightarrow> (nat \<Rightarrow> memory) \<Rightarrow> u8 list \<Rightarrow>
    ('c, 'f) osmotetradec \<Rightarrow> (sync_error + 'f list \<times> ('c, 'f) osmotetradec) option" where
  "decoder_process ndebug tcdb codec conv zero m inp d =
    (if inp = [] then Some (Inr ([], d))
     else
       Option.bind (feed_pieces ndebug tcdb codec conv m (pieces (unpack_loop inp [])) d) (\<lambda>r.
         case r of
           Inl e \<Rightarrow> Some (Inl e)
         | Inr d \<Rightarrow> map_option (\<lambda>(out, rb). Inr (pace_output zero (length inp) out (d\<lparr>out_tmp_buff := rb\<rparr>))) (drain (out_tmp_buff d))))"

declare pieces.simps [simp del]

section \<open>The differential code\<close>

text \<open>The quadrants of the constellation, counted from the first.\<close>

definition quadrant :: "nat \<Rightarrow> bool \<times> bool" where
  "quadrant q = (2 \<le> q mod 4, q mod 4 = 1 \<or> q mod 4 = 2)"

definition phase_steps :: "u8 \<Rightarrow> nat" where
  "phase_steps s = (if s = 0 then 0 else if s = 1 then 1 else if s = 3 then 2 else 3)"

text \<open>A transmitter: each symbol turns the carrier by its number of quadrants.\<close>

fun modulate :: "u8 list \<Rightarrow> nat \<Rightarrow> (bool \<times> bool) list" where
  "modulate [] q = []"
| "modulate (s # symbols) q = quadrant (q + phase_steps s) # modulate symbols (q + phase_steps s)"

fun pack_bits :: "u8 list \<Rightarrow> u8 list" where
  "pack_bits (x # y # bits) = (push_bit 1 x OR y) # pack_bits bits"
| "pack_bits _ = []"

lemma decide_quadrant: "decide_symbol (fst (quadrant q)) (snd (quadrant q)) = of_nat (q mod 4)"
proof -
  have "q mod 4 < 4" by simp
  then consider "q mod 4 = 0" | "q mod 4 = 1" | "q mod 4 = 2" | "q mod 4 = 3" by linarith
  then show ?thesis by cases (simp_all add: decide_symbol_def quadrant_def push_bit_of_1)
qed

lemma remap_steps:
  assumes "s < 4"
  shows "remap_phase (of_int ((uint (of_nat ((q + phase_steps s) mod 4) :: u8) - uint (of_nat (q mod 4) :: u8) + 4) mod 4)) = s"
proof -
  have u: "uint (of_nat (k mod 4) :: u8) = int (k mod 4)" for k
    using unat_of_nat_lt [of "k mod 4", where 'a = 8] by (simp add: uint_nat)
  have m: "(int ((q + k) mod 4) - int (q mod 4) + 4) mod 4 = int (k mod 4)" for k
    by (simp add: zmod_int mod_simps)
  have "unat s < 4" using assms by (simp add: word_less_nat_alt)
  then consider "unat s = 0" | "unat s = 1" | "unat s = 2" | "unat s = 3" by linarith
  then have "s = 0 \<or> s = 1 \<or> s = 2 \<or> s = 3" by cases (simp_all add: word_unat_eq_iff)
  then show ?thesis unfolding u m by (auto simp: remap_phase_def phase_steps_def)
qed

lemma extract_modulate:
  "\<forall>s \<in> set symbols. s < 4 \<Longrightarrow> fst (extract_symbols (modulate symbols q) (of_nat (q mod 4))) = symbols"
proof (induction symbols arbitrary: q)
  case (Cons s symbols)
  obtain a b where ab: "quadrant (q + phase_steps s) = (a, b)" by (cases "quadrant (q + phase_steps s)")
  have d: "decide_symbol a b = of_nat ((q + phase_steps s) mod 4)"
    using decide_quadrant [of "q + phase_steps s"] by (simp add: ab)
  show ?case using remap_steps [of s q] Cons by (simp add: ab d Let_def split: prod.split) (metis fst_conv)
qed simp

lemma packed_symbols: "is_bits bits \<Longrightarrow> \<forall>s \<in> set (pack_bits bits). s < 4"
  by (induction bits rule: pack_bits.induct) (auto simp: word_less_nat_alt push_bit_of_1)

lemma bit_pair: "drop_bit (Suc 0) (push_bit (Suc 0) 1) AND 1 = (1 :: u8)" "push_bit (Suc 0) 1 AND 1 = (0 :: u8)"
  by code_simp+

lemma unpack_pack: "is_bits bits \<Longrightarrow> even (length bits) \<Longrightarrow> unpack_bits (pack_bits bits) = bits"
  by (induction bits rule: pack_bits.induct) (auto simp: unpack_bits_def unpack_symbol_def bit_pair)

text \<open>The loop of the decoder unpacks the same bits, as long as they fit.\<close>

lemma unpack_loop_fits:
  "length buf + 2 * length symbols < UNPACKED_BITS_SIZE \<Longrightarrow> unpack_loop symbols buf = buf @ unpack_bits symbols"
  by (induction symbols arbitrary: buf) (auto simp: unpack_bits_def unpack_symbol_def)

lemma unpack_loop_stops:
  "even (length buf) \<Longrightarrow> length buf \<le> 8190 \<Longrightarrow>
    unpack_loop symbols buf = buf @ unpack_bits (take ((8190 - length buf) div 2) symbols)"
proof (induction symbols arbitrary: buf)
  case (Cons s symbols)
  show ?case
  proof (cases "length buf = 8190")
    case False
    then have "length buf + 2 \<le> 8190" using Cons.prems by presburger
    moreover have "(8190 - length buf) div 2 = Suc ((8190 - (length buf + 2)) div 2)"
      using calculation by presburger
    ultimately show ?thesis
      using Cons.prems Cons.IH [of "buf @ unpack_symbol s"]
      by (simp add: UNPACKED_BITS_SIZE_def unpack_bits_def unpack_symbol_def)
  qed (simp add: UNPACKED_BITS_SIZE_def unpack_bits_def)
qed (simp add: unpack_bits_def)

lemma concat_pieces: "concat (pieces bits) = bits"
  by (induction bits rule: pieces.induct) (subst pieces.simps, simp)

lemma pieces_le: "p \<in> set (pieces bits) \<Longrightarrow> length p \<le> 510"
proof (induction bits rule: pieces.induct)
  case (1 bits)
  have "bits \<noteq> []"
  proof
    assume "bits = []"
    then show False using 1(2) pieces.simps [of "[]"] by simp
  qed
  then have "p = take SAFE_SLOT_BURST_SIZE bits \<or> p \<in> set (pieces (drop SAFE_SLOT_BURST_SIZE bits))"
    using 1(2) by (subst (asm) pieces.simps) simp
  then show ?case using 1(1) \<open>bits \<noteq> []\<close> by (auto simp: SAFE_SLOT_BURST_SIZE_def)
qed

lemma length_pieces: "length bits \<le> 510 * k \<Longrightarrow> length (pieces bits) \<le> k"
proof (induction k arbitrary: bits)
  case 0
  then show ?case by (subst pieces.simps) simp
next
  case (Suc k)
  show ?case
  proof (cases "bits = []")
    case False
    moreover have "length (pieces (drop 510 bits)) \<le> k" using Suc.prems by (intro Suc.IH) simp
    ultimately show ?thesis by (subst pieces.simps) (simp add: SAFE_SLOT_BURST_SIZE_def)
  qed (subst pieces.simps, simp)
qed

section \<open>Speech\<close>

text \<open>The codec synthesises half a frame of 240 samples at a time.\<close>

definition codec_frames :: "'c etsi_codec \<Rightarrow> bool" where
  "codec_frames codec \<longleftrightarrow>
    (\<forall>p c. length (fst (Decod_Tetra codec p c)) = 240) \<and>
    (\<forall>xs c. length xs = 240 \<longrightarrow> length (fst (Post_Process codec xs c)) = 240)"

lemma synthesise_length:
  assumes "codec_frames codec" "synthesise codec serial c = (xs, c')"
  shows "length xs = 240"
proof -
  obtain synth c1 where d: "Decod_Tetra codec (Bits2prm_Tetra codec serial) c = (synth, c1)" by fastforce
  have "length (fst (Decod_Tetra codec (Bits2prm_Tetra codec serial) c)) = 240" using assms(1) by (simp add: codec_frames_def)
  then have "length (fst (Post_Process codec synth c1)) = 240" using assms(1) by (simp add: d codec_frames_def)
  then show ?thesis using assms(2) by (simp add: synthesise_def d)
qed

lemma speech_length:
  assumes "codec_frames codec" "decode_speech codec fp type4 c = (xs, c')"
  shows "length xs = 480"
  using assms(2) by (auto simp: decode_speech_def Let_def dest!: synthesise_length [OF assms(1)] split: prod.split_asm)

text \<open>At most \<open>k\<close> new frames of speech.\<close>

definition speaks :: "nat \<Rightarrow> 'c receiver \<Rightarrow> 'c receiver \<Rightarrow> bool" where
  "speaks k w w' \<longleftrightarrow> (\<exists>vs. rx_voice w' = rx_voice w @ vs \<and> length vs \<le> k \<and> (\<forall>v \<in> set vs. length v = 480))"

lemma speaks_refl [simp]: "speaks k w w"
  by (simp add: speaks_def)

lemma speaks_voice: "rx_voice w1 = rx_voice w1' \<Longrightarrow> rx_voice w2 = rx_voice w2' \<Longrightarrow> speaks k w1 w2 = speaks k w1' w2'"
  by (simp add: speaks_def)

lemma speaks_trans: "speaks j w w1 \<Longrightarrow> speaks k w1 w2 \<Longrightarrow> speaks (j + k) w w2"
  unfolding speaks_def by (elim exE conjE) (rule exI, rule conjI, simp, auto)

lemma speaks_rx_speech: "codec_frames codec \<Longrightarrow> rx_voice w1 = rx_voice w \<Longrightarrow> speaks 1 w (rx_speech codec type4 phy w1)"
  by (auto simp: speaks_def rx_speech_def Let_def split: prod.split dest: speech_length)

definition speech_blocks :: "(tp_sap_data_type \<times> int \<times> u8 list) list \<Rightarrow> nat" where
  "speech_blocks bs = length (filter (\<lambda>(type, _). type = TPSAP_T_SCH_F) bs)"

lemma speaks_block:
  assumes "codec_frames codec" "tp_sap_udata_ind ndebug tcdb codec stack junk heap type blk bits (phy, w) = Some (Inr (phy', w'))"
  shows "speaks (if type = TPSAP_T_SCH_F then 1 else 0) w w'"
proof -
  have inr: "map_sum id f z = Inr y \<longleftrightarrow> (\<exists>x. z = Inr x \<and> f x = y)" for f :: "tetra_mac_state \<Rightarrow> tetra_tdma_time \<times> 'a receiver" and y
      and z :: "lower_error + tetra_mac_state"
    by (cases z) auto
  have sp: "speaks (Suc 0) w (rx_speech codec type4 p w1\<lparr>rx_tms := tms\<rparr>)" if "rx_voice w1 = rx_voice w" for type4 p w1 tms
    using speaks_rx_speech [OF assms(1) that, of type4 p] by (simp add: speaks_def)
  have quiet: "speaks k w (w\<lparr>rx_tcd := x, rx_tms := y\<rparr>)" for k x y by (simp add: speaks_def)
  show ?thesis
    using assms(2) unfolding tp_sap_udata_ind_def Let_def prod.case
    by (auto simp: inr quiet intro!: sp split: option.split_asm prod.split_asm if_split_asm)
qed

lemma speaks_blocks:
  assumes "codec_frames codec"
  shows "rx_blocks ndebug tcdb codec stack junk heap bs (phy, w) = Some (Inr (phy', w')) \<Longrightarrow> speaks (speech_blocks bs) w w'"
proof (induction bs arbitrary: phy w)
  case (Cons b bs)
  obtain type blk bits where b: "b = (type, blk, bits)" by (cases b) auto
  from Cons.prems obtain r1 where r1: "tp_sap_udata_ind ndebug tcdb codec stack junk heap type blk bits (phy, w) = Some r1"
      "(case r1 of Inl e \<Rightarrow> Some (Inl e) | Inr pw \<Rightarrow> rx_blocks ndebug tcdb codec stack junk heap bs pw) = Some (Inr (phy', w'))"
    by (auto simp: b bind_eq_Some_conv)
  then obtain pw1 where pw1: "r1 = Inr pw1" by (cases r1) auto
  obtain phy1 w1 where "pw1 = (phy1, w1)" by (cases pw1)
  with r1 pw1 have 1: "tp_sap_udata_ind ndebug tcdb codec stack junk heap type blk bits (phy, w) = Some (Inr (phy1, w1))"
    and 2: "rx_blocks ndebug tcdb codec stack junk heap bs (phy1, w1) = Some (Inr (phy', w'))" by simp_all
  from speaks_trans [OF speaks_block [OF assms 1] Cons.IH [OF 2]] show ?case by (simp add: b speech_blocks_def split: if_split_asm)
qed simp

lemma speaks_burst:
  assumes "codec_frames codec" "tetra_burst_rx_cb ndebug tcdb codec stack junk heap burst type (phy, w) = Some (Inr (phy', w'))"
  shows "speaks 1 w w'"
proof -
  let ?w = "w\<lparr>rx_tms := (rx_tms w)\<lparr>t_display_st := (t_display_st (rx_tms w))
    \<lparr>curr_multiframe := sint (mn phy), curr_frame := sint (fn phy)\<rparr>\<rparr>\<rparr>"
  obtain r1 where r1: "rx_blocks ndebug tcdb codec stack junk heap (burst_blocks burst type) (phy, ?w) = Some r1"
    using assms(2) by (auto simp: tetra_burst_rx_cb_def Let_def bind_eq_Some_conv)
  then obtain pw2 where pw2: "r1 = Inr pw2" using assms(2) by (cases r1) (simp_all add: tetra_burst_rx_cb_def Let_def)
  obtain phy2 w2 where p2: "pw2 = (phy2, w2)" by (cases pw2)
  have 1: "rx_blocks ndebug tcdb codec stack junk heap (burst_blocks burst type) (phy, ?w) = Some (Inr (phy2, w2))"
    by (simp add: r1 pw2 p2)
  have v: "rx_voice w' = rx_voice w2" using assms(2) by (auto simp: tetra_burst_rx_cb_def Let_def 1 split: if_split_asm)
  have "speech_blocks (burst_blocks burst type) \<le> 1" by (simp add: speech_blocks_def burst_blocks_def Let_def split: tetra_train_seq.split)
  then have "speaks 1 ?w w2" using speaks_blocks [OF assms(1) 1] by (fastforce simp: speaks_def)
  then show ?thesis using v by (simp add: speaks_def)
qed

lemma speaks_locked:
  assumes "codec_frames codec"
    and "rx_locked (burst_handler ndebug tcdb codec stack junk heap) behind len trs (tm, w) = Inr (rc, trs', (tm', w'))"
  shows "speaks 1 w w'"
proof -
  have cb: "speaks 1 w v" if "burst_handler ndebug tcdb codec stack junk heap burst type (t, w) = Some (t', v)" for burst type t t' v
    using speaks_burst [OF assms(1)] that by (auto simp: burst_handler_def split: option.splits sum.splits)
  show ?thesis
    using assms(2) by (auto simp: rx_locked_def handle_burst_def Let_def intro: cb [unfolded One_nat_def]
        split: if_split_asm sum.split_asm prod.split_asm option.split_asm tetra_train_seq.split_asm)
qed

lemma speaks_sync:
  assumes "codec_frames codec"
    and "tetra_burst_sync_in (burst_handler ndebug tcdb codec stack junk heap) behind trs bits (tm, w) = Inr (rc, trs', (tm', w'))"
  shows "speaks 1 w w'"
  using assms(2) speaks_locked [OF assms(1), of ndebug tcdb stack junk heap behind "length bits" _ tm w]
  by (auto simp: tetra_burst_sync_in_def rx_know_fstart_def Let_def
      split: sum.split_asm if_split_asm rx_state.split_asm prod.split_asm)

section \<open>The ring of output samples\<close>

text \<open>Between two calls the ring is empty, with room for its whole latency.\<close>

definition ring_idle :: "'f ring_buffer \<Rightarrow> bool" where
  "ring_idle rb \<longleftrightarrow> rb_ok rb \<and> rb_contents rb = [] \<and> getWritable rb = 32768"

lemma put_frames_all:
  "rb_ok rb \<Longrightarrow> \<forall>v \<in> set vs. length v = 480 \<Longrightarrow> 480 * length vs \<le> nat (getWritable rb) \<Longrightarrow>
    put_frames conv vs rb = ring.put_all (map (map conv) vs) rb"
proof (induction vs arbitrary: rb)
  case (Cons v vs)
  let ?xs = "map conv v"
  have n: "length ?xs \<le> nat (getWritable rb)" "length v = 480" using Cons.prems by simp_all
  obtain rb' where rb': "map_option snd (rb_write ?xs rb) = Some rb'" "rb_ok rb'"
      "nat (getWritable rb') = nat (getWritable rb) - length ?xs"
    using ring.put_law [OF Cons.prems(1) n(1)] by blast
  have "int 480 \<le> getWritable rb" using n by simp
  then have "put_voice_data conv 480 v rb = Some rb'" using rb'(1) n(2) by (simp add: put_voice_data_def)
  moreover have "put_frames conv vs rb' = ring.put_all (map (map conv) vs) rb'"
    using Cons.prems rb'(2,3) n(2) by (intro Cons.IH) simp_all
  ultimately show ?case by (simp add: rb'(1))
qed simp

lemma concat_frames: "\<forall>v \<in> set vs. length v = 480 \<Longrightarrow> length (concat (map (map conv) vs)) = 480 * length vs"
  by (induction vs) simp_all

lemma put_frames_law:
  assumes "rb_ok rb" "\<forall>v \<in> set vs. length v = 480" "480 * length vs \<le> nat (getWritable rb)"
  shows "\<exists>rb'. put_frames conv vs rb = Some rb' \<and> rb_ok rb' \<and> rb_contents rb' = rb_contents rb @ concat (map (map conv) vs) \<and>
    nat (getWritable rb') = nat (getWritable rb) - 480 * length vs"
  using ring.put_all_law [OF assms(1), of "map (map conv) vs"] assms(3) concat_frames [OF assms(2), of conv] put_frames_all [OF assms]
  by simp

text \<open>What one piece and all of them do to the ring.\<close>

definition fed :: "(u16 \<Rightarrow> 'f) \<Rightarrow> nat \<Rightarrow> ('c, 'f) osmotetradec \<Rightarrow> ('c, 'f) osmotetradec \<Rightarrow> bool" where
  "fed conv k d d' \<longleftrightarrow>
    (\<exists>vs. rx_voice (snd (dec_pw d')) = rx_voice (snd (dec_pw d)) @ vs \<and> length vs \<le> k \<and> (\<forall>v \<in> set vs. length v = 480) \<and>
       rb_ok (out_tmp_buff d') \<and> rb_contents (out_tmp_buff d') = rb_contents (out_tmp_buff d) @ concat (map (map conv) vs) \<and>
       nat (getWritable (out_tmp_buff d')) = nat (getWritable (out_tmp_buff d)) - 480 * length vs) \<and>
    inSymsCtr d' = inSymsCtr d \<and> outSymsCtr d' = outSymsCtr d"

lemma fed_refl: "rb_ok (out_tmp_buff d) \<Longrightarrow> fed conv k d d"
  by (simp add: fed_def)

lemma fed_trans: "fed conv j d d1 \<Longrightarrow> fed conv k d1 d2 \<Longrightarrow> fed conv (j + k) d d2"
  unfolding fed_def by (elim exE conjE) (intro conjI exI [where x = "vs @ vsa" for vs vsa]; force)

lemma feed_piece_law:
  assumes "codec_frames codec" "rb_ok (out_tmp_buff d)" "480 \<le> nat (getWritable (out_tmp_buff d))"
  shows "\<exists>r. feed_piece ndebug tcdb codec conv m piece d = Some r \<and> (\<forall>d'. r = Inr d' \<longrightarrow> fed conv 1 d d')"
proof -
  obtain behind stack junk heap where m: "m = (behind, stack, junk, heap)" by (cases m)
  obtain tm w where pw: "dec_pw d = (tm, w)" by (cases "dec_pw d")
  show ?thesis
  proof (cases "tetra_burst_sync_in (burst_handler ndebug tcdb codec stack junk heap) behind (dec_trs d) piece (dec_pw d)")
    case (Inr res)
    obtain rc trs tm' w' where res: "res = (rc, trs, (tm', w'))" by (cases res) auto
    have "speaks 1 w w'" using speaks_sync [OF assms(1)] Inr by (simp add: pw res)
    then obtain vs where vs: "rx_voice w' = rx_voice w @ vs" "length vs \<le> 1" "\<forall>v \<in> set vs. length v = 480"
      by (auto simp: speaks_def)
    have "480 * length vs \<le> nat (getWritable (out_tmp_buff d))" using vs(2) assms(3) by (cases vs) auto
    from put_frames_law [OF assms(2) vs(3) this] obtain rb' where rb': "put_frames conv vs (out_tmp_buff d) = Some rb'" "rb_ok rb'"
        "rb_contents rb' = rb_contents (out_tmp_buff d) @ concat (map (map conv) vs)"
        "nat (getWritable rb') = nat (getWritable (out_tmp_buff d)) - 480 * length vs" by blast
    show ?thesis using Inr vs rb' by (simp add: feed_piece_def m pw res fed_def)
  qed (simp add: feed_piece_def m)
qed

lemma feed_pieces_law:
  assumes "codec_frames codec"
  shows "rb_ok (out_tmp_buff d) \<Longrightarrow> 480 * length ps \<le> nat (getWritable (out_tmp_buff d)) \<Longrightarrow>
    \<exists>r. feed_pieces ndebug tcdb codec conv m ps d = Some r \<and> (\<forall>d'. r = Inr d' \<longrightarrow> fed conv (length ps) d d')"
proof (induction ps arbitrary: d m)
  case Nil
  then show ?case by (simp add: fed_refl)
next
  case (Cons p ps)
  have "480 \<le> nat (getWritable (out_tmp_buff d))" using Cons.prems(2) by simp
  from feed_piece_law [OF assms Cons.prems(1) this] obtain r1 where
    r1: "feed_piece ndebug tcdb codec conv (m 0) p d = Some r1" "\<And>d'. r1 = Inr d' \<Longrightarrow> fed conv 1 d d'" by blast
  show ?case
  proof (cases r1)
    case (Inl e)
    then show ?thesis using r1(1) by simp
  next
    case (Inr d1)
    have f1: "fed conv 1 d d1" using r1(2) Inr by simp
    then obtain vs :: "u16 list list" where "length vs \<le> 1" "rb_ok (out_tmp_buff d1)"
        "nat (getWritable (out_tmp_buff d1)) = nat (getWritable (out_tmp_buff d)) - 480 * length vs"
      by (auto simp: fed_def)
    then have "rb_ok (out_tmp_buff d1)" "480 * length ps \<le> nat (getWritable (out_tmp_buff d1))"
      using Cons.prems(2) by (auto simp: le_Suc_eq)
    from Cons.IH [OF this] obtain r2 where r2: "feed_pieces ndebug tcdb codec conv (\<lambda>k. m (Suc k)) ps d1 = Some r2"
        "\<And>d'. r2 = Inr d' \<Longrightarrow> fed conv (length ps) d1 d'" by blast
    then show ?thesis using r1(1) Inr fed_trans [OF f1] by auto
  qed
qed

lemma drain_law:
  assumes "rb_ok rb"
  shows "\<exists>rb'. drain rb = Some (rb_contents rb, rb') \<and> rb_ok rb' \<and> rb_contents rb' = [] \<and>
    nat (getWritable rb') = nat (getWritable rb) + length (rb_contents rb)"
proof (cases "0 < getReadable rb")
  case True
  have "nat (getReadable rb) = length (rb_contents rb)" by (simp add: length_contents getReadable_def)
  then show ?thesis using ring.get_law [OF assms order_refl] True by (simp add: drain_def)
next
  case False
  then have "rb_contents rb = []" using assms length_contents [of rb] by (auto simp: rb_ok_def getReadable_def)
  then show ?thesis using False assms by (simp add: drain_def)
qed

section \<open>A call of the decoder\<close>

lemma room_for_block: "length (pieces (unpack_loop inp [])) \<le> 17"
proof -
  have "length (unpack_bits xs) = 2 * length xs" for xs by (induction xs) (simp_all add: unpack_bits_def unpack_symbol_def)
  then have "length (unpack_loop inp []) \<le> 510 * 17" using unpack_loop_stops [of "[]" inp] by simp
  then show ?thesis by (rule length_pieces)
qed

lemma process_speech:
  assumes "codec_frames codec" "ring_idle (out_tmp_buff d)"
  shows "\<exists>r. decoder_process ndebug tcdb codec conv zero m inp d = Some r \<and>
    (\<forall>out d'. r = Inr (out, d') \<longrightarrow> ring_idle (out_tmp_buff d') \<and>
      (\<exists>vs d1. rx_voice (snd (dec_pw d')) = rx_voice (snd (dec_pw d)) @ vs \<and> inSymsCtr d1 = inSymsCtr d \<and>
        outSymsCtr d1 = outSymsCtr d \<and> dec_pw d1 = dec_pw d' \<and>
        (out, d') = (if inp = [] then ([], d) else pace_output zero (length inp) (map conv (concat vs)) d1) \<and>
        (inp = [] \<longrightarrow> vs = [])))"
proof (cases "inp = []")
  case True
  then show ?thesis using assms(2) by (auto simp: decoder_process_def)
next
  case False
  let ?rb = "out_tmp_buff d" and ?ps = "pieces (unpack_loop inp [])"
  have rb: "rb_ok ?rb" "rb_contents ?rb = []" "nat (getWritable ?rb) = 32768" using assms(2) by (simp_all add: ring_idle_def)
  have "480 * length ?ps \<le> nat (getWritable ?rb)" using room_for_block [of inp] rb(3) by simp
  from feed_pieces_law [OF assms(1) rb(1) this, of ndebug tcdb conv m] obtain r1 where
    r1: "feed_pieces ndebug tcdb codec conv m ?ps d = Some r1" "\<And>d'. r1 = Inr d' \<Longrightarrow> fed conv (length ?ps) d d'" by blast
  show ?thesis
  proof (cases r1)
    case (Inl e)
    then show ?thesis using r1(1) False by (simp add: decoder_process_def)
  next
    case (Inr d1)
    then obtain vs where vs: "rx_voice (snd (dec_pw d1)) = rx_voice (snd (dec_pw d)) @ vs" "length vs \<le> length ?ps"
        "\<forall>v \<in> set vs. length v = 480" "rb_ok (out_tmp_buff d1)" "rb_contents (out_tmp_buff d1) = concat (map (map conv) vs)"
        "nat (getWritable (out_tmp_buff d1)) = 32768 - 480 * length vs" "inSymsCtr d1 = inSymsCtr d" "outSymsCtr d1 = outSymsCtr d"
      using r1(2) [OF Inr] rb by (auto simp: fed_def)
    obtain rb' where rb': "drain (out_tmp_buff d1) = Some (concat (map (map conv) vs), rb')" "rb_ok rb'" "rb_contents rb' = []"
        "nat (getWritable rb') = 32768 - 480 * length vs + 480 * length vs"
      using drain_law [OF vs(4)] vs(5,6) concat_frames [OF vs(3), of conv] by auto
    have "480 * length vs \<le> 32768" using vs(2) room_for_block [of inp] by simp
    then have idle: "ring_idle rb'" using rb'(2-4) by (simp add: ring_idle_def)
    have "concat (map (map conv) vs) = map conv (concat vs)" by (simp add: map_concat)
    then have res: "decoder_process ndebug tcdb codec conv zero m inp d =
        Some (Inr (pace_output zero (length inp) (map conv (concat vs)) (d1\<lparr>out_tmp_buff := rb'\<rparr>)))"
      using False r1(1) Inr rb'(1) by (simp add: decoder_process_def)
    have keep: "out_tmp_buff (snd (pace_output zero n xs e)) = out_tmp_buff e" "dec_pw (snd (pace_output zero n xs e)) = dec_pw e"
      for n xs and e :: "('a, 'b) osmotetradec" by (simp_all add: pace_output_def Let_def)
    define e where "e = d1\<lparr>out_tmp_buff := rb'\<rparr>"
    have "ring_idle (out_tmp_buff d') \<and> dec_pw d' = dec_pw d1"
      if "pace_output zero (length inp) (map conv (concat vs)) e = (out, d')" for out d'
      using keep [of "length inp" "map conv (concat vs)" e] idle that by (simp add: e_def)
    moreover have "inSymsCtr e = inSymsCtr d" "outSymsCtr e = outSymsCtr d" "dec_pw e = dec_pw d1" using vs by (simp_all add: e_def)
    ultimately show ?thesis using res vs(1) False unfolding e_def [symmetric] by fastforce
  qed
qed

section \<open>Pacing\<close>

text \<open>
  Calls during which no speech arrives: their number, the symbols put in and the samples that come out.
\<close>

inductive silent_run ::
  "bool \<Rightarrow> tetra_crypto_database \<Rightarrow> 'c etsi_codec \<Rightarrow> (u16 \<Rightarrow> 'f) \<Rightarrow> 'f \<Rightarrow> ('c, 'f) osmotetradec \<Rightarrow>
    nat \<Rightarrow> nat \<Rightarrow> nat \<Rightarrow> ('c, 'f) osmotetradec \<Rightarrow> bool"
  for ndebug tcdb codec conv zero d0 where
  start: "silent_run ndebug tcdb codec conv zero d0 0 0 0 d0"
| call: "silent_run ndebug tcdb codec conv zero d0 k b t d \<Longrightarrow>
    decoder_process ndebug tcdb codec conv zero m inp d = Some (Inr (out, d')) \<Longrightarrow>
    rx_voice (snd (dec_pw d')) = rx_voice (snd (dec_pw d)) \<Longrightarrow> \<not> decoding d' \<Longrightarrow>
    silent_run ndebug tcdb codec conv zero d0 (Suc k) (b + length inp) (t + length out) d'"

lemma pace_silent:
  fixes s n :: int
  assumes "0 \<le> s" "s \<le> 4" "0 \<le> n"
  defines "r \<equiv> (s + n) * 8 div 36"
  shows "0 \<le> r" "0 \<le> s + n - r * 36 div 8" "s + n - r * 36 div 8 \<le> 4"
    "9 * r - 1 \<le> 2 * (s + n - (s + n - r * 36 div 8))" "2 * (s + n - (s + n - r * 36 div 8)) \<le> 9 * r"
  using assms by (simp_all add: r_def)

lemma silent_run_counters:
  assumes "codec_frames codec"
  shows "silent_run ndebug tcdb codec conv zero d0 k b t d \<Longrightarrow> ring_idle (out_tmp_buff d0) \<Longrightarrow>
      inSymsCtr d0 = 0 \<Longrightarrow> outSymsCtr d0 = 0 \<Longrightarrow>
    ring_idle (out_tmp_buff d) \<and> outSymsCtr d = 0 \<and> 0 \<le> inSymsCtr d \<and> inSymsCtr d \<le> 4 \<and>
    9 * int t \<le> 2 * (2 * int b - inSymsCtr d) + int k \<and> 2 * (2 * int b - inSymsCtr d) \<le> 9 * int t"
proof (induction rule: silent_run.induct)
  case start
  then show ?case by simp
next
  case (call k b t d m inp out d')
  then have idle: "ring_idle (out_tmp_buff d)" and cn: "outSymsCtr d = 0" "0 \<le> inSymsCtr d" "inSymsCtr d \<le> 4"
    and le: "9 * int t \<le> 2 * (2 * int b - inSymsCtr d) + int k" "2 * (2 * int b - inSymsCtr d) \<le> 9 * int t" by simp_all
  from process_speech [OF assms idle, of ndebug tcdb conv zero m inp] call.hyps(2) obtain vs d1 where
    1: "ring_idle (out_tmp_buff d')" "rx_voice (snd (dec_pw d')) = rx_voice (snd (dec_pw d)) @ vs" "inSymsCtr d1 = inSymsCtr d"
      "outSymsCtr d1 = outSymsCtr d" "dec_pw d1 = dec_pw d'"
      "(out, d') = (if inp = [] then ([], d) else pace_output zero (length inp) (map conv (concat vs)) d1)" by auto
  have vs: "vs = []" using 1(2) call.hyps(3) by simp
  show ?case
  proof (cases "inp = []")
    case True
    then have "out = []" "d' = d" using 1(6) by simp_all
    with True 1(1) cn le show ?thesis by simp
  next
    case False
    define r where "r = (inSymsCtr d + int (length inp) * 2) * 8 div 36"
    have nd: "\<not> decoding d1" using call.hyps(4) 1(5) by (simp add: decoding_def)
    have p: "0 \<le> r" "0 \<le> inSymsCtr d + int (length inp) * 2 - r * 36 div 8" "inSymsCtr d + int (length inp) * 2 - r * 36 div 8 \<le> 4"
      "9 * r - 1 \<le> 2 * (inSymsCtr d + int (length inp) * 2 - (inSymsCtr d + int (length inp) * 2 - r * 36 div 8))"
      "2 * (inSymsCtr d + int (length inp) * 2 - (inSymsCtr d + int (length inp) * 2 - r * 36 div 8)) \<le> 9 * r"
      unfolding r_def by (rule pace_silent [OF cn(2,3)], simp)+
    have eq: "pace_output zero (length inp) [] d1 = (out, d')" using 1(6) False vs by simp
    have out: "out = replicate (nat r) zero" and ct: "outSymsCtr d' = 0" "inSymsCtr d' = inSymsCtr d + int (length inp) * 2 - r * 36 div 8"
      using eq nd p(1) unfolding pace_output_def Let_def 1(3,4) cn(1) r_def [symmetric] by (auto split: if_split_asm)
    have "int (length out) = r" using p(1) by (simp add: out)
    then show ?thesis using 1(1) ct p(2-5) le unfolding ct(2) by simp
  qed
qed

section \<open>Samples\<close>

definition sample_decoder :: "(unit, int) osmotetradec" where
  "sample_decoder = decoder_init () 0 (sample_time, sample_receiver)"

definition sample_memory :: "nat \<Rightarrow> memory" where
  "sample_memory k = (\<lambda>_. 0, \<lambda>_. 1, \<lambda>_. 2, \<lambda>_. 3)"

lemma sample_codec_frames: "codec_frames sample_codec"
  by (simp add: codec_frames_def sample_codec_def)

lemma init_idle: "ring_idle (rb_init z 32768)"
  by (simp add: ring_idle_def rb_ok_def rb_contents_def rb_init_def getWritable_def writable_from_def RING_BUF_SZ_def)

text \<open>Nine symbols are too few for the synchroniser to look for a burst; four samples come out.\<close>

lemma sample_call:
  "\<exists>d'. decoder_process False sample_db sample_codec sint 0 sample_memory (replicate 9 3) sample_decoder = Some (Inr ([0, 0, 0, 0], d')) \<and>
    rx_voice (snd (dec_pw d')) = rx_voice (snd (dec_pw sample_decoder)) \<and> \<not> decoding d'"
proof -
  have bits: "unpack_loop (replicate 9 3) [] = replicate 18 1"
    by (simp add: unpack_loop_fits UNPACKED_BITS_SIZE_def unpack_bits_def unpack_symbol_def eval_nat_numeral)
  have "pieces (replicate 18 1) = [replicate 18 (1 :: u8)]"
    by (subst pieces.simps, subst pieces.simps) (simp add: SAFE_SLOT_BURST_SIZE_def)
  moreover have "\<exists>trs. tetra_burst_sync_in cb behind initial_rx_state (replicate 18 1) w = Inr (18, trs, w)" for cb :: "unit receiver burst_cb" and behind w
    by (simp add: tetra_burst_sync_in_def make_bitbuf_space_def rx_unlocked_def initial_rx_state_def BITBUF_SIZE_def)
  then obtain trs where "tetra_burst_sync_in (burst_handler False sample_db sample_codec (\<lambda>_. 1) (\<lambda>_. 2) (\<lambda>_. 3)) (\<lambda>_. 0)
      initial_rx_state (replicate 18 1) (dec_pw sample_decoder) = Inr (18, trs, dec_pw sample_decoder)" by blast
  moreover have "dec_trs sample_decoder = initial_rx_state" by (simp add: sample_decoder_def decoder_init_def)
  ultimately have feed: "feed_pieces False sample_db sample_codec sint sample_memory (pieces (replicate 18 1)) sample_decoder =
      Some (Inr (sample_decoder\<lparr>dec_trs := trs\<rparr>))"
    by (simp add: feed_piece_def sample_memory_def)
  let ?e = "sample_decoder\<lparr>dec_trs := trs, out_tmp_buff := out_tmp_buff sample_decoder\<rparr>"
  have "drain (out_tmp_buff sample_decoder) = Some ([], out_tmp_buff sample_decoder)"
    by (simp add: drain_def getReadable_def sample_decoder_def decoder_init_def rb_init_def)
  then have proc: "decoder_process False sample_db sample_codec sint 0 sample_memory (replicate 9 3) sample_decoder =
      Some (Inr (pace_output 0 9 [] ?e))"
    unfolding decoder_process_def bits feed by simp
  have quiet: "\<not> decoding ?e" "inSymsCtr sample_decoder = 0" "outSymsCtr sample_decoder = 0"
    by (simp_all add: decoding_def sample_decoder_def decoder_init_def initial_mac_state_def tetra_mac_state_init_def
        cleared_display_state_def)
  then have "pace_output 0 9 [] ?e = ([0, 0, 0, 0], ?e\<lparr>outSymsCtr := 0, inSymsCtr := 0\<rparr>)"
    by (simp add: pace_output_def Let_def eval_nat_numeral)
  moreover have "\<not> decoding (?e\<lparr>outSymsCtr := 0, inSymsCtr := 0\<rparr>)" using quiet(1) by (simp add: decoding_def)
  ultimately show ?thesis using proc by simp
qed

section \<open>Properties\<close>

text \<open>
  The differential code: the bits of a sequence of symbols come back whatever the phase the carrier
  starts with, when the extractor has seen the symbol before; and from the second symbol on whatever
  it has seen.
\<close>
theorem dqpsk_bits_roundtrip:
  assumes "is_bits bits" "even (length bits)"
  shows "unpack_bits (fst (extract_symbols (modulate (pack_bits bits) q) (of_nat (q mod 4)))) = bits \<and>
    drop 2 (unpack_bits (fst (extract_symbols (modulate (pack_bits bits) q) prev))) = drop 2 bits"
proof -
  note x = extract_modulate [OF packed_symbols [OF assms(1)], of q]
  have any: "tl (fst (extract_symbols samples p)) = tl (fst (extract_symbols samples p'))" for samples p p'
    by (induction samples p rule: extract_symbols.induct) (simp_all add: Let_def split: prod.split)
  have tl: "drop 2 (unpack_bits xs) = unpack_bits (tl xs)" for xs
    by (cases xs) (simp_all add: unpack_bits_def unpack_symbol_def)
  show ?thesis using x any [of "modulate (pack_bits bits) q" prev "of_nat (q mod 4)"] unpack_pack [OF assms] by (simp add: tl) (metis tl)
qed

theorem dqpsk_bits_roundtrip_witness:
  "unpack_bits (fst (extract_symbols (modulate (pack_bits [1, 0, 1, 1, 0, 1]) 3) (of_nat (3 mod 4)))) = [1, 0, 1, 1, 0, 1] \<and>
    drop 2 (unpack_bits (fst (extract_symbols (modulate (pack_bits [1, 0, 1, 1, 0, 1]) 3) 2))) = drop 2 [1, 0, 1, 1, 0, 1]"
  by (rule dqpsk_bits_roundtrip) simp_all

text \<open>
  The synchroniser gets the bits of a block of symbols in pieces of at most 510 that together are
  its bits, in order; but only those of the first 4095 symbols, the rest of a longer block is lost.
\<close>
theorem decoder_pieces:
  "concat (pieces (unpack_loop symbols [])) = unpack_bits (take 4095 symbols) \<and>
   (\<forall>piece. piece \<in> set (pieces (unpack_loop symbols [])) \<longrightarrow> length piece \<le> 510)"
  using unpack_loop_stops [of "[]" symbols] pieces_le by (auto simp: concat_pieces)

theorem decoder_pieces_witness:
  "concat (pieces (unpack_loop (replicate 5000 3) [])) = unpack_bits (take 4095 (replicate 5000 3)) \<and>
   (\<forall>piece. piece \<in> set (pieces (unpack_loop (replicate 5000 3) [])) \<longrightarrow> length piece \<le> 510)"
  by (rule decoder_pieces)

text \<open>
  C9. No speech is lost between the lower MAC and the output: a call of the decoder on any block, with
  the ring empty before it, returns without waiting; when it does not fail, its output is the speech
  that arrived during the call, every frame of it and in order, followed only by silence, and the ring
  is empty again.
\<close>
theorem decoder_passes_speech:
  assumes "codec_frames codec" "ring_idle (out_tmp_buff d)"
  shows "\<exists>r. decoder_process ndebug tcdb codec conv zero m inp d = Some r \<and>
    (case r of Inl e \<Rightarrow> True
     | Inr (out, d') \<Rightarrow> ring_idle (out_tmp_buff d') \<and>
         (\<exists>vs k. rx_voice (snd (dec_pw d')) = rx_voice (snd (dec_pw d)) @ vs \<and> out = map conv (concat vs) @ replicate k zero))"
proof -
  obtain r where r: "decoder_process ndebug tcdb codec conv zero m inp d = Some r"
      "\<And>out d'. r = Inr (out, d') \<Longrightarrow> ring_idle (out_tmp_buff d') \<and>
        (\<exists>vs d1. rx_voice (snd (dec_pw d')) = rx_voice (snd (dec_pw d)) @ vs \<and>
          (out, d') = (if inp = [] then ([], d) else pace_output zero (length inp) (map conv (concat vs)) d1) \<and> (inp = [] \<longrightarrow> vs = []))"
    using process_speech [OF assms, of ndebug tcdb conv zero m inp] by blast
  have pace: "\<exists>k. fst (pace_output zero n xs e) = xs @ replicate k zero" for n xs and e :: "('a, 'b) osmotetradec"
    by (auto simp: pace_output_def Let_def intro: exI [of _ 0])
  have "\<exists>k. out = map conv (concat vs) @ replicate k zero"
    if "(out, d') = (if inp = [] then ([], d) else pace_output zero (length inp) (map conv (concat vs)) d1)" "inp = [] \<longrightarrow> vs = []"
    for out d' vs d1
  proof (cases "inp = []")
    case False
    then have "out = fst (pace_output zero (length inp) (map conv (concat vs)) d1)" using that(1) by (metis fst_conv)
    then show ?thesis using pace by simp
  qed (use that in simp)
  then have "ring_idle (out_tmp_buff d') \<and>
      (\<exists>vs k. rx_voice (snd (dec_pw d')) = rx_voice (snd (dec_pw d)) @ vs \<and> out = map conv (concat vs) @ replicate k zero)"
    if "r = Inr (out, d')" for out d' using r(2) [OF that] by metis
  then show ?thesis using r(1) by (auto split: sum.split)
qed

theorem decoder_passes_speech_witness:
  "\<exists>r. decoder_process False sample_db sample_codec sint 0 sample_memory (replicate 300 1) sample_decoder = Some r \<and>
    (case r of Inl e \<Rightarrow> True
     | Inr (out, d') \<Rightarrow> ring_idle (out_tmp_buff d') \<and>
         (\<exists>vs k. rx_voice (snd (dec_pw d')) = rx_voice (snd (dec_pw sample_decoder)) @ vs \<and>
           out = map sint (concat vs) @ replicate k 0))"
  by (rule decoder_passes_speech) (simp_all add: sample_codec_frames sample_decoder_def decoder_init_def init_idle)

text \<open>
  The output is paced by the input: while no speech arrives, the samples of silence are two for
  nine bits, less than one sample short, and ahead by at most one ninth of a sample for each call.
\<close>
theorem silence_is_paced:
  assumes "silent_run ndebug tcdb codec conv zero d0 k b t d" "codec_frames codec"
    and "ring_idle (out_tmp_buff d0)" "inSymsCtr d0 = 0" "outSymsCtr d0 = 0"
  shows "9 * int t \<le> 2 * (2 * int b) + int k \<and> 2 * (2 * int b) < 9 * (int t + 1)"
proof -
  note c = silent_run_counters [OF assms(2) assms(1) assms(3-5)]
  have "9 * int t \<le> 2 * (2 * int b - inSymsCtr d) + int k" "2 * (2 * int b - inSymsCtr d) \<le> 9 * int t"
    "0 \<le> inSymsCtr d" "inSymsCtr d \<le> 4" using c by blast+
  then show ?thesis by simp
qed

theorem silence_is_paced_witness:
  "9 * int (length [0, 0, 0, 0 :: int]) \<le> 2 * (2 * int (length (replicate 9 (3 :: u8)))) + int (Suc 0) \<and>
    2 * (2 * int (length (replicate 9 (3 :: u8)))) < 9 * (int (length [0, 0, 0, 0 :: int]) + 1)"
proof -
  obtain d' where "decoder_process False sample_db sample_codec sint 0 sample_memory (replicate 9 3) sample_decoder = Some (Inr ([0, 0, 0, 0], d'))"
      "rx_voice (snd (dec_pw d')) = rx_voice (snd (dec_pw sample_decoder))" "\<not> decoding d'" using sample_call by blast
  from silent_run.call [OF silent_run.start this]
  have "silent_run False sample_db sample_codec sint 0 sample_decoder (Suc 0) (length (replicate 9 (3 :: u8))) (length [0, 0, 0, 0 :: int]) d'"
    by simp
  then show ?thesis
    by (rule silence_is_paced) (simp_all add: sample_codec_frames sample_decoder_def init_idle decoder_init_def)
qed

end
