(* ===== verification/Rds.thy ===== *)
theory Rds
  imports Prelude
begin

text \<open>
  The block code of the RDS decoder (decoder_modules/radio/src/rds.cpp, \<open>calcSyndrome\<close> and
  \<open>correctErrors\<close>): the syndrome of a block of 26 bits, the table of the offset words, and the
  correction of bursts. The words that a station sends are defined after the standard, as the reference.
\<close>

section \<open>Blocks and syndromes\<close>

datatype block_type = BLOCK_TYPE_A | BLOCK_TYPE_B | BLOCK_TYPE_C | BLOCK_TYPE_CP | BLOCK_TYPE_D

definition SYNDROMES :: "(u16 \<times> block_type) list" where
  "SYNDROMES = [(0b1111011000, BLOCK_TYPE_A), (0b1111010100, BLOCK_TYPE_B), (0b1001011100, BLOCK_TYPE_C),
     (0b1111001100, BLOCK_TYPE_CP), (0b1001011000, BLOCK_TYPE_D)]"

fun OFFSETS :: "block_type \<Rightarrow> u16" where
  "OFFSETS BLOCK_TYPE_A = 0b0011111100"
| "OFFSETS BLOCK_TYPE_B = 0b0110011000"
| "OFFSETS BLOCK_TYPE_C = 0b0101101000"
| "OFFSETS BLOCK_TYPE_CP = 0b1101010000"
| "OFFSETS BLOCK_TYPE_D = 0b0110110100"

definition LFSR_POLY :: u16 where "LFSR_POLY = 0b0110111001"
definition IN_POLY :: u16 where "IN_POLY = 0b1100011011"
definition BLOCK_LEN :: nat where "BLOCK_LEN = 26"
definition DATA_LEN :: nat where "DATA_LEN = 16"
definition POLY_LEN :: nat where "POLY_LEN = 10"

definition syndrome_step :: "u16 \<Rightarrow> u16 \<Rightarrow> u16" where
  "syndrome_step syn inBit =
    (let outBit = drop_bit (POLY_LEN - 1) syn AND 1;
         syn = push_bit 1 syn AND 0b1111111111;
         syn = syn XOR LFSR_POLY * outBit
     in syn XOR IN_POLY * inBit)"

definition calcSyndrome :: "u32 \<Rightarrow> u16" where
  "calcSyndrome block = foldl (\<lambda>syn i. syndrome_step syn (ucast (drop_bit i block AND 1))) 0 (rev [0..<BLOCK_LEN])"

text \<open>One round of the correction: the flag, the output, the syndrome.\<close>

definition correct_step :: "bool \<times> u32 \<times> u16 \<Rightarrow> nat \<Rightarrow> bool \<times> u32 \<times> u16" where
  "correct_step fos i =
    (let (errorFound, out, syn) = fos;
         errorFound = (errorFound \<or> syn AND 0b11111 = 0);
         outBit = drop_bit (POLY_LEN - 1) syn AND 1;
         out = out XOR push_bit (i + POLY_LEN) (if errorFound then ucast outBit else 0);
         syn = push_bit 1 syn AND 0b1111111111;
         syn = syn XOR LFSR_POLY * outBit * of_bool (\<not> errorFound)
     in (errorFound, out, syn))"

definition correctErrors :: "u32 \<Rightarrow> block_type \<Rightarrow> u32 \<times> bool" where
  "correctErrors block type =
    (let block = block XOR ucast (OFFSETS type);
         syn = calcSyndrome block;
         (_, out, syn) = (if syn \<noteq> 0 then foldl correct_step (False, block, syn) (rev [0..<DATA_LEN]) else (False, block, syn))
     in (out, syn AND 0b11111 = 0))"

section \<open>The syndrome is linear\<close>

lemma times_bit: "a * (x AND 1) = (if bit x 0 then a else 0)" for a x :: "'a::len word"
  by (cases "bit x 0") (simp_all add: and_one_eq bit_0 even_iff_mod_2_eq_zero odd_iff_mod_2_eq_one)

lemma step_eq:
  "syndrome_step s (b AND 1) =
    ((push_bit 1 s AND 0b1111111111) XOR (if bit s 9 then LFSR_POLY else 0)) XOR (if bit b 0 then IN_POLY else 0)"
  by (simp add: syndrome_step_def Let_def POLY_LEN_def times_bit bit_drop_bit_eq)

lemma step_linear:
  "syndrome_step (s XOR t) ((x XOR y) AND 1) = syndrome_step s (x AND 1) XOR syndrome_step t (y AND 1)"
  unfolding step_eq by (rule bit_word_eqI) (auto simp: bit_simps)

lemma low_bit: "ucast (drop_bit i w AND 1) = (of_bool (bit w i) :: u16) AND 1" for w :: u32
  by (rule bit_word_eqI) (auto simp: bit_simps)

definition syn_from :: "u16 \<Rightarrow> nat \<Rightarrow> u32 \<Rightarrow> u16" where
  "syn_from s n block = foldl (\<lambda>syn i. syndrome_step syn (ucast (drop_bit i block AND 1))) s (rev [0..<n])"

lemma calc_syn_from: "calcSyndrome block = syn_from 0 26 block"
  by (simp only: calcSyndrome_def syn_from_def BLOCK_LEN_def)

lemma syn_from_0 [simp]: "syn_from s 0 w = s"
  by (simp add: syn_from_def)

lemma syn_from_Suc [simp]: "syn_from s (Suc n) w = syn_from (syndrome_step s (of_bool (bit w n) AND 1)) n w"
  by (simp add: syn_from_def low_bit)

lemma syn_from_linear: "syn_from (s XOR t) n (v XOR w) = syn_from s n v XOR syn_from t n w"
proof (induction n arbitrary: s t)
  case (Suc n)
  have "(of_bool (bit (v XOR w) n) :: u16) AND 1 = (of_bool (bit v n) XOR of_bool (bit w n)) AND 1"
    by (auto simp: bit_xor_iff)
  with Suc show ?case by (simp only: syn_from_Suc step_linear)
qed simp

lemma calcSyndrome_linear: "calcSyndrome (v XOR w) = calcSyndrome v XOR calcSyndrome w"
  using syn_from_linear [of 0 0 26 v w] by (simp only: calc_syn_from xor_self_eq)

lemma step_0 [simp]: "syndrome_step 0 0 = 0"
  by (simp add: syndrome_step_def Let_def)

text \<open>A zero input bit, and the shift of a whole block by one position.\<close>

lemma syn_from_double:
  "n < 32 \<Longrightarrow> syn_from s (Suc n) (push_bit 1 w) = syndrome_step (syn_from s n w) 0"
proof (induction n arbitrary: s)
  case 0
  have "\<not> bit (push_bit 1 w) 0" by (auto simp only: bit_push_bit_iff)
  then show ?case by (simp only: syn_from_Suc syn_from_0) simp
next
  case (Suc n)
  have "bit (push_bit 1 w) (Suc n) = bit w n" 
    unfolding bit_push_bit_iff using Suc.prems by simp
  with Suc show ?case by (simp only: syn_from_Suc [of _ "Suc n"] syn_from_Suc [of _ n w])
qed

lemma calcSyndrome_double: "\<not> bit w 25 \<Longrightarrow> calcSyndrome (push_bit 1 w) = syndrome_step (calcSyndrome w) 0"
proof -
  assume "\<not> bit w 25"
  then have "syn_from 0 26 w = syn_from 0 25 w"
    using syn_from_Suc [of 0 25 w] by simp
  then show ?thesis
    using syn_from_double [of 25 0 w] by (simp add: calc_syn_from)
qed

definition syn_shift :: "u16 \<Rightarrow> u16" where "syn_shift s = syndrome_step s 0"

text \<open>A short pattern in the low bits of the block, moved up.\<close>

lemma calcSyndrome_push:
  assumes "w < 2 ^ 5" "n \<le> 21"
  shows "calcSyndrome (push_bit n w) = (syn_shift ^^ n) (calcSyndrome w)"
  using assms(2)
proof (induction n)
  case (Suc n)
  have "\<not> bit w (25 - n)" using Suc.prems assms(1) by (intro bit_high [of _ 5]) simp_all
  then have "\<not> bit (push_bit n w) 25" by (simp add: bit_push_bit_iff)
  with Suc show ?case
    using calcSyndrome_double [of "push_bit n w"] by (simp add: syn_shift_def push_bit_push_bit)
qed simp

section \<open>The words that are transmitted\<close>

text \<open>
  The encoder of the standard, as the reference: the checkword is the remainder of the message times
  \<open>x\<^sup>1\<^sup>0\<close> modulo the generator \<open>x\<^sup>1\<^sup>0 + x\<^sup>8 + x\<^sup>7 + x\<^sup>5 + x\<^sup>4 + x\<^sup>3 + 1\<close>, and the offset word of the
  block is added to it.
\<close>

definition rds_checkword :: "u16 \<Rightarrow> u16" where
  "rds_checkword d = foldl (\<lambda>s i. (push_bit 1 s AND 0x3FF) XOR (if bit s 9 \<noteq> bit d i then 0x1B9 else 0)) 0 (rev [0..<16])"

definition rds_word :: "block_type \<Rightarrow> u16 \<Rightarrow> u32" where
  "rds_word type d = push_bit 10 (ucast d) XOR ucast (rds_checkword d XOR OFFSETS type)"

definition ck_from :: "u16 \<Rightarrow> nat \<Rightarrow> u16 \<Rightarrow> u16" where
  "ck_from s n d = foldl (\<lambda>s i. (push_bit 1 s AND 0x3FF) XOR (if bit s 9 \<noteq> bit d i then 0x1B9 else 0)) s (rev [0..<n])"

lemma checkword_ck_from: "rds_checkword d = ck_from 0 16 d"
  by (simp only: rds_checkword_def ck_from_def)

lemma ck_from_0 [simp]: "ck_from s 0 d = s"
  by (simp add: ck_from_def)

lemma ck_from_Suc [simp]:
  "ck_from s (Suc n) d = ck_from ((push_bit 1 s AND 0x3FF) XOR (if bit s 9 \<noteq> bit d n then 0x1B9 else 0)) n d"
  by (simp add: ck_from_def)

lemma ck_step_linear:
  "(push_bit 1 (s XOR t) AND 0x3FF) XOR (if bit (s XOR t) 9 \<noteq> (b \<noteq> c) then 0x1B9 else 0)
    = ((push_bit 1 s AND 0x3FF) XOR (if bit s 9 \<noteq> b then 0x1B9 else 0))
      XOR ((push_bit 1 t AND 0x3FF) XOR (if bit t 9 \<noteq> c then 0x1B9 else 0))" for s t :: u16
  by (rule bit_word_eqI) (auto simp: bit_simps)

lemma ck_from_linear: "ck_from (s XOR t) n (d XOR e) = ck_from s n d XOR ck_from t n e"
proof (induction n arbitrary: s t)
  case 0
  then show ?case by (simp add: ck_from_def)
next
  case (Suc n)
  have "bit (d XOR e) n = (bit d n \<noteq> bit e n)" by (auto simp: bit_xor_iff)
  with Suc show ?case by (simp only: ck_from_Suc ck_step_linear)
qed

lemma rds_checkword_linear: "rds_checkword (d XOR e) = rds_checkword d XOR rds_checkword e"
  using ck_from_linear [of 0 0 16 d e] by (simp add: rds_checkword_def ck_from_def)

text \<open>A linear function that vanishes on the sixteen unit words vanishes.\<close>

lemma linear_zero:
  fixes f :: "u16 \<Rightarrow> u16"
  assumes lin: "\<And>a b. f (a XOR b) = f a XOR f b" and units: "\<And>k. k < 16 \<Longrightarrow> f (push_bit k 1) = 0"
  shows "f d = 0"
proof -
  have z: "f 0 = 0" using lin [of 0 0] by simp
  have "f (take_bit n d) = 0" if "n \<le> 16" for n
    using that
  proof (induction n)
    case (Suc n)
    have "take_bit (Suc n) d = take_bit n d XOR (if bit d n then push_bit n 1 else 0)"
      by (rule bit_word_eqI) (auto simp: bit_simps less_Suc_eq)
    with Suc z units [of n] show ?case by (simp add: lin)
  qed (simp add: z)
  moreover have "take_bit 16 d = d" by (rule bit_word_eqI) (simp add: bit_take_bit_iff)
  ultimately show ?thesis by (metis order_refl)
qed

lemma syn_shift_eq: "syn_shift s = (push_bit 1 s AND 0b1111111111) XOR (if bit s 9 then LFSR_POLY else 0)"
  using step_eq [of s 0] by (simp add: syn_shift_def)

lemma syn_from_numeral:
  "syn_from s (numeral n) w = syn_from (syndrome_step s (of_bool (bit w (pred_numeral n)) AND 1)) (pred_numeral n) w"
  by (simp add: numeral_eq_Suc)

lemma ck_from_numeral:
  "ck_from s (numeral n) d =
    ck_from ((push_bit 1 s AND 0x3FF) XOR (if bit s 9 \<noteq> bit d (pred_numeral n) then 0x1B9 else 0)) (pred_numeral n) d"
  by (simp add: numeral_eq_Suc)

lemma step_1: "syndrome_step s 1 = syn_shift s XOR IN_POLY"
  using step_eq [of s 1] by (simp add: syn_shift_eq)

lemma step_shift: "syndrome_step s 0 = syn_shift s"
  by (simp add: syn_shift_def)

lemmas syndrome_eval = push_bit_of_1 push_bit_Suc calc_syn_from syn_from_numeral step_1 step_shift syn_shift_eq LFSR_POLY_def IN_POLY_def

lemma rds_checkword_units:
  "map rds_checkword [1, 2, 4, 8, 16, 32, 64, 128, 256, 512, 0x400, 0x800, 0x1000, 0x2000, 0x4000, 0x8000] =
    [0x1B9, 0x372, 0x35D, 0x303, 0x3BF, 0x2C7, 0x037, 0x06E, 0x0DC, 0x1B8, 0x370, 0x359, 0x30B, 0x3AF, 0x2E7, 0x077]"
  by (simp add: checkword_ck_from ck_from_numeral push_bit_of_1 push_bit_Suc)

lemma offset_syndromes: "calcSyndrome (ucast (OFFSETS type)) =
  (case type of BLOCK_TYPE_A \<Rightarrow> 0b1111011000 | BLOCK_TYPE_B \<Rightarrow> 0b1111010100 | BLOCK_TYPE_C \<Rightarrow> 0b1001011100
    | BLOCK_TYPE_CP \<Rightarrow> 0b1111001100 | BLOCK_TYPE_D \<Rightarrow> 0b1001011000)"
  by (cases type) (simp_all add: syndrome_eval)

lemma SYNDROMES_offset: "map_of SYNDROMES (calcSyndrome (ucast (OFFSETS type))) = Some type"
  unfolding offset_syndromes by (cases type) (simp_all add: SYNDROMES_def)

lemma codeword_units:
  "list_all (\<lambda>k. calcSyndrome (push_bit 10 (ucast (push_bit k 1 :: u16)) XOR ucast (rds_checkword (push_bit k 1))) = 0)
    [0, 1, 2, 3, 4, 5, 6, 7, 8, 9, 10, 11, 12, 13, 14, 15]"
  using rds_checkword_units by (simp add: syndrome_eval)

lemma codeword_syndrome: "calcSyndrome (push_bit 10 (ucast d) XOR ucast (rds_checkword d)) = 0"
proof (rule linear_zero [where f = "\<lambda>d. calcSyndrome (push_bit 10 (ucast d) XOR ucast (rds_checkword d))"])
  fix a b
  show "calcSyndrome (push_bit 10 (ucast (a XOR b)) XOR ucast (rds_checkword (a XOR b))) =
    calcSyndrome (push_bit 10 (ucast a) XOR ucast (rds_checkword a)) XOR
    calcSyndrome (push_bit 10 (ucast b) XOR ucast (rds_checkword b))"
    unfolding calcSyndrome_linear [symmetric] rds_checkword_linear
    by (rule arg_cong [where f = calcSyndrome], rule bit_word_eqI) (auto simp: bit_simps)
next
  fix k :: nat
  assume "k < 16"
  then show "calcSyndrome (push_bit 10 (ucast (push_bit k 1 :: u16)) XOR ucast (rds_checkword (push_bit k 1))) = 0"
    using codeword_units by (elim less_16_cases) (simp_all only: list.pred_inject simp_thms)
qed

lemma ucast_xor: "ucast (a XOR b) = (ucast a XOR ucast b :: u32)" for a b :: u16
  by (rule bit_word_eqI) (auto simp: bit_simps)

lemma word_syndrome: "calcSyndrome (rds_word type d) = calcSyndrome (ucast (OFFSETS type))"
  by (simp add: rds_word_def ucast_xor xor.assoc [symmetric] calcSyndrome_linear [of _ "ucast (OFFSETS type)"] codeword_syndrome)

section \<open>The bursts the correction traps\<close>

text \<open>
  The syndrome of a burst is shifted until its five low bits are clear: that is the case when the burst
  has reached the top of the register, and for no shorter time when the lowest bit of the burst is set.
\<close>

fun traps :: "nat \<Rightarrow> u16 \<Rightarrow> bool" where
  "traps 0 s = True"
| "traps (Suc n) s = (s AND 0b11111 \<noteq> 0 \<and> traps n (syn_shift s))"

lemma traps_numeral: "traps (numeral k) s = (s AND 0b11111 \<noteq> 0 \<and> traps (pred_numeral k) (syn_shift s))"
  by (simp add: numeral_eq_Suc)

fun trap_table :: "u32 list \<Rightarrow> bool" where
  "trap_table [] = True"
| "trap_table (p # ps) = (traps 21 (calcSyndrome p) \<and> trap_table ps)"

lemma trap_table_odd: "trap_table [1, 3, 5, 7, 9, 11, 13, 15, 17, 19, 21, 23, 25, 27, 29, 31]"
  by (simp add: syndrome_eval traps_numeral)

lemma funpow_numeral: "(syn_shift ^^ numeral k) s = (syn_shift ^^ pred_numeral k) (syn_shift s)"
  by (simp add: numeral_eq_Suc funpow_swap1)

fun top_table :: "u32 list \<Rightarrow> bool" where
  "top_table [] = True"
| "top_table (p # ps) = ((syn_shift ^^ 21) (calcSyndrome p) = push_bit 5 (ucast p) \<and> top_table ps)"

lemma top_table: "top_table [0, 1, 2, 3, 4, 5, 6, 7, 8, 9, 10, 11, 12, 13, 14, 15, 16, 17, 18, 19, 20, 21, 22, 23,
    24, 25, 26, 27, 28, 29, 30, 31]"
  by (simp add: syndrome_eval funpow_numeral)

lemma trap_table_set: "trap_table ps \<longleftrightarrow> (\<forall>p \<in> set ps. traps 21 (calcSyndrome p))"
  by (induction ps) auto

lemma top_table_set: "top_table ps \<longleftrightarrow> (\<forall>p \<in> set ps. (syn_shift ^^ 21) (calcSyndrome p) = push_bit 5 (ucast p))"
  by (induction ps) auto

lemma less_32_set:
  assumes "p < (32 :: u32)"
  shows "p \<in> set [0, 1, 2, 3, 4, 5, 6, 7, 8, 9, 10, 11, 12, 13, 14, 15, 16, 17, 18, 19, 20, 21, 22, 23,
      24, 25, 26, 27, 28, 29, 30, 31]"
proof -
  have "p \<in> set (map of_nat [0..<32])"
    using assms by (auto intro!: image_eqI [of _ _ "unat p"] simp: word_less_nat_alt)
  moreover have "map of_nat [0..<32] = [0, 1, 2, 3, 4, 5, 6, 7, 8, 9, 10, 11, 12, 13, 14, 15, 16, 17, 18, 19, 20, 21, 22, 23,
      24, 25, 26, 27, 28, 29, 30, 31 :: u32]" by (simp add: upt_conv_Cons)
  ultimately show ?thesis by metis
qed

lemma burst_top: "p < 32 \<Longrightarrow> (syn_shift ^^ 21) (calcSyndrome p) = push_bit 5 (ucast p)"
  using top_table less_32_set unfolding top_table_set by blast

lemma burst_traps:
  assumes "p < 32" "odd p"
  shows "traps 21 (calcSyndrome p)"
proof -
  have "p \<in> set [1, 3, 5, 7, 9, 11, 13, 15, 17, 19, 21, 23, 25, 27, 29, 31]"
    using less_32_set [OF assms(1)] assms(2) by auto
  with trap_table_odd show ?thesis unfolding trap_table_set by blast
qed

section \<open>The correction loop\<close>

lemma correct_step_before:
  "s AND 0b11111 \<noteq> 0 \<Longrightarrow> correct_step (False, out, s) i = (False, out, syn_shift s)"
  by (simp add: correct_step_def Let_def syn_shift_eq POLY_LEN_def times_bit bit_drop_bit_eq)

lemma correct_step_after:
  "f \<or> s AND 0b11111 = 0 \<Longrightarrow>
    correct_step (f, out, s) i = (True, out XOR (if bit s 9 then push_bit (i + 10) 1 else 0), push_bit 1 s AND 0b1111111111)"
  by (auto simp: correct_step_def Let_def POLY_LEN_def and_one_eq mod_2_eq_odd bit_iff_odd_drop_bit)

lemma correct_loop_before:
  "traps k s \<Longrightarrow> k \<le> m \<Longrightarrow>
    foldl correct_step (False, out, s) (rev [0..<m]) = foldl correct_step (False, out, (syn_shift ^^ k) s) (rev [0..<m - k])"
proof (induction k arbitrary: s m)
  case (Suc k)
  then obtain m' where "m = Suc m'" by (cases m) auto
  with Suc show ?case by (simp add: correct_step_before funpow_swap1)
qed simp

lemma bit_0x3FF: "bit (0b1111111111 :: 'a::len word) n \<longleftrightarrow> n < 10 \<and> n < LENGTH('a)"
proof -
  have *: "(0b1111111111 :: 'a word) = mask 10" by (simp add: mask_eq_exp_minus_1)
  show ?thesis unfolding * bit_mask_iff by auto
qed

lemma bit_0x3FF_int: "bit (0b1111111111 :: int) n \<longleftrightarrow> n < 10"
proof -
  have *: "(0b1111111111 :: int) = mask 10" by (simp add: mask_eq_exp_minus_1)
  show ?thesis unfolding * bit_mask_iff by auto
qed

text \<open>Once trapped, the register is written out bit by bit.\<close>

lemma correct_loop_after:
  "f \<or> s AND 0b11111 = 0 \<Longrightarrow> (\<And>n. 10 \<le> n \<Longrightarrow> \<not> bit s n) \<Longrightarrow> m \<le> 16 \<Longrightarrow> 0 < m \<Longrightarrow>
    foldl correct_step (f, out, s) (rev [0..<m]) =
      (True, out XOR (push_bit m (ucast s) AND NOT 0b1111111111), push_bit m s AND 0b1111111111)"
proof (induction m arbitrary: f s out)
  case (Suc m)
  define s' where "s' = push_bit 1 s AND 0b1111111111"
  let ?out = "out XOR (if bit s 9 then push_bit (m + 10) 1 else 0)"
  have bit_s: "bit s' k \<longleftrightarrow> 1 \<le> k \<and> k < 10 \<and> bit s (k - 1)" for k
    unfolding s'_def bit_and_iff bit_0x3FF bit_push_bit_iff by auto
  have step: "foldl correct_step (f, out, s) (rev [0..<Suc m]) = foldl correct_step (True, ?out, s') (rev [0..<m])"
    unfolding s'_def using Suc.prems(1) by (simp add: correct_step_after)
  have shifted: "push_bit m s' AND 0b1111111111 = push_bit (Suc m) s AND 0b1111111111"
    by (rule bit_word_eqI) (simp only: bit_s bit_push_bit_iff bit_and_iff bit_0x3FF, auto)
  have out: "?out XOR (push_bit m (ucast s') AND NOT 0b1111111111) = out XOR (push_bit (Suc m) (ucast s) AND NOT 0b1111111111)"
  proof (rule bit_word_eqI)
    fix n
    assume n: "n < LENGTH(32)"
    have "bit (if bit s 9 then push_bit (m + 10) 1 else 0 :: u32) n \<longleftrightarrow> bit s 9 \<and> n = m + 10"
      using n by (auto simp: bit_push_bit_iff bit_1_iff)
    moreover have "bit (push_bit m (ucast s') AND NOT 0b1111111111 :: u32) n \<longleftrightarrow> m < n \<and> n < m + 10 \<and> 10 \<le> n \<and> bit s (n - Suc m)"
      using n by (simp only: bit_push_bit_iff bit_and_iff bit_not_iff bit_0x3FF bit_unsigned_iff bit_s) auto
    moreover have "bit (push_bit (Suc m) (ucast s) AND NOT 0b1111111111 :: u32) n \<longleftrightarrow> m < n \<and> 10 \<le> n \<and> bit s (n - Suc m)"
      using n by (simp only: bit_push_bit_iff bit_and_iff bit_not_iff bit_0x3FF bit_unsigned_iff) (auto simp: bit_imp_possible_bit)
    moreover have "bit s (n - Suc m) \<Longrightarrow> m < n \<Longrightarrow> n < m + 10 \<or> n = m + 10"
      using Suc.prems(2) [of "n - Suc m"] by linarith
    ultimately show "bit (?out XOR (push_bit m (ucast s') AND NOT 0b1111111111)) n =
      bit (out XOR (push_bit (Suc m) (ucast s) AND NOT 0b1111111111)) n"
      unfolding bit_xor_iff by auto
  qed
  have keep: "s' AND 0b1111111111 = s'" "(ucast s' :: u32) AND NOT 0b1111111111 = 0"
    by (rule bit_word_eqI; simp only: bit_and_iff bit_not_iff bit_0x3FF bit_s bit_unsigned_iff bit_0; auto)+
  have "foldl correct_step (True, ?out, s') (rev [0..<m]) =
    (True, ?out XOR (push_bit m (ucast s') AND NOT 0b1111111111), push_bit m s' AND 0b1111111111)"
    using Suc.IH [of True s' ?out] Suc.prems(3) keep
    by (cases "m = 0") (simp_all add: bit_s)
  then show ?case unfolding step out shifted .
qed simp

lemma traps_funpow: "traps (j + n) s \<Longrightarrow> traps n ((syn_shift ^^ j) s)"
  by (induction j arbitrary: s) (auto simp: funpow_swap1)

lemma traps_take: "traps (j + n) s \<Longrightarrow> traps j s"
  by (induction j arbitrary: s) auto

lemma syn_shift_funpow_0: "(syn_shift ^^ n) 0 = 0"
  by (induction n) (simp_all add: syn_shift_def)

lemma calcSyndrome_0: "calcSyndrome 0 = 0"
  using calcSyndrome_linear [of 0 0] by simp

lemma correctErrors_eq:
  "correctErrors (rds_word type d XOR e) type =
    (let (_, out, syn) =
       (if calcSyndrome e \<noteq> 0
        then foldl correct_step (False, (rds_word type d XOR ucast (OFFSETS type)) XOR e, calcSyndrome e) (rev [0..<16])
        else (False, (rds_word type d XOR ucast (OFFSETS type)) XOR e, calcSyndrome e))
     in (out, syn AND 0b11111 = 0))"
proof -
  have "(rds_word type d XOR e) XOR ucast (OFFSETS type) = (rds_word type d XOR ucast (OFFSETS type)) XOR e"
    by (simp add: ac_simps)
  moreover have "calcSyndrome ((rds_word type d XOR ucast (OFFSETS type)) XOR e) = calcSyndrome e"
    by (simp add: calcSyndrome_linear word_syndrome)
  ultimately show ?thesis
    by (simp only: correctErrors_def Let_def DATA_LEN_def)
qed

lemma bit_0x1F: "bit (0b11111 :: 'a::len word) n \<longleftrightarrow> n < 5 \<and> n < LENGTH('a)"
proof -
  have *: "(0b11111 :: 'a word) = mask 5" by (simp add: mask_eq_exp_minus_1)
  show ?thesis unfolding * bit_mask_iff by auto
qed

lemma low5_iff: "x AND 0b11111 = 0 \<longleftrightarrow> (\<forall>n<5. \<not> bit x n)" for x :: "'a::len word"
proof
  assume "x AND 0b11111 = 0"
  then have "\<not> bit (x AND 0b11111) n" for n by simp
  then show "\<forall>n<5. \<not> bit x n"
    unfolding bit_and_iff bit_0x1F by (auto dest: bit_imp_le_length)
next
  assume "\<forall>n<5. \<not> bit x n"
  then show "x AND 0b11111 = 0"
    by (intro bit_word_eqI) (simp only: bit_and_iff bit_0x1F bit_0_eq bot_apply, auto)
qed

lemma correct_burst_normal:
  fixes type d
  assumes "p < 32" "p \<noteq> 0" "lo \<le> 21" "odd p \<or> lo = 21"
  defines "e \<equiv> push_bit lo p"
  defines "w \<equiv> rds_word type d XOR ucast (OFFSETS type)"
  shows "correctErrors (rds_word type d XOR e) type = (w XOR (e AND 0b1111111111), e AND 0b11111 = 0)"
proof -
  have e_syn: "calcSyndrome e = (syn_shift ^^ lo) (calcSyndrome p)"
    using assms by (simp add: calcSyndrome_push)
  have top: "(syn_shift ^^ (21 - lo)) (calcSyndrome e) = push_bit 5 (ucast p)"
    using burst_top [OF assms(1)] assms(3) by (simp add: e_syn funpow_add [THEN fun_cong, simplified, symmetric])
  have ne: "calcSyndrome e \<noteq> 0"
  proof
    assume "calcSyndrome e = 0"
    then have "push_bit 5 (ucast p :: u16) = 0" using top by (simp add: syn_shift_funpow_0)
    moreover have "bit (push_bit 5 (ucast p :: u16)) (n + 5) = bit p n" if "n < 5" for n
      using that by (simp add: bit_push_bit_iff bit_unsigned_iff)
    ultimately have "\<not> bit p n" if "n < 5" for n using that by simp
    moreover have "\<not> bit p n" if "5 \<le> n" for n using that assms(1) bit_high [of p 5] by simp
    ultimately have "p = 0" by (intro bit_word_eqI) (simp, meson not_less)
    with assms(2) show False by simp
  qed
  have tr: "traps (21 - lo) (calcSyndrome e)"
  proof (cases "lo = 21")
    case False
    with assms(4) have "odd p" by simp
    then show ?thesis
      unfolding e_syn using burst_traps [OF assms(1)] assms(3) by (intro traps_funpow) simp
  qed simp
  have all: "(w XOR e) XOR (e AND NOT 0b1111111111) = w XOR (e AND 0b1111111111)"
    by (rule bit_word_eqI) (simp only: bit_xor_iff bit_and_iff bit_not_iff bit_0x3FF, auto)
  show ?thesis
  proof (cases "6 \<le> lo")
    case True
    have low: "e AND 0b11111 = 0"
      using True by (simp add: low5_iff e_def bit_push_bit_iff)
    have "foldl correct_step (False, w XOR e, calcSyndrome e) (rev [0..<16]) =
      foldl correct_step (False, w XOR e, push_bit 5 (ucast p)) (rev [0..<16 - (21 - lo)])"
      unfolding top [symmetric] using tr True by (intro correct_loop_before) simp_all
    also have "16 - (21 - lo) = lo - 5" using True assms(3) by simp
    also have "foldl correct_step (False, w XOR e, push_bit 5 (ucast p)) (rev [0..<lo - 5]) =
      (True, (w XOR e) XOR (push_bit (lo - 5) (ucast (push_bit 5 (ucast p :: u16))) AND NOT 0b1111111111),
        push_bit (lo - 5) (push_bit 5 (ucast p)) AND 0b1111111111)"
    proof (rule correct_loop_after)
      show "False \<or> push_bit 5 (ucast p :: u16) AND 0b11111 = 0"
        by (simp add: low5_iff bit_push_bit_iff)
      show "\<not> bit (push_bit 5 (ucast p :: u16)) n" if "10 \<le> n" for n
        using that bit_high [of p 5 "n - 5"] assms(1) by (auto simp: bit_push_bit_iff bit_unsigned_iff)
    qed (use True assms(3) in auto)
    also have "push_bit (lo - 5) (ucast (push_bit 5 (ucast p :: u16))) = e"
    proof (rule bit_word_eqI)
      fix n
      have "bit p (n - lo) \<Longrightarrow> n - lo < 5" using bit_high [of p 5 "n - lo"] assms(1) by (cases "n - lo < 5") auto
      then show "bit (push_bit (lo - 5) (ucast (push_bit 5 (ucast p :: u16))) :: u32) n = bit e n"
        using True by (auto simp: e_def bit_push_bit_iff bit_unsigned_iff)
    qed
    finally have "foldl correct_step (False, w XOR e, calcSyndrome e) (rev [0..<16]) =
      (True, w XOR (e AND 0b1111111111), push_bit lo (ucast p) AND 0b1111111111)"
      using True unfolding all by (simp add: push_bit_push_bit)
    moreover have "(push_bit lo (ucast p :: u16) AND 0b1111111111) AND 0b11111 = 0"
      using True by (simp add: low5_iff bit_push_bit_iff bit_and_iff)
    ultimately show ?thesis
      using ne low by (simp add: correctErrors_eq w_def)
  next
    case False
    have e: "e AND 0b1111111111 = e"
    proof (rule bit_word_eqI)
      fix n
      have "bit p (n - lo) \<Longrightarrow> n - lo < 5" using bit_high [of p 5 "n - lo"] assms(1) by (cases "n - lo < 5") auto
      with False show "bit (e AND 0b1111111111) n = bit e n"
        unfolding e_def bit_and_iff bit_0x3FF bit_push_bit_iff by auto
    qed
    have "foldl correct_step (False, w XOR e, calcSyndrome e) (rev [0..<16]) =
      foldl correct_step (False, w XOR e, (syn_shift ^^ 16) (calcSyndrome e)) (rev [0..<16 - 16])"
      using tr False traps_take [of 16 "5 - lo"] by (intro correct_loop_before) simp_all
    moreover have "((syn_shift ^^ 16) (calcSyndrome e) AND 0b11111 = 0) = (e AND 0b11111 = 0)"
    proof (cases "lo = 5")
      case True
      then show ?thesis using top by (simp add: low5_iff e_def bit_push_bit_iff)
    next
      case lo: False
      with False have "bit e lo" "lo < 5" using assms(4) by (auto simp: e_def bit_push_bit_iff bit_0)
      moreover have "(syn_shift ^^ 16) (calcSyndrome e) AND 0b11111 \<noteq> 0"
      proof -
        have "16 + Suc (4 - lo) = 21 - lo" using False lo by simp
        with tr have "traps (16 + Suc (4 - lo)) (calcSyndrome e)" by metis
        from traps_funpow [OF this] show ?thesis unfolding traps.simps by blast
      qed
      ultimately show ?thesis by (auto simp: low5_iff)
    qed
    ultimately show ?thesis using ne e by (simp add: correctErrors_eq w_def)
  qed
qed

text \<open>A burst of up to five bits anywhere in the block, not necessarily normalised.\<close>

lemma correct_burst:
  fixes type d
  assumes "p < 32" "lo \<le> 21"
  defines "e \<equiv> push_bit lo p"
  shows "correctErrors (rds_word type d XOR e) type =
    ((rds_word type d XOR ucast (OFFSETS type)) XOR (e AND 0b1111111111), e AND 0b11111 = 0)"
  using assms(1,2) unfolding e_def
proof (induction "21 - lo" arbitrary: lo p rule: less_induct)
  case less
  show ?case
  proof (cases "p = 0")
    case True
    then show ?thesis by (simp add: correctErrors_eq [of type d 0, simplified] calcSyndrome_0)
  next
    case p: False
    show ?thesis
    proof (cases "odd p \<or> lo = 21")
      case True
      then show ?thesis using correct_burst_normal [of p lo type d] p less.prems by simp
    next
      case False
      then have "push_bit lo p = push_bit (Suc lo) (drop_bit 1 p)"
        by (intro bit_word_eqI) (auto simp: bit_push_bit_iff bit_drop_bit_eq bit_0 [symmetric] Suc_le_eq le_less Suc_diff_Suc)
      moreover have "drop_bit 1 p < 32"
        using less.prems(1) 
        by (simp add: word_less_nat_alt drop_bit_eq_div unat_div del: drop_bit_Suc)
      moreover have "21 - Suc lo < 21 - lo" "Suc lo \<le> 21" using False less.prems(2) by auto
      ultimately show ?thesis using less(1) [of "Suc lo" "drop_bit 1 p"] by metis
    qed
  qed
qed

lemma ck_from_high: "(\<And>k. 10 \<le> k \<Longrightarrow> \<not> bit s k) \<Longrightarrow> 10 \<le> k \<Longrightarrow> \<not> bit (ck_from s n d) k"
proof (induction n arbitrary: s)
  case (Suc n)
  have "\<not> bit (0x1B9 :: u16) k" if "10 \<le> k" for k
    using that by (intro bit_high [of _ 10]) simp_all
  then have "\<not> bit ((push_bit 1 s AND 0x3FF) XOR (if b then 0x1B9 else 0)) k" if "10 \<le> k" for k b
    using that by (simp only: bit_xor_iff bit_and_iff bit_0x3FF) simp
  then show ?case unfolding ck_from_Suc using Suc by blast
qed simp

lemma checkword_high: "10 \<le> k \<Longrightarrow> \<not> bit (rds_checkword d) k"
  unfolding checkword_ck_from by (rule ck_from_high) simp_all

section \<open>What the correction promises\<close>

text \<open>
  C14. A block that arrives without errors is recognised by its syndrome. A burst of up to five bits, anywhere
  in the block, does not reach the data bits of the result; the block counts as recovered exactly when
  the lowest five bits of the block are not hit.
\<close>

theorem rds_bursts_corrected:
  assumes "p < 32" "lo \<le> 21"
  shows "map_of SYNDROMES (calcSyndrome (rds_word type d)) = Some type \<and>
    drop_bit 10 (fst (correctErrors (rds_word type d XOR push_bit lo p) type)) = ucast d \<and>
    snd (correctErrors (rds_word type d XOR push_bit lo p) type) = (push_bit lo p AND 0b11111 = 0)"
proof -
  have "drop_bit 10 ((rds_word type d XOR ucast (OFFSETS type)) XOR (push_bit lo p AND 0b1111111111)) = ucast d"
  proof (rule bit_word_eqI)
    fix n
    have "\<not> bit (rds_checkword d) (10 + n)" by (rule checkword_high) simp
    moreover have "\<not> bit (push_bit lo p AND 0b1111111111) (10 + n)"
      by (simp only: bit_and_iff bit_0x3FF) simp
    ultimately show "bit (drop_bit 10 ((rds_word type d XOR ucast (OFFSETS type)) XOR (push_bit lo p AND 0b1111111111))) n
        = bit (ucast d :: u32) n"
      unfolding rds_word_def ucast_xor bit_drop_bit_eq bit_xor_iff bit_unsigned_iff bit_push_bit_iff comp_apply
      by (auto dest: bit_imp_le_length)
  qed
  then show ?thesis
    using correct_burst [OF assms, of type d] by (simp only: word_syndrome SYNDROMES_offset fst_conv snd_conv)
qed

text \<open>Three wrong bits in the middle of the data of a block D.\<close>

theorem rds_bursts_corrected_witness:
  "drop_bit 10 (fst (correctErrors (rds_word BLOCK_TYPE_D 0x4142 XOR push_bit 18 0b10101) BLOCK_TYPE_D)) = 0x4142"
proof -
  have "drop_bit 10 (fst (correctErrors (rds_word BLOCK_TYPE_D 0x4142 XOR push_bit 18 0b10101) BLOCK_TYPE_D)) = ucast (0x4142 :: u16)"
    by (rule conjunct1 [OF conjunct2 [OF rds_bursts_corrected]]) simp_all
  then show ?thesis by simp
qed

text \<open>
  The type of a block is read off its syndrome alone, also when the decoder is synchronised. One wrong bit
  turns a block C into a block D.
\<close>

lemma single_error_misread:
  "map_of SYNDROMES (calcSyndrome (rds_word BLOCK_TYPE_C d XOR push_bit 18 1)) = Some BLOCK_TYPE_D"
  unfolding calcSyndrome_linear word_syndrome offset_syndromes by (simp add: syndrome_eval SYNDROMES_def)

end
