(* ===== verification/RdsCallsign.thy ===== *)
theory RdsCallsign
  imports Rds
begin

text \<open>
  The call letters of a station from its program identification code (decoder_modules/radio/src/rds.cpp,
  \<open>base26ToCall\<close> and \<open>decodeCallsign\<close>): the base 26 numbers of the North American stations, the table
  of the three letter calls and the table of the linked stations.
\<close>

section \<open>Tables\<close>

definition THREE_LETTER_CALLS :: "(u16 \<times> string) list" where
  "THREE_LETTER_CALLS =
    [(0x99A5, ''KBW''), (0x99A6, ''KCY''), (0x9990, ''KDB''), (0x99A7, ''KDF''), (0x9950, ''KEX''), (0x9951, ''KFH''),
     (0x9952, ''KFI''), (0x9953, ''KGA''), (0x9991, ''KGB''), (0x9954, ''KGO''), (0x9955, ''KGU''), (0x9956, ''KGW''),
     (0x9957, ''KGY''), (0x99AA, ''KHQ''), (0x9958, ''KID''), (0x9959, ''KIT''), (0x995A, ''KJR''), (0x995B, ''KLO''),
     (0x995C, ''KLZ''), (0x995D, ''KMA''), (0x995E, ''KMJ''), (0x995F, ''KNX''), (0x9960, ''KOA''), (0x99AB, ''KOB''),
     (0x9992, ''KOY''), (0x9993, ''KPQ''), (0x9964, ''KQV''), (0x9994, ''KSD''), (0x9965, ''KSL''), (0x9966, ''KUJ''),
     (0x9995, ''KUT''), (0x9967, ''KVI''), (0x9968, ''KWG''), (0x9996, ''KXL''), (0x9997, ''KXO''), (0x996B, ''KYW''),
     (0x9999, ''WBT''), (0x996D, ''WBZ''), (0x996E, ''WDZ''), (0x996F, ''WEW''), (0x999A, ''WGH''), (0x9971, ''WGL''),
     (0x9972, ''WGN''), (0x9973, ''WGR''), (0x999B, ''WGY''), (0x9975, ''WHA''), (0x9976, ''WHB''), (0x9977, ''WHK''),
     (0x9978, ''WHO''), (0x999C, ''WHP''), (0x999D, ''WIL''), (0x997A, ''WIP''), (0x99B3, ''WIS''), (0x997B, ''WJR''),
     (0x99B4, ''WJW''), (0x99B5, ''WJZ''), (0x997C, ''WKY''), (0x997D, ''WLS''), (0x997E, ''WLW''), (0x999E, ''WMC''),
     (0x999F, ''WMT''), (0x9981, ''WOC''), (0x99A0, ''WOI''), (0x9983, ''WOL''), (0x9984, ''WOR''), (0x99A1, ''WOW''),
     (0x99B9, ''WRC''), (0x99A2, ''WRR''), (0x99A3, ''WSB''), (0x99A4, ''WSM''), (0x9988, ''WWJ''), (0x9989, ''WWL'')]"

definition NAT_LOC_LINKED_STATIONS :: "(u16 \<times> string) list" where
  "NAT_LOC_LINKED_STATIONS =
    [(0xB01, ''NPR-1''),
     (0xB02, ''CBC - Radio One''),
     (0xB03, ''CBC - Radio Two''),
     (0xB04, ''Radio-Canada - Premi'' @ [CHR 0xC3] @ [CHR 0xA8] @ ''re Cha'' @ [CHR 0xC3] @ [CHR 0xAE] @ ''ne''),
     (0xB05, ''Radio-Canada - Espace Musique''),
     (0xB06, ''CBC''),
     (0xB07, ''CBC''),
     (0xB08, ''CBC''),
     (0xB09, ''CBC''),
     (0xB0A, ''NPR-2''),
     (0xB0B, ''NPR-3''),
     (0xB0C, ''NPR-4''),
     (0xB0D, ''NPR-5''),
     (0xB0E, ''NPR-6'')]"

section \<open>Base 26\<close>

text \<open>Division and remainder of C, which round towards zero.\<close>

definition c_div :: "int \<Rightarrow> int \<Rightarrow> int" where "c_div a b = sgn a * (\<bar>a\<bar> div b)"
definition c_mod :: "int \<Rightarrow> int \<Rightarrow> int" where "c_mod a b = sgn a * (\<bar>a\<bar> mod b)"

text \<open>The digits, the lowest first.\<close>

function base26_digits :: "int \<Rightarrow> string" where
  "base26_digits rest = (if rest \<noteq> 0 then char_of (nat (65 + c_mod rest 26)) # base26_digits (c_div rest 26) else [])"
  by auto
termination
  by (relation "measure (\<lambda>rest. nat \<bar>rest\<bar>)") (auto simp: c_div_def abs_mult)

declare base26_digits.simps [simp del]

definition base26ToCall :: "u16 \<Rightarrow> string" where
  "base26ToCall pi =
    (let w = pi \<ge> 21672;
         callsign = (if w then ''W'' else ''K'');
         restStr = base26_digits (int (unat pi) - (if w then 21672 else 4096));
         restStr = restStr @ replicate (3 - length restStr) (CHR ''A'')
     in callsign @ rev restStr)"

definition decodeCallsign :: "u16 \<Rightarrow> string" where
  "decodeCallsign pi =
    (if drop_bit 8 pi = 0xAF then base26ToCall (push_bit 8 (pi AND 0xFF))
     else if drop_bit 12 pi = 0xA then base26ToCall (push_bit 12 (drop_bit 8 pi AND 0xF) OR (pi AND 0xFF))
     else if 0x9950 \<le> pi \<and> pi \<le> 0x9EFF then
       (case map_of THREE_LETTER_CALLS pi of Some call \<Rightarrow> call | None \<Rightarrow> ''Not Assigned'')
     else if 0x1000 \<le> pi \<and> pi \<le> 0x994F then
       (if pi AND 0xFF = 0 \<or> drop_bit 8 pi AND 0xF = 0 then ''Not Assigned'' else base26ToCall pi)
     else if 0xB000 \<le> pi \<and> pi \<le> 0xEFFF then
       (let pi' = push_bit 8 (drop_bit 12 pi) OR (pi AND 0xFF)
        in case map_of NAT_LOC_LINKED_STATIONS pi' of Some call \<Rightarrow> call | None \<Rightarrow> ''Not Assigned'')
     else ''Not Assigned'')"

section \<open>Properties\<close>

lemma base26_digits_pos:
  "0 < n \<Longrightarrow> base26_digits (int n) = char_of (65 + n mod 26) # base26_digits (int (n div 26))"
  by (subst base26_digits.simps) (simp add: c_mod_def c_div_def nat_add_distrib nat_mod_distrib zdiv_int)

lemma base26_digits_0 [simp]: "base26_digits 0 = []"
  by (simp add: base26_digits.simps)

text \<open>The call letters of the standard: a letter for the half of the country, three in base 26.\<close>

definition call_letters :: "nat \<Rightarrow> string" where
  "call_letters n = [char_of (65 + n div 676), char_of (65 + n div 26 mod 26), char_of (65 + n mod 26)]"

lemma base26_three_digits:
  assumes "n < 17576"
  defines "ds \<equiv> base26_digits (int n)"
  shows "rev (ds @ replicate (3 - length ds) (CHR ''A'')) = call_letters n"
proof -
  have A: "char_of (65 :: nat) = CHR ''A''" by code_simp
  have small: "base26_digits (int k) = (if k = 0 then [] else [char_of (65 + k)])" if "k < 26" for k
    using that base26_digits_pos [of k] by simp
  show ?thesis
  proof (cases "n = 0")
    case True
    then show ?thesis by (simp add: ds_def call_letters_def A numeral_3_eq_3)
  next
    case False
    then have d1: "ds = char_of (65 + n mod 26) # base26_digits (int (n div 26))"
      unfolding ds_def by (intro base26_digits_pos) simp
    show ?thesis
    proof (cases "n div 26 = 0")
      case True
      then show ?thesis by (simp add: d1 call_letters_def A numeral_2_eq_2 div_mult2_eq [of n 26 26, simplified])
    next
      case False
      then have d2: "base26_digits (int (n div 26)) = char_of (65 + n div 26 mod 26) # base26_digits (int (n div 26 div 26))"
        by (intro base26_digits_pos) simp
      have "n div 26 div 26 = n div 676" by (simp add: div_mult2_eq [of n 26 26, simplified])
      moreover have "n div 676 < 26" using assms(1) by simp
      ultimately show ?thesis
        by (simp only: d1 d2 small call_letters_def) (simp add: A)
    qed
  qed
qed

lemma base26ToCall_number:
  assumes "n < 17576" "unat pi = (if w then 21672 else 4096) + n"
  shows "base26ToCall pi = (if w then CHR ''W'' else CHR ''K'') # call_letters n"
proof -
  have "(pi \<ge> 21672) = w"
    using assms unfolding word_le_nat_alt by simp
  moreover have "int (unat pi) - (if w then 21672 else 4096) = int n"
    unfolding assms(2) by simp
  ultimately show ?thesis
    using base26_three_digits [OF assms(1)] by (simp only: base26ToCall_def Let_def) simp
qed

text \<open>
  The code the standard assigns to a call: codes with a zero low byte and codes with a zero second digit
  are sent in the reserved ranges.
\<close>

definition call_pi :: "bool \<Rightarrow> nat \<Rightarrow> u16" where
  "call_pi w n =
    (let pi = of_nat ((if w then 21672 else 4096) + n)
     in if pi AND 0xFF = 0 then push_bit 8 0xAF OR drop_bit 8 pi
        else if drop_bit 8 pi AND 0xF = 0 then push_bit 12 0xA OR push_bit 8 (drop_bit 12 pi) OR pi AND 0xFF
        else pi)"

lemma bit_0xFF: "bit (0xFF :: u16) n \<longleftrightarrow> n < 8"
proof -
  have *: "(0xFF :: u16) = mask 8" by (simp add: mask_eq_exp_minus_1)
  show ?thesis unfolding * bit_mask_iff by auto
qed

lemma bit_0xF: "bit (0xF :: u16) n \<longleftrightarrow> n < 4"
proof -
  have *: "(0xF :: u16) = mask 4" by (simp add: mask_eq_exp_minus_1)
  show ?thesis unfolding * bit_mask_iff by auto
qed

lemma decode_low_byte_zero:
  assumes "pi AND 0xFF = 0"
  shows "decodeCallsign (push_bit 8 0xAF OR drop_bit 8 pi) = base26ToCall pi"
proof -
  have z: "\<not> bit pi n" if "n < 8" for n
  proof -
    have "\<not> bit (pi AND 0xFF) n" using assms by simp
    then show ?thesis using that by (simp only: bit_and_iff bit_0xFF) simp
  qed
  have z8: "bit pi n \<Longrightarrow> 8 \<le> n" for n using z [of n] by (cases "n < 8") auto
  have hi: "\<not> bit pi (n + 16)" for n
    using bit_imp_le_length [of pi "n + 16"] by auto
  have "drop_bit 8 (push_bit 8 0xAF OR drop_bit 8 pi) = drop_bit 8 (push_bit 8 0xAF)"
    by (rule bit_word_eqI) (simp only: bit_drop_bit_eq bit_or_iff comp_apply, use hi in \<open>auto simp: ac_simps\<close>)
  moreover have "push_bit 8 ((push_bit 8 0xAF OR drop_bit 8 pi) AND 0xFF) = pi"
    by (rule bit_word_eqI) (simp only: bit_drop_bit_eq bit_or_iff bit_and_iff bit_push_bit_iff bit_0xFF comp_apply,
      use z8 in \<open>auto dest: le_Suc_ex\<close>)
  ultimately show ?thesis by (simp only: decodeCallsign_def) simp
qed

lemma bit_0xA: "bit (0xA :: u16) n \<longleftrightarrow> n = 1 \<or> n = 3"
proof -
  have *: "(0xA :: u16) = push_bit 1 1 OR push_bit 3 1" by (simp add: push_bit_of_1)
  show ?thesis unfolding * bit_or_iff bit_push_bit_iff by (auto simp: bit_1_iff)
qed

lemma decode_digit_zero:
  assumes "drop_bit 8 pi AND 0xF = 0" "unat pi \<le> 39247"
  shows "decodeCallsign (push_bit 12 0xA OR push_bit 8 (drop_bit 12 pi) OR pi AND 0xFF) = base26ToCall pi"
proof -
  define x where "x = drop_bit 12 pi"
  define q where "q = push_bit 12 0xA OR push_bit 8 x OR pi AND 0xFF"
  have z: "bit pi n \<Longrightarrow> n < 8 \<or> 12 \<le> n" for n
  proof (rule ccontr)
    assume "bit pi n" "\<not> (n < 8 \<or> 12 \<le> n)"
    moreover from this have "8 + (n - 8) = n" "n - 8 < 4" by auto
    ultimately have "bit (drop_bit 8 pi AND 0xF) (n - 8)"
      by (simp only: bit_and_iff bit_drop_bit_eq bit_0xF comp_apply)
    with assms(1) show False by simp
  qed
  have bx: "bit x n \<longleftrightarrow> bit pi (12 + n)" for n
    by (simp add: x_def bit_drop_bit_eq)
  have lt: "bit pi n \<Longrightarrow> n < 16" for n
    using bit_imp_le_length [of pi n] by simp
  have bq: "bit q n \<longleftrightarrow> n = 15 \<or> n = 13 \<or> 8 \<le> n \<and> n < 12 \<and> bit pi (n + 4) \<or> n < 8 \<and> bit pi n" for n
    unfolding q_def bit_or_iff bit_and_iff bit_push_bit_iff bit_0xFF bit_0xA bx using lt [of "n + 4"] lt [of n] by (auto simp: add.commute)
  have "unat x \<le> 9" using assms(2) by (simp add: x_def drop_bit_eq_div unat_div)
  then have "x \<in> set (map of_nat [0..<10])" by (auto intro!: image_eqI [of _ _ "unat x"])
  moreover have "map of_nat [0..<10] = [0, 1, 2, 3, 4, 5, 6, 7, 8, 9 :: u16]" by (simp add: upt_conv_Cons)
  ultimately have "x \<in> set [0, 1, 2, 3, 4, 5, 6, 7, 8, 9]" by metis
  then have "push_bit 4 0xA OR x \<noteq> 0xAF" by auto
  moreover have "drop_bit 8 q = push_bit 4 0xA OR x"
    by (rule bit_word_eqI) (simp only: bit_drop_bit_eq bit_or_iff bit_push_bit_iff bq bx comp_apply bit_0xA, auto dest: lt)
  moreover have "drop_bit 12 q = 0xA"
    by (rule bit_word_eqI) (simp only: bit_drop_bit_eq bq comp_apply bit_0xA, auto dest: lt)
  moreover have "push_bit 12 (drop_bit 8 q AND 0xF) OR (q AND 0xFF) = pi"
  proof (rule bit_word_eqI)
    fix n
    assume n: "n < LENGTH(16)"
    then consider "n < 8" | "8 \<le> n" "n < 12" | "12 \<le> n" "12 + (n - 12) = n" "n < 16" by fastforce
    then show "bit (push_bit 12 (drop_bit 8 q AND 0xF) OR (q AND 0xFF)) n = bit pi n"
      unfolding bit_or_iff bit_and_iff bit_drop_bit_eq bit_push_bit_iff bq comp_apply bit_0xF bit_0xFF
      using z [of n] by cases auto
  qed
  ultimately show ?thesis unfolding x_def [symmetric] q_def [symmetric] by (simp only: decodeCallsign_def) simp
qed

lemma decode_normal:
  "0x1000 \<le> pi \<Longrightarrow> pi \<le> 0x994F \<Longrightarrow> pi AND 0xFF \<noteq> 0 \<Longrightarrow> drop_bit 8 pi AND 0xF \<noteq> 0 \<Longrightarrow>
    decodeCallsign pi = base26ToCall pi"
proof -
  assume a: "0x1000 \<le> pi" "pi \<le> 0x994F" "pi AND 0xFF \<noteq> 0" "drop_bit 8 pi AND 0xF \<noteq> 0"
  have "unat (drop_bit 8 pi) \<le> 0x99" "unat (drop_bit 12 pi) \<le> 9"
    using a(2) by (simp_all add: word_le_nat_alt drop_bit_eq_div unat_div)
  then have "drop_bit 8 pi \<noteq> 0xAF" "drop_bit 12 pi \<noteq> 0xA" by auto
  moreover have "\<not> 0x9950 \<le> pi" using a(2) by (simp add: word_le_nat_alt)
  ultimately show ?thesis using a by (simp only: decodeCallsign_def) simp
qed

text \<open>
  C28. Every call of the North American plan, a letter for the half of the country and three letters in base 26,
  is decoded from the code it is sent with, the codes that are sent in the reserved ranges included.
\<close>

theorem callsign_roundtrip:
  assumes "n < 17576"
  shows "decodeCallsign (call_pi w n) = (if w then CHR ''W'' else CHR ''K'') # call_letters n"
proof -
  define pi where "pi = (of_nat ((if w then 21672 else 4096) + n) :: u16)"
  have u: "unat pi = (if w then 21672 else 4096) + n"
    unfolding pi_def using assms by (intro unat_of_nat_lt) auto
  have pi: "0x1000 \<le> pi" "pi \<le> 0x994F" "unat pi \<le> 39247"
    using u assms by (auto simp: word_le_nat_alt)
  have "decodeCallsign (call_pi w n) = base26ToCall pi"
    unfolding call_pi_def pi_def [symmetric] Let_def
    using decode_low_byte_zero [of pi] decode_digit_zero [of pi] decode_normal [of pi] pi by presburger
  then show ?thesis using base26ToCall_number [OF assms u] by simp
qed

text \<open>Call number 16402 of the western half, whose code has a zero second digit and is sent in the range A.\<close>

theorem callsign_roundtrip_witness: "decodeCallsign 0xA512 = ''KYGW''"
proof -
  have "call_pi False 16402 = 0xA512" by (simp add: call_pi_def Let_def)
  moreover have "call_letters 16402 = ''YGW''" unfolding call_letters_def by (simp add: char_of_def bit_0)
  ultimately show ?thesis using callsign_roundtrip [of 16402 False] by simp
qed

text \<open>
  A code of the reserved ranges that the standard does not assign makes the number negative, and the
  characters fall before the letters.
\<close>

lemma unassigned_code_garbage: "decodeCallsign 0xAF01 = ''K<0/''"
proof -
  have "base26_digits (- 3840) = ''/0<''"
    by (simp add: base26_digits.simps c_div_def c_mod_def char_of_def bit_0)
  then show ?thesis
    by (simp add: decodeCallsign_def base26ToCall_def Let_def word_le_nat_alt push_bit_of_1)
qed

end
