(* ===== verification/RdsDecoder.thy ===== *)
theory RdsDecoder
  imports RdsCallsign
begin

text \<open>
  The RDS decoder (decoder_modules/radio/src/rds.h and rds.cpp): the state of \<open>rds::Decoder\<close>, the
  block synchronisation of \<open>process\<close>, and the decoding of the groups 0, 2 and 10.

  The readings of the clock are a parameter: \<open>clk n\<close> is the n-th reading, in nanoseconds. A store
  outside a string, and the overflow of the counter \<open>skip\<close>, are \<^theory_text>\<open>None\<close>.
\<close>

section \<open>State\<close>

datatype area_coverage =
    AREA_COVERAGE_LOCAL | AREA_COVERAGE_INTERNATIONAL | AREA_COVERAGE_NATIONAL | AREA_COVERAGE_SUPRA_NATIONAL
  | AREA_COVERAGE_REGIONAL1 | AREA_COVERAGE_REGIONAL2 | AREA_COVERAGE_REGIONAL3 | AREA_COVERAGE_REGIONAL4
  | AREA_COVERAGE_REGIONAL5 | AREA_COVERAGE_REGIONAL6 | AREA_COVERAGE_REGIONAL7 | AREA_COVERAGE_REGIONAL8
  | AREA_COVERAGE_REGIONAL9 | AREA_COVERAGE_REGIONAL10 | AREA_COVERAGE_REGIONAL11 | AREA_COVERAGE_REGIONAL12
  | AREA_COVERAGE_INVALID

text \<open>The conversion of the four bits of the block.\<close>

definition area_coverage_of :: "u32 \<Rightarrow> area_coverage" where
  "area_coverage_of x =
    [AREA_COVERAGE_LOCAL, AREA_COVERAGE_INTERNATIONAL, AREA_COVERAGE_NATIONAL, AREA_COVERAGE_SUPRA_NATIONAL,
     AREA_COVERAGE_REGIONAL1, AREA_COVERAGE_REGIONAL2, AREA_COVERAGE_REGIONAL3, AREA_COVERAGE_REGIONAL4,
     AREA_COVERAGE_REGIONAL5, AREA_COVERAGE_REGIONAL6, AREA_COVERAGE_REGIONAL7, AREA_COVERAGE_REGIONAL8,
     AREA_COVERAGE_REGIONAL9, AREA_COVERAGE_REGIONAL10, AREA_COVERAGE_REGIONAL11, AREA_COVERAGE_REGIONAL12]
     ! unat (x AND 0xF)"

datatype group_version = GROUP_VER_A | GROUP_VER_B

record rds_decoder =
  shiftReg :: u32
  sync :: int
  skip :: int
  lastType :: block_type
  contGroup :: int
  blocks :: "block_type \<Rightarrow> u32"
  blockAvail :: "block_type \<Rightarrow> bool"
  clockReads :: nat
  blockALastUpdate :: int
  piCode :: u16
  countryCode :: u8
  programCoverage :: area_coverage
  programRefNumber :: u8
  callsign :: string
  blockBLastUpdate :: int
  groupType :: u8
  groupVer :: group_version
  trafficProgram :: bool
  programType :: u8
  group0LastUpdate :: int
  trafficAnnouncement :: bool
  music :: bool
  decoderIdent :: u8
  alternateFrequency :: u16
  programServiceName :: string
  group2LastUpdate :: int
  rtAB :: bool
  radioText :: string
  group10LastUpdate :: int
  ptnAB :: bool
  programTypeName :: string

text \<open>The members the class initialises; the others keep the values they happen to have.\<close>

definition rds_init :: "rds_decoder \<Rightarrow> rds_decoder" where
  "rds_init st = st\<lparr>shiftReg := 0, sync := 0, skip := 0, lastType := BLOCK_TYPE_A, contGroup := 0,
     blockALastUpdate := 0, blockBLastUpdate := 0, group0LastUpdate := 0, group2LastUpdate := 0, group10LastUpdate := 0,
     callsign := [], programServiceName := replicate 8 (CHR '' ''), rtAB := False, radioText := replicate 64 (CHR '' ''),
     ptnAB := False, programTypeName := replicate 8 (CHR '' '')\<rparr>"

section \<open>Blocks\<close>

definition decodeBlockA :: "(nat \<Rightarrow> int) \<Rightarrow> rds_decoder \<Rightarrow> rds_decoder" where
  "decodeBlockA clk st =
    (if \<not> blockAvail st BLOCK_TYPE_A then st
     else let b = blocks st BLOCK_TYPE_A; pi = ucast (drop_bit 10 b AND 0xFFFF)
       in st\<lparr>piCode := pi, countryCode := ucast (drop_bit 22 b AND 0xF),
            programCoverage := area_coverage_of (drop_bit 18 b AND 0xF),
            programRefNumber := ucast (drop_bit 10 b AND 0xFF), callsign := decodeCallsign pi,
            blockALastUpdate := clk (clockReads st), clockReads := clockReads st + 1\<rparr>)"

definition decodeBlockB :: "(nat \<Rightarrow> int) \<Rightarrow> rds_decoder \<Rightarrow> rds_decoder" where
  "decodeBlockB clk st =
    (if \<not> blockAvail st BLOCK_TYPE_B then st
     else let b = blocks st BLOCK_TYPE_B
       in st\<lparr>groupType := ucast (drop_bit 22 b AND 0xF),
            groupVer := (if drop_bit 21 b AND 1 = 0 then GROUP_VER_A else GROUP_VER_B),
            trafficProgram := (drop_bit 20 b AND 1 \<noteq> 0), programType := ucast (drop_bit 15 b AND 0x1F),
            blockBLastUpdate := clk (clockReads st), clockReads := clockReads st + 1\<rparr>)"

section \<open>Groups\<close>

text \<open>A character of the block, and its store into a string.\<close>

definition block_char :: "nat \<Rightarrow> u32 \<Rightarrow> char" where
  "block_char i b = char_of (unat (drop_bit i b AND 0xFF))"

definition put_char :: "nat \<Rightarrow> char \<Rightarrow> string \<Rightarrow> string option" where
  "put_char i c s = (if i < length s then Some (s[i := c]) else None)"

text \<open>The two characters of a block, at \<open>i\<close> and after it, when the block is available.\<close>

definition put_pair :: "rds_decoder \<Rightarrow> block_type \<Rightarrow> nat \<Rightarrow> string \<Rightarrow> string option" where
  "put_pair st type i s =
    (if blockAvail st type
     then Option.bind (put_char i (block_char 18 (blocks st type)) s) (put_char (i + 1) (block_char 10 (blocks st type)))
     else Some s)"

definition decodeGroup0 :: "(nat \<Rightarrow> int) \<Rightarrow> rds_decoder \<Rightarrow> rds_decoder option" where
  "decodeGroup0 clk st =
    (let b = blocks st BLOCK_TYPE_B;
         st = st\<lparr>trafficAnnouncement := (drop_bit 14 b AND 1 \<noteq> 0), music := (drop_bit 13 b AND 1 \<noteq> 0)\<rparr>;
         diBit = ucast (drop_bit 12 b AND 1) :: u8;
         offset = ucast (drop_bit 10 b AND 0b11) :: u8;
         diOffset = 3 - offset;
         psOffset = offset * 2;
         st = (if groupVer st = GROUP_VER_A \<and> blockAvail st BLOCK_TYPE_C
               then st\<lparr>alternateFrequency := ucast (drop_bit 10 (blocks st BLOCK_TYPE_C) AND 0xFFFF)\<rparr> else st);
         st = st\<lparr>decoderIdent := (decoderIdent st AND NOT (push_bit (unat diOffset) 1)) OR push_bit (unat diOffset) diBit\<rparr>
     in Option.bind (put_pair st BLOCK_TYPE_D (unat psOffset) (programServiceName st))
       (\<lambda>ps. Some (st\<lparr>programServiceName := ps, group0LastUpdate := clk (clockReads st), clockReads := clockReads st + 1\<rparr>)))"

definition decodeGroup2 :: "(nat \<Rightarrow> int) \<Rightarrow> rds_decoder \<Rightarrow> rds_decoder option" where
  "decodeGroup2 clk st =
    (let b = blocks st BLOCK_TYPE_B;
         nAB = (drop_bit 14 b AND 1 \<noteq> 0);
         offset = ucast (drop_bit 10 b AND 0xF) :: u8;
         st = (if nAB \<noteq> rtAB st then st\<lparr>radioText := replicate 64 (CHR '' '')\<rparr> else st);
         st = st\<lparr>rtAB := nAB\<rparr>
     in Option.bind
       (if groupVer st = GROUP_VER_A
        then let rtOffset = unat (offset * 4)
          in Option.bind (put_pair st BLOCK_TYPE_C rtOffset (radioText st)) (put_pair st BLOCK_TYPE_D (rtOffset + 2))
        else put_pair st BLOCK_TYPE_D (unat (offset * 2)) (radioText st))
       (\<lambda>rt. Some (st\<lparr>radioText := rt, group2LastUpdate := clk (clockReads st), clockReads := clockReads st + 1\<rparr>)))"

definition decodeGroup10 :: "(nat \<Rightarrow> int) \<Rightarrow> rds_decoder \<Rightarrow> rds_decoder option" where
  "decodeGroup10 clk st =
    (let b = blocks st BLOCK_TYPE_B;
         ab = (drop_bit 14 b AND 1 \<noteq> 0);
         st = (if ab \<noteq> ptnAB st then st\<lparr>programTypeName := replicate 8 (CHR '' '')\<rparr> else st);
         st = st\<lparr>ptnAB := ab\<rparr>;
         addr = (drop_bit 10 b AND 1 \<noteq> 0)
     in Option.bind
       (if addr
        then Option.bind (put_pair st BLOCK_TYPE_C 4 (programTypeName st)) (put_pair st BLOCK_TYPE_D 6)
        else Option.bind (put_pair st BLOCK_TYPE_C 0 (programTypeName st)) (put_pair st BLOCK_TYPE_D 2))
       (\<lambda>ptn. Some (st\<lparr>programTypeName := ptn, group10LastUpdate := clk (clockReads st), clockReads := clockReads st + 1\<rparr>)))"

definition decodeGroup :: "(nat \<Rightarrow> int) \<Rightarrow> rds_decoder \<Rightarrow> rds_decoder option" where
  "decodeGroup clk st =
    (if \<not> blockAvail st BLOCK_TYPE_B then Some st
     else let st = decodeBlockB clk st
       in if groupType st = 0 then decodeGroup0 clk st
          else if groupType st = 2 then decodeGroup2 clk st
          else if groupType st = 10 then decodeGroup10 clk st
          else Some st)"

section \<open>Synchronisation\<close>

text \<open>The type after the last one, modulo the number of the block types.\<close>

fun next_type :: "block_type \<Rightarrow> block_type" where
  "next_type BLOCK_TYPE_A = BLOCK_TYPE_B"
| "next_type BLOCK_TYPE_B = BLOCK_TYPE_C"
| "next_type BLOCK_TYPE_C = BLOCK_TYPE_CP"
| "next_type BLOCK_TYPE_CP = BLOCK_TYPE_D"
| "next_type BLOCK_TYPE_D = BLOCK_TYPE_A"

text \<open>The block is stored with its errors corrected, and counted when it continues a group.\<close>

definition store_block :: "block_type \<Rightarrow> rds_decoder \<Rightarrow> rds_decoder" where
  "store_block type st =
    (let (w, recovered) = correctErrors (shiftReg st) type
     in st\<lparr>blocks := (blocks st)(type := w), blockAvail := (blockAvail st)(type := recovered)\<rparr>)"

definition count_block :: "(nat \<Rightarrow> int) \<Rightarrow> block_type \<Rightarrow> rds_decoder \<Rightarrow> rds_decoder" where
  "count_block clk type st =
    (if type = BLOCK_TYPE_A then decodeBlockA clk st
     else if type = BLOCK_TYPE_B then st\<lparr>contGroup := 1\<rparr>
     else if (type = BLOCK_TYPE_C \<or> type = BLOCK_TYPE_CP) \<and> lastType st = BLOCK_TYPE_B
       then st\<lparr>contGroup := contGroup st + 1\<rparr>
     else if type = BLOCK_TYPE_D \<and> (lastType st = BLOCK_TYPE_C \<or> lastType st = BLOCK_TYPE_CP)
       then st\<lparr>contGroup := contGroup st + 1\<rparr>
     else (if contGroup st = 1 then decodeBlockB clk st else st)\<lparr>contGroup := 0\<rparr>)"

definition take_block :: "(nat \<Rightarrow> int) \<Rightarrow> block_type \<Rightarrow> rds_decoder \<Rightarrow> rds_decoder option" where
  "take_block clk type st =
    (let st = count_block clk type (store_block type st)
     in Option.bind
       (if contGroup st \<ge> 3 then decodeGroup clk (st\<lparr>contGroup := 0\<rparr>) else Some st)
       (\<lambda>st. Some (st\<lparr>lastType := type, skip := int BLOCK_LEN\<rparr>)))"

text \<open>The body of \<open>process\<close> after the bits that are skipped.\<close>

definition sync_step :: "(nat \<Rightarrow> int) \<Rightarrow> rds_decoder \<Rightarrow> rds_decoder option" where
  "sync_step clk st =
    (let known = map_of SYNDROMES (calcSyndrome (shiftReg st));
         st = st\<lparr>sync := max 0 (min 4 (if known \<noteq> None then sync st + 1 else sync st - 1))\<rparr>
     in if sync st = 0 then Some st
        else take_block clk (case known of Some type \<Rightarrow> type | None \<Rightarrow> next_type (lastType st)) st)"

definition process_symbol :: "(nat \<Rightarrow> int) \<Rightarrow> u8 \<Rightarrow> rds_decoder \<Rightarrow> rds_decoder option" where
  "process_symbol clk symbol st =
    (let st = st\<lparr>shiftReg := (push_bit 1 (shiftReg st) AND 0x3FFFFFF) OR (ucast symbol AND 1)\<rparr>
     in if skip st = - 2147483648 then None
        else let st = st\<lparr>skip := skip st - 1\<rparr>
          in if skip st > 0 then Some st else sync_step clk st)"

fun process :: "(nat \<Rightarrow> int) \<Rightarrow> u8 list \<Rightarrow> rds_decoder \<Rightarrow> rds_decoder option" where
  "process clk [] st = Some st"
| "process clk (symbol # symbols) st = Option.bind (process_symbol clk symbol st) (process clk symbols)"

section \<open>What the readers see\<close>

text \<open>The timeouts: milliseconds, rounded towards zero.\<close>

definition recent :: "int \<Rightarrow> int \<Rightarrow> bool" where
  "recent now lastUpdate = (c_div (now - lastUpdate) 1000000 < 5000)"

definition blockAValid :: "int \<Rightarrow> rds_decoder \<Rightarrow> bool" where "blockAValid now st = recent now (blockALastUpdate st)"
definition blockBValid :: "int \<Rightarrow> rds_decoder \<Rightarrow> bool" where "blockBValid now st = recent now (blockBLastUpdate st)"
definition group0Valid :: "int \<Rightarrow> rds_decoder \<Rightarrow> bool" where "group0Valid now st = recent now (group0LastUpdate st)"
definition group2Valid :: "int \<Rightarrow> rds_decoder \<Rightarrow> bool" where "group2Valid now st = recent now (group2LastUpdate st)"
definition group10Valid :: "int \<Rightarrow> rds_decoder \<Rightarrow> bool" where "group10Valid now st = recent now (group10LastUpdate st)"

text \<open>The names the display looks up by the number of the coverage area and of the program type.\<close>

definition AREA_COVERAGE_TO_STR :: "string list" where
  "AREA_COVERAGE_TO_STR =
    [''Local'', ''International'', ''National'', ''Supra-National'', ''Regional 1'',
     ''Regional 2'', ''Regional 3'', ''Regional 4'', ''Regional 5'', ''Regional 6'',
     ''Regional 7'', ''Regional 8'', ''Regional 9'', ''Regional 10'', ''Regional 11'',
     ''Regional 12'']"

definition PROGRAM_TYPE_EU_TO_STR :: "string list" where
  "PROGRAM_TYPE_EU_TO_STR =
    [''None'', ''News'', ''Current Affairs'', ''Information'', ''Sports'',
     ''Education'', ''Drama'', ''Culture'', ''Science'', ''Varied'',
     ''Pop Music'', ''Rock Music'', ''Easy Listening Music'', ''Light Classical'', ''Serious Classical'',
     ''Other Music'', ''Weather'', ''Finance'', ''Children Program'', ''Social Affairs'',
     ''Religion'', ''Phone-in'', ''Travel'', ''Leisure'', ''Jazz Music'',
     ''Country Music'', ''National Music'', ''Oldies Music'', ''Folk Music'', ''Documentary'',
     ''Alarm Test'', ''Alarm'']"

definition PROGRAM_TYPE_US_TO_STR :: "string list" where
  "PROGRAM_TYPE_US_TO_STR =
    [''None'', ''News'', ''Information'', ''Sports'', ''Talk'',
     ''Rock'', ''Classic Rock'', ''Adult Hits'', ''Soft Rock'', ''Top 40'',
     ''Country'', ''Oldies'', ''Soft'', ''Nostalgia'', ''Jazz'',
     ''Classical'', ''Rythm and Blues'', ''Soft Rythm and Blues'', ''Foreign Language'', ''Religious Music'',
     ''Religious Talk'', ''Personality'', ''Public'', ''College'', ''Unassigned'',
     ''Unassigned'', ''Unassigned'', ''Unassigned'', ''Unassigned'', ''Weather'',
     ''Emergency Test'', ''Emergency'']"

section \<open>The operations without the partiality\<close>

definition set_pair :: "rds_decoder \<Rightarrow> block_type \<Rightarrow> nat \<Rightarrow> string \<Rightarrow> string" where
  "set_pair st type i s =
    (if blockAvail st type then s[i := block_char 18 (blocks st type), i + 1 := block_char 10 (blocks st type)] else s)"

lemma length_set_pair [len_simps, simp]: "length (set_pair st type i s) = length s"
  by (simp add: set_pair_def)

lemma put_pair_eq: "i + 1 < length s \<Longrightarrow> put_pair st type i s = Some (set_pair st type i s)"
  by (simp add: put_pair_def put_char_def set_pair_def)

lemma put_pair_cong:
  "blockAvail st = blockAvail st' \<Longrightarrow> blocks st = blocks st' \<Longrightarrow> put_pair st type i s = put_pair st' type i s"
  by (simp add: put_pair_def)

lemma unat_field: "unat (ucast (x AND y) :: u8) = unat (x AND y)" if "unat y < 256" for x y :: u32
proof -
  have "unat (x AND y) \<le> unat y" by (metis word_and_le1 word_le_nat_alt)
  with that show ?thesis by (simp add: unsigned_ucast_eq take_bit_nat_eq_self)
qed

lemma unat_field_le: "unat (x AND y) \<le> unat y" for x y :: u32
  by (metis word_and_le1 word_le_nat_alt)

lemma unat_times_2: "unat k < 64 \<Longrightarrow> unat (k * 2) = unat k * 2" for k :: u8
  by (simp add: unat_word_ariths)

lemma unat_times_4: "unat k < 64 \<Longrightarrow> unat (k * 4) = unat k * 4" for k :: u8
  by (simp add: unat_word_ariths)

text \<open>The address of a segment: two bits of a group 0, four of a group 2.\<close>

definition ps_segment :: "u32 \<Rightarrow> nat" where "ps_segment b = unat (drop_bit 10 b AND 0b11)"
definition rt_segment :: "u32 \<Rightarrow> nat" where "rt_segment b = unat (drop_bit 10 b AND 0xF)"

lemma ps_segment_le: "ps_segment b \<le> 3"
  unfolding ps_segment_def using unat_field_le [of "drop_bit 10 b" "0b11"] by simp

lemma rt_segment_le: "rt_segment b \<le> 15"
  unfolding rt_segment_def using unat_field_le [of "drop_bit 10 b" "0xF"] by simp

lemma ps_offset: "unat ((ucast (drop_bit 10 b AND 0b11) :: u8) * 2) = 2 * ps_segment b"
  using ps_segment_le [of b] unfolding ps_segment_def by (subst unat_times_2) (simp_all add: unat_field)

lemma rt_offset:
  "unat ((ucast (drop_bit 10 b AND 0xF) :: u8) * 4) = 4 * rt_segment b"
  "unat ((ucast (drop_bit 10 b AND 0xF) :: u8) * 2) = 2 * rt_segment b"
  using rt_segment_le [of b] unfolding rt_segment_def
  by (subst unat_times_4 unat_times_2; simp add: unat_field)+

definition di_position :: "u32 \<Rightarrow> nat" where
  "di_position b = unat (3 - ucast (drop_bit 10 b AND 0b11) :: u8)"

lemma decodeGroup0_eq:
  assumes "length (programServiceName st) = 8"
  shows "decodeGroup0 clk st =
    (let b = blocks st BLOCK_TYPE_B
     in Some (st\<lparr>trafficAnnouncement := (drop_bit 14 b AND 1 \<noteq> 0), music := (drop_bit 13 b AND 1 \<noteq> 0),
          decoderIdent := (decoderIdent st AND NOT (push_bit (di_position b) 1))
            OR push_bit (di_position b) (ucast (drop_bit 12 b AND 1)),
          alternateFrequency :=
            (if groupVer st = GROUP_VER_A \<and> blockAvail st BLOCK_TYPE_C
             then ucast (drop_bit 10 (blocks st BLOCK_TYPE_C) AND 0xFFFF) else alternateFrequency st),
          programServiceName := set_pair st BLOCK_TYPE_D (2 * ps_segment b) (programServiceName st),
          group0LastUpdate := clk (clockReads st), clockReads := clockReads st + 1\<rparr>))"
  using assms ps_segment_le [of "blocks st BLOCK_TYPE_B"]
  by (auto simp: decodeGroup0_def Let_def ps_offset put_pair_eq set_pair_def di_position_def)

lemma decodeGroup2_eq:
  assumes "length (radioText st) = 64"
  shows "decodeGroup2 clk st =
    (let b = blocks st BLOCK_TYPE_B;
         rt = (if (drop_bit 14 b AND 1 \<noteq> 0) \<noteq> rtAB st then replicate 64 (CHR '' '') else radioText st)
     in Some (st\<lparr>rtAB := (drop_bit 14 b AND 1 \<noteq> 0),
          radioText := (if groupVer st = GROUP_VER_A
            then set_pair st BLOCK_TYPE_D (4 * rt_segment b + 2) (set_pair st BLOCK_TYPE_C (4 * rt_segment b) rt)
            else set_pair st BLOCK_TYPE_D (2 * rt_segment b) rt),
          group2LastUpdate := clk (clockReads st), clockReads := clockReads st + 1\<rparr>))"
proof -
  let ?b = "blocks st BLOCK_TYPE_B"
  define st1 where "st1 = (if (drop_bit 14 ?b AND 1 \<noteq> 0) \<noteq> rtAB st then st\<lparr>radioText := replicate 64 (CHR '' '')\<rparr> else st)
    \<lparr>rtAB := (drop_bit 14 ?b AND 1 \<noteq> 0)\<rparr>"
  have st1: "blocks st1 = blocks st" "blockAvail st1 = blockAvail st" "groupVer st1 = groupVer st" "length (radioText st1) = 64"
    using assms by (auto simp: st1_def)
  have p: "put_pair st1 type i s = Some (set_pair st type i s)" if "i + 1 < length s" for type i s
    using put_pair_eq [OF that, of st1 type] by (simp add: set_pair_def st1)
  have "4 * rt_segment ?b + 3 < 64" "2 * rt_segment ?b + 1 < 64" using rt_segment_le [of ?b] by auto
  then have "decodeGroup2 clk st =
    Some (st1\<lparr>radioText := (if groupVer st = GROUP_VER_A
        then set_pair st BLOCK_TYPE_D (4 * rt_segment ?b + 2) (set_pair st BLOCK_TYPE_C (4 * rt_segment ?b) (radioText st1))
        else set_pair st BLOCK_TYPE_D (2 * rt_segment ?b) (radioText st1)),
      group2LastUpdate := clk (clockReads st1), clockReads := clockReads st1 + 1\<rparr>)"
    unfolding decodeGroup2_def Let_def st1_def [symmetric] rt_offset by (simp add: p st1)
  then show ?thesis by (auto simp: st1_def Let_def)
qed

lemma decodeGroup10_eq:
  assumes "length (programTypeName st) = 8"
  shows "decodeGroup10 clk st =
    (let b = blocks st BLOCK_TYPE_B;
         ptn = (if (drop_bit 14 b AND 1 \<noteq> 0) \<noteq> ptnAB st then replicate 8 (CHR '' '') else programTypeName st);
         i = (if drop_bit 10 b AND 1 \<noteq> 0 then 4 else 0)
     in Some (st\<lparr>ptnAB := (drop_bit 14 b AND 1 \<noteq> 0),
          programTypeName := set_pair st BLOCK_TYPE_D (i + 2) (set_pair st BLOCK_TYPE_C i ptn),
          group10LastUpdate := clk (clockReads st), clockReads := clockReads st + 1\<rparr>))"
proof -
  let ?b = "blocks st BLOCK_TYPE_B"
  define st1 where "st1 = (if (drop_bit 14 ?b AND 1 \<noteq> 0) \<noteq> ptnAB st then st\<lparr>programTypeName := replicate 8 (CHR '' '')\<rparr> else st)
    \<lparr>ptnAB := (drop_bit 14 ?b AND 1 \<noteq> 0)\<rparr>"
  have st1: "blocks st1 = blocks st" "blockAvail st1 = blockAvail st" "length (programTypeName st1) = 8"
    using assms by (auto simp: st1_def)
  have p: "put_pair st1 type i s = Some (set_pair st type i s)" if "i + 1 < length s" for type i s
    using put_pair_eq [OF that, of st1 type] by (simp add: set_pair_def st1)
  have "decodeGroup10 clk st =
    Some (st1\<lparr>programTypeName := (let i = (if drop_bit 10 ?b AND 1 \<noteq> 0 then 4 else 0)
        in set_pair st BLOCK_TYPE_D (i + 2) (set_pair st BLOCK_TYPE_C i (programTypeName st1))),
      group10LastUpdate := clk (clockReads st1), clockReads := clockReads st1 + 1\<rparr>)"
    unfolding decodeGroup10_def Let_def st1_def [symmetric] by (simp add: p st1 numeral_2_eq_2)
  then show ?thesis by (auto simp: st1_def Let_def)
qed

section \<open>The state stays well formed\<close>

text \<open>
  \<open>contGroup\<close> counts the blocks of the group that have followed each other: one after a block B, two after
  the block C that follows it.
\<close>

fun cont_ok :: "block_type \<Rightarrow> int \<Rightarrow> bool" where
  "cont_ok BLOCK_TYPE_B n = (n = 1)"
| "cont_ok BLOCK_TYPE_C n = (n = 0 \<or> n = 2)"
| "cont_ok BLOCK_TYPE_CP n = (n = 0 \<or> n = 2)"
| "cont_ok _ n = (0 \<le> n \<and> n \<le> 2)"

definition texts_ok :: "rds_decoder \<Rightarrow> bool" where
  "texts_ok st \<longleftrightarrow> length (programServiceName st) = 8 \<and> length (radioText st) = 64 \<and> length (programTypeName st) = 8"

definition rds_ok :: "rds_decoder \<Rightarrow> bool" where
  "rds_ok st \<longleftrightarrow> 0 \<le> sync st \<and> sync st \<le> 4 \<and> skip st \<le> 26 \<and> cont_ok (lastType st) (contGroup st) \<and> texts_ok st"

text \<open>What an operation on the decoded data leaves alone.\<close>

definition same_sync :: "rds_decoder \<Rightarrow> rds_decoder \<Rightarrow> bool" where
  "same_sync st st' \<longleftrightarrow> shiftReg st' = shiftReg st \<and> sync st' = sync st \<and> skip st' = skip st \<and>
     lastType st' = lastType st \<and> contGroup st' = contGroup st \<and> blocks st' = blocks st \<and> blockAvail st' = blockAvail st"

lemma decodeBlockA_ok: "texts_ok (decodeBlockA clk st) = texts_ok st" "same_sync st (decodeBlockA clk st)"
  by (simp_all add: decodeBlockA_def texts_ok_def same_sync_def Let_def)

lemma decodeBlockB_ok: "texts_ok (decodeBlockB clk st) = texts_ok st" "same_sync st (decodeBlockB clk st)"
  by (simp_all add: decodeBlockB_def texts_ok_def same_sync_def Let_def)

lemma decodeGroup_ok:
  assumes "texts_ok st"
  obtains st' where "decodeGroup clk st = Some st'" "texts_ok st'" "same_sync st st'"
proof (cases "blockAvail st BLOCK_TYPE_B")
  case False
  with that assms show ?thesis by (simp add: decodeGroup_def same_sync_def)
next
  case True
  let ?st = "decodeBlockB clk st"
  have ok: "texts_ok ?st" "same_sync st ?st" using assms by (simp_all add: decodeBlockB_ok)
  have g: "\<exists>st'. g clk ?st = Some st' \<and> texts_ok st' \<and> same_sync ?st st'"
    if "g = decodeGroup0 \<or> g = decodeGroup2 \<or> g = decodeGroup10" for g
    using that ok(1) by (auto simp: decodeGroup0_eq decodeGroup2_eq decodeGroup10_eq texts_ok_def same_sync_def Let_def)
  have "\<exists>st'. decodeGroup clk st = Some st' \<and> texts_ok st' \<and> same_sync ?st st'"
    using True g ok by (auto simp: decodeGroup_def Let_def same_sync_def)
  with that ok(2) show ?thesis by (auto simp: same_sync_def)
qed

lemma store_block_ok:
  "texts_ok (store_block type st) = texts_ok st" "sync (store_block type st) = sync st" "skip (store_block type st) = skip st"
  "lastType (store_block type st) = lastType st" "contGroup (store_block type st) = contGroup st"
  by (simp_all add: store_block_def texts_ok_def split: prod.splits)

lemma count_block_ok:
  "texts_ok (count_block clk type st) = texts_ok st" "sync (count_block clk type st) = sync st"
  "lastType (count_block clk type st) = lastType st" "skip (count_block clk type st) = skip st"
  using decodeBlockA_ok [where clk = clk and st = st] decodeBlockB_ok [where clk = clk and st = st]
  by (simp_all add: count_block_def texts_ok_def same_sync_def)

lemma count_block_cont:
  "cont_ok (lastType st) (contGroup st) \<Longrightarrow>
    cont_ok type (contGroup (count_block clk type st)) \<or> contGroup (count_block clk type st) = 3"
  using decodeBlockA_ok(2) [of st clk]
  by (cases type; cases "lastType st") (auto simp: count_block_def same_sync_def)

lemma cont_ok_0: "type \<noteq> BLOCK_TYPE_B \<Longrightarrow> cont_ok type 0"
  by (cases type) auto

lemma cont_ok_le: "cont_ok type n \<Longrightarrow> n \<le> 2"
  by (cases type) auto

lemma count_block_B: "contGroup (count_block clk BLOCK_TYPE_B st) = 1"
  by (simp add: count_block_def)

lemma take_block_ok:
  assumes "rds_ok st"
  obtains st' where "take_block clk type st = Some st'" "rds_ok st'" "skip st' = 26" "lastType st' = type"
    "sync st' = sync st"
proof -
  let ?st = "count_block clk type (store_block type st)"
  have ok: "texts_ok ?st" "sync ?st = sync st" "cont_ok (lastType st) (contGroup st)" "0 \<le> sync st" "sync st \<le> 4"
    using assms by (simp_all add: count_block_ok store_block_ok rds_ok_def)
  have cont: "cont_ok type (contGroup ?st) \<or> contGroup ?st = 3"
    using count_block_cont [of "store_block type st" type clk] ok(3) by (simp add: store_block_ok)
  show ?thesis
  proof (cases "contGroup ?st \<ge> 3")
    case False
    with that ok cont show ?thesis
      by (simp add: take_block_def Let_def rds_ok_def BLOCK_LEN_def texts_ok_def)
  next
    case True
    then have "type \<noteq> BLOCK_TYPE_B" using count_block_B [of clk] by fastforce
    moreover obtain st' where "decodeGroup clk (?st\<lparr>contGroup := 0\<rparr>) = Some st'" "texts_ok st'" "same_sync (?st\<lparr>contGroup := 0\<rparr>) st'"
      using decodeGroup_ok [of "?st\<lparr>contGroup := 0\<rparr>" clk] ok(1) by (auto simp: texts_ok_def)
    ultimately show ?thesis
      using that ok True cont_ok_0 [of type]
      by (simp add: take_block_def Let_def rds_ok_def BLOCK_LEN_def texts_ok_def same_sync_def)
  qed
qed

lemma process_symbol_ok:
  assumes "rds_ok st" "- 2147483648 < skip st"
  obtains st' where "process_symbol clk symbol st = Some st'" "rds_ok st'" "skip st - 1 \<le> skip st'"
proof -
  define st1 where "st1 = st\<lparr>shiftReg := (push_bit 1 (shiftReg st) AND 0x3FFFFFF) OR (ucast symbol AND 1), skip := skip st - 1\<rparr>"
  have ok1: "rds_ok st1" "skip st1 = skip st - 1" using assms(1) by (auto simp: st1_def rds_ok_def texts_ok_def)
  have sym: "process_symbol clk symbol st = (if skip st1 > 0 then Some st1 else sync_step clk st1)"
    using assms(2) by (simp add: process_symbol_def Let_def st1_def)
  show ?thesis
  proof (cases "skip st1 > 0")
    case True
    with that sym ok1 show ?thesis by simp
  next
    case False
    define known where "known = map_of SYNDROMES (calcSyndrome (shiftReg st1))"
    define st2 where "st2 = st1\<lparr>sync := max 0 (min 4 (if known \<noteq> None then sync st1 + 1 else sync st1 - 1))\<rparr>"
    have ok2: "rds_ok st2" "skip st2 = skip st1" using ok1 by (auto simp: st2_def rds_ok_def texts_ok_def)
    have step: "sync_step clk st1 =
      (if sync st2 = 0 then Some st2 else take_block clk (case known of Some type \<Rightarrow> type | None \<Rightarrow> next_type (lastType st2)) st2)"
      by (simp only: sync_step_def Let_def known_def [symmetric] st2_def [symmetric])
    show ?thesis
      using that False sym step ok1(2) ok2 take_block_ok [OF ok2(1), of clk "case known of Some type \<Rightarrow> type | None \<Rightarrow> next_type (lastType st2)"]
      by (cases "sync st2 = 0") (simp, smt (verit))
  qed
qed

lemma process_ok:
  assumes "rds_ok st" "- 2147483648 \<le> skip st - int (length symbols)"
  obtains st' where "process clk symbols st = Some st'" "rds_ok st'" "skip st - int (length symbols) \<le> skip st'"
  using assms
proof (induction symbols arbitrary: st thesis)
  case (Cons s symbols)
  from Cons.prems(3) have gt: "- 2147483648 < skip st" by simp
  obtain st1 where st1: "process_symbol clk s st = Some st1" "rds_ok st1" "skip st - 1 \<le> skip st1"
    using process_symbol_ok [OF Cons.prems(2) gt] .
  from st1(3) Cons.prems(3) have "- 2147483648 \<le> skip st1 - int (length symbols)" by simp
  from Cons.IH [OF _ st1(2) this] st1 Cons.prems(1) show ?case by force
qed simp

lemma rds_init_ok: "rds_ok (rds_init st)"
  by (simp add: rds_ok_def rds_init_def texts_ok_def)

text \<open>The program type of every block has a name in both tables.\<close>

lemma program_type_has_name:
  "blockAvail st BLOCK_TYPE_B \<Longrightarrow>
    unat (programType (decodeBlockB clk st)) < length PROGRAM_TYPE_EU_TO_STR \<and>
    unat (programType (decodeBlockB clk st)) < length PROGRAM_TYPE_US_TO_STR"
  using unat_field_le [of "drop_bit 15 (blocks st BLOCK_TYPE_B)" "0x1F"]
  by (simp add: decodeBlockB_def Let_def unat_field PROGRAM_TYPE_EU_TO_STR_def PROGRAM_TYPE_US_TO_STR_def)

section \<open>What the decoder promises for any input\<close>

text \<open>
  C26. From the state of a new decoder, whatever the members it does not initialise hold, any symbols are
  processed without a store outside a string and without an overflow, and the state stays well formed:
  the synchronisation between 0 and 4, the texts at their lengths. The bound is that of the counter
  \<open>skip\<close>, which goes down by one for each bit while no block is found.
\<close>

theorem rds_decoder_never_fails:
  assumes "length symbols \<le> 2147483648"
  shows "\<exists>st'. process clk symbols (rds_init st) = Some st' \<and> rds_ok st'"
proof -
  have "- 2147483648 \<le> skip (rds_init st) - int (length symbols)"
    using assms by (simp add: rds_init_def)
  then show ?thesis using process_ok [OF rds_init_ok, of st symbols clk] by metis
qed

text \<open>A burst of ones, from a decoder whose other members hold nothing in particular.\<close>

theorem rds_decoder_never_fails_witness:
  "\<exists>st'. process (\<lambda>n. int n) (replicate 7 1) (rds_init undefined) = Some st' \<and> rds_ok st'"
  by (rule rds_decoder_never_fails) simp

end
