(* ===== verification/RdsGroups.thy ===== *)
theory RdsGroups
  imports RdsDecoder
begin

text \<open>
  The composition of the RDS decoder: the bits of a group, sent block by block with the checkwords and
  offset words of the standard, and what the decoder knows after them.
\<close>

section \<open>Bits and blocks\<close>

definition word_bits :: "u32 \<Rightarrow> u8 list" where
  "word_bits w = map (\<lambda>i. if bit w (25 - i) then 1 else 0) [0..<26]"

definition shift_in :: "u8 list \<Rightarrow> u32 \<Rightarrow> u32" where
  "shift_in symbols r = foldl (\<lambda>r s. (push_bit 1 r AND 0x3FFFFFF) OR (ucast s AND 1)) r symbols"

lemma process_append: "process clk (xs @ ys) st = Option.bind (process clk xs st) (process clk ys)"
  by (induction xs arbitrary: st) (auto split: bind_splits)

lemma process_one: "process clk [s] st = process_symbol clk s st"
  by (cases "process_symbol clk s st") simp_all

lemma process_skipped:
  "int (length symbols) < skip st \<Longrightarrow>
    process clk symbols st = Some (st\<lparr>shiftReg := shift_in symbols (shiftReg st), skip := skip st - int (length symbols)\<rparr>)"
proof (induction symbols arbitrary: st)
  case (Cons s symbols)
  then show ?case by (simp add: process_symbol_def Let_def shift_in_def)
qed (simp add: shift_in_def)

lemma process_block:
  assumes "skip st = int (length symbols)" "symbols \<noteq> []"
  shows "process clk symbols st = sync_step clk (st\<lparr>shiftReg := shift_in symbols (shiftReg st), skip := 0\<rparr>)"
proof -
  obtain xs x where s: "symbols = xs @ [x]" using assms(2) by (metis append_butlast_last_id)
  have "process clk xs st = Some (st\<lparr>shiftReg := shift_in xs (shiftReg st), skip := 1\<rparr>)"
    using process_skipped [of xs st clk] assms(1) by (simp add: s)
  then show ?thesis
    by (simp add: s process_append process_one process_symbol_def Let_def shift_in_def del: process.simps)
qed

lemma bit_0x3FFFFFF: "bit (0x3FFFFFF :: u32) n \<longleftrightarrow> n < 26"
proof -
  have *: "(0x3FFFFFF :: u32) = mask 26" by (simp add: mask_eq_exp_minus_1)
  show ?thesis unfolding * bit_mask_iff by auto
qed

lemma bit_shift_in:
  "n < 26 \<Longrightarrow> bit (shift_in symbols r) n =
    (if n < length symbols then bit (symbols ! (length symbols - 1 - n)) 0 else bit r (n - length symbols))"
proof (induction symbols arbitrary: n rule: rev_induct)
  case Nil
  then show ?case by (simp add: shift_in_def)
next
  case (snoc s symbols)
  have "bit (shift_in (symbols @ [s]) r) n = (if n = 0 then bit s 0 else bit (shift_in symbols r) (n - 1))"
    using snoc.prems
    by (simp only: shift_in_def foldl_append foldl.simps bit_or_iff bit_and_iff bit_push_bit_iff bit_0x3FFFFFF bit_unsigned_iff bit_1_iff)
      auto
  with snoc show ?case by (auto simp: nth_append)
qed

lemma bit_shift_in_high: "symbols \<noteq> [] \<Longrightarrow> 26 \<le> n \<Longrightarrow> \<not> bit (shift_in symbols r) n"
proof (induction symbols rule: rev_induct)
  case (snoc s symbols)
  then show ?case
    by (simp only: shift_in_def foldl_append foldl.simps bit_or_iff bit_and_iff bit_push_bit_iff bit_0x3FFFFFF bit_unsigned_iff bit_1_iff)
      auto
qed simp

lemma shift_in_word_bits:
  assumes "\<And>n. 26 \<le> n \<Longrightarrow> \<not> bit w n"
  shows "shift_in (word_bits w) r = w"
proof (rule bit_word_eqI)
  fix n
  have "word_bits w \<noteq> []" by (simp add: word_bits_def)
  then show "bit (shift_in (word_bits w) r) n = bit w n"
    using bit_shift_in [of n "word_bits w" r] bit_shift_in_high [of "word_bits w" n r] assms [of n]
    by (cases "n < 26") (auto simp: word_bits_def)
qed

text \<open>The words of the standard.\<close>

definition codeword :: "u16 \<Rightarrow> u32" where
  "codeword d = push_bit 10 (ucast d) XOR ucast (rds_checkword d)"

lemma codeword_data: "10 \<le> i \<Longrightarrow> drop_bit i (codeword d) = ucast (drop_bit (i - 10) d)"
proof (rule bit_word_eqI)
  fix n
  assume "10 \<le> i"
  moreover have "\<not> bit (rds_checkword d) (i + n)"
    using \<open>10 \<le> i\<close> by (intro checkword_high) auto
  ultimately show "bit (drop_bit i (codeword d)) n = bit (ucast (drop_bit (i - 10) d) :: u32) n"
    by (auto simp: codeword_def bit_drop_bit_eq bit_xor_iff bit_push_bit_iff bit_unsigned_iff add.commute dest: bit_imp_le_length)
qed

lemma rds_word_codeword: "rds_word type d = codeword d XOR ucast (OFFSETS type)"
  by (simp add: rds_word_def codeword_def ucast_xor xor.assoc)

lemma OFFSETS_high: "10 \<le> n \<Longrightarrow> \<not> bit (OFFSETS type) n"
proof -
  assume "10 \<le> n"
  moreover have "OFFSETS type = OFFSETS type AND 0b1111111111" by (cases type) simp_all
  ultimately show ?thesis by (metis bit_and_iff bit_0x3FF not_le)
qed

lemma rds_word_high: "26 \<le> n \<Longrightarrow> \<not> bit (rds_word type d) n"
proof -
  assume n: "26 \<le> n"
  have "\<not> bit (drop_bit 26 (codeword d)) (n - 26)"
    using codeword_data [of 26 d] by (simp add: bit_unsigned_iff bit_drop_bit_eq)
  then have "\<not> bit (codeword d) n" using n by (simp only: bit_drop_bit_eq comp_apply) simp
  with n show ?thesis
    using OFFSETS_high [of n type] by (simp add: rds_word_codeword bit_xor_iff bit_unsigned_iff)
qed

lemma correct_word: "correctErrors (rds_word type d) type = (codeword d, True)"
  using correct_burst [of 0 0 type d] by (simp add: rds_word_codeword)

section \<open>The fields of a message\<close>

lemma and_masks:
  "x AND 0b11 = take_bit 2 x" "x AND 0xF = take_bit 4 x" "x AND 0x1F = take_bit 5 x" "x AND 0xFF = take_bit 8 x"
  "x AND 0xFFFF = take_bit 16 x" for x :: "'a::len word"
  by (simp_all add: take_bit_eq_mask mask_eq_exp_minus_1)

lemma flag_data: "10 \<le> i \<Longrightarrow> drop_bit i (codeword d) AND 1 = 0 \<longleftrightarrow> \<not> bit d (i - 10)"
  using times_bit [of 1 "drop_bit i (codeword d)"]
  by (simp add: codeword_data bit_drop_bit_eq bit_unsigned_iff split: if_splits)

lemma pi_data: "ucast (drop_bit 10 (codeword d) AND 0xFFFF) = d"
  unfolding and_masks by (simp add: codeword_data) (rule bit_word_eqI, auto simp: bit_simps)

lemma type_data: "ucast (drop_bit 22 (codeword b) AND 0xF) = (ucast (drop_bit 12 b) :: u8)"
  unfolding and_masks by (simp add: codeword_data) (rule bit_word_eqI, auto simp: bit_simps dest: bit_imp_le_length)

lemma pty_data: "ucast (drop_bit 15 (codeword b) AND 0x1F) = (ucast (drop_bit 5 b AND 0x1F) :: u8)"
  unfolding and_masks by (simp add: codeword_data) (rule bit_word_eqI, auto simp: bit_simps)

lemma coverage_data: "drop_bit 18 (codeword d) AND 0xF = ucast (drop_bit 8 d AND 0xF)"
  unfolding and_masks by (simp add: codeword_data) (rule bit_word_eqI, auto simp: bit_simps)

lemma ref_data: "ucast (drop_bit 10 (codeword d) AND 0xFF) = (ucast d :: u8)"
  unfolding and_masks by (simp add: codeword_data) (rule bit_word_eqI, auto simp: bit_simps)

lemma country_data: "ucast (drop_bit 22 (codeword d) AND 0xF) = (ucast (drop_bit 12 d) :: u8)"
  by (rule type_data)

definition hi_char :: "u16 \<Rightarrow> char" where "hi_char d = char_of (unat (drop_bit 8 d))"
definition lo_char :: "u16 \<Rightarrow> char" where "lo_char d = char_of (unat (d AND 0xFF))"

lemma char_data: "block_char 18 (codeword d) = hi_char d" "block_char 10 (codeword d) = lo_char d"
proof -
  have "drop_bit 18 (codeword d) AND 0xFF = ucast (drop_bit 8 d)"
    unfolding and_masks by (simp add: codeword_data) (rule bit_word_eqI, auto simp: bit_simps dest: bit_imp_le_length)
  moreover have "drop_bit 10 (codeword d) AND 0xFF = ucast (d AND 0xFF)"
    unfolding and_masks by (simp add: codeword_data) (rule bit_word_eqI, auto simp: bit_simps)
  ultimately show "block_char 18 (codeword d) = hi_char d" "block_char 10 (codeword d) = lo_char d"
    by (simp_all add: block_char_def hi_char_def lo_char_def unsigned_ucast_eq take_bit_nat_eq_self unat_u16_less)
qed

lemma segment_data:
  "ps_segment (codeword b) = unat (b AND 0b11)" "rt_segment (codeword b) = unat (b AND 0xF)"
proof -
  have "drop_bit 10 (codeword b) AND 0b11 = ucast (b AND 0b11)" "drop_bit 10 (codeword b) AND 0xF = ucast (b AND 0xF)"
    unfolding and_masks by (simp_all add: codeword_data) (rule bit_word_eqI, auto simp: bit_simps)+
  then show "ps_segment (codeword b) = unat (b AND 0b11)" "rt_segment (codeword b) = unat (b AND 0xF)"
    by (simp_all add: ps_segment_def rt_segment_def unsigned_ucast_eq take_bit_nat_eq_self unat_u16_less)
qed

lemma di_data:
  "di_position (codeword b) = 3 - unat (b AND 0b11)"
  "ucast (drop_bit 12 (codeword b) AND 1) = (of_bool (bit b 2) :: u8)"
proof -
  let ?k = "ucast (drop_bit 10 (codeword b) AND 0b11) :: u8"
  have k: "unat ?k = unat (b AND 0b11)"
    using segment_data(1) [of b] by (simp add: ps_segment_def unat_field)
  moreover have "unat ?k \<le> 3"
    using ps_segment_le [of "codeword b"] by (simp add: ps_segment_def unat_field)
  ultimately have "unat (3 - ?k) = 3 - unat (b AND 0b11)"
    by (subst unat_sub) (simp_all add: word_le_nat_alt)
  then show "di_position (codeword b) = 3 - unat (b AND 0b11)" by (simp add: di_position_def)
  have "drop_bit 12 (codeword b) AND 1 = (of_bool (bit b 2))"
    using times_bit [of 1 "drop_bit 12 (codeword b)"] by (simp add: codeword_data bit_drop_bit_eq bit_unsigned_iff)
  then show "ucast (drop_bit 12 (codeword b) AND 1) = (of_bool (bit b 2) :: u8)" by simp
qed

lemmas message_data = flag_data pi_data type_data pty_data coverage_data ref_data segment_data di_data char_data

section \<open>What a receiver knows\<close>

text \<open>
  The contract: the information about the program, and how a group, four words of sixteen bits, updates it.
\<close>

record program =
  p_pi :: u16
  p_country :: u8
  p_coverage :: area_coverage
  p_reference :: u8
  p_call :: string
  p_type :: u8
  p_version :: group_version
  p_tp :: bool
  p_pty :: u8
  p_ta :: bool
  p_music :: bool
  p_di :: u8
  p_af :: u16
  p_name :: string
  p_rt_ab :: bool
  p_text :: string
  p_ptn_ab :: bool
  p_ptn :: string

definition set_chars :: "nat \<Rightarrow> u16 \<Rightarrow> string \<Rightarrow> string" where
  "set_chars i w s = s[i := hi_char w, i + 1 := lo_char w]"

definition pi_info :: "u16 \<Rightarrow> program \<Rightarrow> program" where
  "pi_info pi p = p\<lparr>p_pi := pi, p_country := ucast (drop_bit 12 pi),
     p_coverage := area_coverage_of (ucast (drop_bit 8 pi AND 0xF)), p_reference := ucast pi, p_call := decodeCallsign pi\<rparr>"

definition group_info :: "u16 \<Rightarrow> program \<Rightarrow> program" where
  "group_info b p = p\<lparr>p_type := ucast (drop_bit 12 b), p_version := (if bit b 11 then GROUP_VER_B else GROUP_VER_A),
     p_tp := bit b 10, p_pty := ucast (drop_bit 5 b AND 0x1F)\<rparr>"

definition tuning_info :: "u16 \<Rightarrow> u16 \<Rightarrow> u16 \<Rightarrow> program \<Rightarrow> program" where
  "tuning_info b c d p =
    (let seg = unat (b AND 0b11)
     in p\<lparr>p_ta := bit b 4, p_music := bit b 3,
          p_di := (p_di p AND NOT (push_bit (3 - seg) 1)) OR push_bit (3 - seg) (of_bool (bit b 2)),
          p_af := (if bit b 11 then p_af p else c), p_name := set_chars (2 * seg) d (p_name p)\<rparr>)"

definition radio_text :: "u16 \<Rightarrow> u16 \<Rightarrow> u16 \<Rightarrow> program \<Rightarrow> program" where
  "radio_text b c d p =
    (let seg = unat (b AND 0xF); text = (if bit b 4 \<noteq> p_rt_ab p then replicate 64 (CHR '' '') else p_text p)
     in p\<lparr>p_rt_ab := bit b 4,
          p_text := (if bit b 11 then set_chars (2 * seg) d text else set_chars (4 * seg + 2) d (set_chars (4 * seg) c text))\<rparr>)"

definition type_name :: "u16 \<Rightarrow> u16 \<Rightarrow> u16 \<Rightarrow> program \<Rightarrow> program" where
  "type_name b c d p =
    (let i = (if bit b 0 then 4 else 0); name = (if bit b 4 \<noteq> p_ptn_ab p then replicate 8 (CHR '' '') else p_ptn p)
     in p\<lparr>p_ptn_ab := bit b 4, p_ptn := set_chars (i + 2) d (set_chars i c name)\<rparr>)"

type_synonym group = "u16 \<times> u16 \<times> u16 \<times> u16"

definition receive_data :: "u16 \<Rightarrow> u16 \<Rightarrow> u16 \<Rightarrow> program \<Rightarrow> program" where
  "receive_data b c d p =
    (let p = group_info b p
     in if p_type p = 0 then tuning_info b c d p
        else if p_type p = 2 then radio_text b c d p
        else if p_type p = 10 then type_name b c d p
        else p)"

definition receive_group :: "group \<Rightarrow> program \<Rightarrow> program" where
  "receive_group g p = (case g of (pi, b, c, d) \<Rightarrow> receive_data b c d (pi_info pi p))"

text \<open>The bits of a group; the third block of a version B group has another offset word.\<close>

definition group_bits :: "group \<Rightarrow> u8 list" where
  "group_bits g =
    (case g of (pi, b, c, d) \<Rightarrow>
      word_bits (rds_word BLOCK_TYPE_A pi) @ word_bits (rds_word BLOCK_TYPE_B b) @
      word_bits (rds_word (if bit b 11 then BLOCK_TYPE_CP else BLOCK_TYPE_C) c) @ word_bits (rds_word BLOCK_TYPE_D d))"

text \<open>What the decoder knows.\<close>

definition program_of :: "rds_decoder \<Rightarrow> program" where
  "program_of st = \<lparr>p_pi = piCode st, p_country = countryCode st, p_coverage = programCoverage st,
     p_reference = programRefNumber st, p_call = callsign st, p_type = groupType st, p_version = groupVer st,
     p_tp = trafficProgram st, p_pty = programType st, p_ta = trafficAnnouncement st, p_music = music st,
     p_di = decoderIdent st, p_af = alternateFrequency st, p_name = programServiceName st, p_rt_ab = rtAB st,
     p_text = radioText st, p_ptn_ab = ptnAB st, p_ptn = programTypeName st\<rparr>"

section \<open>One block after the other\<close>

definition stored :: "block_type \<Rightarrow> u16 \<Rightarrow> rds_decoder \<Rightarrow> rds_decoder" where
  "stored type d st = st\<lparr>shiftReg := rds_word type d, skip := 0, sync := min 4 (sync st + 1),
     blocks := (blocks st)(type := codeword d), blockAvail := (blockAvail st)(type := True)\<rparr>"

lemma process_word:
  assumes "rds_ok st" "skip st = 26"
  shows "process clk (word_bits (rds_word type d)) st =
    (let st = count_block clk type (stored type d st)
     in Option.bind (if contGroup st \<ge> 3 then decodeGroup clk (st\<lparr>contGroup := 0\<rparr>) else Some st)
       (\<lambda>st. Some (st\<lparr>lastType := type, skip := 26\<rparr>)))"
proof -
  have len: "length (word_bits (rds_word type d)) = 26" by (simp add: word_bits_def)
  define st1 where "st1 = st\<lparr>shiftReg := rds_word type d, skip := 0\<rparr>"
  have "process clk (word_bits (rds_word type d)) st = sync_step clk st1"
    using process_block [of st "word_bits (rds_word type d)" clk] assms(2) len shift_in_word_bits [OF rds_word_high, of type d]
    by (metis st1_def list.size(3) of_nat_numeral zero_neq_numeral)
  moreover have "min 4 (sync st + 1) \<noteq> 0" "max 0 (min 4 (sync st + 1)) = min 4 (sync st + 1)"
    using assms(1) by (auto simp: rds_ok_def min_def max_def)
  then have "sync_step clk st1 = take_block clk type (st1\<lparr>sync := min 4 (sync st + 1)\<rparr>)"
    by (simp add: sync_step_def Let_def st1_def word_syndrome SYNDROMES_offset rds_ok_def)
  moreover have "store_block type (st1\<lparr>sync := min 4 (sync st + 1)\<rparr>) = stored type d st"
    by (simp add: store_block_def st1_def correct_word stored_def)
  then have "take_block clk type (st1\<lparr>sync := min 4 (sync st + 1)\<rparr>) =
    (let st = count_block clk type (stored type d st)
     in Option.bind (if contGroup st \<ge> 3 then decodeGroup clk (st\<lparr>contGroup := 0\<rparr>) else Some st)
       (\<lambda>st. Some (st\<lparr>lastType := type, skip := 26\<rparr>)))"
    by (simp add: take_block_def BLOCK_LEN_def)
  ultimately show ?thesis by metis
qed

lemma stored_ok: "rds_ok st \<Longrightarrow> rds_ok (stored type d st)" "program_of (stored type d st) = program_of st"
  by (simp_all add: stored_def rds_ok_def texts_ok_def program_of_def)

text \<open>Block A: its data is decoded at once.\<close>

lemma receive_A:
  assumes "rds_ok st" "skip st = 26"
  obtains st' where "process clk (word_bits (rds_word BLOCK_TYPE_A pi)) st = Some st'" "rds_ok st'" "skip st' = 26"
    "program_of st' = pi_info pi (program_of st)"
proof -
  have "contGroup st < 3" "0 \<le> contGroup st" using assms(1) cont_ok_le by (cases "lastType st"; auto simp: rds_ok_def)+
  with assms that show ?thesis
    by (simp add: process_word Let_def count_block_def decodeBlockA_def stored_def rds_ok_def texts_ok_def program_of_def message_data pi_info_def)
qed

text \<open>Block B and the block C after it are only stored.\<close>

lemma receive_B:
  assumes "rds_ok st" "skip st = 26"
  obtains st' where "process clk (word_bits (rds_word BLOCK_TYPE_B b)) st = Some st'" "rds_ok st'" "skip st' = 26"
    "program_of st' = program_of st" "lastType st' = BLOCK_TYPE_B" "blocks st' BLOCK_TYPE_B = codeword b" "blockAvail st' BLOCK_TYPE_B"
  using assms that
  by (simp add: process_word Let_def count_block_def stored_def rds_ok_def texts_ok_def program_of_def)

lemma receive_C:
  assumes "rds_ok st" "skip st = 26" "lastType st = BLOCK_TYPE_B" "type = BLOCK_TYPE_C \<or> type = BLOCK_TYPE_CP"
  obtains st' where "process clk (word_bits (rds_word type c)) st = Some st'" "rds_ok st'" "skip st' = 26"
    "program_of st' = program_of st" "lastType st' = type" "contGroup st' = 2"
    "blocks st' type = codeword c" "blockAvail st' type"
    "blocks st' BLOCK_TYPE_B = blocks st BLOCK_TYPE_B" "blockAvail st' BLOCK_TYPE_B = blockAvail st BLOCK_TYPE_B"
  using assms that
  by (auto simp: process_word Let_def count_block_def stored_def rds_ok_def texts_ok_def program_of_def)

text \<open>Block D completes the group.\<close>

lemma receive_D:
  assumes "rds_ok st" "skip st = 26" "lastType st = (if bit b 11 then BLOCK_TYPE_CP else BLOCK_TYPE_C)" "contGroup st = 2"
    "blocks st BLOCK_TYPE_B = codeword b" "blockAvail st BLOCK_TYPE_B"
    "bit b 11 \<or> blocks st BLOCK_TYPE_C = codeword c \<and> blockAvail st BLOCK_TYPE_C"
    "ucast (drop_bit 12 b) \<noteq> (10 :: u8) \<or> \<not> bit b 11"
  obtains st' where "process clk (word_bits (rds_word BLOCK_TYPE_D d)) st = Some st'" "rds_ok st'" "skip st' = 26"
    "program_of st' = receive_data b c d (program_of st)"
proof -
  define st1 where "st1 = (stored BLOCK_TYPE_D d st)\<lparr>contGroup := 0\<rparr>"
  define st2 where "st2 = decodeBlockB clk st1"
  have c1: "count_block clk BLOCK_TYPE_D (stored BLOCK_TYPE_D d st) = (stored BLOCK_TYPE_D d st)\<lparr>contGroup := 3\<rparr>"
    using assms(3,4) by (auto simp: count_block_def stored_def)
  have p: "process clk (word_bits (rds_word BLOCK_TYPE_D d)) st =
    Option.bind (decodeGroup clk st1) (\<lambda>st. Some (st\<lparr>lastType := BLOCK_TYPE_D, skip := 26\<rparr>))"
    using assms(1,2) by (simp add: process_word c1 st1_def)
  have st2: "texts_ok st2" "program_of st2 = group_info b (program_of st)"
    "blocks st2 BLOCK_TYPE_B = codeword b" "blocks st2 BLOCK_TYPE_D = codeword d" "blockAvail st2 BLOCK_TYPE_D"
    "bit b 11 \<or> blocks st2 BLOCK_TYPE_C = codeword c \<and> blockAvail st2 BLOCK_TYPE_C"
    "groupVer st2 = (if bit b 11 then GROUP_VER_B else GROUP_VER_A)" "groupType st2 = ucast (drop_bit 12 b)"
    "contGroup st2 = 0" "0 \<le> sync st2" "sync st2 \<le> 4"
    using assms(1,5-7)
    by (auto simp: st2_def st1_def stored_def decodeBlockB_def Let_def texts_ok_def program_of_def group_info_def rds_ok_def message_data)
  have dg: "decodeGroup clk st1 = (if groupType st2 = 0 then decodeGroup0 clk st2 else if groupType st2 = 2 then decodeGroup2 clk st2
      else if groupType st2 = 10 then decodeGroup10 clk st2 else Some st2)"
    using assms(6) by (simp add: decodeGroup_def Let_def st2_def st1_def stored_def)
  have pt: "p_type (group_info b (program_of st)) = groupType st2" by (simp add: st2(8) group_info_def)
  consider (g0) "groupType st2 = 0" | (g2) "groupType st2 = 2" | (g10) "groupType st2 = 10"
    | (rest) "groupType st2 \<noteq> 0" "groupType st2 \<noteq> 2" "groupType st2 \<noteq> 10" by blast
  then have "\<exists>st3. decodeGroup clk st1 = Some st3 \<and> texts_ok st3 \<and> sync st3 = sync st2 \<and> contGroup st3 = 0 \<and>
    program_of st3 = receive_data b c d (program_of st)"
  proof cases
    case g0
    then have "receive_data b c d (program_of st) = tuning_info b c d (program_of st2)"
      by (simp add: receive_data_def Let_def pt st2(2))
    moreover have "\<exists>st3. decodeGroup0 clk st2 = Some st3 \<and> texts_ok st3 \<and> sync st3 = sync st2 \<and> contGroup st3 = 0 \<and>
      program_of st3 = tuning_info b c d (program_of st2)"
      using st2(1,3-) by (auto simp: decodeGroup0_eq texts_ok_def Let_def tuning_info_def program_of_def message_data
        set_pair_def set_chars_def)
    ultimately show ?thesis using g0 by (simp add: dg)
  next
    case g2
    then have "receive_data b c d (program_of st) = radio_text b c d (program_of st2)"
      by (simp add: receive_data_def Let_def pt st2(2))
    moreover have "\<exists>st3. decodeGroup2 clk st2 = Some st3 \<and> texts_ok st3 \<and> sync st3 = sync st2 \<and> contGroup st3 = 0 \<and>
      program_of st3 = radio_text b c d (program_of st2)"
      using st2(1,3-) by (auto simp: decodeGroup2_eq texts_ok_def Let_def radio_text_def program_of_def message_data
        set_pair_def set_chars_def)
    ultimately show ?thesis using g2 by (simp add: dg)
  next
    case g10
    then have "receive_data b c d (program_of st) = type_name b c d (program_of st2)"
      by (simp add: receive_data_def Let_def pt st2(2))
    moreover have "\<not> bit b 11" using assms(8) g10 st2(8) by simp
    then have "\<exists>st3. decodeGroup10 clk st2 = Some st3 \<and> texts_ok st3 \<and> sync st3 = sync st2 \<and> contGroup st3 = 0 \<and>
      program_of st3 = type_name b c d (program_of st2)"
      using st2(1,3-) by (auto simp: decodeGroup10_eq texts_ok_def Let_def type_name_def program_of_def message_data
        set_pair_def set_chars_def)
    ultimately show ?thesis using g10 by (simp add: dg)
  next
    case rest
    then show ?thesis using st2 by (simp add: dg receive_data_def Let_def pt)
  qed
  then show ?thesis
    using that p st2 by (auto simp: rds_ok_def texts_ok_def program_of_def)
qed

section \<open>A whole group\<close>

text \<open>A group 10 of version B carries no text of the program type name.\<close>

definition group_ok :: "group \<Rightarrow> bool" where
  "group_ok g = (case g of (pi, b, c, d) \<Rightarrow> drop_bit 12 b \<noteq> 10 \<or> \<not> bit b 11)"

lemma type_10: "ucast (drop_bit 12 b) = (10 :: u8) \<longleftrightarrow> drop_bit 12 b = 10" for b :: u16
proof -
  have "unat (drop_bit 12 b) < 256"
    using unat_u16_less [of b] by (simp add: drop_bit_eq_div unat_div)
  then show ?thesis by (simp add: word_eq_iff_unsigned [where ?'a = nat] unsigned_ucast_eq take_bit_nat_eq_self)
qed

lemma group_received:
  assumes "rds_ok st" "skip st = 26" "group_ok g"
  obtains st' where "process clk (group_bits g) st = Some st'" "rds_ok st'" "skip st' = 26"
    "program_of st' = receive_group g (program_of st)"
proof -
  obtain pi b c d where g: "g = (pi, b, c, d)" by (cases g)
  let ?C = "if bit b 11 then BLOCK_TYPE_CP else BLOCK_TYPE_C"
  obtain s1 where s1: "process clk (word_bits (rds_word BLOCK_TYPE_A pi)) st = Some s1" "rds_ok s1" "skip s1 = 26"
    "program_of s1 = pi_info pi (program_of st)"
    using receive_A [OF assms(1,2)] .
  obtain s2 where s2: "process clk (word_bits (rds_word BLOCK_TYPE_B b)) s1 = Some s2" "rds_ok s2" "skip s2 = 26"
    "program_of s2 = program_of s1" "lastType s2 = BLOCK_TYPE_B" "blocks s2 BLOCK_TYPE_B = codeword b" "blockAvail s2 BLOCK_TYPE_B"
    using receive_B [OF s1(2,3)] .
  have C: "?C = BLOCK_TYPE_C \<or> ?C = BLOCK_TYPE_CP" by simp
  obtain s3 where s3: "process clk (word_bits (rds_word ?C c)) s2 = Some s3" "rds_ok s3" "skip s3 = 26"
    "program_of s3 = program_of s2" "lastType s3 = ?C" "contGroup s3 = 2" "blocks s3 ?C = codeword c" "blockAvail s3 ?C"
    "blocks s3 BLOCK_TYPE_B = blocks s2 BLOCK_TYPE_B" "blockAvail s3 BLOCK_TYPE_B = blockAvail s2 BLOCK_TYPE_B"
    using receive_C [OF s2(2,3,5) C] .
  have "bit b 11 \<or> blocks s3 BLOCK_TYPE_C = codeword c \<and> blockAvail s3 BLOCK_TYPE_C" using s3(7,8) by auto
  moreover have "ucast (drop_bit 12 b) \<noteq> (10 :: u8) \<or> \<not> bit b 11" using assms(3) by (simp add: group_ok_def g type_10)
  ultimately obtain s4 where s4: "process clk (word_bits (rds_word BLOCK_TYPE_D d)) s3 = Some s4" "rds_ok s4" "skip s4 = 26"
    "program_of s4 = receive_data b c d (program_of s3)"
    using receive_D [OF s3(2,3,5,6)] s2(6,7) s3(9,10) by metis
  show ?thesis
    using that s1 s2 s3 s4 by (simp add: g group_bits_def process_append receive_group_def)
qed

lemma groups_received:
  assumes "rds_ok st" "skip st = 26" "list_all group_ok gs"
  obtains st' where "process clk (concat (map group_bits gs)) st = Some st'" "rds_ok st'" "skip st' = 26"
    "program_of st' = fold receive_group gs (program_of st)"
  using assms
proof (induction gs arbitrary: st thesis)
  case (Cons g gs)
  from Cons.prems(4) have g: "group_ok g" "list_all group_ok gs" by simp_all
  obtain s1 where s1: "process clk (group_bits g) st = Some s1" "rds_ok s1" "skip s1 = 26"
    "program_of s1 = receive_group g (program_of st)"
    using group_received [OF Cons.prems(2,3) g(1)] .
  from Cons.IH [OF _ s1(2,3) g(2)] s1 Cons.prems(1) show ?case
    by (simp add: process_append) metis
qed simp

section \<open>The radio text\<close>

text \<open>The segment of a text, four characters, in a group 2 of version A.\<close>

definition char_pair :: "char \<Rightarrow> char \<Rightarrow> u16" where
  "char_pair x y = of_nat (256 * of_char x + of_char y)"

definition text_group :: "u16 \<Rightarrow> bool \<Rightarrow> string \<Rightarrow> nat \<Rightarrow> group" where
  "text_group pi ab msg seg =
    (pi, of_nat (0x2000 + (if ab then 16 else 0) + seg), char_pair (msg ! (4 * seg)) (msg ! (4 * seg + 1)),
     char_pair (msg ! (4 * seg + 2)) (msg ! (4 * seg + 3)))"

lemma char_pair_chars: "hi_char (char_pair x y) = x" "lo_char (char_pair x y) = y"
proof -
  have lt: "(of_char c :: nat) < 256" for c :: char
    by (metis of_char_mod_256 mod_less_divisor zero_less_numeral)
  have u: "unat (char_pair x y) = 256 * of_char x + of_char y"
  proof -
    have "256 * of_char x + of_char y < (65536 :: nat)" using lt [of x] lt [of y] by linarith
    then show ?thesis unfolding char_pair_def by (intro unat_of_nat_lt) simp
  qed
  have "unat (drop_bit 8 (char_pair x y)) = of_char x"
    using u lt [of y] by (simp add: drop_bit_eq_div unat_div)
  then show "hi_char (char_pair x y) = x" by (simp add: hi_char_def)
  have "unat (take_bit 8 (char_pair x y)) = of_char y"
    using u lt [of y] by (simp add: take_bit_eq_mod unat_mod)
  then show "lo_char (char_pair x y) = y" by (simp add: lo_char_def and_masks)
qed

lemma text_word_fields:
  fixes seg :: nat and ab :: bool
  assumes "seg < 16"
  defines "b \<equiv> (of_nat (0x2000 + (if ab then 16 else 0) + seg) :: u16)"
  shows "ucast (drop_bit 12 b) = (2 :: u8)" "\<not> bit b 11" "bit b 4 = ab" "unat (b AND 0xF) = seg"
  using assms(1) unfolding b_def by (cases ab; elim less_16_cases; simp)+

lemma text_group_ok: "seg < 16 \<Longrightarrow> group_ok (text_group pi ab msg seg)"
  using text_word_fields(2) [of seg ab] by (simp add: group_ok_def text_group_def)

lemma receive_text_group:
  fixes pi ab msg
  assumes "seg < 16" "length (p_text p) = 64"
  defines "p' \<equiv> receive_group (text_group pi ab msg seg) p"
  defines "text \<equiv> (if ab \<noteq> p_rt_ab p then replicate 64 (CHR '' '') else p_text p)"
  shows "p_rt_ab p' = ab" "length (p_text p') = 64"
    "k < 64 \<Longrightarrow> p_text p' ! k = (if k div 4 = seg then msg ! k else text ! k)"
proof -
  note f = text_word_fields [OF assms(1), of ab]
  have p': "p_rt_ab p' = ab"
    "p_text p' = text[4 * seg := msg ! (4 * seg), 4 * seg + 1 := msg ! (4 * seg + 1),
       4 * seg + 2 := msg ! (4 * seg + 2), 4 * seg + 3 := msg ! (4 * seg + 3)]"
    unfolding p'_def text_def text_group_def receive_group_def receive_data_def Let_def prod.case
    using f by (simp_all add: group_info_def radio_text_def pi_info_def Let_def set_chars_def char_pair_chars numeral_3_eq_3 numeral_2_eq_2)
  show "p_rt_ab p' = ab" by (rule p'(1))
  have len: "length text = 64" using assms(2) by (simp add: text_def)
  then show "length (p_text p') = 64" by (simp add: p'(2))
  show "p_text p' ! k = (if k div 4 = seg then msg ! k else text ! k)" if "k < 64"
    using that len assms(1) unfolding p'(2) by (auto simp: nth_list_update)
qed

lemma receive_text_groups:
  fixes pi ab msg
  assumes "set segs \<subseteq> {..<16}" "length (p_text p) = 64"
  defines "p' \<equiv> fold receive_group (map (text_group pi ab msg) segs) p"
  shows "length (p_text p') = 64 \<and> (segs \<noteq> [] \<longrightarrow> p_rt_ab p' = ab) \<and>
    (\<forall>k<64. k div 4 \<in> set segs \<longrightarrow> p_text p' ! k = msg ! k)"
  using assms(1) unfolding p'_def
proof (induction segs rule: rev_induct)
  case (snoc seg segs)
  let ?q = "fold receive_group (map (text_group pi ab msg) segs) p"
  from snoc have IH: "length (p_text ?q) = 64" "segs \<noteq> [] \<longrightarrow> p_rt_ab ?q = ab"
    "\<And>k. k < 64 \<Longrightarrow> k div 4 \<in> set segs \<Longrightarrow> p_text ?q ! k = msg ! k" and seg: "seg < 16" by auto
  show ?case
    using receive_text_group [OF seg IH(1), where pi = pi and ab = ab and msg = msg] IH(2,3) by (cases "segs = []") auto
qed (simp add: assms(2))

section \<open>Finding the blocks\<close>

lemma searching_symbol:
  assumes "rds_ok st" "skip st \<le> 1" "- 2147483648 < skip st"
    "(push_bit 1 (shiftReg st) AND 0x3FFFFFF) OR (ucast symbol AND 1) = rds_word type d"
  obtains st' where "process_symbol clk symbol st = Some st'" "rds_ok st'" "skip st' = 26" "lastType st' = type" "1 \<le> sync st'"
proof -
  define st1 where "st1 = st\<lparr>shiftReg := rds_word type d, skip := skip st - 1, sync := min 4 (sync st + 1)\<rparr>"
  have s: "0 \<le> sync st" using assms(1) by (simp add: rds_ok_def)
  then have m: "min 4 (sync st + 1) \<noteq> 0" "max 0 (min 4 (sync st + 1)) = min 4 (sync st + 1)"
    by (auto simp: min_def max_def)
  have "process_symbol clk symbol st = take_block clk type st1"
    using assms(2-4) m by (simp add: process_symbol_def sync_step_def Let_def st1_def word_syndrome SYNDROMES_offset)
  moreover have "rds_ok st1" "1 \<le> sync st1"
    using assms(1,2) s by (auto simp: st1_def rds_ok_def texts_ok_def)
  ultimately show ?thesis
    using that take_block_ok [of st1 clk type] by metis
qed

section \<open>Damaged blocks\<close>

lemma unknown_after_C:
  assumes "rds_ok st" "skip st = 26" "2 \<le> sync st" "lastType st = BLOCK_TYPE_C" "contGroup st = 2"
    "\<And>n. 26 \<le> n \<Longrightarrow> \<not> bit w n" "map_of SYNDROMES (calcSyndrome w) = None"
  obtains st' where "process clk (word_bits w) st = Some st'" "program_of st' = program_of st" "contGroup st' = 0"
    "lastType st' = BLOCK_TYPE_CP"
proof -
  define st1 where "st1 = st\<lparr>shiftReg := w, skip := 0\<rparr>"
  have len: "length (word_bits w) = 26" by (simp add: word_bits_def)
  have "process clk (word_bits w) st = sync_step clk st1"
    using process_block [of st "word_bits w" clk] assms(2) len shift_in_word_bits [OF assms(6)]
    by (metis st1_def list.size(3) of_nat_numeral zero_neq_numeral)
  moreover have "max 0 (min 4 (sync st - 1)) = sync st - 1" "sync st - 1 \<noteq> 0"
    using assms(1,3) by (auto simp: rds_ok_def)
  then have "sync_step clk st1 = take_block clk BLOCK_TYPE_CP (st1\<lparr>sync := sync st - 1\<rparr>)"
    using assms(4,7) by (simp add: sync_step_def Let_def st1_def)
  moreover have "contGroup st \<noteq> 1" using assms(5) by simp
  then have "count_block clk BLOCK_TYPE_CP (store_block BLOCK_TYPE_CP (st1\<lparr>sync := sync st - 1\<rparr>)) =
    (store_block BLOCK_TYPE_CP (st1\<lparr>sync := sync st - 1\<rparr>))\<lparr>contGroup := 0\<rparr>"
    using assms(4) by (simp add: count_block_def store_block_ok st1_def)
  ultimately show ?thesis
    using that by (auto simp: take_block_def Let_def store_block_def st1_def program_of_def split: prod.splits)
qed

section \<open>Silence\<close>

lemma process_zeros:
  "int n \<le> 2147483648 + skip st \<Longrightarrow> shiftReg st = 0 \<Longrightarrow> sync st = 0 \<Longrightarrow> skip st \<le> 1 \<Longrightarrow>
    process clk (replicate n 0) st = Some (st\<lparr>skip := skip st - int n\<rparr>)"
proof (induction n arbitrary: st)
  case (Suc n)
  have "map_of SYNDROMES (calcSyndrome 0) = None" by (simp add: calcSyndrome_0 SYNDROMES_def)
  with Suc.prems have "process_symbol clk 0 st = Some (st\<lparr>skip := skip st - 1\<rparr>)"
    by (simp add: process_symbol_def sync_step_def Let_def)
  with Suc show ?case by simp
qed simp

section \<open>What the decoder promises for a signal\<close>

text \<open>
  C13. From any well formed state whose next 26 bits are a block, a sequence of groups updates the knowledge of
  the decoder as the contract says, group by group, and leaves it at the start of the next block. The groups
  may be of any type and version but for a group 10 of version B.
\<close>

theorem rds_groups_refine:
  assumes "rds_ok st" "skip st = 26" "list_all group_ok gs"
  shows "\<exists>st'. process clk (concat (map group_bits gs)) st = Some st' \<and> rds_ok st' \<and> skip st' = 26 \<and>
    program_of st' = fold receive_group gs (program_of st)"
  using groups_received [OF assms] by metis

text \<open>A decoder at the start of a block.\<close>

lemma aligned_decoder_ok: "rds_ok ((rds_init st)\<lparr>skip := 26\<rparr>)" "skip ((rds_init st)\<lparr>skip := 26\<rparr>) = 26"
  by (simp_all add: rds_ok_def rds_init_def texts_ok_def)

text \<open>A group 0 of version A with the first two letters of a name.\<close>

theorem rds_groups_refine_witness:
  "map_option (take 3 \<circ> programServiceName) (process int (group_bits (0x54A8, 0x0408, 0xE0CD, 0x4B51)) ((rds_init undefined)\<lparr>skip := 26\<rparr>))
    = Some ''KQ ''"
proof -
  let ?st = "(rds_init undefined)\<lparr>skip := 26\<rparr>" and ?g = "(0x54A8, 0x0408, 0xE0CD, 0x4B51) :: group"
  have "list_all group_ok [?g]" by (simp add: group_ok_def)
  then obtain st' where st': "process int (group_bits ?g) ?st = Some st'" "program_of st' = fold receive_group [?g] (program_of ?st)"
    using rds_groups_refine [OF aligned_decoder_ok, of "[?g]" int] by fastforce
  have eight: "replicate 8 (CHR '' '') = ''        ''" by (simp add: eval_nat_numeral)
  have "p_name (receive_group ?g (program_of ?st)) = ''KQ      ''"
    by (simp add: receive_group_def receive_data_def group_info_def tuning_info_def Let_def set_chars_def hi_char_def lo_char_def
      pi_info_def program_of_def rds_init_def char_of_def bit_0 eight)
  with st'(2) have "p_name (program_of st') = ''KQ      ''" by simp
  then have "programServiceName st' = ''KQ      ''" by (simp add: program_of_def)
  with st'(1) show ?thesis by simp
qed

text \<open>
  C15. A text of 64 characters, sent in sixteen segments in any order and with any repetitions, is the radio text of the
  decoder afterwards, whatever text it had and whatever its A/B flag was.
\<close>

theorem radio_text_received:
  assumes "rds_ok st" "skip st = 26" "length msg = 64" "set segs = {..<16}"
  shows "\<exists>st'. process clk (concat (map (\<lambda>seg. group_bits (text_group pi ab msg seg)) segs)) st = Some st' \<and>
    radioText st' = msg \<and> rtAB st' = ab"
proof -
  let ?gs = "map (text_group pi ab msg) segs"
  have "list_all group_ok ?gs" using assms(4) by (auto simp: list_all_iff intro: text_group_ok)
  then obtain st' where st': "process clk (concat (map group_bits ?gs)) st = Some st'"
    "program_of st' = fold receive_group ?gs (program_of st)"
    using groups_received [OF assms(1,2), of ?gs clk] by metis
  have len: "length (p_text (program_of st)) = 64" using assms(1) by (simp add: rds_ok_def texts_ok_def program_of_def)
  have "0 \<in> set segs" unfolding assms(4) by simp
  then have "segs \<noteq> []" by (metis empty_iff empty_set)
  moreover have "k div 4 \<in> set segs" if "k < 64" for k
    using less_mult_imp_div_less [of k 16 4] that unfolding assms(4) by simp
  moreover have "set segs \<subseteq> {..<16}" using assms(4) by simp
  note this [THEN receive_text_groups [OF _ len], of pi ab msg, folded st'(2)]
  ultimately have "p_text (program_of st') = msg" "p_rt_ab (program_of st') = ab"
    using assms(3) by (metis nth_equalityI)+
  with st'(1) show ?thesis by (simp add: program_of_def comp_def)
qed

text \<open>The segments from the last to the first.\<close>

theorem radio_text_received_witness:
  "\<exists>st'. process int (concat (map (\<lambda>seg. group_bits (text_group 0x54A8 True (replicate 64 (CHR ''x'')) seg)) (rev [0..<16])))
      ((rds_init undefined)\<lparr>skip := 26\<rparr>) = Some st' \<and> radioText st' = replicate 64 (CHR ''x'') \<and> rtAB st' = True"
  by (rule radio_text_received [OF aligned_decoder_ok]) auto

text \<open>
  A decoder that looks for a block finds it at the bit that completes one, whatever came before: it is synchronised
  and takes the next 26 bits as the next block.
\<close>

theorem rds_block_found:
  assumes "rds_ok st" "skip st \<le> 1" "- 2147483648 < skip st"
    "(push_bit 1 (shiftReg st) AND 0x3FFFFFF) OR (ucast symbol AND 1) = rds_word type d"
  shows "\<exists>st'. process_symbol clk symbol st = Some st' \<and> rds_ok st' \<and> skip st' = 26 \<and> lastType st' = type \<and> 1 \<le> sync st'"
  using searching_symbol [OF assms] by metis



text \<open>
  While no block is found the counter of the bits to skip goes down without a bound: \<open>2\<^sup>3\<^sup>1\<close> zero bits are processed,
  one more overflows it.
\<close>

lemma silence_overflows_skip:
  assumes "n = 2147483648"
  shows "process clk (replicate n 0) (rds_init st) \<noteq> None \<and> process clk (replicate (Suc n) 0) (rds_init st) = None"
proof -
  have p: "process clk (replicate n 0) (rds_init st) = Some ((rds_init st)\<lparr>skip := - 2147483648\<rparr>)"
    using process_zeros [of n "rds_init st" clk] assms by (simp add: rds_init_def)
  have "process clk (replicate n 0 @ [0]) (rds_init st) = None"
    unfolding process_append p by (simp add: process_symbol_def Let_def)
  then show ?thesis using p by (simp add: replicate_append_same)
qed

end
