(* ===== verification/M17Frame.thy ===== *)
theory M17Frame
  imports Prelude
begin

text \<open>
  The frames of the M17 decoder (\<open>decoder_modules/m17_decoder/src/m17dsp.h\<close>, class \<open>M17FrameDemux\<close>):
  the search for the three synchronisation words in the stream of bits, the de-interleaving and
  descrambling of the 368 bits that follow one, and their distribution to the outputs. The loop of the
  block is shown to take one step per bit, whatever the blocks are the stream is cut into.
\<close>

section \<open>Constants\<close>

definition M17_SYNC_SIZE :: nat where "M17_SYNC_SIZE = 16"
definition M17_LICH_SIZE :: nat where "M17_LICH_SIZE = 96"
definition M17_RAW_FRAME_SIZE :: nat where "M17_RAW_FRAME_SIZE = 384"
definition M17_CUT_FRAME_SIZE :: nat where "M17_CUT_FRAME_SIZE = 368"
definition STREAM_BUFFER_SIZE :: nat where "STREAM_BUFFER_SIZE = 1000000"

definition M17_LSF_SYNC :: "u8 list" where "M17_LSF_SYNC = [0, 1, 0, 1, 0, 1, 0, 1, 1, 1, 1, 1, 0, 1, 1, 1]"
definition M17_STF_SYNC :: "u8 list" where "M17_STF_SYNC = [1, 1, 1, 1, 1, 1, 1, 1, 0, 1, 0, 1, 1, 1, 0, 1]"
definition M17_PKF_SYNC :: "u8 list" where "M17_PKF_SYNC = [0, 1, 1, 1, 0, 1, 0, 1, 1, 1, 1, 1, 1, 1, 1, 1]"

definition M17_SCRAMBLER :: "u8 list" where
  "M17_SCRAMBLER =
    [1, 1, 0, 1, 0, 1, 1, 0, 1, 0, 1, 1, 0, 1, 0, 1, 1, 1, 1, 0, 0, 0, 1, 0, 0, 0, 1, 1, 0, 0, 0, 0,
     1, 0, 0, 0, 0, 0, 1, 0, 1, 1, 1, 1, 1, 1, 1, 1, 1, 0, 0, 0, 0, 1, 0, 0, 0, 1, 1, 0, 0, 0, 1, 0,
     1, 0, 1, 1, 1, 0, 1, 0, 0, 1, 0, 0, 1, 1, 1, 0, 1, 0, 0, 1, 0, 1, 1, 0, 1, 0, 0, 1, 0, 0, 0, 0,
     1, 1, 0, 1, 1, 0, 0, 0, 1, 0, 0, 1, 1, 0, 0, 0, 1, 1, 0, 1, 1, 1, 0, 1, 0, 1, 0, 1, 1, 1, 0, 1,
     0, 0, 0, 0, 1, 1, 0, 0, 1, 1, 0, 0, 1, 0, 0, 0, 0, 1, 0, 1, 0, 0, 1, 0, 0, 1, 0, 0, 0, 0, 1, 1,
     1, 0, 0, 1, 0, 0, 0, 1, 0, 0, 0, 1, 1, 1, 0, 1, 1, 1, 1, 1, 1, 0, 0, 0, 0, 1, 1, 0, 1, 1, 1, 0,
     0, 1, 1, 0, 1, 0, 0, 0, 0, 0, 1, 0, 1, 1, 1, 1, 0, 0, 1, 1, 0, 1, 0, 1, 1, 1, 0, 1, 1, 0, 1, 0,
     0, 0, 0, 1, 0, 1, 0, 0, 1, 1, 1, 0, 1, 0, 1, 0, 1, 1, 0, 0, 1, 1, 0, 1, 0, 1, 1, 1, 0, 1, 1, 0,
     0, 0, 0, 1, 1, 0, 0, 1, 1, 0, 0, 0, 1, 1, 0, 1, 1, 1, 0, 1, 0, 1, 0, 1, 1, 0, 0, 0, 0, 0, 0, 0,
     1, 1, 0, 1, 0, 0, 0, 1, 0, 0, 1, 1, 0, 0, 1, 1, 1, 0, 0, 0, 0, 1, 1, 1, 0, 0, 0, 1, 0, 0, 1, 1,
     0, 1, 0, 1, 0, 1, 1, 1, 0, 0, 0, 1, 1, 0, 0, 0, 0, 0, 1, 0, 1, 1, 0, 1, 0, 0, 1, 0, 1, 0, 0, 1,
     0, 1, 1, 1, 1, 0, 0, 0, 1, 1, 0, 0, 0, 0, 1, 1]"

definition M17_INTERLEAVER :: "nat list" where
  "M17_INTERLEAVER =
    [0, 137, 90, 227, 180, 317, 270, 39, 360, 129, 82, 219, 172, 309, 262, 31, 352, 121, 74, 211, 164, 301, 254,
     23, 344, 113, 66, 203, 156, 293, 246, 15, 336, 105, 58, 195, 148, 285, 238, 7, 328, 97, 50, 187, 140, 277,
     230, 367, 320, 89, 42, 179, 132, 269, 222, 359, 312, 81, 34, 171, 124, 261, 214, 351, 304, 73, 26, 163, 116,
     253, 206, 343, 296, 65, 18, 155, 108, 245, 198, 335, 288, 57, 10, 147, 100, 237, 190, 327, 280, 49, 2, 139,
     92, 229, 182, 319, 272, 41, 362, 131, 84, 221, 174, 311, 264, 33, 354, 123, 76, 213, 166, 303, 256, 25, 346,
     115, 68, 205, 158, 295, 248, 17, 338, 107, 60, 197, 150, 287, 240, 9, 330, 99, 52, 189, 142, 279, 232, 1,
     322, 91, 44, 181, 134, 271, 224, 361, 314, 83, 36, 173, 126, 263, 216, 353, 306, 75, 28, 165, 118, 255, 208,
     345, 298, 67, 20, 157, 110, 247, 200, 337, 290, 59, 12, 149, 102, 239, 192, 329, 282, 51, 4, 141, 94, 231,
     184, 321, 274, 43, 364, 133, 86, 223, 176, 313, 266, 35, 356, 125, 78, 215, 168, 305, 258, 27, 348, 117, 70,
     207, 160, 297, 250, 19, 340, 109, 62, 199, 152, 289, 242, 11, 332, 101, 54, 191, 144, 281, 234, 3, 324, 93,
     46, 183, 136, 273, 226, 363, 316, 85, 38, 175, 128, 265, 218, 355, 308, 77, 30, 167, 120, 257, 210, 347, 300,
     69, 22, 159, 112, 249, 202, 339, 292, 61, 14, 151, 104, 241, 194, 331, 284, 53, 6, 143, 96, 233, 186, 323,
     276, 45, 366, 135, 88, 225, 178, 315, 268, 37, 358, 127, 80, 217, 170, 307, 260, 29, 350, 119, 72, 209, 162,
     299, 252, 21, 342, 111, 64, 201, 154, 291, 244, 13, 334, 103, 56, 193, 146, 283, 236, 5, 326, 95, 48, 185,
     138, 275, 228, 365, 318, 87, 40, 177, 130, 267, 220, 357, 310, 79, 32, 169, 122, 259, 212, 349, 302, 71, 24,
     161, 114, 251, 204, 341, 294, 63, 16, 153, 106, 243, 196, 333, 286, 55, 8, 145, 98, 235, 188, 325, 278, 47]"

section \<open>The block\<close>

text \<open>
  An output: the buffer the block writes, the one of the reader, and the blocks handed over by \<open>swap\<close>,
  which exchanges the two buffers. Whether a writer has been stopped, so that \<open>swap\<close> fails, is a
  parameter of the operations.
\<close>

record m17_out =
  wbuf :: "u8 list"
  rbuf :: "u8 list"
  handed :: "u8 list list"

definition out_swap :: "nat \<Rightarrow> m17_out \<Rightarrow> m17_out" where
  "out_swap n out = \<lparr>wbuf = rbuf out, rbuf = wbuf out, handed = handed out @ [take n (wbuf out)]\<rparr>"

definition out_put :: "nat \<Rightarrow> u8 \<Rightarrow> m17_out \<Rightarrow> m17_out" where
  "out_put i b out = out\<lparr>wbuf := (wbuf out)[i := b]\<rparr>"

text \<open>Of \<open>delay\<close> only the bits kept from the last block are state; the type is not initialised.\<close>

record m17_demux =
  linkSetupOut :: m17_out
  lichOut :: m17_out
  streamOut :: m17_out
  packetOut :: m17_out
  detect :: bool
  ftype :: int
  outCount :: nat
  kept :: "u8 list"

datatype m17_link = LinkSetup | Lich | Stream | Packet

text \<open>The end of a frame: \<^theory_text>\<open>False\<close> when a writer is stopped.\<close>

definition demux_end :: "(m17_link \<Rightarrow> bool) \<Rightarrow> m17_demux \<Rightarrow> bool \<times> m17_demux" where
  "demux_end ok st =
    (let st = st\<lparr>detect := False\<rparr>
     in if ftype st = 0 then
          if ok LinkSetup then (True, st\<lparr>linkSetupOut := out_swap M17_CUT_FRAME_SIZE (linkSetupOut st)\<rparr>) else (False, st)
        else if ftype st = 1 then
          if ok Lich then
            let st = st\<lparr>lichOut := out_swap M17_LICH_SIZE (lichOut st)\<rparr>
            in if ok Stream then (True, st\<lparr>streamOut := out_swap M17_CUT_FRAME_SIZE (streamOut st)\<rparr>) else (False, st)
          else (False, st)
        else if ftype st = 2 then
          if ok Lich then
            let st = st\<lparr>lichOut := out_swap M17_LICH_SIZE (lichOut st)\<rparr>
            in if ok Packet then (True, st\<lparr>packetOut := out_swap M17_CUT_FRAME_SIZE (packetOut st)\<rparr>) else (False, st)
          else (False, st)
        else (True, st))"

text \<open>One bit of a frame; the position moves on only when some output takes the bit.\<close>

definition demux_bit :: "u8 \<Rightarrow> m17_demux \<Rightarrow> nat \<times> m17_demux" where
  "demux_bit d st =
    (if outCount st < M17_SYNC_SIZE then (1, st\<lparr>outCount := outCount st + 1\<rparr>)
     else
       let id = M17_INTERLEAVER ! (outCount st - M17_SYNC_SIZE);
           b = d XOR M17_SCRAMBLER ! (outCount st - M17_SYNC_SIZE);
           (moved, st) =
             (if ftype st = 0 then (1, st\<lparr>linkSetupOut := out_put id b (linkSetupOut st)\<rparr>)
              else if (ftype st = 1 \<or> ftype st = 2) \<and> id < M17_LICH_SIZE then (1, st\<lparr>lichOut := out_put id b (lichOut st)\<rparr>)
              else if ftype st = 1 then (1, st\<lparr>streamOut := out_put (id - M17_LICH_SIZE) b (streamOut st)\<rparr>)
              else if ftype st = 2 then (1, st\<lparr>packetOut := out_put (id - M17_LICH_SIZE) b (packetOut st)\<rparr>)
              else (0, st))
       in (moved, st\<lparr>outCount := outCount st + 1\<rparr>))"

text \<open>The synchronisation words, in the order of the comparisons.\<close>

definition sync_type :: "u8 list \<Rightarrow> int option" where
  "sync_type w =
    (if w = M17_LSF_SYNC then Some 0 else if w = M17_STF_SYNC then Some 1 else if w = M17_PKF_SYNC then Some 2 else None)"

definition frame_type_ok :: "m17_demux \<Rightarrow> bool" where
  "frame_type_ok st \<longleftrightarrow> ftype st = 0 \<or> ftype st = 1 \<or> ftype st = 2"

definition demux_rank :: "nat \<Rightarrow> nat \<Rightarrow> m17_demux \<Rightarrow> nat" where
  "demux_rank count i st =
    1000 * (count - i) + (if detect st then if frame_type_ok st then 0 else 2 + (384 - outCount st) else 1)"

lemma demux_bit_simps:
  "detect (snd (demux_bit d st)) = detect st" "ftype (snd (demux_bit d st)) = ftype st"
  "outCount (snd (demux_bit d st)) = outCount st + 1" "kept (snd (demux_bit d st)) = kept st"
  "frame_type_ok st \<Longrightarrow> fst (demux_bit d st) = 1" "outCount st < 16 \<Longrightarrow> fst (demux_bit d st) = 1"
  "fst (demux_bit d st) \<le> 1"
  by (simp_all add: demux_bit_def Let_def frame_type_ok_def M17_SYNC_SIZE_def, auto)

lemma demux_end_simps:
  "detect (snd (demux_end ok st)) = False" "ftype (snd (demux_end ok st)) = ftype st"
  "outCount (snd (demux_end ok st)) = outCount st" "kept (snd (demux_end ok st)) = kept st"
  by (simp_all add: demux_end_def Let_def)

lemma sync_type_ok: "sync_type w = Some t \<Longrightarrow> t = 0 \<or> t = 1 \<or> t = 2"
  by (auto simp: sync_type_def split: if_splits)

lemma demux_rank_bit:
  assumes "demux_bit d st = (moved, st1)" "detect st" "i < count" "outCount st < 384"
  shows "demux_rank count (i + moved) st1 < demux_rank count i st"
    "\<not> detect st2 \<Longrightarrow> demux_rank count (i + moved) st2 < demux_rank count i st"
proof -
  have b: "detect st1" "ftype st1 = ftype st" "outCount st1 = outCount st + 1" "moved \<le> 1"
    "frame_type_ok st \<Longrightarrow> moved = 1"
    using demux_bit_simps [where d = d and st = st] assms(1,2) by simp_all
  then have f: "frame_type_ok st1 = frame_type_ok st" by (simp add: frame_type_ok_def)
  show "demux_rank count (i + moved) st1 < demux_rank count i st"
    using assms b f by (cases "frame_type_ok st"; cases moved) (auto simp: demux_rank_def)
  show "demux_rank count (i + moved) st2 < demux_rank count i st" if "\<not> detect st2"
    using that assms b by (cases "frame_type_ok st"; cases moved) (auto simp: demux_rank_def)
qed

text \<open>
  The loop of \<open>run\<close> on the buffer \<open>delay\<close> from position \<open>i\<close> on. A read outside the tables is
  \<^theory_text>\<open>None\<close>, a stopped writer the result \<^theory_text>\<open>False\<close>.
\<close>

function demux_loop :: "(m17_link \<Rightarrow> bool) \<Rightarrow> u8 list \<Rightarrow> nat \<Rightarrow> nat \<Rightarrow> m17_demux \<Rightarrow> (bool \<times> m17_demux) option" where
  "demux_loop ok delay count i st =
    (if i < count then
       if detect st then
         if M17_RAW_FRAME_SIZE \<le> outCount st then None
         else
           let (moved, st) = demux_bit (delay ! i) st
           in if M17_RAW_FRAME_SIZE \<le> outCount st then
                let (cont, st) = demux_end ok st
                in if cont then demux_loop ok delay count (i + moved) st else Some (False, st)
              else demux_loop ok delay count (i + moved) st
       else case sync_type (slice delay i M17_SYNC_SIZE) of
              Some t \<Rightarrow> demux_loop ok delay count i (st\<lparr>detect := True, outCount := 0, ftype := t\<rparr>)
            | None \<Rightarrow> demux_loop ok delay count (i + 1) st
     else Some (True, st))"
  by auto

termination
proof (relation "measure (\<lambda>(ok, delay, count, i, st). demux_rank count i st)", goal_cases)
  case (2 ok delay count i st x xa y xb xc ya)
  then have "demux_bit (delay ! i) st = (xa, y)" "demux_end ok y = (xc, ya)" by simp_all
  then have "\<not> detect ya" using demux_end_simps(1) [where ok = ok and st = y] by simp
  with 2 show ?case by (simp add: demux_rank_bit(2) [of "delay ! i" st xa y] M17_RAW_FRAME_SIZE_def)
next
  case (3 ok delay count i st x xa y)
  then show ?case by (simp add: demux_rank_bit(1) [of "delay ! i" st xa y] M17_RAW_FRAME_SIZE_def)
next
  case (4 ok delay count i st)
  then show ?case by (auto simp: demux_rank_def)
next
  case (5 ok delay count i st t)
  then show ?case using sync_type_ok by (auto simp: demux_rank_def frame_type_ok_def)
qed simp

declare demux_loop.simps [simp del]

text \<open>
  \<open>run\<close> on a block of bits: the result it returns, with the new state. A block that does not fit into
  \<open>delay\<close> behind the kept bits is copied past its end.
\<close>

definition demux_run :: "(m17_link \<Rightarrow> bool) \<Rightarrow> u8 list \<Rightarrow> m17_demux \<Rightarrow> (int \<times> m17_demux) option" where
  "demux_run ok block st =
    (if STREAM_BUFFER_SIZE < M17_SYNC_SIZE + length block then None
     else
       let delay = kept st @ block
       in case demux_loop ok delay (length block) 0 st of
            None \<Rightarrow> None
          | Some (False, st) \<Rightarrow> Some (- 1, st)
          | Some (True, st) \<Rightarrow> Some (int (length block), st\<lparr>kept := slice delay (length block) M17_SYNC_SIZE\<rparr>))"

end
