(* ===== verification/M17FrameRun.thy ===== *)
theory M17FrameRun
  imports M17Frame
begin

text \<open>
  The loop of the frame demultiplexer takes one step per bit, so the cutting of the stream into blocks
  does not matter; a frame behind its synchronisation word is delivered bit for bit.
\<close>

section \<open>One step per bit\<close>

text \<open>What the loop does at one position: it looks for a synchronisation word in the window there, then
  takes the bit when it is in a frame.\<close>

definition demux_search :: "u8 list \<Rightarrow> m17_demux \<Rightarrow> m17_demux" where
  "demux_search w st =
    (if detect st then st
     else case sync_type w of Some t \<Rightarrow> st\<lparr>detect := True, outCount := 0, ftype := t\<rparr> | None \<Rightarrow> st)"

definition demux_take :: "u8 \<Rightarrow> m17_demux \<Rightarrow> m17_demux" where
  "demux_take d st =
    (if detect st then
       let st = snd (demux_bit d st)
       in if outCount st < M17_RAW_FRAME_SIZE then st else snd (demux_end (\<lambda>_. True) st)
     else st)"

definition demux_push :: "m17_demux \<Rightarrow> u8 \<Rightarrow> m17_demux" where
  "demux_push st b = (demux_take (hd (kept st)) (demux_search (kept st) st))\<lparr>kept := tl (kept st) @ [b]\<rparr>"

definition in_frame :: "m17_demux \<Rightarrow> bool" where
  "in_frame st \<longleftrightarrow> (detect st \<longrightarrow> frame_type_ok st \<and> outCount st < M17_RAW_FRAME_SIZE)"

lemma in_frame_search: "in_frame st \<Longrightarrow> in_frame (demux_search w st)"
  using sync_type_ok by (auto simp: in_frame_def demux_search_def frame_type_ok_def M17_RAW_FRAME_SIZE_def split: option.splits)

lemma in_frame_take: "in_frame st \<Longrightarrow> in_frame (demux_take d st)"
proof -
  have "frame_type_ok (snd (demux_bit d st)) = frame_type_ok st"
    by (simp only: frame_type_ok_def demux_bit_simps)
  then show "in_frame st \<Longrightarrow> ?thesis"
    by (simp add: in_frame_def demux_take_def Let_def demux_end_simps)
qed

lemma in_frame_push: "in_frame st \<Longrightarrow> in_frame (demux_push st b)"
  using in_frame_take [OF in_frame_search, where st1 = st and w1 = "kept st" and d = "hd (kept st)"]
  by (simp add: demux_push_def in_frame_def frame_type_ok_def)

lemma kept_take_search: "kept (demux_search w st) = kept st" "kept (demux_take d st) = kept st"
  by (simp_all add: demux_search_def demux_take_def Let_def demux_bit_simps demux_end_simps split: option.splits)

lemma demux_end_continues: "fst (demux_end (\<lambda>_. True) st)"
  by (simp add: demux_end_def Let_def)

lemma demux_loop_take:
  assumes "i < count" "in_frame st" "detect st"
  shows "demux_loop (\<lambda>_. True) delay count i st = demux_loop (\<lambda>_. True) delay count (i + 1) (demux_take (delay ! i) st)"
proof -
  obtain m s1 where b: "demux_bit (delay ! i) st = (m, s1)" by fastforce
  then have m: "m = 1" using demux_bit_simps(5) [of st "delay ! i"] assms(2,3) by (simp add: in_frame_def)
  obtain c s2 where e: "demux_end (\<lambda>_. True) s1 = (c, s2)" by fastforce
  then have "c" using demux_end_continues [of s1] by simp
  with b m e assms show ?thesis
    by (subst demux_loop.simps) (simp add: Let_def not_le in_frame_def demux_take_def)
qed

lemma demux_loop_step:
  assumes "i < count" "in_frame st"
  shows "demux_loop (\<lambda>_. True) delay count i st =
    demux_loop (\<lambda>_. True) delay count (i + 1) (demux_take (delay ! i) (demux_search (slice delay i M17_SYNC_SIZE) st))"
proof (cases "detect st")
  case True
  then show ?thesis using demux_loop_take [OF assms] by (simp add: demux_search_def)
next
  case False
  let ?w = "slice delay i M17_SYNC_SIZE"
  show ?thesis
  proof (cases "sync_type ?w")
    case None
    with False assms(1) show ?thesis
      by (subst demux_loop.simps) (simp add: demux_search_def demux_take_def)
  next
    case (Some t)
    have "demux_loop (\<lambda>_. True) delay count i st = demux_loop (\<lambda>_. True) delay count i (demux_search ?w st)"
      using False Some assms(1) by (subst demux_loop.simps) (simp add: demux_search_def)
    also have "\<dots> = demux_loop (\<lambda>_. True) delay count (i + 1) (demux_take (delay ! i) (demux_search ?w st))"
      using False Some by (intro demux_loop_take assms(1) in_frame_search assms(2)) (simp add: demux_search_def)
    finally show ?thesis .
  qed
qed

lemma kept_push: "kept (demux_push st b) = tl (kept st) @ [b]"
  by (simp add: demux_push_def)

lemma kept_pushes:
  "length (kept st) = M17_SYNC_SIZE \<Longrightarrow> kept (foldl demux_push st bs) = slice (kept st @ bs) (length bs) M17_SYNC_SIZE"
proof (induction bs rule: rev_induct)
  case (snoc b bs)
  let ?l = "kept st @ bs"
  have s: "slice (kept st @ bs) (length bs) M17_SYNC_SIZE = drop (length bs) ?l"
    using snoc.prems by (simp add: slice_def)
  have "length (drop (length bs) ?l) = 16" using snoc.prems by (simp add: M17_SYNC_SIZE_def)
  moreover have "tl (drop n l) = drop (Suc n) l" for n and l :: "u8 list" by (simp add: drop_Suc tl_drop)
  moreover have "drop (Suc (length bs)) (?l @ [b]) = drop (Suc (length bs)) ?l @ [b]"
    using snoc.prems by (subst drop_append) (simp add: M17_SYNC_SIZE_def)
  ultimately have "tl (drop (length bs) ?l) @ [b] = drop (Suc (length bs)) (?l @ [b])" by (simp only:)
  moreover have "kept (foldl demux_push st (bs @ [b])) = tl (drop (length bs) ?l) @ [b]"
    using snoc s by (simp only: foldl_append foldl.simps kept_push)
  ultimately show ?case using snoc.prems by (simp add: slice_def M17_SYNC_SIZE_def)
qed (simp add: slice_def)

lemma in_frame_pushes: "in_frame st \<Longrightarrow> in_frame (foldl demux_push st bs)"
  by (induction bs arbitrary: st) (simp_all add: in_frame_push)

text \<open>The kept bits do not matter inside the loop.\<close>

lemma take_search_kept:
  "demux_take d (demux_search w (st\<lparr>kept := k\<rparr>)) = (demux_take d (demux_search w st))\<lparr>kept := k\<rparr>"
proof -
  have s: "demux_search w (st\<lparr>kept := k\<rparr>) = (demux_search w st)\<lparr>kept := k\<rparr>"
    by (simp add: demux_search_def split: option.splits)
  have b: "snd (demux_bit d (s\<lparr>kept := k\<rparr>)) = (snd (demux_bit d s))\<lparr>kept := k\<rparr>" for s
    by (simp add: demux_bit_def Let_def)
  have e: "snd (demux_end ok (s\<lparr>kept := k\<rparr>)) = (snd (demux_end ok s))\<lparr>kept := k\<rparr>" for ok s
    by (simp add: demux_end_def Let_def)
  show ?thesis by (simp add: s demux_take_def b e Let_def)
qed

lemma demux_loop_pushes:
  assumes "in_frame st" "length (kept st) = M17_SYNC_SIZE"
  shows "i \<le> length block \<Longrightarrow>
    demux_loop (\<lambda>_. True) (kept st @ block) (length block) 0 st =
    demux_loop (\<lambda>_. True) (kept st @ block) (length block) i ((foldl demux_push st (take i block))\<lparr>kept := kept st\<rparr>)"
proof (induction i)
  case (Suc i)
  define s where "s = foldl demux_push st (take i block)"
  have f: "in_frame (s\<lparr>kept := kept st\<rparr>)"
    using in_frame_pushes [OF assms(1)] by (simp add: s_def in_frame_def frame_type_ok_def)
  have ks: "kept s = slice (kept st @ block) i M17_SYNC_SIZE"
    using kept_pushes [OF assms(2), of "take i block"] Suc.prems assms(2) by (simp add: s_def slice_def drop_take M17_SYNC_SIZE_def)
  have "i < length (kept st @ block)" using Suc.prems by simp
  then have hd: "hd (kept s) = (kept st @ block) ! i"
    unfolding ks slice_def by (simp add: hd_drop_conv_nth hd_take M17_SYNC_SIZE_def del: drop_append take_append length_append)
  have "foldl demux_push st (take (Suc i) block) = demux_push s (block ! i)"
    using Suc.prems by (simp add: take_Suc_conv_app_nth s_def)
  moreover have "demux_loop (\<lambda>_. True) (kept st @ block) (length block) 0 st =
      demux_loop (\<lambda>_. True) (kept st @ block) (length block) (i + 1)
        (demux_take (hd (kept s)) (demux_search (kept s) (s\<lparr>kept := kept st\<rparr>)))"
    unfolding hd unfolding ks
    using Suc demux_loop_step [OF _ f, of i "length block" "kept st @ block"] by (simp add: s_def [symmetric])
  ultimately show ?case by (simp add: demux_push_def [of s] take_search_kept)
qed simp

lemma demux_run_pushes:
  assumes "in_frame st" "length (kept st) = M17_SYNC_SIZE" "M17_SYNC_SIZE + length block \<le> STREAM_BUFFER_SIZE"
  shows "demux_run (\<lambda>_. True) block st = Some (int (length block), foldl demux_push st block)"
proof -
  have "demux_loop (\<lambda>_. True) (kept st @ block) (length block) 0 st = Some (True, (foldl demux_push st block)\<lparr>kept := kept st\<rparr>)"
    using demux_loop_pushes [OF assms(1,2), of "length block" block] by (simp add: demux_loop.simps)
  moreover have "slice (kept st @ block) (length block) M17_SYNC_SIZE = kept (foldl demux_push st block)"
    using kept_pushes [OF assms(2)] by simp
  ultimately show ?thesis using assms(3) by (simp add: demux_run_def)
qed

text \<open>The runs of the block on successive blocks of the stream, until one fails.\<close>

fun demux_runs :: "(m17_link \<Rightarrow> bool) \<Rightarrow> u8 list list \<Rightarrow> m17_demux \<Rightarrow> m17_demux option" where
  "demux_runs ok [] st = Some st"
| "demux_runs ok (b # bs) st =
    (case demux_run ok b st of None \<Rightarrow> None | Some (r, st) \<Rightarrow> if r < 0 then Some st else demux_runs ok bs st)"

lemma runs_push:
  assumes "in_frame st" "length (kept st) = M17_SYNC_SIZE" "list_all (\<lambda>b. length b \<le> STREAM_BUFFER_SIZE - M17_SYNC_SIZE) blocks"
  shows "demux_runs (\<lambda>_. True) blocks st = Some (foldl demux_push st (concat blocks))"
  using assms
proof (induction blocks arbitrary: st)
  case (Cons b bs)
  let ?st = "foldl demux_push st b"
  have "length (kept ?st) = M17_SYNC_SIZE" using kept_pushes [OF Cons.prems(2), of b] Cons.prems(2) by simp
  moreover have "demux_run (\<lambda>_. True) b st = Some (int (length b), ?st)"
    using Cons.prems by (intro demux_run_pushes) (auto simp: M17_SYNC_SIZE_def STREAM_BUFFER_SIZE_def)
  ultimately show ?case using Cons in_frame_pushes [OF Cons.prems(1), of b] by simp
qed simp

text \<open>
  C29. How the stream of bits is cut into blocks does not matter: two cuts of the same stream bring the
  demultiplexer to the same state, with the same blocks handed over, though it searches for 16-bit words across the borders and loops
  without moving on when it finds one. The blocks must fit into the delay buffer behind the 16 kept bits, and the state be one
  the demultiplexer can be in: in a frame of one of the three types, or in none.
\<close>

theorem demux_ignores_block_boundaries:
  assumes "in_frame st" "length (kept st) = 16" "concat blocks = concat blocks'"
    "list_all (\<lambda>b. length b \<le> 999984) blocks" "list_all (\<lambda>b. length b \<le> 999984) blocks'"
  shows "\<exists>st'. demux_runs (\<lambda>_. True) blocks st = Some st' \<and> demux_runs (\<lambda>_. True) blocks' st = Some st'"
  using assms runs_push [OF assms(1)] by (simp add: M17_SYNC_SIZE_def STREAM_BUFFER_SIZE_def)

section \<open>A frame is delivered\<close>

text \<open>
  The interleaver is the quadratic permutation polynomial \<open>45 x + 92 x\<^sup>2\<close> modulo 368: its values go up
  by 137 and by 321 in turn.
\<close>

fun steps_ok :: "int \<Rightarrow> int \<Rightarrow> int list \<Rightarrow> bool" where
  "steps_ok v a [] = True"
| "steps_ok v a (w # ws) = ((if v + a < 368 then v + a else v + a - 368) = w \<and> steps_ok w (458 - a) ws)"

lemma interleaver_steps: "steps_ok (- 321) 321 (map int M17_INTERLEAVER)"
  unfolding M17_INTERLEAVER_def by (simp only: list.map of_nat_numeral of_nat_0 of_nat_1) code_simp

lemma steps_ok_nth:
  "steps_ok v a ws \<Longrightarrow> 368 dvd v - (45 * x + 92 * x * x) \<Longrightarrow> a = (if even x then 137 else 321) \<Longrightarrow> i < length ws \<Longrightarrow>
    368 dvd ws ! i - (45 * (x + 1 + int i) + 92 * (x + 1 + int i) * (x + 1 + int i))"
proof (induction v a ws arbitrary: x i rule: steps_ok.induct)
  case (2 v a w ws)
  obtain k where k: "v = 45 * x + 92 * x * x + 368 * k" using 2(3) by (elim dvdE) (simp add: algebra_simps)
  have w: "368 dvd w - (45 * (x + 1) + 92 * (x + 1) * (x + 1))"
  proof -
    define y b where "y = x div 2" and "b = x mod 2"
    have y: "x = 2 * y + b" "a = 137 + 184 * b"
      using 2(4) by (auto simp: y_def b_def mod_2_eq_odd)
    have "w = v + a \<or> w = v + a - 368" using 2(2) by (auto split: if_splits)
    then have "w - (45 * (x + 1) + 92 * (x + 1) * (x + 1)) = 368 * (k - y) \<or>
      w - (45 * (x + 1) + 92 * (x + 1) * (x + 1)) = 368 * (k - y - 1)"
      by (auto simp: k y algebra_simps)
    then show ?thesis by (metis dvd_triv_left)
  qed
  show ?case
  proof (cases i)
    case 0
    with w 2(2) show ?thesis by simp
  next
    case (Suc n)
    have "458 - a = (if even (x + 1) then 137 else 321)" using 2(4) by simp
    then have "368 dvd ws ! n - (45 * (x + 1 + 1 + int n) + 92 * (x + 1 + 1 + int n) * (x + 1 + 1 + int n))"
      using 2(2,5) w Suc by (intro 2(1)) auto
    moreover have "x + 1 + int i = x + 1 + 1 + int n" using Suc by simp
    ultimately show ?thesis by (simp only: Suc nth_Cons_Suc)
  qed
qed simp

lemma polynomial_inj:
  fixes X Y q :: int
  assumes "368 dvd (45 * X + 92 * X * X) - (45 * Y + 92 * Y * Y)"
  shows "368 dvd X - Y"
proof -
  obtain q where q: "(45 * X + 92 * X * X) - (45 * Y + 92 * Y * Y) = 368 * q" using assms by (elim dvdE)
  let ?s = "X + Y"
  have "X - Y = ((45 * X + 92 * X * X) - (45 * Y + 92 * Y * Y)) * (45 - 92 * ?s) * 185 -
      368 * ((X - Y) * (1018 - 4255 * ?s * ?s))"
    by (simp add: algebra_simps)
  also have "\<dots> = 368 * (q * (45 - 92 * ?s) * 185 - (X - Y) * (1018 - 4255 * ?s * ?s))"
    unfolding q by (simp add: algebra_simps)
  finally show ?thesis by (metis dvd_triv_left)
qed

lemma interleaver_perm: "length M17_INTERLEAVER = 368" "distinct M17_INTERLEAVER" "set M17_INTERLEAVER \<subseteq> {..<368}"
proof -
  show l: "length M17_INTERLEAVER = 368" by (simp add: M17_INTERLEAVER_def)
  show "set M17_INTERLEAVER \<subseteq> {..<368}" by (simp add: M17_INTERLEAVER_def)
  have p: "368 dvd int (M17_INTERLEAVER ! i) - (45 * int i + 92 * int i * int i)" if "i < 368" for i
    using steps_ok_nth [OF interleaver_steps, of "- 1" i] that l by simp
  have "i = j" if "i < 368" "j < 368" "M17_INTERLEAVER ! i = M17_INTERLEAVER ! j" for i j
  proof -
    have "368 dvd (45 * int i + 92 * int i * int i) - (45 * int j + 92 * int j * int j)"
      using dvd_diff [OF p [OF that(2)] p [OF that(1)]] that(3) by (simp add: algebra_simps)
    then have "368 dvd int i - int j" by (rule polynomial_inj)
    moreover have "\<bar>int i - int j\<bar> < 368" using that(1,2) by linarith
    ultimately show ?thesis using dvd_imp_le_int [of "int i - int j" 368] by fastforce
  qed
  then show "distinct M17_INTERLEAVER" by (auto simp: distinct_conv_nth l)
qed

text \<open>What a transmitter sends for the 368 bits of a frame.\<close>

definition m17_transmit :: "u8 list \<Rightarrow> u8 list" where
  "m17_transmit f = map (\<lambda>p. f ! (M17_INTERLEAVER ! p) XOR M17_SCRAMBLER ! p) [0..<368]"

lemma interleaver_surj: "k < 368 \<Longrightarrow> \<exists>p < 368. M17_INTERLEAVER ! p = k"
proof -
  have "card (set M17_INTERLEAVER) = card {..<368 :: nat}" using interleaver_perm by (simp add: distinct_card)
  then have "set M17_INTERLEAVER = {..<368}" using interleaver_perm by (intro card_subset_eq) simp_all
  then show "k < 368 \<Longrightarrow> ?thesis" using interleaver_perm(1) by (metis in_set_conv_nth lessThan_iff)
qed

text \<open>The bits with an interleaved position in a range, stored by it, are that range of the frame.\<close>

lemma stored_range:
  assumes "hi \<le> 368" "length f = 368" "hi - off \<le> length buf"
  shows "take (hi - off) (store_loop (\<lambda>p. M17_INTERLEAVER ! p - off) (\<lambda>p. f ! (M17_INTERLEAVER ! p))
      (filter (\<lambda>p. off \<le> M17_INTERLEAVER ! p \<and> M17_INTERLEAVER ! p < hi) [0..<368]) buf) = slice f off (hi - off)"
    (is "take _ (store_loop ?a ?g ?ps buf) = _")
proof (rule nth_equalityI)
  show "length (take (hi - off) (store_loop ?a ?g ?ps buf)) = length (slice f off (hi - off))"
    using assms by (simp add: slice_def)
next
  fix j assume "j < length (take (hi - off) (store_loop ?a ?g ?ps buf))"
  then have j: "j < hi - off" by simp
  then have "off + j < 368" using assms(1) by simp
  then obtain p where p: "p < 368" "M17_INTERLEAVER ! p = off + j" using interleaver_surj by blast
  have "store_loop ?a ?g ?ps buf ! ?a p = ?g p"
  proof (rule nth_store_loop)
    have "q = r" if "q \<in> set ?ps" "r \<in> set ?ps" "?a q = ?a r" for q r
      using that nth_eq_iff_index_eq [OF interleaver_perm(2), of q r] interleaver_perm(1) by auto
    then show "distinct (map ?a ?ps)" unfolding distinct_map inj_on_def by simp
    show "p \<in> set ?ps" using p j by auto
    show "?a p < length buf" using p j assms(3) by simp
  qed
  with p j assms show "take (hi - off) (store_loop ?a ?g ?ps buf) ! j = slice f off (hi - off) ! j"
    by (simp add: slice_def)
qed

section \<open>The bits of a frame\<close>

definition put_bit :: "u8 list \<Rightarrow> m17_demux \<Rightarrow> nat \<Rightarrow> m17_demux" where
  "put_bit x st p =
    (let id = M17_INTERLEAVER ! p; b = x ! p XOR M17_SCRAMBLER ! p
     in if ftype st = 0 then st\<lparr>linkSetupOut := out_put id b (linkSetupOut st)\<rparr>
        else if id < M17_LICH_SIZE then st\<lparr>lichOut := out_put id b (lichOut st)\<rparr>
        else if ftype st = 1 then st\<lparr>streamOut := out_put (id - M17_LICH_SIZE) b (streamOut st)\<rparr>
        else st\<lparr>packetOut := out_put (id - M17_LICH_SIZE) b (packetOut st)\<rparr>)"

abbreviation takes :: "m17_demux \<Rightarrow> u8 list \<Rightarrow> m17_demux" where
  "takes st ds \<equiv> foldl (\<lambda>s d. demux_take d s) st ds"

lemma demux_take_sync:
  "detect st \<Longrightarrow> outCount st < 16 \<Longrightarrow> demux_take d st = st\<lparr>outCount := outCount st + 1\<rparr>"
  by (simp add: demux_take_def demux_bit_def M17_SYNC_SIZE_def M17_RAW_FRAME_SIZE_def)

lemma takes_sync:
  "detect st \<Longrightarrow> outCount st + length ds \<le> 16 \<Longrightarrow> takes st ds = st\<lparr>outCount := outCount st + length ds\<rparr>"
  by (induction ds arbitrary: st) (simp_all add: demux_take_sync)

lemma put_bit_simps:
  "detect (put_bit x st p) = detect st" "ftype (put_bit x st p) = ftype st" "outCount (put_bit x st p) = outCount st"
  "kept (put_bit x st p) = kept st" "put_bit x (st\<lparr>outCount := n\<rparr>) p = (put_bit x st p)\<lparr>outCount := n\<rparr>"
  by (simp_all add: put_bit_def Let_def)

lemma put_bits_simps:
  "detect (foldl (put_bit x) st ps) = detect st" "ftype (foldl (put_bit x) st ps) = ftype st"
  "outCount (foldl (put_bit x) st ps) = outCount st"
  by (induction ps arbitrary: st) (simp_all add: put_bit_simps)

lemma demux_bit_frame:
  assumes "frame_type_ok st" "outCount st = 16 + q"
  shows "snd (demux_bit (x ! q) st) = (put_bit x st q)\<lparr>outCount := 16 + q + 1\<rparr>"
  using assms by (auto simp: demux_bit_def put_bit_def frame_type_ok_def Let_def M17_SYNC_SIZE_def)

lemma takes_bits:
  assumes "detect st" "frame_type_ok st" "outCount st = 16" "length x = 368"
  shows "q < 368 \<Longrightarrow> takes st (take q x) = (foldl (put_bit x) st [0..<q])\<lparr>outCount := 16 + q\<rparr>"
proof (induction q)
  case 0
  then show ?case using assms by simp
next
  case (Suc q)
  let ?s = "(foldl (put_bit x) st [0..<q])\<lparr>outCount := 16 + q\<rparr>"
  have "frame_type_ok ?s" using assms(2) by (simp add: frame_type_ok_def put_bits_simps)
  then have "snd (demux_bit (x ! q) ?s) = (put_bit x ?s q)\<lparr>outCount := 16 + q + 1\<rparr>" by (rule demux_bit_frame) simp
  then have "demux_take (x ! q) ?s = (put_bit x ?s q)\<lparr>outCount := 16 + q + 1\<rparr>"
    using Suc.prems assms(1) by (simp add: demux_take_def put_bits_simps Let_def M17_RAW_FRAME_SIZE_def)
  then show ?case using Suc assms(4) by (simp add: take_Suc_conv_app_nth put_bit_simps)
qed

lemma takes_frame:
  assumes "detect st" "frame_type_ok st" "outCount st = 0" "length s = 16" "length x = 368"
  shows "takes st (s @ x) = snd (demux_end (\<lambda>_. True) ((foldl (put_bit x) st [0..<368])\<lparr>outCount := 384\<rparr>))"
proof -
  let ?st = "st\<lparr>outCount := 16\<rparr>"
  let ?s = "(foldl (put_bit x) ?st [0..<367])\<lparr>outCount := 16 + 367\<rparr>"
  have "x = take 367 x @ [x ! 367]" using take_Suc_conv_app_nth [of 367 x] assms(5) by simp
  moreover have "takes ?st (take 367 x @ [x ! 367]) = demux_take (x ! 367) (takes ?st (take 367 x))" by simp
  ultimately have "takes ?st x = demux_take (x ! 367) (takes ?st (take 367 x))" by (simp only:)
  also have "takes ?st (take 367 x) = ?s" using takes_bits [of ?st x 367] assms by (simp add: frame_type_ok_def)
  finally have t: "takes ?st x = demux_take (x ! 367) ?s" .
  have f: "frame_type_ok ?s" using assms(2) by (simp add: frame_type_ok_def put_bits_simps)
  have b: "snd (demux_bit (x ! 367) ?s) = (put_bit x ?s 367)\<lparr>outCount := 16 + 367 + 1\<rparr>" using f by (rule demux_bit_frame) simp
  have "[0..<368] = [0..<367] @ [367]" using upt_Suc_append [of 0 367] by simp
  then have c: "foldl (put_bit x) st [0..<368] = put_bit x (foldl (put_bit x) st [0..<367]) 367" by simp
  have e: "foldl (put_bit x) (st\<lparr>outCount := n\<rparr>) ps = (foldl (put_bit x) st ps)\<lparr>outCount := n\<rparr>" for n ps
    by (induction ps arbitrary: st) (simp_all add: put_bit_simps)
  have "takes st (s @ x) = takes ?st x" using takes_sync [of st s] assms by simp
  also have "\<dots> = snd (demux_end (\<lambda>_. True) ((put_bit x ?s 367)\<lparr>outCount := 384\<rparr>))"
    unfolding t demux_take_def [of _ ?s] b using assms(1) by (simp add: put_bits_simps M17_RAW_FRAME_SIZE_def)
  also have "(put_bit x ?s 367)\<lparr>outCount := 384\<rparr> = (foldl (put_bit x) st [0..<368])\<lparr>outCount := 384\<rparr>"
    using c by (simp add: put_bit_simps e)
  finally show ?thesis .
qed


lemma pushes_takes:
  assumes "length (kept st) = 16"
  shows "n \<le> length bs \<Longrightarrow> (\<And>m. m < n \<Longrightarrow> detect (takes st (take m (kept st @ bs)))) \<Longrightarrow>
    foldl demux_push st (take n bs) = (takes st (take n (kept st @ bs)))\<lparr>kept := slice (kept st @ bs) n 16\<rparr>"
proof (induction n)
  case 0
  then show ?case using assms by (simp add: slice_def)
next
  case (Suc n)
  let ?t = "takes st (take n (kept st @ bs))"
  let ?k = "slice (kept st @ bs) n 16"
  have IH: "foldl demux_push st (take n bs) = ?t\<lparr>kept := ?k\<rparr>" using Suc by simp
  have "n < length (kept st @ bs)" using Suc.prems(1) by simp
  then have h: "hd ?k = (kept st @ bs) ! n" "take (Suc n) (kept st @ bs) = take n (kept st @ bs) @ [(kept st @ bs) ! n]"
    by (simp_all add: slice_def hd_drop_conv_nth take_Suc_conv_app_nth del: drop_append take_append length_append)
  have k: "kept (foldl demux_push st (take (Suc n) bs)) = slice (kept st @ bs) (Suc n) 16"
    using kept_pushes [of st "take (Suc n) bs"] Suc.prems(1) assms by (simp add: slice_def drop_take M17_SYNC_SIZE_def)
  have "demux_search ?k (?t\<lparr>kept := ?k\<rparr>) = ?t\<lparr>kept := ?k\<rparr>"
    using Suc.prems(2) [of n] by (simp add: demux_search_def)
  moreover have "demux_take d (?t\<lparr>kept := j\<rparr>) = (demux_take d ?t)\<lparr>kept := j\<rparr>" for d j
    using take_search_kept [where d = d and w = "[]" and st = ?t and k = j] Suc.prems(2) [of n] by (simp add: demux_search_def)
  moreover have "takes st (take (Suc n) (kept st @ bs)) = demux_take (hd ?k) ?t" unfolding h(1,2) by simp
  moreover have "foldl demux_push st (take (Suc n) bs) = demux_push (foldl demux_push st (take n bs)) (bs ! n)"
    using Suc.prems(1) by (simp add: take_Suc_conv_app_nth)
  ultimately have "\<exists>j. foldl demux_push st (take (Suc n) bs) = (takes st (take (Suc n) (kept st @ bs)))\<lparr>kept := j\<rparr>"
    unfolding IH demux_push_def [of "?t\<lparr>kept := ?k\<rparr>"] by auto
  then show ?case using k by auto
qed

lemma transmit_bits: "length f = 368 \<Longrightarrow> p < 368 \<Longrightarrow> m17_transmit f ! p XOR M17_SCRAMBLER ! p = f ! (M17_INTERLEAVER ! p)"
  by (simp add: m17_transmit_def)

abbreviation filled :: "nat \<Rightarrow> nat \<Rightarrow> u8 list \<Rightarrow> nat list \<Rightarrow> u8 list \<Rightarrow> u8 list" where
  "filled off hi f ps buf \<equiv> store_loop (\<lambda>p. M17_INTERLEAVER ! p - off) (\<lambda>p. f ! (M17_INTERLEAVER ! p))
    (filter (\<lambda>p. off \<le> M17_INTERLEAVER ! p \<and> M17_INTERLEAVER ! p < hi) ps) buf"

lemma interleaver_less: "p < 368 \<Longrightarrow> M17_INTERLEAVER ! p < 368"
  using interleaver_perm by (metis lessThan_iff nth_mem subsetD)

lemma put_bits:
  assumes "length f = 368" "set ps \<subseteq> {..<368}"
  shows "ftype st = 0 \<Longrightarrow> foldl (put_bit (m17_transmit f)) st ps =
      st\<lparr>linkSetupOut := (linkSetupOut st)\<lparr>wbuf := filled 0 368 f ps (wbuf (linkSetupOut st))\<rparr>\<rparr>"
    "ftype st = 1 \<Longrightarrow> foldl (put_bit (m17_transmit f)) st ps =
      st\<lparr>lichOut := (lichOut st)\<lparr>wbuf := filled 0 96 f ps (wbuf (lichOut st))\<rparr>,
         streamOut := (streamOut st)\<lparr>wbuf := filled 96 368 f ps (wbuf (streamOut st))\<rparr>\<rparr>"
    "ftype st = 2 \<Longrightarrow> foldl (put_bit (m17_transmit f)) st ps =
      st\<lparr>lichOut := (lichOut st)\<lparr>wbuf := filled 0 96 f ps (wbuf (lichOut st))\<rparr>,
         packetOut := (packetOut st)\<lparr>wbuf := filled 96 368 f ps (wbuf (packetOut st))\<rparr>\<rparr>"
  using assms(2)
  by (induction ps arbitrary: st)
    (auto simp: put_bit_def transmit_bits [OF assms(1)] Let_def interleaver_less M17_LICH_SIZE_def out_put_def not_less)

definition m17_sync :: "int \<Rightarrow> u8 list" where
  "m17_sync t = (if t = 0 then M17_LSF_SYNC else if t = 1 then M17_STF_SYNC else M17_PKF_SYNC)"

lemma sync_type_sync: "t \<in> {0, 1, 2} \<Longrightarrow> sync_type (m17_sync t) = Some t" "length (m17_sync t) = 16"
  by (auto simp: sync_type_def m17_sync_def M17_LSF_SYNC_def M17_STF_SYNC_def M17_PKF_SYNC_def)

lemma pushes_idle:
  "\<not> detect st \<Longrightarrow> length (kept st) = 16 \<Longrightarrow> (\<And>j. j < length bs \<Longrightarrow> sync_type (slice (kept st @ bs) j 16) = None) \<Longrightarrow>
    foldl demux_push st bs = st\<lparr>kept := slice (kept st @ bs) (length bs) 16\<rparr>"
proof (induction bs rule: rev_induct)
  case (snoc b bs)
  have w: "slice (kept st @ bs @ [b]) j 16 = slice (kept st @ bs) j 16" if "j \<le> length bs" for j
    using that snoc.prems(2) by (simp add: slice_def)
  have "foldl demux_push st bs = st\<lparr>kept := slice (kept st @ bs) (length bs) 16\<rparr>"
  proof (rule snoc.IH)
    show "sync_type (slice (kept st @ bs) j 16) = None" if "j < length bs" for j
      using snoc.prems(3) [of j] w [of j] that by simp
  qed (use snoc.prems in auto)
  moreover have "sync_type (slice (kept st @ bs) (length bs) 16) = None"
    using snoc.prems(3) [of "length bs"] w [of "length bs"] by simp
  moreover have "kept (foldl demux_push st (bs @ [b])) = slice (kept st @ bs @ [b]) (length (bs @ [b])) 16"
    using kept_pushes [of st "bs @ [b]"] snoc.prems(2) by (simp add: M17_SYNC_SIZE_def)
  ultimately show ?case
    using snoc.prems(1)
    by (simp add: demux_push_def [of "st\<lparr>kept := slice (kept st @ bs) (length bs) 16\<rparr>"] demux_search_def demux_take_def)
qed (simp add: slice_def)

lemma pushes_frame:
  assumes st: "\<not> detect st" "kept st = m17_sync t" and t: "t \<in> {0, 1, 2}"
    and len: "length f = 368" "length y = 16"
  shows "foldl demux_push st (m17_transmit f @ y) =
    (snd (demux_end (\<lambda>_. True) ((foldl (put_bit (m17_transmit f)) (st\<lparr>detect := True, outCount := 0, ftype := t\<rparr>) [0..<368])\<lparr>outCount := 384\<rparr>)))\<lparr>kept := y\<rparr>"
proof -
  let ?bs = "m17_transmit f @ y"
  let ?s = "st\<lparr>detect := True, outCount := 0, ftype := t\<rparr>"
  have lx: "length (m17_transmit f) = 368" by (simp add: m17_transmit_def)
  have bs: "?bs = hd ?bs # tl ?bs" using lx by (cases "m17_transmit f") auto
  have push: "demux_push st b = demux_push ?s b" for b
    using st sync_type_sync(1) [OF t] by (simp add: demux_push_def demux_search_def)
  have f: "frame_type_ok ?s" using t by (auto simp: frame_type_ok_def)
  have "foldl demux_push st ?bs = foldl demux_push ?s (take 384 ?bs)"
    using lx len(2) push by (subst bs, subst (2) bs) simp
  also have "\<dots> = (takes ?s (take 384 (kept ?s @ ?bs)))\<lparr>kept := slice (kept ?s @ ?bs) 384 16\<rparr>"
  proof (rule pushes_takes)
    show "length (kept ?s) = 16" using st sync_type_sync(2) by simp
    show "384 \<le> length ?bs" using lx len(2) by simp
    fix m :: nat assume m: "m < 384"
    show "detect (takes ?s (take m (kept ?s @ ?bs)))"
    proof (cases "m \<le> 16")
      case True
      then show ?thesis using takes_sync [of ?s "take m (kept ?s @ ?bs)"] by simp
    next
      case False
      then have "take m (kept ?s @ ?bs) = m17_sync t @ take (m - 16) (m17_transmit f)"
        using m lx st sync_type_sync(2) [of t] by simp
      moreover have "takes ?s (m17_sync t) = ?s\<lparr>outCount := 16\<rparr>"
        using takes_sync [of ?s "m17_sync t"] sync_type_sync(2) [of t] by simp
      moreover have "detect (takes (?s\<lparr>outCount := 16\<rparr>) (take (m - 16) (m17_transmit f)))"
        using takes_bits [of "?s\<lparr>outCount := 16\<rparr>" "m17_transmit f" "m - 16"] f m False lx
        by (simp add: frame_type_ok_def put_bits_simps)
      ultimately show ?thesis by simp
    qed
  qed
  also have "take 384 (kept ?s @ ?bs) = m17_sync t @ m17_transmit f" using lx st sync_type_sync(2) [of t] by simp
  also have "slice (kept ?s @ ?bs) 384 16 = y" using lx st len sync_type_sync(2) [of t] by (simp add: slice_def)
  also have "takes ?s (m17_sync t @ m17_transmit f) =
      snd (demux_end (\<lambda>_. True) ((foldl (put_bit (m17_transmit f)) ?s [0..<368])\<lparr>outCount := 384\<rparr>))"
    using f lx sync_type_sync(2) by (intro takes_frame) simp_all
  finally show ?thesis .
qed


text \<open>What the outputs have handed over.\<close>

definition m17_outputs :: "m17_demux \<Rightarrow> u8 list list \<times> u8 list list \<times> u8 list list \<times> u8 list list" where
  "m17_outputs st = (handed (linkSetupOut st), handed (lichOut st), handed (streamOut st), handed (packetOut st))"

definition m17_buffers :: "m17_demux \<Rightarrow> bool" where
  "m17_buffers st \<longleftrightarrow> 368 \<le> length (wbuf (linkSetupOut st)) \<and> 368 \<le> length (wbuf (lichOut st)) \<and>
     368 \<le> length (wbuf (streamOut st)) \<and> 368 \<le> length (wbuf (packetOut st))"

text \<open>
  The outputs after a frame: the 272 bits behind the link information channel are followed by 96 old ones.
\<close>

definition m17_delivered :: "int \<Rightarrow> u8 list \<Rightarrow> m17_demux \<Rightarrow> u8 list list \<times> u8 list list \<times> u8 list list \<times> u8 list list" where
  "m17_delivered t f st =
    (let (link, lich, strm, pkt) = m17_outputs st
     in if t = 0 then (link @ [f], lich, strm, pkt)
        else if t = 1 then (link, lich @ [take 96 f], strm @ [drop 96 f @ slice (wbuf (streamOut st)) 272 96], pkt)
        else (link, lich @ [take 96 f], strm, pkt @ [drop 96 f @ slice (wbuf (packetOut st)) 272 96]))"

lemma filled_all:
  assumes "length f = 368" "368 \<le> length buf"
  shows "take 368 (filled 0 368 f [0..<368] buf) = f" "take 96 (filled 0 96 f [0..<368] buf) = take 96 f"
    "take 368 (filled 96 368 f [0..<368] buf) = drop 96 f @ slice buf 272 96"
proof -
  show "take 368 (filled 0 368 f [0..<368] buf) = f" using stored_range [of 368 f 0 buf] assms by (simp add: slice_def)
  show "take 96 (filled 0 96 f [0..<368] buf) = take 96 f" using stored_range [of 96 f 0 buf] assms by (simp add: slice_def)
  let ?l = "filled 96 368 f [0..<368] buf"
  have "take 272 ?l = drop 96 f" using stored_range [of 368 f 96 buf] assms by (simp add: slice_def)
  moreover have "drop 272 (take 368 ?l) = slice buf 272 96"
  proof (rule nth_equalityI)
    fix j assume "j < length (drop 272 (take 368 ?l))"
    then have j: "j < 96" using assms by simp
    have "?l ! (272 + j) = buf ! (272 + j)"
      by (rule nth_store_loop_notin) (auto dest: interleaver_less)
    with j assms show "drop 272 (take 368 ?l) ! j = slice buf 272 96 ! j" by (simp add: slice_def)
  qed (use assms in \<open>simp add: slice_def\<close>)
  ultimately show "take 368 ?l = drop 96 f @ slice buf 272 96"
    using append_take_drop_id [of 272 "take 368 ?l"] by (simp only: take_take) simp
qed

lemma frame_outputs:
  assumes "\<not> detect st" "kept st = m17_sync t" "t \<in> {0, 1, 2}" "length f = 368" "length y = 16" "m17_buffers st"
  shows "m17_outputs (foldl demux_push st (m17_transmit f @ y)) = m17_delivered t f st"
    "\<not> detect (foldl demux_push st (m17_transmit f @ y))" "kept (foldl demux_push st (m17_transmit f @ y)) = y"
proof -
  note p = pushes_frame [OF assms(1-5)]
  note fs = put_bits [OF assms(4), of "[0..<368]"] filled_all [OF assms(4)] filled_all [OF assms(4), simplified]
  show "\<not> detect (foldl demux_push st (m17_transmit f @ y))" "kept (foldl demux_push st (m17_transmit f @ y)) = y"
    unfolding p by (simp_all add: demux_end_simps)
  show "m17_outputs (foldl demux_push st (m17_transmit f @ y)) = m17_delivered t f st"
    unfolding p using assms(3,6)
    by (auto simp: fs atLeast_upt m17_outputs_def m17_delivered_def demux_end_def Let_def out_swap_def m17_buffers_def
        M17_CUT_FRAME_SIZE_def M17_LICH_SIZE_def)
qed

text \<open>
  C18. A frame is received: in a stream in which no synchronisation word appears before its own, cut into
  blocks in any way, the 368 bits that follow the word, scrambled and interleaved by the transmitter, are handed to the outputs of the
  type of frame, de-interleaved and descrambled, each once, and the search starts again with the next bits.
\<close>

theorem m17_frame_received:
  assumes "\<not> detect st" "length (kept st) = 16" "m17_buffers st" "t \<in> {0, 1, 2}" "length f = 368" "length y = 16"
    "\<And>j. j < length noise + 16 \<Longrightarrow> sync_type (slice (kept st @ noise @ m17_sync t) j 16) = None"
    "concat blocks = noise @ m17_sync t @ m17_transmit f @ y" "list_all (\<lambda>b. length b \<le> 999984) blocks"
  shows "\<exists>st'. demux_runs (\<lambda>_. True) blocks st = Some st' \<and> m17_outputs st' = m17_delivered t f st \<and>
    \<not> detect st' \<and> kept st' = y"
proof -
  let ?st = "st\<lparr>kept := m17_sync t\<rparr>"
  have "foldl demux_push st (noise @ m17_sync t) = ?st"
    using pushes_idle [OF assms(1,2), of "noise @ m17_sync t"] assms(2,7) sync_type_sync(2) [of t]
    by (simp add: slice_def)
  then have f: "foldl demux_push st (concat blocks) = foldl demux_push ?st (m17_transmit f @ y)" using assms(8) by simp
  have "m17_outputs (foldl demux_push ?st (m17_transmit f @ y)) = m17_delivered t f ?st"
    "\<not> detect (foldl demux_push ?st (m17_transmit f @ y))" "kept (foldl demux_push ?st (m17_transmit f @ y)) = y"
    using frame_outputs [of ?st t f y] assms by (simp_all add: m17_buffers_def)
  moreover have "m17_delivered t f ?st = m17_delivered t f st" by (simp add: m17_delivered_def m17_outputs_def)
  moreover have "demux_runs (\<lambda>_. True) blocks st = Some (foldl demux_push st (concat blocks))"
    using assms by (intro runs_push) (simp_all add: in_frame_def M17_SYNC_SIZE_def STREAM_BUFFER_SIZE_def)
  ultimately show ?thesis by (simp only: f simp_thms ex_simps option.inject)
qed

definition m17_idle :: "m17_demux" where
  "m17_idle = (let c = \<lparr>wbuf = replicate 368 0, rbuf = replicate 368 0, handed = []\<rparr>
     in \<lparr>linkSetupOut = c, lichOut = c, streamOut = c, packetOut = c, detect = False, ftype = 7, outCount = 0,
         kept = replicate 16 0\<rparr>)"

theorem m17_frame_received_witness:
  "\<exists>st'. demux_runs (\<lambda>_. True) [m17_sync 1 @ m17_transmit (replicate 368 1), replicate 16 0] m17_idle = Some st' \<and>
    m17_outputs st' = m17_delivered 1 (replicate 368 1) m17_idle \<and> \<not> detect st' \<and> kept st' = replicate 16 0"
proof (rule m17_frame_received [where noise = "[]"])
  fix j :: nat assume "j < length ([] :: u8 list) + 16"
  then have "j < 16" by simp
  then show "sync_type (slice (kept m17_idle @ [] @ m17_sync 1) j 16) = None"
    by (rule less_16_cases)
      (simp_all add: m17_idle_def m17_sync_def M17_STF_SYNC_def Let_def slice_def sync_type_def M17_LSF_SYNC_def M17_PKF_SYNC_def numeral_eq_Suc)
qed (simp_all add: m17_idle_def m17_buffers_def Let_def m17_transmit_def m17_sync_def M17_STF_SYNC_def)

theorem demux_ignores_block_boundaries_witness:
  "\<exists>st'. demux_runs (\<lambda>_. True) [[1, 0], [1]] m17_idle = Some st' \<and> demux_runs (\<lambda>_. True) [[1], [0, 1]] m17_idle = Some st'"
  by (rule demux_ignores_block_boundaries) (simp_all add: m17_idle_def in_frame_def Let_def)

end
