(* ===== verification/M17Golay.thy ===== *)
theory M17Golay
  imports Prelude
begin

text \<open>
  The Golay code of the M17 decoder (decoder_modules/m17_decoder/src/golay24.h): the encoder, the table of
  the syndromes of all errors of up to three bits, sorted by the quicksort of the header, and the decoder
  that looks the syndrome up in it.
\<close>

section \<open>Code words and syndromes\<close>

definition POLY :: u32 where "POLY = 0xC75"

definition popcount :: "u32 \<Rightarrow> nat" where
  "popcount n = foldl (\<lambda>count i. count + unat (drop_bit i n AND 1)) 0 [0..<32]"

definition golay_step :: "u32 \<Rightarrow> u32" where
  "golay_step codeword = drop_bit 1 (if codeword AND 1 \<noteq> 0 then codeword XOR POLY else codeword)"

definition golay_reduce :: "u32 \<Rightarrow> u32" where
  "golay_reduce codeword = foldl (\<lambda>codeword i. golay_step codeword) codeword [0..<12]"

definition syndrome :: "u32 \<Rightarrow> u32" where
  "syndrome codeword = push_bit 12 (golay_reduce (codeword AND 0xFFFFFF))"

definition parity :: "u32 \<Rightarrow> bool" where
  "parity codeword = odd (popcount codeword)"

definition encode23 :: "u16 \<Rightarrow> u32" where
  "encode23 data = golay_reduce (ucast data) OR push_bit 11 (ucast data)"

definition encode24 :: "u16 \<Rightarrow> u32" where
  "encode24 data = (let codeword = encode23 data in push_bit 1 codeword OR of_bool (parity codeword))"

section \<open>The sort of the table\<close>

definition swap_at :: "'a list \<Rightarrow> nat \<Rightarrow> nat \<Rightarrow> 'a list" where
  "swap_at xs i j = xs[i := xs ! j, j := xs ! i]"

definition partition_step :: "nat \<Rightarrow> nat \<times> 'a::linorder list \<Rightarrow> nat \<Rightarrow> nat \<times> 'a list" where
  "partition_step left mxs i =
    (let (m, xs) = mxs in if xs ! i < xs ! left then (m + 1, swap_at xs (m + 1) i) else (m, xs))"

definition sort_partition :: "'a::linorder list \<Rightarrow> nat \<Rightarrow> nat \<Rightarrow> nat \<times> 'a list" where
  "sort_partition xs left right =
    (let (m, xs) = foldl (partition_step left) (left, xs) [left + 1..<right] in (m, swap_at xs left m))"

lemma partition_step_bounds:
  "fst mxs \<le> fst (partition_step left mxs i) \<and> fst (partition_step left mxs i) \<le> fst mxs + 1"
  by (cases mxs) (simp add: partition_step_def)

lemma partition_fold_bounds:
  "fst mxs \<le> fst (foldl (partition_step left) mxs is) \<and>
    fst (foldl (partition_step left) mxs is) \<le> fst mxs + length is"
proof (induction "is" arbitrary: mxs)
  case (Cons i "is")
  show ?case
    using Cons [of "partition_step left mxs i"] partition_step_bounds [of mxs left i] by simp
qed simp

lemma sort_partition_bounds:
  "left < right \<Longrightarrow> left \<le> fst (sort_partition xs left right) \<and> fst (sort_partition xs left right) < right"
  using partition_fold_bounds [of "(left, xs)" left "[left + 1..<right]"]
  by (auto simp: sort_partition_def Let_def split: prod.splits)

function sort_impl :: "'a::linorder list \<Rightarrow> nat \<Rightarrow> nat \<Rightarrow> 'a list" where
  "sort_impl xs left right =
    (if left < right
     then let (m, xs) = sort_partition xs left right
       in sort_impl (sort_impl xs left m) (m + 1) right
     else xs)"
  by auto
termination
  by (relation "measure (\<lambda>(xs, left, right). right - left)")
    (auto dest: sort_partition_bounds simp: less_diff_iff, (metis diff_less_mono2 fst_conv le_less_trans less_Suc_eq_le less_imp_le_nat nat_less_le diff_less_mono sort_partition_bounds)+)

declare sort_impl.simps [simp del]

section \<open>The sort sorts\<close>

definition range_of :: "'a list \<Rightarrow> nat \<Rightarrow> nat \<Rightarrow> 'a set" where
  "range_of xs left right = (\<lambda>j. xs ! j) ` {left..<right}"

text \<open>A list that differs from another one by an exchange of elements between two bounds.\<close>

definition permuted :: "nat \<Rightarrow> nat \<Rightarrow> 'a list \<Rightarrow> 'a list \<Rightarrow> bool" where
  "permuted left right xs ys \<longleftrightarrow> length ys = length xs \<and> (\<forall>j. j < left \<or> right \<le> j \<longrightarrow> ys ! j = xs ! j) \<and>
     range_of ys left right = range_of xs left right"

lemma permuted_refl: "permuted left right xs xs"
  by (simp add: permuted_def)

lemma permuted_trans: "permuted left right xs ys \<Longrightarrow> permuted left right ys zs \<Longrightarrow> permuted left right xs zs"
  by (simp add: permuted_def)

lemma range_of_split: "left \<le> m \<Longrightarrow> m \<le> right \<Longrightarrow> range_of xs left right = range_of xs left m \<union> range_of xs m right"
  by (simp add: range_of_def image_Un [symmetric] ivl_disj_un_two)

lemma permuted_mono:
  assumes "permuted left m xs ys" "left' \<le> left" "left \<le> m" "m \<le> right"
  shows "permuted left' right xs ys"
proof -
  have out: "ys ! j = xs ! j" if "j < left \<or> m \<le> j" for j
    using assms(1) that unfolding permuted_def by blast
  have parts: "range_of zs left' right = range_of zs left' left \<union> range_of zs left m \<union> range_of zs m right" for zs :: "'a list"
    using range_of_split [of left' left m zs] range_of_split [of left' m right zs] assms(2-4) by simp
  have "range_of ys left' left = range_of xs left' left" "range_of ys m right = range_of xs m right"
    using out by (auto simp: range_of_def intro!: image_cong)
  moreover have "range_of ys left m = range_of xs left m" "length ys = length xs"
    using assms(1) by (simp_all add: permuted_def)
  ultimately show ?thesis
    using assms out by (simp add: permuted_def parts)
qed

lemma permuted_swap:
  assumes "left \<le> i" "i < right" "left \<le> j" "j < right" "right \<le> length xs"
  shows "permuted left right xs (swap_at xs i j)"
proof -
  have e: "swap_at xs i j ! k = (if k = j then xs ! i else if k = i then xs ! j else xs ! k)" for k
    using assms by (auto simp: swap_at_def nth_list_update)
  have "x \<in> (\<lambda>k. swap_at xs i j ! k) ` {left..<right}" if "x \<in> (\<lambda>k. xs ! k) ` {left..<right}" for x
  proof -
    from that obtain k where k: "left \<le> k" "k < right" "x = xs ! k" by auto
    let ?k = "if k = i then j else if k = j then i else k"
    have "swap_at xs i j ! ?k = x" "left \<le> ?k" "?k < right" using k assms by (auto simp: e)
    then show ?thesis by (metis atLeastLessThan_iff image_eqI)
  qed
  moreover have "x \<in> (\<lambda>k. xs ! k) ` {left..<right}" if "x \<in> (\<lambda>k. swap_at xs i j ! k) ` {left..<right}" for x
    using that assms by (auto simp: e split: if_splits)
  ultimately show ?thesis
    using assms by (auto simp: permuted_def range_of_def e) (auto simp: swap_at_def)
qed

text \<open>The partition: smaller elements up to \<open>m\<close>, then the others.\<close>

definition parted :: "nat \<Rightarrow> nat \<Rightarrow> nat \<Rightarrow> 'a::linorder list \<Rightarrow> bool" where
  "parted left m k xs \<longleftrightarrow> left \<le> m \<and> m < k \<and> (\<forall>j. left < j \<and> j \<le> m \<longrightarrow> xs ! j < xs ! left) \<and>
     (\<forall>j. m < j \<and> j < k \<longrightarrow> xs ! left \<le> xs ! j)"

lemma partition_loop:
  "left + 1 + n \<le> right \<Longrightarrow> right \<le> length xs \<Longrightarrow>
    foldl (partition_step left) (left, xs) [left + 1..<left + 1 + n] = (m, ys) \<Longrightarrow>
    parted left m (left + 1 + n) ys \<and> permuted left right xs ys"
proof (induction n arbitrary: m ys)
  case 0
  then show ?case by (auto simp: parted_def permuted_refl)
next
  case (Suc n)
  let ?k = "left + 1 + n"
  obtain m1 zs where f: "foldl (partition_step left) (left, xs) [left + 1..<?k] = (m1, zs)" by fastforce
  with Suc have IH: "parted left m1 ?k zs" "permuted left right xs zs" by simp_all
  have step: "partition_step left (m1, zs) ?k = (m, ys)"
    using Suc.prems(3) f by simp
  have k: "?k < right" "length zs = length xs" using Suc.prems(1) IH(2) by (auto simp: permuted_def)
  show ?case
  proof (cases "zs ! ?k < zs ! left")
    case False
    with step IH show ?thesis by (auto simp: partition_step_def parted_def less_Suc_eq)
  next
    case True
    then have m: "m = m1 + 1" "ys = swap_at zs (m1 + 1) ?k" using step by (auto simp: partition_step_def)
    have b: "left < m1 + 1" "m1 + 1 \<le> ?k" using IH(1) by (auto simp: parted_def)
    have e: "ys ! j = (if j = ?k then zs ! (m1 + 1) else if j = m1 + 1 then zs ! ?k else zs ! j)" for j
      using b k Suc.prems(2) by (auto simp: m swap_at_def nth_list_update)
    have "parted left m (left + 1 + Suc n) ys"
      using IH(1) True b unfolding parted_def m(1) by (auto simp: e less_Suc_eq le_Suc_eq)
    moreover have "permuted left right zs ys"
      unfolding m(2) using b k Suc.prems(2) by (intro permuted_swap) auto
    ultimately show ?thesis using IH(2) permuted_trans by blast
  qed
qed

lemma sort_partition_correct:
  assumes "left < right" "right \<le> length xs" "sort_partition xs left right = (m, ys)"
  shows "left \<le> m" "m < right" "permuted left right xs ys"
    "\<And>j. left \<le> j \<Longrightarrow> j < m \<Longrightarrow> ys ! j < ys ! m" "\<And>j. m < j \<Longrightarrow> j < right \<Longrightarrow> ys ! m \<le> ys ! j"
proof -
  obtain zs where f: "foldl (partition_step left) (left, xs) [left + 1..<right] = (m, zs)" and ys: "ys = swap_at zs left m"
    using assms(3) by (auto simp: sort_partition_def split: prod.splits)
  have "parted left m right zs" "permuted left right xs zs"
    using partition_loop [of left "right - left - 1" right xs m zs] assms(1,2) f by auto
  then have p: "parted left m right zs" "permuted left right xs zs" "length zs = length xs" by (auto simp: permuted_def)
  then show b: "left \<le> m" "m < right" by (auto simp: parted_def)
  have "permuted left right zs ys" unfolding ys using b assms(1,2) p(3) by (intro permuted_swap) auto
  with p(2) show "permuted left right xs ys" by (rule permuted_trans)
  have e: "ys ! j = (if j = m then zs ! left else if j = left then zs ! m else zs ! j)" for j
    using b assms(1,2) p(3) by (auto simp: ys swap_at_def nth_list_update)
  show "ys ! j < ys ! m" if "left \<le> j" "j < m" for j using p(1) that b by (auto simp: e parted_def)
  show "ys ! m \<le> ys ! j" if "m < j" "j < right" for j using p(1) that b by (auto simp: e parted_def)
qed

lemma sort_impl_correct:
  "right \<le> length xs \<Longrightarrow>
    permuted left right xs (sort_impl xs left right) \<and>
    (\<forall>i j. left \<le> i \<and> i < j \<and> j < right \<longrightarrow> sort_impl xs left right ! i \<le> sort_impl xs left right ! j)"
proof (induction xs left right rule: sort_impl.induct)
  case (1 xs left right)
  show ?case
  proof (cases "left < right")
    case False
    then show ?thesis by (auto simp: sort_impl.simps [of xs] permuted_refl)
  next
    case True
    obtain m ys where p: "sort_partition xs left right = (m, ys)" by fastforce
    note c = sort_partition_correct [OF True "1.prems" p]
    define zs where "zs = sort_impl ys left m"
    define ws where "ws = sort_impl zs (m + 1) right"
    have ws: "sort_impl xs left right = ws"
      using True by (simp add: sort_impl.simps [of xs] p zs_def ws_def)
    have ly: "length ys = length xs" using c(3) by (simp add: permuted_def)
    have z: "permuted left m ys zs" "\<And>i j. left \<le> i \<Longrightarrow> i < j \<Longrightarrow> j < m \<Longrightarrow> zs ! i \<le> zs ! j"
      using "1.IH"(1) [OF True p [symmetric] refl] ly c(2) "1.prems" by (auto simp: zs_def)
    have lz: "length zs = length xs" using z(1) ly by (simp add: permuted_def)
    have w: "permuted (m + 1) right zs ws" "\<And>i j. m + 1 \<le> i \<Longrightarrow> i < j \<Longrightarrow> j < right \<Longrightarrow> ws ! i \<le> ws ! j"
      using "1.IH"(2) [OF True p [symmetric] refl] lz "1.prems" by (auto simp: ws_def zs_def)
    have "permuted left right ys zs" using z(1) c(1,2) by (intro permuted_mono [OF z(1)]) auto
    moreover have "permuted left right zs ws" using c(1,2) by (intro permuted_mono [OF w(1)]) auto
    ultimately have perm: "permuted left right xs ws" using c(3) permuted_trans by blast
    have low: "ws ! j = zs ! j" if "j \<le> m" for j using w(1) that by (simp add: permuted_def)
    have piv: "ws ! m = ys ! m" using low z(1) by (simp add: permuted_def)
    have less: "ws ! j \<le> ws ! m" if "left \<le> j" "j < m" for j
    proof -
      have "zs ! j \<in> range_of ys left m" using z(1) that by (auto simp: permuted_def range_of_def)
      then show ?thesis using c(4) that by (auto simp: range_of_def low piv less_imp_le)
    qed
    have above: "ws ! m \<le> ws ! j" if "m < j" "j < right" for j
    proof -
      have "ws ! j \<in> range_of zs (m + 1) right" using w(1) that by (auto simp: permuted_def range_of_def)
      then obtain k where "m < k" "k < right" "ws ! j = zs ! k" 
        by (auto simp: range_of_def Suc_le_eq)
      moreover have "zs ! k = ys ! k" using z(1) \<open>m < k\<close> by (simp add: permuted_def)
      ultimately show ?thesis using c(5) piv by simp
    qed
    have "ws ! i \<le> ws ! j" if "left \<le> i" "i < j" "j < right" for i j
    proof -
      consider "j < m" | "j = m" | "i < m" "m < j" | "i = m" | "m < i" using that by linarith
      then show ?thesis
      proof cases
        case 3
        then show ?thesis using less [of i] above [of j] that by simp
      qed (use that z(2) w(2) less above low in auto)
    qed
    with perm show ?thesis unfolding ws by blast
  qed
qed

section \<open>The table and the decoder\<close>

definition makeSyndromeMapEntry :: "u64 \<Rightarrow> u32 \<times> u16" where
  "makeSyndromeMapEntry val = (ucast (drop_bit 16 val), ucast (val AND 0xFFFF))"

definition makeSME :: "u64 \<Rightarrow> u32 \<Rightarrow> u64" where
  "makeSME syn bits = push_bit 24 syn OR ucast (bits AND 0xFFFFFF)"

definition LUT_SIZE :: nat where "LUT_SIZE = 2048"
definition VECLEN :: nat where "VECLEN = 23"

text \<open>The errors of up to three bits in the order of the loops that fill the table.\<close>

definition golay_errors :: "u32 list" where
  "golay_errors =
    [0] @ map (\<lambda>i. push_bit i 1) [0..<VECLEN] @
    concat (map (\<lambda>i. map (\<lambda>j. push_bit i 1 OR push_bit j 1) [i + 1..<VECLEN]) [0..<VECLEN - 1]) @
    concat (map (\<lambda>i. concat (map (\<lambda>j. map (\<lambda>k. push_bit i 1 OR push_bit j 1 OR push_bit k 1) [j + 1..<VECLEN])
      [i + 1..<VECLEN - 1])) [0..<VECLEN - 2])"

definition golay_sort :: "u64 list \<Rightarrow> u64 list" where
  "golay_sort xs = sort_impl xs 0 LUT_SIZE"

definition make_lut :: "(u32 \<times> u16) list" where
  "make_lut = map makeSyndromeMapEntry (golay_sort (map (\<lambda>v. makeSME (ucast (syndrome v)) v) golay_errors))"

text \<open>
  \<open>std::lower_bound\<close> on a table ordered by the syndrome: the first entry that is not smaller. Past the
  end of the table the code would read outside it, which is \<^theory_text>\<open>None\<close>.
\<close>

definition golay_decode :: "u32 \<Rightarrow> u32 \<Rightarrow> (bool \<times> u32) option" where
  "golay_decode input output =
    (let syndrm = syndrome (drop_bit 1 input)
     in case dropWhile (\<lambda>sme. drop_bit 8 (fst sme) < syndrm) make_lut of
          [] \<Rightarrow> None
        | (a, b) # _ \<Rightarrow>
            if drop_bit 8 a = syndrm
            then let correction = push_bit 1 (push_bit 16 (a AND 0xFF) OR ucast b);
                     output = input XOR correction
              in Some (popcount syndrm < 3 \<or> \<not> parity output, output)
            else Some (False, output))"

section \<open>Weights\<close>

definition ones :: "'a::semiring_bits \<Rightarrow> nat" where "ones x = card {j. bit x j}"

lemma bits_numeral:
  "{j. bit (numeral (num.Bit0 n) :: int) j} = Suc ` {j. bit (numeral n :: int) j}"
  "{j. bit (numeral (num.Bit1 n) :: int) j} = insert 0 (Suc ` {j. bit (numeral n :: int) j})"
proof -
  have "j \<in> {j. bit (numeral (num.Bit0 n) :: int) j} \<longleftrightarrow> j \<in> Suc ` {j. bit (numeral n :: int) j}"
    "j \<in> {j. bit (numeral (num.Bit1 n) :: int) j} \<longleftrightarrow> j \<in> insert 0 (Suc ` {j. bit (numeral n :: int) j})" for j
    by (cases j; auto)+
  then show "{j. bit (numeral (num.Bit0 n) :: int) j} = Suc ` {j. bit (numeral n :: int) j}"
    "{j. bit (numeral (num.Bit1 n) :: int) j} = insert 0 (Suc ` {j. bit (numeral n :: int) j})" by blast+
qed

lemma finite_bits_numeral: "finite {j. bit (numeral n :: int) j}"
proof (induction n)
  case One
  have "{j. bit (1 :: int) j} = {0}" by (auto simp: bit_1_iff)
  then show ?case by simp
qed (simp_all add: bits_numeral)

lemma ones_int [simp]:
  "ones (0 :: int) = 0" "ones (1 :: int) = 1"
  "ones (numeral (num.Bit0 n) :: int) = ones (numeral n :: int)"
  "ones (numeral (num.Bit1 n) :: int) = Suc (ones (numeral n :: int))"
proof -
  have "{j. bit (1 :: int) j} = {0}" by (auto simp: bit_1_iff)
  then show "ones (0 :: int) = 0" "ones (1 :: int) = 1" by (simp_all add: ones_def)
qed (simp_all add: ones_def bits_numeral card_image finite_bits_numeral)

lemma finite_bits [simp]: "finite {j. bit (w :: 'a::len word) j}"
  by (rule finite_subset [of _ "{..<LENGTH('a)}"]) (auto dest: bit_imp_le_length)

lemma ones_uint: "ones (uint w) = ones w"
  by (simp add: ones_def bit_uint_iff) (metis bit_imp_le_length)

lemma popcount_ones: "popcount w = ones w"
proof -
  have f: "foldl (\<lambda>count i. count + unat (drop_bit i w AND 1)) c [0..<n] = c + card {j. j < n \<and> bit w j}" for c n
  proof (induction n)
    case (Suc n)
    have "unat (drop_bit n w AND 1) = of_bool (bit w n)"
      by (simp add: and_one_eq bit_iff_odd_drop_bit mod_2_eq_odd)
    moreover have "{j. j < Suc n \<and> bit w j} = (if bit w n then insert n {j. j < n \<and> bit w j} else {j. j < n \<and> bit w j})"
      by (auto simp: less_Suc_eq)
    ultimately show ?case using Suc by simp
  qed simp
  have "{j. j < 32 \<and> bit w j} = {j. bit w j}" by (auto dest: bit_imp_le_length)
  then show ?thesis using f [of 0 32] by (simp add: popcount_def ones_def)
qed

end
