(* ===== verification/M17GolayCode.thy ===== *)
theory M17GolayCode
  imports M17Golay
begin

text \<open>
  The Golay code of the M17 decoder corrects: the syndrome is linear, the code words lie at least seven
  bits apart (the kernel adds up the rows of the generator), so the 2048 errors of up to three bits have
  all the syndromes there are, the table holds each once, and the search in it finds the error. The
  check of the parity bit detects four errors, but rejects some errors that could be corrected.
\<close>

abbreviation bits_of :: "'a::len word \<Rightarrow> nat set" where "bits_of w \<equiv> {j. bit w j}"

definition within :: "nat \<Rightarrow> u32 \<Rightarrow> bool" where "within n w \<longleftrightarrow> bits_of w \<subseteq> {..<n}"

lemma bits_of_inj: "bits_of v = bits_of w \<Longrightarrow> v = (w :: 'a::len word)"
  by (rule bit_word_eqI) blast

lemma bits_of_ops:
  "bits_of (v OR w) = bits_of v \<union> bits_of w"
  "bits_of (v XOR w) = (bits_of v - bits_of w) \<union> (bits_of w - bits_of v)"
  by (auto simp: bit_or_iff bit_xor_iff)

lemma bits_of_single: "i < LENGTH('a) \<Longrightarrow> bits_of (push_bit i 1 :: 'a::len word) = {i}"
  by (auto simp: bit_push_bit_iff bit_1_iff)

lemma bits_of_surj:
  assumes "A \<subseteq> {..<LENGTH('a)}"
  shows "\<exists>w :: 'a::len word. bits_of w = A"
proof -
  have "finite A" using assms finite_subset by blast
  then show ?thesis using assms
  proof (induction A)
    case empty
    then show ?case by (intro exI [of _ 0]) simp
  next
    case (insert x F)
    then obtain w :: "'a word" where "bits_of w = F" by auto
    then have "bits_of (w OR push_bit x 1) = insert x F"
      using insert.prems by (subst bits_of_ops) (simp add: bits_of_single)
    then show ?case by blast
  qed
qed

lemma within_take_bit: "within n w \<longleftrightarrow> take_bit n w = w"
proof
  assume w: "within n w"
  show "take_bit n w = w" by (rule bit_word_eqI) (use w in \<open>auto simp: within_def bit_take_bit_iff\<close>)
qed (auto simp: within_def, metis bit_take_bit_iff)

lemma within_less:
  assumes "n < 32"
  shows "within n w \<longleftrightarrow> w < 2 ^ n"
proof -
  have "(2 :: nat) ^ n < 2 ^ 32" by (rule power_strict_increasing) (use assms in auto)
  then have "unat (2 ^ n :: u32) = 2 ^ n" by (simp only: unat_of_nat [of "2 ^ n", where 'a = 32, simplified of_nat_power of_nat_numeral]) (simp add: take_bit_nat_eq_self)
  then show ?thesis
    by (simp add: within_take_bit word_less_nat_alt word_unat_eq_iff unsigned_take_bit_eq take_bit_nat_eq_self_iff)
qed

lemma ones_xor: "ones (v XOR w) \<le> ones v + ones (w :: 'a::len word)"
  unfolding ones_def bits_of_ops
  by (rule order_trans [OF card_Un_le add_mono]) (auto intro: card_mono)

lemma odd_ones_xor: "odd (ones (v XOR w)) \<longleftrightarrow> odd (ones v) \<noteq> odd (ones (w :: 'a::len word))"
proof -
  have "card (bits_of v) = card (bits_of v - bits_of w) + card (bits_of v \<inter> bits_of w)"
    "card (bits_of w) = card (bits_of w - bits_of v) + card (bits_of v \<inter> bits_of w)"
    by (subst card_Un_disjoint [symmetric]; auto intro: arg_cong [of _ _ card])+
  moreover have "ones (v XOR w) = card (bits_of v - bits_of w) + card (bits_of w - bits_of v)"
    unfolding ones_def bits_of_ops by (rule card_Un_disjoint) auto
  ultimately show ?thesis by (simp add: ones_def) blast
qed

lemma ones_0_iff: "ones w = 0 \<longleftrightarrow> w = (0 :: 'a::len word)"
  by (auto simp: ones_def intro: bits_of_inj)

section \<open>The syndrome is linear\<close>

lemma golay_step_alt: "golay_step x = drop_bit 1 x XOR (if odd x then 0x63A else 0)"
proof -
  have "drop_bit 1 (x XOR POLY) = drop_bit 1 x XOR 0x63A"
    by (simp only: drop_bit_xor) (simp add: POLY_def)
  then show ?thesis by (simp add: golay_step_def and_one_eq mod_2_eq_odd)
qed

lemma golay_step_xor: "golay_step (x XOR y) = golay_step x XOR golay_step y"
  by (auto simp: golay_step_alt bit_eq_iff bit_simps even_xor_iff)

lemma golay_step_0: "golay_step 0 = 0"
  by (simp add: golay_step_alt)

lemma golay_reduce_funpow: "golay_reduce x = (golay_step ^^ 12) x"
proof -
  have "foldl (\<lambda>c i. golay_step c) x [0..<n] = (golay_step ^^ n) x" for n
    by (induction n) simp_all
  then show ?thesis by (simp only: golay_reduce_def)
qed

lemma golay_steps_xor: "(golay_step ^^ n) (x XOR y) = (golay_step ^^ n) x XOR (golay_step ^^ n) y"
  by (induction n) (simp_all add: golay_step_xor)

lemmas golay_reduce_xor = golay_steps_xor [of 12, folded golay_reduce_funpow]

lemma golay_steps_drop: "(\<And>j. j < n \<Longrightarrow> \<not> bit x j) \<Longrightarrow> (golay_step ^^ n) x = drop_bit n x"
proof (induction n)
  case (Suc n)
  have "even (drop_bit n x)" using Suc.prems [of n] by (simp add: bit_iff_odd_drop_bit)
  with Suc show ?case by (simp add: golay_step_alt)
qed simp

lemma within_mono: "within m w \<Longrightarrow> m \<le> n \<Longrightarrow> within n w"
  by (auto simp: within_def)

lemma within_xor: "within n v \<Longrightarrow> within n w \<Longrightarrow> within n (v XOR w)"
  by (auto simp: within_def bit_xor_iff)

lemma within_or: "within n v \<Longrightarrow> within n w \<Longrightarrow> within n (v OR w)"
  by (auto simp: within_def bit_or_iff)

lemma within_step: "within (Suc n) x \<Longrightarrow> 11 \<le> n \<Longrightarrow> within n (golay_step x)"
proof -
  assume "within (Suc n) x" "11 \<le> n"
  moreover have "within 11 0x63A" by (simp add: within_less)
  ultimately show ?thesis
    unfolding golay_step_alt
    by (intro within_xor) (auto simp: within_def bit_drop_bit_eq subset_iff)
qed

lemma within_steps: "within (n + k) x \<Longrightarrow> 11 \<le> n \<Longrightarrow> within n ((golay_step ^^ k) x)"
proof (induction k arbitrary: x)
  case (Suc k)
  then have "within (n + k) (golay_step x)" by (intro within_step) auto
  then show ?case using Suc by (simp only: funpow_Suc_right o_apply)
qed simp

lemma within_reduce: "within 23 x \<Longrightarrow> within 11 (golay_reduce x)"
  using within_steps [of 11 12] by (simp add: golay_reduce_funpow)

lemma xor_eq_0: "v XOR w = 0 \<longleftrightarrow> v = (w :: 'a::len word)"
  by (auto simp: bit_eq_iff bit_xor_iff)

lemma golay_step_small: 
  assumes "within 11 x" "golay_step x = 0"
  shows "x = 0"
proof -
  have b10: "bit (drop_bit 1 x) 10 \<longleftrightarrow> False" using assms(1) by (auto simp: within_def bit_drop_bit_eq)
  have "even x"
  proof (rule ccontr)
    assume "odd x"
    then have "drop_bit 1 x = 0x63A" using assms(2) by (simp add: golay_step_alt xor_eq_0)
    then show False using b10 by simp
  qed
  then have d: "drop_bit 1 x = 0" "\<not> bit x 0" using assms(2) by (auto simp: golay_step_alt bit_0)
  show ?thesis
  proof (rule bit_word_eqI)
    fix n
    have "\<not> bit (drop_bit 1 x) (n - 1)" by (simp only: d(1)) simp
    then show "bit x n \<longleftrightarrow> bit 0 n" using d(2) by (cases n) (auto simp: bit_drop_bit_eq)
  qed
qed

lemma golay_reduce_small:
  assumes "within 11 x" "golay_reduce x = 0"
  shows "x = 0"
proof -
  have "(golay_step ^^ n) x = 0 \<Longrightarrow> x = 0" for n
  proof (induction n)
    case (Suc n)
    have "within 11 ((golay_step ^^ n) x)" using within_steps [of 11 n x] assms(1) within_mono by simp
    then show ?case using Suc golay_step_small by simp
  qed simp
  then show ?thesis using assms(2) by (simp only: golay_reduce_funpow)
qed

section \<open>The minimum distance\<close>

fun combine :: "bool list \<Rightarrow> 'a::semiring_bit_operations list \<Rightarrow> 'a" where
  "combine (b # bs) (r # rs) = (if b then r XOR combine bs rs else combine bs rs)"
| "combine _ _ = 0"

definition golay_rows :: "int list" where
  "golay_rows = [0x475, 0x49f, 0x54b, 0x6e3, 0x1b3, 0x366, 0x6cc, 0x1ed, 0x3da, 0x7b4, 0x31d, 0x63a]"

fun far :: "int list \<Rightarrow> nat \<Rightarrow> int \<Rightarrow> bool" where
  "far [] w v = (w = 0 \<or> 7 \<le> w + ones v)"
| "far (r # rs) w v = (if 7 \<le> w then True else far rs w v \<and> far rs (Suc w) (v XOR r))"

lemma far_combine:
  "far rs w v \<Longrightarrow> length bs = length rs \<Longrightarrow> w + length (filter id bs) = 0 \<or> 7 \<le> w + length (filter id bs) + ones (v XOR combine bs rs)"
proof (induction rs w v arbitrary: bs rule: far.induct)
  case (2 r rs w v)
  then obtain b bs' where bs: "bs = b # bs'" by (cases bs) auto
  show ?case
  proof (cases "7 \<le> w")
    case False
    have "length bs' = length rs" using 2 bs by simp
    with False 2 bs show ?thesis by (cases b) (auto simp: xor.assoc)
  qed simp
qed simp

lemma golay_rows_far: "far golay_rows 0 0"
  by (simp add: golay_rows_def)

definition units :: "nat list \<Rightarrow> u32 list" where "units ns = map (\<lambda>i. push_bit i 1) ns"

lemma bits_combine_units:
  "distinct ns \<Longrightarrow> set ns \<subseteq> {..<32} \<Longrightarrow> bit (combine (map (bit x) ns) (units ns)) k \<longleftrightarrow> k \<in> set ns \<and> bit x k"
proof (induction ns)
  case (Cons n ns)
  have "bit (push_bit n (1 :: u32)) k \<longleftrightarrow> k = n" using Cons.prems(2) by (auto simp: bit_push_bit_iff bit_1_iff)
  with Cons show ?case by (auto simp: units_def bit_xor_iff)
qed (simp add: units_def)

lemma combine_units: "within n x \<Longrightarrow> n \<le> 32 \<Longrightarrow> combine (map (bit x) [0..<n]) (units [0..<n]) = x"
  by (rule bit_word_eqI) (subst bits_combine_units, auto simp: within_def)

lemma linear_combine:
  assumes "\<And>x y. F (x XOR y) = F x XOR F y" "F 0 = 0"
  shows "F (combine bs rs) = combine bs (map F rs)"
  by (induction bs rs rule: combine.induct) (simp_all add: assms)

lemma golay_reduce_0: "golay_reduce 0 = 0"
proof -
  have "(golay_step ^^ n) 0 = 0" for n by (induction n) (simp_all add: golay_step_0)
  then show ?thesis by (simp only: golay_reduce_funpow)
qed

definition golay_codeword :: "u32 \<Rightarrow> u32" where "golay_codeword x = golay_reduce x XOR push_bit 11 x"

lemma push_bit_xor_eq: "push_bit n (x XOR y) = push_bit n x XOR push_bit n (y :: 'a::len word)"
  by (rule push_bit_xor)

lemma codeword_xor: "golay_codeword (x XOR y) = golay_codeword x XOR golay_codeword y"
  by (simp only: golay_codeword_def golay_reduce_xor push_bit_xor ac_simps)

lemma codeword_0: "golay_codeword 0 = 0"
  by (simp only: golay_codeword_def golay_reduce_0 push_bit_of_0 xor_self_eq)

lemma unit_words: "units [0..<12] = [1, 2, 4, 8, 16, 32, 64, 128, 256, 512, 1024, 2048]"
  by (simp add: units_def upt_rec push_bit_eq_mult)

lemma unit_rows: "map uint (map golay_reduce (units [0..<12])) = golay_rows"
  unfolding unit_words
  by (simp add: golay_rows_def golay_reduce_def golay_step_def POLY_def upt_rec)

lemma unit_codewords: "map golay_codeword (units [0..<12]) =
    [0xC75, 0x149F, 0x254B, 0x46E3, 0x81B3, 0x10366, 0x206CC, 0x401ED, 0x803DA, 0x1007B4, 0x20031D, 0x40063A]"
  unfolding unit_words
  by (simp add: golay_codeword_def golay_reduce_def golay_step_def POLY_def upt_rec push_bit_eq_mult)

lemma replicate_numerals: "replicate (numeral n) x = x # replicate (pred_numeral n) x"
  by (simp add: numeral_eq_Suc)

lemma unit_syndromes: "map (\<lambda>x. golay_reduce (golay_codeword x)) (units [0..<12]) = replicate 12 0"
proof -
  have "map golay_reduce (map golay_codeword (units [0..<12])) = [0, 0, 0, 0, 0, 0, 0, 0, 0, 0, 0, 0]"
    unfolding unit_codewords
    by (simp add: golay_reduce_def golay_step_def POLY_def upt_rec)
  then show ?thesis by (simp only: map_map comp_def) (simp add: replicate_numerals)
qed

lemma combine_zeros: "combine bs (replicate n 0) = 0"
proof (induction n arbitrary: bs)
  case (Suc n)
  then show ?case by (cases bs) simp_all
qed (cases bs; simp)

lemma golay_syndrome_0: "within 12 x \<Longrightarrow> golay_reduce (golay_codeword x) = 0"
  by (subst combine_units [symmetric, of 12 x], assumption, simp,
      subst linear_combine [where F = "\<lambda>x. golay_reduce (golay_codeword x)"])
    (simp_all only: codeword_xor golay_reduce_xor codeword_0 golay_reduce_0 unit_syndromes combine_zeros)

lemma uint_combine: "uint (combine bs rs) = combine bs (map uint (rs :: 'a::len word list))"
  by (induction bs rs rule: combine.induct) (simp_all add: unsigned_xor_eq)


lemma codeword_weight:
  assumes "within 23 c" "golay_reduce c = 0"
  shows "c = 0 \<or> 7 \<le> ones c"
proof -
  define x where "x = drop_bit 11 c"
  have x: "within 12 x" using assms(1) by (auto simp: within_def x_def bit_drop_bit_eq)
  have "within 11 (c XOR golay_codeword x)"
  proof -
    have "within 11 (golay_reduce x)" using x by (intro within_reduce) (auto intro: within_mono)
    moreover have "within 11 (c XOR push_bit 11 x)"
      by (auto simp: within_def bit_xor_iff bit_push_bit_iff x_def bit_drop_bit_eq dest: bit_imp_le_length)
    ultimately have "within 11 (golay_reduce x XOR (c XOR push_bit 11 x))" by (rule within_xor)
    then show ?thesis by (simp add: golay_codeword_def ac_simps)
  qed
  moreover have "golay_reduce (c XOR golay_codeword x) = 0"
    by (simp add: golay_reduce_xor assms(2) golay_syndrome_0 [OF x])
  ultimately have c: "c = golay_codeword x" using golay_reduce_small xor_eq_0 by blast
  let ?bs = "map (bit x) [0..<12]"
  have "uint (golay_reduce x) = combine ?bs golay_rows"
    unfolding unit_rows [symmetric] uint_combine [symmetric]
    by (subst linear_combine [symmetric, OF golay_reduce_xor golay_reduce_0]) (use x in \<open>simp add: combine_units\<close>)
  then have r: "ones (golay_reduce x) = ones (combine ?bs golay_rows)" by (simp flip: ones_uint)
  have f: "length (filter id ?bs) = ones x"
  proof -
    have "length (filter id ?bs) = card {i. i < 12 \<and> bit x i}" by (simp add: filter_map comp_def length_filter_conv_card cong: conj_cong)
    also have "{i. i < 12 \<and> bit x i} = bits_of x" using x by (auto simp: within_def)
    finally show ?thesis by (simp add: ones_def comp_def)
  qed
  have "bits_of c = bits_of (golay_reduce x) \<union> (\<lambda>j. j + 11) ` bits_of x"
  proof -
    have "within 11 (golay_reduce x)" using x by (intro within_reduce) (auto intro: within_mono)
    moreover have "j < 21" if "bit x j" for j using that x by (auto simp: within_def)
    ultimately show ?thesis
      unfolding c golay_codeword_def
      by (auto simp: within_def bit_xor_iff bit_push_bit_iff image_iff) (metis le_add_diff_inverse2)+
  qed
  moreover have "bits_of (golay_reduce x) \<inter> (\<lambda>j. j + 11) ` bits_of x = {}"
    using within_reduce [of x] within_mono [OF x, of 23] by (auto simp: within_def)
  ultimately have w: "ones c = ones (golay_reduce x) + ones x"
    by (simp add: ones_def card_Un_disjoint card_image)
  show ?thesis
    using far_combine [OF golay_rows_far, of ?bs] f r w by (auto simp: golay_rows_def ones_0_iff c codeword_0)
qed

section \<open>The errors of up to three bits\<close>

lemma within_unit: "i < n \<Longrightarrow> n \<le> 32 \<Longrightarrow> within n (push_bit i 1)"
  by (simp add: within_def bits_of_single)

lemma ones_single: "i < 32 \<Longrightarrow> ones (push_bit i 1 :: u32) = 1"
  by (simp add: ones_def bits_of_single)

lemma ones_or: "ones (v OR w) \<le> ones v + ones (w :: 'a::len word)"
  unfolding ones_def bits_of_ops by (rule card_Un_le)

lemma golay_errors_light: "e \<in> set golay_errors \<Longrightarrow> within 23 e \<and> ones e \<le> 3"
proof -
  have two: "within 23 (push_bit i 1 OR push_bit j 1)" "ones (push_bit i 1 OR push_bit j 1 :: u32) \<le> 2"
    if "i < 23" "j < 23" for i j
    using that ones_or [of "push_bit i 1 :: u32" "push_bit j 1"] ones_single [of i] ones_single [of j]
    by (simp_all add: within_or within_unit)
  have three: "within 23 (push_bit i 1 OR push_bit j 1 OR push_bit k 1)" "ones (push_bit i 1 OR push_bit j 1 OR push_bit k 1 :: u32) \<le> 3"
    if "i < 23" "j < 23" "k < 23" for i j k
    using that two [of i j] ones_or [of "push_bit i 1 OR push_bit j 1 :: u32" "push_bit k 1"] ones_single [of k]
    by (simp_all add: within_or within_unit or.assoc)
  assume "e \<in> set golay_errors"
  then consider "e = 0" | i where "i < 23" "e = push_bit i 1"
    | i j where "i < j" "j < 23" "e = push_bit i 1 OR push_bit j 1"
    | i j k where "i < j" "j < k" "k < 23" "e = push_bit i 1 OR push_bit j 1 OR push_bit k 1"
    by (auto simp: golay_errors_def VECLEN_def Suc_le_eq)
  then show ?thesis
  proof cases
    case 1
    then show ?thesis by (simp add: within_def ones_def)
  next
    case 2
    then show ?thesis by (simp add: within_unit ones_single)
  next
    case 3
    then show ?thesis using two [of i j] by simp
  next
    case 4
    then show ?thesis using three [of i j k] by simp
  qed
qed

lemma bits_of_or2: "i < 32 \<Longrightarrow> j < 32 \<Longrightarrow> bits_of (push_bit i 1 OR push_bit j 1 :: u32) = {i, j}"
  by (subst bits_of_ops) (simp add: bits_of_single insert_commute)

lemma bits_of_or3: "i < 32 \<Longrightarrow> j < 32 \<Longrightarrow> k < 32 \<Longrightarrow> bits_of (push_bit i 1 OR push_bit j 1 OR push_bit k 1 :: u32) = {i, j, k}"
  by (subst bits_of_ops(1)) (auto simp add: bits_of_or2 bits_of_single)

lemma light_golay_errors:
  assumes "within 23 e" "ones e \<le> 3"
  shows "e \<in> set golay_errors"
proof -
  let ?l = "sorted_list_of_set (bits_of e)"
  have fin: "finite (bits_of e)" by simp
  have l: "length ?l \<le> 3" "sorted_wrt (<) ?l" "set ?l = bits_of e" "\<And>x. x \<in> set ?l \<Longrightarrow> x < 23"
    using assms by (auto simp: ones_def within_def)
  consider "?l = []" | i where "?l = [i]" | i j where "?l = [i, j]" | i j k where "?l = [i, j, k]"
    using l(1) by (cases ?l rule: remdups_adj.cases; cases "tl (tl ?l)"; cases "tl (tl (tl ?l))") auto
  then show ?thesis
  proof cases
    case 1
    then have "e = 0" using l(3) by (intro bits_of_inj) auto
    then show ?thesis by (simp add: golay_errors_def)
  next
    case 2
    then have i: "bits_of e = {i}" "i < 23" using l(3,4) by auto
    then have "e = push_bit i 1" by (intro bits_of_inj) (simp add: bits_of_single)
    then show ?thesis using i by (auto simp: golay_errors_def VECLEN_def)
  next
    case 3
    then have ij: "i < j" "j < 23" "bits_of e = {i, j}" using l by auto
    then have "bits_of e = bits_of (push_bit i 1 OR push_bit j 1 :: u32)" 
      by - (subst bits_of_or2, simp_all)
    then have "e = push_bit i 1 OR push_bit j 1" by (rule bits_of_inj)
    moreover have "i \<in> {0..<22}" "j \<in> {i + 1..<23}" using ij by auto
    ultimately have "e \<in> set (concat (map (\<lambda>i. map (\<lambda>j. push_bit i 1 OR push_bit j 1) [i + 1..<23]) [0..<22]))" by fastforce
    then show ?thesis unfolding golay_errors_def VECLEN_def by simp
  next
    case 4
    then have ij: "i < j" "j < k" "k < 23" "bits_of e = {i, j, k}" using l by auto
    then have "bits_of e = bits_of (push_bit i 1 OR push_bit j 1 OR push_bit k 1 :: u32)"
      by - (subst bits_of_or3, simp_all)
    then have "e = push_bit i 1 OR push_bit j 1 OR push_bit k 1" by (rule bits_of_inj)
    moreover have "i \<in> {0..<21}" "j \<in> {i + 1..<22}" "k \<in> {j + 1..<23}" using ij by auto
    ultimately have "e \<in> set (concat (map (\<lambda>i. concat (map (\<lambda>j. map (\<lambda>k. push_bit i 1 OR push_bit j 1 OR push_bit k 1) [j + 1..<23])
      [i + 1..<22])) [0..<21]))" by fastforce
    then show ?thesis unfolding golay_errors_def VECLEN_def by simp
  qed
qed

lemma golay_errors_set: "set golay_errors = {e. within 23 e \<and> ones e \<le> 3}"
  using golay_errors_light light_golay_errors by blast

lemma length_golay_errors: "length golay_errors = 2048"
  by (simp add: golay_errors_def VECLEN_def length_concat comp_def) (simp add: upt_rec)

section \<open>Every syndrome is that of one error\<close>

lemma bits_of_surj32: "A \<subseteq> {..<n} \<Longrightarrow> n \<le> 32 \<Longrightarrow> \<exists>w :: u32. bits_of w = A"
  by (rule bits_of_surj) auto

lemma card_within:
  assumes "n \<le> 32" shows "card {w. within n w} = 2 ^ n"
proof -
  have "bij_betw bits_of {w. within n w} (Pow {..<n})"
  proof (rule bij_betw_imageI)
    show "inj_on bits_of {w. within n w}" by (auto intro: inj_onI bits_of_inj)
    have "A \<in> bits_of ` {w. within n w}" if A: "A \<subseteq> {..<n}" for A
    proof -
      obtain w :: u32 where "bits_of w = A" using bits_of_surj32 [OF A assms] by blast
      with A show ?thesis by (auto simp: within_def)
    qed
    then show "bits_of ` {w. within n w} = Pow {..<n}" by (auto simp: within_def)
  qed
  then show ?thesis by (simp add: bij_betw_same_card card_Pow)
qed

lemma card_light: "card {e. within 23 e \<and> ones e \<le> 3} = 2048"
proof -
  let ?S = "\<lambda>k. {A. A \<subseteq> {..<23::nat} \<and> card A = k}"
  have "bij_betw bits_of {e. within 23 e \<and> ones e \<le> 3} (\<Union>k\<in>{..3}. ?S k)"
  proof (rule bij_betw_imageI)
    show "inj_on bits_of {e. within 23 e \<and> ones e \<le> 3}" by (auto intro: inj_onI bits_of_inj)
    have "A \<in> bits_of ` {e. within 23 e \<and> ones e \<le> 3}" if A: "A \<subseteq> {..<23}" "card A \<le> 3" for A
    proof -
      obtain w :: u32 where "bits_of w = A" using bits_of_surj32 [OF A(1)] by auto
      with A show ?thesis by (auto simp: within_def ones_def)
    qed
    then show "bits_of ` {e. within 23 e \<and> ones e \<le> 3} = (\<Union>k\<in>{..3}. ?S k)" by (auto simp: within_def ones_def)
  qed
  then have "card {e. within 23 e \<and> ones e \<le> 3} = card (\<Union>k\<in>{..3}. ?S k)" by (rule bij_betw_same_card)
  also have "\<dots> = (\<Sum>k\<in>{..3}. card (?S k))"
    by (rule card_UN_disjoint) (auto intro: finite_subset [of _ "Pow {..<23}"])
  also have "\<dots> = (\<Sum>k\<in>{..3}. 23 choose k)" by (simp add: n_subsets)
  also have "\<dots> = 2048"
  proof -
    have "(23 :: nat) choose 2 = 253" "(22 :: nat) choose 2 = 231" by (simp_all add: choose_two)
    moreover have "3 * (23 choose 3) = 23 * (22 choose 2)" using times_binomial_minus1_eq [of 3 23] by simp
    moreover have "{..3 :: nat} = {0, 1, 2, 3}" by auto
    ultimately show ?thesis by simp
  qed
  finally show ?thesis .
qed

lemma golay_reduce_eq: 
  assumes "within 23 v" "within 23 w" "golay_reduce v = golay_reduce w" "ones v + ones w \<le> 6"
  shows "v = w"
proof -
  have "golay_reduce (v XOR w) = 0" using assms(3) by (simp add: golay_reduce_xor)
  then have "v XOR w = 0" using codeword_weight [OF within_xor [OF assms(1,2)]] ones_xor [of v w] assms(4) by linarith
  then show ?thesis by (simp add: xor_eq_0)
qed

lemma errors_cover: "within 11 s \<Longrightarrow> \<exists>e. within 23 e \<and> ones e \<le> 3 \<and> golay_reduce e = s"
proof -
  let ?E = "{e. within 23 e \<and> ones e \<le> 3}"
  have "inj_on golay_reduce ?E" by (rule inj_onI) (rule golay_reduce_eq; simp)
  then have "card (golay_reduce ` ?E) = card {s. within 11 s}" by (simp add: card_image card_light card_within)
  moreover have "golay_reduce ` ?E \<subseteq> {s. within 11 s}" by (auto intro: within_reduce)
  ultimately have "golay_reduce ` ?E = {s. within 11 s}" by (intro card_subset_eq) simp_all
  moreover assume "within 11 s"
  ultimately have "s \<in> golay_reduce ` ?E" by simp
  then show ?thesis by auto
qed

section \<open>The table\<close>

lemma golay_sort_correct:
  assumes "length xs = LUT_SIZE"
  shows "sorted (golay_sort xs)" "set (golay_sort xs) = set xs"
proof -
  let ?ys = "golay_sort xs"
  have c: "permuted 0 (length xs) xs ?ys" "\<And>i j. i < j \<Longrightarrow> j < length xs \<Longrightarrow> ?ys ! i \<le> ?ys ! j"
    using sort_impl_correct [of LUT_SIZE xs 0] assms by (simp_all add: golay_sort_def)
  have "range_of zs 0 (length zs) = set zs" for zs :: "u64 list"
    by (auto simp: range_of_def in_set_conv_nth)
  moreover have l: "length ?ys = length xs" using c(1) by (simp add: permuted_def)
  ultimately show "set ?ys = set xs" using c(1) by (metis permuted_def)
  show "sorted ?ys" unfolding sorted_iff_nth_mono_less using c(2) l by auto
qed

definition sme :: "u32 \<Rightarrow> u64" where "sme v = makeSME (ucast (syndrome v)) v"

definition sme_key :: "u64 \<Rightarrow> u32" where "sme_key x = drop_bit 8 (fst (makeSyndromeMapEntry x))"

lemma syndrome_reduce: "within 23 v \<Longrightarrow> syndrome v = push_bit 12 (golay_reduce v)"
proof -
  assume v: "within 23 v"
  have "v AND 0xFFFFFF = take_bit 24 v" by (simp add: take_bit_eq_mask mask_eq_exp_minus_1)
  also have "\<dots> = v" using within_mono [OF v, of 24] by (simp add: within_take_bit)
  finally show ?thesis by (simp only: syndrome_def)
qed

lemma within_syndrome: "within 23 v \<Longrightarrow> within 23 (syndrome v)"
  using within_reduce [of v] by (auto simp: syndrome_reduce within_def bit_push_bit_iff)

lemma syndrome_eq_iff: "within 23 v \<Longrightarrow> within 23 w \<Longrightarrow> syndrome v = syndrome w \<longleftrightarrow> golay_reduce v = golay_reduce w"
proof -
  assume v: "within 23 v" and w: "within 23 w"
  have "drop_bit 12 (syndrome x) = golay_reduce x" if "within 23 x" for x
    using within_reduce [OF that]
    by (intro bit_word_eqI) (auto simp: syndrome_reduce [OF that] bit_drop_bit_eq bit_push_bit_iff within_def)
  with v w show ?thesis by (metis syndrome_reduce)
qed

lemma golay_masks: "(0xFFFFFF :: u32) = mask 24" "(0xFFFF :: u64) = mask 16" "(0xFF :: u32) = mask 8"
  by (simp_all add: mask_eq_exp_minus_1)

lemma bit_sme:
  "within 23 v \<Longrightarrow> bit (sme v) j \<longleftrightarrow> bit v j \<or> 24 \<le> j \<and> bit (syndrome v) (j - 24)"
  by (auto simp: sme_def makeSME_def golay_masks bit_or_iff bit_push_bit_iff bit_unsigned_iff bit_and_iff bit_mask_iff
      within_def subset_iff dest: bit_imp_le_length)

lemma bit_sme_key: "bit (sme_key x) j \<longleftrightarrow> j + 8 < 32 \<and> bit x (j + 24)"
  by (auto simp: sme_key_def makeSyndromeMapEntry_def bit_drop_bit_eq bit_unsigned_iff ac_simps)

lemma sme_key:
  assumes "within 23 v"
  shows "sme_key (sme v) = syndrome v"
  using within_syndrome [OF assms] assms
  by (intro bit_word_eqI) (auto simp: bit_sme_key bit_sme within_def subset_iff)

lemma sme_error:
  assumes "within 23 v"
  shows "push_bit 16 (fst (makeSyndromeMapEntry (sme v)) AND 0xFF) OR ucast (snd (makeSyndromeMapEntry (sme v))) = v" (is "?l = v")
proof (rule bit_word_eqI)
  fix n assume "n < LENGTH(32)"
  have "bit ?l n \<longleftrightarrow> (16 \<le> n \<and> n < 24 \<and> bit (sme v) n) \<or> (n < 16 \<and> bit (sme v) n)"
    by (auto simp: makeSyndromeMapEntry_def golay_masks bit_or_iff bit_push_bit_iff bit_and_iff bit_mask_iff
        bit_unsigned_iff bit_drop_bit_eq)
  also have "\<dots> \<longleftrightarrow> bit v n" using assms by (auto simp: bit_sme within_def subset_iff)
  finally show "bit ?l n \<longleftrightarrow> bit v n" .
qed

lemma sme_key_mono: "within 23 v \<Longrightarrow> within 23 w \<Longrightarrow> sme v \<le> sme w \<Longrightarrow> sme_key (sme v) \<le> sme_key (sme w)"
proof -
  assume v: "within 23 v" "within 23 w" and le: "sme v \<le> sme w"
  have "drop_bit 24 (sme x) = ucast (syndrome x)" if "within 23 x" for x
    using that by (intro bit_word_eqI) (auto simp: bit_drop_bit_eq bit_sme bit_unsigned_iff within_def subset_iff)
  moreover have "drop_bit 24 (sme v) \<le> drop_bit 24 (sme w)"
    using le by (simp add: word_le_nat_alt drop_bit_eq_div unat_div div_le_mono)
  ultimately show ?thesis using v by (simp add: sme_key word_le_nat_alt)
qed

lemma lower_bound_found:
  assumes "sorted xs" "x0 \<in> set xs" "\<And>x y. x \<in> set xs \<Longrightarrow> y \<in> set xs \<Longrightarrow> x \<le> y \<Longrightarrow> key x \<le> key y"
    "\<And>x. x \<in> set xs \<Longrightarrow> key x = key x0 \<Longrightarrow> x = x0"
  shows "\<exists>rest. dropWhile (\<lambda>x. key x < (key x0 :: 'b::linorder)) xs = x0 # rest"
  using assms
proof (induction xs)
  case (Cons a xs)
  show ?case
  proof (cases "key a < key x0")
    case True
    then have "a \<noteq> x0" by auto
    with Cons True show ?thesis by auto
  next
    case False
    have "a \<le> x0" using Cons.prems(1,2) by auto
    then have "key a \<le> key x0" using Cons.prems(2,3) by auto
    with False have "a = x0" using Cons.prems(4) by auto
    with False show ?thesis by auto
  qed
qed simp

theorem golay_decode_error:
  assumes "within 24 c" "golay_reduce (drop_bit 1 c) = 0" "within 23 e" "ones e \<le> 3"
  shows "golay_decode (c XOR push_bit 1 e) output = Some (popcount (syndrome e) < 3 \<or> \<not> parity c, c)"
proof -
  define S where "S = golay_sort (map sme golay_errors)"
  have S: "sorted S" "set S = sme ` {e. within 23 e \<and> ones e \<le> 3}"
    using golay_sort_correct [of "map sme golay_errors"] by (simp_all add: S_def length_golay_errors LUT_SIZE_def golay_errors_set)
  have lut: "make_lut = map makeSyndromeMapEntry S" by (simp add: make_lut_def S_def sme_def [abs_def])
  have d: "drop_bit 1 (c XOR push_bit 1 e) = drop_bit 1 c XOR e"
    using assms(3) by (intro bit_word_eqI) (auto simp: bit_drop_bit_eq bit_xor_iff bit_push_bit_iff within_def subset_iff)
  have w: "within 23 (drop_bit 1 c)" using assms(1) by (auto simp: within_def bit_drop_bit_eq subset_iff)
  have syn: "syndrome (drop_bit 1 (c XOR push_bit 1 e)) = syndrome e"
    unfolding d using assms w by (subst syndrome_eq_iff) (auto simp: within_xor golay_reduce_xor)
  have "\<exists>rest. dropWhile (\<lambda>x. sme_key x < sme_key (sme e)) S = sme e # rest"
  proof (rule lower_bound_found [OF S(1)])
    show "sme e \<in> set S" using assms(3,4) S(2) by auto
    show "sme_key x \<le> sme_key y" if "x \<in> set S" "y \<in> set S" "x \<le> y" for x y
      using that sme_key_mono by (auto simp: S(2))
    show "x = sme e" if x: "x \<in> set S" "sme_key x = sme_key (sme e)" for x
    proof -
      obtain v where v: "x = sme v" "within 23 v" "ones v \<le> 3" using x(1) S(2) by auto
      then have "golay_reduce v = golay_reduce e" using x(2) assms(3) by (simp add: sme_key syndrome_eq_iff)
      then show ?thesis using golay_reduce_eq [of v e] v assms(3,4) by simp
    qed
  qed
  then obtain rest where r: "dropWhile (\<lambda>x. sme_key x < syndrome e) S = sme e # rest" using assms(3) by (auto simp: sme_key)
  have "dropWhile (\<lambda>sme. drop_bit 8 (fst sme) < syndrome e) make_lut = map makeSyndromeMapEntry (sme e # rest)"
    unfolding lut dropWhile_map comp_def r [symmetric] by (simp add: sme_key_def)
  moreover have "drop_bit 8 (fst (makeSyndromeMapEntry (sme e))) = syndrome e"
    using sme_key [OF assms(3)] by (simp only: sme_key_def)
  moreover have "(c XOR push_bit 1 e) XOR push_bit 1 e = c" by (simp add: xor.assoc)
  ultimately show ?thesis
    using sme_error [OF assms(3)]
    by (simp only: golay_decode_def Let_def syn list.map list.case case_prod_beta simp_thms if_True)
qed

section \<open>Encoding and decoding\<close>

lemma within_ucast: "d < 4096 \<Longrightarrow> within 12 (ucast (d :: u16))"
  by (simp add: within_less word_less_nat_alt)

lemma encode23_codeword: "d < 4096 \<Longrightarrow> encode23 d = golay_codeword (ucast d)"
proof -
  assume d: "d < 4096"
  then have "within 11 (golay_reduce (ucast d))" by (intro within_reduce within_mono [OF within_ucast]) auto
  then show ?thesis
    unfolding encode23_def golay_codeword_def
    by (intro bit_word_eqI) (auto simp: bit_or_iff bit_xor_iff bit_push_bit_iff within_def subset_iff)
qed

lemma within_codeword: "within 12 x \<Longrightarrow> within 23 (golay_codeword x)"
  unfolding golay_codeword_def
  by (intro within_xor within_mono [OF within_reduce, of x 23] within_mono [of 12 x 23])
    (auto simp: within_def bit_push_bit_iff subset_iff)

lemma parity_ones: "parity w \<longleftrightarrow> odd (ones w)"
  by (simp add: parity_def popcount_ones)

lemma ones_push1: "within 23 w \<Longrightarrow> ones (push_bit 1 w OR of_bool b) = ones w + of_bool b"
proof -
  assume w: "within 23 w"
  have "bits_of (push_bit 1 w OR of_bool b) = Suc ` bits_of w \<union> (if b then {0} else {})"
  proof (rule set_eqI)
    fix j show "j \<in> bits_of (push_bit 1 w OR of_bool b) \<longleftrightarrow> j \<in> Suc ` bits_of w \<union> (if b then {0} else {})"
      using w by (cases j) (auto simp: bit_or_iff bit_push_bit_iff bit_1_iff within_def subset_iff)
  qed
  then show ?thesis by (simp add: ones_def card_image card_insert_if)
qed

lemma encode24_parts:
  assumes "d < 4096"
  shows "within 24 (encode24 d)" "drop_bit 1 (encode24 d) = encode23 d" "golay_reduce (encode23 d) = 0" "even (ones (encode24 d))"
proof -
  have w: "within 23 (encode23 d)" using assms by (simp add: encode23_codeword within_codeword within_ucast)
  show "golay_reduce (encode23 d) = 0" using assms by (simp add: encode23_codeword golay_syndrome_0 within_ucast)
  have e: "encode24 d = push_bit 1 (encode23 d) OR of_bool (parity (encode23 d))" by (simp add: encode24_def Let_def)
  show "drop_bit 1 (encode24 d) = encode23 d"
    unfolding e using w by (intro bit_word_eqI) (auto simp: bit_or_iff bit_drop_bit_eq bit_push_bit_iff bit_1_iff within_def subset_iff)
  show "within 24 (encode24 d)"
    unfolding e using w by (auto simp: within_def bit_or_iff bit_push_bit_iff bit_1_iff subset_iff)
  show "even (ones (encode24 d))" unfolding e ones_push1 [OF w] by (simp add: parity_ones)
qed

text \<open>The syndrome of a light error has few bits only when the error lies in the bits the syndrome shows.\<close>

lemma syndrome_weight:
  assumes "within 23 e" "ones e \<le> 3" "ones (syndrome e) < 3 \<or> ones (syndrome e) + ones e \<le> 6"
  shows "syndrome e = e"
proof (rule golay_reduce_eq)
  show w: "within 23 (syndrome e)" "within 23 e" using assms by (simp_all add: within_syndrome)
  have "golay_reduce (syndrome e) = drop_bit 12 (push_bit 12 (golay_reduce e))"
    unfolding syndrome_reduce [OF assms(1)] golay_reduce_funpow [of "push_bit _ _"]
    by (rule golay_steps_drop) (simp add: bit_push_bit_iff)
  also have "\<dots> = golay_reduce e"
    using within_reduce [OF assms(1)] by (intro bit_word_eqI) (auto simp: bit_drop_bit_eq bit_push_bit_iff within_def)
  finally show "golay_reduce (syndrome e) = golay_reduce e" .
  show "ones (syndrome e) + ones e \<le> 6" using assms by auto
qed

text \<open>The same errors with one in the parity bit: only a light syndrome lets them pass.\<close>

lemma golay_decode_flipped:
  assumes "d < 4096" "within 23 e" "ones e \<le> 3"
  shows "golay_decode (encode24 d XOR (1 XOR push_bit 1 e)) output = Some (popcount (syndrome e) < 3, encode24 d XOR 1)"
proof -
  note parts = encode24_parts [OF assms(1)]
  have odd: "odd (ones (encode24 d XOR 1))" using parts(4) ones_single [of 0] by (simp add: odd_ones_xor)
  have "golay_decode ((encode24 d XOR 1) XOR push_bit 1 e) output =
    Some (popcount (syndrome e) < 3 \<or> \<not> parity (encode24 d XOR 1), encode24 d XOR 1)"
  proof (rule golay_decode_error)
    show "within 24 (encode24 d XOR 1)" using parts(1) by (intro within_xor) (simp_all add: within_less)
    have "drop_bit 1 (encode24 d XOR 1) = encode23 d"
      unfolding parts(2) [symmetric] by (intro bit_word_eqI) (simp add: bit_drop_bit_eq bit_xor_iff bit_1_iff)
    then show "golay_reduce (drop_bit 1 (encode24 d XOR 1)) = 0" using parts(3) by simp
  qed (use assms in auto)
  then show ?thesis using odd by (simp add: xor.assoc parity_ones)
qed

text \<open>Four errors in the 23 bits leave three that look like the error of another code word.\<close>

lemma golay_decode_four:
  assumes "d < 4096" "within 23 f" "ones f = 4"
  obtains out g where "golay_decode (encode24 d XOR push_bit 1 f) output = Some (popcount (syndrome g) < 3, out)"
    "within 23 g" "ones g = 3"
proof -
  note parts = encode24_parts [OF assms(1)]
  obtain g where g: "within 23 g" "ones g \<le> 3" "golay_reduce g = golay_reduce f"
    using errors_cover [OF within_reduce [OF assms(2)]] by blast
  define k where "k = f XOR g"
  have k: "within 23 k" "golay_reduce k = 0" using assms(2) g by (simp_all add: k_def within_xor golay_reduce_xor)
  have "k \<noteq> 0" using assms(3) g(2) by (auto simp: k_def xor_eq_0)
  then have k7: "ones k = 7" "ones g = 3"
    using codeword_weight [OF k] ones_xor [of f g] assms(3) g(2) by (auto simp: k_def)
  have kp: "ones (push_bit 1 k) = 7" using ones_push1 [OF k(1), of False] k7 by simp
  let ?c = "encode24 d XOR push_bit 1 k"
  have "golay_decode (?c XOR push_bit 1 g) output = Some (popcount (syndrome g) < 3 \<or> \<not> parity ?c, ?c)"
  proof (rule golay_decode_error)
    show "within 24 ?c"
      using parts(1) k(1) by (intro within_xor) (auto simp: within_def bit_push_bit_iff subset_iff)
    have "drop_bit 1 ?c = encode23 d XOR k"
      unfolding parts(2) [symmetric] using k(1)
      by (intro bit_word_eqI) (auto simp: bit_drop_bit_eq bit_xor_iff bit_push_bit_iff within_def subset_iff)
    then show "golay_reduce (drop_bit 1 ?c) = 0" using parts(3) k(2) by (simp add: golay_reduce_xor)
  qed (use g in auto)
  moreover have "?c XOR push_bit 1 g = encode24 d XOR push_bit 1 f" by (simp add: k_def push_bit_xor xor.assoc)
  moreover have "parity ?c" using parts(4) kp by (simp add: parity_ones odd_ones_xor)
  ultimately have "golay_decode (encode24 d XOR push_bit 1 f) output = Some (popcount (syndrome g) < 3, ?c)" by simp
  then show thesis using g(1) k7(2) by (rule that)
qed

lemma heavy_syndrome: "within 23 g \<Longrightarrow> ones g = 3 \<Longrightarrow> \<not> popcount (syndrome g) < 3"
  using syndrome_weight [of g] by (force simp: popcount_ones)

text \<open>The bits of an error of the whole word.\<close>

lemma split_error:
  assumes "within 24 e"
  shows "e = push_bit 1 (drop_bit 1 e) OR of_bool (odd e)" "within 23 (drop_bit 1 e)"
    "ones e = ones (drop_bit 1 e) + of_bool (odd e)"
    "odd e \<Longrightarrow> e = 1 XOR push_bit 1 (drop_bit 1 e)" "even e \<Longrightarrow> e = push_bit 1 (drop_bit 1 e)"
proof -
  let ?f = "drop_bit 1 e"
  show f: "within 23 ?f" using assms by (auto simp: within_def bit_drop_bit_eq subset_iff)
  show e: "e = push_bit 1 ?f OR of_bool (odd e)"
  proof (rule bit_word_eqI)
    fix j show "bit e j \<longleftrightarrow> bit (push_bit 1 ?f OR of_bool (odd e)) j" if "j < LENGTH(32)"
      using that by (cases j) (auto simp: bit_or_iff bit_push_bit_iff bit_drop_bit_eq bit_1_iff bit_0 even_or_iff even_push_bit_iff)
  qed
  show "ones e = ones ?f + of_bool (odd e)" using ones_push1 [OF f, of "odd e"] e by simp
  have "push_bit 1 ?f OR 1 = 1 XOR push_bit 1 ?f"
    by (rule bit_word_eqI) (auto simp: bit_or_iff bit_xor_iff bit_push_bit_iff bit_1_iff)
  then show "odd e \<Longrightarrow> e = 1 XOR push_bit 1 ?f" using e by simp
  show "even e \<Longrightarrow> e = push_bit 1 ?f" using e by simp
qed

text \<open>
  C17. Up to three errors anywhere in the 23 bits of a code word are corrected by the search in the sorted table of
  syndromes: the decoder accepts the word and returns the word that was sent, with its data and its parity bit.
\<close>

theorem golay_corrects_three:
  assumes "d < 4096" "e < 0x800000" "popcount e \<le> 3"
  shows "golay_decode (encode24 d XOR push_bit 1 e) output = Some (True, encode24 d)"
  using golay_decode_error [of "encode24 d" e "output"] encode24_parts [OF assms(1)] assms(2,3)
  by (simp add: within_less popcount_ones parity_ones)

theorem golay_corrects_three_witness:
  "golay_decode (encode24 0xABC XOR push_bit 1 0x400201) 0 = Some (True, encode24 0xABC)"
  by (rule golay_corrects_three) (simp_all add: popcount_def upt_rec)

text \<open>
  C30. Four errors anywhere in the 24 bits of a word are detected: the decoder returns that it failed, it never delivers
  another code word for it.
\<close>

theorem golay_detects_four:
  assumes "d < 4096" "e < 0x1000000" "popcount e = 4"
  shows "\<exists>out. golay_decode (encode24 d XOR e) output = Some (False, out)"
proof -
  let ?f = "drop_bit 1 e"
  have w: "within 24 e" using assms(2) by (simp add: within_less)
  note f = split_error [OF w]
  have four: "ones ?f + of_bool (odd e) = 4" using f(3) assms(3) by (simp add: popcount_ones)
  show ?thesis
  proof (cases "odd e")
    case True
    then have "golay_decode (encode24 d XOR e) output = Some (popcount (syndrome ?f) < 3, encode24 d XOR 1)"
      using golay_decode_flipped [OF assms(1) f(2), of "output"] f(4) four by simp
    then show ?thesis using heavy_syndrome [OF f(2)] four True by simp
  next
    case False
    then have "ones ?f = 4" using four by simp
    then obtain out g where "golay_decode (encode24 d XOR e) output = Some (popcount (syndrome g) < 3, out)"
      "within 23 g" "ones g = 3"
      using golay_decode_four [OF assms(1) f(2), of "output"] f(5) False by metis
    then show ?thesis using heavy_syndrome by simp
  qed
qed

theorem golay_detects_four_witness:
  "\<exists>out. golay_decode (encode24 0xABC XOR 0x810401) 0 = Some (False, out)"
  by (rule golay_detects_four) (simp_all add: popcount_def upt_rec)

text \<open>
  C33. One or two errors in the low twelve bits of the 23-bit word together with an error of the parity bit are
  three errors that the code could correct, and the decoder finds the right word; yet it reports a failure. The test that is meant to
  check the parity for three-bit errors only looks at the number of bits of the syndrome, not of the error.
\<close>

theorem golay_parity_error_rejected:
  assumes "d < 4096" "e < 0x1000" "e \<noteq> 0" "popcount e \<le> 2"
  shows "golay_decode (encode24 d XOR (1 XOR push_bit 1 e)) output = Some (False, encode24 d XOR 1)"
proof -
  have e: "within 12 e" "within 23 e" using assms(2) by (simp_all add: within_less word_less_nat_alt)
  have "\<not> popcount (syndrome e) < 3"
  proof
    assume "popcount (syndrome e) < 3"
    then have "syndrome e = e" using syndrome_weight [OF e(2)] assms(4) by (simp add: popcount_ones)
    moreover have "\<not> bit (syndrome e) j" if "j < 12" for j using that e by (simp add: syndrome_reduce bit_push_bit_iff)
    ultimately have "bits_of e = {}" using e(1) by (auto simp: within_def)
    then show False using assms(3) bits_of_inj [of e 0] by simp
  qed
  then show ?thesis using golay_decode_flipped [OF assms(1) e(2)] assms(4) by (simp add: popcount_ones)
qed

theorem golay_parity_error_rejected_witness:
  "golay_decode (encode24 0xABC XOR (1 XOR push_bit 1 0x10)) 0 = Some (False, encode24 0xABC XOR 1)"
  by (rule golay_parity_error_rejected) (simp_all add: popcount_def upt_rec)

end
