(* ===== verification/M17Lsf.thy ===== *)
theory M17Lsf
  imports Prelude
begin

text \<open>
  The link setup frame of the M17 decoder (\<open>decoder_modules/m17_decoder/src\<close>): call signs in base 40
  (\<open>base40.cpp\<close>), the check sequence (\<open>crc16.h\<close>) and the fields of the frame (\<open>lsf_decode.cpp\<close>), with
  what a transmitter sends and its round trip.
\<close>

section \<open>Call signs\<close>

definition base40_alphabet :: string where
  "base40_alphabet = '' ABCDEFGHIJKLMNOPQRSTUVWXYZ0123456789-/.''"

fun base40_chars :: "nat \<Rightarrow> string" where
  "base40_chars encoded = (if 0 < encoded then base40_alphabet ! (encoded mod 40) # base40_chars (encoded div 40) else [])"

declare base40_chars.simps [simp del]

definition decode_callsign_base40 :: "u64 \<Rightarrow> string" where
  "decode_callsign_base40 encoded = (if 262144000000000 \<le> encoded then [] else base40_chars (unat encoded))"

section \<open>The check sequence\<close>

definition crc_poly :: u16 where "crc_poly = 0x5935"

definition crc_unstep :: "u16 \<Rightarrow> u16" where
  "crc_unstep reg =
    (let bit = reg AND 1; reg = (if bit \<noteq> 0 then reg XOR crc_poly else reg); reg = drop_bit 1 reg
     in if bit \<noteq> 0 then reg OR 0x8000 else reg)"

definition crc16_reset :: u16 where
  "crc16_reset = foldl (\<lambda>reg i. crc_unstep reg) 0xFFFF [0..<16] AND 0xFFFF"

definition crc16_bit :: "u8 \<Rightarrow> u16 \<Rightarrow> nat \<Rightarrow> u16" where
  "crc16_bit byte reg i =
    (let msb = reg AND 0x8000; reg = (push_bit 1 reg AND 0xFFFF) OR (ucast (drop_bit (7 - i) byte) AND 1)
     in if msb \<noteq> 0 then reg XOR crc_poly else reg)"

definition crc16_byte :: "u16 \<Rightarrow> u8 \<Rightarrow> u16" where
  "crc16_byte reg byte = foldl (crc16_bit byte) reg [0..<8] AND 0xFFFF"

definition crc16_shift :: "u16 \<Rightarrow> u16" where
  "crc16_shift reg =
    (let msb = reg AND 0x8000; reg = push_bit 1 reg AND 0xFFFF in if msb \<noteq> 0 then reg XOR crc_poly else reg)"

definition crc16_get :: "u16 \<Rightarrow> u16" where
  "crc16_get reg = foldl (\<lambda>reg i. crc16_shift reg) reg [0..<16]"

definition crc16_get_bytes :: "u16 \<Rightarrow> u8 list" where
  "crc16_get_bytes reg = (let crc = crc16_get reg in [ucast (drop_bit 8 crc AND 0xFF), ucast (crc AND 0xFF)])"

section \<open>The link setup frame\<close>

datatype M17DataType = M17_DATATYPE_UNKNOWN | M17_DATATYPE_DATA | M17_DATATYPE_VOICE | M17_DATATYPE_DATA_VOICE
datatype M17EncryptionType = M17_ENCRYPTION_NONE | M17_ENCRYPTION_AES | M17_ENCRYPTION_SCRAMBLE | M17_ENCRYPTION_UNKNOWN

definition to_data_type :: "u16 \<Rightarrow> M17DataType" where
  "to_data_type v = (if v = 0 then M17_DATATYPE_UNKNOWN else if v = 1 then M17_DATATYPE_DATA
     else if v = 2 then M17_DATATYPE_VOICE else M17_DATATYPE_DATA_VOICE)"

definition to_encryption_type :: "u16 \<Rightarrow> M17EncryptionType" where
  "to_encryption_type v = (if v = 0 then M17_ENCRYPTION_NONE else if v = 1 then M17_ENCRYPTION_AES
     else if v = 2 then M17_ENCRYPTION_SCRAMBLE else M17_ENCRYPTION_UNKNOWN)"

definition M17DataTypesTxt :: "M17DataType \<Rightarrow> string" where
  "M17DataTypesTxt t = (case t of M17_DATATYPE_UNKNOWN \<Rightarrow> ''Unknown'' | M17_DATATYPE_DATA \<Rightarrow> ''Data''
     | M17_DATATYPE_VOICE \<Rightarrow> ''Voice'' | M17_DATATYPE_DATA_VOICE \<Rightarrow> ''Voice & Data'')"

definition M17EncryptionTypesTxt :: "M17EncryptionType \<Rightarrow> string" where
  "M17EncryptionTypesTxt t = (case t of M17_ENCRYPTION_NONE \<Rightarrow> ''None'' | M17_ENCRYPTION_AES \<Rightarrow> ''AES''
     | M17_ENCRYPTION_SCRAMBLE \<Rightarrow> ''Scrambler'' | M17_ENCRYPTION_UNKNOWN \<Rightarrow> ''Unknown'')"

record M17LSF =
  rawDst :: u64
  rawSrc :: u64
  rawType :: u16
  meta :: "u8 list"
  rawCRC :: u16
  dst :: string
  src :: string
  isStream :: bool
  dataType :: M17DataType
  encryptionType :: M17EncryptionType
  encryptionSubType :: u8
  channelAccessNum :: u8
  valid :: bool

text \<open>The bits of a field, \<open>w\<close> of them from bit \<open>off\<close> on, most significant first.\<close>

definition lsf_field :: "nat \<Rightarrow> nat \<Rightarrow> u8 list \<Rightarrow> 'a::len word" where
  "lsf_field w off lsf =
    foldl (\<lambda>v i. v OR push_bit (w - 1 - i) (drop_bit (7 - i mod 8) (ucast (lsf ! ((i + off) div 8))) AND 1)) 0 [0..<w]"

fun hex_digits :: "nat \<Rightarrow> string" where
  "hex_digits n = (if n < 16 then [''0123456789ABCDEF'' ! n] else hex_digits (n div 16) @ [''0123456789ABCDEF'' ! (n mod 16)])"

declare hex_digits.simps [simp del]

definition lsf_dst :: "u64 \<Rightarrow> string" where
  "lsf_dst raw =
    (if raw = 0 then ''Invalid'' else if raw \<le> 262143999999999 then decode_callsign_base40 raw
     else if raw = 0xFFFFFFFFFFFF then ''Broadcast'' else hex_digits (unat raw))"

definition lsf_src :: "u64 \<Rightarrow> string" where
  "lsf_src raw =
    (if raw = 0 \<or> raw = 0xFFFFFFFFFFFF then ''Invalid''
     else if raw \<le> 262143999999999 then decode_callsign_base40 raw else hex_digits (unat raw))"

text \<open>The fields of an invalid frame stay as they were in memory.\<close>

definition M17DecodeLSF :: "M17LSF \<Rightarrow> u8 list \<Rightarrow> M17LSF" where
  "M17DecodeLSF lsf0 bytes =
    (let lsf = lsf0\<lparr>rawCRC := lsf_field 16 224 bytes\<rparr>
     in if crc16_get (foldl crc16_byte crc16_reset (map (\<lambda>i. bytes ! i) [0..<28])) \<noteq> rawCRC lsf then lsf\<lparr>valid := False\<rparr>
        else
          let rt = lsf_field 16 96 bytes; rd = lsf_field 48 0 bytes; rs = lsf_field 48 48 bytes
          in lsf\<lparr>valid := True, rawDst := rd, rawSrc := rs, rawType := rt, meta := slice bytes 14 14,
               dst := lsf_dst rd, src := lsf_src rs, isStream := rt AND 1 \<noteq> 0,
               dataType := to_data_type (drop_bit 1 rt AND 3), encryptionType := to_encryption_type (drop_bit 3 rt AND 3),
               encryptionSubType := ucast (drop_bit 5 rt AND 3), channelAccessNum := ucast (drop_bit 7 rt AND 15)\<rparr>)"

text \<open>The unfinished check of the source.\<close>

definition M17CheckCRC :: "u8 list \<Rightarrow> int \<Rightarrow> bool" where
  "M17CheckCRC bytes len = True"

end
