(* ===== verification/M17LsfCode.thy ===== *)
theory M17LsfCode
  imports M17Lsf
begin

text \<open>
  The check sequence of the M17 link setup frame is the usual division without the sixteen zero bits,
  call signs read back, and a frame put together field by field is decoded into these fields.
\<close>

section \<open>The check sequence is the usual one\<close>

text \<open>The register with the byte added at its top, shifted by eight bits.\<close>

definition crc_direct :: "u16 \<Rightarrow> u8 \<Rightarrow> u16" where
  "crc_direct reg byte = foldl (\<lambda>reg i. crc16_shift reg) (reg XOR push_bit 8 (ucast byte)) [0..<8]"

lemma u16_masks: "(r :: u16) AND 0xFFFF = r" "r AND 0x8000 \<noteq> 0 \<longleftrightarrow> bit r 15"
proof -
  have "(0xFFFF :: u16) = - 1" by simp
  then show "r AND 0xFFFF = r" by (simp only: and.right_neutral)
  have "(0x8000 :: u16) = 2 ^ 15" by simp
  then show "r AND 0x8000 \<noteq> 0 \<longleftrightarrow> bit r 15" by (simp only: and_exp_eq_0_iff_not_bit not_not)
qed

lemma crc16_shift_alt: "crc16_shift r = push_bit 1 r XOR (if bit r 15 then 0x5935 else 0)"
  by (simp add: crc16_shift_def u16_masks crc_poly_def Let_def)

lemma crc16_shift_xor: "crc16_shift (r XOR s) = crc16_shift r XOR crc16_shift s"
  by (auto simp: crc16_shift_alt push_bit_xor bit_xor_iff ac_simps)

definition shifts :: "nat \<Rightarrow> u16 \<Rightarrow> u16" where "shifts n = crc16_shift ^^ n"

lemma shifts_simps: "shifts 0 r = r" "shifts (Suc n) r = crc16_shift (shifts n r)" "shifts (m + n) r = shifts m (shifts n r)"
  by (simp_all add: shifts_def funpow_add)

lemma foldl_shifts: "foldl (\<lambda>r i. crc16_shift r) r [0..<n] = shifts n r"
  by (induction n) (simp_all add: shifts_def)

lemma shifts_xor: "shifts n (r XOR s) = shifts n r XOR shifts n s"
  by (induction n) (simp_all add: shifts_simps crc16_shift_xor)

definition byte_bit :: "u8 \<Rightarrow> nat \<Rightarrow> u16" where "byte_bit b i = of_bool (bit b (7 - i))"

lemma crc16_bit_alt: "i < 8 \<Longrightarrow> crc16_bit b r i = crc16_shift r XOR byte_bit b i"
proof -
  assume "i < 8"
  have "ucast (drop_bit (7 - i) b) AND 1 = byte_bit b i"
    by (rule bit_word_eqI) (auto simp: byte_bit_def bit_and_iff bit_unsigned_iff bit_drop_bit_eq bit_1_iff intro!: gr0I)
  moreover have "push_bit 1 r OR byte_bit b i = push_bit 1 r XOR byte_bit b i"
    by (rule bit_word_eqI) (auto simp: byte_bit_def bit_or_iff bit_xor_iff bit_push_bit_iff bit_1_iff)
  ultimately have "crc16_bit b r i = (if bit r 15 then (push_bit 1 r XOR byte_bit b i) XOR 0x5935 else push_bit 1 r XOR byte_bit b i)"
    by (simp only: crc16_bit_def u16_masks crc_poly_def Let_def)
  then show ?thesis by (simp add: crc16_shift_alt ac_simps)
qed

lemma sixteen_shifts: "shifts 16 1 = 0x5935" "crc16_shift 0x8000 = 0x5935"
proof -
  have "foldl (\<lambda>r i. crc16_shift r) 1 [0..<16] = 0x5935"
    by (simp add: crc16_shift_def crc_poly_def upt_rec push_bit_of_1)
  then show "shifts 16 1 = 0x5935" by (simp only: foldl_shifts)
  show "crc16_shift 0x8000 = 0x5935" by (simp add: crc16_shift_def crc_poly_def)
qed

lemma get_bits:
  "n \<le> 8 \<Longrightarrow> shifts 16 (foldl (crc16_bit b) r [0..<n]) =
    foldl (\<lambda>s i. crc16_shift (s XOR push_bit 15 (byte_bit b i))) (shifts 16 r) [0..<n]"
proof (induction n)
  case (Suc n)
  let ?r = "foldl (crc16_bit b) r [0..<n]"
  have c: "shifts 16 (crc16_shift ?r) = crc16_shift (shifts 16 ?r)"
    using shifts_simps(3) [of 16 1 ?r] shifts_simps(3) [of 1 16 ?r] by (simp add: shifts_def)
  have "shifts 16 (byte_bit b n) = crc16_shift (push_bit 15 (byte_bit b n))"
  proof (cases "bit b (7 - n)")
    case True
    have "(push_bit 15 1 :: u16) = 0x8000" by (simp add: push_bit_eq_mult)
    with True show ?thesis by (simp add: byte_bit_def sixteen_shifts)
  next
    case False
    have "shifts 16 0 = 0" using shifts_xor [of 16 0 0] by (metis xor_self_eq)
    moreover have "crc16_shift 0 = 0" by (simp add: crc16_shift_alt)
    ultimately show ?thesis using False by (simp add: byte_bit_def)
  qed
  then show ?case using Suc c by (simp add: crc16_bit_alt shifts_xor crc16_shift_xor)
qed simp

text \<open>Adding the bits one by one at the top is adding the byte at once.\<close>

lemma add_bits:
  "n \<le> 8 \<Longrightarrow> foldl (\<lambda>s i. crc16_shift (s XOR push_bit 15 (byte_bit b i))) s [0..<n] =
    shifts n (s XOR push_bit 8 (ucast (push_bit (8 - n) (drop_bit (8 - n) b))))"
proof (induction n)
  case 0
  have "(push_bit 8 (drop_bit 8 b)) = 0" by (rule bit_word_eqI) (simp add: bit_push_bit_iff)
  then show ?case by (simp add: shifts_simps)
next
  case (Suc n)
  have split: "push_bit 8 (ucast (push_bit (8 - Suc n) (drop_bit (8 - Suc n) b))) =
      push_bit 8 (ucast (push_bit (8 - n) (drop_bit (8 - n) b))) XOR (push_bit (15 - n) (byte_bit b n) :: u16)"
  proof (rule bit_word_eqI)
    fix k :: nat
    have t: "8 - n \<le> j \<longleftrightarrow> 8 - Suc n \<le> j \<and> j \<noteq> 7 - n" for j using Suc.prems by auto
    have "k - 8 = 7 - n \<longleftrightarrow> k = 15 - n" if "8 \<le> k" using that Suc.prems by auto
    then show "bit (push_bit 8 (ucast (push_bit (8 - Suc n) (drop_bit (8 - Suc n) b))) :: u16) k \<longleftrightarrow>
      bit (push_bit 8 (ucast (push_bit (8 - n) (drop_bit (8 - n) b))) XOR (push_bit (15 - n) (byte_bit b n) :: u16)) k"
      using Suc.prems
      by (auto simp: bit_xor_iff bit_push_bit_iff bit_unsigned_iff bit_drop_bit_eq byte_bit_def bit_1_iff t)
  qed
  have sh: "shifts n (push_bit (15 - n) (byte_bit b n)) = push_bit 15 (byte_bit b n)"
  proof -
    have "m \<le> 15 \<Longrightarrow> shifts m (push_bit (15 - m) (of_bool x)) = push_bit 15 (of_bool x)" for m x
    proof (induction m)
      case (Suc m)
      have "crc16_shift (push_bit (15 - Suc m) (of_bool x)) = push_bit (15 - m) (of_bool x)"
        using Suc.prems by (intro bit_word_eqI) (auto simp: crc16_shift_alt bit_push_bit_iff bit_1_iff)
      then show ?case using Suc shifts_simps(3) [of m 1] by (simp add: shifts_def)
    qed (simp add: shifts_simps)
    then show ?thesis using Suc.prems by (simp add: byte_bit_def)
  qed
  have "foldl (\<lambda>s i. crc16_shift (s XOR push_bit 15 (byte_bit b i))) s [0..<Suc n] =
      crc16_shift (shifts n (s XOR push_bit 8 (ucast (push_bit (8 - n) (drop_bit (8 - n) b)))) XOR push_bit 15 (byte_bit b n))"
    using Suc by simp
  also have "\<dots> = shifts (Suc n) (s XOR push_bit 8 (ucast (push_bit (8 - n) (drop_bit (8 - n) b))) XOR push_bit (15 - n) (byte_bit b n))"
    by (simp only: shifts_simps shifts_xor sh crc16_shift_xor xor.assoc)
  finally show ?case unfolding split by (simp only: ac_simps)
qed

lemma crc16_byte_direct: "crc16_get (crc16_byte r b) = crc_direct (crc16_get r) b"
proof -
  have "crc16_get (crc16_byte r b) = shifts 16 (foldl (crc16_bit b) r [0..<8])"
    unfolding crc16_get_def crc16_byte_def foldl_shifts by (simp only: u16_masks)
  also have "\<dots> = shifts 8 (shifts 16 r XOR push_bit 8 (ucast b))"
    using add_bits [of 8 b "shifts 16 r"] by (simp add: get_bits)
  finally show ?thesis by (simp only: crc_direct_def crc16_get_def foldl_shifts)
qed

lemma crc16_reset_get: "crc16_get crc16_reset = 0xFFFF"
  by (simp add: crc16_get_def crc16_reset_def crc16_shift_def crc_unstep_def crc_poly_def upt_rec)

lemma crc_direct_eq: "crc16_get (foldl crc16_byte crc16_reset bytes) = foldl crc_direct 0xFFFF bytes"
proof -
  have "crc16_get (foldl crc16_byte r bytes) = foldl crc_direct (crc16_get r) bytes" for r
    by (induction bytes arbitrary: r) (simp_all add: crc16_byte_direct)
  then show ?thesis by (simp only: crc16_reset_get)
qed

text \<open>
  C32. The check sequence of M17, computed with a register that takes the message bit by bit at its low end, is
  reset by running sixteen steps backwards and read after sixteen zero bits, is the usual CRC-16 with polynomial 0x5935
  and initial value 0xFFFF that adds each byte at the top.
\<close>

theorem m17_crc_direct: "crc16_get (foldl crc16_byte crc16_reset bytes) = foldl crc_direct 0xFFFF bytes"
  by (rule crc_direct_eq)

section \<open>Call signs read back\<close>

text \<open>The number of a call sign, its first character the least significant digit.\<close>

definition base40_digit :: "char \<Rightarrow> nat" where
  "base40_digit c = length (takeWhile (\<lambda>x. x \<noteq> c) base40_alphabet)"

fun encode_base40 :: "string \<Rightarrow> nat" where
  "encode_base40 [] = 0"
| "encode_base40 (c # cs) = base40_digit c + 40 * encode_base40 cs"

definition callsign_ok :: "string \<Rightarrow> bool" where
  "callsign_ok cs \<longleftrightarrow> cs \<noteq> [] \<and> length cs \<le> 9 \<and> set cs \<subseteq> set base40_alphabet \<and> last cs \<noteq> CHR '' ''"

lemma base40_digit:
  "c \<in> set base40_alphabet \<Longrightarrow> base40_digit c < 40 \<and> base40_alphabet ! base40_digit c = c"
  by (auto simp: base40_alphabet_def base40_digit_def)

lemma base40_digit_pos: "c \<in> set base40_alphabet \<Longrightarrow> 0 < base40_digit c \<longleftrightarrow> c \<noteq> CHR '' ''"
  by (auto simp: base40_alphabet_def base40_digit_def)

lemma encode_base40_less: "set cs \<subseteq> set base40_alphabet \<Longrightarrow> encode_base40 cs < 40 ^ length cs"
proof (induction cs)
  case (Cons c cs)
  then have "base40_digit c < 40" "encode_base40 cs < 40 ^ length cs" using base40_digit by auto
  then show ?case by simp
qed simp

lemma encode_base40_pos: "set cs \<subseteq> set base40_alphabet \<Longrightarrow> cs \<noteq> [] \<Longrightarrow> last cs \<noteq> CHR '' '' \<Longrightarrow> 0 < encode_base40 cs"
  by (induction cs) (auto simp: base40_digit_pos split: if_splits)

lemma base40_chars_encode:
  "set cs \<subseteq> set base40_alphabet \<Longrightarrow> cs = [] \<or> last cs \<noteq> CHR '' '' \<Longrightarrow> base40_chars (encode_base40 cs) = cs"
proof (induction cs)
  case Nil
  then show ?case by (simp add: base40_chars.simps)
next
  case (Cons c cs)
  have d: "base40_digit c < 40" "base40_alphabet ! base40_digit c = c" using Cons.prems(1) base40_digit by auto
  have "0 < encode_base40 (c # cs)" using encode_base40_pos [of "c # cs"] Cons.prems by simp
  then show ?case
    using d Cons by (subst base40_chars.simps) (auto split: if_splits)
qed

lemma callsign_bounds:
  assumes "callsign_ok cs"
  shows "0 < encode_base40 cs" "encode_base40 cs < 262144000000000"
proof -
  show "0 < encode_base40 cs" using assms encode_base40_pos by (auto simp: callsign_ok_def)
  have "encode_base40 cs < 40 ^ length cs" using assms encode_base40_less by (auto simp: callsign_ok_def)
  also have "(40 :: nat) ^ length cs \<le> 40 ^ 9" using assms by (intro power_increasing) (auto simp: callsign_ok_def)
  finally show "encode_base40 cs < 262144000000000" by simp
qed

definition callsign_word :: "string \<Rightarrow> u64" where "callsign_word cs = of_nat (encode_base40 cs)"

lemma unat_callsign_word: "callsign_ok cs \<Longrightarrow> unat (callsign_word cs) = encode_base40 cs"
  using callsign_bounds(2) [of cs] by (simp add: callsign_word_def unat_of_nat_lt)

lemma base40_roundtrip: "callsign_ok cs \<Longrightarrow> decode_callsign_base40 (callsign_word cs) = cs"
  using callsign_bounds(2) [of cs] base40_chars_encode [of cs]
  by (simp add: decode_callsign_base40_def word_le_nat_alt unat_callsign_word callsign_ok_def)

lemma lsf_callsigns:
  assumes "callsign_ok cs"
  shows "lsf_dst (callsign_word cs) = cs" "lsf_src (callsign_word cs) = cs"
proof -
  have "callsign_word cs \<noteq> 0" "callsign_word cs \<le> 262143999999999" "callsign_word cs \<noteq> 0xFFFFFFFFFFFF"
    using callsign_bounds [OF assms] unat_callsign_word [OF assms] by (auto simp: word_le_nat_alt word_unat_eq_iff)
  then show "lsf_dst (callsign_word cs) = cs" "lsf_src (callsign_word cs) = cs"
    using base40_roundtrip [OF assms] by (simp_all add: lsf_dst_def lsf_src_def)
qed

section \<open>The fields of a frame\<close>

text \<open>What a transmitter sends: the fields most significant byte first, then the check sequence.\<close>

definition be_bytes :: "nat \<Rightarrow> 'a::len word \<Rightarrow> u8 list" where
  "be_bytes n v = map (\<lambda>k. ucast (drop_bit (8 * (n - 1 - k)) v)) [0..<n]"

definition lsf_bytes :: "u64 \<Rightarrow> u64 \<Rightarrow> u16 \<Rightarrow> u8 list \<Rightarrow> u8 list" where
  "lsf_bytes d s t m =
    (let body = be_bytes 6 d @ be_bytes 6 s @ be_bytes 2 t @ m in body @ be_bytes 2 (foldl crc_direct 0xFFFF body))"

lemma length_be_bytes [simp]: "length (be_bytes n v) = n"
  by (simp add: be_bytes_def)

lemma bit_foldl_or:
  "n \<le> w \<Longrightarrow> bit (foldl (\<lambda>v i. v OR push_bit (w - 1 - i) (g i AND 1)) (0 :: 'a::len word) [0..<n]) j \<longleftrightarrow>
    j < LENGTH('a) \<and> w - n \<le> j \<and> j < w \<and> bit (g (w - 1 - j)) 0"
proof (induction n)
  case (Suc n)
  have "bit (push_bit (w - 1 - n) (g n AND 1)) j \<longleftrightarrow> j < LENGTH('a) \<and> j = w - 1 - n \<and> bit (g n) 0"
    by (auto simp: bit_push_bit_iff bit_and_iff bit_1_iff)
  moreover have "w - Suc n \<le> j \<and> j < w \<longleftrightarrow> w - n \<le> j \<and> j < w \<or> j = w - 1 - n" using Suc.prems by auto
  moreover have "w - 1 - (w - 1 - n) = n" using Suc.prems by simp
  ultimately show ?case using Suc by (auto simp: bit_or_iff)
qed auto

lemma lsf_field_be:
  fixes v :: "'a::len word"
  assumes "8 * n \<le> LENGTH('a)" "\<And>j. bit v j \<Longrightarrow> j < 8 * n" "w = 8 * n" "off = 8 * length pre"
  shows "lsf_field w off (pre @ be_bytes n v @ post) = v"
proof (rule bit_word_eqI)
  fix j assume j: "j < LENGTH('a)"
  show "bit (lsf_field w off (pre @ be_bytes n v @ post) :: 'a word) j \<longleftrightarrow> bit v j"
  proof (cases "j < w")
    case False
    then show ?thesis using assms(2) [of j] unfolding lsf_field_def bit_foldl_or [OF order_refl] by (auto simp: assms(3))
  next
    case True
    define i where "i = w - 1 - j"
    have i: "i < 8 * n" "j = 8 * n - 1 - i" using True assms(3) by (auto simp: i_def)
    have d: "(i + off) div 8 = length pre + i div 8" "i div 8 < n" using i assms(4) by auto
    have "bit ((pre @ be_bytes n v @ post) ! ((i + off) div 8)) (7 - i mod 8) \<longleftrightarrow> bit v (8 * (n - 1 - i div 8) + (7 - i mod 8))"
      using d by (auto simp: nth_append be_bytes_def bit_unsigned_iff bit_drop_bit_eq)
    moreover have "8 * (n - 1 - i div 8) + (7 - i mod 8) = j"
    proof -
      have "8 * (i div 8) + i mod 8 = i" "i mod 8 < 8" by simp_all
      then show ?thesis using i d(2) by (simp add: diff_mult_distrib2)
    qed
    moreover have "bit (lsf_field w off (pre @ be_bytes n v @ post) :: 'a word) j \<longleftrightarrow>
        bit (drop_bit (7 - i mod 8) (ucast ((pre @ be_bytes n v @ post) ! ((i + off) div 8)) :: 'a word)) 0"
      using True j unfolding lsf_field_def bit_foldl_or [OF order_refl] i_def by simp
    moreover have "7 - i mod 8 < LENGTH('a)" using i(1) assms(1) by (cases n) auto
    ultimately show ?thesis by (simp add: bit_drop_bit_eq bit_unsigned_iff del: bit_0)
  qed
qed

lemma lsf_link:
  assumes "callsign_ok cd" "callsign_ok cs" "length m = 14"
  shows "M17DecodeLSF lsf0 (lsf_bytes (callsign_word cd) (callsign_word cs) t m) =
    lsf0\<lparr>rawDst := callsign_word cd, rawSrc := callsign_word cs, rawType := t, meta := m,
      rawCRC := foldl crc_direct 0xFFFF (be_bytes 6 (callsign_word cd) @ be_bytes 6 (callsign_word cs) @ be_bytes 2 t @ m),
      dst := cd, src := cs, isStream := bit t 0, dataType := to_data_type (drop_bit 1 t AND 3),
      encryptionType := to_encryption_type (drop_bit 3 t AND 3), encryptionSubType := ucast (drop_bit 5 t AND 3),
      channelAccessNum := ucast (drop_bit 7 t AND 15), valid := True\<rparr>"
proof -
  define body where "body = be_bytes 6 (callsign_word cd) @ be_bytes 6 (callsign_word cs) @ be_bytes 2 t @ m"
  define crc where "crc = foldl crc_direct 0xFFFF body"
  let ?l = "body @ be_bytes 2 crc"
  have l: "lsf_bytes (callsign_word cd) (callsign_word cs) t m = ?l" by (simp add: lsf_bytes_def body_def crc_def Let_def)
  have lb: "length body = 28" using assms(3) by (simp add: body_def)
  have small: "j < 8 * 6" if "callsign_ok c" "bit (callsign_word c) j" for c j
  proof (rule ccontr)
    assume "\<not> j < 8 * 6"
    moreover have "callsign_word c < 2 ^ 48"
      using callsign_bounds(2) [OF that(1)] unat_callsign_word [OF that(1)] by (simp add: word_less_nat_alt)
    ultimately show False using bit_high [of "callsign_word c" 48 j] that(2) by simp
  qed
  have "map (\<lambda>i. ?l ! i) [0..<28] = body"
    using lb by (intro nth_equalityI) (simp_all add: nth_append)
  then have crc_ok: "crc16_get (foldl crc16_byte crc16_reset (map (\<lambda>i. ?l ! i) [0..<28])) = crc"
    by (simp only: crc_direct_eq crc_def)
  have b16: "8 * 2 \<le> LENGTH(16)" "bit x j \<Longrightarrow> j < 8 * 2" for x :: u16 and j
    using bit_imp_le_length [of x j] by simp_all
  have f: "lsf_field 16 224 ?l = crc"
    using lsf_field_be [OF b16, where w = 16 and off = 224 and pre = body and post = "[]"] lb by simp
  have b48: "8 * 6 \<le> LENGTH(64)" by simp
  have "?l = [] @ be_bytes 6 (callsign_word cd) @ (be_bytes 6 (callsign_word cs) @ be_bytes 2 t @ m @ be_bytes 2 crc)"
    by (simp add: body_def)
  then have d: "lsf_field 48 0 ?l = callsign_word cd"
    by (simp only:) (rule lsf_field_be [OF b48 small [OF assms(1)]], simp_all)
  have "?l = be_bytes 6 (callsign_word cd) @ be_bytes 6 (callsign_word cs) @ (be_bytes 2 t @ m @ be_bytes 2 crc)"
    by (simp add: body_def)
  then have s: "lsf_field 48 48 ?l = callsign_word cs"
    by (simp only:) (rule lsf_field_be [OF b48 small [OF assms(2)]], simp_all)
  have "?l = (be_bytes 6 (callsign_word cd) @ be_bytes 6 (callsign_word cs)) @ be_bytes 2 t @ (m @ be_bytes 2 crc)"
    by (simp add: body_def)
  then have ty: "lsf_field 16 96 ?l = t"
    by (simp only:) (rule lsf_field_be [OF b16], simp_all)
  have me: "slice ?l 14 14 = m" using assms(3) by (simp add: slice_def body_def)
  have st: "t AND 1 \<noteq> 0 \<longleftrightarrow> bit t 0" by (simp add: and_one_eq mod_2_eq_odd bit_0)
  show ?thesis
    unfolding l M17DecodeLSF_def Let_def f d s ty me st crc_ok body_def [symmetric] crc_def [symmetric]
    by (simp add: lsf_callsigns assms(1,2) crc_ok)
qed


text \<open>
  C31. A link setup frame put together by a transmitter, with the call signs in base 40 and the check sequence behind
  the fields, is decoded into exactly these fields: the check accepts it, and the call signs, the type with its parts and the meta
  data are the ones sent.
\<close>

theorem lsf_roundtrip:
  assumes "callsign_ok cd" "callsign_ok cs" "length m = 14"
  shows "M17DecodeLSF lsf0 (lsf_bytes (callsign_word cd) (callsign_word cs) t m) =
    lsf0\<lparr>rawDst := callsign_word cd, rawSrc := callsign_word cs, rawType := t, meta := m,
      rawCRC := foldl crc_direct 0xFFFF (be_bytes 6 (callsign_word cd) @ be_bytes 6 (callsign_word cs) @ be_bytes 2 t @ m),
      dst := cd, src := cs, isStream := bit t 0, dataType := to_data_type (drop_bit 1 t AND 3),
      encryptionType := to_encryption_type (drop_bit 3 t AND 3), encryptionSubType := ucast (drop_bit 5 t AND 3),
      channelAccessNum := ucast (drop_bit 7 t AND 15), valid := True\<rparr>"
  using assms by (rule lsf_link)

definition lsf_memory :: M17LSF where
  "lsf_memory = \<lparr>rawDst = 7, rawSrc = 9, rawType = 1, meta = [], rawCRC = 3, dst = [], src = [], isStream = False,
     dataType = M17_DATATYPE_DATA, encryptionType = M17_ENCRYPTION_AES, encryptionSubType = 0, channelAccessNum = 0, valid = False\<rparr>"

theorem lsf_roundtrip_witness:
  "dst (M17DecodeLSF lsf_memory (lsf_bytes (callsign_word ''W2FBI'') (callsign_word ''AB1CD/P'') 5 (replicate 14 0))) = ''W2FBI''"
  by (subst lsf_roundtrip) (simp_all add: callsign_ok_def base40_alphabet_def)

end
