(* ===== verification/M17Link.thy ===== *)
theory M17Link
  imports M17GolayCode M17LsfCode
begin

text \<open>
  The blocks behind the frames of the M17 decoder (\<open>decoder_modules/m17_decoder/src/m17dsp.h\<close>): the
  link information channel, which collects a link setup frame from six chunks (\<open>M17LICHDecoder\<close>), the
  de-puncturing and packing before the convolutional decoder of libcorrect, a parameter
  (\<open>M17LSFDecoder\<close>, \<open>M17PayloadFEC\<close>), and the start and stop of reception by frame number
  (\<open>M17Codec2Decode\<close>).
\<close>

section \<open>The link information channel\<close>

text \<open>The 24 bits of a code word.\<close>

definition pack_word :: "u8 list \<Rightarrow> nat \<Rightarrow> u32" where
  "pack_word readBuf b = foldl (\<lambda>w i. w OR push_bit (23 - i) (ucast (readBuf ! (b * 24 + i)))) 0 [0..<24]"

definition chunk_put :: "u8 list \<Rightarrow> nat \<Rightarrow> u8 \<Rightarrow> u8 list" where
  "chunk_put chunk k v = chunk[k div 8 := (chunk ! (k div 8)) OR push_bit (7 - k mod 8) v]"

definition chunk_word :: "u32 \<Rightarrow> nat \<Rightarrow> u8 list \<Rightarrow> u8 list" where
  "chunk_word decodedBlock b chunk =
    foldl (\<lambda>chunk i. chunk_put chunk (b * 12 + i) (ucast (drop_bit (23 - i) decodedBlock AND 1))) chunk [0..<12]"

datatype chunk_result = Chunk "u8 list" | Undecodable "u8 list"

text \<open>The four words of a chunk; the first that cannot be decoded ends the block.\<close>

fun decode_words :: "u8 list \<Rightarrow> nat list \<Rightarrow> u8 list \<Rightarrow> chunk_result option" where
  "decode_words readBuf [] chunk = Some (Chunk chunk)"
| "decode_words readBuf (b # bs) chunk =
    (case golay_decode (pack_word readBuf b) 0 of
       None \<Rightarrow> None
     | Some (ok, decodedBlock) \<Rightarrow>
         if ok then decode_words readBuf bs (chunk_word decodedBlock b chunk) else Some (Undecodable chunk))"

record m17_lich =
  chunk :: "u8 list"
  lsf :: "u8 list"
  newFrame :: bool
  lastId :: int

definition lich_init :: "u8 list \<Rightarrow> u8 list \<Rightarrow> m17_lich" where
  "lich_init c l = \<lparr>chunk = c, lsf = l, newFrame = False, lastId = 0\<rparr>"

text \<open>
  \<open>run\<close> on the 96 bits of a frame, with the frame given to the handler, if any. \<^theory_text>\<open>None\<close> is the
  read behind the table of syndromes.
\<close>

definition lich_run :: "M17LSF \<Rightarrow> u8 list \<Rightarrow> m17_lich \<Rightarrow> (m17_lich \<times> M17LSF option) option" where
  "lich_run lsf0 readBuf st =
    (case decode_words readBuf [0..<4] (replicate 6 0) of
       None \<Rightarrow> None
     | Some (Undecodable c) \<Rightarrow> Some (st\<lparr>chunk := c\<rparr>, None)
     | Some (Chunk c) \<Rightarrow>
         let st = st\<lparr>chunk := c\<rparr>; partId = uint (drop_bit 5 (c ! 5))
         in if partId = 0 then
              Some (st\<lparr>newFrame := True, lastId := 0, lsf := blit (lsf st) (nat partId * 5) (take 5 c)\<rparr>, None)
            else if newFrame st \<and> partId \<noteq> lastId st + 1 then Some (st\<lparr>newFrame := False\<rparr>, None)
            else if newFrame st then
              let st = st\<lparr>lastId := partId, lsf := blit (lsf st) (nat partId * 5) (take 5 c)\<rparr>
              in if partId = 5 then
                   let st = st\<lparr>newFrame := False\<rparr>; decLsf = M17DecodeLSF lsf0 (lsf st)
                   in Some (st, if valid decLsf then Some decLsf else None)
                 else Some (st, None)
            else Some (st, None))"

fun lich_runs :: "M17LSF \<Rightarrow> u8 list list \<Rightarrow> m17_lich \<Rightarrow> (m17_lich \<times> M17LSF list) option" where
  "lich_runs lsf0 [] st = Some (st, [])"
| "lich_runs lsf0 (x # xs) st =
    (case lich_run lsf0 x st of
       None \<Rightarrow> None
     | Some (st, h) \<Rightarrow>
         (case lich_runs lsf0 xs st of None \<Rightarrow> None | Some (st, hs) \<Rightarrow> Some (st, (case h of None \<Rightarrow> hs | Some l \<Rightarrow> l # hs))))"

section \<open>De-puncturing\<close>

definition M17_ENCODED_LSF_SIZE :: nat where "M17_ENCODED_LSF_SIZE = 488"
definition M17_ENCODED_PAYLOAD_SIZE :: nat where "M17_ENCODED_PAYLOAD_SIZE = 296"
definition M17_PAYLOAD_SIZE :: nat where "M17_PAYLOAD_SIZE = 144"

definition M17_PUNCTURING_P1 :: "u8 list" where
  "M17_PUNCTURING_P1 =
    [1, 1, 0, 1, 1, 1, 0, 1, 1, 1, 0, 1, 1, 1, 0, 1, 1, 1, 0, 1, 1, 1, 0, 1, 1, 1, 0, 1, 1, 1, 0, 1,
     1, 1, 0, 1, 1, 1, 0, 1, 1, 1, 0, 1, 1, 1, 0, 1, 1, 1, 0, 1, 1, 1, 0, 1, 1, 1, 0, 1, 1]"

definition M17_PUNCTURING_P2 :: "u8 list" where "M17_PUNCTURING_P2 = [1, 1, 1, 1, 1, 1, 1, 1, 1, 1, 1, 0]"

text \<open>The loop that fills \<open>depunctured\<close>, with \<open>inOffset\<close>.\<close>

definition depuncture_step :: "u8 list \<Rightarrow> u8 list \<Rightarrow> nat \<times> u8 list \<Rightarrow> nat \<Rightarrow> nat \<times> u8 list" where
  "depuncture_step pattern readBuf = (\<lambda>(inOffset, out) i.
    if pattern ! (i mod length pattern) = 0 then (inOffset, out @ [0]) else (inOffset + 1, out @ [readBuf ! inOffset]))"

definition m17_depuncture :: "u8 list \<Rightarrow> nat \<Rightarrow> u8 list \<Rightarrow> u8 list" where
  "m17_depuncture pattern n readBuf = snd (foldl (depuncture_step pattern readBuf) (0, []) [0..<n])"

definition pack_bytes :: "nat \<Rightarrow> u8 list \<Rightarrow> u8 list" where
  "pack_bytes n bits =
    foldl (\<lambda>packed i. packed[i div 8 := (packed ! (i div 8)) OR push_bit (7 - i mod 8) (bits ! i)]) (replicate (n div 8) 0) [0..<n]"

text \<open>\<open>M17LSFDecoder::run\<close>: the decoder of libcorrect writes the frame.\<close>

definition lsf_fec_run :: "(u8 list \<Rightarrow> nat \<Rightarrow> u8 list) \<Rightarrow> M17LSF \<Rightarrow> u8 list \<Rightarrow> M17LSF option" where
  "lsf_fec_run correct_convolutional_decode lsf0 readBuf =
    (let depunctured = m17_depuncture M17_PUNCTURING_P1 M17_ENCODED_LSF_SIZE readBuf;
         packed = pack_bytes M17_ENCODED_LSF_SIZE depunctured;
         decLsf = M17DecodeLSF lsf0 (correct_convolutional_decode packed M17_ENCODED_LSF_SIZE)
     in if valid decLsf then Some decLsf else None)"

text \<open>\<open>M17PayloadFEC::run\<close>: the bytes handed on.\<close>

definition payload_fec_run :: "(u8 list \<Rightarrow> nat \<Rightarrow> u8 list) \<Rightarrow> u8 list \<Rightarrow> u8 list" where
  "payload_fec_run correct_convolutional_decode readBuf =
    (let depunctured = m17_depuncture M17_PUNCTURING_P2 M17_ENCODED_PAYLOAD_SIZE readBuf;
         packed = pack_bytes M17_ENCODED_PAYLOAD_SIZE depunctured
     in take (M17_PAYLOAD_SIZE div 8) (correct_convolutional_decode packed M17_ENCODED_PAYLOAD_SIZE))"

section \<open>Reception by frame number\<close>

definition M17_END_FN :: int where "M17_END_FN = 0x8000"
definition M17_STREAM_TIMEOUT :: int where "M17_STREAM_TIMEOUT = 500"

record m17_codec =
  receiving :: bool
  lastFn :: u16
  lastConseqTime :: int

definition codec_timed_out :: "int \<Rightarrow> m17_codec \<Rightarrow> bool" where
  "codec_timed_out now st \<longleftrightarrow> now - lastConseqTime st > M17_STREAM_TIMEOUT"

definition isReceiving :: "int \<Rightarrow> m17_codec \<Rightarrow> bool" where
  "isReceiving now st \<longleftrightarrow> receiving st \<and> \<not> codec_timed_out now st"

text \<open>The remainder of C, which has the sign of the dividend.\<close>

definition crem :: "int \<Rightarrow> int \<Rightarrow> int" where
  "crem a b = (if 0 \<le> a then a mod b else - ((- a) mod b))"

definition fn_consecutive :: "u16 \<Rightarrow> u16 \<Rightarrow> bool" where
  "fn_consecutive fn prev \<longleftrightarrow> crem (uint fn - uint prev + M17_END_FN) M17_END_FN = 1"

text \<open>
  \<open>run\<close> on the bytes of a frame, with the readings of the clock in milliseconds: the new state, and the
  two parts given to the codec when the frame is played.
\<close>

definition codec_run :: "int \<Rightarrow> u8 list \<Rightarrow> m17_codec \<Rightarrow> m17_codec \<times> (u8 list \<times> u8 list) option" where
  "codec_run now readBuf st =
    (let fn = push_bit 8 (ucast (readBuf ! 0)) OR ucast (readBuf ! 1);
         consecutive = fn_consecutive fn (lastFn st);
         st = (if \<not> receiving st \<and> consecutive then st\<lparr>receiving := True\<rparr>
               else if receiving st \<and> consecutive then st\<lparr>lastConseqTime := now\<rparr>
               else if receiving st \<and> \<not> consecutive \<and> codec_timed_out now st then st\<lparr>receiving := False\<rparr>
               else st);
         st = st\<lparr>lastFn := fn\<rparr>
     in if \<not> receiving st then (st, None) else (st, Some (slice readBuf 2 8, slice readBuf 10 8)))"

end
