(* ===== verification/M17LinkCode.thy ===== *)
theory M17LinkCode
  imports M17Link
begin

text \<open>
  The link information channel of M17 collects a link setup frame from its six chunks, with up to three
  errors in each code word; the de-puncturing and packing give the convolutional decoder every bit
  received, in its place.
\<close>

section \<open>A chunk read back\<close>

text \<open>The twelve bits of a chunk in its word \<open>b\<close>, and the bits a transmitter sends for it, with errors.\<close>

definition lich_word :: "u8 list \<Rightarrow> nat \<Rightarrow> u16" where
  "lich_word c b =
    foldl (\<lambda>v i. v OR push_bit (12 - 1 - i) (drop_bit (7 - (b * 12 + i) mod 8) (ucast (c ! ((b * 12 + i) div 8))) AND 1)) 0 [0..<12]"

definition lich_word_bits :: "u32 \<Rightarrow> u8 list" where "lich_word_bits w = map (\<lambda>i. of_bool (bit w (23 - i))) [0..<24]"

definition lich_bits :: "u8 list \<Rightarrow> u32 list \<Rightarrow> u8 list" where
  "lich_bits c es = concat (map (\<lambda>b. lich_word_bits (encode24 (lich_word c b) XOR push_bit 1 (es ! b))) [0..<4])"

lemma bit_lich_word:
  "bit (lich_word c b) j \<longleftrightarrow> j < 12 \<and> bit (c ! ((b * 12 + (11 - j)) div 8)) (7 - (b * 12 + (11 - j)) mod 8)"
proof (cases "j < 12")
  case True
  have "12 - 1 - j = 11 - j" by simp
  then show ?thesis
    using True unfolding lich_word_def bit_foldl_or [OF order_refl]
    by (auto simp: bit_drop_bit_eq bit_unsigned_iff simp del: bit_0)
next
  case False
  then show ?thesis unfolding lich_word_def bit_foldl_or [OF order_refl] by simp
qed

lemma lich_word_less: "lich_word c b < 4096"
proof -
  have "take_bit 12 (lich_word c b) = lich_word c b"
    by (rule bit_word_eqI) (auto simp: bit_take_bit_iff bit_lich_word)
  then have "take_bit 12 (unat (lich_word c b)) = unat (lich_word c b)" by (metis unsigned_take_bit_eq)
  then show ?thesis by (simp add: word_less_nat_alt take_bit_nat_eq_self_iff)
qed

lemma length_lich_word_bits [simp]: "length (lich_word_bits w) = 24" by (simp add: lich_word_bits_def)

lemma pack_lich_word_bits:
  assumes "\<And>i. i < 24 \<Longrightarrow> readBuf ! (b * 24 + i) = lich_word_bits w ! i" "within 24 w"
  shows "pack_word readBuf b = w"
proof (rule bit_word_eqI)
  fix j assume j: "j < LENGTH(32)"
  have *: "n \<le> 24 \<Longrightarrow> bit (foldl (\<lambda>v i. v OR push_bit (23 - i) (ucast (readBuf ! (b * 24 + i)))) (0 :: u32) [0..<n]) j \<longleftrightarrow>
    24 - n \<le> j \<and> j < 24 \<and> bit w j" for n
  proof (induction n)
    case (Suc n)
    have "readBuf ! (b * 24 + n) = of_bool (bit w (23 - n))" using assms(1) [of n] Suc.prems by (simp add: lich_word_bits_def)
    then have "bit (push_bit (23 - n) (ucast (readBuf ! (b * 24 + n))) :: u32) j \<longleftrightarrow> j = 23 - n \<and> bit w (23 - n)"
      using j by (auto simp: bit_push_bit_iff bit_1_iff)
    moreover have "24 - Suc n \<le> j \<and> j < 24 \<longleftrightarrow> 24 - n \<le> j \<and> j < 24 \<or> j = 23 - n" using Suc.prems by auto
    ultimately show ?case using Suc by (auto simp: bit_or_iff)
  qed auto
  show "bit (pack_word readBuf b) j \<longleftrightarrow> bit w j"
    using * [of 24] assms(2) by (auto simp: pack_word_def within_def subset_iff)
qed

lemma bit_position: "j < 8 \<Longrightarrow> 8 * k + 7 - j = n \<longleftrightarrow> k = n div 8 \<and> j = 7 - n mod 8" for j k n :: nat
proof
  assume "8 * k + 7 - j = n" "j < 8"
  moreover define r where "r = 7 - j"
  ultimately have "n = 8 * k + r" "r < 8" "j = 7 - r" by simp_all
  then show "k = n div 8 \<and> j = 7 - n mod 8" by simp
next
  assume "k = n div 8 \<and> j = 7 - n mod 8"
  moreover have "8 * (n div 8) + n mod 8 = n" "n mod 8 < 8" by simp_all
  ultimately show "8 * k + 7 - j = n" by linarith
qed

text \<open>The chunk filled with the first \<open>n\<close> of the bits of \<open>c\<close>.\<close>

definition chunk_upto :: "nat \<Rightarrow> u8 list \<Rightarrow> u8 list \<Rightarrow> bool" where
  "chunk_upto n c ch \<longleftrightarrow> length ch = 6 \<and>
     (\<forall>k < 6. \<forall>j < 8. bit (ch ! k) j \<longleftrightarrow> 8 * k + 7 - j < n \<and> bit (c ! k) j)"

lemma chunk_put_upto:
  assumes "chunk_upto n c ch" "n < 48" "v = of_bool (bit (c ! (n div 8)) (7 - n mod 8))"
  shows "chunk_upto (Suc n) c (chunk_put ch n v)"
proof -
  have l: "length ch = 6" "n div 8 < 6" using assms(1,2) by (auto simp: chunk_upto_def)
  have "bit (chunk_put ch n v ! k) j \<longleftrightarrow> 8 * k + 7 - j < Suc n \<and> bit (c ! k) j" if "k < 6" "j < 8" for k j
  proof -
    have e: "8 * k + 7 - j = n \<longleftrightarrow> k = n div 8 \<and> j = 7 - n mod 8" using that(2) by (rule bit_position)
    have p: "bit (push_bit (7 - n mod 8) v) j \<longleftrightarrow> j = 7 - n mod 8 \<and> bit (c ! (n div 8)) (7 - n mod 8)"
      using assms(3) that(2) by (auto simp: bit_push_bit_iff bit_1_iff)
    have "bit (chunk_put ch n v ! k) j \<longleftrightarrow> bit (ch ! k) j \<or> (k = n div 8 \<and> j = 7 - n mod 8 \<and> bit (c ! k) j)"
      using that l p by (auto simp: chunk_put_def nth_list_update bit_or_iff)
    then show ?thesis using assms(1) that e by (auto simp: chunk_upto_def less_Suc_eq)
  qed
  then show ?thesis using l by (simp add: chunk_upto_def chunk_put_def)
qed

lemma chunk_word_upto:
  assumes "chunk_upto (b * 12) c ch" "b < 4" "w = encode24 (lich_word c b)"
  shows "chunk_upto (b * 12 + 12) c (chunk_word w b ch)"
proof -
  have bits: "ucast (drop_bit (23 - i) w AND 1) = (of_bool (bit (c ! ((b * 12 + i) div 8)) (7 - (b * 12 + i) mod 8)) :: u8)"
    if "i < 12" for i
  proof -
    note lw = lich_word_less [of c b]
    have "within 11 (golay_reduce (ucast (lich_word c b)))"
      using within_reduce within_mono [OF within_ucast [OF lw], of 23] by simp
    then have "bit (encode23 (lich_word c b)) (22 - i) \<longleftrightarrow> bit (lich_word c b) (11 - i)"
      using that by (auto simp: encode23_def bit_or_iff bit_push_bit_iff bit_unsigned_iff within_def subset_iff)
    moreover have lt: "11 - i < (12 :: nat)" by simp
    moreover have "bit (drop_bit 1 w) (22 - i) \<longleftrightarrow> bit w (23 - i)"
    proof -
      have "1 + (22 - i) = 23 - i" using that by simp
      then show ?thesis by (simp only: bit_drop_bit_eq comp_apply)
    qed
    ultimately have "bit w (23 - i) \<longleftrightarrow> bit (c ! ((b * 12 + i) div 8)) (7 - (b * 12 + i) mod 8)"
      using that encode24_parts(2) [OF lw] lt by (simp add: assms(3) bit_lich_word)
    moreover have "ucast (drop_bit (23 - i) w AND 1) = (of_bool (bit w (23 - i)) :: u8)"
      by (rule bit_word_eqI) (auto simp: bit_unsigned_iff bit_and_iff bit_drop_bit_eq bit_1_iff intro!: gr0I)
    ultimately show ?thesis by simp
  qed
  have "n \<le> 12 \<Longrightarrow> chunk_upto (b * 12 + n) c
    (foldl (\<lambda>ch i. chunk_put ch (b * 12 + i) (ucast (drop_bit (23 - i) w AND 1))) ch [0..<n])" for n
  proof (induction n)
    case (Suc n)
    then show ?case using chunk_put_upto [of "b * 12 + n" c] bits [of n] assms(2) by simp
  qed (use assms(1) in simp)
  then show ?thesis by (simp add: chunk_word_def)
qed

lemma nth_concat_blocks:
  assumes "\<And>b. length (f b) = l" "i < l"
  shows "b < n \<Longrightarrow> concat (map f [0..<n]) ! (b * l + i) = f b ! i"
proof (induction n)
  case (Suc n)
  have l: "length (concat (map f [0..<n])) = n * l" by (simp add: length_concat comp_def assms(1) sum_list_triv)
  show ?case
  proof (cases "b < n")
    case True
    have "b * l + i < (b + 1) * l" using assms(2) by simp
    also have "\<dots> \<le> n * l" using True by (intro mult_le_mono1) simp
    finally show ?thesis using True Suc l by (simp add: nth_append)
  next
    case False
    with Suc.prems have "b = n" by simp
    then show ?thesis using l by (simp add: nth_append)
  qed
qed simp

definition light :: "u32 \<Rightarrow> bool" where "light e \<longleftrightarrow> e < 0x800000 \<and> popcount e \<le> 3"

lemma lich_word_decoded:
  assumes "b < 4" "light (es ! b)"
  shows "golay_decode (pack_word (lich_bits c es) b) 0 = Some (True, encode24 (lich_word c b))"
proof -
  let ?w = "encode24 (lich_word c b) XOR push_bit 1 (es ! b)"
  have e: "within 23 (es ! b)" "ones (es ! b) \<le> 3" using assms(2) by (simp_all add: light_def within_less popcount_ones)
  note parts = encode24_parts [OF lich_word_less, of c b]
  have "within 24 (push_bit 1 (es ! b))" using e(1) by (auto simp: within_def bit_push_bit_iff subset_iff)
  then have "within 24 ?w" using parts(1) by (intro within_xor)
  then have "pack_word (lich_bits c es) b = ?w"
    using nth_concat_blocks [where f = "\<lambda>b. lich_word_bits (encode24 (lich_word c b) XOR push_bit 1 (es ! b))" and l = 24 and n = 4] assms(1)
    by (intro pack_lich_word_bits) (simp_all add: lich_bits_def)
  then show ?thesis
    using golay_decode_error [OF parts(1) _ e, of 0] parts by (simp add: parity_ones)
qed

lemma chunk_upto_48: "chunk_upto 48 c ch \<Longrightarrow> length c = 6 \<Longrightarrow> ch = c"
proof (rule nth_equalityI)
  assume a: "chunk_upto 48 c ch" "length c = 6"
  then show "length ch = length c" by (simp add: chunk_upto_def)
  fix k assume "k < length ch"
  with a show "ch ! k = c ! k"
    by (intro bit_word_eqI) (auto simp: chunk_upto_def)
qed

lemma chunk_decoded:
  assumes "length c = 6" "length es = 4" "list_all light es"
  shows "decode_words (lich_bits c es) [0..<4] (replicate 6 0) = Some (Chunk c)"
proof -
  have d: "golay_decode (pack_word (lich_bits c es) b) 0 = Some (True, encode24 (lich_word c b))" if "b < 4" for b
    using lich_word_decoded that assms(2,3) by (simp add: list_all_length)
  define c1 where "c1 = chunk_word (encode24 (lich_word c 0)) 0 (replicate 6 0)"
  define c2 where "c2 = chunk_word (encode24 (lich_word c 1)) 1 c1"
  define c3 where "c3 = chunk_word (encode24 (lich_word c 2)) 2 c2"
  define c4 where "c4 = chunk_word (encode24 (lich_word c 3)) 3 c3"
  have "chunk_upto 0 c (replicate 6 0)" by (simp add: chunk_upto_def)
  then have "chunk_upto 12 c c1" using chunk_word_upto [of 0 c "replicate 6 0"] by (simp add: c1_def)
  then have "chunk_upto 24 c c2" using chunk_word_upto [of 1 c c1] by (simp add: c2_def)
  then have "chunk_upto 36 c c3" using chunk_word_upto [of 2 c c2] by (simp add: c3_def)
  then have "chunk_upto 48 c c4" using chunk_word_upto [of 3 c c3] by (simp add: c4_def)
  then have "c4 = c" using assms(1) by (rule chunk_upto_48)
  moreover have "[0..<4] = [0, 1, 2, 3 :: nat]" by (simp add: upt_rec)
  ultimately show ?thesis by (simp add: d c1_def c2_def c3_def c4_def)
qed

section \<open>A link setup frame from six chunks\<close>

text \<open>The chunk with number \<open>k\<close> of a frame; its last five bits are reserved.\<close>

definition lich_chunk :: "u8 list \<Rightarrow> nat \<Rightarrow> u8 \<Rightarrow> u8 list" where
  "lich_chunk frame k r = slice frame (5 * k) 5 @ [push_bit 5 (of_nat k) OR take_bit 5 r]"

lemma chunk_id: "k < 8 \<Longrightarrow> uint (drop_bit 5 (push_bit 5 (of_nat k) OR take_bit 5 (r :: u8))) = int k"
proof -
  assume k: "k < 8"
  have "drop_bit 5 (push_bit 5 (of_nat k) OR take_bit 5 r) = (of_nat k :: u8)"
  proof (rule bit_word_eqI)
    fix j assume "j < LENGTH(8)"
    have "(of_nat k :: u8) < 2 ^ 3" using k by (simp add: word_less_nat_alt unat_of_nat_lt)
    then have "\<not> bit (of_nat k :: u8) j" if "3 \<le> j" using bit_high that by blast
    then show "bit (drop_bit 5 (push_bit 5 (of_nat k) OR take_bit 5 r)) j \<longleftrightarrow> bit (of_nat k :: u8) j"
      by (cases "3 \<le> j") (auto simp: bit_drop_bit_eq bit_or_iff bit_push_bit_iff bit_take_bit_iff dest: bit_imp_le_length)
  qed
  then show ?thesis using k by (simp add: uint_nat unat_of_nat_lt)
qed

lemma lsf_prefix: "30 \<le> length x \<Longrightarrow> M17DecodeLSF lsf0 x = M17DecodeLSF lsf0 (take 30 x)"
proof -
  assume l: "30 \<le> length x"
  have f: "lsf_field w off (take 30 x) = (lsf_field w off x :: 'a::len word)" if "w + off \<le> 240" for w off
    unfolding lsf_field_def using that by (intro foldl_cong) auto
  have "map (\<lambda>i. take 30 x ! i) [0..<28] = map (\<lambda>i. x ! i) [0..<28]" by simp
  moreover have "slice (take 30 x) 14 14 = slice x 14 14" by (simp add: slice_def drop_take)
  moreover have "16 + 224 \<le> (240 :: nat)" "48 + 0 \<le> (240 :: nat)" "48 + 48 \<le> (240 :: nat)" "16 + 96 \<le> (240 :: nat)" by simp_all
  ultimately show ?thesis by (simp only: M17DecodeLSF_def f Let_def)
qed

text \<open>The state between the chunks.\<close>

definition lich_at :: "u8 list \<Rightarrow> nat \<Rightarrow> m17_lich \<Rightarrow> bool" where
  "lich_at frame k st \<longleftrightarrow> newFrame st \<and> lastId st = int k - 1 \<and> length (lsf st) = 240 \<and> take (5 * k) (lsf st) = take (5 * k) frame"

lemma lich_start:
  assumes "length frame = 30" "length es = 4" "list_all light es" "length (lsf st) = 240"
  shows "\<exists>st'. lich_run lsf0 (lich_bits (lich_chunk frame 0 r) es) st = Some (st', None) \<and> lich_at frame 1 st'"
proof -
  have c: "length (lich_chunk frame 0 r) = 6" using assms(1) by (simp add: lich_chunk_def)
  have "lich_chunk frame 0 r ! 5 = push_bit 5 (of_nat 0) OR take_bit 5 r" using assms(1) by (simp add: lich_chunk_def nth_append)
  then have i: "uint (drop_bit 5 (lich_chunk frame 0 r ! 5)) = 0" using chunk_id [of 0 r] by simp
  have t: "take 5 (lich_chunk frame 0 r) = take 5 frame" using assms(1) by (simp add: lich_chunk_def slice_def)
  show ?thesis
    using assms by (auto simp: lich_run_def chunk_decoded [OF c assms(2,3)] i t lich_at_def blit_def)
qed

text \<open>The next chunk: it goes behind the others, and the sixth completes the frame.\<close>

lemma lich_next:
  assumes "length frame = 30" "length es = 4" "list_all light es" "lich_at frame k st" "1 \<le> k" "k \<le> 5"
  obtains st' where "length (lsf st') = 240" "take (5 * (k + 1)) (lsf st') = take (5 * (k + 1)) frame"
    "lich_run lsf0 (lich_bits (lich_chunk frame k r) es) st =
      Some (if k = 5 then (st'\<lparr>newFrame := False\<rparr>, if valid (M17DecodeLSF lsf0 (lsf st')) then Some (M17DecodeLSF lsf0 (lsf st')) else None)
            else (st', None))"
    "lich_at frame (k + 1) st'"
proof -
  let ?c = "lich_chunk frame k r"
  have c: "length ?c = 6" using assms(1,6) by (simp add: lich_chunk_def)
  have "?c ! 5 = push_bit 5 (of_nat k) OR take_bit 5 r" using assms(1,6) by (simp add: lich_chunk_def nth_append)
  then have i: "uint (drop_bit 5 (?c ! 5)) = int k" using chunk_id [of k r] assms(6) by simp
  have t: "take 5 ?c = slice frame (5 * k) 5" using assms(1,6) by (simp add: lich_chunk_def)
  let ?l = "blit (lsf st) (k * 5) (take 5 ?c)"
  let ?st = "st\<lparr>chunk := ?c, lastId := int k, lsf := ?l\<rparr>"
  have l: "length (lsf st) = 240" "newFrame st" "lastId st = int k - 1" "take (5 * k) (lsf st) = take (5 * k) frame"
    using assms(4) by (auto simp: lich_at_def)
  have len: "length ?l = 240" using l(1) assms(1,6) by (simp add: t)
  have "take (5 * k + 5) ?l = take (5 * k) (lsf st) @ slice frame (5 * k) 5"
    using l(1) assms(1,6) by (simp add: blit_def t mult.commute)
  also have "\<dots> = take (5 * k + 5) frame" unfolding l(4) slice_def by (simp add: take_add)
  also have "5 * k + 5 = 5 * (k + 1)" by simp
  finally have pre: "take (5 * (k + 1)) ?l = take (5 * (k + 1)) frame" .
  show thesis
  proof (rule that [of ?st])
    show "length (lsf ?st) = 240" "take (5 * (k + 1)) (lsf ?st) = take (5 * (k + 1)) frame" using len pre by simp_all
    show "lich_at frame (k + 1) ?st" using l len pre by (simp add: lich_at_def)
    show "lich_run lsf0 (lich_bits ?c es) st =
      Some (if k = 5 then (?st\<lparr>newFrame := False\<rparr>, if valid (M17DecodeLSF lsf0 (lsf ?st)) then Some (M17DecodeLSF lsf0 (lsf ?st)) else None)
            else (?st, None))"
      using assms(5) l by (simp add: lich_run_def chunk_decoded [OF c assms(2,3)] i Let_def)
  qed
qed

text \<open>The six inputs a frame is sent in, the errors of each word given.\<close>

definition lich_inputs :: "u8 list \<Rightarrow> u8 list \<Rightarrow> u32 list list \<Rightarrow> u8 list list" where
  "lich_inputs frame rs ess = map (\<lambda>k. lich_bits (lich_chunk frame k (rs ! k)) (ess ! k)) [0..<6]"

lemma lich_collects:
  assumes "length frame = 30" "length (lsf st) = 240" "length ess = 6" "list_all (\<lambda>es. length es = 4 \<and> list_all light es) ess"
  shows "\<exists>st'. lich_runs lsf0 (lich_inputs frame rs ess) st =
    Some (st', if valid (M17DecodeLSF lsf0 frame) then [M17DecodeLSF lsf0 frame] else [])"
proof -
  have es: "length (ess ! k) = 4" "list_all light (ess ! k)" if "k < 6" for k
    using assms(3,4) that by (auto simp: list_all_length)
  let ?x = "\<lambda>k. lich_bits (lich_chunk frame k (rs ! k)) (ess ! k)"
  have inputs: "lich_inputs frame rs ess = [?x 0, ?x 1, ?x 2, ?x 3, ?x 4, ?x 5]"
  proof -
    have "[0..<6] = [0, 1, 2, 3, 4, 5 :: nat]" by (simp add: upt_rec)
    then show ?thesis by (simp add: lich_inputs_def)
  qed
  obtain s1 where s1: "lich_run lsf0 (?x 0) st = Some (s1, None)" "lich_at frame 1 s1"
    using lich_start [OF assms(1) es [of 0] assms(2)] by auto
  have mid: "\<exists>s'. lich_run lsf0 (?x k) s = Some (s', None) \<and> lich_at frame (k + 1) s'"
    if "lich_at frame k s" "1 \<le> k" "k < 5" for k s
  proof -
    have k: "k < 6" "k \<le> 5" "k \<noteq> 5" using that by auto
    show ?thesis
      by (rule lich_next [OF assms(1) es [OF k(1)] that(1,2) k(2), of lsf0 "rs ! k"]) (use k(3) in auto)
  qed
  obtain s2 where s2: "lich_run lsf0 (?x 1) s1 = Some (s2, None)" "lich_at frame 2 s2" using mid [OF s1(2)] by (auto simp: numeral_2_eq_2)
  obtain s3 where s3: "lich_run lsf0 (?x 2) s2 = Some (s3, None)" "lich_at frame 3 s3" using mid [OF s2(2)] by auto
  obtain s4 where s4: "lich_run lsf0 (?x 3) s3 = Some (s4, None)" "lich_at frame 4 s4" using mid [OF s3(2)] by auto
  obtain s5 where s5: "lich_run lsf0 (?x 4) s4 = Some (s5, None)" "lich_at frame 5 s5" using mid [OF s4(2)] by auto
  obtain s6 where s6: "length (lsf s6) = 240" "take 30 (lsf s6) = take 30 frame"
    "lich_run lsf0 (?x 5) s5 =
      Some (s6\<lparr>newFrame := False\<rparr>, if valid (M17DecodeLSF lsf0 (lsf s6)) then Some (M17DecodeLSF lsf0 (lsf s6)) else None)"
    by (rule lich_next [OF assms(1) es [of 5] s5(2), of lsf0 "rs ! 5"]) auto
  have "30 \<le> length (lsf s6)" "30 \<le> length frame" using s6(1) assms(1) by simp_all
  from this [THEN lsf_prefix, of lsf0] have e: "M17DecodeLSF lsf0 (lsf s6) = M17DecodeLSF lsf0 frame"
    by (simp only: s6(2))
  have "lich_runs lsf0 (lich_inputs frame rs ess) st =
    Some (s6\<lparr>newFrame := False\<rparr>, (case if valid (M17DecodeLSF lsf0 frame) then Some (M17DecodeLSF lsf0 frame) else None of
      None \<Rightarrow> [] | Some l \<Rightarrow> [l]))"
    unfolding inputs
    by (simp only: lich_runs.simps option.case prod.case s1(1) s2(1) s3(1) s4(1) s5(1) s6(3) e)
  then show ?thesis by (cases "valid (M17DecodeLSF lsf0 frame)") simp_all
qed

text \<open>
  C16. A link setup frame sent over the link information channel arrives: its six chunks, each as four Golay
  words with up to three errors in the 23 bits of each, bring exactly one frame to the handler, valid and with the call
  signs, type and meta data sent, whatever frame was being collected before.
\<close>

theorem lich_delivers_link_setup:
  assumes "callsign_ok cd" "callsign_ok cs" "length m = 14" "length (lsf st) = 240"
    "length ess = 6" "list_all (\<lambda>es. length es = 4 \<and> list_all light es) ess"
  shows "\<exists>st' l. lich_runs lsf0 (lich_inputs (lsf_bytes (callsign_word cd) (callsign_word cs) t m) rs ess) st = Some (st', [l]) \<and>
    dst l = cd \<and> src l = cs \<and> rawType l = t \<and> meta l = m \<and> valid l"
proof -
  have "length (lsf_bytes (callsign_word cd) (callsign_word cs) t m) = 30" using assms(3) by (simp add: lsf_bytes_def Let_def)
  then show ?thesis
    using lich_collects [OF _ assms(4-6), of "lsf_bytes (callsign_word cd) (callsign_word cs) t m" lsf0 rs]
    by (fastforce simp: lsf_link [OF assms(1-3)])
qed

section \<open>De-puncturing reads the frame\<close>

definition kept_before :: "u8 list \<Rightarrow> nat \<Rightarrow> nat" where
  "kept_before pattern n = length (filter (\<lambda>i. pattern ! (i mod length pattern) \<noteq> 0) [0..<n])"

lemma depuncture_fold:
  "foldl (depuncture_step pattern readBuf) (0, []) [0..<n] =
    (kept_before pattern n, map (\<lambda>i. if pattern ! (i mod length pattern) = 0 then 0 else readBuf ! kept_before pattern i) [0..<n])"
  by (induction n) (simp_all add: depuncture_step_def kept_before_def)

lemma depuncture_map:
  "m17_depuncture pattern n readBuf =
    map (\<lambda>i. if pattern ! (i mod length pattern) = 0 then 0 else readBuf ! kept_before pattern i) [0..<n]"
  by (simp add: m17_depuncture_def depuncture_fold)

text \<open>A transmitter drops the bits the pattern names.\<close>

definition m17_puncture :: "u8 list \<Rightarrow> u8 list \<Rightarrow> u8 list" where
  "m17_puncture pattern bits = map (\<lambda>i. bits ! i) (filter (\<lambda>i. pattern ! (i mod length pattern) \<noteq> 0) [0..<length bits])"

lemma puncture_depuncture:
  "m17_depuncture pattern (length bits) (m17_puncture pattern bits @ rest) =
    map (\<lambda>i. if pattern ! (i mod length pattern) = 0 then 0 else bits ! i) [0..<length bits]"
proof -
  have "(m17_puncture pattern bits @ rest) ! kept_before pattern i = bits ! i"
    if "i < length bits" "pattern ! (i mod length pattern) \<noteq> 0" for i
  proof -
    let ?P = "\<lambda>i. pattern ! (i mod length pattern) \<noteq> 0"
    have "[0..<length bits] = [0..<i] @ i # [Suc i..<length bits]"
      using that(1) by (metis upt_conv_Cons upt_add_eq_append le_add_diff_inverse less_imp_le_nat zero_le)
    then have "filter ?P [0..<length bits] = filter ?P [0..<i] @ i # filter ?P [Suc i..<length bits]"
      using that(2) by simp
    then show ?thesis by (simp add: m17_puncture_def kept_before_def nth_append)
  qed
  then show ?thesis by (simp add: depuncture_map)
qed

lemma kept_before_mod:
  "kept_before pattern (length pattern * k) = k * kept_before pattern (length pattern)"
proof (induction k)
  case (Suc k)
  let ?n = "length pattern"
  have "[0..<?n * k + ?n] = [0..<?n * k] @ [?n * k..<?n * k + ?n]" by (rule upt_add_eq_append) simp
  also have "[?n * k..<?n * k + ?n] = map (\<lambda>i. i + ?n * k) [0..<?n]" by (simp add: map_add_upt add.commute)
  finally have "[0..<?n * Suc k] = [0..<?n * k] @ map (\<lambda>i. i + ?n * k) [0..<?n]" by (simp add: add.commute)
  then show ?case using Suc by (simp add: kept_before_def filter_map comp_def)
qed (simp add: kept_before_def)

lemma kept_sizes: "kept_before M17_PUNCTURING_P1 488 = 368" "kept_before M17_PUNCTURING_P2 296 = 272"
proof -
  have q: "length M17_PUNCTURING_P1 = 61" by (simp add: M17_PUNCTURING_P1_def)
  have "length (filter (\<lambda>i. M17_PUNCTURING_P1 ! (i mod 61) \<noteq> 0) [0..<61]) = 46"
    by (simp add: M17_PUNCTURING_P1_def upt_rec)
  then have "kept_before M17_PUNCTURING_P1 61 = 46" by (simp only: kept_before_def q)
  then show "kept_before M17_PUNCTURING_P1 488 = 368"
    using kept_before_mod [of M17_PUNCTURING_P1 8, unfolded q] by simp
  have p: "length M17_PUNCTURING_P2 = 12" by (simp add: M17_PUNCTURING_P2_def)
  have "length (filter (\<lambda>i. M17_PUNCTURING_P2 ! (i mod 12) \<noteq> 0) [0..<12]) = 11"
    by (simp add: M17_PUNCTURING_P2_def upt_rec)
  then have "kept_before M17_PUNCTURING_P2 12 = 11" by (simp only: kept_before_def p)
  then have "kept_before M17_PUNCTURING_P2 288 = 264" using kept_before_mod [of M17_PUNCTURING_P2 24, unfolded p] by simp
  moreover have "[0..<296] = [0..<288] @ [288..<296]" using upt_add_eq_append [of 0 288 8] by simp
  moreover have "length (filter (\<lambda>i. M17_PUNCTURING_P2 ! (i mod 12) \<noteq> 0) [288..<296]) = 8"
    by (simp add: M17_PUNCTURING_P2_def upt_rec)
  ultimately show "kept_before M17_PUNCTURING_P2 296 = 272" by (simp add: kept_before_def p)
qed

section \<open>The bytes for the convolutional decoder\<close>

lemma pack_bytes_bit:
  assumes "is_bits bits" "length bits = n" "n mod 8 = 0" "k < n div 8" "j < 8"
  shows "bit (pack_bytes n bits ! k) j \<longleftrightarrow> bits ! (8 * k + 7 - j) = 1"
proof -
  let ?f = "\<lambda>packed i. packed[i div 8 := (packed ! (i div 8)) OR push_bit (7 - i mod 8) (bits ! i)]"
  have "m \<le> n \<Longrightarrow> length (foldl ?f (replicate (n div 8) 0) [0..<m]) = n div 8 \<and>
    (bit (foldl ?f (replicate (n div 8) 0) [0..<m] ! k) j \<longleftrightarrow> 8 * k + 7 - j < m \<and> bits ! (8 * k + 7 - j) = 1)" for m
  proof (induction m)
    case 0
    then show ?case using assms(4) by simp
  next
    case (Suc m)
    let ?p = "foldl ?f (replicate (n div 8) 0) [0..<m]"
    have e: "8 * k + 7 - j = m \<longleftrightarrow> k = m div 8 \<and> j = 7 - m mod 8" using assms(5) by (rule bit_position)
    have b: "bit (push_bit (7 - m mod 8) (bits ! m)) j \<longleftrightarrow> j = 7 - m mod 8 \<and> bits ! m = 1"
      using is_bits_nth [OF assms(1), of m] Suc.prems assms(2,5) by (auto simp: bit_push_bit_iff bit_1_iff)
    have l: "length ?p = n div 8" "k < length ?p" using Suc assms(4) by simp_all
    have "bit (?f ?p m ! k) j \<longleftrightarrow> bit (?p ! k) j \<or> (k = m div 8 \<and> j = 7 - m mod 8 \<and> bits ! m = 1)"
      using l(2) b by (cases "k = m div 8") (auto simp: bit_or_iff)
    moreover have t: "k = m div 8 \<and> j = 7 - m mod 8 \<and> bits ! m = 1 \<longleftrightarrow> 8 * k + 7 - j = m \<and> bits ! (8 * k + 7 - j) = 1"
      using e by metis
    moreover have "bit (?p ! k) j \<longleftrightarrow> 8 * k + 7 - j < m \<and> bits ! (8 * k + 7 - j) = 1" using Suc by simp
    ultimately have "bit (?f ?p m ! k) j \<longleftrightarrow> 8 * k + 7 - j < Suc m \<and> bits ! (8 * k + 7 - j) = 1"
      unfolding less_Suc_eq using t by blast
    then show ?case using l(1) by simp
  qed
  moreover have "8 * k + 7 - j < n"
  proof -
    have "n = 8 * (n div 8)" using assms(3) by auto
    moreover have "8 * k + 7 < 8 * (n div 8)" using assms(4) by linarith
    ultimately show ?thesis by linarith
  qed
  ultimately show ?thesis by (simp add: pack_bytes_def)
qed

text \<open>
  What the decoder of the link setup frame is given for a coded frame: its bits in their order, zero
  where they were punctured.
\<close>

text \<open>
  What the convolutional decoder is given for a coded link setup frame of 488 bits, of which the transmitter sends
  368: packed into bytes, most significant bit first, every bit in its place, and zero for those punctured.
\<close>

theorem lsf_fec_input:
  assumes "length bits = 488" "is_bits bits" "k < 61" "j < 8"
  shows "bit (pack_bytes 488 (m17_depuncture M17_PUNCTURING_P1 488 (m17_puncture M17_PUNCTURING_P1 bits)) ! k) j \<longleftrightarrow>
      M17_PUNCTURING_P1 ! ((8 * k + 7 - j) mod 61) \<noteq> 0 \<and> bits ! (8 * k + 7 - j) = 1"
    "length (m17_puncture M17_PUNCTURING_P1 bits) = 368"
proof -
  let ?d = "m17_depuncture M17_PUNCTURING_P1 488 (m17_puncture M17_PUNCTURING_P1 bits)"
  have p: "length M17_PUNCTURING_P1 = 61" by (simp add: M17_PUNCTURING_P1_def)
  have d: "?d = map (\<lambda>i. if M17_PUNCTURING_P1 ! (i mod 61) = 0 then 0 else bits ! i) [0..<488]"
    using puncture_depuncture [of M17_PUNCTURING_P1 bits "[]"] assms(1) p by simp
  have b: "bits ! i = 0 \<or> bits ! i = 1" if "i < 488" for i using is_bits_nth [OF assms(2)] assms(1) that by simp
  have "is_bits ?d" unfolding d is_bits_def by (auto, metis b)
  moreover have "8 * k + 7 - j < 488" using assms(3,4) by linarith
  ultimately show "bit (pack_bytes 488 ?d ! k) j \<longleftrightarrow>
      M17_PUNCTURING_P1 ! ((8 * k + 7 - j) mod 61) \<noteq> 0 \<and> bits ! (8 * k + 7 - j) = 1"
    using pack_bytes_bit [of ?d 488 k j] assms(3,4) d by simp
  show "length (m17_puncture M17_PUNCTURING_P1 bits) = 368"
    using kept_sizes(1) assms(1) by (simp add: m17_puncture_def kept_before_def)
qed

section \<open>Reception\<close>

text \<open>A gap in the frame numbers does not stop the reception at once, only after the timeout.\<close>

lemma codec_gap:
  assumes "receiving st" "\<not> codec_timed_out now st"
  shows "receiving (fst (codec_run now readBuf st))" "snd (codec_run now readBuf st) = Some (slice readBuf 2 8, slice readBuf 10 8)"
  using assms by (simp_all add: codec_run_def Let_def)

text \<open>The frame that starts the reception does not set the time, so that a reception that starts long after
  the last one is played but reported only from its next frame on.\<close>

lemma codec_start_unreported:
  assumes "\<not> receiving st" "fn_consecutive fn (lastFn st)" "readBuf ! 0 = ucast (drop_bit 8 fn)" "readBuf ! 1 = ucast fn"
    "codec_timed_out now st"
  shows "snd (codec_run now readBuf st) = Some (slice readBuf 2 8, slice readBuf 10 8)"
    "\<not> isReceiving now (fst (codec_run now readBuf st))"
proof -
  have "push_bit 8 (ucast (readBuf ! 0)) OR ucast (readBuf ! 1) = fn"
    unfolding assms(3,4)
    by (rule bit_word_eqI) (auto simp: bit_or_iff bit_push_bit_iff bit_unsigned_iff bit_drop_bit_eq)
  then show "snd (codec_run now readBuf st) = Some (slice readBuf 2 8, slice readBuf 10 8)"
    "\<not> isReceiving now (fst (codec_run now readBuf st))"
    using assms(1,2,5) by (simp_all add: codec_run_def Let_def isReceiving_def codec_timed_out_def)
qed

theorem lich_delivers_link_setup_witness:
  "\<exists>st' l. lich_runs lsf_memory (lich_inputs (lsf_bytes (callsign_word ''W2FBI'') (callsign_word ''AB1CD/P'') 5 (replicate 14 0))
      (replicate 6 0) (replicate 6 [1, 0x400201, 0, 7])) (lich_init (replicate 6 0) (replicate 240 0)) = Some (st', [l]) \<and>
    dst l = ''W2FBI'' \<and> src l = ''AB1CD/P'' \<and> rawType l = 5 \<and> meta l = replicate 14 0 \<and> valid l"
  by (rule lich_delivers_link_setup)
    (simp_all add: callsign_ok_def base40_alphabet_def lich_init_def light_def popcount_def upt_rec list_all_iff)

end
