(* ===== verification/Spec2Isabelle.thy ===== *)
theory Spec2Isabelle
  imports Tdma Crc Interleave Scramble Rm3014 TchReorder ConvEnc OsmoConv ViterbiMax Viterbi Hurdle Taa1 Tea Common TetraCrypto Burst BurstSync MacPdu PduNames UpperMac Reassembly LowerMac ReceiveChain PduLoop Receiver RingBuffer RingThreads StreamLink Decoder RdsGroups M17FrameRun M17LinkCode
begin

text \<open>
  Three digital decoders of SDR++ Brown, modelled from the decided symbols or bits up to what they deliver,
  with the buffers that link them to the rest of the program: TETRA
  (\<open>decoder_modules/ch_tetra_demodulator/src\<close>), the largest, RDS (\<open>decoder_modules/radio/src/rds.cpp\<close>) and
  M17 (\<open>decoder_modules/m17_decoder/src\<close>). Paths without a leading \<open>dsp\<close>, \<open>core\<close> or module are relative to
  the directory \<open>decoder/src\<close> of the TETRA module.

  \<^bold>\<open>TETRA and its model.\<close> The decoder block (\<open>dsp/osmotetra_dec.h\<close>,
  \<open>dsp/dqpsk_sym_extr.cpp\<close>, \<open>dsp/bit_unpacker.cpp\<close>, theory \<open>Decoder\<close>) takes symbols from a stream
  (\<open>core/src/dsp/stream.h\<close>, \<open>StreamLink\<close>), unpacks them to bits, collects speech in a ring buffer
  (\<open>core/src/dsp/buffer/ring_buffer.h\<close>, \<open>RingBuffer\<close>, \<open>RingThreads\<close>) and hands bits to \<open>tetra_burst_sync_in\<close>
  (\<open>phy/tetra_burst_sync.c\<close>, theory \<open>BurstSync\<close>), which keeps a 4096-bit window of the stream, finds the
  training sequences (\<open>phy/tetra_burst.c\<close>, \<open>Burst\<close>), advances the TDMA clock (\<open>tetra_tdma.c\<close>, \<open>Tdma\<close>)
  and calls \<open>tetra_burst_rx_cb\<close>. That cuts a burst into blocks and gives each to
  \<open>tp_sap_udata_ind\<close> (\<open>lower_mac/tetra_lower_mac.c\<close>, both in \<open>LowerMac\<close>): descrambling
  (\<open>lower_mac/tetra_scramb.c\<close>, \<open>Scramble\<close>), de-interleaving (\<open>tetra_interleave.c\<close>, \<open>Interleave\<close>),
  de-puncturing (\<open>tetra_conv_enc.c\<close>, \<open>ConvEnc\<close>), Viterbi decoding (\<open>osmo_conv.c\<close>, \<open>viterbi*.c\<close>,
  \<open>OsmoConv\<close>) and the check sequence (\<open>crc_simple.c\<close>, \<open>Crc\<close>). A synchronisation block sets clock, cell
  and scrambling code; speech frames go through \<open>tch_reordering.c\<close> (\<open>TchReorder\<close>) and the codec. The
  decoded bits become the message of a primitive (\<open>tetra_common.c\<close>, \<open>tetra_prim.h\<close>, \<open>Common\<close>) that the
  upper MAC (\<open>tetra_upper_mac.c\<close>, \<open>tetra_fragslot.h\<close>, \<open>UpperMac\<close>) parses PDU by PDU with the decoders of
  \<open>tetra_mac_pdu.c\<close> (\<open>MacPdu\<close>), decrypts (\<open>crypto/tetra_crypto.c\<close>, \<open>TetraCrypto\<close>, over the TEA
  generators, \<open>Tea\<close>, and the key functions \<open>crypto/taa1.c\<close>, \<open>crypto/hurdle.c\<close>, \<open>Taa1\<close>, \<open>Hurdle\<close>) and
  reassembles. \<open>PduNames\<close> holds the names and textual forms, \<open>Rm3014\<close> the code of the access assignment
  channel, \<open>Prelude\<close> what all of them share.

  \<^bold>\<open>RDS.\<close> \<open>Rds\<close> has the code of the blocks (\<open>calcSyndrome\<close>, \<open>correctErrors\<close>), \<open>RdsCallsign\<close> the call
  letters in the programme identification, \<open>RdsDecoder\<close> the class itself: the bit-wise synchronisation of
  \<open>process\<close>, the groups 0, 2 and 10, and what is valid when. \<open>RdsGroups\<close> gives what a listener sees an
  abstract specification, which the class refines.

  \<^bold>\<open>M17.\<close> \<open>M17Frame\<close> has the demultiplexer of frames (\<open>M17FrameDemux\<close> of \<open>m17dsp.h\<close>), \<open>M17Golay\<close> the code
  of \<open>golay24.h\<close> with the quicksort of its table, \<open>M17Lsf\<close> the link setup frame (\<open>lsf_decode.cpp\<close>,
  \<open>base40.cpp\<close>, \<open>crc16.h\<close>), \<open>M17Link\<close> what is behind the frames: \<open>M17LICHDecoder\<close>, which collects a link
  setup frame from six chunks, the de-puncturing for the convolutional decoder (\<open>M17LSFDecoder\<close>,
  \<open>M17PayloadFEC\<close>) and the start and stop of reception (\<open>M17Codec2Decode\<close>). The proofs are in
  \<open>M17FrameRun\<close>, \<open>M17GolayCode\<close>, \<open>M17LsfCode\<close> and \<open>M17LinkCode\<close>.

  \<^bold>\<open>How the state corresponds.\<close> Each C structure is a record with its fields at their widths. The
  static \<open>t_phy_state.time\<close> is the first component of the state the receiver passes along, the rest is
  the record \<open>receiver\<close> of \<open>LowerMac\<close>: \<open>tetra_cell_data\<close>, \<open>tetra_mac_state\<close> with its display, crypto
  state and fragment slots, the codec's static memory and the frames handed to \<open>put_voice_data\<close>. The classes of RDS and M17
  are records of their members; of a buffer only the part is kept that is read again.
  Uninitialised memory (stack buffers, \<open>malloc\<close>) is a parameter, so every theorem holds for whatever was
  there. A read or write outside an object, or a failing assertion, is a value of an error type.

  \<^bold>\<open>What the lemmas show.\<close> The stages of the channel coding are undone by their counterparts
  (locales \<open>coding_stage\<close> and \<open>coding_chain\<close>, interpreted on the code's own functions); the butterfly
  decoder with 16-bit metrics computes the dynamic program of locale \<open>viterbi_trellis\<close> and so returns a
  best path (\<open>ViterbiMax\<close>, \<open>Viterbi\<close>); \<open>ReceiveChain\<close> composes them: what a transmitter built from the
  encoder sends is what \<open>decode_block\<close> returns. \<open>BurstSync\<close> shows when the window stays in its buffer
  and what is delivered; \<open>Reassembly\<close> follows a message through its fragments, with the invariant of the
  slots; \<open>PduLoop\<close> characterises when the loop over the PDUs of a block returns; \<open>Receiver\<close> composes
  everything over whole runs. \<open>RingThreads\<close> and \<open>StreamLink\<close> take the locked sections of two threads as
  the steps of a relation and show, for every interleaving, that the buffers are channels that lose and
  repeat nothing; \<open>RingBuffer\<close> gives the contract for one thread (locale \<open>sample_fifo\<close>, interpreted on
  the code), on which \<open>Decoder\<close> rests: no speech is lost on its way out. The ciphers have their round trips (locale \<open>block_cipher\<close>), their key
  streams their extension law (locale \<open>keystream\<close>). For RDS: the syndrome is
  linear, so bursts of up to five bits are corrected, and no input makes the decoder leave its arrays. For M17:
  code words lie seven bits apart (the kernel enumerates the light combinations of the generator rows), so the sorted
  table holds each syndrome once and three errors are corrected, four detected; the loop of the demultiplexer takes one step per bit, so that
  the cutting of the stream into blocks does not matter and a frame arrives bit for bit; a link setup
  frame read back from six damaged chunks is the one sent. Where the code goes wrong the model does too, and a
  theorem says so.

  \<^bold>\<open>Loops and fuel.\<close> Counted loops are folds or structural recursion. The loop over the PDUs of a
  block may run for ever and is a \<open>partial_function\<close> in the option monad: \<^theory_text>\<open>None\<close> is
  the loop that does not return, kept apart from the errors (\<^theory_text>\<open>Inl\<close>) and the results
  (\<^theory_text>\<open>Inr\<close>). No definition uses fuel.

  \<^bold>\<open>Not modelled.\<close> The ETSI speech codec is downloaded by a script and not in the repository: the record
  \<open>etsi_codec\<close> of its functions is a parameter. \<open>decrypt_identity\<close> is an empty stub in the source, so
  \<open>decrypt_resource\<close> omits the call. Printing, logging and the text dumps of keys have no effect on the
  state. The logical link layer is renamed out of the build (\<open>tetra_llc*.coff\<close>). The readings of the clock
  are arguments of the operations of RDS and M17; their mutexes, which only separate whole handlers from readers of the window, are
  left out. libcorrect and codec2 are parameters or end points of the M17 model, its slicer is floating point.
  The floating point
  demodulation (with the error measure of the symbol extractor and the diagnostics of
  \<open>osmotetradec::process\<close> that nothing reads), the conversion of VOLK (a parameter), the threads of the signal path, the GUI, the drivers and the vendored libraries of the
  rest of SDR++ are outside the scope of this development.
\<close>

end
